(* ===== verification/Prelude.thy ===== *)
theory Prelude
  imports Complex_Main "HOL-Library.Product_Lexorder" "HOL-Library.List_Lexorder" "HOL-Library.Char_ord"
begin

text \<open>
  What every component of the development shares: the errors of the Python code as values, the
  result type of a fallible call, the clock types, the list idioms of the sources
  (\<open>next(x for ...)\<close>, \<open>min(..., key=..., default=None)\<close>, \<open>zip(xs, xs[1:])\<close>) with their lemmas, and
  the collections of rewrite rules the component theories extend.

  Strings are ordered lexicographically by code unit and tuples lexicographically by component, as
  Python orders them (\<open>List_Lexorder\<close>, \<open>Char_ord\<close>, \<open>Product_Lexorder\<close>).
\<close>

named_theorems decimal_simps
  "rewrite rules for the decimal context and the exact decimal policy"

named_theorems valid_defs
  "definitions of the field constraints and model validators"

named_theorems step_defs
  "definitions of the operations that a proof about one step unfolds"

section \<open>Errors and results\<close>

text \<open>
  A raise of the sources is a value. \<open>ValidationError\<close> is what a model class raises when a field
  constraint or a validator fails; the other constructors are the exception classes the modelled
  functions raise themselves, with their messages.
\<close>

datatype py_error =
    ValueError string
  | ValidationError string
  | TypeError string
  | AssertionError
  | StopIteration
  | IndexError
  | KeyError
  | RiskInputError string
  | SignalLifecycleInputError string
  | CRTInputError string
  | MarketStructureInputError string
  | FVGInputError string
  | IndicatorInputError string
  | DisplacementInputError string
  | OrderBlockInputError string
  | LiquidityInputError string
  | MultiTimeframeInputError string
  | EntrySetupInputError string
  | CanonicalResamplingError string
  | EmptyCandleSetError string
  | DuplicateTimestampError string
  | OutOfOrderTimestampError string
  | TimeframeAlignmentError string
  | MissingCandleError string
  | SessionCalendarMismatchError string
  | DecimalSignal string

type_synonym 'a result = "py_error + 'a"

definition bind_result :: "'a result \<Rightarrow> ('a \<Rightarrow> 'b result) \<Rightarrow> 'b result" where
  "bind_result r f = (case r of Inl e \<Rightarrow> Inl e | Inr x \<Rightarrow> f x)"

lemma bind_result_simps [simp]:
  "bind_result (Inl e) f = Inl e"
  "bind_result (Inr x) f = f x"
  by (simp_all add: bind_result_def)

lemma bind_result_eq_Inr:
  "bind_result r f = Inr y \<longleftrightarrow> (\<exists>x. r = Inr x \<and> f x = Inr y)"
  by (cases r) simp_all

lemma bind_result_eq_Inl:
  "bind_result r f = Inl e \<longleftrightarrow> r = Inl e \<or> (\<exists>x. r = Inr x \<and> f x = Inl e)"
  by (cases r) simp_all

lemmas result_elims = bind_result_eq_Inr bind_result_eq_Inl

text \<open>The value of a call seen through a function, errors unchanged.\<close>

definition on_result :: "('a \<Rightarrow> 'b) \<Rightarrow> 'a result \<Rightarrow> 'b result" where
  "on_result f r = (case r of Inl e \<Rightarrow> Inl e | Inr x \<Rightarrow> Inr (f x))"

lemma on_result_simps [simp]:
  "on_result f (Inl e) = Inl e"
  "on_result f (Inr x) = Inr (f x)"
  by (simp_all add: on_result_def)

definition require :: "bool \<Rightarrow> py_error \<Rightarrow> unit result" where
  "require c e = (if c then Inr () else Inl e)"

lemma require_simps [simp]:
  "require True e = Inr ()"
  "require False e = Inl e"
  "require c e = Inr u \<longleftrightarrow> c"
  "require c e = Inl e' \<longleftrightarrow> \<not> c \<and> e' = e"
  by (auto simp: require_def)

section \<open>Time\<close>

text \<open>
  A trusted instant is a UTC datetime: the number of microseconds since the Unix epoch. A
  \<open>timedelta\<close> is a number of microseconds.
\<close>

type_synonym utc_time = int
type_synonym timedelta = int
type_synonym price = rat

definition seconds :: "int \<Rightarrow> timedelta" where
  "seconds n = n * 1000000"

definition minutes :: "int \<Rightarrow> timedelta" where
  "minutes n = seconds (60 * n)"

lemma seconds_pos_iff [simp]: "0 < seconds n \<longleftrightarrow> 0 < n"
  by (simp add: seconds_def)

lemma minutes_pos_iff [simp]: "0 < minutes n \<longleftrightarrow> 0 < n"
  by (simp add: minutes_def)

section \<open>List idioms of the sources\<close>

text \<open>\<open>next(x for x in xs if p(x))\<close>, which raises \<open>StopIteration\<close> when nothing matches.\<close>

definition next_match :: "('a \<Rightarrow> bool) \<Rightarrow> 'a list \<Rightarrow> 'a result" where
  "next_match p xs = (case find p xs of None \<Rightarrow> Inl StopIteration | Some x \<Rightarrow> Inr x)"

lemma find_SomeD: "find p xs = Some x \<Longrightarrow> x \<in> set xs \<and> p x"
  by (induction xs) (auto split: if_splits)

lemma find_None_iff_all: "find p xs = None \<longleftrightarrow> (\<forall>x\<in>set xs. \<not> p x)"
  by (induction xs) auto

lemma next_match_Inr: "next_match p xs = Inr x \<Longrightarrow> x \<in> set xs \<and> p x"
  by (auto simp: next_match_def split: option.splits dest: find_SomeD)

lemma next_match_exists: "\<exists>x\<in>set xs. p x \<Longrightarrow> \<exists>x. next_match p xs = Inr x"
  by (auto simp: next_match_def find_None_iff_all split: option.splits)

text \<open>\<open>min(xs, key=k, default=None)\<close>: the first element with the least key.\<close>

fun min_by :: "('a \<Rightarrow> 'k::linorder) \<Rightarrow> 'a list \<Rightarrow> 'a option" where
  "min_by k [] = None"
| "min_by k (x # xs) =
     (case min_by k xs of
        None \<Rightarrow> Some x
      | Some y \<Rightarrow> (if k y < k x then Some y else Some x))"

lemma min_by_None_iff [simp]: "min_by k xs = None \<longleftrightarrow> xs = []"
  by (cases xs) (auto split: option.splits)

lemma min_by_mem: "min_by k xs = Some m \<Longrightarrow> m \<in> set xs"
  by (induction xs arbitrary: m) (auto split: option.splits if_splits)

lemma min_by_least: "min_by k xs = Some m \<Longrightarrow> x \<in> set xs \<Longrightarrow> k m \<le> k x"
  by (induction xs arbitrary: m) (force split: option.splits if_splits)+

text \<open>\<open>max(xs, key=k, default=None)\<close>: the first element with the greatest key.\<close>

fun max_by :: "('a \<Rightarrow> 'k::linorder) \<Rightarrow> 'a list \<Rightarrow> 'a option" where
  "max_by k [] = None"
| "max_by k (x # xs) =
     (case max_by k xs of
        None \<Rightarrow> Some x
      | Some y \<Rightarrow> (if k x < k y then Some y else Some x))"

lemma max_by_None_iff [simp]: "max_by k xs = None \<longleftrightarrow> xs = []"
  by (cases xs) (auto split: option.splits)

lemma max_by_mem: "max_by k xs = Some m \<Longrightarrow> m \<in> set xs"
  by (induction xs arbitrary: m) (auto split: option.splits if_splits)

lemma max_by_greatest: "max_by k xs = Some m \<Longrightarrow> x \<in> set xs \<Longrightarrow> k x \<le> k m"
  by (induction xs arbitrary: m) (force split: option.splits if_splits)+

text \<open>In a sequence with ascending keys the greatest is the last.\<close>

lemma max_by_ascending:
  assumes "sorted_wrt (\<lambda>a b. k a < k b) xs" "xs \<noteq> []"
  shows "max_by k xs = Some (last xs)"
  using assms by (induction xs) auto

text \<open>\<open>xs[-n:]\<close> for a positive \<open>n\<close>, and the tail a bounded queue keeps.\<close>

definition last_n :: "nat \<Rightarrow> 'a list \<Rightarrow> 'a list" where
  "last_n n xs = drop (length xs - n) xs"

lemma last_n_snoc: "0 < n \<Longrightarrow> last_n n (last_n n xs @ [x]) = last_n n (xs @ [x])"
  by (cases "n \<le> length xs") (auto simp: last_n_def Suc_diff_le)

lemma last_n_idem [simp]: "last_n n (last_n n xs) = last_n n xs"
  by (simp add: last_n_def)

lemma last_n_Nil [simp]: "last_n n [] = []"
  by (simp add: last_n_def)

text \<open>\<open>zip(xs, xs[1:])\<close>: the adjacent pairs of a sequence.\<close>

definition adjacent :: "'a list \<Rightarrow> ('a \<times> 'a) list" where
  "adjacent xs = zip xs (tl xs)"

lemma adjacent_simps [simp]:
  "adjacent [] = []"
  "adjacent [x] = []"
  "adjacent (x # y # ys) = (x, y) # adjacent (y # ys)"
  by (simp_all add: adjacent_def)

lemma adjacent_append:
  "xs \<noteq> [] \<Longrightarrow> adjacent (xs @ [y]) = adjacent xs @ [(last xs, y)]"
  by (induction xs rule: induct_list012) auto

lemma adjacent_prefix: "\<exists>zs. adjacent (xs @ ys) = adjacent xs @ zs"
proof (induction xs rule: induct_list012)
  case (3 x y zs)
  then show ?case by auto
qed auto

lemma adjacent_set_prefix: "set (adjacent xs) \<subseteq> set (adjacent (xs @ ys))"
  using adjacent_prefix [of xs ys] by auto

lemma adjacent_sorted_iff:
  fixes f :: "'a \<Rightarrow> 'b::linorder"
  shows "sorted (map f xs) \<longleftrightarrow> (\<forall>p\<in>set (adjacent xs). f (fst p) \<le> f (snd p))"
proof (induction xs rule: induct_list012)
  case (3 x y zs)
  then show ?case by (auto intro: order_trans)
qed auto

lemma adjacent_unsorted_iff [simp]:
  fixes f :: "'a \<Rightarrow> 'b::linorder"
  shows "list_ex (\<lambda>(previous, current). f current < f previous) (adjacent xs) \<longleftrightarrow>
     \<not> sorted (map f xs)"
  by (simp add: adjacent_sorted_iff list_ex_iff not_le split_beta)

text \<open>In a sequence ordered by \<open>f\<close>, the elements up to a bound are a prefix.\<close>

lemma filter_le_prefix:
  fixes f :: "'a \<Rightarrow> 'b::linorder"
  assumes "sorted (map f xs)"
  shows "\<exists>ys. xs = filter (\<lambda>x. f x \<le> c) xs @ ys"
  using assms
proof (induction xs)
  case (Cons a xs)
  show ?case
  proof (cases "f a \<le> c")
    case False
    then have "filter (\<lambda>x. f x \<le> c) xs = []"
      using Cons.prems by (auto simp: filter_empty_conv)
    with False show ?thesis by simp
  qed (use Cons in auto)
qed simp

text \<open>The check of adjacent pairs that several engines share: stop at the first bad pair.\<close>

fun check_all :: "('a \<Rightarrow> unit result) \<Rightarrow> 'a list \<Rightarrow> unit result" where
  "check_all c [] = Inr ()"
| "check_all c (x # xs) = bind_result (c x) (\<lambda>_. check_all c xs)"

lemma check_all_Inr: "check_all c xs = Inr u \<longleftrightarrow> (\<forall>x\<in>set xs. c x = Inr ())"
  by (induction xs) (auto simp: bind_result_eq_Inr)

lemma check_all_append:
  "check_all c (xs @ ys) = bind_result (check_all c xs) (\<lambda>_. check_all c ys)"
  by (induction xs) (auto simp: bind_result_def split: sum.splits)

lemma check_all_prefix: "check_all c (xs @ ys) = Inr u \<Longrightarrow> check_all c xs = Inr ()"
  by (simp add: check_all_Inr)

section \<open>Decimal digits of a natural number\<close>

fun ndigits :: "nat \<Rightarrow> nat" where
  "ndigits n = (if n < 10 then 1 else Suc (ndigits (n div 10)))"

declare ndigits.simps [simp del]

lemma ndigits_pos [simp]: "0 < ndigits n"
  by (subst ndigits.simps) simp

lemma ndigits_ge_1 [simp]: "Suc 0 \<le> ndigits n"
  using ndigits_pos [of n] by linarith

lemma ndigits_upper: "n < 10 ^ ndigits n"
proof (induction n rule: ndigits.induct)
  case (1 n)
  show ?case
  proof (cases "n < 10")
    case True
    then show ?thesis by (simp add: ndigits.simps [of n])
  next
    case False
    then have "n div 10 < 10 ^ ndigits (n div 10)" using "1" by blast
    then have "n < 10 * 10 ^ ndigits (n div 10)" by linarith
    with False show ?thesis by (simp add: ndigits.simps [of n])
  qed
qed

lemma ndigits_lower: "0 < n \<Longrightarrow> 10 ^ (ndigits n - 1) \<le> n"
proof (induction n rule: ndigits.induct)
  case (1 n)
  show ?case
  proof (cases "n < 10")
    case True
    with "1.prems" show ?thesis by (simp add: ndigits.simps [of n])
  next
    case False
    then have "10 ^ (ndigits (n div 10) - 1) \<le> n div 10" using "1.IH" by simp
    then have "10 * 10 ^ (ndigits (n div 10) - 1) \<le> n" by linarith
    moreover have "(10::nat) * 10 ^ (ndigits (n div 10) - 1) = 10 ^ ndigits (n div 10)"
      by (metis ndigits_pos power_minus_mult mult.commute)
    ultimately show ?thesis using False by (simp add: ndigits.simps [of n])
  qed
qed

lemma ndigits_le_iff: "0 < k \<Longrightarrow> ndigits n \<le> k \<longleftrightarrow> n < 10 ^ k"
proof
  assume "ndigits n \<le> k"
  then have "(10::nat) ^ ndigits n \<le> 10 ^ k" by (simp add: power_increasing)
  with ndigits_upper [of n] show "n < 10 ^ k" by linarith
next
  assume k: "0 < k" and n: "n < 10 ^ k"
  show "ndigits n \<le> k"
  proof (cases "n = 0")
    case True
    with k show ?thesis by (simp add: ndigits.simps)
  next
    case False
    then have "(10::nat) ^ (ndigits n - 1) < 10 ^ k"
      using ndigits_lower [of n] n by linarith
    then have "ndigits n - 1 < k" by (simp add: power_less_imp_less_exp)
    then show ?thesis by linarith
  qed
qed

section \<open>Loops over a sequence\<close>

text \<open>
  A \<open>for\<close> loop that threads a state and may raise, and the two rules its proofs use: an invariant over
  the consumed prefix, and progress.
\<close>

fun for_each :: "('a \<Rightarrow> 's \<Rightarrow> 's result) \<Rightarrow> 'a list \<Rightarrow> 's \<Rightarrow> 's result" where
  "for_each f [] s = Inr s"
| "for_each f (x # xs) s = bind_result (f x s) (for_each f xs)"

lemma for_each_append:
  "for_each f (xs @ ys) s = bind_result (for_each f xs s) (for_each f ys)"
  by (induction xs arbitrary: s) (auto simp: bind_result_def split: sum.splits)

lemma for_each_prefix_invariant:
  assumes "for_each f xs s = Inr t" "I [] s"
    and "\<And>ys x s s'. I ys s \<Longrightarrow> x \<in> set xs \<Longrightarrow> f x s = Inr s' \<Longrightarrow> I (ys @ [x]) s'"
  shows "I xs t"
  using assms
proof (induction xs arbitrary: t rule: rev_induct)
  case (snoc x xs)
  then obtain u where u: "for_each f xs s = Inr u" "f x u = Inr t"
    by (auto simp: for_each_append bind_result_eq_Inr)
  moreover have "I xs u" using u(1) snoc.prems by (intro snoc.IH) auto
  ultimately show ?case using snoc.prems(3) [of xs u x t] by simp
qed auto

lemma for_each_total:
  assumes "I s" "\<And>x s. x \<in> set xs \<Longrightarrow> I s \<Longrightarrow> \<exists>s'. f x s = Inr s' \<and> I s'"
  shows "\<exists>t. for_each f xs s = Inr t \<and> I t"
  using assms
proof (induction xs arbitrary: s)
  case (Cons x xs)
  from Cons.prems obtain s' where "f x s = Inr s'" "I s'" by fastforce
  moreover have "\<exists>t. for_each f xs s' = Inr t \<and> I t"
    using Cons.prems \<open>I s'\<close> by (intro Cons.IH) auto
  ultimately show ?case by simp
qed simp

text \<open>A comprehension whose elements may raise, evaluated from the left.\<close>

fun map_result :: "('a \<Rightarrow> 'b result) \<Rightarrow> 'a list \<Rightarrow> 'b list result" where
  "map_result f [] = Inr []"
| "map_result f (x # xs) =
     bind_result (f x) (\<lambda>y. bind_result (map_result f xs) (\<lambda>ys. Inr (y # ys)))"

lemma map_result_Inr: "map_result f xs = Inr ys \<longleftrightarrow> list_all2 (\<lambda>x y. f x = Inr y) xs ys"
  by (induction xs arbitrary: ys) (auto simp: bind_result_eq_Inr list_all2_Cons1)

lemma map_result_total: "\<forall>x\<in>set xs. f x = Inr (g x) \<Longrightarrow> map_result f xs = Inr (map g xs)"
  by (induction xs) auto

lemma map_result_returns_iff: "(\<exists>ys. map_result f xs = Inr ys) \<longleftrightarrow> (\<forall>x\<in>set xs. \<exists>y. f x = Inr y)"
  by (induction xs) (auto simp: bind_result_eq_Inr)

lemma map_result_members:
  assumes "map_result f xs = Inr ys"
  shows "y \<in> set ys \<Longrightarrow> \<exists>x\<in>set xs. f x = Inr y" and "x \<in> set xs \<Longrightarrow> \<exists>y\<in>set ys. f x = Inr y"
  using assms unfolding map_result_Inr list_all2_conv_all_nth by (fastforce simp: in_set_conv_nth)+

text \<open>A sequence whose adjacent elements are \<open>d\<close> apart is spaced by \<open>d\<close> throughout.\<close>

lemma adjacent_spaced:
  fixes f :: "'a \<Rightarrow> int"
  assumes "\<forall>p\<in>set (adjacent xs). f (snd p) - f (fst p) = d" "0 < d"
  shows "sorted_wrt (\<lambda>a b. f a + d \<le> f b) xs"
  using assms(1)
proof (induction xs rule: induct_list012)
  case (3 x y zs)
  then have ih: "sorted_wrt (\<lambda>a b. f a + d \<le> f b) (y # zs)" by simp
  moreover have "f y = f x + d" using "3.prems" by simp
  ultimately show ?case using assms(2) by force
qed simp_all

section \<open>Binary search\<close>

text \<open>
  The loop of \<open>bisect_right\<close> and of the hand-written searches: while \<open>lo < hi\<close>, look at the middle, go
  right of it if \<open>p\<close> holds there and left otherwise. When \<open>p\<close> holds on a prefix it finds its end.
\<close>

function bisect :: "(nat \<Rightarrow> bool) \<Rightarrow> nat \<Rightarrow> nat \<Rightarrow> nat" where
  "bisect p lo hi =
     (if lo < hi
      then let mid = (lo + hi) div 2 in if p mid then bisect p (mid + 1) hi else bisect p lo mid
      else lo)"
  by auto
termination by (relation "measure (\<lambda>(p, lo, hi). hi - lo)") auto

declare bisect.simps [simp del]

lemma bisect_prefix:
  assumes "lo \<le> hi" "\<And>i j. i \<le> j \<Longrightarrow> j < hi \<Longrightarrow> p j \<Longrightarrow> p i"
  shows "lo \<le> bisect p lo hi \<and> bisect p lo hi \<le> hi
       \<and> (\<forall>i. lo \<le> i \<longrightarrow> i < hi \<longrightarrow> p i \<longleftrightarrow> i < bisect p lo hi)"
  using assms
proof (induction p lo hi rule: bisect.induct)
  case (1 p lo hi)
  show ?case
  proof (cases "lo < hi")
    case True
    define mid where "mid = (lo + hi) div 2"
    have mid: "lo \<le> mid" "mid < hi" using True by (auto simp: mid_def)
    show ?thesis
    proof (cases "p mid")
      case pm: True
      have "p i" if "i \<le> mid" for i using "1.prems"(2) [OF that mid(2) pm] .
      moreover have "mid + 1 \<le> bisect p (mid + 1) hi \<and> bisect p (mid + 1) hi \<le> hi
          \<and> (\<forall>i. mid + 1 \<le> i \<longrightarrow> i < hi \<longrightarrow> p i \<longleftrightarrow> i < bisect p (mid + 1) hi)"
        using "1.IH"(1) [OF True mid_def pm] "1.prems" mid by auto
      moreover have "bisect p lo hi = bisect p (mid + 1) hi"
        using True pm by (subst bisect.simps) (simp add: mid_def Let_def)
      ultimately show ?thesis using mid by (metis Suc_eq_plus1 le_trans less_eq_Suc_le not_less_eq_eq order_less_imp_le)
    next
      case pm: False
      have no: "\<not> p i" if "mid \<le> i" "i < hi" for i using "1.prems"(2) [OF that] pm by blast
      moreover have "lo \<le> bisect p lo mid \<and> bisect p lo mid \<le> mid
          \<and> (\<forall>i. lo \<le> i \<longrightarrow> i < mid \<longrightarrow> p i \<longleftrightarrow> i < bisect p lo mid)"
        using "1.IH"(2) [OF True mid_def pm] "1.prems" mid by auto
      moreover have "bisect p lo hi = bisect p lo mid"
        using True pm by (subst bisect.simps) (simp add: mid_def Let_def)
      ultimately show ?thesis using mid by (metis leD le_trans less_imp_le_nat not_le_imp_less)
    qed
  qed (use "1.prems"(1) in \<open>simp add: bisect.simps\<close>)
qed

end
