(* ===== verification/Decimal_Context.thy ===== *)
theory Decimal_Context
  imports Prelude
begin

text \<open>
  Python's \<open>decimal\<close> arithmetic, at the level of values. A finite \<open>Decimal\<close> is the rational number it
  denotes; an operation under a context of precision \<open>p\<close> is the exact result rounded half-even to
  \<open>p\<close> significant digits (\<open>round_sig p\<close>), as the General Decimal Arithmetic specification defines
  it. The analysis and backtest engines run under the default context, precision 28: their
  arithmetic is \<open>dadd\<close>, \<open>dsub\<close>, \<open>dmul\<close>, \<open>ddiv\<close>, \<open>dneg\<close> and \<open>dabs\<close>. Comparisons are exact.
  The exponent limits of the context (about a million digits) are not modelled.
\<close>

section \<open>Rounding half to even\<close>

definition round_half_even :: "rat \<Rightarrow> int" where
  "round_half_even y =
     (let f = \<lfloor>y\<rfloor>; d = y - of_int f
      in if d < 1/2 then f else if d > 1/2 then f + 1 else if even f then f else f + 1)"

lemma round_half_even_cases:
  obtains "round_half_even y = \<lfloor>y\<rfloor>" "y - of_int \<lfloor>y\<rfloor> \<le> 1/2"
  | "round_half_even y = \<lfloor>y\<rfloor> + 1" "1/2 \<le> y - of_int \<lfloor>y\<rfloor>"
  unfolding round_half_even_def Let_def by (metis linorder_not_less nle_le)

lemma round_half_even_of_int [simp]: "round_half_even (of_int k) = k"
  by (simp add: round_half_even_def)

lemma round_half_even_error: "\<bar>of_int (round_half_even y) - y\<bar> \<le> 1/2"
proof (cases y rule: round_half_even_cases)
  case 1
  have "of_int \<lfloor>y\<rfloor> \<le> y" by (rule of_int_floor_le)
  with 1 show ?thesis by (simp add: abs_le_iff)
next
  case 2
  have "y < of_int \<lfloor>y\<rfloor> + 1" by (rule floor_correct [THEN conjunct2, simplified])
  with 2 show ?thesis by (simp add: abs_le_iff)
qed

lemma round_half_even_ge: "of_int k \<le> y \<Longrightarrow> k \<le> round_half_even y"
proof -
  assume "of_int k \<le> y"
  then have "k \<le> \<lfloor>y\<rfloor>" by (simp add: le_floor_iff)
  then show ?thesis by (cases y rule: round_half_even_cases) simp_all
qed

lemma round_half_even_le: "y \<le> of_int k \<Longrightarrow> round_half_even y \<le> k"
proof (cases y rule: round_half_even_cases)
  case 1
  assume "y \<le> of_int k"
  with 1 show ?thesis by (metis floor_mono floor_of_int)
next
  case 2
  assume "y \<le> of_int k"
  moreover have "of_int \<lfloor>y\<rfloor> < y" using 2(2) by (simp add: algebra_simps)
  ultimately have "(of_int \<lfloor>y\<rfloor> :: rat) < of_int k" by (rule less_le_trans [rotated])
  then show ?thesis using 2(1) by simp
qed

lemma round_half_even_mono: "x \<le> y \<Longrightarrow> round_half_even x \<le> round_half_even y"
proof -
  assume xy: "x \<le> y"
  then have fl: "\<lfloor>x\<rfloor> \<le> \<lfloor>y\<rfloor>" by (rule floor_mono)
  show ?thesis
  proof (cases "\<lfloor>x\<rfloor> = \<lfloor>y\<rfloor>")
    case True
    then have "x - of_int \<lfloor>x\<rfloor> \<le> y - of_int \<lfloor>y\<rfloor>" using xy by simp
    with True show ?thesis by (auto simp: round_half_even_def Let_def)
  next
    case False
    then have "\<lfloor>x\<rfloor> + 1 \<le> \<lfloor>y\<rfloor>" using fl by simp
    moreover have "round_half_even x \<le> \<lfloor>x\<rfloor> + 1" by (cases x rule: round_half_even_cases) auto
    moreover have "\<lfloor>y\<rfloor> \<le> round_half_even y" by (cases y rule: round_half_even_cases) auto
    ultimately show ?thesis by simp
  qed
qed

lemma round_half_even_minus: "round_half_even (- y) = - round_half_even y"
proof (cases "y = of_int \<lfloor>y\<rfloor>")
  case True
  then show ?thesis by (metis of_int_minus round_half_even_of_int)
next
  case False
  then have "\<lfloor>- y\<rfloor> = - \<lfloor>y\<rfloor> - 1"
    by (metis Ints_of_int ceiling_altdef floor_minus minus_add_distrib uminus_add_conv_diff
        add.commute)
  then show ?thesis
    by (auto simp: round_half_even_def Let_def)
qed

section \<open>The exponent of the leading digit\<close>

definition adjusted :: "rat \<Rightarrow> int" where
  "adjusted x =
     (let (n, d) = quotient_of \<bar>x\<bar>;
          e = int (ndigits (nat n)) - int (ndigits (nat d))
      in if 10 powi e \<le> \<bar>x\<bar> then e else e - 1)"

lemma powi_10_pos [simp]: "0 < (10::rat) powi e"
  by simp

lemma powi_10_mono: "d \<le> e \<Longrightarrow> (10::rat) powi d \<le> 10 powi e"
  by (rule power_int_increasing) simp_all

lemma powi_10_strict: "(10::rat) powi d < 10 powi e \<longleftrightarrow> d < e"
  using power_int_strict_increasing [of d e "10::rat"] powi_10_mono [of e d] by fastforce

lemma powi_10_add: "(10::rat) powi (d + e) = 10 powi d * 10 powi e"
  by (rule power_int_add) simp

lemma powi_10_of_nat: "(10::rat) powi int n = of_int (10 ^ n)"
  by simp

lemma adjusted_bounds:
  assumes "x \<noteq> 0"
  shows "10 powi adjusted x \<le> \<bar>x\<bar> \<and> \<bar>x\<bar> < 10 powi (adjusted x + 1)"
proof -
  obtain n d where q: "quotient_of \<bar>x\<bar> = (n, d)" by fastforce
  have d: "0 < d" using q by (rule quotient_of_denom_pos)
  have x: "\<bar>x\<bar> = of_int n / of_int d" using q by (rule quotient_of_div)
  have n: "0 < n" using x d assms by (metis zero_less_abs_iff divide_pos_pos of_int_0_less_iff
        zero_less_divide_iff of_int_0_le_iff order_less_imp_le linorder_not_less)
  define a where "a = ndigits (nat n)"
  define b where "b = ndigits (nat d)"
  have nU: "(of_int n :: rat) < 10 powi int a"
    using ndigits_upper [of "nat n"] n unfolding a_def powi_10_of_nat of_int_less_iff
    by (metis int_nat_eq less_imp_le of_nat_less_iff of_nat_numeral of_nat_power)
  have dU: "(of_int d :: rat) < 10 powi int b"
    using ndigits_upper [of "nat d"] d unfolding b_def powi_10_of_nat of_int_less_iff
    by (metis int_nat_eq less_imp_le of_nat_less_iff of_nat_numeral of_nat_power)
  have pow_pred: "(10::rat) powi (int (ndigits m) - 1) = of_int (int (10 ^ (ndigits m - 1)))" for m
    by (metis of_int_of_nat_eq of_nat_1 of_nat_diff of_nat_numeral of_nat_power power_int_of_nat
        ndigits_ge_1 One_nat_def)
  have nL: "10 powi (int a - 1) \<le> (of_int n :: rat)"
    using ndigits_lower [of "nat n"] n unfolding a_def pow_pred of_int_le_iff by linarith
  have dL: "10 powi (int b - 1) \<le> (of_int d :: rat)"
    using ndigits_lower [of "nat d"] d unfolding b_def pow_pred of_int_le_iff by linarith
  have dpos: "0 < (of_int d :: rat)" using d by simp
  have up: "\<bar>x\<bar> < 10 powi (int a - int b + 1)"
  proof -
    have "10 powi (int a - int b + 1) * 10 powi (int b - 1) = (10::rat) powi int a"
      by (subst powi_10_add [symmetric]) simp
    moreover have "10 powi (int a - int b + 1) * 10 powi (int b - 1)
        \<le> 10 powi (int a - int b + 1) * (of_int d :: rat)"
      using dL by (intro mult_left_mono) auto
    ultimately have "of_int n < 10 powi (int a - int b + 1) * (of_int d :: rat)"
      using nU by linarith
    then show ?thesis using dpos by (simp add: x divide_less_eq)
  qed
  have low: "10 powi (int a - int b - 1) \<le> \<bar>x\<bar>"
  proof -
    have "10 powi (int a - int b - 1) * 10 powi (int b) = (10::rat) powi (int a - 1)"
      by (subst powi_10_add [symmetric]) simp
    moreover have "10 powi (int a - int b - 1) * (of_int d :: rat)
        \<le> 10 powi (int a - int b - 1) * 10 powi (int b)"
      using dU by (intro mult_left_mono) auto
    ultimately have "10 powi (int a - int b - 1) * (of_int d :: rat) \<le> of_int n"
      using nL by linarith
    then show ?thesis using dpos by (simp add: x le_divide_eq)
  qed
  have "adjusted x = (if 10 powi (int a - int b) \<le> \<bar>x\<bar> then int a - int b else int a - int b - 1)"
    by (simp add: adjusted_def q a_def b_def)
  with up low show ?thesis by auto
qed

lemma adjusted_unique:
  assumes "10 powi k \<le> \<bar>x\<bar>" "\<bar>x\<bar> < 10 powi (k + 1)"
  shows "adjusted x = k"
proof -
  have "x \<noteq> 0" using assms(1) powi_10_pos [of k] by (metis abs_zero linorder_not_less)
  then have "(10::rat) powi adjusted x < 10 powi (k + 1)" "(10::rat) powi k < 10 powi (adjusted x + 1)"
    using adjusted_bounds [of x] assms by linarith+
  then show ?thesis by (simp add: powi_10_strict)
qed

lemma adjusted_minus [simp]: "adjusted (- x) = adjusted x"
  by (simp add: adjusted_def)

lemma adjusted_mono: "x \<noteq> 0 \<Longrightarrow> \<bar>x\<bar> \<le> \<bar>y\<bar> \<Longrightarrow> adjusted x \<le> adjusted y"
proof -
  assume "x \<noteq> 0" "\<bar>x\<bar> \<le> \<bar>y\<bar>"
  then have "y \<noteq> 0" by auto
  have "(10::rat) powi adjusted x < 10 powi (adjusted y + 1)"
    using adjusted_bounds [OF \<open>x \<noteq> 0\<close>] adjusted_bounds [OF \<open>y \<noteq> 0\<close>] \<open>\<bar>x\<bar> \<le> \<bar>y\<bar>\<close> by linarith
  then show ?thesis by (simp add: powi_10_strict)
qed

section \<open>Rounding to a number of significant digits\<close>

definition quantum :: "nat \<Rightarrow> rat \<Rightarrow> rat" where
  "quantum p x = 10 powi (adjusted x - int p + 1)"

definition round_sig :: "nat \<Rightarrow> rat \<Rightarrow> rat" where
  "round_sig p x =
     (if x = 0 then 0 else of_int (round_half_even (x / quantum p x)) * quantum p x)"

text \<open>The values a decimal of at most \<open>p\<close> digits can denote.\<close>

definition fits :: "nat \<Rightarrow> rat \<Rightarrow> bool" where
  "fits p x \<longleftrightarrow> (\<exists>c e. x = of_int c * 10 powi e \<and> \<bar>c\<bar> < 10 ^ p)"

lemma quantum_pos [simp]: "0 < quantum p x"
  by (simp add: quantum_def)

lemma quantum_nonzero [simp]: "quantum p x \<noteq> 0"
  by (simp add: quantum_def)

lemma abs_quantum [simp]: "\<bar>quantum p x\<bar> = quantum p x"
  by (simp add: abs_of_pos)

lemma fits_zero [simp]: "fits p 0"
  unfolding fits_def by (rule exI [of _ 0]) simp

lemma fits_minus: "fits p x \<Longrightarrow> fits p (- x)"
  unfolding fits_def by (metis abs_minus_cancel mult_minus_left of_int_minus)

lemma fits_mono: "fits p x \<Longrightarrow> p \<le> q \<Longrightarrow> fits q x"
proof -
  assume "fits p x" and pq: "p \<le> q"
  then obtain c e where x: "x = of_int c * 10 powi e" and c: "\<bar>c\<bar> < 10 ^ p"
    unfolding fits_def by blast
  have "(10::int) ^ p \<le> 10 ^ q" using pq by (rule power_increasing) simp
  with c have "\<bar>c\<bar> < 10 ^ q" by linarith
  with x show ?thesis unfolding fits_def by blast
qed

lemma fits_of_int: "\<bar>c\<bar> < 10 ^ p \<Longrightarrow> fits p (of_int c)"
  unfolding fits_def by (rule exI [of _ c], rule exI [of _ 0]) simp

lemma round_sig_zero [simp]: "round_sig p 0 = 0"
  by (simp add: round_sig_def)

lemma round_sig_minus: "round_sig p (- x) = - round_sig p x"
  by (simp add: round_sig_def quantum_def round_half_even_minus)

text \<open>A value that fits is kept as it is.\<close>

lemma of_int_powi_split:
  assumes "d \<le> e"
  shows "of_int c * (10::rat) powi e = of_int (c * 10 ^ nat (e - d)) * 10 powi d"
proof -
  have "(10::rat) powi e = 10 powi int (nat (e - d)) * 10 powi d"
    using assms by (subst powi_10_add [symmetric]) simp
  then have "(10::rat) powi e = of_int (10 ^ nat (e - d)) * 10 powi d"
    by (simp only: powi_10_of_nat)
  then show ?thesis by (simp only: of_int_mult mult.assoc)
qed

lemma round_sig_fits:
  assumes "fits p x"
  shows "round_sig p x = x"
proof (cases "x = 0")
  case False
  obtain c e where x: "x = of_int c * 10 powi e" and c: "\<bar>c\<bar> < 10 ^ p"
    using assms unfolding fits_def by blast
  have "adjusted x - int p + 1 \<le> e"
  proof (rule ccontr)
    assume "\<not> ?thesis"
    then have le: "int p + e \<le> adjusted x" by linarith
    have "\<bar>x\<bar> = of_int \<bar>c\<bar> * 10 powi e" by (simp add: x abs_mult)
    also have "\<dots> < of_int (10 ^ p) * 10 powi e"
      using c by (intro mult_strict_right_mono) (simp_all only: of_int_less_iff powi_10_pos)
    also have "\<dots> = 10 powi (int p + e)" by (simp add: powi_10_add)
    also have "\<dots> \<le> 10 powi adjusted x" using le by (rule powi_10_mono)
    finally show False using adjusted_bounds [OF False] by linarith
  qed
  then have "x = of_int (c * 10 ^ nat (e - (adjusted x - int p + 1))) * quantum p x"
    unfolding quantum_def using of_int_powi_split x by metis
  then obtain k where k: "x = of_int k * quantum p x" by blast
  then have "x / quantum p x = of_int k" by (metis nonzero_mult_div_cancel_right quantum_nonzero)
  then show ?thesis using False k by (simp add: round_sig_def del: of_int_mult)
qed simp

text \<open>The scaled value lies between \<open>10 ^ (p - 1)\<close> and \<open>10 ^ p\<close>, and so does its rounding.\<close>

lemma scaled_bounds:
  assumes "x \<noteq> 0" "0 < p"
  shows "of_int (10 ^ (p - 1)) \<le> \<bar>x / quantum p x\<bar> \<and> \<bar>x / quantum p x\<bar> < of_int (10 ^ p)"
proof -
  have "(10::rat) powi adjusted x = of_int (10 ^ (p - 1)) * quantum p x"
    using assms(2) unfolding quantum_def powi_10_of_nat [symmetric] powi_10_add [symmetric]
    by (simp add: of_nat_diff)
  moreover have "(10::rat) powi (adjusted x + 1) = of_int (10 ^ p) * quantum p x"
    unfolding quantum_def powi_10_of_nat [symmetric] powi_10_add [symmetric] by simp
  moreover have "\<bar>x / quantum p x\<bar> = \<bar>x\<bar> / quantum p x" by (simp add: abs_divide)
  ultimately show ?thesis
    using adjusted_bounds [OF assms(1)] by (simp add: le_divide_eq divide_less_eq)
qed

lemma round_sig_pos:
  assumes "0 < x" "0 < p"
  shows "of_int (10 ^ (p - 1)) * quantum p x \<le> round_sig p x
       \<and> round_sig p x \<le> of_int (10 ^ p) * quantum p x"
proof -
  have b: "of_int (10 ^ (p - 1)) \<le> x / quantum p x" "x / quantum p x < of_int (10 ^ p)"
    using scaled_bounds [of x p] assms by (auto simp: abs_of_pos)
  have "10 ^ (p - 1) \<le> round_half_even (x / quantum p x)"
    using b(1) by (rule round_half_even_ge)
  moreover have "round_half_even (x / quantum p x) \<le> 10 ^ p"
    using b(2) by (intro round_half_even_le) simp
  ultimately show ?thesis
    using assms(1)
    by (simp add: round_sig_def mult_right_mono order_less_imp_le del: of_int_power)
qed

lemma round_sig_gt_0: "0 < x \<Longrightarrow> 0 < p \<Longrightarrow> 0 < round_sig p x"
  using round_sig_pos [of x p] by (rule less_le_trans [rotated, OF conjunct1]) simp_all

lemma round_sig_ge_0: "0 \<le> x \<Longrightarrow> 0 < p \<Longrightarrow> 0 \<le> round_sig p x"
  by (cases "x = 0") (simp_all add: less_imp_le round_sig_gt_0)

lemma round_sig_lt_0: "x < 0 \<Longrightarrow> 0 < p \<Longrightarrow> round_sig p x < 0"
  using round_sig_gt_0 [of "- x" p] by (simp add: round_sig_minus)

lemma round_sig_sign [decimal_simps]:
  assumes "0 < p"
  shows "0 < round_sig p x \<longleftrightarrow> 0 < x" "round_sig p x < 0 \<longleftrightarrow> x < 0"
    "0 \<le> round_sig p x \<longleftrightarrow> 0 \<le> x" "round_sig p x \<le> 0 \<longleftrightarrow> x \<le> 0"
    "round_sig p x = 0 \<longleftrightarrow> x = 0"
  using round_sig_gt_0 [OF _ assms, of x] round_sig_lt_0 [OF _ assms, of x]
  by (cases x "0::rat" rule: linorder_cases; force)+

lemma round_sig_mono_pos:
  assumes "0 < x" "x \<le> y" "0 < p"
  shows "round_sig p x \<le> round_sig p y"
proof (cases "adjusted x = adjusted y")
  case True
  then have q: "quantum p x = quantum p y" by (simp add: quantum_def)
  have "x / quantum p x \<le> y / quantum p x"
    using assms(2) by (simp add: divide_right_mono order_less_imp_le)
  then have "round_half_even (x / quantum p x) \<le> round_half_even (y / quantum p x)"
    by (rule round_half_even_mono)
  then show ?thesis
    using assms by (simp add: round_sig_def q mult_right_mono order_less_imp_le)
next
  case False
  then have "adjusted x + 1 \<le> adjusted y"
    using adjusted_mono [of x y] assms by simp
  then have "10 powi (int p) * quantum p x \<le> 10 powi (int p - 1) * quantum p y"
    unfolding quantum_def powi_10_add [symmetric] by (intro powi_10_mono) simp
  then have "of_int (10 ^ p) * quantum p x \<le> of_int (10 ^ (p - 1)) * quantum p y"
    using assms(3) unfolding powi_10_of_nat [symmetric] by (simp add: of_nat_diff)
  then show ?thesis
    using round_sig_pos [of x p] round_sig_pos [of y p] assms by linarith
qed

lemma round_sig_mono:
  assumes "x \<le> y" "0 < p"
  shows "round_sig p x \<le> round_sig p y"
proof -
  consider "0 < x" | "x \<le> 0" "0 \<le> y" | "y < 0" using assms(1) by linarith
  then show ?thesis
  proof cases
    case 1
    then show ?thesis using assms by (intro round_sig_mono_pos)
  next
    case 2
    then have "round_sig p x \<le> 0" "0 \<le> round_sig p y"
      using assms(2) by (simp_all add: round_sig_sign)
    then show ?thesis by simp
  next
    case 3
    then have "round_sig p (- y) \<le> round_sig p (- x)"
      using assms by (intro round_sig_mono_pos) simp_all
    then show ?thesis by (simp add: round_sig_minus)
  qed
qed

text \<open>The relative error is at most half a unit of the last kept digit.\<close>

lemma round_sig_error: "\<bar>round_sig p x - x\<bar> \<le> quantum p x / 2"
proof (cases "x = 0")
  case True
  then show ?thesis by (simp add: order_less_imp_le)
next
  case False
  have "round_sig p x - x
      = (of_int (round_half_even (x / quantum p x)) - x / quantum p x) * quantum p x"
    using False by (simp add: round_sig_def left_diff_distrib)
  then have "\<bar>round_sig p x - x\<bar>
      = \<bar>of_int (round_half_even (x / quantum p x)) - x / quantum p x\<bar> * quantum p x"
    by (simp add: abs_mult)
  also have "\<dots> \<le> 1/2 * quantum p x"
    by (intro mult_right_mono round_half_even_error) (simp add: order_less_imp_le)
  finally show ?thesis by simp
qed

text \<open>A rounded value fits, so rounding is idempotent.\<close>

lemma fits_round_sig:
  assumes "0 < p"
  shows "fits p (round_sig p x)"
proof (cases "x = 0")
  case False
  define k where "k = round_half_even (x / quantum p x)"
  have r: "round_sig p x = of_int k * quantum p x" using False by (simp add: round_sig_def k_def)
  have "x / quantum p x \<le> of_int (10 ^ p)" "of_int (- (10 ^ p)) \<le> x / quantum p x"
    using abs_less_iff [THEN iffD1, OF conjunct2 [OF scaled_bounds [OF False assms]]]
    unfolding of_int_minus by linarith+
  then have "\<bar>k\<bar> \<le> 10 ^ p"
    unfolding k_def using round_half_even_le round_half_even_ge by (metis abs_le_iff minus_le_iff)
  then consider "\<bar>k\<bar> < 10 ^ p" | "k = 10 ^ p" | "k = - (10 ^ p)" by linarith
  then show ?thesis
  proof cases
    case 1
    then show ?thesis using r unfolding fits_def quantum_def by blast
  next
    case 2
    then have "round_sig p x = of_int 1 * 10 powi (int p + (adjusted x - int p + 1))"
      by (simp only: r 2 quantum_def powi_10_add powi_10_of_nat of_int_1 mult_1)
    moreover have "\<bar>1::int\<bar> < 10 ^ p" using assms by simp
    ultimately show ?thesis unfolding fits_def by blast
  next
    case 3
    then have "round_sig p x = of_int (- 1) * 10 powi (int p + (adjusted x - int p + 1))"
      by (simp only: r 3 quantum_def powi_10_add powi_10_of_nat of_int_minus of_int_1 mult_1
          mult_minus_left)
    moreover have "\<bar>- 1::int\<bar> < 10 ^ p" using assms by simp
    ultimately show ?thesis unfolding fits_def by blast
  qed
qed simp

lemma round_sig_idem [simp]: "0 < p \<Longrightarrow> round_sig p (round_sig p x) = round_sig p x"
  by (rule round_sig_fits) (rule fits_round_sig)

section \<open>The default context: precision 28\<close>

definition context_precision :: nat where
  "context_precision = 28"

definition rnd :: "rat \<Rightarrow> rat" where
  "rnd x = round_sig context_precision x"

definition dadd :: "rat \<Rightarrow> rat \<Rightarrow> rat" where "dadd x y = rnd (x + y)"

definition dsub :: "rat \<Rightarrow> rat \<Rightarrow> rat" where "dsub x y = rnd (x - y)"

definition dmul :: "rat \<Rightarrow> rat \<Rightarrow> rat" where "dmul x y = rnd (x * y)"

definition ddiv :: "rat \<Rightarrow> rat \<Rightarrow> rat" where "ddiv x y = rnd (x / y)"

definition dneg :: "rat \<Rightarrow> rat" where "dneg x = rnd (- x)"

definition dabs :: "rat \<Rightarrow> rat" where "dabs x = rnd \<bar>x\<bar>"

text \<open>\<open>sum(xs, start=Decimal(0))\<close>: the running sum is rounded at every step.\<close>

definition dsum :: "rat list \<Rightarrow> rat" where
  "dsum xs = foldl dadd 0 xs"

lemma context_precision_pos [simp]: "0 < context_precision"
  by (simp add: context_precision_def)

lemmas dec_defs = dadd_def dsub_def dmul_def ddiv_def dneg_def dabs_def

lemma rnd_zero [simp]: "rnd 0 = 0"
  by (simp add: rnd_def)

lemma rnd_fits: "fits 28 x \<Longrightarrow> rnd x = x"
  by (simp add: rnd_def context_precision_def round_sig_fits)

lemma rnd_mono: "x \<le> y \<Longrightarrow> rnd x \<le> rnd y"
  by (simp add: rnd_def round_sig_mono)

lemma rnd_minus: "rnd (- x) = - rnd x"
  by (simp add: rnd_def round_sig_minus)

lemma rnd_idem [simp]: "rnd (rnd x) = rnd x"
  by (simp add: rnd_def)

lemma rnd_sign [simp]:
  "0 < rnd x \<longleftrightarrow> 0 < x" "rnd x < 0 \<longleftrightarrow> x < 0" "0 \<le> rnd x \<longleftrightarrow> 0 \<le> x"
  "rnd x \<le> 0 \<longleftrightarrow> x \<le> 0" "rnd x = 0 \<longleftrightarrow> x = 0"
  by (simp_all add: rnd_def round_sig_sign)

lemma rnd_abs: "rnd \<bar>x\<bar> = \<bar>rnd x\<bar>"
  by (cases "0 \<le> x") (simp_all add: rnd_minus)

lemma dsub_swap: "dsub y x = - dsub x y"
  by (simp add: dsub_def flip: rnd_minus)

lemma dsub_sign [simp]:
  "0 < dsub x y \<longleftrightarrow> y < x" "dsub x y < 0 \<longleftrightarrow> x < y" "0 \<le> dsub x y \<longleftrightarrow> y \<le> x"
  "dsub x y \<le> 0 \<longleftrightarrow> x \<le> y" "dsub x y = 0 \<longleftrightarrow> x = y"
  by (simp_all add: dsub_def)

lemma dmul_nonneg: "0 \<le> x \<Longrightarrow> 0 \<le> y \<Longrightarrow> 0 \<le> dmul x y"
  by (simp add: dmul_def)

lemma dmul_pos: "0 < x \<Longrightarrow> 0 < y \<Longrightarrow> 0 < dmul x y"
  by (simp add: dmul_def)

lemma ddiv_nonneg: "0 \<le> x \<Longrightarrow> 0 < y \<Longrightarrow> 0 \<le> ddiv x y"
  by (simp add: ddiv_def)

lemma ddiv_pos: "0 < x \<Longrightarrow> 0 < y \<Longrightarrow> 0 < ddiv x y"
  by (simp add: ddiv_def)

lemma dadd_nonneg: "0 \<le> x \<Longrightarrow> 0 \<le> y \<Longrightarrow> 0 \<le> dadd x y"
  by (simp add: dadd_def)

lemma dabs_nonneg [simp]: "0 \<le> dabs x"
  by (simp add: dabs_def)

lemma dabs_pos [simp]: "0 < dabs x \<longleftrightarrow> x \<noteq> 0"
  by (simp add: dabs_def)

lemma dabs_dsub: "dabs (dsub x y) = \<bar>dsub x y\<bar>"
  by (simp add: dabs_def dsub_def rnd_abs)

lemma dsum_Nil [simp]: "dsum [] = 0"
  by (simp add: dsum_def)

lemma dsum_snoc: "dsum (xs @ [x]) = dadd (dsum xs) x"
  by (simp add: dsum_def)

lemma dsum_nonneg: "\<forall>x\<in>set xs. 0 \<le> x \<Longrightarrow> 0 \<le> dsum xs"
  by (induction xs rule: rev_induct) (auto simp: dsum_snoc dadd_nonneg)

text \<open>
  \<open>x % y\<close> for a divisor that is not zero: the remainder of the quotient truncated towards zero. A
  quotient of more digits than the precision is signalled.
\<close>

definition truncated_quotient :: "rat \<Rightarrow> rat \<Rightarrow> int" where
  "truncated_quotient x y = (if 0 \<le> x / y then \<lfloor>x / y\<rfloor> else \<lceil>x / y\<rceil>)"

definition dmod :: "rat \<Rightarrow> rat \<Rightarrow> rat result" where
  "dmod x y =
     (let q = truncated_quotient x y
      in if 10 ^ context_precision \<le> \<bar>q\<bar> then Inl (DecimalSignal ''InvalidOperation'')
         else Inr (rnd (x - of_int q * y)))"

lemma truncated_quotient_Ints: "x / y = of_int (truncated_quotient x y) \<longleftrightarrow> x / y \<in> \<int>"
proof
  assume "x / y \<in> \<int>"
  then obtain k where "x / y = of_int k" by (rule Ints_cases)
  then show "x / y = of_int (truncated_quotient x y)" by (simp add: truncated_quotient_def)
qed (metis Ints_of_int)

lemma dmod_zero_iff:
  assumes "0 < y"
  shows "dmod x y = Inr 0 \<longleftrightarrow> x / y \<in> \<int> \<and> \<bar>x / y\<bar> < 10 ^ context_precision"
proof -
  define q where "q = truncated_quotient x y"
  have rem: "x - of_int q * y = 0 \<longleftrightarrow> x / y = of_int q" using assms by (auto simp: field_simps)
  have "x / y = of_int q \<Longrightarrow> \<bar>x / y\<bar> < 10 ^ context_precision \<longleftrightarrow> \<bar>q\<bar> < 10 ^ context_precision"
    using of_int_less_iff [of "\<bar>q\<bar>" "10 ^ context_precision", where 'a = rat] by simp
  moreover have "dmod x y = Inr 0 \<longleftrightarrow> \<bar>q\<bar> < 10 ^ context_precision \<and> x - of_int q * y = 0"
    by (simp add: dmod_def Let_def not_le flip: q_def)
  ultimately show ?thesis
    unfolding rem truncated_quotient_Ints [symmetric] q_def [symmetric] by blast
qed

section \<open>Rounding to an integral value\<close>

text \<open>\<open>to_integral_value\<close> with \<open>ROUND_HALF_UP\<close>, \<open>ROUND_FLOOR\<close> and \<open>ROUND_CEILING\<close>; it is exact.\<close>

definition integral_half_up :: "rat \<Rightarrow> rat" where
  "integral_half_up x = (if 0 \<le> x then of_int \<lfloor>x + 1/2\<rfloor> else - of_int \<lfloor>- x + 1/2\<rfloor>)"

definition integral_floor :: "rat \<Rightarrow> rat" where
  "integral_floor x = of_int \<lfloor>x\<rfloor>"

definition integral_ceiling :: "rat \<Rightarrow> rat" where
  "integral_ceiling x = of_int \<lceil>x\<rceil>"

lemma integral_half_up_nonneg: "0 \<le> x \<Longrightarrow> 0 \<le> integral_half_up x"
  by (simp add: integral_half_up_def)

text \<open>
  A value with at most ten decimal places, below \<open>10 ^ 18\<close>, is not rounded; with the floor of a
  fraction of numerals this evaluates the arithmetic of concrete runs.
\<close>

lemma rnd_eval:
  assumes "x * 10000000000 \<in> \<int>" "\<bar>x\<bar> < 1000000000000000000"
  shows "rnd x = x"
proof (rule rnd_fits)
  obtain k where k: "x * 10000000000 = of_int k" using assms(1) by (auto elim: Ints_cases)
  have "(10::rat) powi int 10 = 10000000000" unfolding powi_10_of_nat by simp
  then have "(10::rat) powi (- int 10) = inverse 10000000000"
    using power_int_minus [of "10::rat" "int 10"] by (simp only:)
  moreover have "x = of_int k * inverse 10000000000" unfolding k [symmetric] by simp
  ultimately have "x = of_int k * 10 powi (- int 10)" by (simp only:)
  moreover have "\<bar>of_int k :: rat\<bar> < of_int (10 ^ 28)"
  proof -
    have "\<bar>x * 10000000000\<bar> < 1000000000000000000 * 10000000000"
      using assms(2) by (simp add: abs_mult)
    then show ?thesis unfolding k by simp
  qed
  then have "\<bar>k\<bar> < 10 ^ 28" by linarith
  ultimately show "fits 28 x" unfolding fits_def by blast
qed

lemma floor_fraction:
  "\<lfloor>numeral a / numeral b :: rat\<rfloor> = numeral a div numeral b"
  "\<lfloor>1 / numeral b :: rat\<rfloor> = 1 div numeral b"
  "\<lfloor>- (numeral a / numeral b) :: rat\<rfloor> = - numeral a div numeral b"
  "\<lfloor>- (1 / numeral b) :: rat\<rfloor> = - 1 div numeral b"
  using floor_divide_of_int_eq [of "numeral a" "numeral b", where 'a = rat]
    floor_divide_of_int_eq [of 1 "numeral b", where 'a = rat]
    floor_divide_of_int_eq [of "- numeral a" "numeral b", where 'a = rat]
    floor_divide_of_int_eq [of "- 1" "numeral b", where 'a = rat]
  by simp_all

lemma ceiling_fraction:
  "\<lceil>numeral a / numeral b :: rat\<rceil> = - (- numeral a div numeral b)"
  "\<lceil>1 / numeral b :: rat\<rceil> = - (- 1 div numeral b)"
  by (simp_all add: ceiling_def floor_fraction)

lemmas dec_evals = dadd_def dsub_def dmul_def ddiv_def dneg_def dabs_def rnd_eval
  floor_fraction ceiling_fraction integral_floor_def integral_ceiling_def integral_half_up_def

section \<open>Values with a bounded number of decimal places\<close>

text \<open>
  A value with \<open>k\<close> decimal places and at most \<open>b\<close> digits before the point. With \<open>k + b \<le> 28\<close> the
  context does not round it.
\<close>

definition decimal_places :: "nat \<Rightarrow> nat \<Rightarrow> rat \<Rightarrow> bool" where
  "decimal_places k b x \<longleftrightarrow> x * 10 ^ k \<in> \<int> \<and> \<bar>x\<bar> < 10 ^ b"

lemma decimal_places_fits:
  assumes "decimal_places k b x" "k + b \<le> p"
  shows "fits p x"
proof -
  obtain c where c: "x * 10 ^ k = of_int c" and b: "\<bar>x\<bar> < 10 ^ b"
    using assms(1) unfolding decimal_places_def by (auto elim: Ints_cases)
  have "(10::rat) powi int k * 10 powi (- int k) = 1"
    unfolding powi_10_add [symmetric] by simp
  then have x: "x = of_int c * 10 powi (- int k)"
    unfolding c [symmetric] by (simp add: mult.assoc)
  have "\<bar>of_int c :: rat\<bar> < 10 ^ b * 10 ^ k"
    unfolding c [symmetric] using b by (simp add: abs_mult mult_strict_right_mono)
  then have "\<bar>of_int c :: rat\<bar> < of_int (10 ^ (b + k))" by (simp add: power_add)
  then have "\<bar>c\<bar> < 10 ^ (b + k)" by linarith
  moreover have "(10::int) ^ (b + k) \<le> 10 ^ p" using assms(2) by (intro power_increasing) simp_all
  ultimately have "\<bar>c\<bar> < 10 ^ p" by linarith
  with x show ?thesis unfolding fits_def by blast
qed

lemma decimal_places_rnd: "decimal_places k b x \<Longrightarrow> k + b \<le> 28 \<Longrightarrow> rnd x = x"
  by (intro rnd_fits decimal_places_fits)

lemma decimal_places_raise:
  assumes "decimal_places k b x" "k \<le> k'" "b \<le> b'"
  shows "decimal_places k' b' x"
proof -
  have "x * 10 ^ k' = (x * 10 ^ k) * 10 ^ (k' - k)" using assms(2) by (simp flip: power_add)
  moreover have "(10::rat) ^ (k' - k) \<in> \<int>" by (intro Ints_power) simp
  ultimately have "x * 10 ^ k' \<in> \<int>"
    using assms(1) Ints_mult unfolding decimal_places_def by metis
  moreover have "(10::rat) ^ b \<le> 10 ^ b'" using assms(3) by (simp add: power_increasing)
  then have "\<bar>x\<bar> < 10 ^ b'" using assms(1) unfolding decimal_places_def by linarith
  ultimately show ?thesis by (simp add: decimal_places_def)
qed

lemma decimal_places_add:
  assumes "decimal_places k b x" "decimal_places k b y"
  shows "decimal_places k (Suc b) (x + y)"
proof -
  have "\<bar>x + y\<bar> < 10 ^ b + 10 ^ b"
    using assms abs_triangle_ineq [of x y] unfolding decimal_places_def by linarith
  also have "\<dots> \<le> 10 ^ Suc b" by simp
  finally show ?thesis using assms by (simp add: decimal_places_def distrib_right)
qed

lemma decimal_places_minus: "decimal_places k b (- x) = decimal_places k b x"
  by (simp add: decimal_places_def)

lemma decimal_places_diff:
  "decimal_places k b x \<Longrightarrow> decimal_places k b y \<Longrightarrow> decimal_places k (Suc b) (x - y)"
  using decimal_places_add [of k b x "- y"] by (simp add: decimal_places_minus)

lemma decimal_places_mult:
  assumes "decimal_places k b x" "decimal_places l c y"
  shows "decimal_places (k + l) (b + c) (x * y)"
proof -
  have "x * y * 10 ^ (k + l) = (x * 10 ^ k) * (y * 10 ^ l)" by (simp add: power_add)
  then have "x * y * 10 ^ (k + l) \<in> \<int>"
    using assms Ints_mult unfolding decimal_places_def by metis
  moreover have "\<bar>x * y\<bar> < 10 ^ b * 10 ^ c"
    using assms unfolding decimal_places_def abs_mult by (intro mult_strict_mono') auto
  ultimately show ?thesis unfolding decimal_places_def power_add by blast
qed

lemma decimal_places_scale: "decimal_places k b x \<Longrightarrow> decimal_places (k + n) b (x / 10 ^ n)"
proof -
  assume x: "decimal_places k b x"
  have "(1::rat) \<le> 10 ^ n" by simp
  then have "\<bar>x\<bar> / 10 ^ n \<le> \<bar>x\<bar>" by (simp add: divide_le_eq mult_le_cancel_left1)
  with x show ?thesis by (simp add: decimal_places_def power_add)
qed

end
