(* ===== verification/Market_Data.thy ===== *)
theory Market_Data
  imports Decimal_Context
begin

text \<open>
  Market symbols and timeframes (\<open>schemas/types.py\<close>), candles (\<open>schemas/candle.py\<close>), timeframe buckets
  (\<open>market_data/timeframes.py\<close>), the validation of candle sequences
  (\<open>market_data/normalization.py\<close>) and the canonical resampling of a continuous source
  (\<open>market_data/resampling.py\<close>).

  Datetimes are trusted UTC instants already (\<open>core/time.py\<close> refuses a datetime without offset before
  these functions see it), so \<open>normalize_utc_datetime\<close> is the identity here. Messages that
  interpolate a timestamp are kept without it.
\<close>

section \<open>Symbols, timeframes, candles\<close>

datatype market_symbol = XAUUSD | BTCUSDT | ETHUSDT

datatype timeframe =
    ONE_MINUTE | THREE_MINUTES | FIVE_MINUTES | FIFTEEN_MINUTES | THIRTY_MINUTES
  | ONE_HOUR | TWO_HOURS | FOUR_HOURS | ONE_DAY | ONE_WEEK

fun timeframe_value :: "timeframe \<Rightarrow> string" where
  "timeframe_value ONE_MINUTE = ''1m''"
| "timeframe_value THREE_MINUTES = ''3m''"
| "timeframe_value FIVE_MINUTES = ''5m''"
| "timeframe_value FIFTEEN_MINUTES = ''15m''"
| "timeframe_value THIRTY_MINUTES = ''30m''"
| "timeframe_value ONE_HOUR = ''1h''"
| "timeframe_value TWO_HOURS = ''2h''"
| "timeframe_value FOUR_HOURS = ''4h''"
| "timeframe_value ONE_DAY = ''1d''"
| "timeframe_value ONE_WEEK = ''1w''"

record candle =
  c_timestamp :: utc_time
  c_open :: price
  c_high :: price
  c_low :: price
  c_close :: price
  c_volume :: rat

definition candle_fields :: "candle \<Rightarrow> bool" where
  "candle_fields c \<longleftrightarrow>
     0 < c_open c \<and> 0 < c_high c \<and> 0 < c_low c \<and> 0 < c_close c \<and> 0 \<le> c_volume c"

definition validate_ohlc :: "candle \<Rightarrow> candle result" where
  "validate_ohlc c =
     (if c_high c < max (c_open c) (c_close c)
      then Inl (ValidationError ''high must be greater than or equal to open and close'')
      else if c_low c > min (c_open c) (c_close c)
      then Inl (ValidationError ''low must be less than or equal to open and close'')
      else if c_low c > c_high c
      then Inl (ValidationError ''low must be less than or equal to high'')
      else Inr c)"

definition make_candle :: "candle \<Rightarrow> candle result" where
  "make_candle c =
     (if candle_fields c then validate_ohlc c else Inl (ValidationError ''candle field''))"

definition candle_valid :: "candle \<Rightarrow> bool" where
  "candle_valid c \<longleftrightarrow> make_candle c = Inr c"

lemma candle_valid_iff:
  "candle_valid c \<longleftrightarrow>
     candle_fields c \<and> c_open c \<le> c_high c \<and> c_close c \<le> c_high c
     \<and> c_low c \<le> c_open c \<and> c_low c \<le> c_close c"
  by (auto simp: candle_valid_def make_candle_def validate_ohlc_def split: if_splits)

section \<open>Timeframe durations and buckets\<close>

fun timeframe_duration :: "timeframe \<Rightarrow> timedelta" where
  "timeframe_duration ONE_MINUTE = minutes 1"
| "timeframe_duration THREE_MINUTES = minutes 3"
| "timeframe_duration FIVE_MINUTES = minutes 5"
| "timeframe_duration FIFTEEN_MINUTES = minutes 15"
| "timeframe_duration THIRTY_MINUTES = minutes 30"
| "timeframe_duration ONE_HOUR = minutes 60"
| "timeframe_duration TWO_HOURS = minutes 120"
| "timeframe_duration FOUR_HOURS = minutes 240"
| "timeframe_duration ONE_DAY = minutes 1440"
| "timeframe_duration ONE_WEEK = minutes 10080"

definition timeframe_milliseconds :: "timeframe \<Rightarrow> int" where
  "timeframe_milliseconds tf = timeframe_duration tf div 1000"

fun to_binance_interval :: "timeframe \<Rightarrow> string" where
  "to_binance_interval ONE_MINUTE = ''1m''"
| "to_binance_interval THREE_MINUTES = ''3m''"
| "to_binance_interval FIVE_MINUTES = ''5m''"
| "to_binance_interval FIFTEEN_MINUTES = ''15m''"
| "to_binance_interval THIRTY_MINUTES = ''30m''"
| "to_binance_interval ONE_HOUR = ''1h''"
| "to_binance_interval TWO_HOURS = ''2h''"
| "to_binance_interval FOUR_HOURS = ''4h''"
| "to_binance_interval ONE_DAY = ''1d''"
| "to_binance_interval ONE_WEEK = ''1w''"

definition one_day :: timedelta where
  "one_day = minutes 1440"

text \<open>
  \<open>int(resolved.timestamp())\<close> truncates towards zero; the calendar fields that \<open>replace\<close> clears do
  not. Day 0 of the epoch is a Thursday, so day \<open>n\<close> has ISO weekday \<open>(n + 3) mod 7 + 1\<close>.
\<close>

definition epoch_seconds :: "utc_time \<Rightarrow> int" where
  "epoch_seconds t = (if 0 \<le> t then t div 1000000 else - ((- t) div 1000000))"

definition isoweekday :: "utc_time \<Rightarrow> int" where
  "isoweekday t = (t div one_day + 3) mod 7 + 1"

definition timeframe_bucket_start :: "utc_time \<Rightarrow> timeframe \<Rightarrow> utc_time" where
  "timeframe_bucket_start t tf =
     (let day_start = t div one_day * one_day
      in if tf = ONE_DAY then day_start
         else if tf = ONE_WEEK then day_start - (isoweekday day_start - 1) * one_day
         else let secs = timeframe_duration tf div 1000000
              in seconds (epoch_seconds t div secs * secs))"

definition timeframe_bucket_end :: "utc_time \<Rightarrow> timeframe \<Rightarrow> utc_time" where
  "timeframe_bucket_end t tf = timeframe_bucket_start t tf + timeframe_duration tf"

lemma timeframe_duration_pos [simp]: "0 < timeframe_duration tf"
  by (cases tf) simp_all

lemma one_day_pos [simp]: "0 < one_day"
  by (simp add: one_day_def)

lemma intraday_bucket:
  assumes "0 \<le> t" "tf \<noteq> ONE_DAY" "tf \<noteq> ONE_WEEK"
  shows "timeframe_bucket_start t tf = t div timeframe_duration tf * timeframe_duration tf"
proof -
  obtain k where k: "timeframe_duration tf = k * 1000000" "0 < k"
    using that by (cases tf) (auto simp: minutes_def seconds_def)
  have "t div 1000000 div k = t div (1000000 * k)"
    using k(2) by (simp add: zdiv_zmult2_eq)
  then show ?thesis
    using assms k by (simp add: timeframe_bucket_start_def epoch_seconds_def seconds_def mult.commute)
qed

lemma week_bucket:
  "timeframe_bucket_start t ONE_WEEK = t div one_day * one_day - (t div one_day + 3) mod 7 * one_day"
  by (simp add: timeframe_bucket_start_def isoweekday_def order_less_imp_not_eq2)

lemma timeframe_bucket_start_contains:
  assumes "0 \<le> t"
  shows "timeframe_bucket_start t tf \<le> t \<and> t < timeframe_bucket_end t tf"
proof -
  have div_bounds: "t div d * d \<le> t \<and> t < t div d * d + d" if "0 < d" for d :: int
    using that by (metis add_strict_left_mono div_mult_mod_eq le_add_same_cancel1 pos_mod_bound
        pos_mod_sign)
  consider "tf = ONE_DAY" | "tf = ONE_WEEK" | "tf \<noteq> ONE_DAY" "tf \<noteq> ONE_WEEK" by blast
  then show ?thesis
  proof cases
    case 1
    then show ?thesis
      using div_bounds [OF one_day_pos]
      by (simp add: timeframe_bucket_end_def timeframe_bucket_start_def one_day_def)
  next
    case 2
    define m where "m = (t div one_day + 3) mod 7"
    have "0 \<le> m" by (simp add: m_def)
    moreover have "m \<le> 6" using pos_mod_bound [of 7 "t div one_day + 3"] by (simp add: m_def)
    ultimately have m: "0 \<le> m" "m \<le> 6" .
    have "0 \<le> m * one_day" "m * one_day \<le> 6 * one_day"
      using m by (simp_all add: order_less_imp_le)
    moreover have "timeframe_duration ONE_WEEK = 7 * one_day"
      by (simp add: one_day_def minutes_def seconds_def)
    ultimately show ?thesis
      using div_bounds [OF one_day_pos]
      unfolding 2 timeframe_bucket_end_def week_bucket m_def [symmetric] by linarith
  next
    case 3
    then show ?thesis
      using div_bounds [OF timeframe_duration_pos [of tf]] assms
      by (simp add: timeframe_bucket_end_def intraday_bucket)
  qed
qed

text \<open>A bucket start is its own bucket start, and two instants share a bucket or not at all.\<close>

lemma timeframe_bucket_start_idem:
  assumes "0 \<le> t"
  shows "timeframe_bucket_start (timeframe_bucket_start t tf) tf = timeframe_bucket_start t tf"
proof -
  consider "tf = ONE_DAY" | "tf = ONE_WEEK" | "tf \<noteq> ONE_DAY" "tf \<noteq> ONE_WEEK" by blast
  then show ?thesis
  proof cases
    case 1
    then show ?thesis by (simp add: timeframe_bucket_start_def order_less_imp_not_eq2)
  next
    case 2
    define n where "n = t div one_day"
    have "t div one_day * one_day - (t div one_day + 3) mod 7 * one_day = (n - (n + 3) mod 7) * one_day"
      by (simp add: n_def left_diff_distrib)
    moreover have "(n - (n + 3) mod 7 + 3) mod 7 = 0" by presburger
    ultimately show ?thesis
      using 2 by (simp add: week_bucket order_less_imp_not_eq2)
  next
    case 3
    have "0 \<le> t div timeframe_duration tf * timeframe_duration tf"
      using assms by (simp add: pos_imp_zdiv_nonneg_iff order_less_imp_le)
    with 3 assms show ?thesis
      by (simp add: intraday_bucket order_less_imp_not_eq2)
  qed
qed

section \<open>Validation of candle sequences\<close>

definition check_alignment :: "timeframe \<Rightarrow> candle \<Rightarrow> unit result" where
  "check_alignment tf c =
     require (timeframe_bucket_start (c_timestamp c) tf = c_timestamp c)
       (TimeframeAlignmentError ''Candle timestamp is not aligned'')"

definition validate_candle_alignment :: "candle list \<Rightarrow> timeframe \<Rightarrow> unit result" where
  "validate_candle_alignment cs tf = check_all (check_alignment tf) cs"

definition check_spacing :: "timedelta \<Rightarrow> candle \<times> candle \<Rightarrow> unit result" where
  "check_spacing interval = (\<lambda>(previous, current).
     let actual_delta = c_timestamp current - c_timestamp previous
     in if actual_delta > interval then Inl (MissingCandleError ''Missing candle'')
        else if actual_delta < interval
        then Inl (TimeframeAlignmentError ''Candle spacing is smaller than the interval'')
        else Inr ())"

definition validate_ordered_candles ::
  "candle list \<Rightarrow> timeframe \<Rightarrow> utc_time list option \<Rightarrow> unit result" where
  "validate_ordered_candles ordered tf expected_timestamps =
     (if ordered = [] then Inl (EmptyCandleSetError ''Provider returned no closed candles'')
      else if \<not> distinct (map c_timestamp ordered)
      then Inl (DuplicateTimestampError ''Provider returned duplicate candle timestamps'')
      else bind_result (validate_candle_alignment ordered tf) (\<lambda>_.
        case expected_timestamps of
          Some expected \<Rightarrow>
            require (map c_timestamp ordered = expected)
              (SessionCalendarMismatchError
                 ''Provider candles do not match the versioned session calendar'')
        | None \<Rightarrow> check_all (check_spacing (timeframe_duration tf)) (adjacent ordered)))"

definition normalize_candle_order :: "candle list \<Rightarrow> timeframe \<Rightarrow> candle list result" where
  "normalize_candle_order cs tf =
     (let ordered = sort_key c_timestamp cs
      in bind_result (validate_ordered_candles ordered tf None) (\<lambda>_. Inr ordered))"

definition validate_candle_order ::
  "candle list \<Rightarrow> timeframe \<Rightarrow> utc_time list option \<Rightarrow> candle list result" where
  "validate_candle_order ordered tf expected_timestamps =
     (if list_ex (\<lambda>(previous, current). c_timestamp current < c_timestamp previous) (adjacent ordered)
      then Inl (OutOfOrderTimestampError
        ''Provider returned candle timestamps outside chronological order'')
      else bind_result (validate_ordered_candles ordered tf expected_timestamps) (\<lambda>_. Inr ordered))"

text \<open>What a sequence validated without a calendar is: aligned, and each candle one interval on.\<close>

definition continuous :: "timeframe \<Rightarrow> candle list \<Rightarrow> bool" where
  "continuous tf cs \<longleftrightarrow>
     (\<forall>c\<in>set cs. timeframe_bucket_start (c_timestamp c) tf = c_timestamp c)
     \<and> (\<forall>(a, b)\<in>set (adjacent cs). c_timestamp b = c_timestamp a + timeframe_duration tf)"

lemma check_spacing_Inr:
  "check_spacing d p = Inr u \<longleftrightarrow> c_timestamp (snd p) = c_timestamp (fst p) + d"
  by (auto simp: check_spacing_def Let_def split: prod.splits if_splits)

lemma validate_ordered_candles_Inr:
  "validate_ordered_candles cs tf None = Inr u \<longleftrightarrow>
     cs \<noteq> [] \<and> distinct (map c_timestamp cs) \<and> continuous tf cs"
  by (auto simp: validate_ordered_candles_def validate_candle_alignment_def check_all_Inr
      bind_result_eq_Inr check_alignment_def check_spacing_Inr continuous_def split_beta)

lemma spaced_sorted:
  assumes "0 < d" "\<forall>(a, b)\<in>set (adjacent cs). c_timestamp b = c_timestamp a + d"
  shows "sorted_wrt (<) (map c_timestamp cs)"
  using assms(2)
proof (induction cs rule: induct_list012)
  case (3 a b cs)
  then have IH: "sorted_wrt (<) (map c_timestamp (b # cs))" and "c_timestamp b = c_timestamp a + d"
    by auto
  then have "c_timestamp a < c_timestamp b" using assms(1) by simp
  with IH show ?case by (auto dest: bspec)
qed auto

lemma continuous_sorted: "continuous tf cs \<Longrightarrow> sorted_wrt (<) (map c_timestamp cs)"
  unfolding continuous_def by (rule spaced_sorted [OF timeframe_duration_pos]) blast

lemma strict_sorted_imp_sorted: "sorted_wrt (<) xs \<Longrightarrow> sorted (xs::'a::linorder list)"
  by (induction xs) (auto simp: order_less_imp_le)

lemma continuous_imp_sort_key_id: "continuous tf cs \<Longrightarrow> sort_key c_timestamp cs = cs"
  by (intro sort_key_id_if_sorted strict_sorted_imp_sorted continuous_sorted)

lemma continuous_append: "continuous tf (xs @ ys) \<Longrightarrow> continuous tf xs"
  unfolding continuous_def using adjacent_set_prefix [of xs ys] by fastforce

text \<open>The instant up to which the engines have seen everything: the close of the last candle.\<close>

definition data_cutoff :: "candle list \<Rightarrow> timeframe \<Rightarrow> utc_time option" where
  "data_cutoff candles tf =
     (if candles = [] then None else Some (c_timestamp (last candles) + timeframe_duration tf))"

end
