(* ===== verification/Resampling.thy ===== *)
theory Resampling
  imports Market_Data
begin

text \<open>
  \<open>market_data/resampling.py\<close>: complete higher-timeframe candles from a continuous canonical source,
  at a cutoff. The central property is that the result at an earlier cutoff is the part of a later
  result whose buckets had already closed: nothing repaints.
\<close>

definition eligible_at :: "timedelta \<Rightarrow> utc_time \<Rightarrow> candle list \<Rightarrow> candle list" where
  "eligible_at source_duration cutoff cs =
     filter (\<lambda>c. c_timestamp c + source_duration \<le> cutoff) cs"

definition expected_opens :: "utc_time \<Rightarrow> nat \<Rightarrow> timedelta \<Rightarrow> utc_time list" where
  "expected_opens bucket_start expected_count source_duration =
     map (\<lambda>i. bucket_start + int i * source_duration) [0..<expected_count]"

definition bucket_members :: "timeframe \<Rightarrow> candle list \<Rightarrow> utc_time \<Rightarrow> candle list" where
  "bucket_members tf cs b = filter (\<lambda>c. timeframe_bucket_start (c_timestamp c) tf = b) cs"

definition aggregate_bucket :: "utc_time \<Rightarrow> candle list \<Rightarrow> candle" where
  "aggregate_bucket b constituents =
     \<lparr>c_timestamp = b,
      c_open = c_open (hd constituents),
      c_high = Max (set (map c_high constituents)),
      c_low = Min (set (map c_low constituents)),
      c_close = c_close (last constituents),
      c_volume = dsum (map c_volume constituents)\<rparr>"

fun derive_buckets ::
  "timeframe \<Rightarrow> timedelta \<Rightarrow> utc_time \<Rightarrow> candle list \<Rightarrow> utc_time list \<Rightarrow> candle list result" where
  "derive_buckets tf source_duration cutoff eligible [] = Inr []"
| "derive_buckets tf source_duration cutoff eligible (b # bs) =
     (let target_duration = timeframe_duration tf;
          constituents = sort_key c_timestamp (bucket_members tf eligible b);
          expected_count = nat (target_duration div source_duration)
      in if b + target_duration > cutoff
         then derive_buckets tf source_duration cutoff eligible bs
         else if map c_timestamp constituents \<noteq> expected_opens b expected_count source_duration
         then derive_buckets tf source_duration cutoff eligible bs
         else bind_result (make_candle (aggregate_bucket b constituents)) (\<lambda>derived.
                bind_result (derive_buckets tf source_duration cutoff eligible bs)
                  (\<lambda>rest. Inr (derived # rest))))"

definition resample_canonical_candles ::
  "candle list \<Rightarrow> timeframe \<Rightarrow> timeframe \<Rightarrow> utc_time \<Rightarrow> candle list result" where
  "resample_canonical_candles cs source_timeframe target_timeframe cutoff =
     (let source_duration = timeframe_duration source_timeframe;
          target_duration = timeframe_duration target_timeframe;
          eligible_input = eligible_at source_duration cutoff cs
      in if target_duration < source_duration \<or> target_duration mod source_duration \<noteq> 0
         then Inl (CanonicalResamplingError
           ''target timeframe must be an integer multiple of canonical source timeframe'')
         else if eligible_input = [] then Inr []
         else case normalize_candle_order eligible_input source_timeframe of
           Inl _ \<Rightarrow> Inl (CanonicalResamplingError ''source candles failed validation'')
         | Inr eligible \<Rightarrow>
             if eligible \<noteq> eligible_input
             then Inl (CanonicalResamplingError
               ''canonical source candles must already be in ascending order'')
             else if target_timeframe = source_timeframe then Inr eligible
             else derive_buckets target_timeframe source_duration cutoff eligible
               (sort (remdups
                  (map (\<lambda>c. timeframe_bucket_start (c_timestamp c) target_timeframe) eligible))))"

section \<open>The aggregation never fails on valid candles\<close>

lemma aggregate_bucket_valid:
  assumes "cs \<noteq> []" "\<forall>c\<in>set cs. candle_valid c"
  shows "candle_valid (aggregate_bucket b cs)"
proof -
  have v: "\<And>c. c \<in> set cs \<Longrightarrow> candle_fields c \<and> c_open c \<le> c_high c \<and> c_close c \<le> c_high c
      \<and> c_low c \<le> c_open c \<and> c_low c \<le> c_close c"
    using assms(2) by (simp add: candle_valid_iff)
  have hd: "hd cs \<in> set cs" and lt: "last cs \<in> set cs" using assms(1) by simp_all
  have hi: "\<And>c. c \<in> set cs \<Longrightarrow> c_high c \<le> Max (set (map c_high cs))" by simp
  have lo: "\<And>c. c \<in> set cs \<Longrightarrow> Min (set (map c_low cs)) \<le> c_low c" by simp
  have "Min (set (map c_low cs)) \<in> set (map c_low cs)" using assms(1) by (intro Min_in) simp_all
  then have "0 < Min (set (map c_low cs))" using v by (auto simp: candle_fields_def)
  moreover have "0 < Max (set (map c_high cs))"
    using hi [OF hd] v [OF hd] by (simp add: candle_fields_def)
  moreover have "0 \<le> dsum (map c_volume cs)"
    using v by (intro dsum_nonneg) (auto simp: candle_fields_def)
  ultimately show ?thesis
    using v [OF hd] v [OF lt] hi [OF hd] hi [OF lt] lo [OF hd] lo [OF lt]
    unfolding candle_valid_iff by (simp add: aggregate_bucket_def candle_fields_def)
qed

lemma c_timestamp_aggregate [simp]: "c_timestamp (aggregate_bucket b cs) = b"
  by (simp add: aggregate_bucket_def)

definition bucket_complete ::
  "timeframe \<Rightarrow> timedelta \<Rightarrow> utc_time \<Rightarrow> candle list \<Rightarrow> utc_time \<Rightarrow> bool" where
  "bucket_complete tf source_duration cutoff eligible b \<longleftrightarrow>
     b + timeframe_duration tf \<le> cutoff
     \<and> map c_timestamp (sort_key c_timestamp (bucket_members tf eligible b))
       = expected_opens b (nat (timeframe_duration tf div source_duration)) source_duration"

lemma derive_buckets_eq:
  assumes "0 < d" "d \<le> timeframe_duration tf" "\<forall>c\<in>set eligible. candle_valid c"
  shows "derive_buckets tf d cutoff eligible bs =
     Inr (map (\<lambda>b. aggregate_bucket b (sort_key c_timestamp (bucket_members tf eligible b)))
          (filter (bucket_complete tf d cutoff eligible) bs))"
proof (induction bs)
  case (Cons b bs)
  let ?m = "sort_key c_timestamp (bucket_members tf eligible b)"
  have "candle_valid (aggregate_bucket b ?m)" if "bucket_complete tf d cutoff eligible b"
  proof (rule aggregate_bucket_valid)
    have "0 < timeframe_duration tf div d" using assms(1,2) by (simp add: pos_imp_zdiv_pos_iff)
    then show "?m \<noteq> []"
      using that by (auto simp: bucket_complete_def expected_opens_def)
    show "\<forall>c\<in>set ?m. candle_valid c" using assms(3) by (auto simp: bucket_members_def)
  qed
  with Cons show ?case
    by (auto simp: Let_def bucket_complete_def candle_valid_def)
qed simp

section \<open>Cutoffs\<close>

lemma eligible_at_mono:
  "c1 \<le> c2 \<Longrightarrow>
     eligible_at d c1 cs = filter (\<lambda>c. c_timestamp c + d \<le> c1) (eligible_at d c2 cs)"
  by (auto simp: eligible_at_def intro!: filter_cong)

lemma continuous_eligible:
  assumes "continuous tf cs"
  shows "continuous tf (filter (\<lambda>c. c_timestamp c + d \<le> t) cs)"
proof -
  have "sorted_wrt (\<lambda>a b. c_timestamp a + d \<le> c_timestamp b + d) cs"
    using continuous_sorted [OF assms] unfolding sorted_wrt_map
    by (rule sorted_wrt_mono_rel [rotated]) simp
  then have "sorted (map (\<lambda>c. c_timestamp c + d) cs)" by (simp only: sorted_wrt_map)
  then obtain ys where "cs = filter (\<lambda>c. c_timestamp c + d \<le> t) cs @ ys"
    using filter_le_prefix [of "\<lambda>c. c_timestamp c + d" cs t] by blast
  with assms show ?thesis by (metis continuous_append)
qed

lemma continuous_multiples:
  assumes "continuous tf cs" "a \<in> set cs" "c \<in> set cs"
  shows "\<exists>k. c_timestamp c = c_timestamp a + k * timeframe_duration tf"
proof -
  have *: "\<exists>k. c_timestamp c = c_timestamp (hd cs) + k * timeframe_duration tf"
    if "\<forall>(a, b)\<in>set (adjacent cs). c_timestamp b = c_timestamp a + timeframe_duration tf" "c \<in> set cs"
    for c
    using that
  proof (induction cs arbitrary: c rule: induct_list012)
    case (2 x)
    then show ?case by (auto intro: exI [of _ 0])
  next
    case (3 x y zs)
    show ?case
    proof (cases "c = x")
      case True
      then show ?thesis by (auto intro: exI [of _ 0])
    next
      case False
      then have "c \<in> set (y # zs)" using "3.prems" by simp
      moreover have "\<forall>(a, b)\<in>set (adjacent (y # zs)).
          c_timestamp b = c_timestamp a + timeframe_duration tf" using "3.prems" by simp
      ultimately have "\<exists>k. c_timestamp c = c_timestamp (hd (y # zs)) + k * timeframe_duration tf"
        by (intro "3.IH"(2))
      then obtain k where "c_timestamp c = c_timestamp y + k * timeframe_duration tf" by auto
      moreover have "c_timestamp y = c_timestamp x + timeframe_duration tf" using "3.prems" by simp
      ultimately have "c_timestamp c = c_timestamp x + (k + 1) * timeframe_duration tf"
        by (simp add: distrib_right)
      then show ?thesis by auto
    qed
  qed simp
  obtain k j where "c_timestamp c = c_timestamp (hd cs) + k * timeframe_duration tf"
    "c_timestamp a = c_timestamp (hd cs) + j * timeframe_duration tf"
    using assms * unfolding continuous_def by meson
  then have "c_timestamp c = c_timestamp a + (k - j) * timeframe_duration tf"
    by (simp add: left_diff_distrib)
  then show ?thesis ..
qed

section \<open>Completeness of a bucket does not depend on the cutoff\<close>

lemma bucket_members_same:
  assumes cont: "continuous src el2" and pos: "\<forall>c\<in>set el2. 0 \<le> c_timestamp c"
    and el1: "el1 = filter (\<lambda>c. c_timestamp c + d \<le> c1) el2"
    and d: "d = timeframe_duration src" and mult: "timeframe_duration tf mod d = 0"
    and le: "b + timeframe_duration tf \<le> c1"
    and first: "\<exists>a\<in>set el2. c_timestamp a = b"
  shows "bucket_members tf el1 b = bucket_members tf el2 b"
proof -
  have dpos: "0 < d" by (simp add: d)
  have "c_timestamp c + d \<le> c1"
    if c: "c \<in> set el2" and b: "timeframe_bucket_start (c_timestamp c) tf = b" for c
  proof -
    obtain a where a: "a \<in> set el2" "c_timestamp a = b" using first by blast
    obtain k where k: "c_timestamp c = b + k * d"
      using continuous_multiples [OF cont a(1) c] a(2) d by auto
    obtain n where n: "timeframe_duration tf = n * d"
      using mult by (metis mod_0_imp_dvd dvd_def mult.commute)
    have "c_timestamp c < b + timeframe_duration tf"
      using timeframe_bucket_start_contains [of "c_timestamp c" tf] pos c b
      by (simp add: timeframe_bucket_end_def)
    then have "k * d < n * d" using k n by simp
    then have "k + 1 \<le> n" using dpos by (simp add: mult_less_cancel_right)
    then have "(k + 1) * d \<le> n * d" using dpos by (intro mult_right_mono) simp_all
    then show ?thesis using k n le by (simp add: distrib_right)
  qed
  then show ?thesis
    unfolding el1 bucket_members_def by (auto intro!: filter_cong simp: filter_filter)
qed

lemma complete_has_first:
  assumes "0 < d" "d \<le> timeframe_duration tf"
    and "map c_timestamp (sort_key c_timestamp (bucket_members tf el b))
       = expected_opens b (nat (timeframe_duration tf div d)) d"
  shows "\<exists>a\<in>set el. c_timestamp a = b"
proof -
  have "0 < nat (timeframe_duration tf div d)" using assms(1,2) by (simp add: pos_imp_zdiv_pos_iff)
  then have "b \<in> set (expected_opens b (nat (timeframe_duration tf div d)) d)"
    unfolding expected_opens_def by force
  then have "b \<in> set (map c_timestamp (sort_key c_timestamp (bucket_members tf el b)))"
    by (simp only: assms(3))
  then show ?thesis by (auto simp: bucket_members_def)
qed

lemma bucket_complete_earlier:
  assumes cont: "continuous src el2" and pos: "\<forall>c\<in>set el2. 0 \<le> c_timestamp c"
    and el1: "el1 = filter (\<lambda>c. c_timestamp c + timeframe_duration src \<le> c1) el2"
    and mult: "timeframe_duration tf mod timeframe_duration src = 0"
    and le: "timeframe_duration src \<le> timeframe_duration tf" and c: "c1 \<le> c2"
  shows "bucket_complete tf (timeframe_duration src) c1 el1 b \<longleftrightarrow>
      bucket_complete tf (timeframe_duration src) c2 el2 b \<and> b + timeframe_duration tf \<le> c1"
    and "bucket_complete tf (timeframe_duration src) c1 el1 b \<Longrightarrow>
      bucket_members tf el1 b = bucket_members tf el2 b"
proof -
  let ?d = "timeframe_duration src"
  have same: "bucket_members tf el1 b = bucket_members tf el2 b"
    if "b + timeframe_duration tf \<le> c1"
      and "bucket_complete tf ?d c1 el1 b \<or> bucket_complete tf ?d c2 el2 b"
  proof (rule bucket_members_same [OF cont pos el1 refl mult that(1)])
    have "\<exists>a\<in>set el1 \<union> set el2. c_timestamp a = b"
      using that(2) complete_has_first [OF timeframe_duration_pos [of src] le]
      unfolding bucket_complete_def by blast
    then show "\<exists>a\<in>set el2. c_timestamp a = b" by (auto simp: el1)
  qed
  show "bucket_complete tf ?d c1 el1 b \<longleftrightarrow>
      bucket_complete tf ?d c2 el2 b \<and> b + timeframe_duration tf \<le> c1"
    using same c unfolding bucket_complete_def by (metis order_trans)
  show "bucket_members tf el1 b = bucket_members tf el2 b" if "bucket_complete tf ?d c1 el1 b"
    using same that by (simp add: bucket_complete_def)
qed

lemma sorted_buckets_filter:
  fixes f :: "'a \<Rightarrow> 'b::linorder"
  assumes "set xs \<subseteq> set ys" "\<forall>y\<in>set ys. P (f y) \<longrightarrow> (\<exists>x\<in>set xs. f x = f y)"
  shows "filter P (sort (remdups (map f xs))) = filter P (sort (remdups (map f ys)))"
proof (rule sorted_distinct_set_unique)
  show "set (filter P (sort (remdups (map f xs)))) = set (filter P (sort (remdups (map f ys))))"
    using assms by (auto; metis imageI)
qed (simp_all add: sorted_filter [where f = id, simplified])

section \<open>Non-repainting\<close>

text \<open>
  C3: Resampling is point-in-time: whatever a later cutoff produces, the result at an earlier
  cutoff is exactly the part whose buckets had closed by then. Later candles cannot change, add or
  remove an already published higher-timeframe candle, and cannot make the earlier call fail.
\<close>

theorem resample_point_in_time:
  assumes res: "resample_canonical_candles cs src tgt c2 = Inr r2" and c: "c1 \<le> c2"
    and cs: "\<forall>c\<in>set cs. candle_valid c \<and> 0 \<le> c_timestamp c"
  shows "resample_canonical_candles cs src tgt c1 =
     Inr (filter (\<lambda>c. c_timestamp c + timeframe_duration tgt \<le> c1) r2)"
proof -
  let ?d = "timeframe_duration src" and ?t = "timeframe_duration tgt"
  define el1 el2 where "el1 = eligible_at ?d c1 cs" and "el2 = eligible_at ?d c2 cs"
  let ?bs = "\<lambda>el. sort (remdups (map (\<lambda>c. timeframe_bucket_start (c_timestamp c) tgt) el))"
  have el1: "el1 = filter (\<lambda>c. c_timestamp c + ?d \<le> c1) el2"
    unfolding el1_def el2_def using c by (rule eligible_at_mono)
  have ok: "?d \<le> ?t" "?t mod ?d = 0"
    using res by (auto simp: resample_canonical_candles_def Let_def split: if_splits)
  have valid: "\<forall>c\<in>set el2. candle_valid c" "\<forall>c\<in>set el2. 0 \<le> c_timestamp c"
    "\<forall>c\<in>set el1. candle_valid c"
    using cs by (auto simp: el1_def el2_def eligible_at_def)
  show ?thesis
  proof (cases "el2 = []")
    case True
    then show ?thesis using res ok el1
      by (simp add: resample_canonical_candles_def Let_def flip: el1_def el2_def)
  next
    case ne: False
    have norm: "sort_key c_timestamp el2 = el2" "continuous src el2"
      using res ne ok by (auto simp: resample_canonical_candles_def Let_def normalize_candle_order_def
          bind_result_eq_Inr validate_ordered_candles_Inr
          simp flip: el2_def split: sum.splits if_splits)
    have cont1: "continuous src el1"
      unfolding el1 using norm(2) by (rule continuous_eligible)
    have run: "resample_canonical_candles cs src tgt x =
        (if el = [] then Inr [] else if tgt = src then Inr el
         else derive_buckets tgt ?d x el (?bs el))"
      if "el = eligible_at ?d x cs" "continuous src el" for x el
    proof -
      have "normalize_candle_order el src = Inr el" if "el \<noteq> []"
        using \<open>continuous src el\<close> that strict_sorted_iff [of "map c_timestamp el"]
        by (simp add: normalize_candle_order_def Let_def continuous_imp_sort_key_id
            bind_result_eq_Inr validate_ordered_candles_Inr continuous_sorted)
      with ok that show ?thesis by (simp add: resample_canonical_candles_def Let_def)
    qed
    let ?agg = "\<lambda>el b. aggregate_bucket b (sort_key c_timestamp (bucket_members tgt el b))"
    let ?out = "\<lambda>el x. map (?agg el) (filter (bucket_complete tgt ?d x el) (?bs el))"
    have r2: "r2 = (if tgt = src then el2 else ?out el2 c2)"
      using res run [OF el2_def norm(2)] ne
        derive_buckets_eq [OF timeframe_duration_pos ok(1) valid(1)] by (simp split: if_splits)
    have r1: "resample_canonical_candles cs src tgt c1 =
        Inr (if tgt = src then el1 else ?out el1 c1)"
      using run [OF el1_def cont1] derive_buckets_eq [OF timeframe_duration_pos ok(1) valid(3)]
      by simp
    have "?out el1 c1 = filter (\<lambda>c. c_timestamp c + ?t \<le> c1) (?out el2 c2)"
    proof -
      let ?P = "bucket_complete tgt ?d c1 el1"
      note early = bucket_complete_earlier [OF norm(2) valid(2) el1 ok(2,1) c]
      have buckets: "filter ?P (?bs el1) = filter ?P (?bs el2)"
      proof (rule sorted_buckets_filter)
        show "set el1 \<subseteq> set el2" by (auto simp: el1)
        have "\<exists>a\<in>set el1. timeframe_bucket_start (c_timestamp a) tgt = b" if "?P b" for b
        proof -
          have "0 < ?t div ?d" using ok(1) by (simp add: pos_imp_zdiv_pos_iff)
          then have "bucket_members tgt el1 b \<noteq> []"
            using that by (auto simp: bucket_complete_def expected_opens_def)
          then show ?thesis by (auto simp: bucket_members_def filter_empty_conv)
        qed
        then show "\<forall>y\<in>set el2. ?P (timeframe_bucket_start (c_timestamp y) tgt) \<longrightarrow>
            (\<exists>x\<in>set el1. timeframe_bucket_start (c_timestamp x) tgt
               = timeframe_bucket_start (c_timestamp y) tgt)" by blast
      qed
      have candles: "map (?agg el1) (filter ?P bs) = map (?agg el2) (filter ?P bs)" for bs
        using early(2) by simp
      have later: "filter (\<lambda>c. c_timestamp c + ?t \<le> c1)
          (map (?agg el2) (filter (bucket_complete tgt ?d c2 el2) bs))
        = map (?agg el2) (filter ?P bs)" for bs
      proof -
        have "?P = (\<lambda>b. b + ?t \<le> c1 \<and> bucket_complete tgt ?d c2 el2 b)"
          by (rule ext) (simp add: early(1) conj_commute)
        then show ?thesis by (simp add: filter_map o_def conj_commute)
      qed
      show ?thesis by (simp only: buckets candles later)
    qed
    with r1 r2 el1 show ?thesis by simp
  qed
qed

text \<open>A witness: three one-minute candles, the last of them unseen at the earlier cutoff.\<close>

definition sample_candle :: "int \<Rightarrow> rat \<Rightarrow> candle" where
  "sample_candle t p =
     \<lparr>c_timestamp = t, c_open = p, c_high = p, c_low = p, c_close = p, c_volume = 0\<rparr>"

lemma sample_candle_valid: "0 < p \<Longrightarrow> candle_valid (sample_candle t p)"
  by (simp add: candle_valid_iff candle_fields_def sample_candle_def)

theorem resample_point_in_time_witness:
  "resample_canonical_candles (map (\<lambda>i. sample_candle (minutes i) 7) [0, 1, 2])
     ONE_MINUTE THREE_MINUTES (minutes 2) = Inr []"
proof -
  let ?cs = "map (\<lambda>i. sample_candle (minutes i) 7) [0, 1, 2 :: int]"
  have "resample_canonical_candles ?cs ONE_MINUTE THREE_MINUTES (minutes 3)
      = Inr [sample_candle 0 7]"
    by code_simp
  from resample_point_in_time [OF this, of "minutes 2"]
  have "resample_canonical_candles ?cs ONE_MINUTE THREE_MINUTES (minutes 2) =
      Inr (filter (\<lambda>c. c_timestamp c + timeframe_duration THREE_MINUTES \<le> minutes 2)
        [sample_candle 0 7])"
    by (simp add: sample_candle_valid minutes_def seconds_def) (simp add: sample_candle_def)
  then show ?thesis by (simp add: sample_candle_def minutes_def seconds_def)
qed

text \<open>
  Every resampled candle is complete and conservative: its bucket had closed at the cutoff, it is
  a valid candle, the source candles of its bucket are exactly the expected opens, and its range
  covers each of them.
\<close>

theorem resample_sound:
  assumes res: "resample_canonical_candles cs src tgt cutoff = Inr r" and ne: "tgt \<noteq> src"
    and cs: "\<forall>c\<in>set cs. candle_valid c" and x: "x \<in> set r"
  shows "c_timestamp x + timeframe_duration tgt \<le> cutoff \<and> candle_valid x \<and>
     (let ks = sort_key c_timestamp (bucket_members tgt
                 (eligible_at (timeframe_duration src) cutoff cs) (c_timestamp x))
      in map c_timestamp ks = expected_opens (c_timestamp x)
           (nat (timeframe_duration tgt div timeframe_duration src)) (timeframe_duration src)
         \<and> c_open x = c_open (hd ks) \<and> c_close x = c_close (last ks)
         \<and> (\<forall>k\<in>set ks. c_low x \<le> c_low k \<and> c_high k \<le> c_high x))"
proof -
  let ?d = "timeframe_duration src"
  define el where "el = eligible_at ?d cutoff cs"
  let ?ks = "\<lambda>b. sort_key c_timestamp (bucket_members tgt el b)"
  have valid: "\<forall>c\<in>set el. candle_valid c" using cs by (auto simp: el_def eligible_at_def)
  have le: "?d \<le> timeframe_duration tgt"
    using res by (auto simp: resample_canonical_candles_def Let_def split: if_splits)
  have "el \<noteq> []" and "derive_buckets tgt ?d cutoff el
      (sort (remdups (map (\<lambda>c. timeframe_bucket_start (c_timestamp c) tgt) el))) = Inr r"
    using res x ne by (auto simp: resample_canonical_candles_def Let_def
        simp flip: el_def split: if_splits sum.splits)
  then obtain b where b: "bucket_complete tgt ?d cutoff el b" and "x = aggregate_bucket b (?ks b)"
    using x derive_buckets_eq [OF timeframe_duration_pos le valid] by auto
  have "0 < timeframe_duration tgt div ?d" using le by (simp add: pos_imp_zdiv_pos_iff)
  then have "?ks b \<noteq> []" using b by (auto simp: bucket_complete_def expected_opens_def)
  then have "candle_valid (aggregate_bucket b (?ks b))"
    using valid by (intro aggregate_bucket_valid) (auto simp: bucket_members_def)
  then show ?thesis
    using b unfolding \<open>x = _\<close> el_def [symmetric]
    by (simp add: bucket_complete_def Let_def) (simp add: aggregate_bucket_def)
qed

end
