(* ===== verification/Digit_Text.thy ===== *)
theory Digit_Text
  imports Prelude
begin

text \<open>
  The decimal digits of a number as text: \<open>str(n)\<close>, the zero padded fields of a format, and the
  reading of digits back. The texts of amounts (\<open>Decimal_Policy\<close>) and of instants (\<open>Iso_Time\<close>) are
  made of them.
\<close>

definition digit_char :: "nat \<Rightarrow> char" where
  "digit_char n = char_of (48 + n mod 10)"

fun nat_text :: "nat \<Rightarrow> string" where
  "nat_text n = (if n < 10 then [digit_char n] else nat_text (n div 10) @ [digit_char n])"

declare nat_text.simps [simp del]

text \<open>\<open>k\<close> digits of a number, with leading zeros.\<close>

fun padded_text :: "nat \<Rightarrow> nat \<Rightarrow> string" where
  "padded_text 0 n = []"
| "padded_text (Suc k) n = padded_text k (n div 10) @ [digit_char n]"

text \<open>\<open>str.zfill\<close> of a text without a sign.\<close>

definition zero_fill :: "nat \<Rightarrow> string \<Rightarrow> string" where
  "zero_fill w s = replicate (w - length s) CHR ''0'' @ s"

text \<open>Reading digits, as \<open>int(text)\<close> and \<open>Decimal(text)\<close> do.\<close>

definition read_nat :: "string \<Rightarrow> nat" where
  "read_nat s = foldl (\<lambda>a c. 10 * a + (of_char c - 48)) 0 s"

lemma read_nat_snoc [simp]: "read_nat (s @ [c]) = 10 * read_nat s + (of_char c - 48)"
  by (simp add: read_nat_def)

lemma read_nat_Nil [simp]: "read_nat [] = 0"
  by (simp add: read_nat_def)

lemma of_digit_char: "of_char (digit_char n) = (48 + n mod 10 :: nat)"
proof -
  have "(48 + n mod 10) mod 256 = 48 + n mod 10"
    by (rule mod_less) (use mod_less_divisor [of 10 n] in linarith)
  then show ?thesis by (simp add: of_char_of digit_char_def)
qed

lemma digit_char_value [simp]: "of_char (digit_char n) - (48::nat) = n mod 10"
  by (simp add: of_digit_char)

lemma char_eq_code: "(c = d) = ((of_char c :: nat) = of_char d)"
  by simp

lemma digit_char_neq [simp]:
  "digit_char n \<noteq> CHR ''.''" "digit_char n \<noteq> CHR ''-''" "CHR ''.'' \<noteq> digit_char n"
  "digit_char n = CHR ''0'' \<longleftrightarrow> n mod 10 = 0"
  by (simp_all only: char_eq_code of_digit_char) simp_all

lemma nat_text_not_Nil [simp]: "nat_text n \<noteq> []"
  by (subst nat_text.simps) simp

definition digits_text :: "string \<Rightarrow> bool" where
  "digits_text s \<longleftrightarrow> (\<forall>c\<in>set s. c \<noteq> CHR ''.'' \<and> c \<noteq> CHR ''-'')"

lemma digits_text_nat_text [simp]: "digits_text (nat_text n)"
  by (induction n rule: nat_text.induct) (subst nat_text.simps, simp add: digits_text_def)

lemma digits_text_padded [simp]: "digits_text (padded_text k n)"
  by (induction k arbitrary: n) (simp_all add: digits_text_def)

lemma length_padded [simp]: "length (padded_text k n) = k"
  by (induction k arbitrary: n) simp_all

lemma read_nat_text [simp]: "read_nat (nat_text n) = n"
proof (induction n rule: nat_text.induct)
  case (1 n)
  then show ?case
    by (subst nat_text.simps) (auto simp: read_nat_def)
qed

lemma read_padded: "read_nat (s @ padded_text k n) = read_nat s * 10 ^ k + n mod 10 ^ k"
proof (induction k arbitrary: n)
  case (Suc k)
  have "read_nat (s @ padded_text (Suc k) n)
      = 10 * read_nat (s @ padded_text k (n div 10)) + n mod 10"
    using read_nat_snoc [of "s @ padded_text k (n div 10)" "digit_char n"] by simp
  also have "\<dots> = read_nat s * 10 ^ Suc k + (10 * (n div 10 mod 10 ^ k) + n mod 10)"
    unfolding Suc.IH by simp
  also have "10 * (n div 10 mod 10 ^ k) + n mod 10 = n mod 10 ^ Suc k"
    by (simp add: mod_mult2_eq)
  finally show ?case .
qed simp

lemma read_nat_zeros: "read_nat (s @ replicate m CHR ''0'') = read_nat s * 10 ^ m"
proof (induction m)
  case (Suc m)
  have "s @ replicate (Suc m) CHR ''0'' = (s @ replicate m CHR ''0'') @ [CHR ''0'']"
    by (simp add: replicate_append_same)
  with Suc show ?case by (simp only: read_nat_snoc) simp
qed simp

end
