(* ===== verification/Iso_Time.thy ===== *)
theory Iso_Time
  imports Digit_Text
begin

text \<open>
  \<open>datetime.isoformat()\<close> of a UTC instant. The engines build the identifiers of swings, zones,
  pools and blocks from this text, so two identifiers are the same only if the text tells the
  instants apart. The calendar is the one of the standard library: day 1 is the first of January of
  year 1, and the year, month and day of a day number are found by dividing by the lengths of the
  400, 100, 4 and 1 year cycles.
\<close>

section \<open>The calendar\<close>

definition days_before_month :: "int \<Rightarrow> int" where
  "days_before_month m = [0, 0, 31, 59, 90, 120, 151, 181, 212, 243, 273, 304, 334] ! nat m"

definition days_in_month :: "int \<Rightarrow> int" where
  "days_in_month m = [0, 31, 28, 31, 30, 31, 30, 31, 31, 30, 31, 30, 31] ! nat m"

text \<open>The month and day of day \<open>n\<close> of a year, counted from 0.\<close>

definition month_day :: "bool \<Rightarrow> int \<Rightarrow> int \<times> int" where
  "month_day leapyear n =
     (let month = (n + 50) div 32;
          preceding = days_before_month month + (if month > 2 \<and> leapyear then 1 else 0)
      in if preceding > n
         then let month = month - 1;
                  preceding = preceding - (days_in_month month + (if month = 2 \<and> leapyear then 1 else 0))
              in (month, n - preceding + 1)
         else (month, n - preceding + 1))"

definition ord2ymd :: "int \<Rightarrow> int \<times> int \<times> int" where
  "ord2ymd ordinal =
     (let n = ordinal - 1; n400 = n div 146097; n = n mod 146097;
          n100 = n div 36524; n = n mod 36524; n4 = n div 1461; n = n mod 1461;
          n1 = n div 365; n = n mod 365;
          year = n400 * 400 + 1 + n100 * 100 + n4 * 4 + n1
      in if n1 = 4 \<or> n100 = 4 then (year - 1, 12, 31)
         else (year, month_day (n1 = 3 \<and> (n4 \<noteq> 24 \<or> n100 = 3)) n))"

text \<open>The day number of a date, the inverse.\<close>

definition leap_year :: "int \<Rightarrow> bool" where
  "leap_year y \<longleftrightarrow> y mod 4 = 0 \<and> (y mod 100 \<noteq> 0 \<or> y mod 400 = 0)"

definition days_before_year :: "int \<Rightarrow> int" where
  "days_before_year year = (let y = year - 1 in y * 365 + y div 4 - y div 100 + y div 400)"

definition ymd2ord :: "int \<times> int \<times> int \<Rightarrow> int" where
  "ymd2ord = (\<lambda>(y, m, d). days_before_year y + days_before_month m
     + (if m > 2 \<and> leap_year y then 1 else 0) + d)"

definition in_month :: "bool \<Rightarrow> int \<Rightarrow> int \<times> int \<Rightarrow> bool" where
  "in_month l n = (\<lambda>(m, d). 1 \<le> m \<and> m \<le> 12 \<and> 1 \<le> d \<and> d \<le> 31
     \<and> days_before_month m + (if m > 2 \<and> l then 1 else 0) + d = n + 1)"

lemma month_day_inverse:
  assumes "0 \<le> n" "n < 365 + (if l then 1 else 0)"
  shows "in_month l n (month_day l n)"
proof -
  define k where "k = (n + 50) div 32"
  have bounds: "32 * k \<le> n + 50" "n + 50 < 32 * k + 32" unfolding k_def by presburger+
  moreover have "n < 366" using assms(2) by (auto split: if_splits)
  ultimately have "1 \<le> k" "k \<le> 12" using assms(1) by linarith+
  then have "k \<in> {1, 2, 3, 4, 5, 6, 7, 8, 9, 10, 11, 12}" by (simp, presburger)
  then show ?thesis
    using assms bounds
    unfolding month_day_def Let_def k_def [symmetric] days_before_month_def days_in_month_def in_month_def
    by (elim insertE emptyE; cases l; simp)
qed

lemma days_before_year_parts:
  assumes "0 \<le> b" "b \<le> 3" "0 \<le> c" "c \<le> 24" "0 \<le> e" "e \<le> 3"
  shows "days_before_year (400 * a + 100 * b + 4 * c + e + 1) = 146097 * a + 36524 * b + 1461 * c + 365 * e"
proof -
  define y where "y = 400 * a + 100 * b + 4 * c + e"
  have "y div 4 = 100 * a + 25 * b + c" "y div 100 = 4 * a + b" "y div 400 = a"
    using assms by (auto simp: y_def intro!: int_div_pos_eq [where r = e]
        int_div_pos_eq [where r = "4 * c + e"] int_div_pos_eq [where r = "100 * b + 4 * c + e"])
  then show ?thesis unfolding y_def [symmetric] by (simp add: days_before_year_def y_def)
qed

lemma leap_year_parts:
  assumes "0 \<le> b" "b \<le> 3" "0 \<le> c" "c \<le> 24" "0 \<le> e" "e \<le> 3"
  shows "leap_year (400 * a + 100 * b + 4 * c + e + 1) \<longleftrightarrow> e = 3 \<and> (c \<noteq> 24 \<or> b = 3)"
proof -
  define y where "y = 400 * a + 100 * b + 4 * c + e + 1"
  consider "e \<le> 2" | "e = 3" "c \<le> 23" | "e = 3" "c = 24" "b \<le> 2" | "e = 3" "c = 24" "b = 3"
    using assms by linarith
  then show ?thesis unfolding y_def [symmetric]
  proof cases
    case 1
    have "y mod 4 = e + 1"
      by (rule int_mod_pos_eq [where q = "100 * a + 25 * b + c"]) (use 1 assms in \<open>simp_all add: y_def\<close>)
    with 1 assms show "leap_year y \<longleftrightarrow> e = 3 \<and> (c \<noteq> 24 \<or> b = 3)" by (simp add: leap_year_def)
  next
    case 2
    have "y mod 4 = 0"
      by (rule int_mod_pos_eq [where q = "100 * a + 25 * b + c + 1"]) (use 2 in \<open>simp_all add: y_def\<close>)
    moreover have "y mod 100 = 4 * c + 4"
      by (rule int_mod_pos_eq [where q = "4 * a + b"]) (use 2 assms in \<open>simp_all add: y_def\<close>)
    ultimately show "leap_year y \<longleftrightarrow> e = 3 \<and> (c \<noteq> 24 \<or> b = 3)"
      using 2 assms by (simp add: leap_year_def)
  next
    case 3
    have "y mod 100 = 0"
      by (rule int_mod_pos_eq [where q = "4 * a + b + 1"]) (use 3 in \<open>simp_all add: y_def\<close>)
    moreover have "y mod 400 = 100 * b + 100"
      by (rule int_mod_pos_eq [where q = a]) (use 3 assms in \<open>simp_all add: y_def\<close>)
    ultimately show "leap_year y \<longleftrightarrow> e = 3 \<and> (c \<noteq> 24 \<or> b = 3)"
      using 3 assms by (simp add: leap_year_def)
  next
    case 4
    have "y mod 400 = 0" "y mod 4 = 0"
      by (rule int_mod_pos_eq [where q = "a + 1"] int_mod_pos_eq [where q = "100 * a + 100"],
          use 4 in \<open>simp_all add: y_def\<close>)+
    with 4 show "leap_year y \<longleftrightarrow> e = 3 \<and> (c \<noteq> 24 \<or> b = 3)" by (simp add: leap_year_def)
  qed
qed

text \<open>The parts of a day number: the cycles it completes and the day of its year.\<close>

lemma ordinal_parts:
  "\<exists>a b c e u. n - 1 = 146097 * a + 36524 * b + 1461 * c + 365 * e + u
     \<and> 0 \<le> b \<and> b \<le> 4 \<and> 0 \<le> c \<and> c \<le> 24 \<and> 0 \<le> e \<and> e \<le> 4 \<and> 0 \<le> u \<and> u < 365
     \<and> (b = 4 \<longrightarrow> c = 0 \<and> e = 0 \<and> u = 0) \<and> (e = 4 \<longrightarrow> u = 0 \<and> c \<noteq> 24)
     \<and> ord2ymd n = (let year = 400 * a + 100 * b + 4 * c + e + 1
         in if e = 4 \<or> b = 4 then (year - 1, 12, 31)
            else (year, month_day (e = 3 \<and> (c \<noteq> 24 \<or> b = 3)) u))"
proof -
  define a where "a = (n - 1) div 146097"
  define r where "r = (n - 1) mod 146097"
  define b where "b = r div 36524"
  define s where "s = r mod 36524"
  define c where "c = s div 1461"
  define t where "t = s mod 1461"
  define e where "e = t div 365"
  define u where "u = t mod 365"
  have n: "n - 1 = 146097 * a + r" "r = 36524 * b + s" "s = 1461 * c + t" "t = 365 * e + u"
    by (simp_all add: a_def r_def b_def s_def c_def t_def e_def u_def)
  have low: "0 \<le> r" "0 \<le> s" "0 \<le> t" "0 \<le> u" and high: "r < 146097" "s < 36524" "t < 1461" "u < 365"
    by (simp_all add: r_def s_def t_def u_def)
  have pos: "0 \<le> b" "0 \<le> c" "0 \<le> e"
    using low by (simp_all add: b_def c_def e_def pos_imp_zdiv_nonneg_iff)
  have top: "b \<le> 4" "c \<le> 24" "e \<le> 4" "b = 4 \<longrightarrow> s = 0" "s = 0 \<longrightarrow> c = 0 \<and> t = 0"
    using n low high pos by linarith+
  have t0: "e = 0 \<and> u = 0" if "t = 0" using that by (simp add: e_def u_def)
  have "u = 0" "c \<noteq> 24" if "e = 4" using that n low high pos by linarith+
  then have e4: "e = 4 \<longrightarrow> u = 0 \<and> c \<noteq> 24" by blast
  have b4: "b = 4 \<longrightarrow> c = 0 \<and> e = 0 \<and> u = 0" using top t0 by blast
  have sum: "n - 1 = 146097 * a + 36524 * b + 1461 * c + 365 * e + u" using n by linarith
  have "ord2ymd n = (let year = 400 * a + 100 * b + 4 * c + e + 1
      in if e = 4 \<or> b = 4 then (year - 1, 12, 31)
         else (year, month_day (e = 3 \<and> (c \<noteq> 24 \<or> b = 3)) u))"
    by (simp add: ord2ymd_def Let_def algebra_simps
        flip: a_def r_def b_def s_def c_def t_def e_def u_def)
  then show ?thesis using sum pos top(1-3) low(4) high(4) b4 e4 by blast
qed

lemma ord2ymd_sound:
  obtains y m d where "ord2ymd n = (y, m, d)" "1 \<le> m" "m \<le> 12" "1 \<le> d" "d \<le> 31"
    "ymd2ord (y, m, d) = n"
proof -
  obtain a b c e u where n: "n - 1 = 146097 * a + 36524 * b + 1461 * c + 365 * e + u"
    and r: "0 \<le> b" "b \<le> 4" "0 \<le> c" "c \<le> 24" "0 \<le> e" "e \<le> 4" "0 \<le> u" "u < 365"
    and b4: "b = 4 \<longrightarrow> c = 0 \<and> e = 0 \<and> u = 0" and e4: "e = 4 \<longrightarrow> u = 0 \<and> c \<noteq> 24"
    and o: "ord2ymd n = (let year = 400 * a + 100 * b + 4 * c + e + 1
      in if e = 4 \<or> b = 4 then (year - 1, 12, 31)
         else (year, month_day (e = 3 \<and> (c \<noteq> 24 \<or> b = 3)) u))"
    using ordinal_parts [of n] by blast
  consider "b = 4" | "b \<le> 3" "e = 4" | "b \<le> 3" "e \<le> 3" using r by linarith
  then show ?thesis
  proof cases
    case 1
    then have "ord2ymd n = (400 * a + 100 * 3 + 4 * 24 + 3 + 1, 12, 31)"
      using o b4 by (simp add: Let_def)
    moreover from this have "ymd2ord (400 * a + 100 * 3 + 4 * 24 + 3 + 1, 12, 31) = n"
      using n b4 1 unfolding ymd2ord_def prod.case
      by (subst days_before_year_parts, simp_all only:)
        (subst leap_year_parts, auto simp: days_before_month_def)
    ultimately show ?thesis by (intro that) simp_all
  next
    case 2
    then have "ord2ymd n = (400 * a + 100 * b + 4 * c + 3 + 1, 12, 31)"
      using o by (simp add: Let_def)
    moreover from this have "ymd2ord (400 * a + 100 * b + 4 * c + 3 + 1, 12, 31) = n"
      using n e4 2 r unfolding ymd2ord_def prod.case
      by (subst days_before_year_parts, simp_all only:)
        (subst leap_year_parts, auto simp: days_before_month_def)
    ultimately show ?thesis by (intro that) simp_all
  next
    case 3
    define l where "l \<longleftrightarrow> e = 3 \<and> (c \<noteq> 24 \<or> b = 3)"
    have "in_month l u (month_day l u)" using r by (intro month_day_inverse) auto
    then obtain m d where md: "month_day (e = 3 \<and> (c \<noteq> 24 \<or> b = 3)) u = (m, d)"
        "1 \<le> m" "m \<le> 12" "1 \<le> d" "d \<le> 31"
        "days_before_month m + (if m > 2 \<and> e = 3 \<and> (c \<noteq> 24 \<or> b = 3) then 1 else 0) + d = u + 1"
      unfolding l_def by (cases "month_day l u") (auto simp: in_month_def l_def)
    have "ymd2ord (400 * a + 100 * b + 4 * c + e + 1, m, d) = n"
      using n md(6) unfolding ymd2ord_def prod.case days_before_year_parts [OF r(1) 3(1) r(3,4,5) 3(2)]
        leap_year_parts [OF r(1) 3(1) r(3,4,5) 3(2)]
      by linarith
    moreover have "ord2ymd n = (400 * a + 100 * b + 4 * c + e + 1, m, d)"
      using o md(1) 3 by (simp add: Let_def)
    ultimately show ?thesis using md by (intro that)
  qed
qed

section \<open>The text of an instant\<close>

text \<open>\<open>'%04d' % year\<close>, the sign before the zeros.\<close>

definition year_text :: "int \<Rightarrow> string" where
  "year_text y =
     (if y < 0 then ''-'' @ zero_fill 3 (nat_text (nat (- y))) else zero_fill 4 (nat_text (nat y)))"

text \<open>Day 719163 of the calendar is the first of January 1970; days are UTC days.\<close>

definition date_text :: "utc_time \<Rightarrow> string" where
  "date_text t =
     (case ord2ymd (t div 86400000000 + 719163) of
        (y, m, d) \<Rightarrow> year_text y @ ''-'' @ padded_text 2 (nat m) @ ''-'' @ padded_text 2 (nat d))"

definition clock_text :: "utc_time \<Rightarrow> string" where
  "clock_text t =
     (let s = t div 1000000 mod 86400
      in padded_text 2 (nat (s div 3600)) @ '':'' @ padded_text 2 (nat (s div 60 mod 60)) @ '':''
         @ padded_text 2 (nat (s mod 60)))"

definition fraction_text :: "utc_time \<Rightarrow> string" where
  "fraction_text t =
     (let f = t mod 1000000 in if f = 0 then [] else ''.'' @ padded_text 6 (nat f))"

definition isoformat :: "utc_time \<Rightarrow> string" where
  "isoformat t = date_text t @ ''T'' @ clock_text t @ fraction_text t @ ''+00:00''"

text \<open>The fields can be read back.\<close>

lemma read_nat_padded [simp]: "read_nat (padded_text k n) = n mod 10 ^ k"
  using read_padded [of "[]" k n] by simp

lemma padded_text_inject:
  "m < 10 ^ k \<Longrightarrow> n < 10 ^ k \<Longrightarrow> padded_text k m = padded_text k n \<longleftrightarrow> m = n"
  by (metis mod_less read_nat_padded)

lemma digit_char_not_T [simp]: "digit_char n \<noteq> CHR ''T''" "CHR ''T'' \<noteq> digit_char n"
  by (simp_all only: char_eq_code of_digit_char) simp_all

lemma T_notin_padded [simp]: "CHR ''T'' \<notin> set (padded_text k n)"
  by (induction k arbitrary: n) auto

lemma T_notin_nat_text [simp]: "CHR ''T'' \<notin> set (nat_text n)"
  by (induction n rule: nat_text.induct) (subst nat_text.simps, simp)

lemma read_nat_zero_fill [simp]: "read_nat (zero_fill w s) = read_nat s"
proof -
  have "read_nat (replicate m CHR ''0'' @ s) = read_nat s" for m
  proof (induction s rule: rev_induct)
    case Nil
    then show ?case using read_nat_zeros [of "[]" m] by simp
  next
    case (snoc x s)
    then show ?case using read_nat_snoc [of "replicate m CHR ''0'' @ s" x] by simp
  qed
  then show ?thesis by (simp add: zero_fill_def)
qed

lemma hd_zero_fill: "hd (zero_fill w (nat_text n)) \<noteq> CHR ''-''"
proof -
  have "CHR ''-'' \<notin> set (zero_fill w (nat_text n))"
    using digits_text_nat_text [of n] by (auto simp: zero_fill_def digits_text_def)
  moreover have "zero_fill w (nat_text n) \<noteq> []" by (simp add: zero_fill_def)
  ultimately show ?thesis by (metis hd_in_set)
qed

lemma year_text_inject: "year_text y = year_text z \<longleftrightarrow> y = z"
proof
  assume eq: "year_text y = year_text z"
  have "y < 0 \<longleftrightarrow> hd (year_text y) = CHR ''-''" for y by (simp add: year_text_def hd_zero_fill)
  then have "y < 0 \<longleftrightarrow> z < 0" using eq by simp
  moreover have "read_nat (zero_fill w (nat_text m)) = m" for w m by simp
  ultimately have "nat \<bar>y\<bar> = nat \<bar>z\<bar>"
    using eq by (cases "y < 0") (auto simp: year_text_def dest: arg_cong [where f = read_nat])
  with \<open>y < 0 \<longleftrightarrow> z < 0\<close> show "y = z" by linarith
qed simp

lemma T_notin_date: "CHR ''T'' \<notin> set (date_text t)"
  by (auto simp: date_text_def year_text_def zero_fill_def split: prod.splits)

lemma date_text_inject: "date_text s = date_text t \<Longrightarrow> s div 86400000000 = t div 86400000000"
proof -
  assume eq: "date_text s = date_text t"
  obtain y m d where s: "ord2ymd (s div 86400000000 + 719163) = (y, m, d)"
      "1 \<le> m" "m \<le> 12" "1 \<le> d" "d \<le> 31" "ymd2ord (y, m, d) = s div 86400000000 + 719163"
    by (rule ord2ymd_sound)
  obtain y' m' d' where t: "ord2ymd (t div 86400000000 + 719163) = (y', m', d')"
      "1 \<le> m'" "m' \<le> 12" "1 \<le> d'" "d' \<le> 31" "ymd2ord (y', m', d') = t div 86400000000 + 719163"
    by (rule ord2ymd_sound)
  have "year_text y = year_text y' \<and> padded_text 2 (nat m) = padded_text 2 (nat m')
      \<and> padded_text 2 (nat d) = padded_text 2 (nat d')"
    using eq by (simp add: date_text_def s(1) t(1) append_eq_append_conv)
  moreover have "nat x < 10 ^ 2" if "x \<le> 31" for x :: int using that by simp
  ultimately have "y = y'" "m = m'" "d = d'"
    using s t by (auto simp: year_text_inject padded_text_inject)
  then show ?thesis using s(6) t(6) by simp
qed

text \<open>The clock of a second of the day, and the fraction of a second.\<close>

lemma div_mod_unique: "a div k = b div k \<Longrightarrow> a mod k = b mod k \<Longrightarrow> a = (b::int)"
  by (metis div_mult_mod_eq)

lemma div_div_60: "z div 60 div 60 = z div (3600::int)"
  using zdiv_zmult2_eq [of 60 z 60] by simp

lemma div_div_day: "z div 1000000 div 86400 = z div (86400000000::int)"
  using zdiv_zmult2_eq [of 86400 z 1000000] by simp

lemma clock_text_inject:
  assumes "clock_text s = clock_text t"
  shows "s div 1000000 mod 86400 = t div 1000000 mod 86400"
proof -
  define x where "x = s div 1000000 mod 86400"
  define y where "y = t div 1000000 mod 86400"
  have r: "0 \<le> x" "x < 86400" "0 \<le> y" "y < 86400" by (simp_all add: x_def y_def)
  have b: "nat (z div 3600) < 10 ^ 2" "nat (z div 60 mod 60) < 10 ^ 2" "nat (z mod 60) < 10 ^ 2"
    if "0 \<le> z" "z < 86400" for z :: int using that by (simp_all add: nat_less_iff)
  have "padded_text 2 (nat (x div 3600)) = padded_text 2 (nat (y div 3600))
      \<and> padded_text 2 (nat (x div 60 mod 60)) = padded_text 2 (nat (y div 60 mod 60))
      \<and> padded_text 2 (nat (x mod 60)) = padded_text 2 (nat (y mod 60))"
    using assms by (simp add: clock_text_def Let_def append_eq_append_conv flip: x_def y_def)
  then have "nat (x div 3600) = nat (y div 3600)" "nat (x div 60 mod 60) = nat (y div 60 mod 60)"
      "nat (x mod 60) = nat (y mod 60)"
    using b r by (simp_all only: padded_text_inject)
  then have "x div 3600 = y div 3600" "x div 60 mod 60 = y div 60 mod 60" "x mod 60 = y mod 60"
    using r by (simp_all only: eq_nat_nat_iff pos_imp_zdiv_nonneg_iff pos_mod_sign zero_less_numeral)
  then have "x div 60 = y div 60" by (intro div_mod_unique [of "x div 60" 60]) (simp_all only: div_div_60)
  then have "x = y" using \<open>x mod 60 = y mod 60\<close> by (rule div_mod_unique)
  then show ?thesis by (simp add: x_def y_def)
qed

lemma fraction_text_inject:
  assumes "fraction_text s = fraction_text t"
  shows "s mod 1000000 = t mod 1000000"
proof -
  have "nat (z mod 1000000) < 10 ^ 6" for z :: int by (simp add: nat_less_iff)
  then show ?thesis
    using assms by (auto simp: fraction_text_def Let_def padded_text_inject split: if_splits)
qed

text \<open>
  Two instants have the same \<open>isoformat\<close> text only if they are the same instant. The identifiers
  the engines build from a kind and a timestamp are therefore as distinct as the timestamps, also when
  more text follows the timestamp.
\<close>

lemma isoformat_append_inject: "isoformat s @ u = isoformat t @ v \<longleftrightarrow> s = t \<and> u = v"
proof
  assume eq: "isoformat s @ u = isoformat t @ v"
  have split: "takeWhile (\<lambda>c. c \<noteq> CHR ''T'') (isoformat t @ w) = date_text t"
      "dropWhile (\<lambda>c. c \<noteq> CHR ''T'') (isoformat t @ w) = ''T'' @ clock_text t @ fraction_text t @ ''+00:00'' @ w"
    for t w using T_notin_date [of t] by (simp_all add: isoformat_def takeWhile_append dropWhile_append)
  have days: "s div 86400000000 = t div 86400000000"
    using eq split(1) by (intro date_text_inject) metis
  have "length (clock_text t) = 8" for t by (simp add: clock_text_def Let_def)
  then have "clock_text s = clock_text t" and rest: "fraction_text s @ ''+00:00'' @ u = fraction_text t @ ''+00:00'' @ v"
    using arg_cong [OF eq, of "dropWhile (\<lambda>c. c \<noteq> CHR ''T'')"]
    by (simp_all add: split append_eq_append_conv)
  then have clock: "s div 1000000 mod 86400 = t div 1000000 mod 86400" using clock_text_inject by blast
  have "fraction_text s = fraction_text t" "u = v"
    using rest by (auto simp: fraction_text_def Let_def append_eq_append_conv split: if_splits)
  then have micros: "s mod 1000000 = t mod 1000000" using fraction_text_inject by blast
  have "s div 1000000 div 86400 = t div 1000000 div 86400" using days by (simp only: div_div_day)
  then have "s div 1000000 = t div 1000000" using clock by (rule div_mod_unique)
  then show "s = t \<and> u = v" using micros \<open>u = v\<close> div_mod_unique by blast
qed simp

lemma isoformat_injective: "isoformat s = isoformat t \<longleftrightarrow> s = t"
  using isoformat_append_inject [of s "[]" t "[]"] by simp

end
