(* ===== verification/Market_Structure.thy ===== *)
theory Market_Structure
  imports Market_Data Iso_Time "HOL-Library.Sublist"
begin

text \<open>
  The market structure engine (\<open>engines/structure/primitives.py\<close>) with its data model
  (\<open>schemas/structure.py\<close>): swing pivots and their confirmation, support and resistance zones, the
  trend, and the structure breaks (BOS, MSS, BREAK). Counts, indices and numbers of ticks are
  naturals: the field constraints of the configuration keep them nonnegative.

  \<^item> \<open>detect_swings\<close> resolves a pivot once its right window is complete.
  \<^item> \<open>build_zones\<close> merges the swings of one side into zones with a binary search over the anchors;
    \<open>zone_match_interval_complete\<close> says that the search finds exactly the anchors in tolerance.
  \<^item> \<open>detect_structure_breaks\<close> keeps a frontier, the last swings of each side and a stack of unbroken
    swings; \<open>break_context\<close> is what it computes them for, the definition by filtering all swings.
\<close>

section \<open>Data model\<close>

datatype swing_kind = HIGH | LOW

datatype swing_tie_policy = STRICT | EARLIEST | LATEST

datatype candidate_resolution = PENDING | CONFIRMED | REJECTED

datatype zone_kind = SUPPORT | RESISTANCE

datatype trend_state = TREND_BULLISH | TREND_BEARISH | TREND_RANGE | INSUFFICIENT_DATA

datatype structure_break_basis = BREAK_CLOSE | BREAK_WICK

datatype structure_event_type = BOS | MSS | BREAK

datatype structure_direction = STRUCTURE_BULLISH | STRUCTURE_BEARISH

datatype structure_display_alias = CHOCH

fun swing_kind_value :: "swing_kind \<Rightarrow> string" where
  "swing_kind_value HIGH = ''HIGH''"
| "swing_kind_value LOW = ''LOW''"

fun zone_kind_value :: "zone_kind \<Rightarrow> string" where
  "zone_kind_value SUPPORT = ''SUPPORT''"
| "zone_kind_value RESISTANCE = ''RESISTANCE''"

record structure_config =
  ms_tick_size :: rat
  ms_left_bars :: nat
  ms_right_bars :: nat
  ms_tie_policy :: swing_tie_policy
  ms_trend_points :: nat
  ms_equality_ticks :: nat
  ms_break_basis :: structure_break_basis
  ms_break_buffer_ticks :: nat
  ms_merge_ticks :: nat
  ms_padding_ticks :: nat

definition structure_config_valid :: "structure_config \<Rightarrow> bool" where
  "structure_config_valid cfg \<longleftrightarrow>
     0 < ms_tick_size cfg \<and> 1 \<le> ms_left_bars cfg \<and> 1 \<le> ms_right_bars cfg \<and> 2 \<le> ms_trend_points cfg"

record swing_candidate =
  sw_candidate_id :: string
  sw_kind :: swing_kind
  sw_pivot_index :: nat
  sw_pivot_timestamp :: utc_time
  sw_price :: price
  sw_candidate_at :: utc_time
  sw_required_right_bars :: nat
  sw_observed_right_bars :: nat
  sw_resolution :: candidate_resolution
  sw_resolved_at :: "utc_time option"

record confirmed_swing =
  cs_swing_id :: string
  cs_source_candidate_id :: string
  cs_kind :: swing_kind
  cs_pivot_index :: nat
  cs_pivot_timestamp :: utc_time
  cs_price :: price
  cs_candidate_at :: utc_time
  cs_confirmed_at :: utc_time
  cs_left_evidence :: "utc_time list"
  cs_right_evidence :: "utc_time list"

record price_zone =
  pz_zone_id :: string
  pz_kind :: zone_kind
  pz_lower_bound :: price
  pz_upper_bound :: price
  pz_anchor_price :: price
  pz_touch_count :: nat
  pz_source_swing_ids :: "string list"
  pz_source_pivot_timestamps :: "utc_time list"
  pz_created_at :: utc_time
  pz_updated_at :: utc_time

definition make_price_zone :: "price_zone \<Rightarrow> price_zone result" where
  "make_price_zone z =
     (if pz_lower_bound z \<le> 0 \<or> pz_upper_bound z \<le> 0 \<or> pz_anchor_price z \<le> 0 \<or> pz_touch_count z < 1
      then Inl (ValidationError ''price zone field'')
      else if pz_lower_bound z > pz_upper_bound z
      then Inl (ValidationError ''zone lower_bound must not exceed upper_bound'')
      else Inr z)"

record structure_event =
  se_type :: structure_event_type
  se_direction :: structure_direction
  se_price :: price
  se_timestamp :: utc_time
  se_broken_structure_id :: string
  se_confirmation_type :: structure_break_basis
  se_confirmed_at :: utc_time
  se_display_alias :: "structure_display_alias option"
  se_trend_before_break :: trend_state

definition make_structure_event :: "structure_event \<Rightarrow> structure_event result" where
  "make_structure_event e =
     (if se_price e \<le> 0 then Inl (ValidationError ''structure event field'')
      else if se_confirmed_at e \<le> se_timestamp e
      then Inl (ValidationError ''confirmed_at must be later than the event candle timestamp'')
      else if se_type e = MSS \<and> se_display_alias e \<noteq> Some CHOCH
      then Inl (ValidationError ''MSS must expose CHoCH as its display alias'')
      else if se_type e \<noteq> MSS \<and> se_display_alias e \<noteq> None
      then Inl (ValidationError ''Only MSS may expose the CHoCH display alias'')
      else Inr e)"

record structure_rejection =
  sr_code :: string
  sr_timestamp :: utc_time
  sr_confirmed_at :: utc_time
  sr_up_structure_id :: string
  sr_down_structure_id :: string

record market_structure =
  mr_timeframe :: timeframe
  mr_config :: structure_config
  mr_candle_count :: nat
  mr_data_cutoff_at :: "utc_time option"
  mr_candidate_swings :: "swing_candidate list"
  mr_confirmed_swings :: "confirmed_swing list"
  mr_support_candidates :: "price_zone list"
  mr_resistance_candidates :: "price_zone list"
  mr_trend_state :: trend_state
  mr_structure_events :: "structure_event list"
  mr_structure_rejections :: "structure_rejection list"

section \<open>Validation of the candles\<close>

text \<open>
  The engines share the shape of this check and differ in the error they raise: every price is a
  multiple of the tick, and each candle starts one interval after the one before.
\<close>

definition check_tick :: "(string \<Rightarrow> py_error) \<Rightarrow> rat \<Rightarrow> string \<times> price \<Rightarrow> unit result" where
  "check_tick err tick = (\<lambda>(field_name, price).
     bind_result (dmod price tick) (\<lambda>r.
       require (r = 0) (err (''candle '' @ field_name @ '' price is not aligned to tick_size''))))"

definition check_candle_ticks :: "(string \<Rightarrow> py_error) \<Rightarrow> rat \<Rightarrow> candle \<Rightarrow> unit result" where
  "check_candle_ticks err tick c =
     check_all (check_tick err tick)
       [(''open'', c_open c), (''high'', c_high c), (''low'', c_low c), (''close'', c_close c)]"

definition check_interval :: "(string \<Rightarrow> py_error) \<Rightarrow> timedelta \<Rightarrow> candle \<times> candle \<Rightarrow> unit result" where
  "check_interval err expected_delta = (\<lambda>(previous, current).
     let actual_delta = c_timestamp current - c_timestamp previous
     in if actual_delta \<le> 0 then Inl (err ''candles must have unique timestamps in ascending order'')
        else require (actual_delta = expected_delta) (err ''candle sequence contains a timeframe gap''))"

definition validate_tick_candles ::
  "(string \<Rightarrow> py_error) \<Rightarrow> candle list \<Rightarrow> timeframe \<Rightarrow> rat \<Rightarrow> unit result" where
  "validate_tick_candles err candles tf tick =
     bind_result (check_all (check_candle_ticks err tick) candles) (\<lambda>_.
       check_all (check_interval err (timeframe_duration tf)) (adjacent candles))"

definition validate_structure_candles :: "candle list \<Rightarrow> timeframe \<Rightarrow> rat \<Rightarrow> unit result" where
  "validate_structure_candles = validate_tick_candles MarketStructureInputError"

section \<open>Swings\<close>

definition left_qualifies :: "swing_kind \<Rightarrow> price \<Rightarrow> price list \<Rightarrow> swing_tie_policy \<Rightarrow> bool" where
  "left_qualifies kind price left_prices tie_policy =
     (if kind = HIGH
      then if tie_policy \<in> {STRICT, EARLIEST} then list_all (\<lambda>other. price > other) left_prices
           else list_all (\<lambda>other. price \<ge> other) left_prices
      else if tie_policy \<in> {STRICT, EARLIEST} then list_all (\<lambda>other. price < other) left_prices
      else list_all (\<lambda>other. price \<le> other) left_prices)"

definition fully_qualifies ::
  "swing_kind \<Rightarrow> price \<Rightarrow> price list \<Rightarrow> price list \<Rightarrow> swing_tie_policy \<Rightarrow> bool" where
  "fully_qualifies kind price left_prices right_prices tie_policy =
     (if kind = HIGH
      then if tie_policy = STRICT
           then list_all (\<lambda>other. price > other) left_prices
              \<and> list_all (\<lambda>other. price > other) right_prices
           else if tie_policy = EARLIEST
           then list_all (\<lambda>other. price > other) left_prices
              \<and> list_all (\<lambda>other. price \<ge> other) right_prices
           else list_all (\<lambda>other. price \<ge> other) left_prices
              \<and> list_all (\<lambda>other. price > other) right_prices
      else if tie_policy = STRICT
           then list_all (\<lambda>other. price < other) left_prices
              \<and> list_all (\<lambda>other. price < other) right_prices
           else if tie_policy = EARLIEST
           then list_all (\<lambda>other. price < other) left_prices
              \<and> list_all (\<lambda>other. price \<le> other) right_prices
           else list_all (\<lambda>other. price \<le> other) left_prices
              \<and> list_all (\<lambda>other. price < other) right_prices)"

definition swing_value :: "swing_kind \<Rightarrow> candle \<Rightarrow> price" where
  "swing_value kind c = (if kind = HIGH then c_high c else c_low c)"

definition swing_id :: "swing_kind \<Rightarrow> utc_time \<Rightarrow> string" where
  "swing_id kind t = swing_kind_value kind @ '':'' @ isoformat t"

definition confirmed_of ::
  "swing_candidate \<Rightarrow> utc_time \<Rightarrow> candle list \<Rightarrow> candle list \<Rightarrow> confirmed_swing" where
  "confirmed_of candidate confirmed_at left right =
     \<lparr>cs_swing_id = sw_candidate_id candidate, cs_source_candidate_id = sw_candidate_id candidate,
      cs_kind = sw_kind candidate, cs_pivot_index = sw_pivot_index candidate,
      cs_pivot_timestamp = sw_pivot_timestamp candidate, cs_price = sw_price candidate,
      cs_candidate_at = sw_candidate_at candidate, cs_confirmed_at = confirmed_at,
      cs_left_evidence = map c_timestamp left, cs_right_evidence = map c_timestamp right\<rparr>"

text \<open>The body of the inner loop: nothing, or a candidate and, if it is confirmed, its swing.\<close>

definition pivot_swing ::
  "candle list \<Rightarrow> timeframe \<Rightarrow> structure_config \<Rightarrow> nat \<Rightarrow> swing_kind
     \<Rightarrow> (swing_candidate \<times> confirmed_swing option) option" where
  "pivot_swing candles tf cfg pivot_index kind =
     (let pivot = candles ! pivot_index;
          left = take (ms_left_bars cfg) (drop (pivot_index - ms_left_bars cfg) candles);
          available_right_count = min (ms_right_bars cfg) (length candles - pivot_index - 1);
          right = take available_right_count (drop (pivot_index + 1) candles);
          price = swing_value kind pivot;
          left_prices = map (swing_value kind) left
      in if \<not> left_qualifies kind price left_prices (ms_tie_policy cfg) then None
         else let has_full_right_window = (available_right_count = ms_right_bars cfg);
                  resolved_at = (if has_full_right_window
                    then Some (c_timestamp (last right) + timeframe_duration tf) else None);
                  resolution = (if has_full_right_window
                    then if fully_qualifies kind price left_prices (map (swing_value kind) right)
                              (ms_tie_policy cfg) then CONFIRMED else REJECTED
                    else PENDING);
                  candidate = \<lparr>sw_candidate_id = swing_id kind (c_timestamp pivot), sw_kind = kind,
                    sw_pivot_index = pivot_index, sw_pivot_timestamp = c_timestamp pivot,
                    sw_price = price, sw_candidate_at = c_timestamp pivot + timeframe_duration tf,
                    sw_required_right_bars = ms_right_bars cfg,
                    sw_observed_right_bars = available_right_count, sw_resolution = resolution,
                    sw_resolved_at = resolved_at\<rparr>
              in Some (candidate,
                if resolution = CONFIRMED then Some (confirmed_of candidate (the resolved_at) left right)
                else None))"

definition pivot_swings ::
  "candle list \<Rightarrow> timeframe \<Rightarrow> structure_config \<Rightarrow> nat
     \<Rightarrow> (swing_candidate \<times> confirmed_swing option) list" where
  "pivot_swings candles tf cfg i = List.map_filter (pivot_swing candles tf cfg i) [HIGH, LOW]"

definition detect_swings ::
  "candle list \<Rightarrow> timeframe \<Rightarrow> structure_config \<Rightarrow> swing_candidate list \<times> confirmed_swing list" where
  "detect_swings candles tf cfg =
     (let found = concat (map (pivot_swings candles tf cfg) [ms_left_bars cfg..<length candles])
      in (map fst found, List.map_filter snd found))"

section \<open>Support and resistance zones\<close>

record zone_accumulator =
  za_zone_id :: string
  za_kind :: zone_kind
  za_anchor_price :: price
  za_minimum :: price
  za_maximum :: price
  za_created_at :: utc_time
  za_updated_at :: utc_time
  za_source_swing_ids :: "string list"
  za_source_pivot_timestamps :: "utc_time list"

text \<open>
  An entry of \<open>anchors\<close> is a price and the position of its zone in \<open>zones\<close>; the zone object itself,
  shared by the two lists, is the element of \<open>zones\<close> at that position.
\<close>

type_synonym anchor = "price \<times> nat"

definition zone_match_interval :: "anchor list \<Rightarrow> price \<Rightarrow> rat \<Rightarrow> nat \<times> nat" where
  "zone_match_interval anchors price tolerance =
     (let left = bisect (\<lambda>mid. let anchor = fst (anchors ! mid)
                in anchor < price \<and> dabs (dsub price anchor) > tolerance) 0 (length anchors);
          right = bisect (\<lambda>mid. let anchor = fst (anchors ! mid)
                in \<not> (anchor > price \<and> dabs (dsub price anchor) > tolerance)) left (length anchors)
      in (left, right))"

definition zone_matches :: "anchor list \<Rightarrow> price \<Rightarrow> rat \<Rightarrow> (rat \<times> nat) list" where
  "zone_matches anchors price tolerance =
     (let (left, right) = zone_match_interval anchors price tolerance
      in map (\<lambda>(anchor, i). (dabs (dsub price anchor), i))
           (filter (\<lambda>(anchor, i). dabs (dsub price anchor) \<le> tolerance)
              (take (right - left) (drop left anchors))))"

definition new_zone :: "zone_kind \<Rightarrow> nat \<Rightarrow> confirmed_swing \<Rightarrow> zone_accumulator" where
  "new_zone kind position swing =
     \<lparr>za_zone_id = zone_kind_value kind @ '':'' @ nat_text position, za_kind = kind,
      za_anchor_price = cs_price swing, za_minimum = cs_price swing, za_maximum = cs_price swing,
      za_created_at = cs_confirmed_at swing, za_updated_at = cs_confirmed_at swing,
      za_source_swing_ids = [cs_swing_id swing],
      za_source_pivot_timestamps = [cs_pivot_timestamp swing]\<rparr>"

definition merge_zone :: "confirmed_swing \<Rightarrow> zone_accumulator \<Rightarrow> zone_accumulator" where
  "merge_zone swing z =
     z\<lparr>za_minimum := min (za_minimum z) (cs_price swing),
       za_maximum := max (za_maximum z) (cs_price swing),
       za_updated_at := cs_confirmed_at swing,
       za_source_swing_ids := za_source_swing_ids z @ [cs_swing_id swing],
       za_source_pivot_timestamps := za_source_pivot_timestamps z @ [cs_pivot_timestamp swing]\<rparr>"

definition insert_anchor :: "anchor \<Rightarrow> anchor list \<Rightarrow> anchor list" where
  "insert_anchor a anchors =
     (let insertion = bisect (\<lambda>mid. \<not> a < anchors ! mid) 0 (length anchors)
      in take insertion anchors @ [a] @ drop insertion anchors)"

definition zone_step ::
  "zone_kind \<Rightarrow> rat \<Rightarrow> confirmed_swing \<Rightarrow> zone_accumulator list \<times> anchor list
     \<Rightarrow> zone_accumulator list \<times> anchor list" where
  "zone_step kind tolerance swing = (\<lambda>(zones, anchors).
     case min_by (\<lambda>m. m) (zone_matches anchors (cs_price swing) tolerance) of
       Some (_, i) \<Rightarrow> (zones[i := merge_zone swing (zones ! i)], anchors)
     | None \<Rightarrow> (zones @ [new_zone kind (length zones) swing],
                insert_anchor (cs_price swing, length zones) anchors))"

definition zone_swing_kind :: "zone_kind \<Rightarrow> swing_kind" where
  "zone_swing_kind kind = (if kind = SUPPORT then LOW else HIGH)"

definition merge_tolerance :: "structure_config \<Rightarrow> rat" where
  "merge_tolerance cfg = dmul (ms_tick_size cfg) (of_nat (ms_merge_ticks cfg))"

definition zone_padding :: "structure_config \<Rightarrow> rat" where
  "zone_padding cfg = dmul (ms_tick_size cfg) (of_nat (ms_padding_ticks cfg))"

definition zone_result :: "rat \<Rightarrow> zone_accumulator \<Rightarrow> price_zone result" where
  "zone_result padding z =
     make_price_zone
       \<lparr>pz_zone_id = za_zone_id z, pz_kind = za_kind z,
        pz_lower_bound = dsub (za_minimum z) padding, pz_upper_bound = dadd (za_maximum z) padding,
        pz_anchor_price = za_anchor_price z, pz_touch_count = length (za_source_swing_ids z),
        pz_source_swing_ids = za_source_swing_ids z,
        pz_source_pivot_timestamps = za_source_pivot_timestamps z,
        pz_created_at = za_created_at z, pz_updated_at = za_updated_at z\<rparr>"

definition accumulate_zones ::
  "confirmed_swing list \<Rightarrow> zone_kind \<Rightarrow> structure_config \<Rightarrow> zone_accumulator list \<times> anchor list" where
  "accumulate_zones swings kind cfg =
     fold (zone_step kind (merge_tolerance cfg))
       (sort_key (\<lambda>s. (cs_confirmed_at s, cs_pivot_index s))
          (filter (\<lambda>s. cs_kind s = zone_swing_kind kind) swings))
       ([], [])"

definition build_zones ::
  "confirmed_swing list \<Rightarrow> zone_kind \<Rightarrow> structure_config \<Rightarrow> price_zone list result" where
  "build_zones swings kind cfg =
     map_result (zone_result (zone_padding cfg)) (fst (accumulate_zones swings kind cfg))"

section \<open>Trend\<close>

definition equality_tolerance :: "structure_config \<Rightarrow> rat" where
  "equality_tolerance cfg = dmul (ms_tick_size cfg) (of_nat (ms_equality_ticks cfg))"

definition rising :: "rat \<Rightarrow> confirmed_swing list \<Rightarrow> bool" where
  "rising tolerance swings =
     list_all (\<lambda>(previous, current). cs_price current > dadd (cs_price previous) tolerance)
       (adjacent swings)"

definition falling :: "rat \<Rightarrow> confirmed_swing list \<Rightarrow> bool" where
  "falling tolerance swings =
     list_all (\<lambda>(previous, current). cs_price current < dsub (cs_price previous) tolerance)
       (adjacent swings)"

definition of_kind :: "swing_kind \<Rightarrow> confirmed_swing list \<Rightarrow> confirmed_swing list" where
  "of_kind kind swings = filter (\<lambda>s. cs_kind s = kind) swings"

definition classify_trend :: "confirmed_swing list \<Rightarrow> structure_config \<Rightarrow> trend_state" where
  "classify_trend swings cfg =
     (let required = ms_trend_points cfg;
          highs = last_n required (of_kind HIGH swings);
          lows = last_n required (of_kind LOW swings)
      in if length highs < required \<or> length lows < required then INSUFFICIENT_DATA
         else let tolerance = equality_tolerance cfg
         in if rising tolerance highs \<and> rising tolerance lows then TREND_BULLISH
            else if falling tolerance highs \<and> falling tolerance lows then TREND_BEARISH
            else TREND_RANGE)"

section \<open>Structure breaks\<close>

definition latest_unbroken_swing ::
  "confirmed_swing list \<Rightarrow> swing_kind \<Rightarrow> utc_time \<Rightarrow> string set \<Rightarrow> confirmed_swing option" where
  "latest_unbroken_swing swings kind available_at broken =
     max_by (\<lambda>s. (cs_confirmed_at s, cs_pivot_index s))
       (filter (\<lambda>s. cs_kind s = kind \<and> cs_confirmed_at s \<le> available_at \<and> cs_swing_id s \<notin> broken)
          swings)"

definition event_type_for :: "structure_direction \<Rightarrow> trend_state \<Rightarrow> structure_event_type" where
  "event_type_for direction trend =
     (if direction = STRUCTURE_BULLISH
      then if trend = TREND_BULLISH then BOS else if trend = TREND_BEARISH then MSS else BREAK
      else if trend = TREND_BEARISH then BOS else if trend = TREND_BULLISH then MSS else BREAK)"

text \<open>What a candle does to the levels: nothing, an ambiguous double break, or one break.\<close>

datatype break_outcome =
  NO_BREAK | AMBIGUOUS structure_rejection | BROKEN structure_event

definition break_buffer :: "structure_config \<Rightarrow> rat" where
  "break_buffer cfg = dmul (ms_tick_size cfg) (of_nat (ms_break_buffer_ticks cfg))"

definition up_value :: "structure_config \<Rightarrow> candle \<Rightarrow> price" where
  "up_value cfg c = (if ms_break_basis cfg = BREAK_CLOSE then c_close c else c_high c)"

definition down_value :: "structure_config \<Rightarrow> candle \<Rightarrow> price" where
  "down_value cfg c = (if ms_break_basis cfg = BREAK_CLOSE then c_close c else c_low c)"

definition structure_break ::
  "structure_config \<Rightarrow> timeframe \<Rightarrow> candle \<Rightarrow> trend_state \<Rightarrow> confirmed_swing option
     \<Rightarrow> confirmed_swing option \<Rightarrow> break_outcome result" where
  "structure_break cfg tf candle trend up_level down_level =
     (let up_break = (case up_level of None \<Rightarrow> False
            | Some s \<Rightarrow> up_value cfg candle > dadd (cs_price s) (break_buffer cfg));
          down_break = (case down_level of None \<Rightarrow> False
            | Some s \<Rightarrow> down_value cfg candle < dsub (cs_price s) (break_buffer cfg));
          confirmed_at = c_timestamp candle + timeframe_duration tf
      in if up_break \<and> down_break
         then Inr (AMBIGUOUS
           \<lparr>sr_code = ''AMBIGUOUS_DUAL_STRUCTURE_BREAK'', sr_timestamp = c_timestamp candle,
            sr_confirmed_at = confirmed_at, sr_up_structure_id = cs_swing_id (the up_level),
            sr_down_structure_id = cs_swing_id (the down_level)\<rparr>)
         else if \<not> up_break \<and> \<not> down_break then Inr NO_BREAK
         else let direction = (if up_break then STRUCTURE_BULLISH else STRUCTURE_BEARISH);
                  broken_level = the (if up_break then up_level else down_level);
                  event_type = event_type_for direction trend
         in bind_result (make_structure_event
           \<lparr>se_type = event_type, se_direction = direction,
            se_price = (if up_break then up_value cfg candle else down_value cfg candle),
            se_timestamp = c_timestamp candle, se_broken_structure_id = cs_swing_id broken_level,
            se_confirmation_type = ms_break_basis cfg, se_confirmed_at = confirmed_at,
            se_display_alias = (if event_type = MSS then Some CHOCH else None),
            se_trend_before_break = trend\<rparr>) (\<lambda>e. Inr (BROKEN e)))"

text \<open>
  The state of the loop over the candles: a map with both kinds as keys is a function of the kind, a
  \<open>deque(maxlen=n)\<close> keeps the last \<open>n\<close>, and the top of a stack is the last element of its list.
\<close>

record break_log =
  bs_events :: "structure_event list"
  bs_rejections :: "structure_rejection list"
  bs_broken :: "string set"

record break_state = break_log +
  bs_frontier :: nat
  bs_trend_tail :: "swing_kind \<Rightarrow> confirmed_swing list"
  bs_unbroken :: "swing_kind \<Rightarrow> confirmed_swing list"
  bs_trend :: "trend_state option"

definition break_start :: break_state where
  "break_start = \<lparr>bs_events = [], bs_rejections = [], bs_broken = {}, bs_frontier = 0,
     bs_trend_tail = (\<lambda>_. []), bs_unbroken = (\<lambda>_. []), bs_trend = None\<rparr>"

definition consume_swing :: "structure_config \<Rightarrow> confirmed_swing \<Rightarrow> break_state \<Rightarrow> break_state" where
  "consume_swing cfg swing st =
     (let k = cs_kind swing
      in st\<lparr>bs_frontier := bs_frontier st + 1,
            bs_trend_tail := (bs_trend_tail st)
              (k := last_n (ms_trend_points cfg) (bs_trend_tail st k @ [swing])),
            bs_unbroken := (bs_unbroken st)(k := bs_unbroken st k @ [swing])\<rparr>)"

definition advance_frontier ::
  "structure_config \<Rightarrow> confirmed_swing list \<Rightarrow> utc_time \<Rightarrow> break_state \<Rightarrow> break_state" where
  "advance_frontier cfg swings t st =
     fold (consume_swing cfg)
       (takeWhile (\<lambda>s. cs_confirmed_at s \<le> t) (drop (bs_frontier st) swings)) st"

definition refresh_trend :: "structure_config \<Rightarrow> nat \<Rightarrow> break_state \<Rightarrow> break_state" where
  "refresh_trend cfg previous_frontier st =
     (if bs_trend st = None \<or> previous_frontier \<noteq> bs_frontier st
      then st\<lparr>bs_trend := Some (classify_trend (bs_trend_tail st HIGH @ bs_trend_tail st LOW) cfg)\<rparr>
      else st)"

definition pop_broken :: "string set \<Rightarrow> confirmed_swing list \<Rightarrow> confirmed_swing list" where
  "pop_broken broken values = rev (dropWhile (\<lambda>s. cs_swing_id s \<in> broken) (rev values))"

definition stack_top :: "'a list \<Rightarrow> 'a option" where
  "stack_top values = (if values = [] then None else Some (last values))"

definition record_outcome :: "break_outcome \<Rightarrow> 'a break_log_scheme \<Rightarrow> 'a break_log_scheme" where
  "record_outcome outcome st =
     (case outcome of
        NO_BREAK \<Rightarrow> st
      | AMBIGUOUS r \<Rightarrow> st\<lparr>bs_rejections := bs_rejections st @ [r]\<rparr>
      | BROKEN e \<Rightarrow> st\<lparr>bs_events := bs_events st @ [e],
                      bs_broken := insert (se_broken_structure_id e) (bs_broken st)\<rparr>)"

definition break_step ::
  "structure_config \<Rightarrow> timeframe \<Rightarrow> confirmed_swing list \<Rightarrow> candle \<Rightarrow> break_state \<Rightarrow> break_state result" where
  "break_step cfg tf swings candle st =
     (let st = refresh_trend cfg (bs_frontier st) (advance_frontier cfg swings (c_timestamp candle) st);
          st = st\<lparr>bs_unbroken := (\<lambda>k. pop_broken (bs_broken st) (bs_unbroken st k))\<rparr>
      in bind_result
           (structure_break cfg tf candle (the (bs_trend st)) (stack_top (bs_unbroken st HIGH))
              (stack_top (bs_unbroken st LOW)))
           (\<lambda>outcome. Inr (record_outcome outcome st)))"

definition detect_structure_breaks ::
  "candle list \<Rightarrow> confirmed_swing list \<Rightarrow> timeframe \<Rightarrow> structure_config
     \<Rightarrow> (structure_event list \<times> structure_rejection list) result" where
  "detect_structure_breaks candles swings tf cfg =
     bind_result (for_each (break_step cfg tf swings) candles break_start)
       (\<lambda>st. Inr (bs_events st, bs_rejections st))"

section \<open>The engine\<close>

definition analyze_market_structure ::
  "candle list \<Rightarrow> timeframe \<Rightarrow> structure_config \<Rightarrow> market_structure result" where
  "analyze_market_structure candles tf cfg =
     bind_result (validate_structure_candles candles tf (ms_tick_size cfg)) (\<lambda>_.
       case detect_swings candles tf cfg of
         (candidates, confirmed) \<Rightarrow>
           bind_result (detect_structure_breaks candles confirmed tf cfg) (\<lambda>(events, rejections).
             bind_result (build_zones confirmed SUPPORT cfg) (\<lambda>support.
               bind_result (build_zones confirmed RESISTANCE cfg) (\<lambda>resistance.
                 Inr \<lparr>mr_timeframe = tf, mr_config = cfg, mr_candle_count = length candles,
                      mr_data_cutoff_at = data_cutoff candles tf, mr_candidate_swings = candidates,
                      mr_confirmed_swings = confirmed, mr_support_candidates = support,
                      mr_resistance_candidates = resistance,
                      mr_trend_state = classify_trend confirmed cfg, mr_structure_events = events,
                      mr_structure_rejections = rejections\<rparr>))))"

section \<open>Properties of the zone search\<close>

text \<open>The anchors are kept in ascending order, and the search sees each of them.\<close>

lemma near_anchor_mono:
  assumes "dabs (dsub price a) > tol" "a < price" "b \<le> a"
  shows "dabs (dsub price b) > tol \<and> b < price"
proof -
  have "dsub price a \<le> dsub price b" unfolding dsub_def using assms(3) by (intro rnd_mono) simp
  moreover have "0 < dsub price a" using assms(2) by simp
  ultimately show ?thesis using assms unfolding dabs_dsub by linarith
qed

lemma far_anchor_mono:
  assumes "dabs (dsub price a) > tol" "a > price" "a \<le> b"
  shows "dabs (dsub price b) > tol \<and> b > price"
proof -
  have "dsub price b \<le> dsub price a" unfolding dsub_def using assms(3) by (intro rnd_mono) simp
  moreover have "dsub price a < 0" using assms(2) by simp
  ultimately show ?thesis using assms unfolding dabs_dsub by linarith
qed

lemma filter_slice:
  assumes "l \<le> r" "\<And>i. i < l \<Longrightarrow> i < length xs \<Longrightarrow> \<not> p (xs ! i)"
    "\<And>i. r \<le> i \<Longrightarrow> i < length xs \<Longrightarrow> \<not> p (xs ! i)"
  shows "filter p (take (r - l) (drop l xs)) = filter p xs"
proof -
  have "filter p (take l xs) = []" using assms(2) by (auto simp: filter_empty_conv in_set_conv_nth)
  moreover have "filter p (drop r xs) = []"
    using assms(3) by (fastforce simp: filter_empty_conv in_set_conv_nth)
  moreover have "xs = take l xs @ take (r - l) (drop l xs) @ drop r xs"
    using assms(1) by (metis append_take_drop_id le_add_diff_inverse2 drop_drop)
  ultimately show ?thesis by (metis append_Nil append_Nil2 filter_append)
qed

lemma zone_matches_all:
  assumes "sorted (map fst anchors)"
  shows "zone_matches anchors price tol =
    map (\<lambda>(anchor, i). (dabs (dsub price anchor), i))
      (filter (\<lambda>(anchor, i). dabs (dsub price anchor) \<le> tol) anchors)"
proof -
  let ?n = "length anchors"
  let ?near = "\<lambda>mid. fst (anchors ! mid) < price \<and> dabs (dsub price (fst (anchors ! mid))) > tol"
  let ?far = "\<lambda>mid. \<not> (fst (anchors ! mid) > price \<and> dabs (dsub price (fst (anchors ! mid))) > tol)"
  define l where "l = bisect ?near 0 ?n"
  define r where "r = bisect ?far l ?n"
  have mono: "fst (anchors ! i) \<le> fst (anchors ! j)" if "i \<le> j" "j < ?n" for i j
    using sorted_nth_mono [OF assms that(1)] that by simp
  have l: "0 \<le> l \<and> l \<le> ?n \<and> (\<forall>i. 0 \<le> i \<longrightarrow> i < ?n \<longrightarrow> ?near i \<longleftrightarrow> i < l)"
    unfolding l_def by (rule bisect_prefix) (use mono near_anchor_mono in blast)+
  have r: "l \<le> r \<and> r \<le> ?n \<and> (\<forall>i. l \<le> i \<longrightarrow> i < ?n \<longrightarrow> ?far i \<longleftrightarrow> i < r)"
    unfolding r_def by (rule bisect_prefix) (use l mono far_anchor_mono in blast)+
  have "filter (\<lambda>(a, i). dabs (dsub price a) \<le> tol) (take (r - l) (drop l anchors))
      = filter (\<lambda>(a, i). dabs (dsub price a) \<le> tol) anchors"
  proof (rule filter_slice)
    fix i assume i: "i < l" "i < ?n"
    then have "?near i" using l by blast
    then show "\<not> (\<lambda>(a, i). dabs (dsub price a) \<le> tol) (anchors ! i)" by (simp add: split_beta)
  next
    fix i assume i: "r \<le> i" "i < ?n"
    then have "l \<le> i" "\<not> i < r" using r by simp_all
    then have "\<not> ?far i" using r i(2) by blast
    then show "\<not> (\<lambda>(a, i). dabs (dsub price a) \<le> tol) (anchors ! i)" by (simp add: split_beta)
  qed (use r in simp)
  then show ?thesis by (simp add: zone_matches_def zone_match_interval_def l_def r_def Let_def)
qed

lemma insert_anchor_sorted:
  assumes "sorted anchors"
  shows "sorted (insert_anchor a anchors) \<and> set (insert_anchor a anchors) = insert a (set anchors)
    \<and> length (insert_anchor a anchors) = Suc (length anchors)"
proof -
  let ?n = "length anchors"
  define k where "k = bisect (\<lambda>mid. \<not> a < anchors ! mid) 0 ?n"
  have k: "0 \<le> k \<and> k \<le> ?n \<and> (\<forall>i. 0 \<le> i \<longrightarrow> i < ?n \<longrightarrow> \<not> a < anchors ! i \<longleftrightarrow> i < k)"
    unfolding k_def
  proof (rule bisect_prefix)
    fix i j assume "i \<le> j" "j < ?n" "\<not> a < anchors ! j"
    then show "\<not> a < anchors ! i" using sorted_nth_mono [OF assms, of i j] by simp
  qed simp
  have "x \<le> a" if "x \<in> set (take k anchors)" for x
  proof -
    from that obtain i where "i < k" "i < ?n" "x = anchors ! i" by (auto simp: in_set_conv_nth)
    with k show ?thesis by (simp add: not_less)
  qed
  moreover have "a \<le> x" if "x \<in> set (drop k anchors)" for x
  proof -
    from that obtain j where "j < ?n - k" "x = drop k anchors ! j" by (auto simp: in_set_conv_nth)
    with k have "k + j < ?n" "x = anchors ! (k + j)" by (auto simp: nth_drop)
    then have "\<not> a < x \<longleftrightarrow> k + j < k" using k by simp
    then show ?thesis by simp
  qed
  moreover have "sorted (take k anchors @ drop k anchors)" using assms by simp
  ultimately have "sorted (take k anchors @ a # drop k anchors)"
    unfolding sorted_append by auto
  moreover have "set (take k anchors) \<union> set (drop k anchors) = set anchors"
    by (metis append_take_drop_id set_append)
  ultimately show ?thesis using k by (simp add: insert_anchor_def Let_def flip: k_def)
qed

text \<open>The selection without the index: the nearest zone in tolerance, by a scan over all zones.\<close>

definition nearest_zone :: "zone_accumulator list \<Rightarrow> price \<Rightarrow> rat \<Rightarrow> (rat \<times> nat) option" where
  "nearest_zone zones price tolerance =
     min_by (\<lambda>m. m)
       (map (\<lambda>(i, z). (dabs (dsub price (za_anchor_price z)), i))
         (filter (\<lambda>(i, z). dabs (dsub price (za_anchor_price z)) \<le> tolerance) (enumerate 0 zones)))"

definition scan_step ::
  "zone_kind \<Rightarrow> rat \<Rightarrow> confirmed_swing \<Rightarrow> zone_accumulator list \<Rightarrow> zone_accumulator list" where
  "scan_step kind tolerance swing zones =
     (case nearest_zone zones (cs_price swing) tolerance of
        Some (_, i) \<Rightarrow> zones[i := merge_zone swing (zones ! i)]
      | None \<Rightarrow> zones @ [new_zone kind (length zones) swing])"

definition anchors_of :: "zone_accumulator list \<Rightarrow> anchor set" where
  "anchors_of zones = (\<lambda>i. (za_anchor_price (zones ! i), i)) ` {..<length zones}"

lemma min_by_set_eq:
  assumes "set xs = set ys"
  shows "min_by (\<lambda>m. m) xs = min_by (\<lambda>m::'a::linorder. m) ys"
proof (cases "min_by (\<lambda>m. m) xs")
  case None
  with assms show ?thesis by simp
next
  case (Some a)
  then have "ys \<noteq> []" using assms by auto
  then obtain b where b: "min_by (\<lambda>m. m) ys = Some b" by (cases "min_by (\<lambda>m. m) ys") auto
  have "b \<in> set xs" "a \<in> set ys" using min_by_mem [OF Some] min_by_mem [OF b] assms by simp_all
  then have "a = b" by (intro order_antisym min_by_least [OF Some] min_by_least [OF b])
  with Some b show ?thesis by simp
qed

lemma anchors_of_merge:
  "i < length zones \<Longrightarrow> anchors_of (zones[i := merge_zone swing (zones ! i)]) = anchors_of zones"
  unfolding anchors_of_def by (rule image_cong) (auto simp: nth_list_update merge_zone_def)

lemma anchors_of_new:
  "anchors_of (zones @ [new_zone kind n swing]) = insert (cs_price swing, length zones) (anchors_of zones)"
proof -
  have "(\<lambda>i. (za_anchor_price ((zones @ [z]) ! i), i)) ` {..<length zones} = anchors_of zones" for z
    unfolding anchors_of_def by (rule image_cong) (auto simp: nth_append)
  then show ?thesis by (simp add: anchors_of_def lessThan_Suc new_zone_def)
qed

lemma zone_matches_nearest:
  assumes "sorted anchors" "set anchors = anchors_of zones"
  shows "min_by (\<lambda>m. m) (zone_matches anchors price tol) = nearest_zone zones price tol"
proof -
  have sorted: "sorted (map fst anchors)"
    using assms(1) by (induction anchors) (auto simp: less_eq_prod_def)
  have "set (zone_matches anchors price tol)
      = {(dabs (dsub price a), i) | a i. (a, i) \<in> anchors_of zones \<and> dabs (dsub price a) \<le> tol}"
    unfolding zone_matches_all [OF sorted] assms(2) [symmetric] by (auto simp: image_iff)
  also have "\<dots> = set (map (\<lambda>(i, z). (dabs (dsub price (za_anchor_price z)), i))
      (filter (\<lambda>(i, z). dabs (dsub price (za_anchor_price z)) \<le> tol) (enumerate 0 zones)))"
    unfolding anchors_of_def by (auto simp: image_iff in_set_enumerate_eq)
  finally show ?thesis unfolding nearest_zone_def by (rule min_by_set_eq)
qed

lemma nearest_zone_Some: "nearest_zone zones price tol = Some (d, i) \<Longrightarrow> i < length zones"
  by (auto simp: nearest_zone_def in_set_enumerate_eq dest!: min_by_mem)

lemma zone_step_scan:
  assumes "sorted anchors" "set anchors = anchors_of zones"
    and "zone_step kind tol swing (zones, anchors) = (zones', anchors')"
  shows "zones' = scan_step kind tol swing zones \<and> sorted anchors' \<and> set anchors' = anchors_of zones'"
proof (cases "nearest_zone zones (cs_price swing) tol")
  case None
  then show ?thesis
    using assms(3) insert_anchor_sorted [OF assms(1), of "(cs_price swing, length zones)"]
    by (auto simp: zone_step_def scan_step_def zone_matches_nearest [OF assms(1,2)] assms(2) anchors_of_new)
next
  case (Some m)
  then obtain d i where m: "m = (d, i)" "i < length zones" by (cases m) (auto dest: nearest_zone_Some)
  then have "zones' = zones[i := merge_zone swing (zones ! i)]" "anchors' = anchors"
    using assms(3) Some by (simp_all add: zone_step_def zone_matches_nearest [OF assms(1,2)])
  then show ?thesis using m Some assms(1,2) by (simp add: scan_step_def anchors_of_merge)
qed

lemma accumulate_scan:
  assumes "sorted anchors" "set anchors = anchors_of zones"
  shows "fst (fold (zone_step kind tol) swings (zones, anchors)) = fold (scan_step kind tol) swings zones"
  using assms
proof (induction swings arbitrary: zones anchors)
  case (Cons s swings)
  obtain zones' anchors' where step: "zone_step kind tol s (zones, anchors) = (zones', anchors')"
    by fastforce
  show ?case
    using Cons.IH [of anchors' zones'] zone_step_scan [OF Cons.prems step] step by simp
qed simp

section \<open>Structure breaks without the bookkeeping\<close>

text \<open>
  The trend and the two levels a candle is compared with, straight from the swings confirmed when it
  opens; the reference loop recomputes them for every candle.
\<close>

definition break_context ::
  "structure_config \<Rightarrow> confirmed_swing list \<Rightarrow> string set \<Rightarrow> utc_time
     \<Rightarrow> trend_state \<times> confirmed_swing option \<times> confirmed_swing option" where
  "break_context cfg swings broken t =
     (let eligible = filter (\<lambda>s. cs_confirmed_at s \<le> t) swings
      in (classify_trend eligible cfg, latest_unbroken_swing eligible HIGH t broken,
          latest_unbroken_swing eligible LOW t broken))"

definition append_structure_event ::
  "structure_config \<Rightarrow> timeframe \<Rightarrow> candle
     \<Rightarrow> trend_state \<times> confirmed_swing option \<times> confirmed_swing option
     \<Rightarrow> 'a break_log_scheme \<Rightarrow> 'a break_log_scheme result" where
  "append_structure_event cfg tf candle = (\<lambda>(trend, up, down) st.
     bind_result (structure_break cfg tf candle trend up down)
       (\<lambda>outcome. Inr (record_outcome outcome st)))"

definition reference_step ::
  "structure_config \<Rightarrow> timeframe \<Rightarrow> confirmed_swing list \<Rightarrow> candle \<Rightarrow> break_log \<Rightarrow> break_log result" where
  "reference_step cfg tf swings candle st =
     append_structure_event cfg tf candle
       (break_context cfg swings (bs_broken st) (c_timestamp candle)) st"

definition reference_breaks ::
  "candle list \<Rightarrow> confirmed_swing list \<Rightarrow> timeframe \<Rightarrow> structure_config \<Rightarrow> break_log result" where
  "reference_breaks candles swings tf cfg =
     for_each (reference_step cfg tf swings) candles
       \<lparr>bs_events = [], bs_rejections = [], bs_broken = {}\<rparr>"

text \<open>What \<open>detect_swings\<close> promises about the order of its swings.\<close>

definition swing_key :: "confirmed_swing \<Rightarrow> utc_time \<times> nat" where
  "swing_key s = (cs_confirmed_at s, cs_pivot_index s)"

definition swings_ordered :: "confirmed_swing list \<Rightarrow> bool" where
  "swings_ordered swings \<longleftrightarrow>
     sorted (map cs_confirmed_at swings) \<and> inj_on cs_swing_id (set swings)
     \<and> (\<forall>k. sorted_wrt (\<lambda>a b. swing_key a < swing_key b) (of_kind k swings))"

lemma of_kind_simps [simp]:
  "of_kind k [] = []"
  "of_kind k (xs @ ys) = of_kind k xs @ of_kind k ys"
  "of_kind k (s # xs) = (if cs_kind s = k then s # of_kind k xs else of_kind k xs)"
  by (simp_all add: of_kind_def)

lemma of_kind_filter: "of_kind k (filter p xs) = filter p (of_kind k xs)"
  by (simp add: of_kind_def conj_commute)

lemma of_kind_id: "\<forall>s\<in>set xs. cs_kind s = k \<Longrightarrow> of_kind k xs = xs"
  by (simp add: of_kind_def)

lemma of_kind_other: "\<forall>s\<in>set xs. cs_kind s \<noteq> k \<Longrightarrow> of_kind k xs = []"
  by (simp add: of_kind_def)

lemma set_last_n: "set (last_n n xs) \<subseteq> set xs"
  by (auto simp: last_n_def dest: in_set_dropD)

lemma kind_of_kind: "s \<in> set (of_kind k xs) \<Longrightarrow> cs_kind s = k"
  by (simp add: of_kind_def)

text \<open>The trend depends on the last swings of each kind only.\<close>

lemma kind_tail: "\<forall>s\<in>set (last_n n (of_kind k xs)). cs_kind s = k"
  by (auto simp: last_n_def of_kind_def dest: in_set_dropD)

lemma of_kind_tails:
  "of_kind HIGH (last_n n (of_kind HIGH xs) @ last_n n (of_kind LOW xs)) = last_n n (of_kind HIGH xs)"
  "of_kind LOW (last_n n (of_kind HIGH xs) @ last_n n (of_kind LOW xs)) = last_n n (of_kind LOW xs)"
proof -
  have same: "of_kind k (last_n n (of_kind k xs)) = last_n n (of_kind k xs)" for k
    by (rule of_kind_id [OF kind_tail])
  have other: "of_kind j (last_n n (of_kind k xs)) = []" if "k \<noteq> j" for j k
    by (rule of_kind_other) (use kind_tail [of n k xs] that in metis)
  show "of_kind HIGH (last_n n (of_kind HIGH xs) @ last_n n (of_kind LOW xs)) = last_n n (of_kind HIGH xs)"
    by (simp only: of_kind_simps(2) same other [of LOW HIGH] swing_kind.distinct append_Nil2 not_False_eq_True)
  show "of_kind LOW (last_n n (of_kind HIGH xs) @ last_n n (of_kind LOW xs)) = last_n n (of_kind LOW xs)"
    by (simp only: of_kind_simps(2) same other [of HIGH LOW] swing_kind.distinct append_Nil not_False_eq_True)
qed

lemma classify_tails:
  "classify_trend (last_n (ms_trend_points cfg) (of_kind HIGH xs) @ last_n (ms_trend_points cfg) (of_kind LOW xs)) cfg
     = classify_trend xs cfg"
  unfolding classify_trend_def Let_def of_kind_tails last_n_idem by (rule refl)

text \<open>The top of the popped stack is the latest swing that is not broken.\<close>

lemma pop_broken_simps [simp]:
  "pop_broken broken [] = []"
  "pop_broken broken (xs @ [s]) = (if cs_swing_id s \<in> broken then pop_broken broken xs else xs @ [s])"
  by (simp_all add: pop_broken_def)

lemma stack_top_simps [simp]: "stack_top [] = None" "stack_top (xs @ [x]) = Some x"
  by (simp_all add: stack_top_def)

lemma last_filter_pop:
  "stack_top (pop_broken broken xs) = stack_top (filter (\<lambda>s. cs_swing_id s \<notin> broken) xs)"
  by (induction xs rule: rev_induct) simp_all

lemma filter_pop_broken:
  "filter (\<lambda>s. cs_swing_id s \<notin> broken) (pop_broken broken xs) = filter (\<lambda>s. cs_swing_id s \<notin> broken) xs"
  by (induction xs rule: rev_induct) simp_all

lemma latest_unbroken_is_top:
  assumes "sorted_wrt (\<lambda>a b. swing_key a < swing_key b) (of_kind k xs)" "\<forall>s\<in>set xs. cs_confirmed_at s \<le> t"
  shows "latest_unbroken_swing xs k t broken
    = stack_top (filter (\<lambda>s. cs_swing_id s \<notin> broken) (of_kind k xs))"
proof -
  let ?e = "filter (\<lambda>s. cs_swing_id s \<notin> broken) (of_kind k xs)"
  have "filter (\<lambda>s. cs_kind s = k \<and> cs_confirmed_at s \<le> t \<and> cs_swing_id s \<notin> broken) xs = ?e"
    using assms(2) by (auto simp: of_kind_def intro!: filter_cong)
  moreover have "max_by swing_key ?e = stack_top ?e"
  proof (cases "?e = []")
    case False
    have "sorted_wrt (\<lambda>a b. swing_key a < swing_key b) ?e" using assms(1) by (rule sorted_wrt_filter)
    then have "max_by swing_key ?e = Some (last ?e)" using False by (rule max_by_ascending)
    with False show ?thesis by (simp only: stack_top_def if_False)
  qed (simp add: stack_top_def)
  ultimately show ?thesis by (simp add: latest_unbroken_swing_def swing_key_def [abs_def])
qed

text \<open>The bookkeeping of the loop, for the swings consumed so far.\<close>

definition tracks :: "structure_config \<Rightarrow> confirmed_swing list \<Rightarrow> break_state \<Rightarrow> bool" where
  "tracks cfg consumed st \<longleftrightarrow>
     bs_frontier st = length consumed
     \<and> (\<forall>k. bs_trend_tail st k = last_n (ms_trend_points cfg) (of_kind k consumed))
     \<and> (\<forall>k. filter (\<lambda>s. cs_swing_id s \<notin> bs_broken st) (bs_unbroken st k)
            = filter (\<lambda>s. cs_swing_id s \<notin> bs_broken st) (of_kind k consumed))"

definition trend_known :: "structure_config \<Rightarrow> confirmed_swing list \<Rightarrow> break_state \<Rightarrow> bool" where
  "trend_known cfg consumed st \<longleftrightarrow> bs_trend st = Some (classify_trend consumed cfg)"

lemma tracks_start: "tracks cfg [] break_start"
  by (simp add: tracks_def break_start_def)

lemma tracks_consume:
  assumes "tracks cfg consumed st" "0 < ms_trend_points cfg"
  shows "tracks cfg (consumed @ xs) (fold (consume_swing cfg) xs st)
    \<and> break_log.truncate (fold (consume_swing cfg) xs st) = break_log.truncate st
    \<and> bs_trend (fold (consume_swing cfg) xs st) = bs_trend st"
  using assms(1)
proof (induction xs arbitrary: consumed st)
  case (Cons s xs)
  then have "tracks cfg (consumed @ [s]) (consume_swing cfg s st)"
    using assms(2) by (auto simp: tracks_def consume_swing_def Let_def last_n_snoc)
  moreover have "break_log.truncate (consume_swing cfg s st) = break_log.truncate st"
      "bs_trend (consume_swing cfg s st) = bs_trend st"
    by (simp_all add: break_log.truncate_def consume_swing_def Let_def)
  ultimately show ?case using Cons.IH [of "consumed @ [s]" "consume_swing cfg s st"] by simp
qed simp

lemma frontier_split:
  assumes "sorted (map cs_confirmed_at swings)" "consumed = take n swings" "n \<le> length swings"
    "\<forall>s\<in>set consumed. cs_confirmed_at s \<le> t"
  shows "consumed @ takeWhile (\<lambda>s. cs_confirmed_at s \<le> t) (drop n swings)
    = filter (\<lambda>s. cs_confirmed_at s \<le> t) swings"
proof -
  have "takeWhile (\<lambda>s. cs_confirmed_at s \<le> t) xs = filter (\<lambda>s. cs_confirmed_at s \<le> t) xs"
    if "sorted (map cs_confirmed_at xs)" for xs
    using that by (induction xs) (force simp: filter_empty_conv eq_commute [of "[]"])+
  moreover have "sorted (map cs_confirmed_at (drop n swings))"
    using assms(1) by (simp add: sorted_wrt_drop flip: drop_map)
  moreover have "filter (\<lambda>s. cs_confirmed_at s \<le> t) consumed = consumed" using assms(4) by simp
  ultimately show ?thesis by (metis assms(2) append_take_drop_id filter_append)
qed

lemma filter_notin_insert:
  assumes "filter (\<lambda>s. f s \<notin> B) xs = filter (\<lambda>s. f s \<notin> B) ys"
  shows "filter (\<lambda>s. f s \<notin> insert x B) xs = filter (\<lambda>s. f s \<notin> insert x B) ys"
proof -
  have "filter (\<lambda>s. f s \<notin> insert x B) zs = filter (\<lambda>s. f s \<noteq> x) (filter (\<lambda>s. f s \<notin> B) zs)" for zs
    by (simp add: conj_commute)
  with assms show ?thesis by (simp only:)
qed

lemma tracks_record:
  assumes "tracks cfg consumed st" "trend_known cfg consumed st"
  shows "tracks cfg consumed (record_outcome out st) \<and> trend_known cfg consumed (record_outcome out st)
    \<and> break_log.truncate (record_outcome out st) = record_outcome out (break_log.truncate st)"
proof (cases out)
  case (BROKEN e)
  have "filter (\<lambda>s. cs_swing_id s \<notin> insert (se_broken_structure_id e) (bs_broken st)) (bs_unbroken st k)
      = filter (\<lambda>s. cs_swing_id s \<notin> insert (se_broken_structure_id e) (bs_broken st)) (of_kind k consumed)" for k
    by (rule filter_notin_insert) (use assms(1) in \<open>simp add: tracks_def\<close>)
  with assms BROKEN show ?thesis
    by (simp add: tracks_def trend_known_def record_outcome_def break_log.truncate_def)
qed (use assms in \<open>simp_all add: tracks_def trend_known_def record_outcome_def break_log.truncate_def\<close>)

lemma tracks_refresh:
  assumes "tracks cfg e st" "bs_trend st = None \<or> trend_known cfg consumed st"
    "previous = bs_frontier st \<Longrightarrow> e = consumed"
  shows "tracks cfg e (refresh_trend cfg previous st) \<and> trend_known cfg e (refresh_trend cfg previous st)
    \<and> break_log.truncate (refresh_trend cfg previous st) = break_log.truncate st"
proof (cases "bs_trend st = None \<or> previous \<noteq> bs_frontier st")
  case True
  have "classify_trend (bs_trend_tail st HIGH @ bs_trend_tail st LOW) cfg = classify_trend e cfg"
    using assms(1) classify_tails [of cfg e] by (simp add: tracks_def)
  with True assms(1) show ?thesis
    by (simp add: refresh_trend_def tracks_def trend_known_def break_log.truncate_def)
next
  case False
  then have "e = consumed" "trend_known cfg consumed st" using assms(2,3) by auto
  moreover have "refresh_trend cfg previous st = st" unfolding refresh_trend_def using False by (rule if_not_P)
  ultimately show ?thesis using assms(1) by simp
qed

lemma tracks_pop:
  "tracks cfg e st \<Longrightarrow> tracks cfg e (st\<lparr>bs_unbroken := (\<lambda>k. pop_broken (bs_broken st) (bs_unbroken st k))\<rparr>)"
  by (simp add: tracks_def filter_pop_broken)

text \<open>One candle: the bookkeeping yields the context of the reference, and stays in step with it.\<close>

lemma break_step_reference:
  assumes tracks: "tracks cfg consumed st" and trend: "bs_trend st = None \<or> trend_known cfg consumed st"
    and consumed: "consumed = take (length consumed) swings" "length consumed \<le> length swings"
    and past: "\<forall>s\<in>set consumed. cs_confirmed_at s \<le> c_timestamp candle"
    and ordered: "swings_ordered swings" and points: "0 < ms_trend_points cfg"
  shows "on_result break_log.truncate (break_step cfg tf swings candle st)
      = reference_step cfg tf swings candle (break_log.truncate st)
    \<and> (\<forall>st'. break_step cfg tf swings candle st = Inr st' \<longrightarrow>
        tracks cfg (filter (\<lambda>s. cs_confirmed_at s \<le> c_timestamp candle) swings) st'
        \<and> trend_known cfg (filter (\<lambda>s. cs_confirmed_at s \<le> c_timestamp candle) swings) st')"
proof -
  let ?t = "c_timestamp candle"
  let ?e = "filter (\<lambda>s. cs_confirmed_at s \<le> ?t) swings"
  let ?new = "takeWhile (\<lambda>s. cs_confirmed_at s \<le> ?t) (drop (length consumed) swings)"
  define a where "a = advance_frontier cfg swings ?t st"
  define b where "b = refresh_trend cfg (bs_frontier st) a"
  define d where "d = b\<lparr>bs_unbroken := (\<lambda>k. pop_broken (bs_broken b) (bs_unbroken b k))\<rparr>"
  have f: "bs_frontier st = length consumed" using tracks by (simp add: tracks_def)
  have e: "consumed @ ?new = ?e"
    using frontier_split [OF _ consumed past] ordered by (simp add: swings_ordered_def)
  have a: "tracks cfg ?e a" "break_log.truncate a = break_log.truncate st" "bs_trend a = bs_trend st"
    using tracks_consume [OF tracks points, of ?new] by (simp_all add: a_def advance_frontier_def f e)
  have "bs_frontier a = length ?e" using a(1) by (simp add: tracks_def)
  then have same: "bs_frontier a = length consumed \<Longrightarrow> ?e = consumed"
    using e by (metis append_eq_conv_conj append_take_drop_id length_append add_diff_cancel_left' append_Nil2
        length_0_conv diff_self_eq_0)
  have b: "tracks cfg ?e b" "trend_known cfg ?e b" "break_log.truncate b = break_log.truncate st"
    using tracks_refresh [OF a(1), of consumed "bs_frontier st"] trend same a f
    by (simp_all add: b_def trend_known_def)
  have d: "tracks cfg ?e d" "trend_known cfg ?e d" "break_log.truncate d = break_log.truncate st"
    using b tracks_pop [OF b(1)] by (simp_all add: d_def trend_known_def break_log.truncate_def)
  have level: "stack_top (bs_unbroken d k) = latest_unbroken_swing ?e k ?t (bs_broken st)" for k
  proof -
    have broken: "bs_broken b = bs_broken st" using b(3) by (simp add: break_log.truncate_def)
    have sorted: "sorted_wrt (\<lambda>a b. swing_key a < swing_key b) (of_kind k ?e)"
      using ordered by (simp add: swings_ordered_def of_kind_filter sorted_wrt_filter)
    have "stack_top (bs_unbroken d k) = stack_top (pop_broken (bs_broken b) (bs_unbroken b k))"
      by (simp add: d_def)
    also have "\<dots> = stack_top (filter (\<lambda>s. cs_swing_id s \<notin> bs_broken b) (bs_unbroken b k))"
      by (rule last_filter_pop)
    also have "filter (\<lambda>s. cs_swing_id s \<notin> bs_broken b) (bs_unbroken b k)
        = filter (\<lambda>s. cs_swing_id s \<notin> bs_broken b) (of_kind k ?e)"
      using b(1) unfolding tracks_def by blast
    also have "stack_top \<dots> = latest_unbroken_swing ?e k ?t (bs_broken b)"
      by (rule latest_unbroken_is_top [symmetric, OF sorted]) simp
    finally show ?thesis unfolding broken .
  qed
  have "break_context cfg swings (bs_broken (break_log.truncate st)) ?t
      = (the (bs_trend d), stack_top (bs_unbroken d HIGH), stack_top (bs_unbroken d LOW))"
    using d(2) by (simp add: break_context_def Let_def level trend_known_def break_log.truncate_def)
  moreover have "break_step cfg tf swings candle st =
      append_structure_event cfg tf candle
        (the (bs_trend d), stack_top (bs_unbroken d HIGH), stack_top (bs_unbroken d LOW)) d"
    unfolding break_step_def append_structure_event_def Let_def a_def [symmetric] b_def [symmetric]
      d_def [symmetric] prod.case ..
  moreover note tracks_record [OF d(1,2)]
  ultimately show ?thesis
    unfolding reference_step_def append_structure_event_def prod.case
    by (cases "structure_break cfg tf candle (the (bs_trend d)) (stack_top (bs_unbroken d HIGH))
          (stack_top (bs_unbroken d LOW))") (simp_all add: d(3))
qed

lemma run_reference:
  assumes "tracks cfg consumed st" "bs_trend st = None \<or> trend_known cfg consumed st"
    "consumed = take (length consumed) swings" "length consumed \<le> length swings"
    "\<forall>c\<in>set candles. \<forall>s\<in>set consumed. cs_confirmed_at s \<le> c_timestamp c"
    and "sorted (map c_timestamp candles)" "swings_ordered swings" "0 < ms_trend_points cfg"
  shows "on_result break_log.truncate (for_each (break_step cfg tf swings) candles st)
    = for_each (reference_step cfg tf swings) candles (break_log.truncate st)"
  using assms(1-6)
proof (induction candles arbitrary: consumed st)
  case (Cons c candles)
  let ?e = "filter (\<lambda>s. cs_confirmed_at s \<le> c_timestamp c) swings"
  have past: "\<forall>s\<in>set consumed. cs_confirmed_at s \<le> c_timestamp c" using Cons.prems(5) by simp
  note step = break_step_reference [OF Cons.prems(1-4) past assms(7,8), of tf]
  show ?case
  proof (cases "break_step cfg tf swings c st")
    case (Inl e)
    then have "reference_step cfg tf swings c (break_log.truncate st) = Inl e"
      using step by (metis on_result_simps(1))
    with Inl show ?thesis by simp
  next
    case (Inr st')
    then have ref: "reference_step cfg tf swings c (break_log.truncate st) = Inr (break_log.truncate st')"
      using step by (metis on_result_simps(2))
    have inv: "tracks cfg ?e st'" "trend_known cfg ?e st'" using step Inr by blast+
    obtain ys where "swings = ?e @ ys"
      using filter_le_prefix [of cs_confirmed_at swings "c_timestamp c"] assms(7)
      by (auto simp: swings_ordered_def)
    then have prefix: "?e = take (length ?e) swings" by (metis append_eq_conv_conj)
    have "\<forall>b\<in>set candles. \<forall>s\<in>set ?e. cs_confirmed_at s \<le> c_timestamp b"
      using Cons.prems(6) by fastforce
    moreover have "length ?e \<le> length swings" "sorted (map c_timestamp candles)"
      using Cons.prems(6) by simp_all
    ultimately have "on_result break_log.truncate (for_each (break_step cfg tf swings) candles st')
        = for_each (reference_step cfg tf swings) candles (break_log.truncate st')"
      using Cons.IH [OF inv(1) disjI2 [OF inv(2)] prefix] by blast
    with Inr ref show ?thesis by simp
  qed
qed simp

lemma detect_breaks_reference:
  assumes "sorted (map c_timestamp candles)" "swings_ordered swings" "0 < ms_trend_points cfg"
  shows "detect_structure_breaks candles swings tf cfg =
    on_result (\<lambda>st. (bs_events st, bs_rejections st)) (reference_breaks candles swings tf cfg)"
proof -
  have start: "break_log.truncate break_start = \<lparr>bs_events = [], bs_rejections = [], bs_broken = {}\<rparr>"
    "bs_trend break_start = None"
    by (simp_all add: break_start_def break_log.truncate_def)
  have "on_result break_log.truncate (for_each (break_step cfg tf swings) candles break_start)
      = reference_breaks candles swings tf cfg"
    unfolding reference_breaks_def start(1) [symmetric]
    by (rule run_reference [OF tracks_start _ _ _ _ assms]) (simp_all add: start(2))
  then have "reference_breaks candles swings tf cfg
      = on_result break_log.truncate (for_each (break_step cfg tf swings) candles break_start)" ..
  then show ?thesis
    by (cases "for_each (break_step cfg tf swings) candles break_start")
      (simp_all add: detect_structure_breaks_def break_log.truncate_def)
qed

section \<open>Swings are stable\<close>

definition chronological :: "candle list \<Rightarrow> bool" where
  "chronological candles \<longleftrightarrow> sorted_wrt (<) (map c_timestamp candles)"

text \<open>Candles in order are found by their timestamps.\<close>

lemma chronological_less:
  "chronological candles \<Longrightarrow> i < j \<Longrightarrow> j < length candles \<Longrightarrow> c_timestamp (candles ! i) < c_timestamp (candles ! j)"
  by (simp add: chronological_def sorted_wrt_map sorted_wrt_iff_nth_less)

lemma chronological_inj:
  "chronological candles \<Longrightarrow> i < length candles \<Longrightarrow> j < length candles
    \<Longrightarrow> c_timestamp (candles ! i) = c_timestamp (candles ! j) \<longleftrightarrow> i = j"
  using chronological_less [of candles i j] chronological_less [of candles j i] by (cases i j rule: linorder_cases) auto


definition left_window :: "structure_config \<Rightarrow> candle list \<Rightarrow> nat \<Rightarrow> candle list" where
  "left_window cfg candles i = take (ms_left_bars cfg) (drop (i - ms_left_bars cfg) candles)"

definition right_window :: "structure_config \<Rightarrow> candle list \<Rightarrow> nat \<Rightarrow> candle list" where
  "right_window cfg candles i =
     take (min (ms_right_bars cfg) (length candles - i - 1)) (drop (i + 1) candles)"

definition resolved :: "structure_config \<Rightarrow> candle list \<Rightarrow> nat \<Rightarrow> bool" where
  "resolved cfg candles i \<longleftrightarrow> i + ms_right_bars cfg < length candles"

definition qualifies_left :: "structure_config \<Rightarrow> candle list \<Rightarrow> nat \<Rightarrow> swing_kind \<Rightarrow> bool" where
  "qualifies_left cfg candles i k \<longleftrightarrow>
     left_qualifies k (swing_value k (candles ! i)) (map (swing_value k) (left_window cfg candles i))
       (ms_tie_policy cfg)"

definition qualifies_fully :: "structure_config \<Rightarrow> candle list \<Rightarrow> nat \<Rightarrow> swing_kind \<Rightarrow> bool" where
  "qualifies_fully cfg candles i k \<longleftrightarrow>
     fully_qualifies k (swing_value k (candles ! i)) (map (swing_value k) (left_window cfg candles i))
       (map (swing_value k) (right_window cfg candles i)) (ms_tie_policy cfg)"

definition candidate_at ::
  "candle list \<Rightarrow> timeframe \<Rightarrow> structure_config \<Rightarrow> nat \<Rightarrow> swing_kind \<Rightarrow> swing_candidate" where
  "candidate_at candles tf cfg i k =
     \<lparr>sw_candidate_id = swing_id k (c_timestamp (candles ! i)), sw_kind = k, sw_pivot_index = i,
      sw_pivot_timestamp = c_timestamp (candles ! i), sw_price = swing_value k (candles ! i),
      sw_candidate_at = c_timestamp (candles ! i) + timeframe_duration tf,
      sw_required_right_bars = ms_right_bars cfg,
      sw_observed_right_bars = min (ms_right_bars cfg) (length candles - i - 1),
      sw_resolution = (if resolved cfg candles i
        then if qualifies_fully cfg candles i k then CONFIRMED else REJECTED else PENDING),
      sw_resolved_at = (if resolved cfg candles i
        then Some (c_timestamp (last (right_window cfg candles i)) + timeframe_duration tf) else None)\<rparr>"

definition swing_at ::
  "candle list \<Rightarrow> timeframe \<Rightarrow> structure_config \<Rightarrow> nat \<Rightarrow> swing_kind \<Rightarrow> confirmed_swing" where
  "swing_at candles tf cfg i k =
     confirmed_of (candidate_at candles tf cfg i k)
       (c_timestamp (last (right_window cfg candles i)) + timeframe_duration tf)
       (left_window cfg candles i) (right_window cfg candles i)"

lemma fully_imp_left: "fully_qualifies k p ls rs pol \<Longrightarrow> left_qualifies k p ls pol"
  by (auto simp: fully_qualifies_def left_qualifies_def split: if_splits)

text \<open>The loop body in these terms.\<close>

lemma pivot_swing_eq:
  assumes "i < length candles" "0 < ms_right_bars cfg"
  shows "pivot_swing candles tf cfg i k =
    (if qualifies_left cfg candles i k
     then Some (candidate_at candles tf cfg i k,
       if resolved cfg candles i \<and> qualifies_fully cfg candles i k
       then Some (swing_at candles tf cfg i k) else None)
     else None)"
proof -
  have "min (ms_right_bars cfg) (length candles - i - 1) = ms_right_bars cfg \<longleftrightarrow> resolved cfg candles i"
    using assms by (auto simp: resolved_def)
  then show ?thesis
    by (simp add: pivot_swing_def Let_def qualifies_left_def qualifies_fully_def candidate_at_def
        swing_at_def left_window_def right_window_def)
qed

definition swings_at ::
  "candle list \<Rightarrow> timeframe \<Rightarrow> structure_config \<Rightarrow> nat \<Rightarrow> confirmed_swing list" where
  "swings_at candles tf cfg i =
     map (swing_at candles tf cfg i) (filter (qualifies_fully cfg candles i) [HIGH, LOW])"

definition candidates_at ::
  "candle list \<Rightarrow> timeframe \<Rightarrow> structure_config \<Rightarrow> nat \<Rightarrow> swing_candidate list" where
  "candidates_at candles tf cfg i =
     map (candidate_at candles tf cfg i) (filter (qualifies_left cfg candles i) [HIGH, LOW])"

lemma pivot_swings_eq:
  assumes "i < length candles" "0 < ms_right_bars cfg"
  shows "map fst (pivot_swings candles tf cfg i) = candidates_at candles tf cfg i"
    and "List.map_filter snd (pivot_swings candles tf cfg i)
      = (if resolved cfg candles i then swings_at candles tf cfg i else [])"
proof -
  have "qualifies_fully cfg candles i k \<Longrightarrow> qualifies_left cfg candles i k" for k
    unfolding qualifies_fully_def qualifies_left_def by (rule fully_imp_left)
  then show "List.map_filter snd (pivot_swings candles tf cfg i)
      = (if resolved cfg candles i then swings_at candles tf cfg i else [])"
    by (auto simp: pivot_swings_def pivot_swing_eq [OF assms] swings_at_def List.map_filter_simps)
  show "map fst (pivot_swings candles tf cfg i) = candidates_at candles tf cfg i"
    by (simp add: pivot_swings_def pivot_swing_eq [OF assms] candidates_at_def List.map_filter_simps)
qed

lemma map_filter_concat: "List.map_filter f (concat xss) = concat (map (List.map_filter f) xss)"
  by (induction xss) (simp_all add: List.map_filter_def)

lemma detect_swings_eq:
  assumes "0 < ms_right_bars cfg"
  shows "detect_swings candles tf cfg =
    (concat (map (candidates_at candles tf cfg) [ms_left_bars cfg..<length candles]),
     concat (map (swings_at candles tf cfg) [ms_left_bars cfg..<length candles - ms_right_bars cfg]))"
proof -
  let ?l = "ms_left_bars cfg" and ?n = "length candles"
  have a: "map (\<lambda>i. List.map_filter snd (pivot_swings candles tf cfg i)) [?l..<?n]
      = map (\<lambda>i. if resolved cfg candles i then swings_at candles tf cfg i else []) [?l..<?n]"
    by (rule map_cong) (simp_all add: pivot_swings_eq(2) assms)
  have b: "concat (map (\<lambda>i. if resolved cfg candles i then swings_at candles tf cfg i else []) [?l..<m])
      = concat (map (swings_at candles tf cfg) [?l..<min m (?n - ms_right_bars cfg)])" for m
  proof (induction m)
    case (Suc m)
    show ?case
    proof (cases "m < ?n - ms_right_bars cfg")
      case True
      then have "resolved cfg candles m" by (simp add: resolved_def less_diff_conv)
      with True Suc show ?thesis by simp
    next
      case False
      then have "\<not> resolved cfg candles m" "min (Suc m) (?n - ms_right_bars cfg) = min m (?n - ms_right_bars cfg)"
        by (auto simp: resolved_def)
      with Suc show ?thesis by simp
    qed
  qed simp
  have c: "map (\<lambda>i. map fst (pivot_swings candles tf cfg i)) [?l..<?n]
      = map (candidates_at candles tf cfg) [?l..<?n]"
    by (rule map_cong) (simp_all add: pivot_swings_eq(1) assms)
  have "min ?n (?n - ms_right_bars cfg) = ?n - ms_right_bars cfg" by simp
  then show ?thesis
    unfolding detect_swings_def Let_def map_concat map_filter_concat map_map comp_def a b c by (simp only:)
qed

lemma right_window_full:
  assumes "resolved cfg candles i" "0 < ms_right_bars cfg"
  shows "right_window cfg candles i = take (ms_right_bars cfg) (drop (i + 1) candles)"
    and "last (right_window cfg candles i) = candles ! (i + ms_right_bars cfg)"
proof -
  have r: "i + ms_right_bars cfg < length candles" using assms(1) by (simp add: resolved_def)
  then have "min (ms_right_bars cfg) (length candles - i - 1) = ms_right_bars cfg" by simp
  then show w: "right_window cfg candles i = take (ms_right_bars cfg) (drop (i + 1) candles)"
    by (simp add: right_window_def)
  have "last (take (ms_right_bars cfg) (drop (i + 1) candles))
      = take (ms_right_bars cfg) (drop (i + 1) candles) ! (ms_right_bars cfg - 1)"
    using r assms(2) by (subst last_conv_nth) auto
  also have "\<dots> = candles ! (i + ms_right_bars cfg)"
    using r assms(2) by simp
  finally show "last (right_window cfg candles i) = candles ! (i + ms_right_bars cfg)" by (simp only: w)
qed

lemma resolved_prefix:
  assumes "resolved cfg candles i" "0 < ms_right_bars cfg" "ms_left_bars cfg \<le> i"
  shows "resolved cfg (candles @ rest) i" "left_window cfg (candles @ rest) i = left_window cfg candles i"
    "right_window cfg (candles @ rest) i = right_window cfg candles i"
proof -
  show r: "resolved cfg (candles @ rest) i" using assms(1) by (simp add: resolved_def)
  show "left_window cfg (candles @ rest) i = left_window cfg candles i"
    using assms by (simp add: left_window_def resolved_def)
  show "right_window cfg (candles @ rest) i = right_window cfg candles i"
    using right_window_full(1) [OF r assms(2)] right_window_full(1) [OF assms(1,2)] assms(1)
    by (simp add: resolved_def)
qed

lemma swings_at_prefix:
  assumes "resolved cfg candles i" "0 < ms_right_bars cfg" "ms_left_bars cfg \<le> i"
  shows "swings_at (candles @ rest) tf cfg i = swings_at candles tf cfg i"
proof -
  have "i < length candles" using assms(1) by (simp add: resolved_def)
  then have "(candles @ rest) ! i = candles ! i" by (simp add: nth_append)
  then show ?thesis
    unfolding swings_at_def swing_at_def candidate_at_def qualifies_fully_def
    by (simp add: resolved_prefix [OF assms] confirmed_of_def)
qed

text \<open>The order of the swings, and which swing a pivot index and a kind determine.\<close>

lemma concat_upt_sorted:
  assumes "\<And>i. sorted_wrt r (f i)" "\<And>i j x y. i < j \<Longrightarrow> j < n \<Longrightarrow> x \<in> set (f i) \<Longrightarrow> y \<in> set (f j) \<Longrightarrow> r x y"
  shows "sorted_wrt r (concat (map f [m..<n]))"
  using assms(2)
proof (induction n)
  case (Suc n)
  then have "sorted_wrt r (concat (map f [m..<n]))" by (meson less_SucI)
  then show ?case using Suc.prems [of _ n] assms(1) by (auto simp: sorted_wrt_append)
qed simp

definition pivot_before :: "confirmed_swing \<Rightarrow> confirmed_swing \<Rightarrow> bool" where
  "pivot_before a b \<longleftrightarrow> cs_pivot_index a < cs_pivot_index b
     \<or> (cs_pivot_index a = cs_pivot_index b \<and> cs_kind a = HIGH \<and> cs_kind b = LOW)"

lemma swing_at_fields [simp]:
  "cs_pivot_index (swing_at candles tf cfg i k) = i"
  "cs_kind (swing_at candles tf cfg i k) = k"
  "cs_swing_id (swing_at candles tf cfg i k) = swing_id k (c_timestamp (candles ! i))"
  "cs_pivot_timestamp (swing_at candles tf cfg i k) = c_timestamp (candles ! i)"
  "cs_price (swing_at candles tf cfg i k) = swing_value k (candles ! i)"
  "cs_confirmed_at (swing_at candles tf cfg i k)
     = c_timestamp (last (right_window cfg candles i)) + timeframe_duration tf"
  by (simp_all add: swing_at_def confirmed_of_def candidate_at_def)

definition confirmed_swings :: "candle list \<Rightarrow> timeframe \<Rightarrow> structure_config \<Rightarrow> confirmed_swing list" where
  "confirmed_swings candles tf cfg = snd (detect_swings candles tf cfg)"

lemma confirmed_swings_elem:
  assumes "0 < ms_right_bars cfg"
  shows "s \<in> set (confirmed_swings candles tf cfg) \<longleftrightarrow>
    (\<exists>i k. ms_left_bars cfg \<le> i \<and> resolved cfg candles i \<and> qualifies_fully cfg candles i k
      \<and> s = swing_at candles tf cfg i k)"
proof -
  have "set (filter p [HIGH, LOW]) = {k. p k}" for p
  proof -
    have "k = HIGH \<or> k = LOW" for k by (cases k) simp_all
    then have "set [HIGH, LOW] = UNIV" unfolding list.set by blast
    then show ?thesis unfolding set_filter by blast
  qed
  then have "set (swings_at candles tf cfg i) = swing_at candles tf cfg i ` {k. qualifies_fully cfg candles i k}"
    for i by (simp add: swings_at_def)
  moreover have "resolved cfg candles i \<longleftrightarrow> i < length candles - ms_right_bars cfg" for i
    by (simp add: resolved_def less_diff_conv)
  ultimately show ?thesis
    unfolding confirmed_swings_def detect_swings_eq [OF assms] by (simp only: snd_conv) auto
qed

lemma confirmed_swings_sorted:
  assumes "0 < ms_right_bars cfg"
  shows "sorted_wrt pivot_before (confirmed_swings candles tf cfg)"
  unfolding confirmed_swings_def detect_swings_eq [OF assms] snd_conv
  by (rule concat_upt_sorted) (auto simp: swings_at_def pivot_before_def)

lemma swing_id_eq [simp]: "swing_id k t = swing_id k' t' \<longleftrightarrow> k = k' \<and> t = t'"
proof -
  have "swing_id k t = swing_id k' t' \<Longrightarrow> k = k'"
    by (cases k; cases k') (simp_all add: swing_id_def)
  then show ?thesis by (auto simp: swing_id_def isoformat_injective)
qed

lemma chronological_nth:
  "chronological candles \<Longrightarrow> i < length candles \<Longrightarrow> j < length candles \<Longrightarrow>
    c_timestamp (candles ! i) < c_timestamp (candles ! j) \<longleftrightarrow> i < j"
  unfolding chronological_def sorted_wrt_iff_nth_less
  by (metis length_map linorder_neqE_nat nth_map order_less_asym order_less_irrefl)

lemma confirmed_at_eq:
  assumes "resolved cfg candles i" "0 < ms_right_bars cfg"
  shows "cs_confirmed_at (swing_at candles tf cfg i k)
    = c_timestamp (candles ! (i + ms_right_bars cfg)) + timeframe_duration tf"
  by (simp add: right_window_full(2) [OF assms])

lemma confirmed_swings_ordered:
  assumes "0 < ms_right_bars cfg" "chronological candles"
  shows "swings_ordered (confirmed_swings candles tf cfg)"
proof -
  let ?s = "confirmed_swings candles tf cfg"
  have at: "cs_confirmed_at s = c_timestamp (candles ! (cs_pivot_index s + ms_right_bars cfg)) + timeframe_duration tf
      \<and> cs_pivot_index s + ms_right_bars cfg < length candles
      \<and> s = swing_at candles tf cfg (cs_pivot_index s) (cs_kind s)" if "s \<in> set ?s" for s
    using that unfolding confirmed_swings_elem [OF assms(1)]
    by (auto simp: right_window_full(2) [OF _ assms(1)]) (simp_all add: resolved_def)
  have less: "cs_confirmed_at a < cs_confirmed_at b \<longleftrightarrow> cs_pivot_index a < cs_pivot_index b"
    if "a \<in> set ?s" "b \<in> set ?s" for a b
    using at [OF that(1)] at [OF that(2)] chronological_nth [OF assms(2)] by (metis add_less_cancel_right)
  have before: "cs_confirmed_at a \<le> cs_confirmed_at b"
    if "a \<in> set ?s" "b \<in> set ?s" "pivot_before a b" for a b
    using less [of b a] that by (auto simp: pivot_before_def)
  have "sorted (map cs_confirmed_at ?s)"
    unfolding sorted_map using confirmed_swings_sorted [OF assms(1)] before
    by (rule sorted_wrt_mono_rel [rotated])
  moreover have "inj_on cs_swing_id (set ?s)"
  proof (rule inj_onI)
    fix a b assume ab: "a \<in> set ?s" "b \<in> set ?s" "cs_swing_id a = cs_swing_id b"
    have "cs_swing_id s = swing_id (cs_kind s) (c_timestamp (candles ! cs_pivot_index s))" if "s \<in> set ?s" for s
      using at [OF that] swing_at_fields(3) by metis
    then have "cs_kind a = cs_kind b"
      "c_timestamp (candles ! cs_pivot_index a) = c_timestamp (candles ! cs_pivot_index b)"
      using ab by simp_all
    then show "a = b"
      using at [OF ab(1)] at [OF ab(2)] chronological_nth [OF assms(2)]
      by (metis add_lessD1 linorder_neqE_nat order_less_irrefl)
  qed
  moreover have "sorted_wrt (\<lambda>a b. swing_key a < swing_key b) (of_kind k ?s)" for k
  proof (rule sorted_wrt_mono_rel)
    show "sorted_wrt pivot_before (of_kind k ?s)"
      unfolding of_kind_def by (rule sorted_wrt_filter [OF confirmed_swings_sorted [OF assms(1)]])
    fix a b assume ab: "a \<in> set (of_kind k ?s)" "b \<in> set (of_kind k ?s)" "pivot_before a b"
    then have "cs_pivot_index a < cs_pivot_index b" by (auto simp: pivot_before_def of_kind_def)
    then show "swing_key a < swing_key b"
      using less [of a b] ab by (simp add: swing_key_def of_kind_def)
  qed
  ultimately show ?thesis by (simp add: swings_ordered_def)
qed

lemma filter_concat_upt:
  assumes "\<And>i x. l \<le> i \<Longrightarrow> i < m \<Longrightarrow> x \<in> set (f i) \<Longrightarrow> p x \<longleftrightarrow> i < k"
  shows "filter p (concat (map f [l..<m])) = concat (map f [l..<min m k])"
  using assms
proof (induction m)
  case (Suc m)
  then have IH: "filter p (concat (map f [l..<m])) = concat (map f [l..<min m k])"
    by (meson less_SucI)
  show ?case
  proof (cases "m < k \<and> l \<le> m")
    case True
    then have "filter p (f m) = f m" using Suc.prems [of m] by (simp add: filter_id_conv)
    with True IH show ?thesis by simp
  next
    case False
    then have "l \<le> m \<Longrightarrow> filter p (f m) = []" using Suc.prems [of m] by (auto simp: filter_empty_conv)
    with False IH show ?thesis by (cases "l \<le> m") (auto simp: min_def)
  qed
qed simp

lemma confirmed_swings_take:
  assumes "0 < ms_right_bars cfg" "n \<le> length candles"
  shows "confirmed_swings (take n candles) tf cfg
    = concat (map (swings_at candles tf cfg) [ms_left_bars cfg..<n - ms_right_bars cfg])"
proof -
  have "swings_at (take n candles) tf cfg i = swings_at candles tf cfg i"
    if "i \<in> set [ms_left_bars cfg..<n - ms_right_bars cfg]" for i
    using that assms swings_at_prefix [of cfg "take n candles" i "drop n candles" tf]
    by (simp add: resolved_def less_diff_conv)
  then have "map (swings_at (take n candles) tf cfg) [ms_left_bars cfg..<n - ms_right_bars cfg]
      = map (swings_at candles tf cfg) [ms_left_bars cfg..<n - ms_right_bars cfg]"
    by (intro map_cong) simp_all
  moreover have "length (take n candles) = n" using assms(2) by simp
  ultimately show ?thesis
    unfolding confirmed_swings_def detect_swings_eq [OF assms(1)] snd_conv by (simp only:)
qed

lemma swing_visible_iff:
  assumes "0 < ms_right_bars cfg" "chronological candles" "x \<in> set (swings_at candles tf cfg i)"
    "i + ms_right_bars cfg < length candles" "n \<le> length candles" "0 < n"
  shows "cs_confirmed_at x \<le> c_timestamp (candles ! (n - 1)) + timeframe_duration tf
    \<longleftrightarrow> i + ms_right_bars cfg < n"
proof -
  have "resolved cfg candles i" using assms(4) by (simp add: resolved_def)
  then have "cs_confirmed_at x = c_timestamp (candles ! (i + ms_right_bars cfg)) + timeframe_duration tf"
    using assms(3) confirmed_at_eq [OF _ assms(1)] by (auto simp: swings_at_def)
  then have "cs_confirmed_at x \<le> c_timestamp (candles ! (n - 1)) + timeframe_duration tf
      \<longleftrightarrow> \<not> c_timestamp (candles ! (n - 1)) < c_timestamp (candles ! (i + ms_right_bars cfg))"
    by (simp add: not_less)
  also have "\<dots> \<longleftrightarrow> \<not> n - 1 < i + ms_right_bars cfg"
    using chronological_nth [OF assms(2), of "n - 1" "i + ms_right_bars cfg"] assms by simp
  also have "\<dots> \<longleftrightarrow> i + ms_right_bars cfg < n" using assms(6) by linarith
  finally show ?thesis .
qed

lemma confirmed_swings_visible:
  assumes "0 < ms_right_bars cfg" "chronological candles" "n \<le> length candles" "0 < n"
  shows "confirmed_swings (take n candles) tf cfg
    = filter (\<lambda>s. cs_confirmed_at s \<le> c_timestamp (candles ! (n - 1)) + timeframe_duration tf)
        (confirmed_swings candles tf cfg)"
proof -
  have "filter (\<lambda>s. cs_confirmed_at s \<le> c_timestamp (candles ! (n - 1)) + timeframe_duration tf)
        (confirmed_swings candles tf cfg)
      = concat (map (swings_at candles tf cfg)
          [ms_left_bars cfg..<min (length candles - ms_right_bars cfg) (n - ms_right_bars cfg)])"
    unfolding confirmed_swings_def detect_swings_eq [OF assms(1)] snd_conv
    by (rule filter_concat_upt)
      (use swing_visible_iff [OF assms(1,2) _ _ assms(3,4)] in \<open>simp add: less_diff_conv\<close>)
  also have "min (length candles - ms_right_bars cfg) (n - ms_right_bars cfg) = n - ms_right_bars cfg"
    using assms(3) by simp
  finally show ?thesis using confirmed_swings_take [OF assms(1,3)] by simp
qed

section \<open>What validated candles are\<close>

definition tick_multiple :: "rat \<Rightarrow> price \<Rightarrow> bool" where
  "tick_multiple tick p \<longleftrightarrow> p / tick \<in> \<int> \<and> \<bar>p / tick\<bar> < 10 ^ context_precision"

definition spaced :: "timeframe \<Rightarrow> candle list \<Rightarrow> bool" where
  "spaced tf candles \<longleftrightarrow>
     (\<forall>p\<in>set (adjacent candles). c_timestamp (snd p) - c_timestamp (fst p) = timeframe_duration tf)"

lemma check_tick_Inr:
  "0 < tick \<Longrightarrow> check_tick err tick (name, p) = Inr u \<longleftrightarrow> tick_multiple tick p"
  unfolding tick_multiple_def dmod_zero_iff [symmetric]
  by (auto simp: check_tick_def bind_result_eq_Inr)

lemma check_interval_Inr:
  assumes "0 < d"
  shows "check_interval err d p = Inr u \<longleftrightarrow> c_timestamp (snd p) - c_timestamp (fst p) = d"
  using assms by (cases p) (auto simp: check_interval_def Let_def)

lemma validate_tick_candles_Inr:
  assumes "0 < tick"
  shows "validate_tick_candles err candles tf tick = Inr u \<longleftrightarrow>
    (\<forall>c\<in>set candles. tick_multiple tick (c_open c) \<and> tick_multiple tick (c_high c)
       \<and> tick_multiple tick (c_low c) \<and> tick_multiple tick (c_close c))
    \<and> spaced tf candles"
  by (simp add: validate_tick_candles_def bind_result_eq_Inr check_all_Inr check_candle_ticks_def
      check_tick_Inr [OF assms] check_interval_Inr spaced_def)

lemma spaced_chronological: "spaced tf candles \<Longrightarrow> chronological candles"
proof -
  assume "spaced tf candles"
  then have "sorted_wrt (\<lambda>a b. c_timestamp a + timeframe_duration tf \<le> c_timestamp b) candles"
    unfolding spaced_def by (rule adjacent_spaced) simp
  moreover have "a + timeframe_duration tf \<le> b \<Longrightarrow> a < b" for a b :: int
    using timeframe_duration_pos [of tf] by linarith
  ultimately show ?thesis
    unfolding chronological_def sorted_wrt_map by (rule sorted_wrt_mono_rel [rotated])
qed

lemma validate_structure_chronological:
  "0 < tick \<Longrightarrow> validate_structure_candles candles tf tick = Inr u \<Longrightarrow> chronological candles"
  using spaced_chronological [of tf candles]
  by (simp add: validate_structure_candles_def validate_tick_candles_Inr)

lemma chronological_sorted: "chronological candles \<Longrightarrow> sorted (map c_timestamp candles)"
  unfolding chronological_def by (rule strict_sorted_imp_sorted)

section \<open>Properties of the engine\<close>

text \<open>
  C25: Swings never repaint. On validated candles, what the detector confirms from the first \<open>n\<close> candles is
  exactly what it later lists as confirmed by the close of candle \<open>n\<close>: a swing is never added to the past,
  moved or withdrawn, however many candles follow.
\<close>

theorem swings_never_repaint:
  assumes "structure_config_valid cfg" "validate_structure_candles candles tf (ms_tick_size cfg) = Inr ()"
    and "0 < n" "n \<le> length candles"
  shows "snd (detect_swings (take n candles) tf cfg)
    = filter (\<lambda>s. cs_confirmed_at s \<le> c_timestamp (candles ! (n - 1)) + timeframe_duration tf)
        (snd (detect_swings candles tf cfg))"
  using confirmed_swings_visible [of cfg candles n tf] validate_structure_chronological assms
  unfolding confirmed_swings_def structure_config_valid_def by (metis less_le_trans zero_less_one)

text \<open>
  C26: The bookkeeping of the break detection is exact. On validated candles the loop with the frontier, the
  bounded queues, the stacks of unbroken swings and the cached trend finds the same breaks and
  rejections as the definition: for each candle, the trend of the swings confirmed when it opens, and the
  latest of them on each side that is not broken yet.
\<close>

theorem structure_breaks_are_reference:
  assumes "structure_config_valid cfg" "validate_structure_candles candles tf (ms_tick_size cfg) = Inr ()"
  shows "detect_structure_breaks candles (snd (detect_swings candles tf cfg)) tf cfg =
    on_result (\<lambda>st. (bs_events st, bs_rejections st))
      (reference_breaks candles (snd (detect_swings candles tf cfg)) tf cfg)"
proof -
  have v: "0 < ms_right_bars cfg" "0 < ms_trend_points cfg" "0 < ms_tick_size cfg"
    using assms(1) by (auto simp: structure_config_valid_def)
  have c: "chronological candles" using validate_structure_chronological v(3) assms(2) by blast
  show ?thesis
    using detect_breaks_reference [OF chronological_sorted [OF c] confirmed_swings_ordered [OF v(1) c] v(2)]
    unfolding confirmed_swings_def .
qed

section \<open>Breaks are justified\<close>

text \<open>
  What a break event claims: a swing of the right kind, confirmed when the candle opened, that the candle
  traded through by more than the buffer, with the type its direction has against the trend known then.
\<close>

definition break_justified ::
  "structure_config \<Rightarrow> timeframe \<Rightarrow> candle list \<Rightarrow> confirmed_swing list \<Rightarrow> structure_event \<Rightarrow> bool" where
  "break_justified cfg tf candles swings e \<longleftrightarrow>
     (\<exists>c\<in>set candles. \<exists>s\<in>set swings.
        se_timestamp e = c_timestamp c \<and> se_confirmed_at e = c_timestamp c + timeframe_duration tf
        \<and> se_broken_structure_id e = cs_swing_id s \<and> cs_confirmed_at s \<le> c_timestamp c
        \<and> (se_direction e = STRUCTURE_BULLISH \<and> cs_kind s = HIGH \<and> se_price e = up_value cfg c
             \<and> dadd (cs_price s) (break_buffer cfg) < se_price e
           \<or> se_direction e = STRUCTURE_BEARISH \<and> cs_kind s = LOW \<and> se_price e = down_value cfg c
             \<and> se_price e < dsub (cs_price s) (break_buffer cfg))
        \<and> se_trend_before_break e = classify_trend (filter (\<lambda>s. cs_confirmed_at s \<le> c_timestamp c) swings) cfg
        \<and> se_type e = event_type_for (se_direction e) (se_trend_before_break e))"

lemma latest_unbroken_swing_Some:
  "latest_unbroken_swing swings k t broken = Some s \<Longrightarrow>
    s \<in> set swings \<and> cs_kind s = k \<and> cs_confirmed_at s \<le> t \<and> cs_swing_id s \<notin> broken"
  by (auto simp: latest_unbroken_swing_def dest!: max_by_mem)

lemma make_structure_event_Inr: "make_structure_event e = Inr e' \<Longrightarrow> e' = e"
  by (auto simp: make_structure_event_def split: if_splits)

lemma structure_break_BROKEN:
  assumes "structure_break cfg tf c trend up down = Inr (BROKEN e)"
  obtains s where "up = Some s" "dadd (cs_price s) (break_buffer cfg) < se_price e"
      "se_direction e = STRUCTURE_BULLISH" "se_price e = up_value cfg c"
      "se_timestamp e = c_timestamp c" "se_confirmed_at e = c_timestamp c + timeframe_duration tf"
      "se_broken_structure_id e = cs_swing_id s" "se_trend_before_break e = trend"
      "se_type e = event_type_for (se_direction e) trend"
  | s where "down = Some s" "se_price e < dsub (cs_price s) (break_buffer cfg)"
      "se_direction e = STRUCTURE_BEARISH" "se_price e = down_value cfg c"
      "se_timestamp e = c_timestamp c" "se_confirmed_at e = c_timestamp c + timeframe_duration tf"
      "se_broken_structure_id e = cs_swing_id s" "se_trend_before_break e = trend"
      "se_type e = event_type_for (se_direction e) trend"
  using assms
  by (auto simp: structure_break_def Let_def bind_result_eq_Inr split: if_splits option.splits
      dest!: make_structure_event_Inr)

lemma reference_step_justified:
  assumes "reference_step cfg tf swings c st = Inr st'" "c \<in> set candles"
    and "\<forall>e\<in>set (bs_events st). break_justified cfg tf candles swings e"
    and "distinct (map se_broken_structure_id (bs_events st))"
    and "bs_broken st = se_broken_structure_id ` set (bs_events st)"
  shows "(\<forall>e\<in>set (bs_events st'). break_justified cfg tf candles swings e)
    \<and> distinct (map se_broken_structure_id (bs_events st'))
    \<and> bs_broken st' = se_broken_structure_id ` set (bs_events st')"
proof -
  define known where "known = filter (\<lambda>s. cs_confirmed_at s \<le> c_timestamp c) swings"
  define up where "up = latest_unbroken_swing known HIGH (c_timestamp c) (bs_broken st)"
  define down where "down = latest_unbroken_swing known LOW (c_timestamp c) (bs_broken st)"
  obtain out where brk: "structure_break cfg tf c (classify_trend known cfg) up down = Inr out"
    and st': "st' = record_outcome out st"
    using assms(1)
    by (auto simp: reference_step_def append_structure_event_def break_context_def Let_def
        bind_result_eq_Inr known_def up_def down_def)
  show ?thesis
  proof (cases out)
    case (BROKEN e)
    have "break_justified cfg tf candles swings e \<and> se_broken_structure_id e \<notin> bs_broken st"
      using brk [unfolded BROKEN]
    proof (cases rule: structure_break_BROKEN)
      case (1 s)
      then show ?thesis
        using latest_unbroken_swing_Some [of known HIGH "c_timestamp c" "bs_broken st" s] assms(2)
        unfolding break_justified_def known_def up_def by (auto intro!: bexI [of _ c] bexI [of _ s])
    next
      case (2 s)
      then show ?thesis
        using latest_unbroken_swing_Some [of known LOW "c_timestamp c" "bs_broken st" s] assms(2)
        unfolding break_justified_def known_def down_def by (auto intro!: bexI [of _ c] bexI [of _ s])
    qed
    with assms(3-5) BROKEN st' show ?thesis by (auto simp: record_outcome_def)
  qed (use assms(3-5) st' in \<open>simp_all add: record_outcome_def\<close>)
qed

lemma reference_breaks_justified:
  assumes "reference_breaks candles swings tf cfg = Inr st"
  shows "(\<forall>e\<in>set (bs_events st). break_justified cfg tf candles swings e)
    \<and> distinct (map se_broken_structure_id (bs_events st))
    \<and> bs_broken st = se_broken_structure_id ` set (bs_events st)"
proof -
  let ?I = "\<lambda>ys st. (\<forall>e\<in>set (bs_events st). break_justified cfg tf candles swings e)
    \<and> distinct (map se_broken_structure_id (bs_events st))
    \<and> bs_broken st = se_broken_structure_id ` set (bs_events (st :: break_log))"
  show ?thesis
    using assms unfolding reference_breaks_def
  proof (rule for_each_prefix_invariant [where I = ?I])
    fix ys c and s s' :: break_log
    assume "?I ys s" "c \<in> set candles" "reference_step cfg tf swings c s = Inr s'"
    then show "?I (ys @ [c]) s'" using reference_step_justified [of cfg tf swings c s s' candles] by blast
  qed simp
qed

lemma analyze_market_structure_Inr:
  assumes "analyze_market_structure candles tf cfg = Inr r"
  obtains support resistance where
    "validate_structure_candles candles tf (ms_tick_size cfg) = Inr ()"
    "mr_confirmed_swings r = snd (detect_swings candles tf cfg)"
    "detect_structure_breaks candles (snd (detect_swings candles tf cfg)) tf cfg
       = Inr (mr_structure_events r, mr_structure_rejections r)"
    "build_zones (snd (detect_swings candles tf cfg)) SUPPORT cfg = Inr support"
    "build_zones (snd (detect_swings candles tf cfg)) RESISTANCE cfg = Inr resistance"
    "mr_support_candidates r = support" "mr_resistance_candidates r = resistance"
  using assms
  by (auto simp: analyze_market_structure_def bind_result_eq_Inr split: prod.splits)

text \<open>
  C27: A structure break looks at nothing that was not known when its candle opened, and breaks a level once.
  Every event of an analysis names a swing of the listed ones that was confirmed by the open of its
  candle, is traded through by more than the buffer, and carries the type (BOS with the trend, MSS against it,
  BREAK without one) that the trend of the swings confirmed by then gives; no two events break the same
  swing.
\<close>

theorem structure_breaks_justified:
  assumes "structure_config_valid cfg" "analyze_market_structure candles tf cfg = Inr r"
  shows "(\<forall>e\<in>set (mr_structure_events r).
      break_justified cfg tf candles (mr_confirmed_swings r) e)
    \<and> distinct (map se_broken_structure_id (mr_structure_events r))"
proof -
  obtain v: "validate_structure_candles candles tf (ms_tick_size cfg) = Inr ()"
    and s: "mr_confirmed_swings r = snd (detect_swings candles tf cfg)"
    and d: "detect_structure_breaks candles (snd (detect_swings candles tf cfg)) tf cfg
      = Inr (mr_structure_events r, mr_structure_rejections r)"
    using assms(2) by (rule analyze_market_structure_Inr)
  have r: "0 < ms_right_bars cfg" "0 < ms_trend_points cfg" "0 < ms_tick_size cfg"
    using assms(1) by (auto simp: structure_config_valid_def)
  have c: "chronological candles" using validate_structure_chronological r(3) v by blast
  obtain st where "reference_breaks candles (mr_confirmed_swings r) tf cfg = Inr st"
      "bs_events st = mr_structure_events r"
    using d detect_breaks_reference [OF chronological_sorted [OF c] confirmed_swings_ordered [OF r(1) c, of tf] r(2), of tf]
    unfolding s confirmed_swings_def
    by (cases "reference_breaks candles (snd (detect_swings candles tf cfg)) tf cfg") auto
  then show ?thesis using reference_breaks_justified by metis
qed

section \<open>When an analysis is returned\<close>

lemma candle_values_pos:
  "candle_valid c \<Longrightarrow> 0 < up_value cfg c \<and> 0 < down_value cfg c \<and> 0 < swing_value k c"
  by (simp add: candle_valid_iff candle_fields_def up_value_def down_value_def swing_value_def)

lemma timeframe_duration_not_le [simp]: "\<not> timeframe_duration tf \<le> 0"
  by (simp add: not_le)

lemma structure_break_total: "candle_valid c \<Longrightarrow> \<exists>out. structure_break cfg tf c trend up down = Inr out"
  using candle_values_pos [of c cfg HIGH]
  by (auto simp: structure_break_def Let_def make_structure_event_def not_le split: option.splits)

lemma detect_breaks_total:
  assumes "\<forall>c\<in>set candles. candle_valid c"
  shows "\<exists>p. detect_structure_breaks candles swings tf cfg = Inr p"
proof -
  have "\<exists>st. for_each (break_step cfg tf swings) candles break_start = Inr st \<and> True"
  proof (rule for_each_total)
    fix c st assume "c \<in> set candles"
    then have "candle_valid c" using assms by blast
    then show "\<exists>st'. break_step cfg tf swings c st = Inr st' \<and> True"
      unfolding break_step_def Let_def bind_result_def using structure_break_total
      by (auto split: sum.splits simp: Inr_Inl_False) (metis sum.distinct(1))
  qed simp
  then show ?thesis by (auto simp: detect_structure_breaks_def)
qed

text \<open>A zone spans the prices of its swings, so its lower bound is positive if the padding leaves room.\<close>

definition zone_sound :: "zone_accumulator \<Rightarrow> bool" where
  "zone_sound z \<longleftrightarrow> 0 < za_minimum z \<and> za_minimum z \<le> za_anchor_price z
     \<and> za_anchor_price z \<le> za_maximum z \<and> za_source_swing_ids z \<noteq> []"

definition zones_cover :: "rat \<Rightarrow> confirmed_swing set \<Rightarrow> zone_accumulator list \<Rightarrow> bool" where
  "zones_cover padding swings zones \<longleftrightarrow>
     (\<forall>z\<in>set zones. zone_sound z)
     \<and> ((\<forall>z\<in>set zones. padding < za_minimum z) \<longleftrightarrow> (\<forall>s\<in>swings. padding < cs_price s))"

lemma zones_cover_scan:
  assumes "zones_cover padding swings zones" "0 < cs_price s"
  shows "zones_cover padding (insert s swings) (scan_step kind tol s zones)"
proof (cases "nearest_zone zones (cs_price s) tol")
  case None
  with assms show ?thesis
    by (auto simp: zones_cover_def scan_step_def new_zone_def zone_sound_def)
next
  case (Some m)
  then obtain d i where m: "m = (d, i)" "i < length zones" by (cases m) (auto dest: nearest_zone_Some)
  let ?z = "merge_zone s (zones ! i)"
  have i: "zones ! i \<in> set zones" using m(2) by simp
  have "zone_sound ?z" using assms i by (auto simp: zones_cover_def zone_sound_def merge_zone_def)
  moreover have "set (zones[i := ?z]) \<subseteq> insert ?z (set zones)" by (rule set_update_subset_insert)
  ultimately have "\<forall>z\<in>set (zones[i := ?z]). zone_sound z"
    using assms(1) unfolding zones_cover_def by blast
  moreover have "(\<forall>z\<in>set (zones[i := ?z]). padding < za_minimum z)
      \<longleftrightarrow> (\<forall>z\<in>set zones. padding < za_minimum z) \<and> padding < cs_price s"
    using m(2) by (auto simp: all_set_conv_all_nth nth_list_update merge_zone_def split: if_splits)
  ultimately show ?thesis
    using assms(1) m Some by (auto simp: zones_cover_def scan_step_def)
qed

lemma zones_cover_fold:
  assumes "zones_cover padding swings zones" "\<forall>s\<in>set xs. 0 < cs_price s"
  shows "zones_cover padding (set xs \<union> swings) (fold (scan_step kind tol) xs zones)"
  using assms
proof (induction xs arbitrary: swings zones)
  case (Cons s xs)
  then show ?case
    using Cons.IH [OF zones_cover_scan [of padding swings zones s kind tol]] by simp
qed simp

lemma zone_result_iff:
  assumes "zone_sound z" "0 \<le> padding"
  shows "(\<exists>p. zone_result padding z = Inr p) \<longleftrightarrow> padding < za_minimum z"
proof -
  have "dsub (za_minimum z) padding \<le> dadd (za_maximum z) padding"
    using assms by (auto simp: dsub_def dadd_def zone_sound_def intro: rnd_mono)
  moreover have "0 < dadd (za_maximum z) padding" using assms by (simp add: dadd_def zone_sound_def)
  moreover have "1 \<le> length (za_source_swing_ids z)"
    using assms(1) by (cases "za_source_swing_ids z") (auto simp: zone_sound_def)
  ultimately show ?thesis
    using assms(1) by (auto simp: zone_result_def make_price_zone_def zone_sound_def not_le)
qed

lemma zone_padding_nonneg: "0 < ms_tick_size cfg \<Longrightarrow> 0 \<le> zone_padding cfg"
  by (simp add: zone_padding_def dmul_nonneg)

lemma build_zones_iff:
  assumes "0 < ms_tick_size cfg" "\<forall>s\<in>set swings. 0 < cs_price s"
  shows "(\<exists>zs. build_zones swings kind cfg = Inr zs) \<longleftrightarrow>
    (\<forall>s\<in>set swings. cs_kind s = zone_swing_kind kind \<longrightarrow> zone_padding cfg < cs_price s)"
proof -
  define xs where "xs = sort_key (\<lambda>s. (cs_confirmed_at s, cs_pivot_index s))
    (filter (\<lambda>s. cs_kind s = zone_swing_kind kind) swings)"
  define zones where "zones = fst (accumulate_zones swings kind cfg)"
  have zones: "zones = fold (scan_step kind (merge_tolerance cfg)) xs []"
    unfolding zones_def accumulate_zones_def xs_def
    by (rule accumulate_scan) (simp_all add: anchors_of_def)
  have "zones_cover (zone_padding cfg) (set xs \<union> {}) zones"
    unfolding zones by (rule zones_cover_fold) (use assms(2) in \<open>auto simp: zones_cover_def xs_def\<close>)
  then have "(\<forall>z\<in>set zones. \<exists>p. zone_result (zone_padding cfg) z = Inr p) \<longleftrightarrow>
      (\<forall>s\<in>set xs. zone_padding cfg < cs_price s)"
    using zone_result_iff [OF _ zone_padding_nonneg [OF assms(1)]] by (simp add: zones_cover_def)
  then show ?thesis by (auto simp: build_zones_def map_result_returns_iff xs_def simp flip: zones_def)
qed

lemma analyze_returns_lemma:
  assumes "structure_config_valid cfg" "\<forall>c\<in>set candles. candle_valid c"
  shows "(\<exists>r. analyze_market_structure candles tf cfg = Inr r) \<longleftrightarrow>
    validate_structure_candles candles tf (ms_tick_size cfg) = Inr ()
    \<and> (\<forall>s\<in>set (snd (detect_swings candles tf cfg)). zone_padding cfg < cs_price s)"
proof -
  have cfg: "0 < ms_tick_size cfg" "0 < ms_right_bars cfg" using assms(1) by (auto simp: structure_config_valid_def)
  let ?s = "snd (detect_swings candles tf cfg)"
  have "0 < cs_price s" if "s \<in> set ?s" for s
  proof -
    have "s \<in> set (confirmed_swings candles tf cfg)" using that by (simp add: confirmed_swings_def)
    then obtain i k where "resolved cfg candles i" "s = swing_at candles tf cfg i k"
      using confirmed_swings_elem [OF cfg(2)] by blast
    then have "cs_price s = swing_value k (candles ! i)" "candles ! i \<in> set candles"
      by (simp_all add: resolved_def)
    then show ?thesis using candle_values_pos assms(2) by metis
  qed
  then have zones: "(\<exists>zs. build_zones ?s kind cfg = Inr zs) \<longleftrightarrow>
      (\<forall>s\<in>set ?s. cs_kind s = zone_swing_kind kind \<longrightarrow> zone_padding cfg < cs_price s)" for kind
    using build_zones_iff [OF cfg(1)] by blast
  obtain events rejections where
    breaks: "detect_structure_breaks candles ?s tf cfg = Inr (events, rejections)"
    using detect_breaks_total [OF assms(2), of ?s tf cfg] by (metis surj_pair)
  have "(\<exists>r. analyze_market_structure candles tf cfg = Inr r) \<longleftrightarrow>
      validate_structure_candles candles tf (ms_tick_size cfg) = Inr ()
      \<and> (\<exists>zs. build_zones ?s SUPPORT cfg = Inr zs) \<and> (\<exists>zs. build_zones ?s RESISTANCE cfg = Inr zs)"
    using breaks by (auto simp: analyze_market_structure_def bind_result_eq_Inr split: prod.splits)
  also have "\<dots> \<longleftrightarrow> validate_structure_candles candles tf (ms_tick_size cfg) = Inr ()
    \<and> (\<forall>s\<in>set ?s. zone_padding cfg < cs_price s)"
  proof -
    have "k = zone_swing_kind SUPPORT \<or> k = zone_swing_kind RESISTANCE" for k
      by (cases k) (simp_all add: zone_swing_kind_def)
    then show ?thesis unfolding zones by blast
  qed
  finally show ?thesis .
qed

text \<open>
  C28: An analysis of valid candles fails in two ways only: the candles are off the tick or have a gap, or a
  swing lies so low that the zone padding reaches zero. The second raise comes from the zone model and
  takes the whole analysis with it.
\<close>

theorem analyze_structure_returns_iff:
  assumes "structure_config_valid cfg" "\<forall>c\<in>set candles. candle_valid c"
  shows "(\<exists>r. analyze_market_structure candles tf cfg = Inr r) \<longleftrightarrow>
    validate_structure_candles candles tf (ms_tick_size cfg) = Inr ()
    \<and> (\<forall>s\<in>set (snd (detect_swings candles tf cfg)). zone_padding cfg < cs_price s)"
  using assms by (rule analyze_returns_lemma)

text \<open>
  C29: The binary search over the anchors loses no zone. The zones accumulated with the sorted anchor index are
  those of the plain scan in which every swing joins the nearest zone in tolerance, the older one on a
  tie, or opens a new one; the rounding of the price differences does not matter.
\<close>

theorem zone_search_exact:
  "fst (accumulate_zones swings kind cfg) =
    fold (scan_step kind (merge_tolerance cfg))
      (sort_key (\<lambda>s. (cs_confirmed_at s, cs_pivot_index s))
        (filter (\<lambda>s. cs_kind s = zone_swing_kind kind) swings)) []"
  unfolding accumulate_zones_def by (rule accumulate_scan) (simp_all add: anchors_of_def)

section \<open>A sample\<close>

definition sample_structure_config :: structure_config where
  "sample_structure_config =
     \<lparr>ms_tick_size = 1, ms_left_bars = 1, ms_right_bars = 1, ms_tie_policy = STRICT, ms_trend_points = 2,
      ms_equality_ticks = 0, ms_break_basis = BREAK_CLOSE, ms_break_buffer_ticks = 0,
      ms_merge_ticks = 1, ms_padding_ticks = 1\<rparr>"

definition sample_bar :: "int \<Rightarrow> price \<Rightarrow> price \<Rightarrow> price \<Rightarrow> price \<Rightarrow> candle" where
  "sample_bar i opn hi lo cls =
     \<lparr>c_timestamp = minutes i, c_open = opn, c_high = hi, c_low = lo, c_close = cls, c_volume = 1\<rparr>"

definition sample_bars :: "candle list" where
  "sample_bars = [sample_bar 0 10 11 9 10, sample_bar 1 10 14 10 12, sample_bar 2 12 13 8 9,
     sample_bar 3 9 12 9 11, sample_bar 4 11 16 10 15]"

lemma sample_structure_valid:
  "structure_config_valid sample_structure_config" "\<forall>c\<in>set sample_bars. candle_valid c"
  "chronological sample_bars"
  by (simp_all add: structure_config_valid_def sample_structure_config_def sample_bars_def sample_bar_def
      candle_valid_iff candle_fields_def chronological_def minutes_def seconds_def)

lemma sample_structure_validated:
  "validate_structure_candles sample_bars ONE_MINUTE (ms_tick_size sample_structure_config) = Inr ()"
proof -
  have small: "\<bar>of_int k :: rat\<bar> < 10 ^ context_precision" if "\<bar>k\<bar> < 100" for k
  proof -
    have "\<bar>of_int k :: rat\<bar> < 100" using that by linarith
    also have "(100::rat) \<le> 10 ^ context_precision" by (simp add: context_precision_def)
    finally show ?thesis .
  qed
  have "tick_multiple 1 (of_int k)" if "\<bar>k\<bar> < 100" for k
    unfolding tick_multiple_def using small [OF that] by simp
  then have "tick_multiple 1 (numeral n)" if "numeral n < (100::int)" for n
    using that by (metis abs_numeral of_int_numeral)
  then show ?thesis
    by (simp add: validate_structure_candles_def validate_tick_candles_Inr sample_structure_config_def
        sample_bars_def sample_bar_def spaced_def minutes_def seconds_def)
qed

lemma sample_swings:
  "snd (detect_swings sample_bars ONE_MINUTE sample_structure_config)
    = [swing_at sample_bars ONE_MINUTE sample_structure_config 1 HIGH,
       swing_at sample_bars ONE_MINUTE sample_structure_config 2 LOW]"
  by (simp add: detect_swings_eq swings_at_def qualifies_fully_def fully_qualifies_def left_window_def
      right_window_def swing_value_def sample_structure_config_def sample_bars_def sample_bar_def
      upt_conv_Cons numeral_2_eq_2)

lemma sample_breaks:
  assumes "cs_kind a = HIGH" "cs_kind b = LOW" "cs_confirmed_at a = minutes 3"
    "cs_confirmed_at b = minutes 4" "cs_price a = 14" "cs_price b = 8"
  shows "detect_structure_breaks sample_bars [a, b] ONE_MINUTE sample_structure_config = Inr
    ([\<lparr>se_type = BREAK, se_direction = STRUCTURE_BULLISH, se_price = 15, se_timestamp = minutes 4,
       se_broken_structure_id = cs_swing_id a, se_confirmation_type = BREAK_CLOSE,
       se_confirmed_at = minutes 5, se_display_alias = None,
       se_trend_before_break = INSUFFICIENT_DATA\<rparr>], [])"
proof -
  have "dmul 1 0 = 0" "dadd 14 0 = 14" "dsub 8 0 = 8" by (simp_all add: dec_evals)
  then show ?thesis using assms
    by (simp add: detect_structure_breaks_def sample_bars_def sample_bar_def break_start_def break_step_def
        Let_def advance_frontier_def refresh_trend_def consume_swing_def pop_broken_def structure_break_def
        stack_top_def record_outcome_def break_buffer_def up_value_def down_value_def
        sample_structure_config_def minutes_def seconds_def make_structure_event_def classify_trend_def
        last_n_def event_type_for_def)
qed

definition sample_structure :: market_structure where
  "sample_structure =
     (case analyze_market_structure sample_bars ONE_MINUTE sample_structure_config of
        Inl _ \<Rightarrow> undefined | Inr r \<Rightarrow> r)"

lemma sample_swing_fields:
  "cs_confirmed_at (swing_at sample_bars ONE_MINUTE sample_structure_config 1 HIGH) = minutes 3"
  "cs_confirmed_at (swing_at sample_bars ONE_MINUTE sample_structure_config 2 LOW) = minutes 4"
  "cs_price (swing_at sample_bars ONE_MINUTE sample_structure_config 1 HIGH) = 14"
  "cs_price (swing_at sample_bars ONE_MINUTE sample_structure_config 2 LOW) = 8"
  by (simp_all add: right_window_def swing_value_def sample_structure_config_def sample_bars_def
      sample_bar_def minutes_def seconds_def)

lemma sample_structure_returned:
  "analyze_market_structure sample_bars ONE_MINUTE sample_structure_config = Inr sample_structure"
proof -
  have "zone_padding sample_structure_config = 1"
    by (simp add: zone_padding_def sample_structure_config_def dec_evals)
  then have "\<exists>r. analyze_market_structure sample_bars ONE_MINUTE sample_structure_config = Inr r"
    unfolding analyze_returns_lemma [OF sample_structure_valid(1,2)] sample_swings
    using sample_structure_validated sample_swing_fields by simp
  then show ?thesis by (auto simp: sample_structure_def)
qed

lemma sample_structure_events:
  "map se_type (mr_structure_events sample_structure) = [BREAK]"
proof -
  have "detect_structure_breaks sample_bars (snd (detect_swings sample_bars ONE_MINUTE sample_structure_config))
      ONE_MINUTE sample_structure_config
    = Inr (mr_structure_events sample_structure, mr_structure_rejections sample_structure)"
    using sample_structure_returned by (rule analyze_market_structure_Inr)
  then show ?thesis unfolding sample_swings using sample_breaks [OF _ _ sample_swing_fields] by simp
qed

theorem swings_never_repaint_witness:
  "validate_structure_candles sample_bars ONE_MINUTE (ms_tick_size sample_structure_config) = Inr ()
   \<and> snd (detect_swings (take 3 sample_bars) ONE_MINUTE sample_structure_config)
     = filter (\<lambda>s. cs_confirmed_at s \<le> c_timestamp (sample_bars ! 2) + timeframe_duration ONE_MINUTE)
        (snd (detect_swings sample_bars ONE_MINUTE sample_structure_config))"
  using swings_never_repaint [OF sample_structure_valid(1) sample_structure_validated, of 3]
    sample_structure_validated by (simp add: sample_bars_def)

theorem structure_breaks_are_reference_witness:
  "validate_structure_candles sample_bars ONE_MINUTE (ms_tick_size sample_structure_config) = Inr ()
   \<and> detect_structure_breaks sample_bars
       (snd (detect_swings sample_bars ONE_MINUTE sample_structure_config)) ONE_MINUTE
       sample_structure_config =
     on_result (\<lambda>st. (bs_events st, bs_rejections st))
       (reference_breaks sample_bars
         (snd (detect_swings sample_bars ONE_MINUTE sample_structure_config)) ONE_MINUTE
         sample_structure_config)"
  using structure_breaks_are_reference [OF sample_structure_valid(1) sample_structure_validated]
    sample_structure_validated by blast

theorem structure_breaks_justified_witness:
  "map se_type (mr_structure_events sample_structure) = [BREAK]
   \<and> break_justified sample_structure_config ONE_MINUTE sample_bars
       (mr_confirmed_swings sample_structure) (hd (mr_structure_events sample_structure))"
proof -
  have "mr_structure_events sample_structure \<noteq> []" using sample_structure_events by auto
  then show ?thesis
    using structure_breaks_justified [OF sample_structure_valid(1) sample_structure_returned]
      sample_structure_events by simp
qed

theorem analyze_structure_returns_iff_witness:
  "(\<exists>r. analyze_market_structure sample_bars ONE_MINUTE sample_structure_config = Inr r) =
    (validate_structure_candles sample_bars ONE_MINUTE (ms_tick_size sample_structure_config) = Inr ()
     \<and> list_all (\<lambda>s. zone_padding sample_structure_config < cs_price s)
         (snd (detect_swings sample_bars ONE_MINUTE sample_structure_config)))"
  using analyze_structure_returns_iff [OF sample_structure_valid(1,2), of ONE_MINUTE]
  by (simp add: list_all_iff)

end
