(* ===== verification/Replay.thy ===== *)
theory Replay
  imports Prelude
begin

text \<open>
  The interface of the append-only states of the replay engines (\<open>engines/incremental_strategy_engine.py\<close>
  and the \<open>hot_*\<close> modules): a state is fed growing sequences of bars and asked for its result after each.
  A state is worth its name when the results are those of the analysis of every sequence from scratch;
  the locale \<open>replay\<close> states what a state has to promise for one call, and proves it for a whole replay.
  The locale \<open>checked_replay\<close> adds the promise of the states that validate their bars as the analysis does.
\<close>

text \<open>Whether the bars a state has seen are the first of those it is given.\<close>

definition prefix_ok :: "'c list \<Rightarrow> 'c list \<Rightarrow> bool" where
  "prefix_ok previous current \<longleftrightarrow>
     length current \<ge> length previous \<and> take (length previous) current = previous"

text \<open>One evaluation after the other: append the bars, then read the result, which may fill a cache.\<close>

primrec replay_results ::
  "('c list \<Rightarrow> 's \<Rightarrow> 's result) \<Rightarrow> ('s \<Rightarrow> 'r \<times> 's) \<Rightarrow> 'c list list \<Rightarrow> 's \<Rightarrow> 'r list result" where
  "replay_results feed read [] st = Inr []"
| "replay_results feed read (bars # inputs) st =
     bind_result (feed bars st) (\<lambda>st.
       case read st of (r, st) \<Rightarrow>
         bind_result (replay_results feed read inputs st) (\<lambda>rs. Inr (r # rs)))"

locale replay =
  fixes feed :: "'c list \<Rightarrow> 's \<Rightarrow> 's result"
    and read :: "'s \<Rightarrow> 'r \<times> 's"
    and analysis :: "'c list \<Rightarrow> 'r result"
    and start :: 's
    and seen :: "'c list \<Rightarrow> 's \<Rightarrow> bool"
    and admissible :: "'c list \<Rightarrow> bool"
  assumes seen_start: "admissible bars \<Longrightarrow> seen [] start"
    and feed_returns: "seen old st \<Longrightarrow> admissible bars \<Longrightarrow> analysis bars = Inr r
      \<Longrightarrow> \<exists>st'. feed bars st = Inr st' \<and> seen bars st'"
    and read_result: "seen bars st \<Longrightarrow> admissible bars \<Longrightarrow> analysis bars = Inr r
      \<Longrightarrow> fst (read st) = r \<and> seen bars (snd (read st))"
begin

lemma results_from:
  assumes "seen old st" "list_all admissible inputs" "map_result analysis inputs = Inr rs"
  shows "replay_results feed read inputs st = Inr rs"
  using assms
proof (induction inputs arbitrary: old st rs)
  case (Cons bars inputs)
  have bars: "admissible bars" using Cons.prems(2) by simp
  obtain r rest where r: "analysis bars = Inr r" "map_result analysis inputs = Inr rest" "rs = r # rest"
    using Cons.prems(3) by (auto simp: bind_result_eq_Inr)
  obtain st' where st': "feed bars st = Inr st'" "seen bars st'"
    using feed_returns [OF Cons.prems(1) bars r(1)] by blast
  obtain r' st'' where read: "read st' = (r', st'')" by fastforce
  then have "r' = r" "seen bars st''" using read_result [OF st'(2) bars r(1)] by simp_all
  then show ?case
    using Cons.IH [of bars st'' rest] Cons.prems(2) st'(1) read r by simp
qed simp

lemma results_of_analysis:
  assumes "list_all admissible inputs" "map_result analysis inputs = Inr rs"
  shows "replay_results feed read inputs start = Inr rs"
proof (cases inputs)
  case (Cons bars rest)
  then have "seen [] start" using assms seen_start [of bars] by simp
  then show ?thesis using results_from assms by blast
qed (use assms in simp)

end

locale checked_replay = replay +
  assumes feed_raises: "seen old st \<Longrightarrow> admissible bars \<Longrightarrow> analysis bars = Inl e
      \<Longrightarrow> \<exists>e'. feed bars st = Inl e'"
begin

lemma analysis_of_results:
  assumes "seen old st" "list_all admissible inputs" "replay_results feed read inputs st = Inr rs"
  shows "map_result analysis inputs = Inr rs"
  using assms
proof (induction inputs arbitrary: old st rs)
  case (Cons bars inputs)
  have bars: "admissible bars" using Cons.prems(2) by simp
  obtain st' where st': "feed bars st = Inr st'" using Cons.prems(3) by (auto simp: bind_result_eq_Inr)
  then obtain r where r: "analysis bars = Inr r"
    using feed_raises [OF Cons.prems(1) bars] by (cases "analysis bars") auto
  then have seen: "seen bars st'" using feed_returns [OF Cons.prems(1) bars] st' by auto
  obtain r' st'' where read: "read st' = (r', st'')" by fastforce
  then have "r' = r" "seen bars st''" using read_result [OF seen bars r] by simp_all
  then show ?case
    using Cons.IH [of bars st''] Cons.prems(2,3) st' read r by (auto simp: bind_result_eq_Inr)
qed simp

lemma results_exact:
  assumes "list_all admissible inputs"
  shows "replay_results feed read inputs start = Inr rs \<longleftrightarrow> map_result analysis inputs = Inr rs"
proof (cases inputs)
  case (Cons bars rest)
  then have "seen [] start" using assms seen_start [of bars] by simp
  then show ?thesis using results_of_analysis analysis_of_results assms by blast
qed simp

end

end
