(* ===== verification/Incremental_Structure.thy ===== *)
theory Incremental_Structure
  imports Market_Structure Replay
begin

text \<open>
  The append-only structure state of the historical replay (\<open>_StructureState\<close> in
  \<open>engines/incremental_strategy_engine.py\<close>) and its indexed version (\<open>HotStructureState\<close> in
  \<open>engines/structure/hot_structure.py\<close>). Both promise the result of \<open>analyze_market_structure\<close> on all
  candles seen, without looking at the old ones again; that promise is proved here.

  The subclass overrides two methods of the base class, so the code of the base class takes them as
  arguments: \<open>append_zone\<close> and \<open>break_context\<close>. The timeframe and the configuration of a state never change
  and are arguments too. An append that raises has no resulting state here. In the program it leaves the
  object partly updated and nothing resets it (\<open>reset_state\<close> of the engine is called by a test only), so the
  theorems speak about a state up to the first append that raises and about no later one.
\<close>

section \<open>The state\<close>

record structure_state = break_log +
  ss_candles :: "candle list"
  ss_candidates :: "swing_candidate list"
  ss_confirmed :: "confirmed_swing list"
  ss_pending :: "nat list"
  ss_zones :: "zone_kind \<Rightarrow> price_zone list"

definition structure_start :: structure_state where
  "structure_start = \<lparr>bs_events = [], bs_rejections = [], bs_broken = {}, ss_candles = [],
     ss_candidates = [], ss_confirmed = [], ss_pending = [], ss_zones = (\<lambda>_. [])\<rparr>"

definition structure_reset :: "'a structure_state_scheme \<Rightarrow> 'a structure_state_scheme" where
  "structure_reset st =
     st\<lparr>bs_events := [], bs_rejections := [], bs_broken := {}, ss_candles := [], ss_candidates := [],
        ss_confirmed := [], ss_pending := [], ss_zones := (\<lambda>_. [])\<rparr>"

section \<open>Zones, one swing at a time\<close>

definition swing_zone_kind :: "swing_kind \<Rightarrow> zone_kind" where
  "swing_zone_kind k = (if k = LOW then SUPPORT else RESISTANCE)"

definition nearest_price_zone :: "price_zone list \<Rightarrow> price \<Rightarrow> rat \<Rightarrow> (rat \<times> nat) option" where
  "nearest_price_zone zones price tolerance =
     min_by (\<lambda>m. m)
       (map (\<lambda>(i, z). (dabs (dsub price (pz_anchor_price z)), i))
         (filter (\<lambda>(i, z). dabs (dsub price (pz_anchor_price z)) \<le> tolerance) (enumerate 0 zones)))"

definition grown_zone :: "zone_kind \<Rightarrow> rat \<Rightarrow> confirmed_swing \<Rightarrow> price_zone \<Rightarrow> price_zone" where
  "grown_zone kind padding swing zone =
     \<lparr>pz_zone_id = pz_zone_id zone, pz_kind = kind,
      pz_lower_bound = dsub (min (dadd (pz_lower_bound zone) padding) (cs_price swing)) padding,
      pz_upper_bound = dadd (max (dsub (pz_upper_bound zone) padding) (cs_price swing)) padding,
      pz_anchor_price = pz_anchor_price zone, pz_touch_count = pz_touch_count zone + 1,
      pz_source_swing_ids = pz_source_swing_ids zone @ [cs_swing_id swing],
      pz_source_pivot_timestamps = pz_source_pivot_timestamps zone @ [cs_pivot_timestamp swing],
      pz_created_at = pz_created_at zone, pz_updated_at = cs_confirmed_at swing\<rparr>"

definition opened_zone :: "zone_kind \<Rightarrow> rat \<Rightarrow> nat \<Rightarrow> confirmed_swing \<Rightarrow> price_zone" where
  "opened_zone kind padding position swing =
     \<lparr>pz_zone_id = zone_kind_value kind @ '':'' @ nat_text position, pz_kind = kind,
      pz_lower_bound = dsub (cs_price swing) padding, pz_upper_bound = dadd (cs_price swing) padding,
      pz_anchor_price = cs_price swing, pz_touch_count = 1,
      pz_source_swing_ids = [cs_swing_id swing],
      pz_source_pivot_timestamps = [cs_pivot_timestamp swing],
      pz_created_at = cs_confirmed_at swing, pz_updated_at = cs_confirmed_at swing\<rparr>"

definition place_swing ::
  "structure_config \<Rightarrow> zone_kind \<Rightarrow> confirmed_swing \<Rightarrow> price_zone list \<Rightarrow> price_zone list result" where
  "place_swing cfg kind swing zones =
     (case nearest_price_zone zones (cs_price swing) (merge_tolerance cfg) of
        Some (_, i) \<Rightarrow>
          bind_result (make_price_zone (grown_zone kind (zone_padding cfg) swing (zones ! i)))
            (\<lambda>z. Inr (zones[i := z]))
      | None \<Rightarrow>
          bind_result (make_price_zone (opened_zone kind (zone_padding cfg) (length zones) swing))
            (\<lambda>z. Inr (zones @ [z])))"

definition append_zone ::
  "structure_config \<Rightarrow> confirmed_swing \<Rightarrow> 'a structure_state_scheme \<Rightarrow> 'a structure_state_scheme result" where
  "append_zone cfg swing st =
     (let kind = swing_zone_kind (cs_kind swing)
      in bind_result (place_swing cfg kind swing (ss_zones st kind))
           (\<lambda>zones. Inr (st\<lparr>ss_zones := (ss_zones st)(kind := zones)\<rparr>)))"

definition state_break_context ::
  "structure_config \<Rightarrow> candle \<Rightarrow> 'a structure_state_scheme
     \<Rightarrow> ((trend_state \<times> confirmed_swing option \<times> confirmed_swing option) \<times> 'a structure_state_scheme) result" where
  "state_break_context cfg candle st =
     Inr (break_context cfg (ss_confirmed st) (bs_broken st) (c_timestamp candle), st)"

section \<open>Appending a candle\<close>

text \<open>One pending candidate after the new candle; the second component collects those still pending.\<close>

definition resolve_pending ::
  "(confirmed_swing \<Rightarrow> 'a structure_state_scheme \<Rightarrow> 'a structure_state_scheme result)
     \<Rightarrow> timeframe \<Rightarrow> structure_config \<Rightarrow> nat \<Rightarrow> 'a structure_state_scheme \<times> nat list
     \<Rightarrow> ('a structure_state_scheme \<times> nat list) result" where
  "resolve_pending zone_hook tf cfg j = (\<lambda>(st, still_pending).
     let candidate = ss_candidates st ! j; i = sw_pivot_index candidate; candles = ss_candles st;
         available = min (ms_right_bars cfg) (length candles - i - 1)
     in if available = sw_observed_right_bars candidate then Inr (st, still_pending @ [j])
        else let left = take (ms_left_bars cfg) (drop (i - ms_left_bars cfg) candles);
                 right = take available (drop (i + 1) candles);
                 value = swing_value (sw_kind candidate);
                 full = (available = ms_right_bars cfg);
                 resolution = (if full
                   then if fully_qualifies (sw_kind candidate) (sw_price candidate) (map value left)
                            (map value right) (ms_tie_policy cfg) then CONFIRMED else REJECTED
                   else PENDING);
                 resolved_at = (if full
                   then Some (c_timestamp (last right) + timeframe_duration tf) else None);
                 st = st\<lparr>ss_candidates := (ss_candidates st)[j :=
                   candidate\<lparr>sw_observed_right_bars := available, sw_resolution := resolution,
                     sw_resolved_at := resolved_at\<rparr>]\<rparr>;
                 still_pending = (if resolution = PENDING then still_pending @ [j] else still_pending)
             in if resolution = CONFIRMED
                then let swing = confirmed_of candidate (the resolved_at) left right
                     in bind_result (zone_hook swing (st\<lparr>ss_confirmed := ss_confirmed st @ [swing]\<rparr>))
                          (\<lambda>st. Inr (st, still_pending))
                else Inr (st, still_pending))"

definition new_candidate ::
  "timeframe \<Rightarrow> structure_config \<Rightarrow> nat \<Rightarrow> swing_kind \<Rightarrow> 'a structure_state_scheme \<Rightarrow> 'a structure_state_scheme" where
  "new_candidate tf cfg index kind st =
     (let pivot = ss_candles st ! index;
          left = take (ms_left_bars cfg) (drop (index - ms_left_bars cfg) (ss_candles st));
          price = swing_value kind pivot
      in if \<not> left_qualifies kind price (map (swing_value kind) left) (ms_tie_policy cfg) then st
         else st\<lparr>ss_candidates := ss_candidates st @
                  [\<lparr>sw_candidate_id = swing_id kind (c_timestamp pivot), sw_kind = kind,
                    sw_pivot_index = index, sw_pivot_timestamp = c_timestamp pivot, sw_price = price,
                    sw_candidate_at = c_timestamp pivot + timeframe_duration tf,
                    sw_required_right_bars = ms_right_bars cfg, sw_observed_right_bars = 0,
                    sw_resolution = PENDING, sw_resolved_at = None\<rparr>],
                 ss_pending := ss_pending st @ [length (ss_candidates st)]\<rparr>)"

text \<open>The loop body of \<open>append\<close>: the pivots the candle resolves and opens, then the break it makes.\<close>

definition append_pivots ::
  "(confirmed_swing \<Rightarrow> 'a structure_state_scheme \<Rightarrow> 'a structure_state_scheme result)
     \<Rightarrow> timeframe \<Rightarrow> structure_config \<Rightarrow> candle \<Rightarrow> 'a structure_state_scheme
     \<Rightarrow> 'a structure_state_scheme result" where
  "append_pivots zone_hook tf cfg candle st =
     (let st = st\<lparr>ss_candles := ss_candles st @ [candle]\<rparr>; index = length (ss_candles st) - 1
      in bind_result (for_each (resolve_pending zone_hook tf cfg) (ss_pending st) (st, []))
           (\<lambda>(st, still_pending).
             let st = st\<lparr>ss_pending := still_pending\<rparr>
             in Inr (if index \<ge> ms_left_bars cfg
                     then fold (new_candidate tf cfg index) [HIGH, LOW] st else st)))"

definition append_candle ::
  "(confirmed_swing \<Rightarrow> 'a structure_state_scheme \<Rightarrow> 'a structure_state_scheme result)
     \<Rightarrow> (candle \<Rightarrow> 'a structure_state_scheme
           \<Rightarrow> ((trend_state \<times> confirmed_swing option \<times> confirmed_swing option)
                \<times> 'a structure_state_scheme) result)
     \<Rightarrow> timeframe \<Rightarrow> structure_config \<Rightarrow> candle \<Rightarrow> 'a structure_state_scheme
     \<Rightarrow> 'a structure_state_scheme result" where
  "append_candle zone_hook context_hook tf cfg candle st =
     bind_result (append_pivots zone_hook tf cfg candle st) (\<lambda>st.
       bind_result (context_hook candle st)
         (\<lambda>(context, st). append_structure_event cfg tf candle context st))"

definition append_candles ::
  "(confirmed_swing \<Rightarrow> 'a structure_state_scheme \<Rightarrow> 'a structure_state_scheme result)
     \<Rightarrow> (candle \<Rightarrow> 'a structure_state_scheme
           \<Rightarrow> ((trend_state \<times> confirmed_swing option \<times> confirmed_swing option)
                \<times> 'a structure_state_scheme) result)
     \<Rightarrow> ('a structure_state_scheme \<Rightarrow> 'a structure_state_scheme)
     \<Rightarrow> timeframe \<Rightarrow> structure_config \<Rightarrow> candle list \<Rightarrow> 'a structure_state_scheme
     \<Rightarrow> 'a structure_state_scheme result" where
  "append_candles zone_hook context_hook reset tf cfg incoming st =
     (let st = (if prefix_ok (ss_candles st) incoming then st else reset st); seen = length (ss_candles st)
      in bind_result (validate_structure_candles (drop (seen - 1) incoming) tf (ms_tick_size cfg)) (\<lambda>_.
           for_each (append_candle zone_hook context_hook tf cfg) (drop seen incoming) st))"

definition structure_append ::
  "timeframe \<Rightarrow> structure_config \<Rightarrow> candle list \<Rightarrow> structure_state \<Rightarrow> structure_state result" where
  "structure_append tf cfg =
     append_candles (append_zone cfg) (state_break_context cfg) structure_reset tf cfg"

definition project_structure ::
  "timeframe \<Rightarrow> structure_config \<Rightarrow> trend_state \<Rightarrow> 'a structure_state_scheme \<Rightarrow> market_structure" where
  "project_structure tf cfg trend st =
     \<lparr>mr_timeframe = tf, mr_config = cfg, mr_candle_count = length (ss_candles st),
      mr_data_cutoff_at = data_cutoff (ss_candles st) tf, mr_candidate_swings = ss_candidates st,
      mr_confirmed_swings = ss_confirmed st, mr_support_candidates = ss_zones st SUPPORT,
      mr_resistance_candidates = ss_zones st RESISTANCE, mr_trend_state = trend,
      mr_structure_events = bs_events st, mr_structure_rejections = bs_rejections st\<rparr>"

definition structure_result :: "timeframe \<Rightarrow> structure_config \<Rightarrow> structure_state \<Rightarrow> market_structure" where
  "structure_result tf cfg st = project_structure tf cfg (classify_trend (ss_confirmed st) cfg) st"

section \<open>Zones one swing at a time are the zones of all swings\<close>

text \<open>
  A zone remembers its bounds only with the padding applied, and takes it off again to grow. That is exact
  when the context does not round the prices and the padded prices.
\<close>

definition exact_padding :: "rat \<Rightarrow> price \<Rightarrow> bool" where
  "exact_padding padding p \<longleftrightarrow> rnd p = p \<and> rnd (p - padding) = p - padding \<and> rnd (p + padding) = p + padding"

definition zone_of :: "rat \<Rightarrow> zone_accumulator \<Rightarrow> price_zone" where
  "zone_of padding z =
     \<lparr>pz_zone_id = za_zone_id z, pz_kind = za_kind z,
      pz_lower_bound = dsub (za_minimum z) padding, pz_upper_bound = dadd (za_maximum z) padding,
      pz_anchor_price = za_anchor_price z, pz_touch_count = length (za_source_swing_ids z),
      pz_source_swing_ids = za_source_swing_ids z,
      pz_source_pivot_timestamps = za_source_pivot_timestamps z,
      pz_created_at = za_created_at z, pz_updated_at = za_updated_at z\<rparr>"

definition scanned_zones :: "structure_config \<Rightarrow> zone_kind \<Rightarrow> confirmed_swing list \<Rightarrow> zone_accumulator list" where
  "scanned_zones cfg kind swings = fold (scan_step kind (merge_tolerance cfg)) swings []"

definition placed_zones :: "structure_config \<Rightarrow> zone_kind \<Rightarrow> confirmed_swing list \<Rightarrow> price_zone list" where
  "placed_zones cfg kind swings = map (zone_of (zone_padding cfg)) (scanned_zones cfg kind swings)"

definition zone_exact :: "rat \<Rightarrow> zone_kind \<Rightarrow> zone_accumulator \<Rightarrow> bool" where
  "zone_exact padding kind z \<longleftrightarrow>
     zone_sound z \<and> za_kind z = kind \<and> exact_padding padding (za_minimum z)
     \<and> exact_padding padding (za_maximum z)"

lemma zone_exact_scan:
  assumes "\<forall>z\<in>set zones. zone_exact padding kind z" "0 < cs_price s" "exact_padding padding (cs_price s)"
  shows "\<forall>z\<in>set (scan_step kind tol s zones). zone_exact padding kind z"
proof (cases "nearest_zone zones (cs_price s) tol")
  case None
  with assms show ?thesis by (auto simp: scan_step_def new_zone_def zone_exact_def zone_sound_def)
next
  case (Some m)
  then obtain d i where m: "m = (d, i)" "i < length zones" by (cases m) (auto dest: nearest_zone_Some)
  then have "zone_exact padding kind (zones ! i)" using assms(1) by simp
  then have "zone_exact padding kind (merge_zone s (zones ! i))"
    using assms(2,3) by (auto simp: zone_exact_def zone_sound_def merge_zone_def min_def max_def)
  moreover have "set (zones[i := merge_zone s (zones ! i)]) \<subseteq> insert (merge_zone s (zones ! i)) (set zones)"
    by (rule set_update_subset_insert)
  ultimately show ?thesis using assms(1) m(1) Some by (auto simp: scan_step_def)
qed

lemma scanned_zones_exact:
  assumes "\<forall>s\<in>set swings. 0 < cs_price s \<and> exact_padding padding (cs_price s)"
  shows "\<forall>z\<in>set (scanned_zones cfg kind swings). zone_exact padding kind z"
  using assms
proof (induction swings rule: rev_induct)
  case (snoc s swings)
  then show ?case
    using zone_exact_scan [of "scanned_zones cfg kind swings" padding kind s] by (simp add: scanned_zones_def)
qed (simp add: scanned_zones_def)

lemma scanned_zones_cover:
  assumes "\<forall>s\<in>set swings. 0 < cs_price s"
  shows "zones_cover padding (set swings) (scanned_zones cfg kind swings)"
  using zones_cover_fold [of padding "{}" "[]" swings] assms
  by (simp add: scanned_zones_def zones_cover_def)

lemma nearest_price_zone_of: "nearest_price_zone (map (zone_of padding) zones) p tol = nearest_zone zones p tol"
proof -
  have "enumerate 0 (map (zone_of padding) zones) = map (\<lambda>(i, z). (i, zone_of padding z)) (enumerate 0 zones)"
    by (simp add: enumerate_eq_zip zip_map2)
  moreover have "pz_anchor_price (zone_of padding z) = za_anchor_price z" for z by (simp add: zone_of_def)
  ultimately show ?thesis
    by (simp add: nearest_price_zone_def nearest_zone_def filter_map comp_def case_prod_unfold)
qed

lemma grown_zone_of:
  assumes "zone_exact padding kind z"
  shows "grown_zone kind padding s (zone_of padding z) = zone_of padding (merge_zone s z)"
  using assms
  by (simp add: grown_zone_def zone_of_def merge_zone_def zone_exact_def exact_padding_def dsub_def dadd_def)

lemma opened_zone_of: "opened_zone kind padding n s = zone_of padding (new_zone kind n s)"
  by (simp add: opened_zone_def zone_of_def new_zone_def)

lemma make_zone_of:
  assumes "zone_sound z" "0 \<le> padding"
  shows "make_price_zone (zone_of padding z) =
    (if padding < za_minimum z then Inr (zone_of padding z) else Inl (ValidationError ''price zone field''))"
proof -
  have "dsub (za_minimum z) padding \<le> dadd (za_maximum z) padding"
    using assms by (auto simp: dsub_def dadd_def zone_sound_def intro: rnd_mono)
  moreover have "0 < dadd (za_maximum z) padding" using assms by (simp add: dadd_def zone_sound_def)
  moreover have "1 \<le> length (za_source_swing_ids z)"
    using assms(1) by (cases "za_source_swing_ids z") (auto simp: zone_sound_def)
  ultimately show ?thesis
    using assms(1) by (auto simp: make_price_zone_def zone_sound_def zone_of_def not_le)
qed

lemma place_swing_scan:
  assumes "0 < ms_tick_size cfg" "\<forall>s\<in>set (swings @ [x]). 0 < cs_price s \<and> exact_padding (zone_padding cfg) (cs_price s)"
    and "\<forall>s\<in>set swings. zone_padding cfg < cs_price s"
  shows "place_swing cfg kind x (placed_zones cfg kind swings) =
    (if zone_padding cfg < cs_price x then Inr (placed_zones cfg kind (swings @ [x]))
     else Inl (ValidationError ''price zone field''))"
proof -
  let ?pad = "zone_padding cfg" and ?zs = "scanned_zones cfg kind swings" and ?tol = "merge_tolerance cfg"
  have pad: "0 \<le> ?pad" using assms(1) by (rule zone_padding_nonneg)
  have exact: "\<forall>z\<in>set ?zs. zone_exact ?pad kind z" using assms(2) by (intro scanned_zones_exact) simp
  have room: "\<forall>z\<in>set ?zs. ?pad < za_minimum z"
    using scanned_zones_cover [of swings ?pad cfg kind] assms(2,3) by (simp add: zones_cover_def)
  have next_zones: "placed_zones cfg kind (swings @ [x]) = map (zone_of ?pad) (scan_step kind ?tol x ?zs)"
    by (simp add: placed_zones_def scanned_zones_def)
  have nearest: "nearest_price_zone (placed_zones cfg kind swings) (cs_price x) ?tol = nearest_zone ?zs (cs_price x) ?tol"
    by (simp add: placed_zones_def nearest_price_zone_of)
  show ?thesis
  proof (cases "nearest_zone ?zs (cs_price x) ?tol")
    case None
    have "zone_sound (new_zone kind n x)" for n using assms(2) by (simp add: zone_sound_def new_zone_def)
    then have "make_price_zone (opened_zone kind ?pad (length ?zs) x) =
        (if ?pad < cs_price x then Inr (zone_of ?pad (new_zone kind (length ?zs) x))
         else Inl (ValidationError ''price zone field''))"
      unfolding opened_zone_of using make_zone_of [OF _ pad] by (simp add: new_zone_def)
    with None show ?thesis
      by (simp add: place_swing_def nearest next_zones scan_step_def) (simp add: placed_zones_def)
  next
    case (Some m)
    then obtain d i where m: "m = (d, i)" "i < length ?zs" by (cases m) (auto dest: nearest_zone_Some)
    let ?z = "merge_zone x (?zs ! i)"
    have z: "zone_exact ?pad kind (?zs ! i)" "?pad < za_minimum (?zs ! i)" using exact room m(2) by simp_all
    then have "zone_sound ?z" using assms(2) by (auto simp: zone_exact_def zone_sound_def merge_zone_def)
    moreover have "?pad < za_minimum ?z \<longleftrightarrow> ?pad < cs_price x" using z(2) by (simp add: merge_zone_def)
    ultimately have "make_price_zone (grown_zone kind ?pad x (placed_zones cfg kind swings ! i)) =
        (if ?pad < cs_price x then Inr (zone_of ?pad ?z) else Inl (ValidationError ''price zone field''))"
      using make_zone_of [OF _ pad] m(2) grown_zone_of [OF z(1)] by (simp add: placed_zones_def)
    with Some m show ?thesis
      by (simp add: place_swing_def nearest next_zones scan_step_def) (simp add: placed_zones_def map_update)
  qed
qed

section \<open>Pending candidates\<close>

text \<open>The pivots of the candidates, in order, and the positions of those whose right window is open.\<close>

definition left_pivots :: "structure_config \<Rightarrow> candle list \<Rightarrow> (nat \<times> swing_kind) list" where
  "left_pivots cfg candles =
     concat (map (\<lambda>i. map (Pair i) (filter (qualifies_left cfg candles i) [HIGH, LOW]))
       [ms_left_bars cfg..<length candles])"

definition open_positions :: "structure_config \<Rightarrow> candle list \<Rightarrow> nat list" where
  "open_positions cfg candles =
     filter (\<lambda>j. \<not> resolved cfg candles (fst (left_pivots cfg candles ! j))) [0..<length (left_pivots cfg candles)]"

lemma candidates_of_pivots:
  assumes "0 < ms_right_bars cfg"
  shows "fst (detect_swings candles tf cfg)
    = map (\<lambda>(i, k). candidate_at candles tf cfg i k) (left_pivots cfg candles)"
  unfolding detect_swings_eq [OF assms] left_pivots_def map_concat map_map comp_def
    candidates_at_def [abs_def] fst_conv prod.case ..

lemma left_pivots_bounds:
  "(i, k) \<in> set (left_pivots cfg candles) \<Longrightarrow> ms_left_bars cfg \<le> i \<and> i < length candles"
  by (auto simp: left_pivots_def)

lemma qualifies_left_prefix:
  "ms_left_bars cfg \<le> i \<Longrightarrow> i < length candles \<Longrightarrow>
    qualifies_left cfg (candles @ rest) i k = qualifies_left cfg candles i k"
  by (simp add: qualifies_left_def left_window_def nth_append)

lemma left_pivots_snoc:
  "left_pivots cfg (candles @ [c]) = left_pivots cfg candles @
     (if ms_left_bars cfg \<le> length candles
      then map (Pair (length candles)) (filter (qualifies_left cfg (candles @ [c]) (length candles)) [HIGH, LOW])
      else [])"
proof -
  let ?p = "\<lambda>cs i. map (Pair i) (filter (qualifies_left cfg cs i) [HIGH, LOW])"
  have same: "map (?p (candles @ [c])) [ms_left_bars cfg..<length candles]
      = map (?p candles) [ms_left_bars cfg..<length candles]"
  proof (rule map_cong [OF refl])
    fix i assume "i \<in> set [ms_left_bars cfg..<length candles]"
    then have "qualifies_left cfg (candles @ [c]) i = qualifies_left cfg candles i"
      using qualifies_left_prefix [of cfg i candles "[c]"] by auto
    then show "?p (candles @ [c]) i = ?p candles i" by (simp only:)
  qed
  have "[ms_left_bars cfg..<length (candles @ [c])] = [ms_left_bars cfg..<length candles]
      @ (if ms_left_bars cfg \<le> length candles then [length candles] else [])"
    by simp
  then show ?thesis
    unfolding left_pivots_def by (simp only: map_append concat_append same) (cases "ms_left_bars cfg \<le> length candles"; simp)
qed

lemma resolve_pending_step:
  assumes "ss_candles st = candles @ [c]" "ss_candidates st ! j = candidate_at candles tf cfg i k"
    and "i < length candles" "\<not> resolved cfg candles i" "0 < ms_right_bars cfg"
  shows "resolve_pending hook tf cfg j (st, still) =
    (let st' = st\<lparr>ss_candidates := (ss_candidates st)[j := candidate_at (candles @ [c]) tf cfg i k]\<rparr>
     in if resolved cfg (candles @ [c]) i \<and> qualifies_fully cfg (candles @ [c]) i k
        then bind_result (hook (swing_at (candles @ [c]) tf cfg i k)
               (st'\<lparr>ss_confirmed := ss_confirmed st @ [swing_at (candles @ [c]) tf cfg i k]\<rparr>))
             (\<lambda>st. Inr (st, still))
        else Inr (st', if resolved cfg (candles @ [c]) i then still else still @ [j]))"
proof -
  let ?cs = "candles @ [c]"
  have old: "min (ms_right_bars cfg) (length candles - i - 1) = length candles - i - 1"
    using assms(3,4) by (simp add: resolved_def)
  have full: "min (ms_right_bars cfg) (length ?cs - i - 1) = ms_right_bars cfg \<longleftrightarrow> resolved cfg ?cs i"
    using assms(3) by (auto simp: resolved_def)
  have moved: "min (ms_right_bars cfg) (length ?cs - i - 1) \<noteq> length candles - i - 1"
    using assms(3-5) by (auto simp: resolved_def)
  have nth: "?cs ! i = candles ! i" using assms(3) by (simp add: nth_append)
  have cand: "(candidate_at candles tf cfg i k)\<lparr>
      sw_observed_right_bars := min (ms_right_bars cfg) (length ?cs - i - 1),
      sw_resolution := (if resolved cfg ?cs i then if qualifies_fully cfg ?cs i k then CONFIRMED else REJECTED
        else PENDING),
      sw_resolved_at := (if resolved cfg ?cs i
        then Some (c_timestamp (last (right_window cfg ?cs i)) + timeframe_duration tf) else None)\<rparr>
    = candidate_at ?cs tf cfg i k"
    by (simp add: candidate_at_def nth)
  have swing: "confirmed_of (candidate_at candles tf cfg i k)
      (c_timestamp (last (right_window cfg ?cs i)) + timeframe_duration tf)
      (left_window cfg ?cs i) (right_window cfg ?cs i) = swing_at ?cs tf cfg i k"
    by (simp add: swing_at_def confirmed_of_def candidate_at_def nth)
  have price: "sw_price (candidate_at candles tf cfg i k) = swing_value k (?cs ! i)"
    by (simp add: candidate_at_def nth)
  have fields: "sw_pivot_index (candidate_at candles tf cfg i k) = i"
    "sw_kind (candidate_at candles tf cfg i k) = k"
    "sw_observed_right_bars (candidate_at candles tf cfg i k) = length candles - i - 1"
    using old by (simp_all add: candidate_at_def)
  show ?thesis
    unfolding resolve_pending_def prod.case Let_def assms(1,2) fields price full
      left_window_def [symmetric] right_window_def [symmetric] qualifies_fully_def [symmetric]
      if_not_P [OF moved] cand
    by (auto simp: swing)
qed

text \<open>
  The loop over the pending candidates places the swings it confirms, in order, and leaves the rest of
  the state alone.
\<close>

definition place_one ::
  "structure_config \<Rightarrow> confirmed_swing \<Rightarrow> (zone_kind \<Rightarrow> price_zone list)
     \<Rightarrow> (zone_kind \<Rightarrow> price_zone list) result" where
  "place_one cfg swing zones =
     (let kind = swing_zone_kind (cs_kind swing)
      in on_result (\<lambda>zs. zones(kind := zs)) (place_swing cfg kind swing (zones kind)))"

lemma append_zone_place:
  "append_zone cfg s st = on_result (\<lambda>zs. st\<lparr>ss_zones := zs\<rparr>) (place_one cfg s (ss_zones st))"
  by (auto simp: append_zone_def place_one_def Let_def on_result_def bind_result_def split: sum.splits)

definition newly_confirmed ::
  "timeframe \<Rightarrow> structure_config \<Rightarrow> candle list \<Rightarrow> nat \<times> swing_kind \<Rightarrow> confirmed_swing list" where
  "newly_confirmed tf cfg candles = (\<lambda>(i, k).
     if resolved cfg candles i \<and> qualifies_fully cfg candles i k then [swing_at candles tf cfg i k] else [])"

definition advanced ::
  "structure_state \<Rightarrow> swing_candidate list \<Rightarrow> confirmed_swing list \<Rightarrow> (zone_kind \<Rightarrow> price_zone list)
     \<Rightarrow> structure_state" where
  "advanced st candidates swings zones =
     st\<lparr>ss_candidates := candidates, ss_confirmed := ss_confirmed st @ swings, ss_zones := zones\<rparr>"

lemma advanced_id: "advanced st (ss_candidates st) [] (ss_zones st) = st"
  by (simp add: advanced_def)

lemma advanced_advanced:
  "advanced (advanced st cands swings zones) cands' swings' zones' = advanced st cands' (swings @ swings') zones'"
  by (simp add: advanced_def)

lemma advanced_fields [simp]:
  "ss_candles (advanced st cands swings zones) = ss_candles st"
  "ss_candidates (advanced st cands swings zones) = cands"
  "ss_confirmed (advanced st cands swings zones) = ss_confirmed st @ swings"
  "ss_zones (advanced st cands swings zones) = zones"
  "ss_pending (advanced st cands swings zones) = ss_pending st"
  "break_log.truncate (advanced st cands swings zones) = break_log.truncate st"
  by (simp_all add: advanced_def break_log.truncate_def)

lemma resolve_pending_place:
  assumes "ss_candles st = candles @ [c]" "ss_candidates st ! j = candidate_at candles tf cfg i k"
    and "i < length candles" "\<not> resolved cfg candles i" "0 < ms_right_bars cfg"
  shows "resolve_pending (append_zone cfg) tf cfg j (st, still) =
    bind_result (for_each (place_one cfg) (newly_confirmed tf cfg (candles @ [c]) (i, k)) (ss_zones st))
      (\<lambda>zones. Inr
        (advanced st ((ss_candidates st)[j := candidate_at (candles @ [c]) tf cfg i k])
           (newly_confirmed tf cfg (candles @ [c]) (i, k)) zones,
         if resolved cfg (candles @ [c]) i then still else still @ [j]))"
proof (cases "resolved cfg (candles @ [c]) i \<and> qualifies_fully cfg (candles @ [c]) i k")
  case True
  then show ?thesis
    unfolding resolve_pending_step [OF assms]
    by (cases "place_one cfg (swing_at (candles @ [c]) tf cfg i k) (ss_zones st)")
      (simp_all add: Let_def append_zone_place newly_confirmed_def advanced_def)
next
  case False
  then show ?thesis
    unfolding resolve_pending_step [OF assms]
    by (auto simp: Let_def newly_confirmed_def advanced_def)
qed

lemma pending_loop:
  assumes "0 < ms_right_bars cfg" "ss_candles st = candles @ [c]" "distinct js"
    and "\<forall>j\<in>set js. fst (ps ! j) < length candles \<and> \<not> resolved cfg candles (fst (ps ! j))"
    and "\<forall>j\<in>set js. ss_candidates st ! j = (case ps ! j of (i, k) \<Rightarrow> candidate_at candles tf cfg i k)"
  shows "for_each (resolve_pending (append_zone cfg) tf cfg) js (st, still) =
    bind_result (for_each (place_one cfg)
        (concat (map (\<lambda>j. newly_confirmed tf cfg (candles @ [c]) (ps ! j)) js)) (ss_zones st))
      (\<lambda>zones. Inr
        (advanced st
           (fold (\<lambda>j xs. xs[j := (case ps ! j of (i, k) \<Rightarrow> candidate_at (candles @ [c]) tf cfg i k)]) js (ss_candidates st))
           (concat (map (\<lambda>j. newly_confirmed tf cfg (candles @ [c]) (ps ! j)) js)) zones,
         still @ filter (\<lambda>j. \<not> resolved cfg (candles @ [c]) (fst (ps ! j))) js))"
  using assms(2-5)
proof (induction js arbitrary: st still)
  case Nil
  then show ?case by (simp add: advanced_id)
next
  case (Cons j js)
  obtain i k where ik: "ps ! j = (i, k)" by fastforce
  let ?new = "newly_confirmed tf cfg (candles @ [c]) (i, k)"
  let ?xs = "(ss_candidates st)[j := candidate_at (candles @ [c]) tf cfg i k]"
  have step: "resolve_pending (append_zone cfg) tf cfg j (st, still) =
    bind_result (for_each (place_one cfg) ?new (ss_zones st))
      (\<lambda>zones. Inr (advanced st ?xs ?new zones,
         if resolved cfg (candles @ [c]) i then still else still @ [j]))"
    using Cons.prems ik assms(1) by (intro resolve_pending_place) auto
  show ?case
  proof (cases "for_each (place_one cfg) ?new (ss_zones st)")
    case (Inl e)
    then show ?thesis by (simp add: step ik for_each_append)
  next
    case (Inr zones)
    have "\<forall>j\<in>set js. ss_candidates (advanced st ?xs ?new zones) ! j
        = (case ps ! j of (i, k) \<Rightarrow> candidate_at candles tf cfg i k)"
    proof
      fix j' assume j': "j' \<in> set js"
      then have "j' \<noteq> j" using Cons.prems(2) by auto
      then show "ss_candidates (advanced st ?xs ?new zones) ! j'
          = (case ps ! j' of (i, k) \<Rightarrow> candidate_at candles tf cfg i k)"
        using Cons.prems(4) j' by simp
    qed
    then show ?thesis
      using Cons.IH [of "advanced st ?xs ?new zones"] Cons.prems(1-3) Inr
      by (simp add: step ik for_each_append advanced_advanced)
  qed
qed

section \<open>One more candle\<close>

lemma concat_single:
  "concat (map (\<lambda>i. if i = a then f i else []) [l..<n]) = (if l \<le> a \<and> a < n then f a else [])"
  by (induction n) auto

lemma concat_filter_concat:
  "concat (map f (filter p (concat xss))) = concat (map (\<lambda>xs. concat (map f (filter p xs))) xss)"
  by (induction xss) simp_all

lemma concat_nth: "concat (map (\<lambda>j. f (xs ! j)) (filter (\<lambda>j. p (xs ! j)) [0..<length xs])) = concat (map f (filter p xs))"
proof -
  have "map (\<lambda>j. f (xs ! j)) (filter (\<lambda>j. p (xs ! j)) [0..<length xs]) = map f (filter p (map ((!) xs) [0..<length xs]))"
    by (simp add: filter_map comp_def del: map_nth)
  then show ?thesis by (simp only: map_nth)
qed

definition swings_by ::
  "timeframe \<Rightarrow> structure_config \<Rightarrow> candle list \<Rightarrow> candle \<Rightarrow> confirmed_swing list" where
  "swings_by tf cfg candles c =
     (if ms_left_bars cfg + ms_right_bars cfg \<le> length candles
      then swings_at (candles @ [c]) tf cfg (length candles - ms_right_bars cfg) else [])"

lemma confirmed_swings_snoc:
  assumes "0 < ms_right_bars cfg"
  shows "confirmed_swings (candles @ [c]) tf cfg = confirmed_swings candles tf cfg @ swings_by tf cfg candles c"
proof -
  have "confirmed_swings candles tf cfg
      = concat (map (swings_at (candles @ [c]) tf cfg) [ms_left_bars cfg..<length candles - ms_right_bars cfg])"
    using confirmed_swings_take [OF assms, of "length candles" "candles @ [c]" tf] by simp
  then show ?thesis
    by (auto simp: confirmed_swings_def detect_swings_eq [OF assms] swings_by_def Suc_diff_le not_le)
qed

lemma newly_confirmed_pivots:
  assumes "0 < ms_right_bars cfg" "ms_left_bars cfg \<le> i" "i < length candles"
  shows "concat (map (newly_confirmed tf cfg (candles @ [c]))
      (filter (\<lambda>p. \<not> resolved cfg candles (fst p)) (map (Pair i) (filter (qualifies_left cfg candles i) [HIGH, LOW]))))
    = (if i = length candles - ms_right_bars cfg \<and> ms_right_bars cfg \<le> length candles
       then swings_at (candles @ [c]) tf cfg i else [])"
proof -
  have left: "qualifies_fully cfg (candles @ [c]) i k \<Longrightarrow> qualifies_left cfg candles i k" for k
    using qualifies_left_prefix [OF assms(2,3), of "[c]" k] fully_imp_left
    unfolding qualifies_fully_def qualifies_left_def by blast
  have now: "i = length candles - ms_right_bars cfg \<and> ms_right_bars cfg \<le> length candles
      \<longleftrightarrow> resolved cfg (candles @ [c]) i \<and> \<not> resolved cfg candles i"
    using assms(3) by (auto simp: resolved_def)
  show ?thesis unfolding now using left
    by (auto simp: newly_confirmed_def swings_at_def)
qed

lemma newly_confirmed_open:
  assumes "0 < ms_right_bars cfg"
  shows "concat (map (\<lambda>j. newly_confirmed tf cfg (candles @ [c]) (left_pivots cfg candles ! j)) (open_positions cfg candles))
    = swings_by tf cfg candles c"
proof -
  let ?new = "newly_confirmed tf cfg (candles @ [c])"
  let ?r = "length candles - ms_right_bars cfg"
  have "concat (map ?new (filter (\<lambda>p. \<not> resolved cfg candles (fst p)) (left_pivots cfg candles)))
      = concat (map (\<lambda>i. concat (map ?new (filter (\<lambda>p. \<not> resolved cfg candles (fst p))
          (map (Pair i) (filter (qualifies_left cfg candles i) [HIGH, LOW]))))) [ms_left_bars cfg..<length candles])"
    unfolding left_pivots_def concat_filter_concat map_map comp_def ..
  also have "\<dots> = concat (map (\<lambda>i. if i = ?r then (if ms_right_bars cfg \<le> length candles
      then swings_at (candles @ [c]) tf cfg i else []) else []) [ms_left_bars cfg..<length candles])"
    by (rule arg_cong [where f = concat], rule map_cong [OF refl])
      (simp only: set_upt atLeastLessThan_iff newly_confirmed_pivots [OF assms], auto)
  also have "\<dots> = swings_by tf cfg candles c"
    unfolding concat_single using assms by (auto simp: swings_by_def)
  finally show ?thesis
    unfolding open_positions_def
    by (subst concat_nth [where f = ?new and p = "\<lambda>p. \<not> resolved cfg candles (fst p)"]) simp
qed

lemma open_positions_snoc:
  assumes "0 < ms_right_bars cfg"
  shows "open_positions cfg (candles @ [c]) =
    filter (\<lambda>j. \<not> resolved cfg (candles @ [c]) (fst (left_pivots cfg candles ! j))) (open_positions cfg candles)
    @ [length (left_pivots cfg candles)..<length (left_pivots cfg (candles @ [c]))]"
proof -
  let ?ps = "left_pivots cfg candles" and ?qs = "left_pivots cfg (candles @ [c])"
  obtain new where qs: "?qs = ?ps @ new" and new: "\<forall>p\<in>set new. fst p = length candles"
    unfolding left_pivots_snoc by (auto split: if_splits)
  have keep: "filter (\<lambda>j. \<not> resolved cfg (candles @ [c]) (fst (?qs ! j))) [0..<length ?ps]
      = filter (\<lambda>j. \<not> resolved cfg (candles @ [c]) (fst (?ps ! j))) (open_positions cfg candles)"
    unfolding open_positions_def filter_filter qs
    by (rule filter_cong) (auto simp: nth_append resolved_def)
  have "filter (\<lambda>j. \<not> resolved cfg (candles @ [c]) (fst (?qs ! j))) [length ?ps..<length ?qs] = [length ?ps..<length ?qs]"
  proof (rule filter_True, rule ballI)
    fix j assume "j \<in> set [length ?ps..<length ?qs]"
    then have "?qs ! j \<in> set new" unfolding qs by (auto simp: nth_append)
    then show "\<not> resolved cfg (candles @ [c]) (fst (?qs ! j))" using new assms by (simp add: resolved_def)
  qed
  moreover have "[0..<length ?qs] = [0..<length ?ps] @ [length ?ps..<length ?qs]"
    using upt_add_eq_append [of 0 "length ?ps" "length new"] by (simp add: qs)
  ultimately show ?thesis
    using keep by (simp add: open_positions_def [of cfg "candles @ [c]"])
qed

text \<open>The candidates after the loop are those of the longer sequence, at the old pivots.\<close>

lemma fold_update_nth:
  "i < length xs \<Longrightarrow> fold (\<lambda>j xs. xs[j := f j]) js xs ! i = (if i \<in> set js then f i else xs ! i)"
  by (induction js arbitrary: xs) (auto simp: nth_list_update)

lemma length_fold_update [simp]: "length (fold (\<lambda>j xs. xs[j := f j]) js xs) = length xs"
  by (induction js arbitrary: xs) auto

lemma candidate_at_prefix:
  assumes "resolved cfg candles i" "0 < ms_right_bars cfg" "ms_left_bars cfg \<le> i"
  shows "candidate_at (candles @ rest) tf cfg i k = candidate_at candles tf cfg i k"
proof -
  have "i < length candles" using assms(1) by (simp add: resolved_def)
  then have "(candles @ rest) ! i = candles ! i" by (simp add: nth_append)
  moreover have "min (ms_right_bars cfg) (length (candles @ rest) - i - 1) = min (ms_right_bars cfg) (length candles - i - 1)"
    using assms(1) by (simp add: resolved_def)
  ultimately show ?thesis
    by (simp add: candidate_at_def qualifies_fully_def resolved_prefix [OF assms] assms(1))
qed

lemma candidates_advance:
  assumes "0 < ms_right_bars cfg"
  shows "fold (\<lambda>j xs. xs[j := (case left_pivots cfg candles ! j of (i, k) \<Rightarrow> candidate_at (candles @ [c]) tf cfg i k)])
      (open_positions cfg candles) (map (\<lambda>(i, k). candidate_at candles tf cfg i k) (left_pivots cfg candles))
    = map (\<lambda>(i, k). candidate_at (candles @ [c]) tf cfg i k) (left_pivots cfg candles)"
proof (rule nth_equalityI)
  fix j assume "j < length (fold (\<lambda>j xs. xs[j := (case left_pivots cfg candles ! j of (i, k) \<Rightarrow> candidate_at (candles @ [c]) tf cfg i k)])
      (open_positions cfg candles) (map (\<lambda>(i, k). candidate_at candles tf cfg i k) (left_pivots cfg candles)))"
  then have j: "j < length (left_pivots cfg candles)" by simp
  obtain i k where ik: "left_pivots cfg candles ! j = (i, k)" by fastforce
  then have "ms_left_bars cfg \<le> i" using j left_pivots_bounds [of i k cfg candles] by (metis nth_mem)
  then show "fold (\<lambda>j xs. xs[j := (case left_pivots cfg candles ! j of (i, k) \<Rightarrow> candidate_at (candles @ [c]) tf cfg i k)])
      (open_positions cfg candles) (map (\<lambda>(i, k). candidate_at candles tf cfg i k) (left_pivots cfg candles)) ! j
    = map (\<lambda>(i, k). candidate_at (candles @ [c]) tf cfg i k) (left_pivots cfg candles) ! j"
    using j ik candidate_at_prefix [OF _ assms, of candles i "[c]" tf k]
    by (auto simp: fold_update_nth open_positions_def)
qed simp

lemma new_candidates_fold:
  assumes "ss_candles st = candles @ [c]" "0 < ms_right_bars cfg"
  shows "fold (new_candidate tf cfg (length candles)) ks st =
    st\<lparr>ss_candidates := ss_candidates st
         @ map (candidate_at (candles @ [c]) tf cfg (length candles)) (filter (qualifies_left cfg (candles @ [c]) (length candles)) ks),
       ss_pending := ss_pending st
         @ [length (ss_candidates st)..<length (ss_candidates st)
             + length (filter (qualifies_left cfg (candles @ [c]) (length candles)) ks)]\<rparr>"
  using assms(1)
proof (induction ks arbitrary: st)
  case (Cons k ks)
  let ?cs = "candles @ [c]" and ?n = "length candles"
  have cand: "candidate_at ?cs tf cfg ?n k = \<lparr>sw_candidate_id = swing_id k (c_timestamp c), sw_kind = k,
      sw_pivot_index = ?n, sw_pivot_timestamp = c_timestamp c, sw_price = swing_value k c,
      sw_candidate_at = c_timestamp c + timeframe_duration tf, sw_required_right_bars = ms_right_bars cfg,
      sw_observed_right_bars = 0, sw_resolution = PENDING, sw_resolved_at = None\<rparr>"
    using assms(2) by (simp add: candidate_at_def resolved_def)
  have "new_candidate tf cfg ?n k st = (if qualifies_left cfg ?cs ?n k
      then st\<lparr>ss_candidates := ss_candidates st @ [candidate_at ?cs tf cfg ?n k],
              ss_pending := ss_pending st @ [length (ss_candidates st)]\<rparr> else st)"
    using Cons.prems by (simp add: new_candidate_def Let_def cand qualifies_left_def left_window_def)
  then show ?case
    using Cons.IH [of "new_candidate tf cfg ?n k st"] Cons.prems
    by (auto simp: upt_conv_Cons simp del: upt_Suc)
qed simp

definition swing_exact :: "structure_config \<Rightarrow> confirmed_swing \<Rightarrow> bool" where
  "swing_exact cfg s \<longleftrightarrow> 0 < cs_price s \<and> exact_padding (zone_padding cfg) (cs_price s)"

definition zone_map :: "structure_config \<Rightarrow> confirmed_swing list \<Rightarrow> zone_kind \<Rightarrow> price_zone list" where
  "zone_map cfg swings kind = placed_zones cfg kind (of_kind (zone_swing_kind kind) swings)"

lemma place_one_zone_map:
  assumes "0 < ms_tick_size cfg" "\<forall>s\<in>set (swings @ [x]). swing_exact cfg s"
    and "\<forall>s\<in>set swings. zone_padding cfg < cs_price s"
  shows "place_one cfg x (zone_map cfg swings) =
    (if zone_padding cfg < cs_price x then Inr (zone_map cfg (swings @ [x]))
     else Inl (ValidationError ''price zone field''))"
proof -
  let ?k = "swing_zone_kind (cs_kind x)"
  have same: "zone_swing_kind ?k = cs_kind x"
    by (cases "cs_kind x") (simp_all add: zone_swing_kind_def swing_zone_kind_def)
  have other: "zone_swing_kind k \<noteq> cs_kind x" if "k \<noteq> ?k" for k
    using that by (cases "cs_kind x"; cases k) (simp_all add: zone_swing_kind_def swing_zone_kind_def)
  have sub: "set (of_kind k swings) \<subseteq> set swings" for k by (auto simp: of_kind_def)
  have "place_swing cfg ?k x (placed_zones cfg ?k (of_kind (cs_kind x) swings)) =
    (if zone_padding cfg < cs_price x then Inr (placed_zones cfg ?k (of_kind (cs_kind x) swings @ [x]))
     else Inl (ValidationError ''price zone field''))"
    by (rule place_swing_scan) (use assms sub in \<open>auto simp: swing_exact_def\<close>)
  moreover have "(zone_map cfg swings)(?k := placed_zones cfg ?k (of_kind (cs_kind x) swings @ [x]))
      = zone_map cfg (swings @ [x])"
  proof
    fix k
    show "((zone_map cfg swings)(?k := placed_zones cfg ?k (of_kind (cs_kind x) swings @ [x]))) k
        = zone_map cfg (swings @ [x]) k"
      using same other [of k] by (cases "k = ?k") (simp_all add: zone_map_def)
  qed
  ultimately show ?thesis by (simp add: place_one_def Let_def zone_map_def [of _ _ ?k] same)
qed

lemma place_all_zone_map:
  assumes "0 < ms_tick_size cfg" "\<forall>s\<in>set (swings @ new). swing_exact cfg s"
    and "\<forall>s\<in>set swings. zone_padding cfg < cs_price s"
  shows "for_each (place_one cfg) new (zone_map cfg swings) =
    (if \<forall>s\<in>set new. zone_padding cfg < cs_price s then Inr (zone_map cfg (swings @ new))
     else Inl (ValidationError ''price zone field''))"
  using assms(2,3)
proof (induction new arbitrary: swings)
  case (Cons x new)
  have "place_one cfg x (zone_map cfg swings) =
    (if zone_padding cfg < cs_price x then Inr (zone_map cfg (swings @ [x]))
     else Inl (ValidationError ''price zone field''))"
    using Cons.prems by (intro place_one_zone_map [OF assms(1)]) auto
  then show ?case using Cons.IH [of "swings @ [x]"] Cons.prems by simp
qed simp

lemma swings_by_confirmed_at:
  assumes "0 < ms_right_bars cfg" "s \<in> set (swings_by tf cfg candles c)"
  shows "cs_confirmed_at s = c_timestamp c + timeframe_duration tf"
proof -
  let ?i = "length candles - ms_right_bars cfg"
  have le: "ms_right_bars cfg \<le> length candles" "s \<in> set (swings_at (candles @ [c]) tf cfg ?i)"
    using assms(2) by (auto simp: swings_by_def split: if_splits)
  then have "resolved cfg (candles @ [c]) ?i" by (simp add: resolved_def)
  then show ?thesis
    using le confirmed_at_eq [OF _ assms(1), of "candles @ [c]" ?i tf]
    by (auto simp: swings_at_def)
qed

lemma for_each_cong:
  "(\<And>x s. x \<in> set xs \<Longrightarrow> f x s = g x s) \<Longrightarrow> for_each f xs s = for_each g xs s"
proof (induction xs arbitrary: s)
  case (Cons x xs)
  then show ?case by (cases "g x s") auto
qed simp

lemma reference_breaks_snoc:
  assumes "0 < ms_right_bars cfg" "chronological (candles @ [c])"
  shows "reference_breaks (candles @ [c]) (confirmed_swings (candles @ [c]) tf cfg) tf cfg =
    bind_result (reference_breaks candles (confirmed_swings candles tf cfg) tf cfg)
      (reference_step cfg tf (confirmed_swings (candles @ [c]) tf cfg) c)"
proof -
  have past: "c_timestamp x < c_timestamp c" if "x \<in> set candles" for x
    using assms(2) that by (auto simp: chronological_def sorted_wrt_append)
  have "reference_step cfg tf (confirmed_swings (candles @ [c]) tf cfg) x st
      = reference_step cfg tf (confirmed_swings candles tf cfg) x st" if "x \<in> set candles" for x st
  proof -
    have "\<not> cs_confirmed_at s \<le> c_timestamp x" if "s \<in> set (swings_by tf cfg candles c)" for s
      using swings_by_confirmed_at [OF assms(1) that] past [OF \<open>x \<in> set candles\<close>]
        timeframe_duration_pos [of tf] by linarith
    then have "filter (\<lambda>s. cs_confirmed_at s \<le> c_timestamp x) (confirmed_swings (candles @ [c]) tf cfg)
        = filter (\<lambda>s. cs_confirmed_at s \<le> c_timestamp x) (confirmed_swings candles tf cfg)"
      unfolding confirmed_swings_snoc [OF assms(1)] by simp
    then show ?thesis by (simp add: reference_step_def break_context_def)
  qed
  then have "for_each (reference_step cfg tf (confirmed_swings (candles @ [c]) tf cfg)) candles st
      = for_each (reference_step cfg tf (confirmed_swings candles tf cfg)) candles st" for st
    by (rule for_each_cong)
  then show ?thesis by (simp add: reference_breaks_def for_each_append bind_result_def split: sum.split)
qed

text \<open>An event touches the log only.\<close>

lemma append_event_frame:
  "append_structure_event cfg tf c ctx st =
    on_result (\<lambda>log. st\<lparr>bs_events := bs_events log, bs_rejections := bs_rejections log, bs_broken := bs_broken log\<rparr>)
      (append_structure_event cfg tf c ctx (break_log.truncate st))"
proof -
  obtain trend up down where ctx: "ctx = (trend, up, down)" by (cases ctx)
  have "record_outcome out st = st\<lparr>bs_events := bs_events log, bs_rejections := bs_rejections log, bs_broken := bs_broken log\<rparr>"
    if "log = record_outcome out (break_log.truncate st)" for out log
    unfolding that by (cases out) (simp_all add: record_outcome_def break_log.truncate_def)
  then show ?thesis
    unfolding append_structure_event_def ctx prod.case
    by (cases "structure_break cfg tf c trend up down") simp_all
qed

text \<open>A state that has seen \<open>candles\<close>: each part is that of the analysis of all of them.\<close>

definition has_seen ::
  "timeframe \<Rightarrow> structure_config \<Rightarrow> candle list \<Rightarrow> structure_state \<Rightarrow> bool" where
  "has_seen tf cfg candles st \<longleftrightarrow>
     ss_candles st = candles \<and> ss_candidates st = fst (detect_swings candles tf cfg)
     \<and> ss_confirmed st = confirmed_swings candles tf cfg
     \<and> ss_pending st = open_positions cfg candles
     \<and> ss_zones st = zone_map cfg (confirmed_swings candles tf cfg)
     \<and> reference_breaks candles (confirmed_swings candles tf cfg) tf cfg = Inr (break_log.truncate st)
     \<and> (\<forall>s\<in>set (confirmed_swings candles tf cfg). zone_padding cfg < cs_price s)"

lemma has_seen_start:
  assumes "0 < ms_right_bars cfg"
  shows "has_seen tf cfg [] structure_start"
  by (auto simp: has_seen_def structure_start_def detect_swings_eq [OF assms] confirmed_swings_def
      open_positions_def left_pivots_def reference_breaks_def break_log.truncate_def zone_map_def
      placed_zones_def scanned_zones_def)

definition before_event :: "timeframe \<Rightarrow> structure_config \<Rightarrow> candle list \<Rightarrow> candle \<Rightarrow> structure_state \<Rightarrow> structure_state" where
  "before_event tf cfg candles c st =
     st\<lparr>ss_candles := candles @ [c], ss_candidates := fst (detect_swings (candles @ [c]) tf cfg),
        ss_confirmed := confirmed_swings (candles @ [c]) tf cfg, ss_pending := open_positions cfg (candles @ [c]),
        ss_zones := zone_map cfg (confirmed_swings (candles @ [c]) tf cfg)\<rparr>"

lemma pending_after:
  assumes "has_seen tf cfg candles st" "0 < ms_tick_size cfg" "0 < ms_right_bars cfg"
    and "\<forall>s\<in>set (confirmed_swings (candles @ [c]) tf cfg). swing_exact cfg s"
  shows "for_each (resolve_pending (append_zone cfg) tf cfg) (ss_pending st)
      (st\<lparr>ss_candles := candles @ [c]\<rparr>, []) =
    (if \<forall>s\<in>set (swings_by tf cfg candles c). zone_padding cfg < cs_price s
     then Inr (advanced (st\<lparr>ss_candles := candles @ [c]\<rparr>)
         (map (\<lambda>(i, k). candidate_at (candles @ [c]) tf cfg i k) (left_pivots cfg candles))
         (swings_by tf cfg candles c) (zone_map cfg (confirmed_swings (candles @ [c]) tf cfg)),
       filter (\<lambda>j. \<not> resolved cfg (candles @ [c]) (fst (left_pivots cfg candles ! j))) (open_positions cfg candles))
     else Inl (ValidationError ''price zone field''))"
proof -
  let ?st = "st\<lparr>ss_candles := candles @ [c]\<rparr>" and ?ps = "left_pivots cfg candles"
  have seen: "ss_candidates st = map (\<lambda>(i, k). candidate_at candles tf cfg i k) ?ps"
      "ss_pending st = open_positions cfg candles" "ss_zones st = zone_map cfg (confirmed_swings candles tf cfg)"
      "\<forall>s\<in>set (confirmed_swings candles tf cfg). zone_padding cfg < cs_price s"
    using assms(1) candidates_of_pivots [OF assms(3), of candles tf] by (simp_all add: has_seen_def)
  have "for_each (resolve_pending (append_zone cfg) tf cfg) (open_positions cfg candles) (?st, []) =
    bind_result (for_each (place_one cfg)
        (concat (map (\<lambda>j. newly_confirmed tf cfg (candles @ [c]) (?ps ! j)) (open_positions cfg candles))) (ss_zones ?st))
      (\<lambda>zones. Inr
        (advanced ?st
           (fold (\<lambda>j xs. xs[j := (case ?ps ! j of (i, k) \<Rightarrow> candidate_at (candles @ [c]) tf cfg i k)])
             (open_positions cfg candles) (ss_candidates ?st))
           (concat (map (\<lambda>j. newly_confirmed tf cfg (candles @ [c]) (?ps ! j)) (open_positions cfg candles))) zones,
         [] @ filter (\<lambda>j. \<not> resolved cfg (candles @ [c]) (fst (?ps ! j))) (open_positions cfg candles)))"
  proof (rule pending_loop [OF assms(3)])
    show "\<forall>j\<in>set (open_positions cfg candles). fst (?ps ! j) < length candles \<and> \<not> resolved cfg candles (fst (?ps ! j))"
    proof
      fix j assume "j \<in> set (open_positions cfg candles)"
      then have "j < length ?ps" "\<not> resolved cfg candles (fst (?ps ! j))" by (auto simp: open_positions_def)
      moreover from this have "fst (?ps ! j) < length candles"
        using left_pivots_bounds [of "fst (?ps ! j)" "snd (?ps ! j)" cfg candles] by simp
      ultimately show "fst (?ps ! j) < length candles \<and> \<not> resolved cfg candles (fst (?ps ! j))" by simp
    qed
    show "\<forall>j\<in>set (open_positions cfg candles). ss_candidates ?st ! j = (case ?ps ! j of (i, k) \<Rightarrow> candidate_at candles tf cfg i k)"
      by (auto simp: seen(1) open_positions_def)
  qed (simp_all add: open_positions_def)
  moreover have "for_each (place_one cfg) (swings_by tf cfg candles c) (zone_map cfg (confirmed_swings candles tf cfg)) =
    (if \<forall>s\<in>set (swings_by tf cfg candles c). zone_padding cfg < cs_price s
     then Inr (zone_map cfg (confirmed_swings (candles @ [c]) tf cfg))
     else Inl (ValidationError ''price zone field''))"
    using place_all_zone_map [OF assms(2), of "confirmed_swings candles tf cfg" "swings_by tf cfg candles c"]
      assms(4) seen(4) by (simp only: confirmed_swings_snoc [OF assms(3)])
  ultimately show ?thesis
    by (simp add: seen(1,2,3) newly_confirmed_open [OF assms(3)] candidates_advance [OF assms(3)])
qed

definition after_pending ::
  "timeframe \<Rightarrow> structure_config \<Rightarrow> candle list \<Rightarrow> candle \<Rightarrow> structure_state \<Rightarrow> structure_state" where
  "after_pending tf cfg candles c st =
     (advanced (st\<lparr>ss_candles := candles @ [c]\<rparr>)
        (map (\<lambda>(i, k). candidate_at (candles @ [c]) tf cfg i k) (left_pivots cfg candles))
        (swings_by tf cfg candles c) (zone_map cfg (confirmed_swings (candles @ [c]) tf cfg)))
      \<lparr>ss_pending := filter (\<lambda>j. \<not> resolved cfg (candles @ [c]) (fst (left_pivots cfg candles ! j)))
         (open_positions cfg candles)\<rparr>"

lemma pivots_after:
  assumes "has_seen tf cfg candles st" "0 < ms_right_bars cfg"
  shows "(if ms_left_bars cfg \<le> length candles
       then fold (new_candidate tf cfg (length candles)) [HIGH, LOW] (after_pending tf cfg candles c st)
       else after_pending tf cfg candles c st)
    = before_event tf cfg candles c st"
proof -
  let ?adv = "after_pending tf cfg candles c st"
  let ?new = "map (candidate_at (candles @ [c]) tf cfg (length candles))
     (filter (qualifies_left cfg (candles @ [c]) (length candles)) [HIGH, LOW])"
  have conf: "ss_confirmed st @ swings_by tf cfg candles c = confirmed_swings (candles @ [c]) tf cfg"
    using assms(1) confirmed_swings_snoc [OF assms(2)] by (simp add: has_seen_def)
  have cands: "fst (detect_swings (candles @ [c]) tf cfg)
      = map (\<lambda>(i, k). candidate_at (candles @ [c]) tf cfg i k) (left_pivots cfg candles)
        @ (if ms_left_bars cfg \<le> length candles then ?new else [])"
    unfolding candidates_of_pivots [OF assms(2)] left_pivots_snoc by (simp del: filter.simps)
  have pend: "open_positions cfg (candles @ [c]) = ss_pending ?adv
      @ (if ms_left_bars cfg \<le> length candles
         then [length (left_pivots cfg candles)..<length (left_pivots cfg candles) + length ?new] else [])"
    unfolding open_positions_snoc [OF assms(2)] after_pending_def by (simp add: left_pivots_snoc del: filter.simps)
  show ?thesis
  proof (cases "ms_left_bars cfg \<le> length candles")
    case True
    have "fold (new_candidate tf cfg (length candles)) [HIGH, LOW] ?adv = before_event tf cfg candles c st"
      unfolding before_event_def cands pend if_P [OF True] conf [symmetric]
      by (subst new_candidates_fold [OF _ assms(2)], simp add: after_pending_def,
          rule structure_state.equality)
        (simp_all add: after_pending_def advanced_def conf del: filter.simps fold_simps)
    with True show ?thesis by (simp only: if_True)
  next
    case False
    have "?adv = before_event tf cfg candles c st"
      unfolding before_event_def cands pend if_not_P [OF False] conf [symmetric]
      by (rule structure_state.equality) (simp_all add: after_pending_def advanced_def conf)
    with False show ?thesis by (simp only: if_False)
  qed
qed

lemma append_pivots_eq:
  assumes "has_seen tf cfg candles st" "0 < ms_tick_size cfg" "0 < ms_right_bars cfg"
    and "\<forall>s\<in>set (confirmed_swings (candles @ [c]) tf cfg). swing_exact cfg s"
  shows "append_pivots (append_zone cfg) tf cfg c st =
    (if \<forall>s\<in>set (swings_by tf cfg candles c). zone_padding cfg < cs_price s
     then Inr (before_event tf cfg candles c st) else Inl (ValidationError ''price zone field''))"
proof -
  have candles: "ss_candles st = candles" using assms(1) by (simp add: has_seen_def)
  have index: "length (ss_candles (st\<lparr>ss_candles := candles @ [c]\<rparr>)) - 1 = length candles"
    "ss_pending (st\<lparr>ss_candles := candles @ [c]\<rparr>) = ss_pending st" by simp_all
  show ?thesis
  proof (cases "\<forall>s\<in>set (swings_by tf cfg candles c). zone_padding cfg < cs_price s")
    case True
    show ?thesis
      unfolding append_pivots_def Let_def candles index pending_after [OF assms] if_P [OF True]
        bind_result_simps prod.case after_pending_def [symmetric] pivots_after [OF assms(1,3)] ..
  next
    case False
    show ?thesis
      unfolding append_pivots_def Let_def candles index pending_after [OF assms] if_not_P [OF False]
        bind_result_simps ..
  qed
qed

lemma append_candle_eq:
  assumes "has_seen tf cfg candles st" "0 < ms_tick_size cfg" "0 < ms_right_bars cfg"
    and "\<forall>s\<in>set (confirmed_swings (candles @ [c]) tf cfg). swing_exact cfg s"
  shows "append_candle (append_zone cfg) (state_break_context cfg) tf cfg c st =
    (if \<forall>s\<in>set (swings_by tf cfg candles c). zone_padding cfg < cs_price s
     then append_structure_event cfg tf c
       (break_context cfg (confirmed_swings (candles @ [c]) tf cfg) (bs_broken st) (c_timestamp c))
       (before_event tf cfg candles c st)
     else Inl (ValidationError ''price zone field''))"
  unfolding append_candle_def append_pivots_eq [OF assms]
  by (simp add: state_break_context_def before_event_def)

lemma append_event_total: "candle_valid c \<Longrightarrow> \<exists>log. append_structure_event cfg tf c ctx st = Inr log"
  using structure_break_total [of c cfg tf "fst ctx" "fst (snd ctx)" "snd (snd ctx)"]
  by (cases ctx) (auto simp: append_structure_event_def)

text \<open>Seeing one more candle.\<close>

lemma has_seen_snoc:
  assumes "has_seen tf cfg candles st" "0 < ms_tick_size cfg" "0 < ms_right_bars cfg"
    and "\<forall>s\<in>set (confirmed_swings (candles @ [c]) tf cfg). swing_exact cfg s"
    and "chronological (candles @ [c])" "candle_valid c"
  shows "if \<forall>s\<in>set (confirmed_swings (candles @ [c]) tf cfg). zone_padding cfg < cs_price s
    then \<exists>st'. append_candle (append_zone cfg) (state_break_context cfg) tf cfg c st = Inr st'
      \<and> has_seen tf cfg (candles @ [c]) st'
    else \<exists>e. append_candle (append_zone cfg) (state_break_context cfg) tf cfg c st = Inl e"
proof -
  let ?swings = "confirmed_swings (candles @ [c]) tf cfg"
  let ?ctx = "break_context cfg ?swings (bs_broken st) (c_timestamp c)"
  let ?b = "before_event tf cfg candles c st"
  have room: "(\<forall>s\<in>set ?swings. zone_padding cfg < cs_price s)
      \<longleftrightarrow> (\<forall>s\<in>set (swings_by tf cfg candles c). zone_padding cfg < cs_price s)"
    using assms(1) by (auto simp: confirmed_swings_snoc [OF assms(3)] has_seen_def)
  show ?thesis
  proof (cases "\<forall>s\<in>set ?swings. zone_padding cfg < cs_price s")
    case True
    obtain log where log: "append_structure_event cfg tf c ?ctx (break_log.truncate st) = Inr log"
      using append_event_total [OF assms(6)] by blast
    have "break_log.truncate ?b = break_log.truncate st"
      by (simp add: before_event_def break_log.truncate_def)
    then have step: "append_candle (append_zone cfg) (state_break_context cfg) tf cfg c st =
        Inr (?b\<lparr>bs_events := bs_events log, bs_rejections := bs_rejections log, bs_broken := bs_broken log\<rparr>)"
      using True room log append_event_frame [of cfg tf c ?ctx ?b] append_candle_eq [OF assms(1-4)] by simp
    have "reference_breaks candles (confirmed_swings candles tf cfg) tf cfg = Inr (break_log.truncate st)"
      using assms(1) by (simp add: has_seen_def)
    then have "reference_breaks (candles @ [c]) ?swings tf cfg = Inr log"
      using log reference_breaks_snoc [OF assms(3,5), of tf]
      by (simp add: reference_step_def break_log.truncate_def)
    moreover have "break_log.truncate (?b\<lparr>bs_events := bs_events log, bs_rejections := bs_rejections log,
        bs_broken := bs_broken log\<rparr>) = log"
      by (simp add: break_log.truncate_def)
    ultimately have "has_seen tf cfg (candles @ [c])
        (?b\<lparr>bs_events := bs_events log, bs_rejections := bs_rejections log, bs_broken := bs_broken log\<rparr>)"
      using True by (simp add: has_seen_def before_event_def)
    with step True show ?thesis by auto
  next
    case False
    then show ?thesis using room append_candle_eq [OF assms(1-4)] by auto
  qed
qed

section \<open>Appending is analyzing\<close>

text \<open>The candles a replay is fed: valid ones whose prices the zone padding does not round.\<close>

definition candles_exact :: "structure_config \<Rightarrow> candle list \<Rightarrow> bool" where
  "candles_exact cfg candles \<longleftrightarrow>
     (\<forall>c\<in>set candles. candle_valid c \<and> exact_padding (zone_padding cfg) (c_high c)
        \<and> exact_padding (zone_padding cfg) (c_low c))"

lemma confirmed_swings_exact:
  assumes "candles_exact cfg candles" "0 < ms_right_bars cfg" "s \<in> set (confirmed_swings candles tf cfg)"
  shows "swing_exact cfg s"
proof -
  obtain i k where "resolved cfg candles i" "s = swing_at candles tf cfg i k"
    using assms(3) confirmed_swings_elem [OF assms(2)] by blast
  then have s: "cs_price s = swing_value k (candles ! i)" "candles ! i \<in> set candles"
    by (simp_all add: resolved_def)
  then have "0 < cs_price s" using assms(1) candle_values_pos by (metis candles_exact_def)
  moreover have "exact_padding (zone_padding cfg) (cs_price s)"
    using assms(1) s by (simp add: candles_exact_def swing_value_def)
  ultimately show ?thesis by (simp add: swing_exact_def)
qed

lemma confirmed_swings_extend:
  assumes "0 < ms_right_bars cfg"
  shows "set (confirmed_swings candles tf cfg) \<subseteq> set (confirmed_swings (candles @ more_candles) tf cfg)"
proof (induction more_candles rule: rev_induct)
  case (snoc c cs)
  then show ?case
    using confirmed_swings_snoc [OF assms, of "candles @ cs" c tf] by auto
qed simp

lemma chronological_prefix: "chronological (xs @ ys) \<Longrightarrow> chronological xs"
  by (simp add: chronological_def sorted_wrt_append)

lemma append_candles_seen:
  assumes "has_seen tf cfg candles st" "structure_config_valid cfg"
    and "candles_exact cfg (candles @ new)" "chronological (candles @ new)"
  shows "if \<forall>s\<in>set (confirmed_swings (candles @ new) tf cfg). zone_padding cfg < cs_price s
    then \<exists>st'. for_each (append_candle (append_zone cfg) (state_break_context cfg) tf cfg) new st = Inr st'
      \<and> has_seen tf cfg (candles @ new) st'
    else \<exists>e. for_each (append_candle (append_zone cfg) (state_break_context cfg) tf cfg) new st = Inl e"
  using assms(1,3,4)
proof (induction new arbitrary: candles st)
  case Nil
  then show ?case by (simp add: has_seen_def)
next
  case (Cons c new)
  have cfg: "0 < ms_tick_size cfg" "0 < ms_right_bars cfg" using assms(2) by (auto simp: structure_config_valid_def)
  have assoc: "candles @ c # new = (candles @ [c]) @ new" by simp
  have exact: "candles_exact cfg (candles @ [c])" using Cons.prems(2) by (auto simp: candles_exact_def)
  have chron: "chronological (candles @ [c])" using Cons.prems(3) chronological_prefix unfolding assoc by blast
  have valid: "candle_valid c" using exact by (simp add: candles_exact_def)
  have swings: "\<forall>s\<in>set (confirmed_swings (candles @ [c]) tf cfg). swing_exact cfg s"
    using confirmed_swings_exact [OF exact cfg(2)] by blast
  note step = has_seen_snoc [OF Cons.prems(1) cfg swings chron valid]
  show ?case
  proof (cases "\<forall>s\<in>set (confirmed_swings (candles @ [c]) tf cfg). zone_padding cfg < cs_price s")
    case True
    then obtain st' where st': "append_candle (append_zone cfg) (state_break_context cfg) tf cfg c st = Inr st'"
        "has_seen tf cfg (candles @ [c]) st'"
      using step by auto
    show ?thesis
      using Cons.IH [OF st'(2)] Cons.prems(2,3) st'(1) by (simp add: assoc del: append_assoc append_Cons)
  next
    case False
    then obtain e where "append_candle (append_zone cfg) (state_break_context cfg) tf cfg c st = Inl e"
      using step unfolding if_not_P [OF False] by blast
    moreover have "\<not> (\<forall>s\<in>set (confirmed_swings (candles @ c # new) tf cfg). zone_padding cfg < cs_price s)"
      using False confirmed_swings_extend [OF cfg(2), of "candles @ [c]" tf new] unfolding assoc by blast
    ultimately show ?thesis by auto
  qed
qed

text \<open>Validating from the last candle seen on is validating everything.\<close>

lemma adjacent_join:
  "xs \<noteq> [] \<Longrightarrow> set (adjacent (xs @ ys)) = set (adjacent xs) \<union> set (adjacent (last xs # ys))"
proof (induction xs rule: induct_list012)
  case (3 x y zs)
  then show ?case by simp
qed auto

lemma validate_rest:
  assumes "0 < ms_tick_size cfg" "validate_structure_candles old tf (ms_tick_size cfg) = Inr ()"
  shows "validate_structure_candles (drop (length old - 1) (old @ new)) tf (ms_tick_size cfg) = Inr u
    \<longleftrightarrow> validate_structure_candles (old @ new) tf (ms_tick_size cfg) = Inr u"
proof (cases "old = []")
  case False
  then have "drop (length old - 1) (old @ new) = last old # new"
    by (cases old rule: rev_cases) simp_all
  moreover have "last old \<in> set old" using False by simp
  ultimately show ?thesis
    using assms(2) adjacent_join [OF False, of new]
    unfolding validate_structure_candles_def validate_tick_candles_Inr [OF assms(1)] spaced_def
    by auto
qed simp

definition replay_seen :: "timeframe \<Rightarrow> structure_config \<Rightarrow> candle list \<Rightarrow> structure_state \<Rightarrow> bool" where
  "replay_seen tf cfg candles st \<longleftrightarrow>
     has_seen tf cfg candles st \<and> validate_structure_candles candles tf (ms_tick_size cfg) = Inr ()"

lemma structure_reset_start: "structure_reset st = structure_start"
  by (rule structure_state.equality) (simp_all add: structure_reset_def structure_start_def)

lemma append_prefix:
  assumes "has_seen tf cfg old st" "validate_structure_candles old tf (ms_tick_size cfg) = Inr ()"
    and "structure_config_valid cfg" "candles_exact cfg (old @ new)"
  shows "if \<exists>r. analyze_market_structure (old @ new) tf cfg = Inr r
    then \<exists>st'. bind_result (validate_structure_candles (drop (length old - 1) (old @ new)) tf (ms_tick_size cfg)) (\<lambda>_.
           for_each (append_candle (append_zone cfg) (state_break_context cfg) tf cfg) new st) = Inr st'
      \<and> replay_seen tf cfg (old @ new) st'
    else \<exists>e. bind_result (validate_structure_candles (drop (length old - 1) (old @ new)) tf (ms_tick_size cfg)) (\<lambda>_.
           for_each (append_candle (append_zone cfg) (state_break_context cfg) tf cfg) new st) = Inl e"
proof -
  have cfg: "0 < ms_tick_size cfg" using assms(3) by (simp add: structure_config_valid_def)
  have returns: "(\<exists>r. analyze_market_structure (old @ new) tf cfg = Inr r) \<longleftrightarrow>
      validate_structure_candles (old @ new) tf (ms_tick_size cfg) = Inr ()
      \<and> (\<forall>s\<in>set (confirmed_swings (old @ new) tf cfg). zone_padding cfg < cs_price s)"
    unfolding confirmed_swings_def
    by (rule analyze_returns_lemma) (use assms(3,4) in \<open>auto simp: candles_exact_def\<close>)
  show ?thesis
  proof (cases "validate_structure_candles (old @ new) tf (ms_tick_size cfg)")
    case (Inl e)
    then have "\<exists>e. validate_structure_candles (drop (length old - 1) (old @ new)) tf (ms_tick_size cfg) = Inl e"
      using validate_rest [OF cfg assms(2), of new] by (metis Inl_Inr_False obj_sumE)
    with Inl returns show ?thesis by auto
  next
    case (Inr u)
    then have "validate_structure_candles (drop (length old - 1) (old @ new)) tf (ms_tick_size cfg) = Inr ()"
      using validate_rest [OF cfg assms(2), of new] by simp
    moreover have "chronological (old @ new)"
      using validate_structure_chronological [OF cfg Inr] .
    ultimately show ?thesis
      using append_candles_seen [OF assms(1,3,4)] returns Inr by (auto simp: replay_seen_def split: if_splits)
  qed
qed

lemma structure_append_seen:
  assumes "replay_seen tf cfg old st" "structure_config_valid cfg" "candles_exact cfg incoming"
  shows "if \<exists>r. analyze_market_structure incoming tf cfg = Inr r
    then \<exists>st'. structure_append tf cfg incoming st = Inr st' \<and> replay_seen tf cfg incoming st'
    else \<exists>e. structure_append tf cfg incoming st = Inl e"
proof -
  have r: "0 < ms_right_bars cfg" using assms(2) by (simp add: structure_config_valid_def)
  have seen: "has_seen tf cfg old st" "validate_structure_candles old tf (ms_tick_size cfg) = Inr ()"
    using assms(1) by (simp_all add: replay_seen_def)
  have candles: "ss_candles st = old" using seen(1) by (simp add: has_seen_def)
  show ?thesis
  proof (cases "prefix_ok old incoming")
    case True
    then obtain new where new: "incoming = old @ new" by (metis append_take_drop_id prefix_ok_def)
    have rest: "drop (length old) (old @ new) = new" by simp
    have eq: "structure_append tf cfg (old @ new) st =
      bind_result (validate_structure_candles (drop (length old - 1) (old @ new)) tf (ms_tick_size cfg)) (\<lambda>_.
        for_each (append_candle (append_zone cfg) (state_break_context cfg) tf cfg) new st)"
      unfolding structure_append_def append_candles_def Let_def candles if_P [OF True [unfolded new]] rest ..
    show ?thesis
      unfolding new eq by (rule append_prefix [OF seen assms(2) assms(3) [unfolded new]])
  next
    case False
    have start: "has_seen tf cfg [] structure_start" by (rule has_seen_start [OF r])
    have none: "validate_structure_candles [] tf (ms_tick_size cfg) = Inr ()"
      by (simp add: validate_structure_candles_def validate_tick_candles_def)
    have eq: "structure_append tf cfg incoming st =
      bind_result (validate_structure_candles (drop (length ([] :: candle list) - 1) ([] @ incoming)) tf (ms_tick_size cfg)) (\<lambda>_.
        for_each (append_candle (append_zone cfg) (state_break_context cfg) tf cfg) incoming structure_start)"
      unfolding structure_append_def append_candles_def Let_def candles if_not_P [OF False] structure_reset_start
      by (simp add: structure_start_def)
    show ?thesis
      using append_prefix [OF start none assms(2), of incoming] assms(3) unfolding eq append_Nil by blast
  qed
qed

lemma build_zones_placed:
  assumes "build_zones (confirmed_swings candles tf cfg) kind cfg = Inr zones"
    and "0 < ms_right_bars cfg" "chronological candles"
  shows "zones = zone_map cfg (confirmed_swings candles tf cfg) kind"
proof -
  let ?s = "of_kind (zone_swing_kind kind) (confirmed_swings candles tf cfg)"
  have "sorted_wrt (\<lambda>a b. swing_key a < swing_key b) ?s"
    using confirmed_swings_ordered [OF assms(2,3)] by (simp add: swings_ordered_def)
  then have "sorted (map swing_key ?s)"
    unfolding sorted_map by (rule sorted_wrt_mono_rel [rotated]) simp
  then have "sort_key swing_key ?s = ?s" by (rule sort_key_id_if_sorted)
  then have "fst (accumulate_zones (confirmed_swings candles tf cfg) kind cfg) = scanned_zones cfg kind ?s"
    using accumulate_scan [of "[]" "[]" kind "merge_tolerance cfg"]
    by (simp add: accumulate_zones_def scanned_zones_def anchors_of_def of_kind_def swing_key_def [abs_def])
  then have "list_all2 (\<lambda>z y. zone_result (zone_padding cfg) z = Inr y) (scanned_zones cfg kind ?s) zones"
    using assms(1) by (simp add: build_zones_def map_result_Inr)
  moreover have "zone_result padding z = Inr y \<Longrightarrow> y = zone_of padding z" for padding z y
    by (auto simp: zone_result_def zone_of_def make_price_zone_def split: if_splits)
  ultimately have "list_all2 (\<lambda>z y. y = zone_of (zone_padding cfg) z) (scanned_zones cfg kind ?s) zones"
    by (auto elim: list_all2_mono)
  then show ?thesis
    by (auto simp: zone_map_def placed_zones_def list_all2_conv_all_nth intro: nth_equalityI)
qed

lemma seen_result:
  assumes "replay_seen tf cfg candles st" "structure_config_valid cfg"
    and "analyze_market_structure candles tf cfg = Inr r"
  shows "structure_result tf cfg st = r"
proof -
  have cfg: "0 < ms_tick_size cfg" "0 < ms_right_bars cfg" "0 < ms_trend_points cfg"
    using assms(2) by (auto simp: structure_config_valid_def)
  have seen: "has_seen tf cfg candles st" "validate_structure_candles candles tf (ms_tick_size cfg) = Inr ()"
    using assms(1) by (simp_all add: replay_seen_def)
  have chron: "chronological candles" using validate_structure_chronological [OF cfg(1) seen(2)] .
  have "detect_structure_breaks candles (confirmed_swings candles tf cfg) tf cfg
      = Inr (bs_events st, bs_rejections st)"
    using detect_breaks_reference [OF chronological_sorted [OF chron] confirmed_swings_ordered [OF cfg(2) chron, of tf] cfg(3), of tf]
      seen(1) by (simp add: has_seen_def break_log.truncate_def)
  then show ?thesis
    using assms(3) seen build_zones_placed [OF _ cfg(2) chron, of tf]
    by (auto simp: analyze_market_structure_def bind_result_eq_Inr confirmed_swings_def has_seen_def
        structure_result_def project_structure_def split: prod.splits)
qed

lemma replay_seen_start: "structure_config_valid cfg \<Longrightarrow> replay_seen tf cfg [] structure_start"
  using has_seen_start [of cfg tf]
  by (simp add: replay_seen_def structure_config_valid_def validate_structure_candles_def validate_tick_candles_def)

interpretation plain: checked_replay "structure_append tf cfg" "\<lambda>st. (structure_result tf cfg st, st)"
    "\<lambda>candles. analyze_market_structure candles tf cfg" structure_start "replay_seen tf cfg"
    "\<lambda>candles. structure_config_valid cfg \<and> candles_exact cfg candles"
  for tf cfg
proof unfold_locales
  show "replay_seen tf cfg [] structure_start" if "structure_config_valid cfg \<and> candles_exact cfg bars" for bars
    using that replay_seen_start by blast
next
  fix old st bars r
  assume "replay_seen tf cfg old st" "structure_config_valid cfg \<and> candles_exact cfg bars"
    "analyze_market_structure bars tf cfg = Inr r"
  then show "\<exists>st'. structure_append tf cfg bars st = Inr st' \<and> replay_seen tf cfg bars st'"
    using structure_append_seen [of tf cfg old st bars] by auto
next
  fix old st bars e
  assume "replay_seen tf cfg old st" "structure_config_valid cfg \<and> candles_exact cfg bars"
    "analyze_market_structure bars tf cfg = Inl e"
  then show "\<exists>e'. structure_append tf cfg bars st = Inl e'"
    using structure_append_seen [of tf cfg old st bars] by auto
next
  fix bars st r
  assume "replay_seen tf cfg bars st" "structure_config_valid cfg \<and> candles_exact cfg bars"
    "analyze_market_structure bars tf cfg = Inr r"
  then show "fst (structure_result tf cfg st, st) = r \<and> replay_seen tf cfg bars (snd (structure_result tf cfg st, st))"
    using seen_result [of tf cfg bars st r] by simp
qed

text \<open>
  C30: a replay is the analysis. Feeding sequences of bars one after the other, each an extension of the one
  before or not, and reading the result after each, gives exactly the results of analyzing every sequence
  from scratch, and the replay raises exactly when one of those analyses does. The prices of the bars must
  stay exact when the zone padding is added and subtracted, since a zone that grows takes its padding off
  again.
\<close>

theorem incremental_structure_is_analysis:
  assumes "structure_config_valid cfg" "list_all (candles_exact cfg) inputs"
  shows "replay_results (structure_append tf cfg) (\<lambda>st. (structure_result tf cfg st, st)) inputs
      structure_start = Inr results
    \<longleftrightarrow> map_result (\<lambda>candles. analyze_market_structure candles tf cfg) inputs = Inr results"
  by (rule plain.results_exact) (use assms in \<open>simp add: list_all_iff\<close>)

section \<open>A sample\<close>

lemma exact_padding_small:
  "\<bar>k\<bar> < 100 \<Longrightarrow> exact_padding 1 (of_int k)"
proof -
  assume k: "\<bar>k\<bar> < 100"
  have "rnd (of_int j) = of_int j" if "\<bar>j\<bar> \<le> 101" for j
    by (rule rnd_fits, rule fits_of_int) (use that in simp)
  from this [of k] this [of "k - 1"] this [of "k + 1"] k show ?thesis
    by (simp add: exact_padding_def)
qed

lemma sample_candles_exact:
  "candles_exact sample_structure_config []" "candles_exact sample_structure_config sample_bars"
proof -
  have pad: "zone_padding sample_structure_config = 1"
    by (simp add: zone_padding_def sample_structure_config_def dec_evals)
  have small: "exact_padding 1 (numeral n)" if "numeral n < (100::int)" for n
    using exact_padding_small [of "numeral n"] that by simp
  show "candles_exact sample_structure_config sample_bars"
    using sample_structure_valid(2) small
    by (simp add: candles_exact_def pad sample_bars_def sample_bar_def)
qed (simp add: candles_exact_def)

lemma sample_empty_returned:
  "\<exists>r. analyze_market_structure [] ONE_MINUTE sample_structure_config = Inr r"
  unfolding analyze_returns_lemma [OF sample_structure_valid(1), of "[]", simplified]
  by (simp add: validate_structure_candles_def validate_tick_candles_def sample_structure_config_def
      detect_swings_eq)

definition sample_replay :: "market_structure list" where
  "sample_replay =
     [sample_structure,
      case analyze_market_structure [] ONE_MINUTE sample_structure_config of Inl _ \<Rightarrow> undefined | Inr r \<Rightarrow> r,
      sample_structure, sample_structure]"

lemma sample_replay_analyzed:
  "map_result (\<lambda>candles. analyze_market_structure candles ONE_MINUTE sample_structure_config)
     [sample_bars, [], sample_bars, sample_bars] = Inr sample_replay"
  using sample_structure_returned sample_empty_returned by (auto simp: sample_replay_def)

theorem incremental_structure_is_analysis_witness:
  "replay_results (structure_append ONE_MINUTE sample_structure_config)
     (\<lambda>st. (structure_result ONE_MINUTE sample_structure_config st, st))
     [sample_bars, [], sample_bars, sample_bars] structure_start = Inr sample_replay
   \<and> map se_type (mr_structure_events (last sample_replay)) = [BREAK]"
  using incremental_structure_is_analysis [OF sample_structure_valid(1),
      of "[sample_bars, [], sample_bars, sample_bars]" ONE_MINUTE sample_replay]
    sample_candles_exact sample_replay_analyzed sample_structure_events
  by (simp add: sample_replay_def)

end
