(* ===== verification/Hot_Structure.thy ===== *)
theory Hot_Structure
  imports Incremental_Structure
begin

text \<open>
  The indexed structure state of the hot replay engine (\<open>HotStructureState\<close> in
  \<open>engines/structure/hot_structure.py\<close>): the inherited appending of candles, with the tails of the latest
  swings, a frontier of the swings a bar may look at and stacks of unbroken swings in place of searches
  over all swings, and a cached result. It is proved to give the results of the analysis as well.
\<close>

section \<open>The state\<close>

record hot_structure_state = structure_state +
  hs_closed_tail :: "swing_kind \<Rightarrow> confirmed_swing list"
  hs_eligible_tail :: "swing_kind \<Rightarrow> confirmed_swing list"
  hs_unbroken :: "swing_kind \<Rightarrow> confirmed_swing list"
  hs_eligible_frontier :: nat
  hs_projection :: "market_structure option"

definition hot_structure_start :: hot_structure_state where
  "hot_structure_start = structure_state.extend structure_start
     (hot_structure_state.fields (\<lambda>_. []) (\<lambda>_. []) (\<lambda>_. []) 0 None)"

definition hot_structure_reset :: "hot_structure_state \<Rightarrow> hot_structure_state" where
  "hot_structure_reset st =
     (structure_reset st)\<lparr>hs_closed_tail := (\<lambda>_. []), hs_eligible_tail := (\<lambda>_. []),
        hs_unbroken := (\<lambda>_. []), hs_eligible_frontier := 0, hs_projection := None\<rparr>"

definition tail_append ::
  "structure_config \<Rightarrow> confirmed_swing \<Rightarrow> (swing_kind \<Rightarrow> confirmed_swing list)
     \<Rightarrow> swing_kind \<Rightarrow> confirmed_swing list" where
  "tail_append cfg swing sides =
     (let values = sides (cs_kind swing) @ [swing]
      in sides(cs_kind swing := if length values > ms_trend_points cfg then tl values else values))"

definition hot_append_zone ::
  "structure_config \<Rightarrow> confirmed_swing \<Rightarrow> hot_structure_state \<Rightarrow> hot_structure_state result" where
  "hot_append_zone cfg swing st =
     bind_result (append_zone cfg swing st) (\<lambda>st.
       Inr (st\<lparr>hs_closed_tail := tail_append cfg swing (hs_closed_tail st)\<rparr>))"

section \<open>What a bar may break\<close>

definition hot_consume ::
  "structure_config \<Rightarrow> confirmed_swing \<Rightarrow> hot_structure_state \<Rightarrow> hot_structure_state result" where
  "hot_consume cfg swing st =
     (let st = st\<lparr>hs_eligible_frontier := hs_eligible_frontier st + 1,
                 hs_eligible_tail := tail_append cfg swing (hs_eligible_tail st)\<rparr>;
          values = hs_unbroken st (cs_kind swing)
      in if values \<noteq> [] \<and> \<not> (cs_confirmed_at (last values), cs_pivot_index (last values))
             \<le> (cs_confirmed_at swing, cs_pivot_index swing)
         then Inl AssertionError
         else Inr (st\<lparr>hs_unbroken := (hs_unbroken st)(cs_kind swing := values @ [swing])\<rparr>))"

definition hot_break_context ::
  "structure_config \<Rightarrow> candle \<Rightarrow> hot_structure_state
     \<Rightarrow> ((trend_state \<times> confirmed_swing option \<times> confirmed_swing option) \<times> hot_structure_state) result" where
  "hot_break_context cfg candle st =
     bind_result
       (for_each (hot_consume cfg)
          (takeWhile (\<lambda>s. cs_confirmed_at s \<le> c_timestamp candle)
             (drop (hs_eligible_frontier st) (ss_confirmed st))) st)
       (\<lambda>st.
         let st = st\<lparr>hs_unbroken := (\<lambda>k. pop_broken (bs_broken st) (hs_unbroken st k))\<rparr>
         in Inr ((classify_trend (hs_eligible_tail st HIGH @ hs_eligible_tail st LOW) cfg,
                  stack_top (hs_unbroken st HIGH), stack_top (hs_unbroken st LOW)), st))"

section \<open>Appending and reading\<close>

definition hot_structure_append ::
  "timeframe \<Rightarrow> structure_config \<Rightarrow> candle list \<Rightarrow> hot_structure_state \<Rightarrow> hot_structure_state result" where
  "hot_structure_append tf cfg incoming st =
     bind_result
       (append_candles (hot_append_zone cfg) (hot_break_context cfg) hot_structure_reset tf cfg incoming st)
       (\<lambda>st'. Inr (if ss_candles st' \<noteq> ss_candles st then st'\<lparr>hs_projection := None\<rparr> else st'))"

definition hot_result_trend :: "structure_config \<Rightarrow> hot_structure_state \<Rightarrow> trend_state" where
  "hot_result_trend cfg st = classify_trend (hs_closed_tail st HIGH @ hs_closed_tail st LOW) cfg"

definition hot_structure_result ::
  "timeframe \<Rightarrow> structure_config \<Rightarrow> hot_structure_state \<Rightarrow> market_structure \<times> hot_structure_state" where
  "hot_structure_result tf cfg st =
     (case hs_projection st of
        Some r \<Rightarrow> (r, st)
      | None \<Rightarrow>
          let r = project_structure tf cfg (hot_result_trend cfg st) st
          in (r, st\<lparr>hs_projection := Some r\<rparr>))"

section \<open>The indices\<close>

lemma tail_append_last_n:
  assumes "\<forall>k. sides k = last_n n (of_kind k xs)" "0 < n" "n = ms_trend_points cfg"
  shows "\<forall>k. tail_append cfg s sides k = last_n n (of_kind k (xs @ [s]))"
proof -
  have eq: "(if length (last_n n ys @ [s]) > n then tl (last_n n ys @ [s]) else last_n n ys @ [s])
      = last_n n (ys @ [s])" for ys :: "confirmed_swing list"
  proof (cases "n \<le> length ys")
    case True
    then have "last_n n ys @ [s] = drop (length ys - n) (ys @ [s])" by (simp add: last_n_def)
    then have "tl (last_n n ys @ [s]) = drop (Suc (length ys - n)) (ys @ [s])" by (simp only: drop_Suc drop_tl)
    moreover have "Suc (length ys - n) = length (ys @ [s]) - n" using True by simp
    moreover have "n < length (last_n n ys @ [s])" using True by (simp add: last_n_def)
    ultimately show ?thesis unfolding last_n_def [of n "ys @ [s]"] by (simp only: if_True)
  next
    case False
    then show ?thesis by (simp add: last_n_def)
  qed
  show ?thesis
  proof
    fix k
    show "tail_append cfg s sides k = last_n n (of_kind k (xs @ [s]))"
      using eq [of "of_kind (cs_kind s) xs"] assms(1)
      by (cases "k = cs_kind s") (simp_all add: tail_append_def Let_def assms(3) [symmetric] split del: if_split)
  qed
qed

text \<open>The indices for the swings \<open>consumed\<close>, of those confirmed.\<close>

definition hot_tracks :: "structure_config \<Rightarrow> confirmed_swing list \<Rightarrow> hot_structure_state \<Rightarrow> bool" where
  "hot_tracks cfg consumed st \<longleftrightarrow>
     hs_eligible_frontier st = length consumed
     \<and> (\<forall>k. hs_eligible_tail st k = last_n (ms_trend_points cfg) (of_kind k consumed))
     \<and> (\<forall>k. set (hs_unbroken st k) \<subseteq> set (of_kind k consumed))
     \<and> (\<forall>k. filter (\<lambda>s. cs_swing_id s \<notin> bs_broken st) (hs_unbroken st k)
            = filter (\<lambda>s. cs_swing_id s \<notin> bs_broken st) (of_kind k consumed))"

definition closed_tracks :: "structure_config \<Rightarrow> hot_structure_state \<Rightarrow> bool" where
  "closed_tracks cfg st \<longleftrightarrow>
     (\<forall>k. hs_closed_tail st k = last_n (ms_trend_points cfg) (of_kind k (ss_confirmed st)))"

lemma hot_consume_tracks:
  assumes "hot_tracks cfg consumed st" "0 < ms_trend_points cfg"
    and "\<forall>k. sorted_wrt (\<lambda>a b. swing_key a < swing_key b) (of_kind k (consumed @ [s]))"
  shows "\<exists>st'. hot_consume cfg s st = Inr st' \<and> hot_tracks cfg (consumed @ [s]) st'
    \<and> structure_state.truncate st' = structure_state.truncate st
    \<and> hs_closed_tail st' = hs_closed_tail st \<and> hs_projection st' = hs_projection st"
proof -
  let ?stack = "hs_unbroken st (cs_kind s)"
  have "swing_key (last ?stack) \<le> swing_key s" if "?stack \<noteq> []"
  proof -
    have "last ?stack \<in> set (of_kind (cs_kind s) consumed)"
      using assms(1) last_in_set [OF that] by (auto simp: hot_tracks_def)
    then show ?thesis
      using assms(3) by (fastforce simp: sorted_wrt_append dest!: spec [of _ "cs_kind s"] intro: less_imp_le)
  qed
  then have ok: "\<not> (?stack \<noteq> [] \<and> \<not> (cs_confirmed_at (last ?stack), cs_pivot_index (last ?stack))
      \<le> (cs_confirmed_at s, cs_pivot_index s))"
    by (auto simp: swing_key_def)
  define st' where "st' = st\<lparr>hs_eligible_frontier := hs_eligible_frontier st + 1,
      hs_eligible_tail := tail_append cfg s (hs_eligible_tail st),
      hs_unbroken := (hs_unbroken st)(cs_kind s := ?stack @ [s])\<rparr>"
  have "hot_consume cfg s st = Inr st'"
    using ok unfolding hot_consume_def Let_def st'_def by simp
  moreover have "hot_tracks cfg (consumed @ [s]) st'"
    using assms(1) tail_append_last_n [OF _ assms(2) refl, of "hs_eligible_tail st" consumed s]
    unfolding hot_tracks_def st'_def by auto
  moreover have "structure_state.truncate st' = structure_state.truncate st"
      "hs_closed_tail st' = hs_closed_tail st" "hs_projection st' = hs_projection st"
    by (simp_all add: st'_def structure_state.truncate_def)
  ultimately show ?thesis by blast
qed

lemma hot_consume_all:
  assumes "hot_tracks cfg consumed st" "0 < ms_trend_points cfg"
    and "\<forall>k. sorted_wrt (\<lambda>a b. swing_key a < swing_key b) (of_kind k (consumed @ xs))"
  shows "\<exists>st'. for_each (hot_consume cfg) xs st = Inr st' \<and> hot_tracks cfg (consumed @ xs) st'
    \<and> structure_state.truncate st' = structure_state.truncate st
    \<and> hs_closed_tail st' = hs_closed_tail st \<and> hs_projection st' = hs_projection st"
  using assms(1,3)
proof (induction xs arbitrary: consumed st)
  case (Cons s xs)
  have "\<forall>k. sorted_wrt (\<lambda>a b. swing_key a < swing_key b) (of_kind k (consumed @ [s]))"
    using Cons.prems(2) by (auto simp: sorted_wrt_append split: if_splits)
  from hot_consume_tracks [OF Cons.prems(1) assms(2) this]
  obtain a where a: "hot_consume cfg s st = Inr a" "hot_tracks cfg (consumed @ [s]) a"
      "structure_state.truncate a = structure_state.truncate st"
      "hs_closed_tail a = hs_closed_tail st" "hs_projection a = hs_projection st"
    by blast
  have "\<forall>k. sorted_wrt (\<lambda>a b. swing_key a < swing_key b) (of_kind k ((consumed @ [s]) @ xs))"
    using Cons.prems(2) by simp
  from Cons.IH [OF a(2) this] show ?case using a by simp
qed simp
lemma hot_tracks_pop:
  assumes "hot_tracks cfg consumed st"
  shows "hot_tracks cfg consumed (st\<lparr>hs_unbroken := (\<lambda>k. pop_broken (bs_broken st) (hs_unbroken st k))\<rparr>)"
proof -
  have "set (pop_broken B xs) \<subseteq> set xs" for B xs
    unfolding pop_broken_def by (auto dest: set_dropWhileD)
  then show ?thesis using assms by (fastforce simp: hot_tracks_def filter_pop_broken)
qed

text \<open>The context the indices give a bar is the one of all swings confirmed when it opens.\<close>

lemma hot_context_exact:
  assumes "hot_tracks cfg consumed st" "0 < ms_trend_points cfg" "swings_ordered (ss_confirmed st)"
    and "consumed = take (length consumed) (ss_confirmed st)" "length consumed \<le> length (ss_confirmed st)"
    and "\<forall>s\<in>set consumed. cs_confirmed_at s \<le> c_timestamp c"
  shows "\<exists>st'. hot_break_context cfg c st =
      Inr (break_context cfg (ss_confirmed st) (bs_broken st) (c_timestamp c), st')
    \<and> hot_tracks cfg (filter (\<lambda>s. cs_confirmed_at s \<le> c_timestamp c) (ss_confirmed st)) st'
    \<and> structure_state.truncate st' = structure_state.truncate st
    \<and> hs_closed_tail st' = hs_closed_tail st \<and> hs_projection st' = hs_projection st"
proof -
  let ?t = "c_timestamp c"
  let ?e = "filter (\<lambda>s. cs_confirmed_at s \<le> ?t) (ss_confirmed st)"
  let ?new = "takeWhile (\<lambda>s. cs_confirmed_at s \<le> ?t) (drop (length consumed) (ss_confirmed st))"
  have frontier: "hs_eligible_frontier st = length consumed" using assms(1) by (simp add: hot_tracks_def)
  have sorted: "sorted_wrt (\<lambda>a b. swing_key a < swing_key b) (of_kind k ?e)" for k
    using assms(3) by (simp add: swings_ordered_def of_kind_filter sorted_wrt_filter)
  have e: "consumed @ ?new = ?e"
    using frontier_split [OF _ assms(4-6)] assms(3) by (simp add: swings_ordered_def)
  obtain a where a: "for_each (hot_consume cfg) ?new st = Inr a" "hot_tracks cfg ?e a"
      "structure_state.truncate a = structure_state.truncate st"
      "hs_closed_tail a = hs_closed_tail st" "hs_projection a = hs_projection st"
    using hot_consume_all [OF assms(1,2), of ?new] sorted unfolding e by blast
  define d where "d = a\<lparr>hs_unbroken := (\<lambda>k. pop_broken (bs_broken a) (hs_unbroken a k))\<rparr>"
  have d: "hot_tracks cfg ?e d" "structure_state.truncate d = structure_state.truncate st"
      "hs_closed_tail d = hs_closed_tail st" "hs_projection d = hs_projection st"
    using hot_tracks_pop [OF a(2)] a(3-5) by (simp_all add: d_def structure_state.truncate_def)
  have level: "stack_top (hs_unbroken d k) = latest_unbroken_swing ?e k ?t (bs_broken st)" for k
  proof -
    have broken: "bs_broken a = bs_broken st" using a(3) by (simp add: structure_state.truncate_def)
    have "stack_top (hs_unbroken d k)
        = stack_top (filter (\<lambda>s. cs_swing_id s \<notin> bs_broken a) (hs_unbroken a k))"
      by (simp add: d_def last_filter_pop)
    also have "filter (\<lambda>s. cs_swing_id s \<notin> bs_broken a) (hs_unbroken a k)
        = filter (\<lambda>s. cs_swing_id s \<notin> bs_broken a) (of_kind k ?e)"
      using a(2) unfolding hot_tracks_def by blast
    also have "stack_top \<dots> = latest_unbroken_swing ?e k ?t (bs_broken a)"
      by (rule latest_unbroken_is_top [symmetric, OF sorted]) simp
    finally show ?thesis unfolding broken .
  qed
  have "classify_trend (hs_eligible_tail d HIGH @ hs_eligible_tail d LOW) cfg = classify_trend ?e cfg"
    using d(1) classify_tails [of cfg ?e] by (simp add: hot_tracks_def)
  then have "hot_break_context cfg c st = Inr (break_context cfg (ss_confirmed st) (bs_broken st) ?t, d)"
    unfolding hot_break_context_def frontier a(1) bind_result_simps Let_def d_def [symmetric]
    by (simp add: level break_context_def Let_def)
  with d show ?thesis by blast
qed

section \<open>The hot state simulates the plain one\<close>

lemma for_each_simulates:
  assumes "\<And>x s. P s \<Longrightarrow> on_result h (f x s) = g x (h s)"
    and "\<And>x s s'. P s \<Longrightarrow> f x s = Inr s' \<Longrightarrow> P s'"
  shows "P s \<Longrightarrow> on_result h (for_each f xs s) = for_each g xs (h s)
    \<and> (\<forall>s'. for_each f xs s = Inr s' \<longrightarrow> P s')"
proof (induction xs arbitrary: s)
  case (Cons x xs)
  have "on_result h (f x s) = g x (h s)" using assms(1) [OF Cons.prems] .
  then show ?case
    using Cons.IH assms(2) [OF Cons.prems] by (cases "f x s") (auto simp: eq_commute [of _ "g x (h s)"])
qed simp

lemma truncate_append_zone:
  "on_result structure_state.truncate (append_zone cfg s st) = append_zone cfg s (structure_state.truncate st)"
  by (auto simp: append_zone_def Let_def bind_result_def on_result_def structure_state.truncate_def split: sum.splits)

definition hot_rest ::
  "hot_structure_state \<Rightarrow> (swing_kind \<Rightarrow> confirmed_swing list) \<times> (swing_kind \<Rightarrow> confirmed_swing list)
     \<times> nat \<times> market_structure option \<times> string set" where
  "hot_rest st = (hs_eligible_tail st, hs_unbroken st, hs_eligible_frontier st, hs_projection st, bs_broken st)"

lemma append_zone_frame:
  assumes "append_zone cfg s (st :: hot_structure_state) = Inr st'"
  shows "hot_rest st' = hot_rest st" "ss_confirmed st' = ss_confirmed st" "hs_closed_tail st' = hs_closed_tail st"
  using assms by (auto simp: append_zone_def Let_def bind_result_eq_Inr hot_rest_def)

lemma hot_append_zone_tracks:
  assumes "hot_append_zone cfg s (st\<lparr>ss_confirmed := ss_confirmed st @ [s]\<rparr>) = Inr st'"
    and "closed_tracks cfg st" "0 < ms_trend_points cfg"
  shows "closed_tracks cfg st' \<and> hot_rest st' = hot_rest st \<and> ss_confirmed st' = ss_confirmed st @ [s]"
proof -
  obtain a where a: "append_zone cfg s (st\<lparr>ss_confirmed := ss_confirmed st @ [s]\<rparr>) = Inr a"
      "st' = a\<lparr>hs_closed_tail := tail_append cfg s (hs_closed_tail a)\<rparr>"
    using assms(1) by (auto simp: hot_append_zone_def bind_result_eq_Inr)
  note frame = append_zone_frame [OF a(1)]
  have "\<forall>k. tail_append cfg s (hs_closed_tail st) k = last_n (ms_trend_points cfg) (of_kind k (ss_confirmed st @ [s]))"
    by (rule tail_append_last_n) (use assms(2,3) in \<open>simp_all add: closed_tracks_def\<close>)
  then show ?thesis
    using frame by (simp add: a(2) closed_tracks_def hot_rest_def)
qed

text \<open>What a pending candidate becomes depends on the candles only; the hook sees the swing it confirms.\<close>

definition pending_update ::
  "timeframe \<Rightarrow> structure_config \<Rightarrow> candle list \<Rightarrow> swing_candidate
     \<Rightarrow> (swing_candidate \<times> confirmed_swing option) option" where
  "pending_update tf cfg candles candidate =
     (let i = sw_pivot_index candidate; available = min (ms_right_bars cfg) (length candles - i - 1)
      in if available = sw_observed_right_bars candidate then None
         else let left = take (ms_left_bars cfg) (drop (i - ms_left_bars cfg) candles);
                  right = take available (drop (i + 1) candles);
                  value = swing_value (sw_kind candidate);
                  full = (available = ms_right_bars cfg);
                  resolution = (if full
                    then if fully_qualifies (sw_kind candidate) (sw_price candidate) (map value left)
                             (map value right) (ms_tie_policy cfg) then CONFIRMED else REJECTED
                    else PENDING);
                  resolved_at = (if full
                    then Some (c_timestamp (last right) + timeframe_duration tf) else None)
              in Some (candidate\<lparr>sw_observed_right_bars := available, sw_resolution := resolution,
                       sw_resolved_at := resolved_at\<rparr>,
                     if resolution = CONFIRMED then Some (confirmed_of candidate (the resolved_at) left right)
                     else None))"

lemma resolve_pending_update:
  "resolve_pending hook tf cfg j (st, still) =
    (case pending_update tf cfg (ss_candles st) (ss_candidates st ! j) of
       None \<Rightarrow> Inr (st, still @ [j])
     | Some (candidate, None) \<Rightarrow>
         Inr (st\<lparr>ss_candidates := (ss_candidates st)[j := candidate]\<rparr>,
           if sw_resolution candidate = PENDING then still @ [j] else still)
     | Some (candidate, Some s) \<Rightarrow>
         bind_result (hook s (st\<lparr>ss_candidates := (ss_candidates st)[j := candidate],
             ss_confirmed := ss_confirmed st @ [s]\<rparr>)) (\<lambda>st. Inr (st, still)))"
  unfolding resolve_pending_def pending_update_def Let_def prod.case
  by simp

definition hot_apart :: "hot_structure_state \<times> nat list \<Rightarrow> structure_state \<times> nat list" where
  "hot_apart = map_prod structure_state.truncate id"

lemma truncate_hot_append_zone:
  "on_result structure_state.truncate (hot_append_zone cfg s st) = append_zone cfg s (structure_state.truncate st)"
  unfolding truncate_append_zone [symmetric] hot_append_zone_def
  by (cases "append_zone cfg s st") (simp_all add: structure_state.truncate_def)

lemma hot_resolve_pending:
  "on_result hot_apart (resolve_pending (hot_append_zone cfg) tf cfg j (st, still))
     = resolve_pending (append_zone cfg) tf cfg j (structure_state.truncate st, still)"
proof -
  have zone: "bind_result (append_zone cfg s (structure_state.truncate a)) (\<lambda>a. Inr (a, x))
      = on_result hot_apart (bind_result (hot_append_zone cfg s a) (\<lambda>a. Inr (a, x)))" for s a x
    unfolding truncate_hot_append_zone [symmetric]
    by (cases "hot_append_zone cfg s a") (simp_all add: hot_apart_def)
  have same: "ss_candles (structure_state.truncate st) = ss_candles st"
      "ss_candidates (structure_state.truncate st) = ss_candidates st"
      "ss_confirmed (structure_state.truncate st) = ss_confirmed st"
      "(structure_state.truncate s)\<lparr>ss_candidates := x\<rparr> = structure_state.truncate (s\<lparr>ss_candidates := x\<rparr>)"
      "(structure_state.truncate s)\<lparr>ss_confirmed := y\<rparr> = structure_state.truncate (s\<lparr>ss_confirmed := y\<rparr>)"
    for x y and s :: hot_structure_state
    by (simp_all add: structure_state.truncate_def)
  show ?thesis
    unfolding resolve_pending_update same zone
    by (cases "pending_update tf cfg (ss_candles st) (ss_candidates st ! j)")
      (auto simp: hot_apart_def split: option.split)
qed

lemma hot_resolve_tracks:
  assumes "closed_tracks cfg st" "0 < ms_trend_points cfg"
    and "resolve_pending (hot_append_zone cfg) tf cfg j (st, still) = Inr (st', still')"
  shows "closed_tracks cfg st' \<and> hot_rest st' = hot_rest st \<and> (\<exists>ys. ss_confirmed st' = ss_confirmed st @ ys)"
proof (cases "pending_update tf cfg (ss_candles st) (ss_candidates st ! j)")
  case None
  then show ?thesis using assms by (simp add: resolve_pending_update)
next
  case (Some u)
  obtain candidate swing where u: "u = (candidate, swing)" by (cases u)
  let ?a = "st\<lparr>ss_candidates := (ss_candidates st)[j := candidate]\<rparr>"
  have a: "closed_tracks cfg ?a" "hot_rest ?a = hot_rest st" "ss_confirmed ?a = ss_confirmed st"
    using assms(1) by (simp_all add: closed_tracks_def hot_rest_def)
  show ?thesis
  proof (cases swing)
    case None
    then have "st' = ?a" using assms(3) Some u by (simp add: resolve_pending_update)
    then show ?thesis using a by simp
  next
    case s: (Some s)
    have "hot_append_zone cfg s (?a\<lparr>ss_confirmed := ss_confirmed ?a @ [s]\<rparr>) = Inr st'"
      using assms(3) Some u s by (auto simp: resolve_pending_update bind_result_eq_Inr)
    from hot_append_zone_tracks [OF this a(1) assms(2)] show ?thesis using a by simp
  qed
qed

lemma hot_append_pivots:
  assumes "closed_tracks cfg st" "0 < ms_trend_points cfg"
  shows "on_result structure_state.truncate (append_pivots (hot_append_zone cfg) tf cfg c st)
      = append_pivots (append_zone cfg) tf cfg c (structure_state.truncate st)
    \<and> (\<forall>st'. append_pivots (hot_append_zone cfg) tf cfg c st = Inr st' \<longrightarrow>
        closed_tracks cfg st' \<and> hot_rest st' = hot_rest st \<and> (\<exists>ys. ss_confirmed st' = ss_confirmed st @ ys))"
proof -
  let ?a = "st\<lparr>ss_candles := ss_candles st @ [c]\<rparr>"
  let ?P = "\<lambda>s :: hot_structure_state \<times> nat list. closed_tracks cfg (fst s) \<and> hot_rest (fst s) = hot_rest st
    \<and> (\<exists>ys. ss_confirmed (fst s) = ss_confirmed st @ ys)"
  have a: "?P (?a, [])" using assms(1) by (simp add: closed_tracks_def hot_rest_def)
  have "on_result hot_apart (for_each (resolve_pending (hot_append_zone cfg) tf cfg) js (?a, []))
      = for_each (resolve_pending (append_zone cfg) tf cfg) js (hot_apart (?a, []))
    \<and> (\<forall>s'. for_each (resolve_pending (hot_append_zone cfg) tf cfg) js (?a, []) = Inr s' \<longrightarrow> ?P s')" for js
  proof (rule for_each_simulates [where P = ?P, OF _ _ a])
    fix j s assume "?P s"
    show "on_result hot_apart (resolve_pending (hot_append_zone cfg) tf cfg j s)
        = resolve_pending (append_zone cfg) tf cfg j (hot_apart s)"
      using hot_resolve_pending [of cfg tf j "fst s" "snd s"] by (simp add: hot_apart_def map_prod_def split: prod.split)
  next
    fix j s s' assume s: "?P s" "resolve_pending (hot_append_zone cfg) tf cfg j s = Inr s'"
    then show "?P s'"
      using hot_resolve_tracks [of cfg "fst s" tf j "snd s" "fst s'" "snd s'"] assms(2) by auto
  qed
  note loop = this [of "ss_pending st"]
  have base: "hot_apart (?a, []) = ((structure_state.truncate st)\<lparr>ss_candles := ss_candles st @ [c]\<rparr>, [])"
    by (simp add: hot_apart_def structure_state.truncate_def)
  have cand: "structure_state.truncate (new_candidate tf cfg i k s) = new_candidate tf cfg i k (structure_state.truncate s)"
    "closed_tracks cfg (new_candidate tf cfg i k s) = closed_tracks cfg s"
    "hot_rest (new_candidate tf cfg i k s) = hot_rest s"
    "ss_confirmed (new_candidate tf cfg i k s) = ss_confirmed s"
    for i k and s :: hot_structure_state
    by (simp_all add: new_candidate_def Let_def structure_state.truncate_def closed_tracks_def hot_rest_def)
  have pend: "structure_state.truncate (s\<lparr>ss_pending := x\<rparr>) = (structure_state.truncate s)\<lparr>ss_pending := x\<rparr>"
    "closed_tracks cfg (s\<lparr>ss_pending := x\<rparr>) = closed_tracks cfg s" "hot_rest (s\<lparr>ss_pending := x\<rparr>) = hot_rest s"
    for x and s :: hot_structure_state
    by (simp_all add: structure_state.truncate_def closed_tracks_def hot_rest_def)
  have same: "ss_candles (structure_state.truncate st) = ss_candles st"
      "ss_pending (structure_state.truncate st) = ss_pending st"
    by (simp_all add: structure_state.truncate_def)
  show ?thesis
  proof (cases "for_each (resolve_pending (hot_append_zone cfg) tf cfg) (ss_pending st) (?a, [])")
    case (Inl e)
    then have "for_each (resolve_pending (append_zone cfg) tf cfg) (ss_pending st)
        ((structure_state.truncate st)\<lparr>ss_candles := ss_candles st @ [c]\<rparr>, []) = Inl e"
      using loop unfolding base by simp
    then show ?thesis using Inl by (simp add: append_pivots_def Let_def same)
  next
    case (Inr s)
    then have "for_each (resolve_pending (append_zone cfg) tf cfg) (ss_pending st)
        ((structure_state.truncate st)\<lparr>ss_candles := ss_candles st @ [c]\<rparr>, []) = Inr (hot_apart s)" "?P s"
      using loop unfolding base by (simp, blast)
    then show ?thesis using Inr
      by (cases s) (simp add: append_pivots_def Let_def same cand pend hot_apart_def)
  qed
qed

text \<open>One candle, one sequence of candles.\<close>

definition hot_seen :: "structure_config \<Rightarrow> candle list \<Rightarrow> hot_structure_state \<Rightarrow> bool" where
  "hot_seen cfg candles st \<longleftrightarrow> closed_tracks cfg st
     \<and> (\<exists>consumed. hot_tracks cfg consumed st
          \<and> consumed = take (length consumed) (ss_confirmed st) \<and> length consumed \<le> length (ss_confirmed st)
          \<and> (\<forall>s\<in>set consumed. \<exists>c\<in>set candles. cs_confirmed_at s \<le> c_timestamp c))"

lemma record_hot:
  assumes "hot_tracks cfg consumed st"
  shows "hot_tracks cfg consumed (record_outcome out st)"
    and "structure_state.truncate (record_outcome out st) = record_outcome out (structure_state.truncate st)"
    and "hs_closed_tail (record_outcome out st) = hs_closed_tail st"
    and "hs_projection (record_outcome out st) = hs_projection st"
    and "ss_confirmed (record_outcome out st) = ss_confirmed st"
proof -
  show "hot_tracks cfg consumed (record_outcome out st)"
  proof (cases out)
    case (BROKEN e)
    have "filter (\<lambda>s. cs_swing_id s \<notin> insert (se_broken_structure_id e) (bs_broken st)) (hs_unbroken st k)
      = filter (\<lambda>s. cs_swing_id s \<notin> insert (se_broken_structure_id e) (bs_broken st)) (of_kind k consumed)" for k
      by (rule filter_notin_insert) (use assms in \<open>simp add: hot_tracks_def\<close>)
    with assms BROKEN show ?thesis by (simp add: hot_tracks_def record_outcome_def)
  qed (use assms in \<open>simp_all add: hot_tracks_def record_outcome_def\<close>)
qed (simp_all add: record_outcome_def structure_state.truncate_def split: break_outcome.split)

lemma hot_append_candle:
  assumes "hot_seen cfg candles st" "has_seen tf cfg candles (structure_state.truncate st)"
    and "structure_config_valid cfg" "candles_exact cfg (candles @ [c])" "chronological (candles @ [c])"
  shows "on_result structure_state.truncate
        (append_candle (hot_append_zone cfg) (hot_break_context cfg) tf cfg c st)
      = append_candle (append_zone cfg) (state_break_context cfg) tf cfg c (structure_state.truncate st)
    \<and> (\<forall>st'. append_candle (hot_append_zone cfg) (hot_break_context cfg) tf cfg c st = Inr st' \<longrightarrow>
        hot_seen cfg (candles @ [c]) st' \<and> hs_projection st' = hs_projection st)"
proof -
  have cfg: "0 < ms_tick_size cfg" "0 < ms_right_bars cfg" "0 < ms_trend_points cfg"
    using assms(3) by (auto simp: structure_config_valid_def)
  have exact: "\<forall>s\<in>set (confirmed_swings (candles @ [c]) tf cfg). swing_exact cfg s"
    using confirmed_swings_exact [OF assms(4) cfg(2)] by blast
  have closed_ok: "closed_tracks cfg st" using assms(1) by (simp add: hot_seen_def)
  obtain consumed where consumed: "hot_tracks cfg consumed st" "consumed = take (length consumed) (ss_confirmed st)"
      "length consumed \<le> length (ss_confirmed st)"
      "\<forall>s\<in>set consumed. \<exists>c\<in>set candles. cs_confirmed_at s \<le> c_timestamp c"
    using assms(1) unfolding hot_seen_def by blast
  note pivots = hot_append_pivots [OF closed_ok cfg(3), of tf c]
  note base = append_pivots_eq [OF assms(2) cfg(1,2) exact]
  show ?thesis
  proof (cases "append_pivots (hot_append_zone cfg) tf cfg c st")
    case (Inl e)
    then show ?thesis using pivots by (simp add: append_candle_def eq_commute [of "Inl e"])
  next
    case (Inr a)
    then have plain: "append_pivots (append_zone cfg) tf cfg c (structure_state.truncate st) = Inr (structure_state.truncate a)"
      using pivots by simp
    then have trunc: "structure_state.truncate a = before_event tf cfg candles c (structure_state.truncate st)"
      using base by (simp split: if_splits)
    have a: "closed_tracks cfg a" "hot_rest a = hot_rest st" "\<exists>ys. ss_confirmed a = ss_confirmed st @ ys"
      using pivots Inr by blast+
    have swings: "ss_confirmed a = confirmed_swings (candles @ [c]) tf cfg"
      using arg_cong [OF trunc, of ss_confirmed] by (simp add: structure_state.truncate_def before_event_def)
    have ordered: "swings_ordered (ss_confirmed a)"
      unfolding swings by (rule confirmed_swings_ordered [OF cfg(2) assms(5)])
    have past: "\<forall>s\<in>set consumed. cs_confirmed_at s \<le> c_timestamp c"
      using consumed(4) assms(5) by (force simp: chronological_def sorted_wrt_append)
    have tracks: "hot_tracks cfg consumed a"
      using consumed(1) a(2) by (simp add: hot_tracks_def hot_rest_def)
    have prefix: "consumed = take (length consumed) (ss_confirmed a)" "length consumed \<le> length (ss_confirmed a)"
      using a(3) consumed(2,3) by auto
    obtain b where b: "hot_break_context cfg c a =
        Inr (break_context cfg (ss_confirmed a) (bs_broken a) (c_timestamp c), b)"
        "hot_tracks cfg (filter (\<lambda>s. cs_confirmed_at s \<le> c_timestamp c) (ss_confirmed a)) b"
        "structure_state.truncate b = structure_state.truncate a"
        "hs_closed_tail b = hs_closed_tail a" "hs_projection b = hs_projection a"
      using hot_context_exact [OF tracks cfg(3) ordered prefix past] by blast
    have b_swings: "ss_confirmed b = ss_confirmed a"
      using arg_cong [OF b(3), of ss_confirmed] by (simp add: structure_state.truncate_def)
    let ?ctx = "break_context cfg (ss_confirmed a) (bs_broken a) (c_timestamp c)"
    have ctx: "state_break_context cfg c (structure_state.truncate a) = Inr (?ctx, structure_state.truncate a)"
      by (simp add: state_break_context_def structure_state.truncate_def)
    obtain trend up down where parts: "?ctx = (trend, up, down)" by (cases ?ctx)
    note outcome = record_hot [OF b(2)]
    have hot: "append_candle (hot_append_zone cfg) (hot_break_context cfg) tf cfg c st =
        on_result (\<lambda>out. record_outcome out b) (structure_break cfg tf c trend up down)"
      unfolding append_candle_def Inr bind_result_simps b(1) parts prod.case append_structure_event_def
      by (cases "structure_break cfg tf c trend up down") simp_all
    have cold: "append_candle (append_zone cfg) (state_break_context cfg) tf cfg c (structure_state.truncate st) =
        on_result (\<lambda>out. record_outcome out (structure_state.truncate a)) (structure_break cfg tf c trend up down)"
      unfolding append_candle_def plain bind_result_simps ctx parts prod.case append_structure_event_def
      by (cases "structure_break cfg tf c trend up down") simp_all
    have seen: "hot_seen cfg (candles @ [c]) (record_outcome out b)" for out
    proof -
      let ?e = "filter (\<lambda>s. cs_confirmed_at s \<le> c_timestamp c) (ss_confirmed a)"
      obtain ys where "ss_confirmed a = ?e @ ys"
        using filter_le_prefix [of cs_confirmed_at "ss_confirmed a" "c_timestamp c"] ordered
        by (auto simp: swings_ordered_def)
      then have "?e = take (length ?e) (ss_confirmed a)" by (metis append_eq_conv_conj)
      moreover have "length ?e \<le> length (ss_confirmed a)" by simp
      moreover have "\<forall>s\<in>set ?e. \<exists>x\<in>set (candles @ [c]). cs_confirmed_at s \<le> c_timestamp x" by auto
      moreover have "closed_tracks cfg (record_outcome out b)"
        using a(1) b(4) by (simp add: closed_tracks_def outcome(3,5) b_swings)
      ultimately show ?thesis
        unfolding hot_seen_def using outcome(1) [of out] by (metis outcome(5) b_swings)
    qed
    have "hs_projection b = hs_projection st" using b(5) a(2) by (simp add: hot_rest_def)
    then show ?thesis
      unfolding hot cold using seen
      by (cases "structure_break cfg tf c trend up down") (simp_all add: outcome(2,4) b(3))
  qed
qed

lemma hot_append_all:
  assumes "hot_seen cfg candles st" "has_seen tf cfg candles (structure_state.truncate st)"
    and "structure_config_valid cfg" "candles_exact cfg (candles @ new)" "chronological (candles @ new)"
  shows "on_result structure_state.truncate
        (for_each (append_candle (hot_append_zone cfg) (hot_break_context cfg) tf cfg) new st)
      = for_each (append_candle (append_zone cfg) (state_break_context cfg) tf cfg) new (structure_state.truncate st)
    \<and> (\<forall>st'. for_each (append_candle (hot_append_zone cfg) (hot_break_context cfg) tf cfg) new st = Inr st' \<longrightarrow>
        hot_seen cfg (candles @ new) st' \<and> hs_projection st' = hs_projection st)"
  using assms(1,2,4,5)
proof (induction new arbitrary: candles st)
  case (Cons c new)
  have cfg: "0 < ms_tick_size cfg" "0 < ms_right_bars cfg" using assms(3) by (auto simp: structure_config_valid_def)
  have assoc: "candles @ c # new = (candles @ [c]) @ new" by simp
  have exact: "candles_exact cfg (candles @ [c])" using Cons.prems(3) by (auto simp: candles_exact_def)
  have chron: "chronological (candles @ [c])" using Cons.prems(4) chronological_prefix unfolding assoc by blast
  note step = hot_append_candle [OF Cons.prems(1,2) assms(3) exact chron]
  show ?case
  proof (cases "append_candle (hot_append_zone cfg) (hot_break_context cfg) tf cfg c st")
    case (Inl e)
    then show ?thesis using step by (simp add: eq_commute [of "Inl e"])
  next
    case (Inr a)
    then have plain: "append_candle (append_zone cfg) (state_break_context cfg) tf cfg c (structure_state.truncate st)
        = Inr (structure_state.truncate a)" and a: "hot_seen cfg (candles @ [c]) a" "hs_projection a = hs_projection st"
      using step by simp_all
    have "\<forall>s\<in>set (confirmed_swings (candles @ [c]) tf cfg). swing_exact cfg s"
      using confirmed_swings_exact [OF exact cfg(2)] by blast
    moreover have "candle_valid c" using exact by (simp add: candles_exact_def)
    ultimately have "has_seen tf cfg (candles @ [c]) (structure_state.truncate a)"
      using has_seen_snoc [OF Cons.prems(2) cfg _ chron] plain by (simp split: if_splits)
    from Cons.IH [OF a(1) this] Cons.prems(3,4) show ?thesis
      using Inr plain a(2) by (simp add: assoc del: append_assoc append_Cons)
  qed
qed simp

section \<open>A hot replay is the analysis\<close>

definition hot_replay_seen ::
  "timeframe \<Rightarrow> structure_config \<Rightarrow> candle list \<Rightarrow> hot_structure_state \<Rightarrow> bool" where
  "hot_replay_seen tf cfg candles st \<longleftrightarrow>
     hot_seen cfg candles st \<and> replay_seen tf cfg candles (structure_state.truncate st)
     \<and> (\<forall>r. hs_projection st = Some r \<longrightarrow> analyze_market_structure candles tf cfg = Inr r)"

lemma hot_start_fields:
  "structure_state.truncate hot_structure_start = structure_start" "hs_projection hot_structure_start = None"
  by (simp_all add: hot_structure_start_def structure_state.truncate_def structure_state.extend_def
      structure_start_def hot_structure_state.fields_def)

lemma hot_seen_start: "hot_seen cfg [] hot_structure_start"
  by (auto simp: hot_seen_def closed_tracks_def hot_tracks_def hot_structure_start_def structure_start_def
      structure_state.extend_def hot_structure_state.fields_def intro!: exI [of _ "[]"])

lemma hot_reset_start: "hot_structure_reset st = hot_structure_start"
  by (rule hot_structure_state.equality)
    (simp_all add: hot_structure_reset_def hot_structure_start_def structure_reset_def structure_start_def
      structure_state.extend_def hot_structure_state.fields_def)

lemma hot_append_candles:
  assumes "hot_replay_seen tf cfg old st" "structure_config_valid cfg" "candles_exact cfg incoming"
  shows "on_result structure_state.truncate
        (append_candles (hot_append_zone cfg) (hot_break_context cfg) hot_structure_reset tf cfg incoming st)
      = structure_append tf cfg incoming (structure_state.truncate st)
    \<and> (\<forall>st'. append_candles (hot_append_zone cfg) (hot_break_context cfg) hot_structure_reset tf cfg incoming st
          = Inr st' \<longrightarrow>
        hot_seen cfg incoming st'
        \<and> hs_projection st' = (if prefix_ok old incoming then hs_projection st else None))"
proof -
  define a where "a = (if prefix_ok old incoming then st else hot_structure_start)"
  define seen where "seen = (if prefix_ok old incoming then old else [])"
  have candles: "ss_candles st = old" "ss_candles (structure_state.truncate st) = old"
    using assms(1) by (simp_all add: hot_replay_seen_def replay_seen_def has_seen_def structure_state.truncate_def)
  have r: "0 < ms_right_bars cfg" "0 < ms_tick_size cfg" using assms(2) by (simp_all add: structure_config_valid_def)
  have a: "hot_seen cfg seen a" "has_seen tf cfg seen (structure_state.truncate a)"
      "hs_projection a = (if prefix_ok old incoming then hs_projection st else None)"
    using assms(1) hot_seen_start has_seen_start [OF r(1)] hot_start_fields
    by (simp_all add: a_def seen_def hot_replay_seen_def replay_seen_def)
  have trunc: "structure_state.truncate a =
      (if prefix_ok old incoming then structure_state.truncate st else structure_start)"
    by (simp add: a_def hot_start_fields)
  have len: "ss_candles a = seen" using a(2) by (simp add: has_seen_def structure_state.truncate_def)
  then have len': "ss_candles (structure_state.truncate a) = seen" by (simp add: structure_state.truncate_def)
  obtain new where new: "incoming = seen @ new" and drop: "drop (length seen) incoming = new"
    by (cases "prefix_ok old incoming") (auto simp: seen_def prefix_ok_def, metis append_take_drop_id)
  have hot: "append_candles (hot_append_zone cfg) (hot_break_context cfg) hot_structure_reset tf cfg incoming st =
      bind_result (validate_structure_candles (drop (length seen - 1) incoming) tf (ms_tick_size cfg)) (\<lambda>_.
        for_each (append_candle (hot_append_zone cfg) (hot_break_context cfg) tf cfg) new a)"
    unfolding append_candles_def candles hot_reset_start a_def [symmetric] Let_def len drop ..
  have cold: "structure_append tf cfg incoming (structure_state.truncate st) =
      bind_result (validate_structure_candles (drop (length seen - 1) incoming) tf (ms_tick_size cfg)) (\<lambda>_.
        for_each (append_candle (append_zone cfg) (state_break_context cfg) tf cfg) new (structure_state.truncate a))"
    unfolding structure_append_def append_candles_def candles structure_reset_start trunc [symmetric] Let_def len' drop ..
  show ?thesis
  proof (cases "validate_structure_candles (drop (length seen - 1) incoming) tf (ms_tick_size cfg)")
    case (Inl e)
    then show ?thesis by (simp add: hot cold)
  next
    case (Inr u)
    have "validate_structure_candles seen tf (ms_tick_size cfg) = Inr ()"
      using assms(1) by (simp add: seen_def hot_replay_seen_def replay_seen_def validate_structure_candles_def
          validate_tick_candles_def)
    from validate_rest [OF r(2) this, of new u] have "validate_structure_candles (seen @ new) tf (ms_tick_size cfg) = Inr u"
      using Inr by (simp add: new)
    then have "chronological (seen @ new)" using validate_structure_chronological [OF r(2)] by simp
    from hot_append_all [OF a(1,2) assms(2) _ this] assms(3) show ?thesis
      unfolding hot cold Inr bind_result_simps new [symmetric] a(3) by simp
  qed
qed

lemma hot_structure_append_seen:
  assumes "hot_replay_seen tf cfg old st" "structure_config_valid cfg" "candles_exact cfg incoming"
  shows "if \<exists>r. analyze_market_structure incoming tf cfg = Inr r
    then \<exists>st'. hot_structure_append tf cfg incoming st = Inr st' \<and> hot_replay_seen tf cfg incoming st'
    else \<exists>e. hot_structure_append tf cfg incoming st = Inl e"
proof -
  note hot = hot_append_candles [OF assms]
  have "replay_seen tf cfg old (structure_state.truncate st)" using assms(1) by (simp add: hot_replay_seen_def)
  note cold = structure_append_seen [OF this assms(2,3)]
  have candles: "ss_candles st = old"
    using assms(1) by (simp add: hot_replay_seen_def replay_seen_def has_seen_def structure_state.truncate_def)
  show ?thesis
  proof (cases "append_candles (hot_append_zone cfg) (hot_break_context cfg) hot_structure_reset tf cfg incoming st")
    case (Inl e)
    then have "structure_append tf cfg incoming (structure_state.truncate st) = Inl e" using hot by simp
    then show ?thesis using cold Inl by (auto simp: hot_structure_append_def split: if_splits)
  next
    case (Inr a)
    then have plain: "structure_append tf cfg incoming (structure_state.truncate st) = Inr (structure_state.truncate a)"
      and a: "hot_seen cfg incoming a" "hs_projection a = (if prefix_ok old incoming then hs_projection st else None)"
      using hot by simp_all
    have returns: "\<exists>r. analyze_market_structure incoming tf cfg = Inr r"
      using cold plain by (metis Inr_Inl_False)
    then have seen: "replay_seen tf cfg incoming (structure_state.truncate a)"
      using cold plain by (simp split: if_splits)
    let ?st = "if ss_candles a \<noteq> ss_candles st then a\<lparr>hs_projection := None\<rparr> else a"
    have "ss_candles a = incoming"
      using seen by (simp add: replay_seen_def has_seen_def structure_state.truncate_def)
    then have "hs_projection ?st = Some r \<Longrightarrow> analyze_market_structure incoming tf cfg = Inr r" for r
      using a(2) candles assms(1) by (auto simp: hot_replay_seen_def split: if_splits)
    moreover have "hot_seen cfg incoming ?st"
      using a(1) by (auto simp: hot_seen_def closed_tracks_def hot_tracks_def)
    moreover have "structure_state.truncate ?st = structure_state.truncate a"
      by (simp add: structure_state.truncate_def)
    ultimately have "hot_replay_seen tf cfg incoming ?st"
      using seen by (simp add: hot_replay_seen_def)
    moreover have "hot_structure_append tf cfg incoming st = Inr ?st"
      by (simp add: hot_structure_append_def Inr)
    ultimately show ?thesis using returns by auto
  qed
qed

lemma hot_result_seen:
  assumes "hot_replay_seen tf cfg candles st" "structure_config_valid cfg"
    and "analyze_market_structure candles tf cfg = Inr r"
  shows "fst (hot_structure_result tf cfg st) = r \<and> hot_replay_seen tf cfg candles (snd (hot_structure_result tf cfg st))"
proof (cases "hs_projection st")
  case None
  have "closed_tracks cfg st" using assms(1) by (simp add: hot_replay_seen_def hot_seen_def)
  then have "hot_result_trend cfg st = classify_trend (ss_confirmed st) cfg"
    using classify_tails [of cfg "ss_confirmed st"] by (simp add: hot_result_trend_def closed_tracks_def)
  then have "project_structure tf cfg (hot_result_trend cfg st) st
      = structure_result tf cfg (structure_state.truncate st)"
    by (simp add: structure_result_def project_structure_def structure_state.truncate_def)
  also have "\<dots> = r"
    using seen_result [OF _ assms(2,3)] assms(1) by (simp add: hot_replay_seen_def)
  finally have r: "hot_structure_result tf cfg st = (r, st\<lparr>hs_projection := Some r\<rparr>)"
    using None by (simp add: hot_structure_result_def Let_def)
  have "hot_seen cfg candles (st\<lparr>hs_projection := Some r\<rparr>)"
    using assms(1) by (auto simp: hot_replay_seen_def hot_seen_def closed_tracks_def hot_tracks_def)
  then show ?thesis
    using assms(1,3) by (simp add: r hot_replay_seen_def structure_state.truncate_def)
next
  case (Some r')
  then show ?thesis using assms(1,3) by (simp add: hot_structure_result_def hot_replay_seen_def)
qed

interpretation hot: checked_replay "hot_structure_append tf cfg" "hot_structure_result tf cfg"
    "\<lambda>candles. analyze_market_structure candles tf cfg" hot_structure_start "hot_replay_seen tf cfg"
    "\<lambda>candles. structure_config_valid cfg \<and> candles_exact cfg candles"
  for tf cfg
proof unfold_locales
  show "hot_replay_seen tf cfg [] hot_structure_start" if "structure_config_valid cfg \<and> candles_exact cfg bars" for bars
    using that hot_seen_start hot_start_fields replay_seen_start by (simp add: hot_replay_seen_def)
next
  fix old st bars r
  assume "hot_replay_seen tf cfg old st" "structure_config_valid cfg \<and> candles_exact cfg bars"
    "analyze_market_structure bars tf cfg = Inr r"
  then show "\<exists>st'. hot_structure_append tf cfg bars st = Inr st' \<and> hot_replay_seen tf cfg bars st'"
    using hot_structure_append_seen [of tf cfg old st bars] by auto
next
  fix old st bars e
  assume "hot_replay_seen tf cfg old st" "structure_config_valid cfg \<and> candles_exact cfg bars"
    "analyze_market_structure bars tf cfg = Inl e"
  then show "\<exists>e'. hot_structure_append tf cfg bars st = Inl e'"
    using hot_structure_append_seen [of tf cfg old st bars] by auto
qed (use hot_result_seen in blast)

text \<open>
  C31: the hot replay is the analysis too. The tails, the frontier, the stacks and the cached projection of the
  hot state change nothing of the results: after any sequence of inputs, repeated, extended or unrelated, each
  result read is the analysis of the bars last fed, the assertion on the order of the swings never fails, and
  the replay raises exactly when an analysis does.
\<close>

theorem hot_structure_is_analysis:
  assumes "structure_config_valid cfg" "list_all (candles_exact cfg) inputs"
  shows "replay_results (hot_structure_append tf cfg) (hot_structure_result tf cfg) inputs
      hot_structure_start = Inr results
    \<longleftrightarrow> map_result (\<lambda>candles. analyze_market_structure candles tf cfg) inputs = Inr results"
  by (rule hot.results_exact) (use assms in \<open>simp add: list_all_iff\<close>)

theorem hot_structure_is_analysis_witness:
  "replay_results (hot_structure_append ONE_MINUTE sample_structure_config)
     (hot_structure_result ONE_MINUTE sample_structure_config)
     [sample_bars, [], sample_bars, sample_bars] hot_structure_start = Inr sample_replay
   \<and> map se_type (mr_structure_events (last sample_replay)) = [BREAK]"
  using hot_structure_is_analysis [OF sample_structure_valid(1),
      of "[sample_bars, [], sample_bars, sample_bars]" ONE_MINUTE sample_replay]
    sample_candles_exact sample_replay_analyzed sample_structure_events
  by (simp add: sample_replay_def)

end
