(* ===== verification/Indicators.thy ===== *)
theory Indicators
  imports Market_Data Decimal_Context Replay
begin

text \<open>
  The indicators (\<open>schemas/indicator.py\<close>, \<open>engines/indicators/calculations.py\<close>): exponential averages,
  MACD with its crossovers, true ranges and ATR, and the append-only indicator state of the historical
  replay (\<open>_IndicatorState\<close> in \<open>engines/incremental_strategy_engine.py\<close>). The true ranges are computed in
  the default decimal context, the rest in a context of 34 digits; every rounding is in the model, and the
  theorems hold with it. \<open>Decimal\<close> values that are absent (\<open>None\<close>) are options.
\<close>

section \<open>Data model\<close>

datatype atr_smoothing = WILDER | SMA

record macd_config =
  mc_fast_period :: nat
  mc_slow_period :: nat
  mc_signal_period :: nat

definition macd_config_valid :: "macd_config \<Rightarrow> bool" where
  "macd_config_valid cfg \<longleftrightarrow>
     1 \<le> mc_fast_period cfg \<and> 2 \<le> mc_slow_period cfg \<and> 1 \<le> mc_signal_period cfg
     \<and> mc_fast_period cfg < mc_slow_period cfg"

record atr_config =
  at_period :: nat
  at_smoothing :: atr_smoothing

definition atr_config_valid :: "atr_config \<Rightarrow> bool" where
  "atr_config_valid cfg \<longleftrightarrow> 1 \<le> at_period cfg"

record macd_point =
  mp_timestamp :: utc_time
  mp_fast_ema :: "rat option"
  mp_slow_ema :: "rat option"
  mp_macd_line :: "rat option"
  mp_signal_line :: "rat option"
  mp_histogram :: "rat option"
  mp_bullish_crossover :: bool
  mp_bearish_crossover :: bool
  mp_histogram_increasing :: bool
  mp_histogram_decreasing :: bool

record macd_result =
  md_config :: macd_config
  md_source :: string
  md_points :: "macd_point list"

record atr_point =
  ap_timestamp :: utc_time
  ap_true_range :: rat
  ap_atr :: "rat option"

record atr_result =
  ar_config :: atr_config
  ar_points :: "atr_point list"

record indicator_analysis =
  ia_candle_count :: nat
  ia_data_cutoff_at :: "utc_time option"
  ia_macd :: macd_result
  ia_atr :: atr_result

section \<open>The context of 34 digits\<close>

definition iround :: "rat \<Rightarrow> rat" where
  "iround x = round_sig 34 x"

definition iadd :: "rat \<Rightarrow> rat \<Rightarrow> rat" where "iadd x y = iround (x + y)"

definition isub :: "rat \<Rightarrow> rat \<Rightarrow> rat" where "isub x y = iround (x - y)"

definition imul :: "rat \<Rightarrow> rat \<Rightarrow> rat" where "imul x y = iround (x * y)"

definition idiv :: "rat \<Rightarrow> rat \<Rightarrow> rat" where "idiv x y = iround (x / y)"

definition isum :: "rat list \<Rightarrow> rat" where
  "isum xs = foldl iadd 0 xs"

section \<open>Exponential averages\<close>

definition validate_indicator_order :: "candle list \<Rightarrow> unit result" where
  "validate_indicator_order candles =
     check_all (\<lambda>(previous, current).
       require (\<not> c_timestamp current \<le> c_timestamp previous)
         (IndicatorInputError ''candles must have unique timestamps in ascending order''))
       (adjacent candles)"

definition ema_step :: "rat \<Rightarrow> rat \<Rightarrow> rat \<Rightarrow> rat" where
  "ema_step alpha previous x = iadd previous (imul alpha (isub x previous))"

primrec ema_loop :: "rat \<Rightarrow> rat \<Rightarrow> rat list \<Rightarrow> rat option list" where
  "ema_loop alpha previous [] = []"
| "ema_loop alpha previous (x # xs) =
     (let previous = ema_step alpha previous x in Some (iround previous) # ema_loop alpha previous xs)"

definition calculate_ema :: "rat list \<Rightarrow> nat \<Rightarrow> rat option list result" where
  "calculate_ema values period =
     (if period < 1 then Inl (ValueError ''period must be at least 1'')
      else if length values < period then Inr (replicate (length values) None)
      else let seed = idiv (isum (take period values)) (of_nat period);
               alpha = idiv 2 (of_nat (period + 1))
           in Inr (replicate (period - 1) None @ Some (iround seed)
                   # ema_loop alpha seed (drop period values)))"

section \<open>MACD\<close>

definition macd_value :: "rat option list \<Rightarrow> rat option list \<Rightarrow> nat \<Rightarrow> nat \<Rightarrow> rat option result" where
  "macd_value fast_ema slow_ema macd_start index =
     (if index < macd_start then Inr None
      else case (fast_ema ! index, slow_ema ! index) of
        (Some fast_value, Some slow_value) \<Rightarrow> Inr (Some (iround (isub fast_value slow_value)))
      | _ \<Rightarrow> Inl AssertionError)"

definition histogram_value :: "rat option \<Rightarrow> rat option \<Rightarrow> rat option" where
  "histogram_value macd signal =
     (case (macd, signal) of
        (Some m, Some s) \<Rightarrow> Some (iround (isub m s)) | _ \<Rightarrow> None)"

definition crosses :: "(rat \<Rightarrow> rat \<Rightarrow> bool) \<Rightarrow> (rat \<Rightarrow> rat \<Rightarrow> bool) \<Rightarrow> rat option \<Rightarrow> rat option \<Rightarrow> rat option \<Rightarrow> rat option \<Rightarrow> bool" where
  "crosses before now previous_macd previous_signal current_macd current_signal =
     (case (previous_macd, previous_signal, current_macd, current_signal) of
        (Some pm, Some ps, Some cm, Some cs) \<Rightarrow> before pm ps \<and> now cm cs | _ \<Rightarrow> False)"

definition compares :: "(rat \<Rightarrow> rat \<Rightarrow> bool) \<Rightarrow> rat option \<Rightarrow> rat option \<Rightarrow> bool" where
  "compares order current previous =
     (case (current, previous) of (Some c, Some p) \<Rightarrow> order c p | _ \<Rightarrow> False)"

definition previous_entry :: "'a option list \<Rightarrow> nat \<Rightarrow> 'a option" where
  "previous_entry xs index = (if 1 \<le> index then xs ! (index - 1) else None)"

definition macd_point_at ::
  "candle list \<Rightarrow> rat option list \<Rightarrow> rat option list \<Rightarrow> rat option list \<Rightarrow> rat option list
     \<Rightarrow> rat option list \<Rightarrow> nat \<Rightarrow> macd_point" where
  "macd_point_at candles fast_ema slow_ema macd_line signal_line histogram index =
     (let previous_macd = previous_entry macd_line index; previous_signal = previous_entry signal_line index;
          current_macd = macd_line ! index; current_signal = signal_line ! index;
          previous_histogram = previous_entry histogram index; current_histogram = histogram ! index
      in \<lparr>mp_timestamp = c_timestamp (candles ! index), mp_fast_ema = fast_ema ! index,
          mp_slow_ema = slow_ema ! index, mp_macd_line = current_macd, mp_signal_line = current_signal,
          mp_histogram = current_histogram,
          mp_bullish_crossover = crosses (\<le>) (>) previous_macd previous_signal current_macd current_signal,
          mp_bearish_crossover = crosses (\<ge>) (<) previous_macd previous_signal current_macd current_signal,
          mp_histogram_increasing = compares (>) current_histogram previous_histogram,
          mp_histogram_decreasing = compares (<) current_histogram previous_histogram\<rparr>)"

definition calculate_macd :: "candle list \<Rightarrow> macd_config \<Rightarrow> macd_result result" where
  "calculate_macd candles cfg =
     bind_result (validate_indicator_order candles) (\<lambda>_.
       let closes = map c_close candles; macd_start = mc_slow_period cfg - 1
       in bind_result (calculate_ema closes (mc_fast_period cfg)) (\<lambda>fast_ema.
          bind_result (calculate_ema closes (mc_slow_period cfg)) (\<lambda>slow_ema.
          bind_result (map_result (macd_value fast_ema slow_ema macd_start) [0..<length candles]) (\<lambda>macd_line.
          let compact_macd = map the (filter (\<lambda>v. v \<noteq> None) macd_line)
          in bind_result (calculate_ema compact_macd (mc_signal_period cfg)) (\<lambda>compact_signal.
             let signal_line = fold (\<lambda>(compact_index, v) xs. xs[macd_start + compact_index := v])
                   (enumerate 0 compact_signal) (replicate (length candles) None);
                 histogram = map2 histogram_value macd_line signal_line
             in Inr \<lparr>md_config = cfg, md_source = ''close'',
                  md_points = map (macd_point_at candles fast_ema slow_ema macd_line signal_line histogram)
                    [0..<length candles]\<rparr>)))))"

section \<open>ATR\<close>

definition true_range :: "candle list \<Rightarrow> nat \<Rightarrow> rat" where
  "true_range candles index =
     (let candle = candles ! index; high_low = dsub (c_high candle) (c_low candle)
      in if index = 0 then high_low
         else let previous_close = c_close (candles ! (index - 1))
              in max (max high_low (dabs (dsub (c_high candle) previous_close)))
                   (dabs (dsub (c_low candle) previous_close)))"

definition true_ranges :: "candle list \<Rightarrow> rat list" where
  "true_ranges candles = map (true_range candles) [0..<length candles]"

definition wilder_step :: "nat \<Rightarrow> rat \<Rightarrow> rat \<Rightarrow> rat" where
  "wilder_step period previous_atr tr =
     idiv (iadd (imul previous_atr (of_nat (period - 1))) tr) (of_nat period)"

primrec wilder_loop :: "nat \<Rightarrow> rat \<Rightarrow> rat list \<Rightarrow> rat option list" where
  "wilder_loop period previous_atr [] = []"
| "wilder_loop period previous_atr (tr # trs) =
     (let previous_atr = wilder_step period previous_atr tr
      in Some (iround previous_atr) # wilder_loop period previous_atr trs)"

definition sma_window :: "nat \<Rightarrow> rat list \<Rightarrow> nat \<Rightarrow> rat" where
  "sma_window period trs index =
     idiv (isum (take period (drop (index + 1 - period) trs))) (of_nat period)"

definition atr_values :: "rat list \<Rightarrow> atr_config \<Rightarrow> rat option list" where
  "atr_values trs cfg =
     (let period = at_period cfg
      in if length trs < period then replicate (length trs) None
         else if at_smoothing cfg = SMA
         then replicate (period - 1) None
           @ map (\<lambda>index. Some (iround (sma_window period trs index))) [period - 1..<length trs]
         else let previous_atr = idiv (isum (take period trs)) (of_nat period)
              in replicate (period - 1) None @ Some (iround previous_atr)
                 # wilder_loop period previous_atr (drop period trs))"

definition calculate_atr :: "candle list \<Rightarrow> atr_config \<Rightarrow> atr_result result" where
  "calculate_atr candles cfg =
     bind_result (validate_indicator_order candles) (\<lambda>_.
       let trs = true_ranges candles; values = atr_values trs cfg
       in Inr \<lparr>ar_config = cfg,
            ar_points = map (\<lambda>index. \<lparr>ap_timestamp = c_timestamp (candles ! index),
              ap_true_range = trs ! index, ap_atr = values ! index\<rparr>) [0..<length candles]\<rparr>)"

definition calculate_indicators ::
  "candle list \<Rightarrow> timeframe \<Rightarrow> macd_config \<Rightarrow> atr_config \<Rightarrow> indicator_analysis result" where
  "calculate_indicators candles tf macd_cfg atr_cfg =
     bind_result (validate_indicator_order candles) (\<lambda>_.
       bind_result (calculate_macd candles macd_cfg) (\<lambda>macd.
         bind_result (calculate_atr candles atr_cfg) (\<lambda>atr.
           Inr \<lparr>ia_candle_count = length candles, ia_data_cutoff_at = data_cutoff candles tf,
                ia_macd = macd, ia_atr = atr\<rparr>)))"

section \<open>The replay state\<close>

record indicator_state =
  is_candles :: "candle list"
  is_fast :: "rat option list"
  is_slow :: "rat option list"
  is_macd :: "rat option list"
  is_signal :: "rat option list"
  is_histogram :: "rat option list"
  is_true_ranges :: "rat list"
  is_atr :: "rat option list"
  is_macd_points :: "macd_point list"
  is_atr_points :: "atr_point list"

definition indicator_start :: indicator_state where
  "indicator_start = \<lparr>is_candles = [], is_fast = [], is_slow = [], is_macd = [], is_signal = [],
     is_histogram = [], is_true_ranges = [], is_atr = [], is_macd_points = [], is_atr_points = []\<rparr>"

definition indicator_reset :: "indicator_state \<Rightarrow> indicator_state" where
  "indicator_reset st = st\<lparr>is_candles := [], is_fast := [], is_slow := [], is_macd := [], is_signal := [],
     is_histogram := [], is_true_ranges := [], is_atr := [], is_macd_points := [], is_atr_points := []\<rparr>"

definition previous_value :: "rat option list \<Rightarrow> rat result" where
  "previous_value outputs =
     (if outputs = [] then Inl IndexError
      else case last outputs of None \<Rightarrow> Inl AssertionError | Some v \<Rightarrow> Inr v)"

definition state_ema :: "candle list \<Rightarrow> nat \<Rightarrow> nat \<Rightarrow> rat option list \<Rightarrow> rat option result" where
  "state_ema candles index period outputs =
     (if int index < int period - 1 then Inr None
      else if int index = int period - 1
      then Inr (Some (iround (idiv (isum (map c_close (take period candles))) (of_nat period))))
      else bind_result (previous_value outputs) (\<lambda>previous.
        let alpha = idiv 2 (of_nat (period + 1))
        in Inr (Some (iround (ema_step alpha previous (c_close (candles ! index)))))))"

definition state_signal ::
  "macd_config \<Rightarrow> nat \<Rightarrow> rat option list \<Rightarrow> rat option \<Rightarrow> rat option list \<Rightarrow> rat option result" where
  "state_signal cfg index macd current signal =
     (let compact_index = int index - int (mc_slow_period cfg) + 1; period = mc_signal_period cfg
      in case current of
        None \<Rightarrow> Inr None
      | Some m \<Rightarrow>
          if compact_index = int period - 1
          then let seed_values = map the (filter (\<lambda>v. v \<noteq> None)
                     (drop (index + 1 - period) (take (index + 1) macd)))
               in Inr (Some (iround (idiv (isum seed_values) (of_nat period))))
          else if compact_index \<ge> int period
          then bind_result (previous_value signal) (\<lambda>previous.
            Inr (Some (iround (iadd previous (imul (idiv 2 (of_nat (period + 1))) (isub m previous))))))
          else Inr None)"

definition state_atr :: "atr_config \<Rightarrow> nat \<Rightarrow> rat list \<Rightarrow> rat option list \<Rightarrow> rat option result" where
  "state_atr cfg index trs atr =
     (let period = at_period cfg
      in if int index < int period - 1 then Inr None
         else if int index = int period - 1
         then Inr (Some (iround (idiv (isum (take period trs)) (of_nat period))))
         else if at_smoothing cfg = SMA
         then Inr (Some (iround (idiv (isum (take period (drop (index + 1 - period) trs))) (of_nat period))))
         else bind_result (previous_value atr) (\<lambda>previous.
           Inr (Some (iround (idiv (iadd (imul previous (of_nat (period - 1))) (trs ! index)) (of_nat period))))))"

definition append_indicator ::
  "macd_config \<Rightarrow> atr_config \<Rightarrow> candle \<Rightarrow> indicator_state \<Rightarrow> indicator_state result" where
  "append_indicator macd_cfg atr_cfg candle st =
     (let index = length (is_candles st); candles = is_candles st @ [candle]
      in bind_result (state_ema candles index (mc_fast_period macd_cfg) (is_fast st)) (\<lambda>fast.
         bind_result (state_ema candles index (mc_slow_period macd_cfg) (is_slow st)) (\<lambda>slow.
         let macd = histogram_value fast slow; macds = is_macd st @ [macd]
         in bind_result (state_signal macd_cfg index macds macd (is_signal st)) (\<lambda>signal.
            let trs = is_true_ranges st @ [true_range candles index]
            in bind_result (state_atr atr_cfg index trs (is_atr st)) (\<lambda>atr.
               Inr (st\<lparr>is_candles := candles, is_fast := is_fast st @ [fast], is_slow := is_slow st @ [slow],
                 is_macd := macds, is_signal := is_signal st @ [signal],
                 is_histogram := is_histogram st @ [histogram_value macd signal],
                 is_true_ranges := trs, is_atr := is_atr st @ [atr]\<rparr>))))))"

definition indicator_append ::
  "macd_config \<Rightarrow> atr_config \<Rightarrow> candle list \<Rightarrow> indicator_state \<Rightarrow> indicator_state result" where
  "indicator_append macd_cfg atr_cfg incoming st =
     (let st = (if prefix_ok (is_candles st) incoming then st else indicator_reset st)
      in for_each (append_indicator macd_cfg atr_cfg) (drop (length (is_candles st)) incoming) st)"

definition indicator_result ::
  "timeframe \<Rightarrow> macd_config \<Rightarrow> atr_config \<Rightarrow> indicator_state \<Rightarrow> indicator_analysis \<times> indicator_state" where
  "indicator_result tf macd_cfg atr_cfg st =
     (let new = [length (is_macd_points st)..<length (is_candles st)];
          st = st\<lparr>is_macd_points := is_macd_points st @ map (macd_point_at (is_candles st) (is_fast st)
                    (is_slow st) (is_macd st) (is_signal st) (is_histogram st)) new,
                  is_atr_points := is_atr_points st @ map (\<lambda>index.
                    \<lparr>ap_timestamp = c_timestamp (is_candles st ! index),
                     ap_true_range = is_true_ranges st ! index, ap_atr = is_atr st ! index\<rparr>) new\<rparr>
      in (\<lparr>ia_candle_count = length (is_candles st), ia_data_cutoff_at = data_cutoff (is_candles st) tf,
           ia_macd = \<lparr>md_config = macd_cfg, md_source = ''close'', md_points = is_macd_points st\<rparr>,
           ia_atr = \<lparr>ar_config = atr_cfg, ar_points = is_atr_points st\<rparr>\<rparr>, st))"

section \<open>Averages, one value at a time\<close>

lemma iround_idem [simp]: "iround (iround x) = iround x"
  by (simp add: iround_def)

lemma iround_ops [simp]:
  "iround (iadd x y) = iadd x y" "iround (isub x y) = isub x y" "iround (imul x y) = imul x y"
  "iround (idiv x y) = idiv x y" "iround (ema_step a p x) = ema_step a p x"
  "iround (wilder_step n p x) = wilder_step n p x"
  by (simp_all add: iadd_def isub_def imul_def idiv_def ema_step_def wilder_step_def)

definition ema_of :: "nat \<Rightarrow> rat list \<Rightarrow> rat option list" where
  "ema_of period xs =
     (if length xs < period then replicate (length xs) None
      else let seed = idiv (isum (take period xs)) (of_nat period)
           in replicate (period - 1) None @ Some seed
              # ema_loop (idiv 2 (of_nat (period + 1))) seed (drop period xs))"

lemma calculate_ema_eq: "1 \<le> period \<Longrightarrow> calculate_ema xs period = Inr (ema_of period xs)"
  by (simp add: calculate_ema_def ema_of_def Let_def)

lemma ema_loop_snoc:
  "ema_loop a p (xs @ [x]) = ema_loop a p xs @ [Some (ema_step a (foldl (ema_step a) p xs) x)]"
  by (induction xs arbitrary: p) (simp_all add: Let_def)

lemma ema_loop_last: "last (Some p # ema_loop a p xs) = Some (foldl (ema_step a) p xs)"
proof (induction xs arbitrary: p)
  case (Cons x xs)
  have "last (Some p # ema_loop a p (x # xs)) = last (Some (ema_step a p x) # ema_loop a (ema_step a p x) xs)"
    by (simp add: Let_def)
  then show ?case using Cons.IH [of "ema_step a p x"] by simp
qed simp

lemma length_ema_loop [simp]: "length (ema_loop a p xs) = length xs"
  by (induction xs arbitrary: p) (simp_all add: Let_def)

lemma length_ema_of [simp]: "1 \<le> period \<Longrightarrow> length (ema_of period xs) = length xs"
  by (cases "length xs < period") (simp_all add: ema_of_def Let_def)

definition ema_next :: "nat \<Rightarrow> rat list \<Rightarrow> rat \<Rightarrow> rat option" where
  "ema_next period xs x =
     (if length xs + 1 < period then None
      else if length xs + 1 = period then Some (idiv (isum (xs @ [x])) (of_nat period))
      else Some (ema_step (idiv 2 (of_nat (period + 1))) (the (last (ema_of period xs))) x))"

lemma ema_of_snoc:
  assumes "1 \<le> period"
  shows "ema_of period (xs @ [x]) = ema_of period xs @ [ema_next period xs x]"
proof -
  consider "length xs + 1 < period" | "length xs + 1 = period" | "period \<le> length xs" by linarith
  then show ?thesis
  proof cases
    case 1
    then show ?thesis by (simp add: ema_of_def ema_next_def replicate_append_same)
  next
    case 2
    then have "take period (xs @ [x]) = xs @ [x]" "drop period (xs @ [x]) = []" by simp_all
    with 2 show ?thesis by (auto simp: ema_of_def ema_next_def Let_def)
  next
    case 3
    let ?a = "idiv 2 (of_nat (period + 1))" and ?s = "idiv (isum (take period xs)) (of_nat period)"
    have "last (ema_of period xs) = Some (foldl (ema_step ?a) ?s (drop period xs))"
      using 3 ema_loop_last [of ?s ?a "drop period xs"] by (simp add: ema_of_def Let_def)
    with 3 show ?thesis by (simp add: ema_of_def ema_next_def Let_def ema_loop_snoc)
  qed
qed

lemma ema_of_None:
  assumes "1 \<le> period"
  shows "i < length xs \<Longrightarrow> ema_of period xs ! i = None \<longleftrightarrow> i + 1 < period"
proof (induction xs rule: rev_induct)
  case (snoc x xs)
  show ?case
  proof (cases "i < length xs")
    case True
    with snoc show ?thesis using assms by (simp add: ema_of_snoc nth_append)
  next
    case False
    with snoc.prems have "i = length xs" by simp
    with assms show ?thesis by (simp add: ema_of_snoc nth_append ema_next_def)
  qed
qed simp

section \<open>The lines as functions of the closes\<close>

definition macd_of :: "macd_config \<Rightarrow> rat list \<Rightarrow> rat option list" where
  "macd_of cfg closes =
     map2 histogram_value (ema_of (mc_fast_period cfg) closes) (ema_of (mc_slow_period cfg) closes)"

definition compact_of :: "macd_config \<Rightarrow> rat list \<Rightarrow> rat list" where
  "compact_of cfg closes = map the (drop (mc_slow_period cfg - 1) (macd_of cfg closes))"

definition signal_of :: "macd_config \<Rightarrow> rat list \<Rightarrow> rat option list" where
  "signal_of cfg closes =
     replicate (min (mc_slow_period cfg - 1) (length closes)) None
     @ ema_of (mc_signal_period cfg) (compact_of cfg closes)"

definition histogram_of :: "macd_config \<Rightarrow> rat list \<Rightarrow> rat option list" where
  "histogram_of cfg closes = map2 histogram_value (macd_of cfg closes) (signal_of cfg closes)"

lemma valid_periods:
  "macd_config_valid cfg \<Longrightarrow> 1 \<le> mc_fast_period cfg"
  "macd_config_valid cfg \<Longrightarrow> 1 \<le> mc_slow_period cfg"
  "macd_config_valid cfg \<Longrightarrow> 1 \<le> mc_signal_period cfg"
  "macd_config_valid cfg \<Longrightarrow> mc_fast_period cfg < mc_slow_period cfg"
  by (simp_all add: macd_config_valid_def)

lemma lengths_of [simp]:
  assumes "macd_config_valid cfg"
  shows "length (macd_of cfg closes) = length closes"
    "length (compact_of cfg closes) = length closes - (mc_slow_period cfg - 1)"
    "length (signal_of cfg closes) = length closes"
    "length (histogram_of cfg closes) = length closes"
  using valid_periods [OF assms]
  by (auto simp: macd_of_def compact_of_def signal_of_def histogram_of_def)

lemma histogram_value_None [simp]: "histogram_value m s = None \<longleftrightarrow> m = None \<or> s = None"
  by (auto simp: histogram_value_def split: option.split)

lemma macd_of_None:
  assumes "macd_config_valid cfg" "i < length closes"
  shows "macd_of cfg closes ! i = None \<longleftrightarrow> i + 1 < mc_slow_period cfg"
  using assms valid_periods [OF assms(1)] by (auto simp: macd_of_def ema_of_None)

lemma drop_compact:
  assumes "macd_config_valid cfg"
  shows "map the (filter (\<lambda>v. v \<noteq> None) (macd_of cfg closes)) = compact_of cfg closes"
proof -
  let ?k = "mc_slow_period cfg - 1" and ?m = "macd_of cfg closes"
  have "filter (\<lambda>v. v \<noteq> None) (take ?k ?m) = []"
    using macd_of_None [OF assms] by (auto simp: filter_empty_conv in_set_conv_nth lengths_of [OF assms])
  moreover have "filter (\<lambda>v. v \<noteq> None) (drop ?k ?m) = drop ?k ?m"
  proof (rule filter_True, rule ballI)
    fix v assume "v \<in> set (drop ?k ?m)"
    then obtain i where "i < length closes - ?k" "v = ?m ! (?k + i)"
      by (auto simp: in_set_conv_nth lengths_of [OF assms])
    moreover have "?m ! (?k + i) \<noteq> None"
      using macd_of_None [OF assms, of "?k + i" closes] \<open>i < length closes - ?k\<close> by auto
    ultimately show "v \<noteq> None" by simp
  qed
  ultimately have "filter (\<lambda>v. v \<noteq> None) (take ?k ?m @ drop ?k ?m) = drop ?k ?m"
    by (simp only: filter_append append_Nil)
  then show ?thesis by (simp only: append_take_drop_id compact_of_def)
qed

lemma fold_place:
  "fold (\<lambda>(j, v) xs. xs[a + j := v]) (enumerate k vs) (pre @ replicate (length vs) None) = pre @ vs"
  if "length pre = a + k"
  using that
proof (induction vs arbitrary: k pre)
  case (Cons v vs)
  have "(pre @ replicate (length (v # vs)) None)[a + k := v] = (pre @ [v]) @ replicate (length vs) None"
    using Cons.prems by (simp add: list_update_append)
  then show ?case using Cons.IH [of "pre @ [v]" "Suc k"] Cons.prems by simp
qed simp

lemma macd_lines:
  assumes "macd_config_valid cfg"
  shows "map_result (macd_value (ema_of (mc_fast_period cfg) closes) (ema_of (mc_slow_period cfg) closes)
      (mc_slow_period cfg - 1)) [0..<length closes] = Inr (macd_of cfg closes)"
proof -
  note p = valid_periods [OF assms]
  have "macd_value (ema_of (mc_fast_period cfg) closes) (ema_of (mc_slow_period cfg) closes)
      (mc_slow_period cfg - 1) i = Inr (macd_of cfg closes ! i)" if i: "i < length closes" for i
  proof (cases "i < mc_slow_period cfg - 1")
    case True
    then have "macd_of cfg closes ! i = None" using macd_of_None [OF assms i] by simp
    with True show ?thesis by (simp add: macd_value_def)
  next
    case False
    then obtain f s where "ema_of (mc_fast_period cfg) closes ! i = Some f" "ema_of (mc_slow_period cfg) closes ! i = Some s"
      using ema_of_None [OF p(1) i] ema_of_None [OF p(2) i] p(4) by fastforce
    with False i p show ?thesis by (simp add: macd_value_def macd_of_def histogram_value_def)
  qed
  then have "map_result (macd_value (ema_of (mc_fast_period cfg) closes) (ema_of (mc_slow_period cfg) closes)
      (mc_slow_period cfg - 1)) [0..<length closes] = Inr (map ((!) (macd_of cfg closes)) [0..<length closes])"
    by (intro map_result_total) simp
  then show ?thesis using lengths_of(1) [OF assms, of closes] by (metis map_nth)
qed

lemma signal_line_eq:
  assumes "macd_config_valid cfg"
  shows "fold (\<lambda>(j, v) xs. xs[mc_slow_period cfg - 1 + j := v])
      (enumerate 0 (ema_of (mc_signal_period cfg) (compact_of cfg closes))) (replicate (length closes) None)
    = signal_of cfg closes"
proof (cases "length closes < mc_slow_period cfg - 1")
  case True
  then have "compact_of cfg closes = []" by (simp add: compact_of_def lengths_of [OF assms])
  then show ?thesis using True valid_periods [OF assms] by (simp add: signal_of_def ema_of_def)
next
  case False
  let ?vs = "ema_of (mc_signal_period cfg) (compact_of cfg closes)"
  have "length ?vs = length closes - (mc_slow_period cfg - 1)"
    using valid_periods [OF assms] by (simp add: lengths_of [OF assms])
  then have rest: "replicate (length closes) None = replicate (mc_slow_period cfg - 1) None @ replicate (length ?vs) None"
    using False by (simp flip: replicate_add)
  have all: "min (mc_slow_period cfg - 1) (length closes) = mc_slow_period cfg - 1" using False by simp
  show ?thesis unfolding rest signal_of_def all by (rule fold_place) simp
qed

definition macd_points_of :: "macd_config \<Rightarrow> candle list \<Rightarrow> macd_point list" where
  "macd_points_of cfg candles =
     (let closes = map c_close candles
      in map (macd_point_at candles (ema_of (mc_fast_period cfg) closes) (ema_of (mc_slow_period cfg) closes)
           (macd_of cfg closes) (signal_of cfg closes) (histogram_of cfg closes)) [0..<length candles])"

definition atr_points_of :: "atr_config \<Rightarrow> candle list \<Rightarrow> atr_point list" where
  "atr_points_of cfg candles =
     map (\<lambda>i. \<lparr>ap_timestamp = c_timestamp (candles ! i), ap_true_range = true_ranges candles ! i,
         ap_atr = atr_values (true_ranges candles) cfg ! i\<rparr>) [0..<length candles]"

definition indicators_of :: "timeframe \<Rightarrow> macd_config \<Rightarrow> atr_config \<Rightarrow> candle list \<Rightarrow> indicator_analysis" where
  "indicators_of tf macd_cfg atr_cfg candles =
     \<lparr>ia_candle_count = length candles, ia_data_cutoff_at = data_cutoff candles tf,
      ia_macd = \<lparr>md_config = macd_cfg, md_source = ''close'', md_points = macd_points_of macd_cfg candles\<rparr>,
      ia_atr = \<lparr>ar_config = atr_cfg, ar_points = atr_points_of atr_cfg candles\<rparr>\<rparr>"

lemma calculate_indicators_eq:
  assumes "macd_config_valid macd_cfg"
  shows "calculate_indicators candles tf macd_cfg atr_cfg =
    bind_result (validate_indicator_order candles) (\<lambda>_. Inr (indicators_of tf macd_cfg atr_cfg candles))"
proof -
  have "calculate_macd candles macd_cfg = bind_result (validate_indicator_order candles) (\<lambda>_.
      Inr \<lparr>md_config = macd_cfg, md_source = ''close'', md_points = macd_points_of macd_cfg candles\<rparr>)"
    unfolding calculate_macd_def Let_def calculate_ema_eq [OF valid_periods(1) [OF assms]]
      calculate_ema_eq [OF valid_periods(2) [OF assms]] calculate_ema_eq [OF valid_periods(3) [OF assms]]
      bind_result_simps macd_lines [OF assms, of "map c_close candles", unfolded length_map]
      drop_compact [OF assms] signal_line_eq [OF assms, of "map c_close candles", unfolded length_map]
      macd_points_of_def histogram_of_def ..
  then show ?thesis
    by (cases "validate_indicator_order candles")
      (simp_all add: calculate_indicators_def indicators_of_def calculate_atr_def atr_points_of_def Let_def)
qed

section \<open>One more candle\<close>

lemma map2_snoc: "length xs = length ys \<Longrightarrow> map2 f (xs @ [x]) (ys @ [y]) = map2 f xs ys @ [f x y]"
  by simp

definition macd_next :: "macd_config \<Rightarrow> rat list \<Rightarrow> rat \<Rightarrow> rat option" where
  "macd_next cfg closes x =
     histogram_value (ema_next (mc_fast_period cfg) closes x) (ema_next (mc_slow_period cfg) closes x)"

lemma macd_of_snoc:
  assumes "macd_config_valid cfg"
  shows "macd_of cfg (closes @ [x]) = macd_of cfg closes @ [macd_next cfg closes x]"
  unfolding macd_of_def macd_next_def ema_of_snoc [OF valid_periods(1) [OF assms]]
    ema_of_snoc [OF valid_periods(2) [OF assms]]
  by (rule map2_snoc) (use valid_periods [OF assms] in simp)

lemma macd_next_None:
  assumes "macd_config_valid cfg"
  shows "macd_next cfg closes x = None \<longleftrightarrow> length closes + 1 < mc_slow_period cfg"
  using macd_of_None [OF assms, of "length closes" "closes @ [x]"]
  by (simp add: macd_of_snoc [OF assms] nth_append lengths_of [OF assms])

definition signal_next :: "macd_config \<Rightarrow> rat list \<Rightarrow> rat \<Rightarrow> rat option" where
  "signal_next cfg closes x =
     (if length closes + 1 < mc_slow_period cfg then None
      else ema_next (mc_signal_period cfg) (compact_of cfg closes) (the (macd_next cfg closes x)))"

lemma compact_of_snoc:
  assumes "macd_config_valid cfg"
  shows "compact_of cfg (closes @ [x]) =
    (if length closes + 1 < mc_slow_period cfg then [] else compact_of cfg closes @ [the (macd_next cfg closes x)])"
  using valid_periods [OF assms] by (auto simp: compact_of_def macd_of_snoc [OF assms] lengths_of [OF assms])

lemma signal_of_snoc:
  assumes "macd_config_valid cfg"
  shows "signal_of cfg (closes @ [x]) = signal_of cfg closes @ [signal_next cfg closes x]"
proof (cases "length closes + 1 < mc_slow_period cfg")
  case True
  then have "min (mc_slow_period cfg - 1) (Suc (length closes)) = Suc (length closes)"
      "min (mc_slow_period cfg - 1) (length closes) = length closes" by simp_all
  moreover have "compact_of cfg closes = []" using True by (simp add: compact_of_def lengths_of [OF assms])
  ultimately show ?thesis
    using True valid_periods [OF assms]
    by (simp add: signal_of_def compact_of_snoc [OF assms] signal_next_def ema_of_def replicate_append_same)
next
  case False
  then have "min (mc_slow_period cfg - 1) (Suc (length closes)) = mc_slow_period cfg - 1"
      "min (mc_slow_period cfg - 1) (length closes) = mc_slow_period cfg - 1" by simp_all
  with False show ?thesis
    by (simp add: signal_of_def compact_of_snoc [OF assms] signal_next_def ema_of_snoc [OF valid_periods(3) [OF assms]])
qed

lemma histogram_of_snoc:
  assumes "macd_config_valid cfg"
  shows "histogram_of cfg (closes @ [x]) =
    histogram_of cfg closes @ [histogram_value (macd_next cfg closes x) (signal_next cfg closes x)]"
  by (simp add: histogram_of_def macd_of_snoc [OF assms] signal_of_snoc [OF assms] lengths_of [OF assms])

lemma true_ranges_snoc:
  "true_ranges (candles @ [c]) = true_ranges candles @ [true_range (candles @ [c]) (length candles)]"
proof -
  have "true_range (candles @ [c]) i = true_range candles i" if "i < length candles" for i
    using that by (cases i) (simp_all add: true_range_def nth_append Let_def)
  then show ?thesis by (simp add: true_ranges_def)
qed

lemma length_true_ranges [simp]: "length (true_ranges candles) = length candles"
  by (simp add: true_ranges_def)

definition atr_next :: "atr_config \<Rightarrow> rat list \<Rightarrow> rat \<Rightarrow> rat option" where
  "atr_next cfg trs tr =
     (if length trs + 1 < at_period cfg then None
      else if length trs + 1 = at_period cfg then Some (idiv (isum (trs @ [tr])) (of_nat (at_period cfg)))
      else if at_smoothing cfg = SMA then Some (sma_window (at_period cfg) (trs @ [tr]) (length trs))
      else Some (wilder_step (at_period cfg) (the (last (atr_values trs cfg))) tr))"

lemma wilder_loop_snoc:
  "wilder_loop n p (xs @ [x]) = wilder_loop n p xs @ [Some (wilder_step n (foldl (wilder_step n) p xs) x)]"
  by (induction xs arbitrary: p) (simp_all add: Let_def)

lemma wilder_loop_last: "last (Some p # wilder_loop n p xs) = Some (foldl (wilder_step n) p xs)"
proof (induction xs arbitrary: p)
  case (Cons x xs)
  have "last (Some p # wilder_loop n p (x # xs)) = last (Some (wilder_step n p x) # wilder_loop n (wilder_step n p x) xs)"
    by (simp add: Let_def)
  then show ?case using Cons.IH [of "wilder_step n p x"] by simp
qed simp

lemma length_wilder_loop [simp]: "length (wilder_loop n p xs) = length xs"
  by (induction xs arbitrary: p) (simp_all add: Let_def)

lemma length_atr_values [simp]: "atr_config_valid cfg \<Longrightarrow> length (atr_values trs cfg) = length trs"
  by (cases "length trs < at_period cfg") (auto simp: atr_values_def atr_config_valid_def Let_def)

lemma iround_window [simp]: "iround (sma_window n trs i) = sma_window n trs i"
  by (simp add: sma_window_def)

lemma sma_window_prefix:
  "i < length trs \<Longrightarrow> n \<le> i + 1 \<Longrightarrow> sma_window n (trs @ rest) i = sma_window n trs i"
  by (simp add: sma_window_def)

lemma atr_values_snoc:
  assumes "atr_config_valid cfg"
  shows "atr_values (trs @ [tr]) cfg = atr_values trs cfg @ [atr_next cfg trs tr]"
proof -
  let ?n = "at_period cfg"
  have n: "1 \<le> ?n" using assms by (simp add: atr_config_valid_def)
  consider "length trs + 1 < ?n" | "length trs + 1 = ?n" | "?n \<le> length trs" by linarith
  then show ?thesis
  proof cases
    case 1
    then show ?thesis by (simp add: atr_values_def atr_next_def Let_def replicate_append_same)
  next
    case 2
    then have n1: "?n - 1 = length trs" by simp
    have "[?n - 1..<length (trs @ [tr])] = [length trs]" unfolding n1 by simp
    moreover have "take ?n (trs @ [tr]) = trs @ [tr]" "drop ?n (trs @ [tr]) = []" using 2 by simp_all
    moreover note n1
    moreover have "sma_window ?n (trs @ [tr]) (length trs) = idiv (isum (trs @ [tr])) (of_nat ?n)"
      using 2 by (simp add: sma_window_def)
    ultimately show ?thesis using 2 by (simp add: atr_values_def atr_next_def Let_def upt_rec [of "length trs"])
  next
    case 3
    show ?thesis
    proof (cases "at_smoothing cfg = SMA")
      case True
      have "map (\<lambda>i. Some (iround (sma_window ?n (trs @ [tr]) i))) [?n - 1..<length trs]
          = map (\<lambda>i. Some (iround (sma_window ?n trs i))) [?n - 1..<length trs]"
        by (rule map_cong [OF refl]) (simp add: sma_window_prefix le_diff_conv)
      moreover have "[?n - 1..<length (trs @ [tr])] = [?n - 1..<length trs] @ [length trs]" using 3 n by simp
      ultimately show ?thesis using True 3 by (simp add: atr_values_def atr_next_def Let_def)
    next
      case False
      let ?s = "idiv (isum (take ?n trs)) (of_nat ?n)"
      have "last (atr_values trs cfg) = Some (foldl (wilder_step ?n) ?s (drop ?n trs))"
        using 3 False wilder_loop_last [of ?s ?n "drop ?n trs"] by (simp add: atr_values_def Let_def)
      with 3 False show ?thesis by (simp add: atr_values_def atr_next_def Let_def wilder_loop_snoc)
    qed
  qed
qed

lemma atr_values_None:
  assumes "atr_config_valid cfg"
  shows "i < length trs \<Longrightarrow> atr_values trs cfg ! i = None \<longleftrightarrow> i + 1 < at_period cfg"
proof (induction trs rule: rev_induct)
  case (snoc tr trs)
  show ?case
  proof (cases "i < length trs")
    case True
    with snoc show ?thesis by (simp add: atr_values_snoc [OF assms] nth_append assms)
  next
    case False
    with snoc.prems have "i = length trs" by simp
    then show ?thesis by (simp add: atr_values_snoc [OF assms] nth_append assms atr_next_def)
  qed
qed simp

section \<open>Points never change\<close>

text \<open>The points of a prefix are the first points.\<close>

lemma previous_entry_snoc: "i \<le> length xs \<Longrightarrow> previous_entry (xs @ [x]) i = previous_entry xs i"
  by (auto simp: previous_entry_def nth_append)

lemma macd_point_at_prefix:
  assumes "i < length candles" "length fast = length candles" "length slow = length candles"
    "length macd = length candles" "length signal = length candles" "length hist = length candles"
  shows "macd_point_at (candles @ [c]) (fast @ [f]) (slow @ [s]) (macd @ [m]) (signal @ [g]) (hist @ [h]) i
    = macd_point_at candles fast slow macd signal hist i"
  using assms by (simp add: macd_point_at_def previous_entry_snoc nth_append Let_def)

lemma snoc_prefix:
  assumes "\<And>cs c. \<exists>x. f (cs @ [c]) = f cs @ [x]" "f [] = []"
  shows "f (take n cs) = take n (f cs)"
proof -
  have len: "length (f ds) = length ds" for ds
  proof (induction ds rule: rev_induct)
    case (snoc d ds)
    then show ?case using assms(1) [of ds d] by auto
  qed (simp add: assms(2))
  show ?thesis
  proof (induction cs rule: rev_induct)
    case (snoc c cs)
    obtain x where x: "f (cs @ [c]) = f cs @ [x]" using assms(1) by blast
    show ?case
    proof (cases "n \<le> length cs")
      case True
      then show ?thesis using snoc x len by simp
    next
      case False
      then show ?thesis using x len by simp
    qed
  qed (simp add: assms(2))
qed

definition macd_point_next :: "macd_config \<Rightarrow> candle list \<Rightarrow> macd_point" where
  "macd_point_next cfg candles =
     (let closes = map c_close candles
      in macd_point_at candles (ema_of (mc_fast_period cfg) closes) (ema_of (mc_slow_period cfg) closes)
           (macd_of cfg closes) (signal_of cfg closes) (histogram_of cfg closes) (length candles - 1))"

lemma macd_points_snoc:
  assumes "macd_config_valid cfg"
  shows "macd_points_of cfg (candles @ [c]) = macd_points_of cfg candles @ [macd_point_next cfg (candles @ [c])]"
proof -
  let ?closes = "map c_close candles"
  note snoc = ema_of_snoc [OF valid_periods(1) [OF assms]] ema_of_snoc [OF valid_periods(2) [OF assms]]
    macd_of_snoc [OF assms] signal_of_snoc [OF assms] histogram_of_snoc [OF assms]
  have "map (macd_point_at (candles @ [c]) (ema_of (mc_fast_period cfg) (?closes @ [c_close c]))
        (ema_of (mc_slow_period cfg) (?closes @ [c_close c])) (macd_of cfg (?closes @ [c_close c]))
        (signal_of cfg (?closes @ [c_close c])) (histogram_of cfg (?closes @ [c_close c]))) [0..<length candles]
      = macd_points_of cfg candles"
    unfolding macd_points_of_def Let_def snoc
    by (rule map_cong [OF refl], rule macd_point_at_prefix)
      (use valid_periods [OF assms] in \<open>auto simp: lengths_of [OF assms]\<close>)
  then show ?thesis
    by (simp add: macd_points_of_def [of _ "candles @ [c]"] macd_point_next_def Let_def)
qed

lemma atr_points_snoc:
  assumes "atr_config_valid cfg"
  shows "atr_points_of cfg (candles @ [c]) = atr_points_of cfg candles @
    [\<lparr>ap_timestamp = c_timestamp c, ap_true_range = true_range (candles @ [c]) (length candles),
      ap_atr = atr_next cfg (true_ranges candles) (true_range (candles @ [c]) (length candles))\<rparr>]"
  by (simp add: atr_points_of_def true_ranges_snoc atr_values_snoc [OF assms] nth_append length_atr_values [OF assms])

lemma points_prefix:
  assumes "macd_config_valid macd_cfg" "atr_config_valid atr_cfg"
  shows "macd_points_of macd_cfg (take n candles) = take n (macd_points_of macd_cfg candles)"
    and "atr_points_of atr_cfg (take n candles) = take n (atr_points_of atr_cfg candles)"
  by (rule snoc_prefix; use macd_points_snoc [OF assms(1)] in \<open>simp add: macd_points_of_def [of _ "[]"]\<close>)
    (rule snoc_prefix; use atr_points_snoc [OF assms(2)] in \<open>simp add: atr_points_of_def [of _ "[]"]\<close>)

section \<open>The replay state holds the lines\<close>

definition indicator_seen ::
  "macd_config \<Rightarrow> atr_config \<Rightarrow> candle list \<Rightarrow> indicator_state \<Rightarrow> bool" where
  "indicator_seen macd_cfg atr_cfg candles st \<longleftrightarrow>
     (let closes = map c_close candles
      in is_candles st = candles \<and> is_fast st = ema_of (mc_fast_period macd_cfg) closes
         \<and> is_slow st = ema_of (mc_slow_period macd_cfg) closes \<and> is_macd st = macd_of macd_cfg closes
         \<and> is_signal st = signal_of macd_cfg closes \<and> is_histogram st = histogram_of macd_cfg closes
         \<and> is_true_ranges st = true_ranges candles \<and> is_atr st = atr_values (true_ranges candles) atr_cfg)
     \<and> length (is_macd_points st) = length (is_atr_points st)
     \<and> (\<exists>n. is_macd_points st = take n (macd_points_of macd_cfg candles)
            \<and> is_atr_points st = take n (atr_points_of atr_cfg candles))"

lemma previous_value_last:
  "xs \<noteq> [] \<Longrightarrow> last xs \<noteq> None \<Longrightarrow> previous_value xs = Inr (the (last xs))"
  by (auto simp: previous_value_def)

lemma last_ema_of:
  assumes "1 \<le> period" "period \<le> length xs"
  shows "previous_value (ema_of period xs) = Inr (the (last (ema_of period xs)))"
proof (rule previous_value_last)
  have xs: "xs \<noteq> []" using assms by auto
  then have len: "ema_of period xs \<noteq> []" using length_ema_of [OF assms(1), of xs] by fastforce
  then show "ema_of period xs \<noteq> []" .
  have "ema_of period xs ! (length xs - 1) \<noteq> None"
    using ema_of_None [OF assms(1), of "length xs - 1" xs] xs assms(2) by (cases xs) auto
  then show "last (ema_of period xs) \<noteq> None"
    using len by (simp add: last_conv_nth length_ema_of [OF assms(1)])
qed

lemma state_ema_next:
  assumes "1 \<le> period"
  shows "state_ema (candles @ [c]) (length candles) period (ema_of period (map c_close candles))
    = Inr (ema_next period (map c_close candles) (c_close c))"
proof -
  consider "length candles + 1 < period" | "length candles + 1 = period" | "period \<le> length candles" by linarith
  then show ?thesis
  proof cases
    case 2
    then have "take period (candles @ [c]) = candles @ [c]" by simp
    with 2 show ?thesis by (simp add: state_ema_def ema_next_def)
  next
    case 3
    then have "previous_value (ema_of period (map c_close candles))
        = Inr (the (last (ema_of period (map c_close candles))))"
      by (intro last_ema_of [OF assms]) simp
    with 3 show ?thesis by (simp add: state_ema_def ema_next_def Let_def)
  qed (simp add: state_ema_def ema_next_def)
qed

lemma state_signal_next:
  assumes "macd_config_valid cfg"
  shows "state_signal cfg (length closes) (macd_of cfg closes @ [macd_next cfg closes x]) (macd_next cfg closes x)
      (signal_of cfg closes)
    = Inr (signal_next cfg closes x)"
proof (cases "length closes + 1 < mc_slow_period cfg")
  case True
  then have "macd_next cfg closes x = None" using macd_next_None [OF assms] by simp
  with True show ?thesis by (simp add: state_signal_def signal_next_def)
next
  case False
  note p = valid_periods [OF assms]
  let ?sp = "mc_signal_period cfg" and ?slow = "mc_slow_period cfg"
  let ?compact = "compact_of cfg closes"
  obtain m where m: "macd_next cfg closes x = Some m"
    using False macd_next_None [OF assms, of closes x] by auto
  have len: "length ?compact + ?slow = length closes + 1"
    using False p(2) by (simp add: lengths_of [OF assms])
  have next_signal: "signal_next cfg closes x = ema_next ?sp ?compact m"
    using False m by (simp add: signal_next_def)
  consider "length ?compact + 1 < ?sp" | "length ?compact + 1 = ?sp" | "?sp \<le> length ?compact" by linarith
  then show ?thesis
  proof cases
    case 1
    then show ?thesis using len p by (simp add: state_signal_def m next_signal ema_next_def Let_def)
  next
    case 2
    let ?line = "macd_of cfg (closes @ [x])"
    have start: "length closes + 1 - ?sp = ?slow - 1" using 2 len p by simp
    have "map the (filter (\<lambda>v. v \<noteq> None) (drop (?slow - 1) ?line)) = compact_of cfg (closes @ [x])"
    proof -
      have "filter (\<lambda>v. v \<noteq> None) (drop (?slow - 1) ?line) = drop (?slow - 1) ?line"
      proof (rule filter_True, rule ballI)
        fix v assume "v \<in> set (drop (?slow - 1) ?line)"
        then obtain i where "i < length (closes @ [x]) - (?slow - 1)" and v: "v = ?line ! (?slow - 1 + i)"
          by (auto simp: in_set_conv_nth lengths_of [OF assms])
        then have i: "?slow - 1 + i < length (closes @ [x])" by linarith
        show "v \<noteq> None" using macd_of_None [OF assms i] p(2) v by simp
      qed
      then show ?thesis by (simp only: compact_of_def)
    qed
    moreover have "compact_of cfg (closes @ [x]) = ?compact @ [m]"
      using False by (simp add: compact_of_snoc [OF assms] m)
    moreover have "take (length closes + 1) (macd_of cfg closes @ [macd_next cfg closes x]) = ?line"
      by (simp add: macd_of_snoc [OF assms] lengths_of [OF assms])
    ultimately have "map the (filter (\<lambda>v. v \<noteq> None) (drop (length closes + 1 - ?sp)
        (take (length closes + 1) (macd_of cfg closes @ [macd_next cfg closes x])))) = ?compact @ [m]"
      by (simp only: start)
    then have "map the (filter (\<lambda>v. v \<noteq> None) (drop (length closes + 1 - ?sp)
        (take (length closes + 1) (macd_of cfg closes @ [Some m])))) = ?compact @ [m]"
      by (simp only: m)
    moreover have "int (length closes) - int ?slow + 1 = int ?sp - 1" using 2 len by simp
    ultimately show ?thesis
      using 2 unfolding state_signal_def m next_signal ema_next_def Let_def
      by (simp only: option.case if_True) simp
  next
    case 3
    have "?compact \<noteq> []" using 3 p(3) by auto
    then have ne: "ema_of ?sp ?compact \<noteq> []" using length_ema_of [OF p(3), of ?compact] by fastforce
    then have "last (signal_of cfg closes) = last (ema_of ?sp ?compact)" by (simp add: signal_of_def)
    moreover have "signal_of cfg closes \<noteq> []" using ne by (simp add: signal_of_def)
    ultimately have "previous_value (signal_of cfg closes) = previous_value (ema_of ?sp ?compact)"
      using ne by (simp add: previous_value_def)
    also have "\<dots> = Inr (the (last (ema_of ?sp ?compact)))" by (rule last_ema_of [OF p(3) 3])
    finally show ?thesis
      using 3 len by (simp add: state_signal_def m next_signal ema_next_def Let_def ema_step_def)
  qed
qed

lemma state_atr_next:
  assumes "atr_config_valid cfg"
  shows "state_atr cfg (length trs) (trs @ [tr]) (atr_values trs cfg) = Inr (atr_next cfg trs tr)"
proof -
  have n: "1 \<le> at_period cfg" using assms by (simp add: atr_config_valid_def)
  consider "length trs + 1 < at_period cfg" | "length trs + 1 = at_period cfg" | "at_period cfg \<le> length trs" by linarith
  then show ?thesis
  proof cases
    case 2
    then have "take (at_period cfg) (trs @ [tr]) = trs @ [tr]" by simp
    with 2 show ?thesis by (simp add: state_atr_def atr_next_def Let_def)
  next
    case 3
    have ne: "atr_values trs cfg \<noteq> []" using 3 n length_atr_values [OF assms, of trs] by fastforce
    have "atr_values trs cfg ! (length trs - 1) \<noteq> None"
      using atr_values_None [OF assms, of "length trs - 1" trs] 3 n by auto
    then have "previous_value (atr_values trs cfg) = Inr (the (last (atr_values trs cfg)))"
      using ne by (intro previous_value_last) (simp_all add: last_conv_nth length_atr_values [OF assms])
    with 3 show ?thesis
      by (simp add: state_atr_def atr_next_def Let_def sma_window_def wilder_step_def)
  qed (simp add: state_atr_def atr_next_def)
qed

lemma take_snoc_points:
  "xs = take n (f cs) \<Longrightarrow> f (cs @ [c]) = f cs @ [x] \<Longrightarrow> length xs \<le> length (f cs)
    \<Longrightarrow> xs = take (length xs) (f (cs @ [c]))"
  by (auto simp: min_def)

lemma length_points [simp]:
  "length (macd_points_of cfg candles) = length candles" "length (atr_points_of acfg candles) = length candles"
  by (simp_all add: macd_points_of_def atr_points_of_def Let_def)

lemma append_indicator_seen:
  assumes "macd_config_valid macd_cfg" "atr_config_valid atr_cfg" "indicator_seen macd_cfg atr_cfg candles st"
  shows "\<exists>st'. append_indicator macd_cfg atr_cfg c st = Inr st' \<and> indicator_seen macd_cfg atr_cfg (candles @ [c]) st'"
proof -
  let ?closes = "map c_close candles" and ?tr = "true_range (candles @ [c]) (length candles)"
  let ?st = "st\<lparr>is_candles := candles @ [c],
      is_fast := is_fast st @ [ema_next (mc_fast_period macd_cfg) ?closes (c_close c)],
      is_slow := is_slow st @ [ema_next (mc_slow_period macd_cfg) ?closes (c_close c)],
      is_macd := is_macd st @ [macd_next macd_cfg ?closes (c_close c)],
      is_signal := is_signal st @ [signal_next macd_cfg ?closes (c_close c)],
      is_histogram := is_histogram st
        @ [histogram_value (macd_next macd_cfg ?closes (c_close c)) (signal_next macd_cfg ?closes (c_close c))],
      is_true_ranges := is_true_ranges st @ [?tr],
      is_atr := is_atr st @ [atr_next atr_cfg (true_ranges candles) ?tr]\<rparr>"
  have seen: "is_candles st = candles" "is_fast st = ema_of (mc_fast_period macd_cfg) ?closes"
      "is_slow st = ema_of (mc_slow_period macd_cfg) ?closes" "is_macd st = macd_of macd_cfg ?closes"
      "is_signal st = signal_of macd_cfg ?closes" "is_histogram st = histogram_of macd_cfg ?closes"
      "is_true_ranges st = true_ranges candles" "is_atr st = atr_values (true_ranges candles) atr_cfg"
    using assms(3) by (simp_all add: indicator_seen_def Let_def)
  obtain n where points: "length (is_macd_points st) = length (is_atr_points st)"
      "is_macd_points st = take n (macd_points_of macd_cfg candles)"
      "is_atr_points st = take n (atr_points_of atr_cfg candles)"
    using assms(3) by (auto simp: indicator_seen_def)
  have "append_indicator macd_cfg atr_cfg c st = Inr ?st"
    unfolding append_indicator_def Let_def seen state_ema_next [OF valid_periods(1) [OF assms(1)]]
      state_ema_next [OF valid_periods(2) [OF assms(1)]] bind_result_simps macd_next_def [symmetric]
    using state_signal_next [OF assms(1), of ?closes "c_close c"] state_atr_next [OF assms(2), of "true_ranges candles" ?tr]
    by simp
  moreover have "indicator_seen macd_cfg atr_cfg (candles @ [c]) ?st"
  proof -
    have k: "length (is_macd_points st) \<le> length candles" by (simp add: points(2))
    have "is_macd_points st = take (length (is_macd_points st)) (macd_points_of macd_cfg (candles @ [c]))"
      by (rule take_snoc_points [OF points(2) macd_points_snoc [OF assms(1)]]) (use k in simp)
    moreover have "is_atr_points st = take (length (is_atr_points st)) (atr_points_of atr_cfg (candles @ [c]))"
      by (rule take_snoc_points [OF points(3) atr_points_snoc [OF assms(2)]]) (use k points(1) in simp)
    ultimately show ?thesis
      unfolding indicator_seen_def Let_def
      using points(1)
      by (simp add: seen ema_of_snoc [OF valid_periods(1) [OF assms(1)]] ema_of_snoc [OF valid_periods(2) [OF assms(1)]]
          macd_of_snoc [OF assms(1)] signal_of_snoc [OF assms(1)] histogram_of_snoc [OF assms(1)]
          true_ranges_snoc atr_values_snoc [OF assms(2)]) metis
  qed
  ultimately show ?thesis by blast
qed

lemma append_indicators_seen:
  assumes "macd_config_valid macd_cfg" "atr_config_valid atr_cfg" "indicator_seen macd_cfg atr_cfg candles st"
  shows "\<exists>st'. for_each (append_indicator macd_cfg atr_cfg) new st = Inr st'
    \<and> indicator_seen macd_cfg atr_cfg (candles @ new) st'"
  using assms(3)
proof (induction new arbitrary: candles st)
  case (Cons c new)
  obtain a where "append_indicator macd_cfg atr_cfg c st = Inr a" "indicator_seen macd_cfg atr_cfg (candles @ [c]) a"
    using append_indicator_seen [OF assms(1,2) Cons.prems] by blast
  then show ?case using Cons.IH [of "candles @ [c]" a] by simp
qed simp

lemma indicator_seen_start:
  assumes "macd_config_valid macd_cfg" "atr_config_valid atr_cfg"
  shows "indicator_seen macd_cfg atr_cfg [] indicator_start"
proof -
  have "[] = ema_of p []" if "1 \<le> p" for p using that by (simp add: ema_of_def)
  moreover have "[] = atr_values [] atr_cfg" using assms(2) by (simp add: atr_values_def atr_config_valid_def)
  moreover have "[] = signal_of macd_cfg []" "[] = histogram_of macd_cfg []" "[] = macd_of macd_cfg []"
    using lengths_of [OF assms(1), of "[]"] by simp_all
  ultimately show ?thesis
    using valid_periods [OF assms(1)]
    by (simp add: indicator_seen_def indicator_start_def Let_def true_ranges_def macd_points_of_def atr_points_of_def)
qed

lemma indicator_reset_start: "indicator_reset st = indicator_start"
  by (simp add: indicator_reset_def indicator_start_def)

lemma indicator_append_seen:
  assumes "macd_config_valid macd_cfg" "atr_config_valid atr_cfg" "indicator_seen macd_cfg atr_cfg old st"
  shows "\<exists>st'. indicator_append macd_cfg atr_cfg bars st = Inr st' \<and> indicator_seen macd_cfg atr_cfg bars st'"
proof -
  have candles: "is_candles st = old" using assms(3) by (simp add: indicator_seen_def Let_def)
  show ?thesis
  proof (cases "prefix_ok old bars")
    case True
    then have "old @ drop (length old) bars = bars" by (metis append_take_drop_id prefix_ok_def)
    with True show ?thesis
      using append_indicators_seen [OF assms, of "drop (length old) bars"]
      by (simp add: indicator_append_def Let_def candles)
  next
    case False
    have "is_candles indicator_start = []" by (simp add: indicator_start_def)
    with False show ?thesis
      using append_indicators_seen [OF assms(1,2) indicator_seen_start [OF assms(1,2)], of bars]
      by (simp add: indicator_append_def Let_def candles indicator_reset_start)
  qed
qed

lemma map_upt_rest:
  "map f [0..<n] = xs \<Longrightarrow> k \<le> n \<Longrightarrow> take k xs @ map f [k..<n] = xs"
proof -
  assume "map f [0..<n] = xs" "k \<le> n"
  then have "map f [k..<n] = drop k xs" by (auto simp: drop_map)
  then show "take k xs @ map f [k..<n] = xs" by simp
qed

lemma indicator_result_seen:
  assumes "indicator_seen macd_cfg atr_cfg candles st"
  shows "fst (indicator_result tf macd_cfg atr_cfg st) = indicators_of tf macd_cfg atr_cfg candles
    \<and> indicator_seen macd_cfg atr_cfg candles (snd (indicator_result tf macd_cfg atr_cfg st))"
proof -
  let ?closes = "map c_close candles" and ?k = "length (is_macd_points st)"
  have seen: "is_candles st = candles" "is_fast st = ema_of (mc_fast_period macd_cfg) ?closes"
      "is_slow st = ema_of (mc_slow_period macd_cfg) ?closes" "is_macd st = macd_of macd_cfg ?closes"
      "is_signal st = signal_of macd_cfg ?closes" "is_histogram st = histogram_of macd_cfg ?closes"
      "is_true_ranges st = true_ranges candles" "is_atr st = atr_values (true_ranges candles) atr_cfg"
    using assms by (simp_all add: indicator_seen_def Let_def)
  obtain n where points: "?k = length (is_atr_points st)"
      "is_macd_points st = take n (macd_points_of macd_cfg candles)"
      "is_atr_points st = take n (atr_points_of atr_cfg candles)"
    using assms by (auto simp: indicator_seen_def)
  have k: "?k \<le> length candles" "is_macd_points st = take ?k (macd_points_of macd_cfg candles)"
      "is_atr_points st = take ?k (atr_points_of atr_cfg candles)"
    using points by (auto simp: min_def)
  have macd: "take ?k (macd_points_of macd_cfg candles) @ map (macd_point_at candles
        (ema_of (mc_fast_period macd_cfg) ?closes) (ema_of (mc_slow_period macd_cfg) ?closes)
        (macd_of macd_cfg ?closes) (signal_of macd_cfg ?closes) (histogram_of macd_cfg ?closes)) [?k..<length candles]
      = macd_points_of macd_cfg candles"
    by (rule map_upt_rest [OF _ k(1)]) (simp add: macd_points_of_def Let_def)
  have atr: "take ?k (atr_points_of atr_cfg candles) @ map (\<lambda>i. \<lparr>ap_timestamp = c_timestamp (candles ! i),
        ap_true_range = true_ranges candles ! i, ap_atr = atr_values (true_ranges candles) atr_cfg ! i\<rparr>) [?k..<length candles]
      = atr_points_of atr_cfg candles"
    by (rule map_upt_rest [OF _ k(1)]) (simp add: atr_points_of_def)
  have "indicator_result tf macd_cfg atr_cfg st =
    (indicators_of tf macd_cfg atr_cfg candles,
     st\<lparr>is_macd_points := macd_points_of macd_cfg candles, is_atr_points := atr_points_of atr_cfg candles\<rparr>)"
    using macd atr unfolding k(2,3) [symmetric]
    by (simp add: indicator_result_def Let_def seen indicators_of_def)
  moreover have "indicator_seen macd_cfg atr_cfg candles
      (st\<lparr>is_macd_points := macd_points_of macd_cfg candles, is_atr_points := atr_points_of atr_cfg candles\<rparr>)"
    unfolding indicator_seen_def Let_def by (auto simp: seen intro!: exI [of _ "length candles"])
  ultimately show ?thesis by simp
qed

interpretation indicators: replay "indicator_append macd_cfg atr_cfg" "indicator_result tf macd_cfg atr_cfg"
    "\<lambda>candles. calculate_indicators candles tf macd_cfg atr_cfg" indicator_start "indicator_seen macd_cfg atr_cfg"
    "\<lambda>candles. macd_config_valid macd_cfg \<and> atr_config_valid atr_cfg"
  for tf macd_cfg atr_cfg
proof unfold_locales
  show "indicator_seen macd_cfg atr_cfg [] indicator_start"
    if "macd_config_valid macd_cfg \<and> atr_config_valid atr_cfg"
    using that indicator_seen_start by blast
next
  fix old st bars r
  assume "indicator_seen macd_cfg atr_cfg old st" "macd_config_valid macd_cfg \<and> atr_config_valid atr_cfg"
  then show "\<exists>st'. indicator_append macd_cfg atr_cfg bars st = Inr st' \<and> indicator_seen macd_cfg atr_cfg bars st'"
    using indicator_append_seen by blast
next
  fix bars st r
  assume "indicator_seen macd_cfg atr_cfg bars st" "macd_config_valid macd_cfg \<and> atr_config_valid atr_cfg"
    "calculate_indicators bars tf macd_cfg atr_cfg = Inr r"
  then show "fst (indicator_result tf macd_cfg atr_cfg st) = r
      \<and> indicator_seen macd_cfg atr_cfg bars (snd (indicator_result tf macd_cfg atr_cfg st))"
    using indicator_result_seen [of macd_cfg atr_cfg bars st tf]
    by (auto simp: calculate_indicators_eq bind_result_eq_Inr)
qed

section \<open>Properties\<close>

text \<open>
  C32: the indicator state of the replay is exact. After any sequence of inputs, the points it has built one
  candle at a time, with the averages carried from the previous output, are those \<open>calculate_indicators\<close>
  computes from all candles, to the last digit.
\<close>

theorem incremental_indicators_are_exact:
  assumes "macd_config_valid macd_cfg" "atr_config_valid atr_cfg"
    and "map_result (\<lambda>candles. calculate_indicators candles tf macd_cfg atr_cfg) inputs = Inr results"
  shows "replay_results (indicator_append macd_cfg atr_cfg) (indicator_result tf macd_cfg atr_cfg) inputs
      indicator_start = Inr results"
  by (rule indicators.results_of_analysis [OF _ assms(3)]) (use assms(1,2) in \<open>simp add: list_all_iff\<close>)

lemma validate_order_take:
  "validate_indicator_order candles = Inr () \<Longrightarrow> validate_indicator_order (take n candles) = Inr ()"
proof -
  assume "validate_indicator_order candles = Inr ()"
  then have "validate_indicator_order (take n candles @ drop n candles) = Inr ()" by simp
  moreover have "set (adjacent (take n candles)) \<subseteq> set (adjacent (take n candles @ drop n candles))"
    by (rule adjacent_set_prefix)
  ultimately show "validate_indicator_order (take n candles) = Inr ()"
    unfolding validate_indicator_order_def check_all_Inr by blast
qed

text \<open>
  the indicators never look ahead and never change. The points of the first \<open>n\<close> candles alone are the
  first \<open>n\<close> points of any longer sequence of candles.
\<close>

theorem indicators_never_repaint:
  assumes "macd_config_valid macd_cfg" "atr_config_valid atr_cfg"
    and "calculate_indicators candles tf macd_cfg atr_cfg = Inr a"
  shows "\<exists>b. calculate_indicators (take n candles) tf macd_cfg atr_cfg = Inr b
    \<and> md_points (ia_macd b) = take n (md_points (ia_macd a))
    \<and> ar_points (ia_atr b) = take n (ar_points (ia_atr a))"
proof -
  have valid: "validate_indicator_order candles = Inr ()" and a: "a = indicators_of tf macd_cfg atr_cfg candles"
    using assms(3) by (auto simp: calculate_indicators_eq [OF assms(1)] bind_result_eq_Inr)
  have "calculate_indicators (take n candles) tf macd_cfg atr_cfg = Inr (indicators_of tf macd_cfg atr_cfg (take n candles))"
    using validate_order_take [OF valid] by (simp add: calculate_indicators_eq [OF assms(1)])
  then show ?thesis
    by (simp add: a indicators_of_def points_prefix [OF assms(1,2)])
qed

lemma signal_of_None:
  assumes "macd_config_valid cfg" "i < length closes"
  shows "signal_of cfg closes ! i = None \<longleftrightarrow> i + 2 < mc_slow_period cfg + mc_signal_period cfg"
proof (cases "i < mc_slow_period cfg - 1")
  case True
  then have "signal_of cfg closes ! i = None" using assms(2) by (simp add: signal_of_def nth_append)
  with True valid_periods [OF assms(1)] show ?thesis by simp
next
  case False
  let ?j = "i - (mc_slow_period cfg - 1)"
  have "min (mc_slow_period cfg - 1) (length closes) = mc_slow_period cfg - 1" using False assms(2) by simp
  then have "signal_of cfg closes ! i = ema_of (mc_signal_period cfg) (compact_of cfg closes) ! ?j"
    using False by (simp add: signal_of_def nth_append)
  moreover have "?j < length (compact_of cfg closes)" using False assms(2) by (simp add: lengths_of [OF assms(1)])
  ultimately show ?thesis
    using ema_of_None [OF valid_periods(3) [OF assms(1)], of ?j "compact_of cfg closes"] False
      valid_periods [OF assms(1)] by auto
qed

lemma iround_sign [simp]:
  "0 < iround x \<longleftrightarrow> 0 < x" "iround x < 0 \<longleftrightarrow> x < 0" "iround x \<le> 0 \<longleftrightarrow> x \<le> 0" "0 \<le> iround x \<longleftrightarrow> 0 \<le> x"
  by (simp_all add: iround_def round_sig_sign)

lemma crosses_histogram:
  "crosses (\<le>) (>) pm ps cm cs \<longleftrightarrow>
    (\<exists>h h'. histogram_value pm ps = Some h \<and> histogram_value cm cs = Some h' \<and> h \<le> 0 \<and> 0 < h')"
  "crosses (\<ge>) (<) pm ps cm cs \<longleftrightarrow>
    (\<exists>h h'. histogram_value pm ps = Some h \<and> histogram_value cm cs = Some h' \<and> 0 \<le> h \<and> h' < 0)"
  by (auto simp: crosses_def histogram_value_def isub_def split: option.splits)

lemma crosses_None [simp]: "\<not> crosses before now None ps cm cs"
  by (simp add: crosses_def)

lemma histogram_of_nth:
  assumes "macd_config_valid cfg" "i < length closes"
  shows "histogram_of cfg closes ! i = histogram_value (macd_of cfg closes ! i) (signal_of cfg closes ! i)"
  using assms(2) by (simp add: histogram_of_def lengths_of [OF assms(1)])

text \<open>
  C33: what a point says. The averages, the MACD line, the signal line and the ATR are present exactly from
  the end of their warm-up on, and a crossover is exactly a change of sign of the histogram between the
  previous candle and this one, although the engine compares the unsubtracted lines.
\<close>

theorem indicator_points_meaning:
  assumes "macd_config_valid macd_cfg" "atr_config_valid atr_cfg"
    and "calculate_indicators candles tf macd_cfg atr_cfg = Inr a" "i < length candles"
  shows "(mp_fast_ema (md_points (ia_macd a) ! i) = None \<longleftrightarrow> i + 1 < mc_fast_period macd_cfg)
    \<and> (mp_slow_ema (md_points (ia_macd a) ! i) = None \<longleftrightarrow> i + 1 < mc_slow_period macd_cfg)
    \<and> (mp_macd_line (md_points (ia_macd a) ! i) = None \<longleftrightarrow> i + 1 < mc_slow_period macd_cfg)
    \<and> (mp_signal_line (md_points (ia_macd a) ! i) = None
        \<longleftrightarrow> i + 2 < mc_slow_period macd_cfg + mc_signal_period macd_cfg)
    \<and> (ap_atr (ar_points (ia_atr a) ! i) = None \<longleftrightarrow> i + 1 < at_period atr_cfg)
    \<and> (mp_bullish_crossover (md_points (ia_macd a) ! i) \<longleftrightarrow> 1 \<le> i
        \<and> (\<exists>h h'. mp_histogram (md_points (ia_macd a) ! (i - 1)) = Some h
            \<and> mp_histogram (md_points (ia_macd a) ! i) = Some h' \<and> h \<le> 0 \<and> 0 < h'))
    \<and> (mp_bearish_crossover (md_points (ia_macd a) ! i) \<longleftrightarrow> 1 \<le> i
        \<and> (\<exists>h h'. mp_histogram (md_points (ia_macd a) ! (i - 1)) = Some h
            \<and> mp_histogram (md_points (ia_macd a) ! i) = Some h' \<and> 0 \<le> h \<and> h' < 0))"
proof -
  let ?closes = "map c_close candles"
  have i: "i < length ?closes" using assms(4) by simp
  have a: "a = indicators_of tf macd_cfg atr_cfg candles"
    using assms(3) by (auto simp: calculate_indicators_eq [OF assms(1)] bind_result_eq_Inr)
  have point: "md_points (ia_macd a) ! j = macd_point_at candles (ema_of (mc_fast_period macd_cfg) ?closes)
      (ema_of (mc_slow_period macd_cfg) ?closes) (macd_of macd_cfg ?closes) (signal_of macd_cfg ?closes)
      (histogram_of macd_cfg ?closes) j" if "j < length candles" for j
    using that by (simp add: a indicators_of_def macd_points_of_def Let_def)
  have hist: "mp_histogram (md_points (ia_macd a) ! j)
      = histogram_value (macd_of macd_cfg ?closes ! j) (signal_of macd_cfg ?closes ! j)" if "j < length candles" for j
    using that histogram_of_nth [OF assms(1), of j ?closes] by (simp add: point macd_point_at_def Let_def)
  have atr: "ap_atr (ar_points (ia_atr a) ! i) = atr_values (true_ranges candles) atr_cfg ! i"
    using assms(4) by (simp add: a indicators_of_def atr_points_of_def)
  have cross: "mp_bullish_crossover (md_points (ia_macd a) ! i) \<longleftrightarrow> 1 \<le> i
      \<and> crosses (\<le>) (>) (macd_of macd_cfg ?closes ! (i - 1)) (signal_of macd_cfg ?closes ! (i - 1))
           (macd_of macd_cfg ?closes ! i) (signal_of macd_cfg ?closes ! i)"
    "mp_bearish_crossover (md_points (ia_macd a) ! i) \<longleftrightarrow> 1 \<le> i
      \<and> crosses (\<ge>) (<) (macd_of macd_cfg ?closes ! (i - 1)) (signal_of macd_cfg ?closes ! (i - 1))
           (macd_of macd_cfg ?closes ! i) (signal_of macd_cfg ?closes ! i)"
    using assms(4) by (cases "1 \<le> i"; simp add: point macd_point_at_def previous_entry_def Let_def)+
  have "i - 1 < length candles" using assms(4) by simp
  then show ?thesis
    unfolding cross crosses_histogram atr hist [OF \<open>i - 1 < length candles\<close>] hist [OF assms(4)]
    using assms(4) ema_of_None [OF valid_periods(1) [OF assms(1)] i] ema_of_None [OF valid_periods(2) [OF assms(1)] i]
      macd_of_None [OF assms(1) i] signal_of_None [OF assms(1) i]
      atr_values_None [OF assms(2), of i "true_ranges candles"]
    by (simp add: point macd_point_at_def Let_def)
qed

section \<open>A sample\<close>

definition sample_macd_config :: macd_config where
  "sample_macd_config = \<lparr>mc_fast_period = 1, mc_slow_period = 2, mc_signal_period = 1\<rparr>"

definition sample_atr_config :: atr_config where
  "sample_atr_config = \<lparr>at_period = 2, at_smoothing = WILDER\<rparr>"

definition sample_ticks :: "candle list" where
  "sample_ticks = map (\<lambda>(i, p). \<lparr>c_timestamp = minutes i, c_open = p, c_high = p + 1, c_low = p - 1,
     c_close = p, c_volume = 1\<rparr>) [(0, 10), (1, 8), (2, 8)]"

lemma sample_configs_valid: "macd_config_valid sample_macd_config" "atr_config_valid sample_atr_config"
  by (simp_all add: macd_config_valid_def sample_macd_config_def atr_config_valid_def sample_atr_config_def)

definition sample_indicators :: indicator_analysis where
  "sample_indicators = indicators_of ONE_MINUTE sample_macd_config sample_atr_config sample_ticks"

lemma sample_indicators_returned:
  "calculate_indicators sample_ticks ONE_MINUTE sample_macd_config sample_atr_config = Inr sample_indicators"
proof -
  have "validate_indicator_order sample_ticks = Inr ()"
    by (simp add: validate_indicator_order_def sample_ticks_def minutes_def seconds_def)
  then show ?thesis
    by (simp add: calculate_indicators_eq [OF sample_configs_valid(1)] sample_indicators_def)
qed

theorem incremental_indicators_are_exact_witness:
  "replay_results (indicator_append sample_macd_config sample_atr_config)
     (indicator_result ONE_MINUTE sample_macd_config sample_atr_config) [sample_ticks, sample_ticks]
     indicator_start = Inr [sample_indicators, sample_indicators]"
  using incremental_indicators_are_exact [OF sample_configs_valid, of ONE_MINUTE "[sample_ticks, sample_ticks]"]
    sample_indicators_returned by simp

theorem indicator_points_meaning_witness:
  "mp_macd_line (md_points (ia_macd sample_indicators) ! 0) = None
   \<and> mp_macd_line (md_points (ia_macd sample_indicators) ! 1) \<noteq> None
   \<and> \<not> mp_bullish_crossover (md_points (ia_macd sample_indicators) ! 0)"
proof -
  have i: "0 < length sample_ticks" "1 < length sample_ticks" by (simp_all add: sample_ticks_def)
  show ?thesis
    using indicator_points_meaning [OF sample_configs_valid sample_indicators_returned i(1)]
      indicator_points_meaning [OF sample_configs_valid sample_indicators_returned i(2)]
    by (simp add: sample_macd_config_def)
qed

end
