(* ===== verification/FVG.thy ===== *)
theory FVG
  imports Market_Structure Indicators
begin

text \<open>
  The fair value gap engine (\<open>schemas/fvg.py\<close>, \<open>engines/smc/fvg.py\<close>): three-candle gaps, their lifecycle
  of retests, fills, inversions and expiry, and the inverted gaps they leave behind. The engine mutates
  zone objects that two lists share; here the zones are one list, and the list of active zones holds
  positions in it.
\<close>

section \<open>Data model\<close>

datatype gap_zone_type = FVG | IFVG

datatype gap_direction = GAP_BULLISH | GAP_BEARISH

datatype gap_zone_status = ZONE_OPEN | ZONE_PARTIAL | ZONE_FILLED | ZONE_INVALIDATED

datatype gap_lifecycle_state =
  GAP_ACTIVE | GAP_PARTIALLY_FILLED | GAP_FILLED | GAP_INVERTED | GAP_INVALIDATED | GAP_EXPIRED

datatype fvg_fill_basis = FILL_WICK | FILL_CLOSE

datatype gap_event_type =
  FVG_CREATED | FVG_RETEST | FVG_FILLED | FVG_INVERTED | FVG_EXPIRED
  | IFVG_CREATED | IFVG_RETEST | IFVG_FILLED | IFVG_INVALIDATED | IFVG_EXPIRED

fun gap_direction_value :: "gap_direction \<Rightarrow> string" where
  "gap_direction_value GAP_BULLISH = ''bullish''"
| "gap_direction_value GAP_BEARISH = ''bearish''"

record fvg_config =
  fv_tick_size :: rat
  fv_min_gap_ticks :: nat
  fv_min_gap_atr_ratio :: rat
  fv_require_middle_direction :: bool
  fv_fill_basis :: fvg_fill_basis
  fv_full_fill_fraction :: rat
  fv_max_age_bars :: nat
  fv_max_retests :: nat
  fv_ifvg_enabled :: bool
  fv_inversion_buffer_ticks :: nat

definition fvg_config_valid :: "fvg_config \<Rightarrow> bool" where
  "fvg_config_valid cfg \<longleftrightarrow>
     0 < fv_tick_size cfg \<and> 0 \<le> fv_min_gap_atr_ratio cfg \<and> 0 < fv_full_fill_fraction cfg
     \<and> fv_full_fill_fraction cfg \<le> 1 \<and> 1 \<le> fv_max_age_bars cfg \<and> 1 \<le> fv_max_retests cfg"

record gap_event =
  gv_event_type :: gap_event_type
  gv_zone_id :: string
  gv_bar_timestamp :: utc_time
  gv_occurred_at :: utc_time
  gv_from_state :: "gap_lifecycle_state option"
  gv_to_state :: gap_lifecycle_state
  gv_fill_fraction :: rat
  gv_retest_count :: nat

definition make_gap_event :: "gap_event \<Rightarrow> gap_event result" where
  "make_gap_event e =
     bind_result (require (0 \<le> gv_fill_fraction e \<and> gv_fill_fraction e \<le> 1) (ValidationError ''fill_fraction''))
       (\<lambda>_. Inr e)"

record gap_zone =
  gz_zone_id :: string
  gz_type :: gap_zone_type
  gz_direction :: gap_direction
  gz_lower :: price
  gz_upper :: price
  gz_created_at :: utc_time
  gz_confirmed_at :: utc_time
  gz_status :: gap_zone_status
  gz_lifecycle_state :: gap_lifecycle_state
  gz_source_timestamps :: "utc_time list"
  gz_origin_fvg_id :: "string option"
  gz_fill_fraction :: rat
  gz_retest_count :: nat
  gz_last_updated_at :: utc_time
  gz_lifecycle :: "gap_event list"

definition make_gap_zone :: "gap_zone \<Rightarrow> gap_zone result" where
  "make_gap_zone z =
     bind_result (require (0 < gz_lower z \<and> 0 < gz_upper z \<and> 0 \<le> gz_fill_fraction z \<and> gz_fill_fraction z \<le> 1)
       (ValidationError ''gap zone field'')) (\<lambda>_.
     bind_result (require (\<not> gz_lower z \<ge> gz_upper z)
       (ValidationError ''gap zone lower must be less than upper'')) (\<lambda>_.
     bind_result (require (\<not> (gz_type z = IFVG \<and> gz_origin_fvg_id z = None))
       (ValidationError ''IFVG must reference its originating FVG'')) (\<lambda>_.
     bind_result (require (\<not> (gz_type z = FVG \<and> gz_origin_fvg_id z \<noteq> None))
       (ValidationError ''FVG must not reference an originating FVG'')) (\<lambda>_. Inr z))))"

record fvg_rejection =
  fj_code :: string
  fj_third_candle_timestamp :: utc_time
  fj_confirmed_at :: utc_time

record fvg_analysis =
  fa_timeframe :: timeframe
  fa_config :: fvg_config
  fa_candle_count :: nat
  fa_data_cutoff_at :: "utc_time option"
  fa_zones :: "gap_zone list"
  fa_rejections :: "fvg_rejection list"

section \<open>Zones under construction\<close>

record gap_state =
  gs_zone_id :: string
  gs_type :: gap_zone_type
  gs_direction :: gap_direction
  gs_lower :: price
  gs_upper :: price
  gs_created_at :: utc_time
  gs_confirmed_at :: utc_time
  gs_source_timestamps :: "utc_time list"
  gs_created_bar_index :: nat
  gs_origin_fvg_id :: "string option"
  gs_lifecycle_state :: gap_lifecycle_state
  gs_fill_fraction :: rat
  gs_retest_count :: nat
  gs_last_updated_at :: "utc_time option"
  gs_lifecycle :: "gap_event list"

definition terminal_gap :: "gap_lifecycle_state \<Rightarrow> bool" where
  "terminal_gap s \<longleftrightarrow> s \<in> {GAP_FILLED, GAP_INVERTED, GAP_INVALIDATED, GAP_EXPIRED}"

definition public_status :: "gap_lifecycle_state \<Rightarrow> gap_zone_status" where
  "public_status s =
     (if s = GAP_ACTIVE then ZONE_OPEN else if s = GAP_PARTIALLY_FILLED then ZONE_PARTIAL
      else if s = GAP_FILLED then ZONE_FILLED else ZONE_INVALIDATED)"

definition check_atr_timestamp :: "candle \<times> atr_point \<Rightarrow> unit result" where
  "check_atr_timestamp = (\<lambda>(c, p).
     require (\<not> c_timestamp c \<noteq> ap_timestamp p) (FVGInputError ''ATR timestamps must align with candle timestamps''))"

definition validate_fvg_inputs ::
  "candle list \<Rightarrow> timeframe \<Rightarrow> fvg_config \<Rightarrow> atr_result option \<Rightarrow> unit result" where
  "validate_fvg_inputs candles tf cfg atr_result =
     bind_result (validate_tick_candles FVGInputError candles tf (fv_tick_size cfg)) (\<lambda>_.
       case atr_result of
         None \<Rightarrow> Inr ()
       | Some atr \<Rightarrow>
           if length (ar_points atr) \<noteq> length candles
           then Inl (FVGInputError ''ATR points must align one-to-one with candles'')
           else check_all check_atr_timestamp (zip candles (ar_points atr)))"

definition append_gap_event ::
  "gap_event_type \<Rightarrow> candle \<Rightarrow> utc_time \<Rightarrow> gap_lifecycle_state \<Rightarrow> gap_state \<Rightarrow> gap_state result" where
  "append_gap_event event_type bar occurred_at to_state zone =
     bind_result (make_gap_event
       \<lparr>gv_event_type = event_type, gv_zone_id = gs_zone_id zone, gv_bar_timestamp = c_timestamp bar,
        gv_occurred_at = occurred_at, gv_from_state = Some (gs_lifecycle_state zone),
        gv_to_state = to_state, gv_fill_fraction = gs_fill_fraction zone,
        gv_retest_count = gs_retest_count zone\<rparr>) (\<lambda>e.
       Inr (zone\<lparr>gs_lifecycle_state := to_state, gs_last_updated_at := Some occurred_at,
                 gs_lifecycle := gs_lifecycle zone @ [e]\<rparr>))"

definition created_event :: "gap_event_type \<Rightarrow> string \<Rightarrow> candle \<Rightarrow> utc_time \<Rightarrow> gap_event" where
  "created_event event_type zone_id bar confirmed_at =
     \<lparr>gv_event_type = event_type, gv_zone_id = zone_id, gv_bar_timestamp = c_timestamp bar,
      gv_occurred_at = confirmed_at, gv_from_state = None, gv_to_state = GAP_ACTIVE,
      gv_fill_fraction = 0, gv_retest_count = 0\<rparr>"

definition fvg_id :: "gap_direction \<Rightarrow> candle \<Rightarrow> string" where
  "fvg_id direction third = ''FVG:'' @ gap_direction_value direction @ '':'' @ isoformat (c_timestamp third)"

definition new_fvg ::
  "gap_direction \<Rightarrow> price \<Rightarrow> price \<Rightarrow> candle list \<Rightarrow> nat \<Rightarrow> utc_time \<Rightarrow> gap_state result" where
  "new_fvg direction lower upper candles third_index confirmed_at =
     (let zone_id = fvg_id direction (candles ! third_index)
      in bind_result (make_gap_event (created_event FVG_CREATED zone_id (candles ! third_index) confirmed_at)) (\<lambda>e.
         Inr \<lparr>gs_zone_id = zone_id, gs_type = FVG, gs_direction = direction, gs_lower = lower,
           gs_upper = upper, gs_created_at = confirmed_at, gs_confirmed_at = confirmed_at,
           gs_source_timestamps = map c_timestamp (take 3 (drop (third_index - 2) candles)),
           gs_created_bar_index = third_index, gs_origin_fvg_id = None,
           gs_lifecycle_state = GAP_ACTIVE, gs_fill_fraction = 0, gs_retest_count = 0,
           gs_last_updated_at = Some confirmed_at, gs_lifecycle = [e]\<rparr>))"

definition opposite_direction :: "gap_direction \<Rightarrow> gap_direction" where
  "opposite_direction d = (if d = GAP_BULLISH then GAP_BEARISH else GAP_BULLISH)"

definition ifvg_id :: "gap_direction \<Rightarrow> candle \<Rightarrow> string \<Rightarrow> string" where
  "ifvg_id direction inversion_bar origin_id =
     ''IFVG:'' @ gap_direction_value direction @ '':'' @ isoformat (c_timestamp inversion_bar) @ '':'' @ origin_id"

definition new_ifvg :: "gap_state \<Rightarrow> candle \<Rightarrow> nat \<Rightarrow> utc_time \<Rightarrow> gap_state result" where
  "new_ifvg origin inversion_bar inversion_index confirmed_at =
     (let direction = opposite_direction (gs_direction origin);
          zone_id = ifvg_id direction inversion_bar (gs_zone_id origin)
      in bind_result (make_gap_event (created_event IFVG_CREATED zone_id inversion_bar confirmed_at)) (\<lambda>e.
         Inr \<lparr>gs_zone_id = zone_id, gs_type = IFVG, gs_direction = direction, gs_lower = gs_lower origin,
           gs_upper = gs_upper origin, gs_created_at = confirmed_at, gs_confirmed_at = confirmed_at,
           gs_source_timestamps = gs_source_timestamps origin, gs_created_bar_index = inversion_index,
           gs_origin_fvg_id = Some (gs_zone_id origin), gs_lifecycle_state = GAP_ACTIVE,
           gs_fill_fraction = 0, gs_retest_count = 0, gs_last_updated_at = Some confirmed_at,
           gs_lifecycle = [e]\<rparr>))"

section \<open>The lifecycle of a zone\<close>

definition bar_fill_fraction :: "gap_state \<Rightarrow> candle \<Rightarrow> fvg_fill_basis \<Rightarrow> rat" where
  "bar_fill_fraction zone bar basis =
     (if gs_direction zone = GAP_BULLISH
      then let probe = (if basis = FILL_WICK then c_low bar else c_close bar)
           in if probe \<ge> gs_upper zone then 0
              else if probe \<le> gs_lower zone then 1
              else ddiv (dsub (gs_upper zone) probe) (dsub (gs_upper zone) (gs_lower zone))
      else let probe = (if basis = FILL_WICK then c_high bar else c_close bar)
           in if probe \<le> gs_lower zone then 0
              else if probe \<ge> gs_upper zone then 1
              else ddiv (dsub probe (gs_lower zone)) (dsub (gs_upper zone) (gs_lower zone)))"

definition invalidation_triggered :: "gap_state \<Rightarrow> candle \<Rightarrow> rat \<Rightarrow> bool" where
  "invalidation_triggered zone bar buffer =
     (if gs_direction zone = GAP_BULLISH then c_close bar < dsub (gs_lower zone) buffer
      else c_close bar > dadd (gs_upper zone) buffer)"

text \<open>A bar that touches the zone: the fill, the first retest and a complete fill.\<close>

definition touch_zone ::
  "fvg_config \<Rightarrow> candle \<Rightarrow> utc_time \<Rightarrow> rat \<Rightarrow> gap_state \<Rightarrow> gap_state result" where
  "touch_zone cfg bar confirmed_at observed_fill zone =
     (let previous_fill = gs_fill_fraction zone;
          zone = zone\<lparr>gs_retest_count := gs_retest_count zone + 1,
                      gs_fill_fraction := max (gs_fill_fraction zone) observed_fill,
                      gs_last_updated_at := Some confirmed_at\<rparr>
      in bind_result
           (if previous_fill = 0
            then append_gap_event (if gs_type zone = FVG then FVG_RETEST else IFVG_RETEST) bar confirmed_at
                   GAP_PARTIALLY_FILLED zone
            else Inr zone)
           (\<lambda>zone.
             if gs_fill_fraction zone \<ge> fv_full_fill_fraction cfg
             then append_gap_event (if gs_type zone = FVG then FVG_FILLED else IFVG_FILLED) bar confirmed_at
                    GAP_FILLED zone
             else Inr zone))"

definition expire_zone ::
  "fvg_config \<Rightarrow> candle \<Rightarrow> nat \<Rightarrow> utc_time \<Rightarrow> gap_state \<Rightarrow> gap_state result" where
  "expire_zone cfg bar bar_index confirmed_at zone =
     (let bars_since_confirmation = int bar_index - int (gs_created_bar_index zone)
      in if bars_since_confirmation > int (fv_max_age_bars cfg) \<or> gs_retest_count zone > fv_max_retests cfg
         then append_gap_event (if gs_type zone = FVG then FVG_EXPIRED else IFVG_EXPIRED) bar confirmed_at
                GAP_EXPIRED zone
         else Inr zone)"

definition update_zone ::
  "fvg_config \<Rightarrow> candle \<Rightarrow> nat \<Rightarrow> utc_time \<Rightarrow> gap_state \<Rightarrow> (gap_state \<times> gap_state option) result" where
  "update_zone cfg bar bar_index confirmed_at zone =
     (if terminal_gap (gs_lifecycle_state zone) then Inr (zone, None)
      else let inversion_buffer = dmul (fv_tick_size cfg) (of_nat (fv_inversion_buffer_ticks cfg));
               crossed = invalidation_triggered zone bar inversion_buffer
      in if gs_type zone = IFVG \<and> crossed
         then bind_result (append_gap_event IFVG_INVALIDATED bar confirmed_at GAP_INVALIDATED zone)
                (\<lambda>zone. Inr (zone, None))
         else if gs_type zone = FVG \<and> crossed \<and> fv_ifvg_enabled cfg
         then bind_result (append_gap_event FVG_INVERTED bar confirmed_at GAP_INVERTED zone) (\<lambda>zone.
                bind_result (new_ifvg zone bar bar_index confirmed_at) (\<lambda>ifvg. Inr (zone, Some ifvg)))
         else let observed_fill = bar_fill_fraction zone bar (fv_fill_basis cfg)
              in bind_result (if observed_fill > 0 then touch_zone cfg bar confirmed_at observed_fill zone else Inr zone)
                   (\<lambda>touched.
                     if observed_fill > 0 \<and> gs_fill_fraction touched \<ge> fv_full_fill_fraction cfg
                     then Inr (touched, None)
                     else bind_result (expire_zone cfg bar bar_index confirmed_at touched)
                            (\<lambda>zone. Inr (zone, None))))"

definition gap_zone_of :: "gap_state \<Rightarrow> gap_zone result" where
  "gap_zone_of zone =
     (case gs_last_updated_at zone of
        None \<Rightarrow> Inl AssertionError
      | Some last_updated_at \<Rightarrow> make_gap_zone
          \<lparr>gz_zone_id = gs_zone_id zone, gz_type = gs_type zone, gz_direction = gs_direction zone,
           gz_lower = gs_lower zone, gz_upper = gs_upper zone, gz_created_at = gs_created_at zone,
           gz_confirmed_at = gs_confirmed_at zone, gz_status = public_status (gs_lifecycle_state zone),
           gz_lifecycle_state = gs_lifecycle_state zone, gz_source_timestamps = gs_source_timestamps zone,
           gz_origin_fvg_id = gs_origin_fvg_id zone, gz_fill_fraction = gs_fill_fraction zone,
           gz_retest_count = gs_retest_count zone, gz_last_updated_at = last_updated_at,
           gz_lifecycle = gs_lifecycle zone\<rparr>)"

section \<open>Formation\<close>

text \<open>What the candle at an index forms with the two before it.\<close>

datatype gap_formation = NO_FORMATION | FORMATION_REJECTED string | FORMATION gap_direction price price

definition gap_formation :: "fvg_config \<Rightarrow> candle list \<Rightarrow> nat \<Rightarrow> rat option \<Rightarrow> gap_formation" where
  "gap_formation cfg candles index atr_at_open =
     (if fv_min_gap_atr_ratio cfg > 0
         \<and> (case atr_at_open of None \<Rightarrow> True | Some atr \<Rightarrow> atr \<le> 0)
      then FORMATION_REJECTED ''FVG_ATR_UNAVAILABLE''
      else let atr_threshold = (case atr_at_open of
                 Some atr \<Rightarrow> dmul (fv_min_gap_atr_ratio cfg) atr | None \<Rightarrow> 0);
               minimum_gap = max (dmul (fv_tick_size cfg) (of_nat (fv_min_gap_ticks cfg))) atr_threshold;
               bar = candles ! index; first = candles ! (index - 2); middle = candles ! (index - 1);
               bullish_raw_gap = dsub (c_low bar) (c_high first);
               bearish_raw_gap = dsub (c_low first) (c_high bar);
               bullish = (bullish_raw_gap > 0 \<and> bullish_raw_gap \<ge> minimum_gap
                 \<and> (fv_require_middle_direction cfg \<longrightarrow> c_close middle > c_open middle));
               bearish = (bearish_raw_gap > 0 \<and> bearish_raw_gap \<ge> minimum_gap
                 \<and> (fv_require_middle_direction cfg \<longrightarrow> c_close middle < c_open middle))
           in if bullish \<and> bearish then FORMATION_REJECTED ''FVG_IMPOSSIBLE_DUAL_FORMATION''
              else if bullish then FORMATION GAP_BULLISH (c_high first) (c_low bar)
              else if bearish then FORMATION GAP_BEARISH (c_high bar) (c_low first)
              else NO_FORMATION)"

definition atr_at_open :: "atr_result option \<Rightarrow> nat \<Rightarrow> rat option" where
  "atr_at_open atr_result index =
     (case atr_result of Some atr \<Rightarrow> ap_atr (ar_points atr ! (index - 1)) | None \<Rightarrow> None)"

definition formation_at ::
  "fvg_config \<Rightarrow> atr_result option \<Rightarrow> candle list \<Rightarrow> nat \<Rightarrow> gap_formation" where
  "formation_at cfg atr_result candles index =
     (if index \<ge> 2 then gap_formation cfg candles index (atr_at_open atr_result index) else NO_FORMATION)"

section \<open>The engine\<close>

text \<open>The zones a bar starts with: a rejection is noted, a gap becomes a zone.\<close>

definition form_zone ::
  "fvg_config \<Rightarrow> atr_result option \<Rightarrow> candle list \<Rightarrow> nat \<Rightarrow> utc_time
     \<Rightarrow> (gap_state list \<times> fvg_rejection list) result" where
  "form_zone cfg atr_result candles index confirmed_at =
     (case formation_at cfg atr_result candles index of
        NO_FORMATION \<Rightarrow> Inr ([], [])
      | FORMATION_REJECTED code \<Rightarrow>
          Inr ([], [\<lparr>fj_code = code, fj_third_candle_timestamp = c_timestamp (candles ! index),
                     fj_confirmed_at = confirmed_at\<rparr>])
      | FORMATION direction lower upper \<Rightarrow>
          bind_result (new_fvg direction lower upper candles index confirmed_at) (\<lambda>zone. Inr ([zone], [])))"

text \<open>The update of the zone at a position; the second component collects the inverted gaps.\<close>

definition update_at ::
  "fvg_config \<Rightarrow> candle \<Rightarrow> nat \<Rightarrow> utc_time \<Rightarrow> nat \<Rightarrow> gap_state list \<times> gap_state list
     \<Rightarrow> (gap_state list \<times> gap_state list) result" where
  "update_at cfg bar index confirmed_at j = (\<lambda>(zones, new_ifvgs).
     if c_timestamp bar < gs_confirmed_at (zones ! j) then Inr (zones, new_ifvgs)
     else bind_result (update_zone cfg bar index confirmed_at (zones ! j)) (\<lambda>(zone, new_ifvg).
       Inr (zones[j := zone], new_ifvgs @ (case new_ifvg of Some z \<Rightarrow> [z] | None \<Rightarrow> []))))"

record fvg_run =
  fr_zones :: "gap_state list"
  fr_active :: "nat list"
  fr_rejections :: "fvg_rejection list"

definition fvg_bar ::
  "fvg_config \<Rightarrow> timeframe \<Rightarrow> atr_result option \<Rightarrow> candle list \<Rightarrow> nat \<times> candle \<Rightarrow> fvg_run \<Rightarrow> fvg_run result" where
  "fvg_bar cfg tf atr_result candles = (\<lambda>(index, bar) run.
     let confirmed_at = c_timestamp bar + timeframe_duration tf; previous_zone_count = length (fr_zones run)
     in bind_result (form_zone cfg atr_result candles index confirmed_at) (\<lambda>(formed, rejected).
        let zones = fr_zones run @ formed;
            active = fr_active run @ [previous_zone_count..<length zones]
        in bind_result (for_each (update_at cfg bar index confirmed_at) active (zones, []))
             (\<lambda>(zones, new_ifvgs).
               Inr \<lparr>fr_zones = zones @ new_ifvgs,
                    fr_active = filter (\<lambda>j. \<not> terminal_gap (gs_lifecycle_state (zones ! j))) active
                      @ [length zones..<length zones + length new_ifvgs],
                    fr_rejections = fr_rejections run @ rejected\<rparr>)))"

definition analyze_fvg ::
  "candle list \<Rightarrow> timeframe \<Rightarrow> fvg_config \<Rightarrow> atr_result option \<Rightarrow> fvg_analysis result" where
  "analyze_fvg candles tf cfg atr_result =
     bind_result (validate_fvg_inputs candles tf cfg atr_result) (\<lambda>_.
       bind_result (for_each (fvg_bar cfg tf atr_result candles) (enumerate 0 candles)
           \<lparr>fr_zones = [], fr_active = [], fr_rejections = []\<rparr>) (\<lambda>run.
         bind_result (map_result gap_zone_of (fr_zones run)) (\<lambda>zones.
           Inr \<lparr>fa_timeframe = tf, fa_config = cfg, fa_candle_count = length candles,
                fa_data_cutoff_at = data_cutoff candles tf, fa_zones = zones,
                fa_rejections = fr_rejections run\<rparr>)))"

section \<open>A bar on one zone\<close>

lemma bar_fill_fraction_bounds: "0 \<le> bar_fill_fraction zone bar basis \<and> bar_fill_fraction zone bar basis \<le> 1"
proof -
  have frac: "0 \<le> ddiv (dsub a b) (dsub c d) \<and> ddiv (dsub a b) (dsub c d) \<le> 1"
    if "b < a" "a - b < c - d" for a b c d :: rat
  proof -
    have pos: "0 < dsub a b" "0 < dsub c d" using that by (simp_all add: dsub_def)
    moreover have "dsub a b \<le> dsub c d" unfolding dsub_def using that by (intro rnd_mono) simp
    ultimately have "0 \<le> dsub a b / dsub c d" "dsub a b / dsub c d \<le> 1" by simp_all
    then show ?thesis
      unfolding ddiv_def using rnd_mono [of "dsub a b / dsub c d" 1] rnd_fits [of 1] fits_of_int [of 1 28] by simp
  qed
  show ?thesis
    by (auto simp: bar_fill_fraction_def Let_def not_le intro: frac [THEN conjunct1] frac [THEN conjunct2])
qed

definition fill_ok :: "gap_state \<Rightarrow> bool" where
  "fill_ok z \<longleftrightarrow> 0 \<le> gs_fill_fraction z \<and> gs_fill_fraction z \<le> 1"

definition with_event :: "gap_event_type \<Rightarrow> candle \<Rightarrow> utc_time \<Rightarrow> gap_lifecycle_state \<Rightarrow> gap_state \<Rightarrow> gap_state" where
  "with_event event_type bar t to_state z =
     z\<lparr>gs_lifecycle_state := to_state, gs_last_updated_at := Some t,
       gs_lifecycle := gs_lifecycle z @
         [\<lparr>gv_event_type = event_type, gv_zone_id = gs_zone_id z, gv_bar_timestamp = c_timestamp bar,
           gv_occurred_at = t, gv_from_state = Some (gs_lifecycle_state z), gv_to_state = to_state,
           gv_fill_fraction = gs_fill_fraction z, gv_retest_count = gs_retest_count z\<rparr>]\<rparr>"

lemma append_gap_event_eq: "fill_ok z \<Longrightarrow> append_gap_event ty bar t s z = Inr (with_event ty bar t s z)"
  by (simp add: append_gap_event_def make_gap_event_def with_event_def fill_ok_def)

lemma with_event_fields [simp]:
  "fill_ok (with_event ty bar t s z) = fill_ok z"
  "gs_zone_id (with_event ty bar t s z) = gs_zone_id z"
  "gs_type (with_event ty bar t s z) = gs_type z"
  "gs_direction (with_event ty bar t s z) = gs_direction z"
  "gs_lower (with_event ty bar t s z) = gs_lower z"
  "gs_upper (with_event ty bar t s z) = gs_upper z"
  "gs_created_at (with_event ty bar t s z) = gs_created_at z"
  "gs_confirmed_at (with_event ty bar t s z) = gs_confirmed_at z"
  "gs_source_timestamps (with_event ty bar t s z) = gs_source_timestamps z"
  "gs_created_bar_index (with_event ty bar t s z) = gs_created_bar_index z"
  "gs_origin_fvg_id (with_event ty bar t s z) = gs_origin_fvg_id z"
  "gs_lifecycle_state (with_event ty bar t s z) = s"
  "gs_fill_fraction (with_event ty bar t s z) = gs_fill_fraction z"
  "gs_retest_count (with_event ty bar t s z) = gs_retest_count z"
  "gs_last_updated_at (with_event ty bar t s z) = Some t"
  by (simp_all add: with_event_def fill_ok_def)

definition touched_zone :: "fvg_config \<Rightarrow> candle \<Rightarrow> utc_time \<Rightarrow> rat \<Rightarrow> gap_state \<Rightarrow> gap_state" where
  "touched_zone cfg bar t observed z =
     (let a = z\<lparr>gs_retest_count := gs_retest_count z + 1,
               gs_fill_fraction := max (gs_fill_fraction z) observed, gs_last_updated_at := Some t\<rparr>;
          b = (if gs_fill_fraction z = 0
               then with_event (if gs_type z = FVG then FVG_RETEST else IFVG_RETEST) bar t GAP_PARTIALLY_FILLED a
               else a)
      in if gs_fill_fraction b \<ge> fv_full_fill_fraction cfg
         then with_event (if gs_type z = FVG then FVG_FILLED else IFVG_FILLED) bar t GAP_FILLED b else b)"

lemma touch_zone_eq:
  assumes "fill_ok z" "0 \<le> observed" "observed \<le> 1"
  shows "touch_zone cfg bar t observed z = Inr (touched_zone cfg bar t observed z)"
proof -
  have "fill_ok (z\<lparr>gs_retest_count := gs_retest_count z + 1,
      gs_fill_fraction := max (gs_fill_fraction z) observed, gs_last_updated_at := Some t\<rparr>)"
    using assms by (auto simp: fill_ok_def max_def)
  then show ?thesis
    by (auto simp: touch_zone_def touched_zone_def Let_def append_gap_event_eq)
qed

definition expired_zone :: "fvg_config \<Rightarrow> candle \<Rightarrow> nat \<Rightarrow> utc_time \<Rightarrow> gap_state \<Rightarrow> gap_state" where
  "expired_zone cfg bar index t z =
     (if int index - int (gs_created_bar_index z) > int (fv_max_age_bars cfg) \<or> gs_retest_count z > fv_max_retests cfg
      then with_event (if gs_type z = FVG then FVG_EXPIRED else IFVG_EXPIRED) bar t GAP_EXPIRED z else z)"

lemma expire_zone_eq: "fill_ok z \<Longrightarrow> expire_zone cfg bar index t z = Inr (expired_zone cfg bar index t z)"
  by (simp add: expire_zone_def expired_zone_def Let_def append_gap_event_eq)

definition inverted_gap :: "gap_state \<Rightarrow> candle \<Rightarrow> nat \<Rightarrow> utc_time \<Rightarrow> gap_state" where
  "inverted_gap origin bar index t =
     (case new_ifvg origin bar index t of Inr z \<Rightarrow> z | Inl _ \<Rightarrow> origin)"

lemma new_ifvg_eq: "new_ifvg origin bar index t = Inr (inverted_gap origin bar index t)"
  by (simp add: inverted_gap_def new_ifvg_def make_gap_event_def created_event_def Let_def)

definition crossed_by :: "fvg_config \<Rightarrow> candle \<Rightarrow> gap_state \<Rightarrow> bool" where
  "crossed_by cfg bar z =
     invalidation_triggered z bar (dmul (fv_tick_size cfg) (of_nat (fv_inversion_buffer_ticks cfg)))"

text \<open>What a bar does to a zone, errors aside: there are none.\<close>

definition advanced_zone :: "fvg_config \<Rightarrow> candle \<Rightarrow> nat \<Rightarrow> utc_time \<Rightarrow> gap_state \<Rightarrow> gap_state \<times> gap_state option" where
  "advanced_zone cfg bar index t z =
     (if c_timestamp bar < gs_confirmed_at z \<or> terminal_gap (gs_lifecycle_state z) then (z, None)
      else if gs_type z = IFVG \<and> crossed_by cfg bar z
      then (with_event IFVG_INVALIDATED bar t GAP_INVALIDATED z, None)
      else if gs_type z = FVG \<and> crossed_by cfg bar z \<and> fv_ifvg_enabled cfg
      then (with_event FVG_INVERTED bar t GAP_INVERTED z,
            Some (inverted_gap (with_event FVG_INVERTED bar t GAP_INVERTED z) bar index t))
      else let observed = bar_fill_fraction z bar (fv_fill_basis cfg);
               touched = (if observed > 0 then touched_zone cfg bar t observed z else z)
           in if observed > 0 \<and> gs_fill_fraction touched \<ge> fv_full_fill_fraction cfg then (touched, None)
              else (expired_zone cfg bar index t touched, None))"

lemma touched_fill_ok:
  assumes "fill_ok z" "0 \<le> observed" "observed \<le> 1"
  shows "fill_ok (touched_zone cfg bar t observed z)"
  using assms by (auto simp: touched_zone_def Let_def fill_ok_def max_def with_event_def)

lemma update_zone_eq:
  assumes "fill_ok z" "\<not> c_timestamp bar < gs_confirmed_at z"
  shows "update_zone cfg bar index t z = Inr (advanced_zone cfg bar index t z)"
proof -
  let ?o = "bar_fill_fraction z bar (fv_fill_basis cfg)"
  have o: "0 \<le> ?o" "?o \<le> 1" using bar_fill_fraction_bounds by blast+
  show ?thesis
    using assms(2) touch_zone_eq [OF assms(1) o, of cfg bar t]
      expire_zone_eq [OF assms(1)] expire_zone_eq [OF touched_fill_ok [OF assms(1) o]]
    by (simp add: update_zone_def advanced_zone_def Let_def crossed_by_def append_gap_event_eq [OF assms(1)] new_ifvg_eq)
qed

lemma advanced_terminal: "terminal_gap (gs_lifecycle_state z) \<Longrightarrow> advanced_zone cfg bar index t z = (z, None)"
  by (simp add: advanced_zone_def)

lemma advanced_fill_ok:
  assumes "fill_ok z"
  shows "fill_ok (fst (advanced_zone cfg bar index t z))"
    and "snd (advanced_zone cfg bar index t z) = Some y \<Longrightarrow> fill_ok y"
proof -
  have touched: "fill_ok (touched_zone cfg bar t (bar_fill_fraction z bar (fv_fill_basis cfg)) z)"
    using bar_fill_fraction_bounds [of z bar] by (intro touched_fill_ok [OF assms]) auto
  then show "fill_ok (fst (advanced_zone cfg bar index t z))"
    using assms by (auto simp: advanced_zone_def Let_def expired_zone_def)
  show "snd (advanced_zone cfg bar index t z) = Some y \<Longrightarrow> fill_ok y"
    by (auto simp: advanced_zone_def Let_def inverted_gap_def new_ifvg_def make_gap_event_def created_event_def
        fill_ok_def split: if_splits)
qed

section \<open>The zones without the list of active ones\<close>

definition made :: "'a option \<Rightarrow> 'a list" where
  "made v = (case v of None \<Rightarrow> [] | Some x \<Rightarrow> [x])"

lemma made_simps [simp]: "made None = []" "made (Some x) = [x]"
  by (simp_all add: made_def)

abbreviation advance_all ::
  "fvg_config \<Rightarrow> candle \<Rightarrow> nat \<Rightarrow> utc_time \<Rightarrow> gap_state list \<Rightarrow> gap_state list \<times> gap_state list" where
  "advance_all cfg bar index t zones \<equiv>
     (map (\<lambda>z. fst (advanced_zone cfg bar index t z)) zones,
      concat (map (\<lambda>z. made (snd (advanced_zone cfg bar index t z))) zones))"

lemma update_at_eq:
  assumes "fill_ok (zones ! j)" "j < length zones"
  shows "update_at cfg bar index t j (zones, new) =
    Inr (zones[j := fst (advanced_zone cfg bar index t (zones ! j))],
         new @ made (snd (advanced_zone cfg bar index t (zones ! j))))"
proof (cases "c_timestamp bar < gs_confirmed_at (zones ! j)")
  case True
  then show ?thesis by (simp add: update_at_def advanced_zone_def)
next
  case False
  then show ?thesis
    using update_zone_eq [OF assms(1), of bar cfg index t]
    by (cases "advanced_zone cfg bar index t (zones ! j)") (simp add: update_at_def made_def split: option.split)
qed

lemma update_loop:
  assumes "distinct js" "\<forall>j\<in>set js. j < length zones \<and> fill_ok (zones ! j)"
  shows "for_each (update_at cfg bar index t) js (zones, new) =
    Inr (map (\<lambda>(j, z). if j \<in> set js then fst (advanced_zone cfg bar index t z) else z) (enumerate 0 zones),
         new @ concat (map (\<lambda>j. made (snd (advanced_zone cfg bar index t (zones ! j)))) js))"
  using assms
proof (induction js arbitrary: zones new)
  case Nil
  have "map (\<lambda>(j, z). z) (enumerate 0 zones) = zones" by (rule nth_equalityI) (simp_all add: nth_enumerate_eq)
  then show ?case by simp
next
  case (Cons j js)
  let ?adv = "advanced_zone cfg bar index t"
  let ?zs = "zones[j := fst (?adv (zones ! j))]"
  have j: "j < length zones" "fill_ok (zones ! j)" "j \<notin> set js" using Cons.prems by auto
  have same: "?zs ! i = zones ! i" if "i \<in> set js" for i using that j(3) by (metis nth_list_update_neq)
  have ok: "\<forall>i\<in>set js. i < length ?zs \<and> fill_ok (?zs ! i)" using Cons.prems(2) same by simp
  have eq1: "map (\<lambda>(i, z). if i \<in> set js then fst (?adv z) else z) (enumerate 0 ?zs)
      = map (\<lambda>(i, z). if i \<in> set (j # js) then fst (?adv z) else z) (enumerate 0 zones)"
    using j(1,3) by (intro nth_equalityI) (auto simp: nth_enumerate_eq nth_list_update)
  have eq2: "map (\<lambda>i. made (snd (?adv (?zs ! i)))) js = map (\<lambda>i. made (snd (?adv (zones ! i)))) js"
    using same by (intro map_cong) simp_all
  have "distinct js" using Cons.prems(1) by simp
  from Cons.IH [OF this ok, of "new @ made (snd (?adv (zones ! j)))"] show ?case
    unfolding for_each.simps update_at_eq [OF j(2,1)] bind_result_simps eq1 eq2 by simp
qed

lemma concat_map_filter:
  "\<forall>x\<in>set xs. \<not> p x \<longrightarrow> f x = [] \<Longrightarrow> concat (map f (filter p xs)) = concat (map f xs)"
  by (induction xs) auto

text \<open>Updating positions that leave out terminal zones only is updating all zones.\<close>

lemma update_loop_all:
  assumes "sorted_wrt (<) js" "\<forall>j\<in>set js. j < length zones" "\<forall>z\<in>set zones. fill_ok z"
    and "\<forall>j<length zones. j \<notin> set js \<longrightarrow> terminal_gap (gs_lifecycle_state (zones ! j))"
  shows "for_each (update_at cfg bar index t) js (zones, []) = Inr (advance_all cfg bar index t zones)"
proof -
  let ?adv = "advanced_zone cfg bar index t"
  have "map (\<lambda>(j, z). if j \<in> set js then fst (?adv z) else z) (enumerate 0 zones) = map (\<lambda>z. fst (?adv z)) zones"
    using assms(4) by (intro nth_equalityI) (auto simp: nth_enumerate_eq advanced_terminal)
  moreover have "js = filter (\<lambda>j. j \<in> set js) [0..<length zones]"
    by (rule strict_sorted_equal) (use assms(1,2) in \<open>auto intro: sorted_wrt_filter\<close>)
  then have "concat (map (\<lambda>j. made (snd (?adv (zones ! j)))) js)
      = concat (map (\<lambda>j. made (snd (?adv (zones ! j)))) (filter (\<lambda>j. j \<in> set js) [0..<length zones]))"
    by simp
  moreover have "\<dots> = concat (map (\<lambda>j. made (snd (?adv (zones ! j)))) [0..<length zones])"
    by (rule concat_map_filter) (use assms(4) in \<open>auto simp: advanced_terminal\<close>)
  moreover have "map (\<lambda>j. made (snd (?adv (zones ! j)))) [0..<length zones] = map (\<lambda>z. made (snd (?adv z))) zones"
    by (rule nth_equalityI) simp_all
  moreover have "distinct js" using assms(1) strict_sorted_iff by blast
  ultimately show ?thesis
    using update_loop [of js zones cfg bar index t "[]"] assms(2,3) by simp
qed

text \<open>The zones and rejections after each bar, by a fold that updates all zones.\<close>

definition formed_zones :: "fvg_config \<Rightarrow> atr_result option \<Rightarrow> candle list \<Rightarrow> nat \<Rightarrow> utc_time \<Rightarrow> gap_state list" where
  "formed_zones cfg atr candles index t =
     (case form_zone cfg atr candles index t of Inr (zones, _) \<Rightarrow> zones | Inl _ \<Rightarrow> [])"

definition formed_rejections ::
  "fvg_config \<Rightarrow> atr_result option \<Rightarrow> candle list \<Rightarrow> nat \<Rightarrow> utc_time \<Rightarrow> fvg_rejection list" where
  "formed_rejections cfg atr candles index t =
     (case form_zone cfg atr candles index t of Inr (_, rejections) \<Rightarrow> rejections | Inl _ \<Rightarrow> [])"

lemma form_zone_eq:
  "form_zone cfg atr candles index t = Inr (formed_zones cfg atr candles index t, formed_rejections cfg atr candles index t)"
  by (auto simp: form_zone_def formed_zones_def formed_rejections_def new_fvg_def make_gap_event_def
      created_event_def Let_def split: gap_formation.split)

definition next_zones ::
  "fvg_config \<Rightarrow> timeframe \<Rightarrow> atr_result option \<Rightarrow> candle list \<Rightarrow> nat \<Rightarrow> gap_state list \<Rightarrow> gap_state list" where
  "next_zones cfg tf atr candles index zones =
     (let bar = candles ! index; t = c_timestamp bar + timeframe_duration tf;
          p = advance_all cfg bar index t (zones @ formed_zones cfg atr candles index t)
      in fst p @ snd p)"

definition zones_after ::
  "fvg_config \<Rightarrow> timeframe \<Rightarrow> atr_result option \<Rightarrow> candle list \<Rightarrow> nat \<Rightarrow> gap_state list" where
  "zones_after cfg tf atr candles n = fold (next_zones cfg tf atr candles) [0..<n] []"

definition rejections_after ::
  "fvg_config \<Rightarrow> timeframe \<Rightarrow> atr_result option \<Rightarrow> candle list \<Rightarrow> nat \<Rightarrow> fvg_rejection list" where
  "rejections_after cfg tf atr candles n =
     concat (map (\<lambda>i. formed_rejections cfg atr candles i (c_timestamp (candles ! i) + timeframe_duration tf)) [0..<n])"

lemma after_simps:
  "zones_after cfg tf atr candles 0 = []"
  "zones_after cfg tf atr candles (Suc n) = next_zones cfg tf atr candles n (zones_after cfg tf atr candles n)"
  "rejections_after cfg tf atr candles 0 = []"
  "rejections_after cfg tf atr candles (Suc n) = rejections_after cfg tf atr candles n
     @ formed_rejections cfg atr candles n (c_timestamp (candles ! n) + timeframe_duration tf)"
  by (simp_all add: zones_after_def rejections_after_def)

lemma formed_fill_ok: "z \<in> set (formed_zones cfg atr candles index t) \<Longrightarrow> fill_ok z"
  by (auto simp: formed_zones_def form_zone_def new_fvg_def make_gap_event_def created_event_def Let_def fill_ok_def
      split: gap_formation.splits)

lemma next_zones_fill_ok:
  "\<forall>z\<in>set zones. fill_ok z \<Longrightarrow> \<forall>z\<in>set (next_zones cfg tf atr candles index zones). fill_ok z"
  by (auto simp: next_zones_def Let_def made_def formed_fill_ok
      intro: formed_fill_ok advanced_fill_ok(1) advanced_fill_ok(2) [OF _ sym] split: option.splits)

lemma zones_after_fill_ok: "\<forall>z\<in>set (zones_after cfg tf atr candles n). fill_ok z"
  by (induction n) (simp_all add: after_simps next_zones_fill_ok)

section \<open>The engine computes these zones\<close>

definition run_tracks ::
  "fvg_config \<Rightarrow> timeframe \<Rightarrow> atr_result option \<Rightarrow> candle list \<Rightarrow> nat \<Rightarrow> fvg_run \<Rightarrow> bool" where
  "run_tracks cfg tf atr candles n run \<longleftrightarrow>
     fr_zones run = zones_after cfg tf atr candles n
     \<and> fr_rejections run = rejections_after cfg tf atr candles n
     \<and> sorted_wrt (<) (fr_active run) \<and> (\<forall>j\<in>set (fr_active run). j < length (fr_zones run))
     \<and> (\<forall>j<length (fr_zones run). j \<notin> set (fr_active run)
          \<longrightarrow> terminal_gap (gs_lifecycle_state (fr_zones run ! j)))"

lemma fvg_bar_tracks:
  assumes "run_tracks cfg tf atr candles n run"
  shows "\<exists>run'. fvg_bar cfg tf atr candles (n, candles ! n) run = Inr run'
    \<and> run_tracks cfg tf atr candles (Suc n) run'"
proof -
  let ?t = "c_timestamp (candles ! n) + timeframe_duration tf" and ?bar = "candles ! n"
  define zones where "zones = fr_zones run @ formed_zones cfg atr candles n ?t"
  define js where "js = fr_active run @ [length (fr_zones run)..<length zones]"
  define p where "p = advance_all cfg ?bar n ?t zones"
  have run: "fr_zones run = zones_after cfg tf atr candles n"
      "fr_rejections run = rejections_after cfg tf atr candles n"
      "sorted_wrt (<) (fr_active run)" "\<forall>j\<in>set (fr_active run). j < length (fr_zones run)"
      "\<forall>j<length (fr_zones run). j \<notin> set (fr_active run) \<longrightarrow> terminal_gap (gs_lifecycle_state (fr_zones run ! j))"
    using assms by (auto simp: run_tracks_def)
  have sorted: "sorted_wrt (<) js" using run(3,4) by (auto simp: js_def sorted_wrt_append)
  have range: "\<forall>j\<in>set js. j < length zones" using run(4) by (auto simp: js_def zones_def)
  have left_out: "\<forall>j<length zones. j \<notin> set js \<longrightarrow> terminal_gap (gs_lifecycle_state (zones ! j))"
    using run(5) by (auto simp: js_def zones_def nth_append)
  have fill: "\<forall>z\<in>set zones. fill_ok z"
    using zones_after_fill_ok formed_fill_ok run(1) by (auto simp: zones_def)
  have loop: "for_each (update_at cfg ?bar n ?t) js (zones, []) = Inr p"
    unfolding p_def by (rule update_loop_all [OF sorted range fill left_out])
  have len: "length (fst p) = length zones" by (simp add: p_def)
  let ?run = "\<lparr>fr_zones = fst p @ snd p,
      fr_active = filter (\<lambda>j. \<not> terminal_gap (gs_lifecycle_state (fst p ! j))) js
        @ [length (fst p)..<length (fst p) + length (snd p)],
      fr_rejections = fr_rejections run @ formed_rejections cfg atr candles n ?t\<rparr>"
  have "fvg_bar cfg tf atr candles (n, ?bar) run = Inr ?run"
    using loop unfolding fvg_bar_def prod.case Let_def form_zone_eq bind_result_simps
      zones_def [symmetric] js_def [symmetric] by (cases p) simp
  moreover have "run_tracks cfg tf atr candles (Suc n) ?run"
  proof -
    have after: "zones_after cfg tf atr candles (Suc n) = fst p @ snd p"
      by (simp add: after_simps next_zones_def Let_def p_def zones_def run(1))
    have "terminal_gap (gs_lifecycle_state (fst p ! j))" if "j < length zones" "j \<notin> set js" for j
      using left_out that by (simp add: p_def advanced_terminal)
    then show ?thesis
      using sorted range run(2)
      by (auto simp: run_tracks_def after after_simps(4) len sorted_wrt_append sorted_wrt_filter nth_append not_less)
  qed
  ultimately show ?thesis by blast
qed

lemma fvg_run_tracks:
  "n \<le> length candles \<Longrightarrow> \<exists>run. for_each (fvg_bar cfg tf atr candles) (take n (enumerate 0 candles))
      \<lparr>fr_zones = [], fr_active = [], fr_rejections = []\<rparr> = Inr run
    \<and> run_tracks cfg tf atr candles n run"
proof (induction n)
  case 0
  then show ?case by (simp add: run_tracks_def after_simps)
next
  case (Suc n)
  then obtain run where run: "for_each (fvg_bar cfg tf atr candles) (take n (enumerate 0 candles))
      \<lparr>fr_zones = [], fr_active = [], fr_rejections = []\<rparr> = Inr run" "run_tracks cfg tf atr candles n run"
    by auto
  have "take (Suc n) (enumerate 0 candles) = take n (enumerate 0 candles) @ [(n, candles ! n)]"
    using Suc.prems by (simp add: take_Suc_conv_app_nth nth_enumerate_eq)
  then show ?case using fvg_bar_tracks [OF run(2)] run(1) by (auto simp: for_each_append)
qed

lemma analyze_fvg_eq:
  "analyze_fvg candles tf cfg atr =
    bind_result (validate_fvg_inputs candles tf cfg atr) (\<lambda>_.
      bind_result (map_result gap_zone_of (zones_after cfg tf atr candles (length candles))) (\<lambda>zones.
        Inr \<lparr>fa_timeframe = tf, fa_config = cfg, fa_candle_count = length candles,
             fa_data_cutoff_at = data_cutoff candles tf, fa_zones = zones,
             fa_rejections = rejections_after cfg tf atr candles (length candles)\<rparr>))"
proof -
  obtain run where "for_each (fvg_bar cfg tf atr candles) (enumerate 0 candles)
      \<lparr>fr_zones = [], fr_active = [], fr_rejections = []\<rparr> = Inr run" "run_tracks cfg tf atr candles (length candles) run"
    using fvg_run_tracks [of "length candles" candles cfg tf atr] by auto
  then show ?thesis by (simp add: analyze_fvg_def run_tracks_def)
qed

section \<open>The lifecycle as a state machine\<close>

inductive gap_transition ::
  "gap_zone_type \<Rightarrow> gap_lifecycle_state option \<Rightarrow> gap_event_type \<Rightarrow> gap_lifecycle_state \<Rightarrow> bool" where
  fvg_created: "gap_transition FVG None FVG_CREATED GAP_ACTIVE"
| fvg_retest: "gap_transition FVG (Some GAP_ACTIVE) FVG_RETEST GAP_PARTIALLY_FILLED"
| fvg_filled: "gap_transition FVG (Some GAP_PARTIALLY_FILLED) FVG_FILLED GAP_FILLED"
| fvg_inverted: "\<not> terminal_gap s \<Longrightarrow> gap_transition FVG (Some s) FVG_INVERTED GAP_INVERTED"
| fvg_expired: "\<not> terminal_gap s \<Longrightarrow> gap_transition FVG (Some s) FVG_EXPIRED GAP_EXPIRED"
| ifvg_created: "gap_transition IFVG None IFVG_CREATED GAP_ACTIVE"
| ifvg_retest: "gap_transition IFVG (Some GAP_ACTIVE) IFVG_RETEST GAP_PARTIALLY_FILLED"
| ifvg_filled: "gap_transition IFVG (Some GAP_PARTIALLY_FILLED) IFVG_FILLED GAP_FILLED"
| ifvg_invalidated: "\<not> terminal_gap s \<Longrightarrow> gap_transition IFVG (Some s) IFVG_INVALIDATED GAP_INVALIDATED"
| ifvg_expired: "\<not> terminal_gap s \<Longrightarrow> gap_transition IFVG (Some s) IFVG_EXPIRED GAP_EXPIRED"

inductive_cases gap_transition_someE: "gap_transition ty (Some s) e s'"

definition gap_follows :: "gap_event \<Rightarrow> gap_event \<Rightarrow> bool" where
  "gap_follows a b \<longleftrightarrow>
     gv_from_state b = Some (gv_to_state a) \<and> gv_occurred_at a \<le> gv_occurred_at b
     \<and> gv_fill_fraction a \<le> gv_fill_fraction b \<and> gv_retest_count a \<le> gv_retest_count b"

text \<open>The events of a zone: they start with its creation, follow each other and make transitions only.\<close>

definition gap_history :: "gap_zone_type \<Rightarrow> gap_event list \<Rightarrow> bool" where
  "gap_history ty events \<longleftrightarrow>
     events \<noteq> [] \<and> gv_from_state (hd events) = None
     \<and> (\<forall>e\<in>set events. gap_transition ty (gv_from_state e) (gv_event_type e) (gv_to_state e))
     \<and> (\<forall>(a, b)\<in>set (adjacent events). gap_follows a b)"

definition gap_sound :: "fvg_config \<Rightarrow> utc_time \<Rightarrow> gap_state \<Rightarrow> bool" where
  "gap_sound cfg t z \<longleftrightarrow>
     fill_ok z \<and> 0 < gs_lower z \<and> gs_lower z < gs_upper z
     \<and> (gs_origin_fvg_id z = None \<longleftrightarrow> gs_type z = FVG) \<and> gs_last_updated_at z \<noteq> None
     \<and> gap_history (gs_type z) (gs_lifecycle z)
     \<and> gv_to_state (last (gs_lifecycle z)) = gs_lifecycle_state z
     \<and> gv_occurred_at (last (gs_lifecycle z)) \<le> t
     \<and> gv_fill_fraction (last (gs_lifecycle z)) \<le> gs_fill_fraction z
     \<and> gv_retest_count (last (gs_lifecycle z)) \<le> gs_retest_count z
     \<and> (\<not> terminal_gap (gs_lifecycle_state z) \<longrightarrow>
          gs_lifecycle_state z = (if gs_fill_fraction z = 0 then GAP_ACTIVE else GAP_PARTIALLY_FILLED)
          \<and> gs_fill_fraction z < fv_full_fill_fraction cfg)
     \<and> (gs_lifecycle_state z = GAP_FILLED \<longrightarrow> fv_full_fill_fraction cfg \<le> gs_fill_fraction z)"

lemma gap_history_snoc:
  assumes "gap_history ty events" "gap_transition ty (gv_from_state e) (gv_event_type e) (gv_to_state e)"
    "gap_follows (last events) e"
  shows "gap_history ty (events @ [e])"
  using assms by (auto simp: gap_history_def adjacent_append)

lemma last_with_event [simp]:
  "gv_to_state (last (gs_lifecycle (with_event e bar t s z))) = s"
  "gv_occurred_at (last (gs_lifecycle (with_event e bar t s z))) = t"
  "gv_fill_fraction (last (gs_lifecycle (with_event e bar t s z))) = gs_fill_fraction z"
  "gv_retest_count (last (gs_lifecycle (with_event e bar t s z))) = gs_retest_count z"
  by (simp_all add: with_event_def)

lemma with_event_history:
  assumes "gap_history ty (gs_lifecycle z)" "gap_transition ty (Some (gs_lifecycle_state z)) e s"
    "gv_to_state (last (gs_lifecycle z)) = gs_lifecycle_state z" "gv_occurred_at (last (gs_lifecycle z)) \<le> t"
    "gv_fill_fraction (last (gs_lifecycle z)) \<le> gs_fill_fraction z"
    "gv_retest_count (last (gs_lifecycle z)) \<le> gs_retest_count z"
  shows "gap_history ty (gs_lifecycle (with_event e bar t s z))"
proof -
  let ?e = "last (gs_lifecycle (with_event e bar t s z))"
  have eq: "gs_lifecycle (with_event e bar t s z) = gs_lifecycle z @ [?e]" by (simp add: with_event_def)
  have "gap_history ty (gs_lifecycle z @ [?e])"
    by (rule gap_history_snoc [OF assms(1)]) (use assms in \<open>simp_all add: gap_follows_def with_event_def\<close>)
  then show ?thesis by (rule ssubst [OF eq, where P = "gap_history ty"])
qed

lemma gap_sound_event:
  assumes "fill_ok z" "0 < gs_lower z" "gs_lower z < gs_upper z"
    "gs_origin_fvg_id z = None \<longleftrightarrow> gs_type z = FVG" "gap_history (gs_type z) (gs_lifecycle z)"
    "gv_to_state (last (gs_lifecycle z)) = gs_lifecycle_state z"
    "gv_occurred_at (last (gs_lifecycle z)) \<le> t"
    "gv_fill_fraction (last (gs_lifecycle z)) \<le> gs_fill_fraction z"
    "gv_retest_count (last (gs_lifecycle z)) \<le> gs_retest_count z"
    "gap_transition (gs_type z) (Some (gs_lifecycle_state z)) ty s"
    "\<not> terminal_gap s \<Longrightarrow> s = (if gs_fill_fraction z = 0 then GAP_ACTIVE else GAP_PARTIALLY_FILLED)
      \<and> gs_fill_fraction z < fv_full_fill_fraction cfg"
    "s = GAP_FILLED \<Longrightarrow> fv_full_fill_fraction cfg \<le> gs_fill_fraction z"
  shows "gap_sound cfg t (with_event ty bar t s z)"
proof -
  have "gap_history (gs_type z) (gs_lifecycle (with_event ty bar t s z))"
    by (rule with_event_history) (use assms in simp_all)
  then show ?thesis using assms by (simp add: gap_sound_def)
qed

lemma gap_sound_later: "gap_sound cfg t z \<Longrightarrow> t \<le> t' \<Longrightarrow> gap_sound cfg t' z"
  by (auto simp: gap_sound_def)

lemma touched_sound:
  assumes "gap_sound cfg t0 z" "t0 \<le> t" "\<not> terminal_gap (gs_lifecycle_state z)" "0 < observed" "observed \<le> 1"
  shows "gap_sound cfg t (touched_zone cfg bar t observed z)"
proof -
  define a where "a = z\<lparr>gs_retest_count := gs_retest_count z + 1,
    gs_fill_fraction := max (gs_fill_fraction z) observed, gs_last_updated_at := Some t\<rparr>"
  define b where "b = (if gs_fill_fraction z = 0
    then with_event (if gs_type z = FVG then FVG_RETEST else IFVG_RETEST) bar t GAP_PARTIALLY_FILLED a else a)"
  have eq: "touched_zone cfg bar t observed z = (if gs_fill_fraction b \<ge> fv_full_fill_fraction cfg
      then with_event (if gs_type z = FVG then FVG_FILLED else IFVG_FILLED) bar t GAP_FILLED b else b)"
    by (simp add: touched_zone_def Let_def a_def b_def)
  have type_cases: "gs_type z = FVG \<or> gs_type z = IFVG" by (cases "gs_type z") auto
  have b: "gs_fill_fraction b = max (gs_fill_fraction z) observed" "gs_lifecycle_state b = GAP_PARTIALLY_FILLED"
      "gs_type b = gs_type z" "fill_ok b" "0 < gs_lower b" "gs_lower b < gs_upper b"
      "gs_origin_fvg_id b = None \<longleftrightarrow> gs_type b = FVG" "gs_last_updated_at b = Some t"
    using assms by (auto simp: b_def a_def gap_sound_def fill_ok_def max_def)
  have hist: "gap_history (gs_type z) (gs_lifecycle z)" using assms(1) by (simp add: gap_sound_def)
  have "gap_history (gs_type b) (gs_lifecycle b) \<and> gv_to_state (last (gs_lifecycle b)) = GAP_PARTIALLY_FILLED
      \<and> gv_occurred_at (last (gs_lifecycle b)) \<le> t
      \<and> gv_fill_fraction (last (gs_lifecycle b)) \<le> gs_fill_fraction b
      \<and> gv_retest_count (last (gs_lifecycle b)) \<le> gs_retest_count b"
  proof (cases "gs_fill_fraction z = 0")
    case True
    then have active: "gs_lifecycle_state z = GAP_ACTIVE" using assms(1,3) by (simp add: gap_sound_def)
    have "gap_history (gs_type z) (gs_lifecycle b)"
      unfolding b_def if_P [OF True]
      by (rule with_event_history)
        (use assms(1,2,4) active type_cases True in \<open>auto simp: a_def gap_sound_def intro: gap_transition.intros\<close>)
    with True b(3) show ?thesis by (simp add: b_def)
  next
    case False
    then show ?thesis using assms(1-3) by (auto simp: b_def a_def gap_sound_def)
  qed
  then show ?thesis
  proof (cases "gs_fill_fraction b \<ge> fv_full_fill_fraction cfg")
    case True
    have "gap_sound cfg t (with_event (if gs_type z = FVG then FVG_FILLED else IFVG_FILLED) bar t GAP_FILLED b)"
      by (rule gap_sound_event)
        (use b \<open>_ \<and> _\<close> True type_cases in \<open>auto simp: terminal_gap_def intro: gap_transition.intros\<close>)
    with True show ?thesis by (simp add: eq)
  next
    case False
    then show ?thesis
      using b \<open>_ \<and> _\<close> assms(4) by (auto simp: eq gap_sound_def terminal_gap_def max_def split: if_splits)
  qed
qed

lemma expired_sound:
  assumes "gap_sound cfg t0 z" "t0 \<le> t" "\<not> terminal_gap (gs_lifecycle_state z)"
  shows "gap_sound cfg t (expired_zone cfg bar index t z)"
proof -
  have "gap_transition (gs_type z) (Some (gs_lifecycle_state z))
      (if gs_type z = FVG then FVG_EXPIRED else IFVG_EXPIRED) GAP_EXPIRED"
    using assms(3) by (cases "gs_type z") (auto intro: gap_transition.intros)
  then have "gap_sound cfg t (with_event (if gs_type z = FVG then FVG_EXPIRED else IFVG_EXPIRED) bar t GAP_EXPIRED z)"
    by (intro gap_sound_event) (use assms(1,2) in \<open>auto simp: gap_sound_def terminal_gap_def\<close>)
  then show ?thesis using gap_sound_later [OF assms(1,2)] by (simp add: expired_zone_def)
qed

lemma advanced_zone_fields [simp]:
  "gs_zone_id (fst (advanced_zone cfg bar index t z)) = gs_zone_id z"
  "gs_type (fst (advanced_zone cfg bar index t z)) = gs_type z"
  "gs_direction (fst (advanced_zone cfg bar index t z)) = gs_direction z"
  "gs_lower (fst (advanced_zone cfg bar index t z)) = gs_lower z"
  "gs_upper (fst (advanced_zone cfg bar index t z)) = gs_upper z"
  "gs_created_at (fst (advanced_zone cfg bar index t z)) = gs_created_at z"
  "gs_confirmed_at (fst (advanced_zone cfg bar index t z)) = gs_confirmed_at z"
  "gs_source_timestamps (fst (advanced_zone cfg bar index t z)) = gs_source_timestamps z"
  "gs_origin_fvg_id (fst (advanced_zone cfg bar index t z)) = gs_origin_fvg_id z"
  by (simp_all add: advanced_zone_def Let_def touched_zone_def expired_zone_def)

lemma inverted_fields [simp]:
  "gs_zone_id (inverted_gap z bar index t) = ifvg_id (opposite_direction (gs_direction z)) bar (gs_zone_id z)"
  "gs_type (inverted_gap z bar index t) = IFVG"
  "gs_direction (inverted_gap z bar index t) = opposite_direction (gs_direction z)"
  "gs_lower (inverted_gap z bar index t) = gs_lower z"
  "gs_upper (inverted_gap z bar index t) = gs_upper z"
  "gs_origin_fvg_id (inverted_gap z bar index t) = Some (gs_zone_id z)"
  "gs_confirmed_at (inverted_gap z bar index t) = t"
  "gs_created_at (inverted_gap z bar index t) = t"
  by (simp_all add: inverted_gap_def new_ifvg_def make_gap_event_def created_event_def Let_def)

lemma created_sound:
  assumes "fvg_config_valid cfg" "0 < gs_lower z" "gs_lower z < gs_upper z" "gs_fill_fraction z = 0"
    "gs_lifecycle_state z = GAP_ACTIVE" "gs_last_updated_at z \<noteq> None" "gs_retest_count z = 0"
    "gs_origin_fvg_id z = None \<longleftrightarrow> gs_type z = FVG"
    "gs_lifecycle z = [created_event (if gs_type z = FVG then FVG_CREATED else IFVG_CREATED) name bar t]"
  shows "gap_sound cfg t z"
proof -
  have "gap_history (gs_type z) (gs_lifecycle z)"
    unfolding assms(9) by (cases "gs_type z") (auto simp: gap_history_def created_event_def intro: gap_transition.intros)
  then show ?thesis
    using assms by (simp add: gap_sound_def fill_ok_def created_event_def terminal_gap_def fvg_config_valid_def)
qed

lemma advanced_sound:
  assumes "gap_sound cfg t0 z" "t0 \<le> t" "fvg_config_valid cfg"
  shows "gap_sound cfg t (fst (advanced_zone cfg bar index t z))"
    and "snd (advanced_zone cfg bar index t z) = Some y \<Longrightarrow> gap_sound cfg t y"
proof -
  let ?o = "bar_fill_fraction z bar (fv_fill_basis cfg)"
  have event: "gap_sound cfg t (with_event e bar t s z)"
    if "gap_transition (gs_type z) (Some (gs_lifecycle_state z)) e s" "terminal_gap s" "s \<noteq> GAP_FILLED" for e s
    by (rule gap_sound_event) (use assms(1,2) that in \<open>auto simp: gap_sound_def\<close>)
  show "gap_sound cfg t (fst (advanced_zone cfg bar index t z))"
  proof (cases "c_timestamp bar < gs_confirmed_at z \<or> terminal_gap (gs_lifecycle_state z)")
    case True
    then show ?thesis using gap_sound_later [OF assms(1,2)] by (auto simp: advanced_zone_def)
  next
    case False
    then have live: "\<not> terminal_gap (gs_lifecycle_state z)" by simp
    have touched: "gap_sound cfg t (touched_zone cfg bar t ?o z)" if "0 < ?o"
      using touched_sound [OF assms(1,2) live that] bar_fill_fraction_bounds by blast
    have open_after: "\<not> terminal_gap (gs_lifecycle_state (touched_zone cfg bar t ?o z))"
      if "\<not> gs_fill_fraction (touched_zone cfg bar t ?o z) \<ge> fv_full_fill_fraction cfg"
      using live that by (auto simp: touched_zone_def Let_def terminal_gap_def with_event_def split: if_splits)
    show ?thesis
      using False touched open_after expired_sound [OF touched order_refl open_after]
        expired_sound [OF assms(1,2) live]
      by (auto simp: advanced_zone_def Let_def intro!: event gap_transition.intros) (auto simp: terminal_gap_def)
  qed
  show "gap_sound cfg t y" if made: "snd (advanced_zone cfg bar index t z) = Some y"
  proof -
    obtain origin where y: "y = inverted_gap origin bar index t" "gs_lower origin = gs_lower z" "gs_upper origin = gs_upper z"
      using made by (auto simp: advanced_zone_def Let_def split: if_splits)
    show ?thesis
      by (rule created_sound [OF assms(3), where name = "gs_zone_id y" and bar = bar])
        (use assms(1) y in \<open>simp_all add: gap_sound_def inverted_gap_def new_ifvg_def make_gap_event_def created_event_def Let_def\<close>)
  qed
qed

lemma formation_bounds:
  assumes "formation_at cfg atr candles index = FORMATION d l u" "\<forall>c\<in>set candles. candle_valid c"
    "index < length candles"
  shows "0 < l" "l < u"
proof -
  have valid: "candle_valid (candles ! j)" if "j \<le> index" for j using that assms(2,3) by simp
  have pos: "0 < c_high (candles ! j)" if "j \<le> index" for j
    using valid [OF that] by (simp add: candle_valid_iff candle_fields_def)
  have diff: "0 < dsub a b \<longleftrightarrow> b < a" for a b by (simp add: dsub_def)
  show "0 < l" "l < u"
    using assms(1) pos [of index] pos [of "index - 2"]
    by (auto simp: formation_at_def gap_formation_def Let_def diff split: if_splits)
qed

lemma formed_sound:
  assumes "z \<in> set (formed_zones cfg atr candles index t)" "\<forall>c\<in>set candles. candle_valid c"
    "index < length candles" "fvg_config_valid cfg"
  shows "gap_sound cfg t z" "gs_type z = FVG"
proof -
  obtain d l u where f: "formation_at cfg atr candles index = FORMATION d l u" "new_fvg d l u candles index t = Inr z"
    using assms(1) by (auto simp: formed_zones_def form_zone_def bind_result_def
        split: gap_formation.splits sum.splits)
  have z: "gs_lower z = l" "gs_upper z = u" "gs_fill_fraction z = 0" "gs_lifecycle_state z = GAP_ACTIVE"
      "gs_last_updated_at z = Some t" "gs_retest_count z = 0" "gs_origin_fvg_id z = None" "gs_type z = FVG"
      "gs_lifecycle z = [created_event FVG_CREATED (fvg_id d (candles ! index)) (candles ! index) t]"
    using f(2) by (auto simp: new_fvg_def make_gap_event_def created_event_def Let_def)
  show "gap_sound cfg t z"
    by (rule created_sound [OF assms(4)]) (use z formation_bounds [OF f(1) assms(2,3)] in simp_all)
  show "gs_type z = FVG" by (rule z(8))
qed

text \<open>Where an inverted gap comes from.\<close>

definition has_origin :: "gap_state list \<Rightarrow> gap_state \<Rightarrow> bool" where
  "has_origin zones z \<longleftrightarrow>
     (\<exists>origin\<in>set zones. gs_origin_fvg_id z = Some (gs_zone_id origin) \<and> gs_type origin = FVG
        \<and> gs_lifecycle_state origin = GAP_INVERTED
        \<and> gs_lower z = gs_lower origin \<and> gs_upper z = gs_upper origin
        \<and> gs_direction z = opposite_direction (gs_direction origin)
        \<and> gs_confirmed_at z = gv_occurred_at (last (gs_lifecycle origin)))"

lemma advanced_made:
  assumes "snd (advanced_zone cfg bar index t z) = Some y"
  shows "y = inverted_gap (fst (advanced_zone cfg bar index t z)) bar index t"
    "gs_type z = FVG" "gs_lifecycle_state (fst (advanced_zone cfg bar index t z)) = GAP_INVERTED"
    "gv_occurred_at (last (gs_lifecycle (fst (advanced_zone cfg bar index t z)))) = t"
  using assms by (auto simp: advanced_zone_def Let_def split: if_splits)

definition zones_sound :: "fvg_config \<Rightarrow> utc_time \<Rightarrow> gap_state list \<Rightarrow> bool" where
  "zones_sound cfg t zones \<longleftrightarrow>
     (\<forall>z\<in>set zones. gap_sound cfg t z \<and> (gs_type z = IFVG \<longrightarrow> has_origin zones z))"

lemma next_zones_sound:
  assumes "zones_sound cfg t0 zones" "\<forall>c\<in>set candles. candle_valid c" "index < length candles"
    "fvg_config_valid cfg" "t0 \<le> c_timestamp (candles ! index) + timeframe_duration tf"
  shows "zones_sound cfg (c_timestamp (candles ! index) + timeframe_duration tf)
    (next_zones cfg tf atr candles index zones)"
proof -
  let ?t = "c_timestamp (candles ! index) + timeframe_duration tf" and ?bar = "candles ! index"
  let ?adv = "advanced_zone cfg ?bar index ?t"
  let ?all = "zones @ formed_zones cfg atr candles index ?t"
  let ?next = "next_zones cfg tf atr candles index zones"
  have next_eq: "?next = map (\<lambda>z. fst (?adv z)) ?all @ concat (map (\<lambda>z. made (snd (?adv z))) ?all)"
    by (simp add: next_zones_def Let_def)
  have old: "gap_sound cfg ?t z" if "z \<in> set ?all" for z
    using that assms(1,5) formed_sound(1) [OF _ assms(2-4)] gap_sound_later by (auto simp: zones_sound_def)
  have kept: "has_origin ?next (fst (?adv z))" if z: "z \<in> set ?all" "gs_type z = IFVG" for z
  proof -
    have "z \<in> set zones" using z formed_sound(2) [OF _ assms(2-4)] by auto
    then obtain origin where origin: "origin \<in> set zones" "gs_origin_fvg_id z = Some (gs_zone_id origin)"
        "gs_type origin = FVG" "gs_lifecycle_state origin = GAP_INVERTED" "gs_lower z = gs_lower origin"
        "gs_upper z = gs_upper origin" "gs_direction z = opposite_direction (gs_direction origin)"
        "gs_confirmed_at z = gv_occurred_at (last (gs_lifecycle origin))"
      using assms(1) z(2) by (auto simp: zones_sound_def has_origin_def)
    have "fst (?adv origin) = origin" using origin(4) by (simp add: advanced_terminal terminal_gap_def)
    then have "origin \<in> set ?next" unfolding next_eq using origin(1) by force
    with origin show ?thesis unfolding has_origin_def by (intro bexI [of _ origin]) simp_all
  qed
  have made_origin: "has_origin ?next y" if "z \<in> set ?all" "snd (?adv z) = Some y" for z y
  proof -
    have "fst (?adv z) \<in> set ?next" unfolding next_eq using that(1) by auto
    then show ?thesis
      unfolding has_origin_def using advanced_made [OF that(2)]
      by (intro bexI [of _ "fst (?adv z)"]) simp_all
  qed
  show ?thesis
    unfolding zones_sound_def
  proof
    fix y assume "y \<in> set ?next"
    then consider z where "z \<in> set ?all" "y = fst (?adv z)" | z where "z \<in> set ?all" "snd (?adv z) = Some y"
      unfolding next_eq by (fastforce simp: made_def split: option.splits)
    then show "gap_sound cfg ?t y \<and> (gs_type y = IFVG \<longrightarrow> has_origin ?next y)"
    proof cases
      case 1
      then show ?thesis using advanced_sound(1) [OF old [OF 1(1)] order_refl assms(4)] kept [OF 1(1)] by simp
    next
      case 2
      then show ?thesis using advanced_sound(2) [OF old [OF 2(1)] order_refl assms(4) 2(2)] made_origin by blast
    qed
  qed
qed

lemma zones_after_sound:
  assumes "\<forall>c\<in>set candles. candle_valid c" "chronological candles" "fvg_config_valid cfg" "n \<le> length candles"
  shows "zones_sound cfg (if n = 0 then t0 else c_timestamp (candles ! (n - 1)) + timeframe_duration tf)
    (zones_after cfg tf atr candles n)"
  using assms(4)
proof (induction n)
  case 0
  then show ?case by (simp add: zones_sound_def after_simps)
next
  case (Suc n)
  have "n = 0 \<Longrightarrow> zones_sound cfg (c_timestamp (candles ! n) + timeframe_duration tf) (zones_after cfg tf atr candles n)"
    by (simp add: zones_sound_def after_simps)
  moreover have "0 < n \<Longrightarrow> c_timestamp (candles ! (n - 1)) \<le> c_timestamp (candles ! n)"
    using assms(2) Suc.prems by (auto simp: chronological_def sorted_wrt_map sorted_wrt_iff_nth_less intro: less_imp_le)
  ultimately obtain t1 where "zones_sound cfg t1 (zones_after cfg tf atr candles n)"
      "t1 \<le> c_timestamp (candles ! n) + timeframe_duration tf"
    using Suc by (cases "n = 0") force+
  from next_zones_sound [OF this(1) assms(1) _ assms(3) this(2), of atr] Suc.prems
  show ?case by (simp add: after_simps)
qed

text \<open>The schema accepts every zone, so an analysis of valid candles fails only in its input checks.\<close>

lemma gap_zone_total:
  "gap_sound cfg t z \<Longrightarrow> \<exists>y. gap_zone_of z = Inr y \<and> gz_zone_id y = gs_zone_id z \<and> gz_type y = gs_type z
    \<and> gz_direction y = gs_direction z \<and> gz_lower y = gs_lower z \<and> gz_upper y = gs_upper z
    \<and> gz_confirmed_at y = gs_confirmed_at z \<and> gz_status y = public_status (gs_lifecycle_state z)
    \<and> gz_lifecycle_state y = gs_lifecycle_state z \<and> gz_origin_fvg_id y = gs_origin_fvg_id z
    \<and> gz_fill_fraction y = gs_fill_fraction z \<and> gz_retest_count y = gs_retest_count z
    \<and> gz_lifecycle y = gs_lifecycle z"
  by (cases "gs_type z") (auto simp: gap_sound_def gap_zone_of_def make_gap_zone_def require_def fill_ok_def)

lemma zones_total:
  assumes "zones_sound cfg t zones"
  shows "\<exists>ys. map_result gap_zone_of zones = Inr ys"
  unfolding map_result_returns_iff using assms gap_zone_total by (fastforce simp: zones_sound_def)

lemma validate_fvg_chronological:
  "fvg_config_valid cfg \<Longrightarrow> validate_fvg_inputs candles tf cfg atr = Inr u \<Longrightarrow> chronological candles"
  using spaced_chronological [of tf candles]
  by (auto simp: validate_fvg_inputs_def bind_result_eq_Inr validate_tick_candles_Inr fvg_config_valid_def)

lemma analyze_fvg_total:
  assumes "fvg_config_valid cfg" "\<forall>c\<in>set candles. candle_valid c" "validate_fvg_inputs candles tf cfg atr = Inr ()"
  shows "\<exists>r. analyze_fvg candles tf cfg atr = Inr r"
  using zones_total [OF zones_after_sound [OF assms(2) validate_fvg_chronological [OF assms(1,3)] assms(1) order_refl,
        of 0 tf atr]] assms(3)
  by (auto simp: analyze_fvg_eq)

section \<open>Zones are never rewritten\<close>

definition take_atr :: "nat \<Rightarrow> atr_result option \<Rightarrow> atr_result option" where
  "take_atr n = map_option (\<lambda>atr. atr\<lparr>ar_points := take n (ar_points atr)\<rparr>)"

lemma form_zone_prefix:
  assumes "index < n" "n \<le> length candles"
  shows "form_zone cfg (take_atr n atr) (take n candles) index t = form_zone cfg atr candles index t"
proof -
  have nth: "take n candles ! j = candles ! j" if "j \<le> index" for j using assms that by simp
  have "atr_at_open (take_atr n atr) index = atr_at_open atr index"
    using assms by (cases atr) (auto simp: atr_at_open_def take_atr_def)
  then have "formation_at cfg (take_atr n atr) (take n candles) index = formation_at cfg atr candles index"
    by (simp add: formation_at_def gap_formation_def nth)
  moreover have "take 3 (drop (index - 2) (take n candles)) = take 3 (drop (index - 2) candles)"
    if "2 \<le> index"
  proof -
    have "3 \<le> n - (index - 2)" using assms that by linarith
    then show ?thesis by (simp add: drop_take min_absorb1)
  qed
  then have "new_fvg d l u (take n candles) index t = new_fvg d l u candles index t" if "2 \<le> index" for d l u
    using that by (simp add: new_fvg_def nth Let_def)
  moreover have "formation_at cfg atr candles index = FORMATION d l u \<Longrightarrow> 2 \<le> index" for d l u
    by (simp add: formation_at_def split: if_splits)
  ultimately show ?thesis by (auto simp: form_zone_def nth split: gap_formation.split)
qed

lemma zones_after_prefix:
  assumes "m \<le> n" "n \<le> length candles"
  shows "zones_after cfg tf (take_atr n atr) (take n candles) m = zones_after cfg tf atr candles m"
    and "rejections_after cfg tf (take_atr n atr) (take n candles) m = rejections_after cfg tf atr candles m"
  using assms(1)
  by (induction m)
    (use assms(2) in \<open>auto simp: after_simps next_zones_def Let_def formed_zones_def formed_rejections_def form_zone_prefix\<close>)

text \<open>What a zone keeps: everything but its state, its fill, its retests and its events, which only grow.\<close>

definition gap_kept :: "gap_zone \<Rightarrow> gap_zone \<Rightarrow> bool" where
  "gap_kept z z' \<longleftrightarrow>
     gz_zone_id z' = gz_zone_id z \<and> gz_type z' = gz_type z \<and> gz_direction z' = gz_direction z
     \<and> gz_lower z' = gz_lower z \<and> gz_upper z' = gz_upper z \<and> gz_confirmed_at z' = gz_confirmed_at z
     \<and> gz_origin_fvg_id z' = gz_origin_fvg_id z \<and> gz_fill_fraction z \<le> gz_fill_fraction z'
     \<and> (\<exists>events. gz_lifecycle z' = gz_lifecycle z @ events)"

definition gap_grows :: "gap_state \<Rightarrow> gap_state \<Rightarrow> bool" where
  "gap_grows z z' \<longleftrightarrow>
     gs_zone_id z' = gs_zone_id z \<and> gs_type z' = gs_type z \<and> gs_direction z' = gs_direction z
     \<and> gs_lower z' = gs_lower z \<and> gs_upper z' = gs_upper z \<and> gs_confirmed_at z' = gs_confirmed_at z
     \<and> gs_origin_fvg_id z' = gs_origin_fvg_id z \<and> gs_fill_fraction z \<le> gs_fill_fraction z'
     \<and> (\<exists>events. gs_lifecycle z' = gs_lifecycle z @ events)"

lemma gap_grows_refl: "gap_grows z z"
  by (simp add: gap_grows_def)

lemma gap_grows_trans: "gap_grows a b \<Longrightarrow> gap_grows b c \<Longrightarrow> gap_grows a c"
  by (auto simp: gap_grows_def)

lemma advanced_grows: "gap_grows z (fst (advanced_zone cfg bar index t z))"
proof -
  let ?P = "\<lambda>y. \<exists>events. gs_lifecycle y = gs_lifecycle z @ events"
  have step: "?P y \<Longrightarrow> ?P (with_event e b t' s y)" for e b t' s y by (auto simp: with_event_def)
  have touched: "?P (touched_zone cfg bar t obs z)"
      "gs_fill_fraction z \<le> gs_fill_fraction (touched_zone cfg bar t obs z)" for obs
    by (auto simp: touched_zone_def Let_def intro!: step)
  have expired: "?P y \<Longrightarrow> ?P (expired_zone cfg bar index t y)" for y
    by (auto simp: expired_zone_def intro!: step)
  have "?P (fst (advanced_zone cfg bar index t z))"
    using touched(1) expired [OF touched(1)] expired [of z]
    by (simp add: advanced_zone_def Let_def step)
  moreover have "gs_fill_fraction z \<le> gs_fill_fraction (fst (advanced_zone cfg bar index t z))"
    using touched(2) by (simp add: advanced_zone_def Let_def expired_zone_def)
  ultimately show ?thesis by (simp add: gap_grows_def)
qed

lemma next_zones_grow:
  "j < length zones \<Longrightarrow> j < length (next_zones cfg tf atr candles index zones)
    \<and> gap_grows (zones ! j) (next_zones cfg tf atr candles index zones ! j)"
  by (simp add: next_zones_def Let_def nth_append advanced_grows)

lemma zones_after_grow:
  assumes "j < length (zones_after cfg tf atr candles n)"
  shows "j < length (zones_after cfg tf atr candles (n + k))
    \<and> gap_grows (zones_after cfg tf atr candles n ! j) (zones_after cfg tf atr candles (n + k) ! j)"
proof (induction k)
  case (Suc k)
  then show ?case
    using next_zones_grow [of j "zones_after cfg tf atr candles (n + k)" cfg tf atr candles "n + k"]
    by (auto simp: after_simps intro: gap_grows_trans)
qed (use assms in \<open>simp add: gap_grows_refl\<close>)

lemma rejections_after_grow: "\<exists>rest. rejections_after cfg tf atr candles (n + k) = rejections_after cfg tf atr candles n @ rest"
  by (induction k) (auto simp: after_simps)

lemma validate_fvg_take:
  assumes "fvg_config_valid cfg" "validate_fvg_inputs candles tf cfg atr = Inr ()" "n \<le> length candles"
  shows "validate_fvg_inputs (take n candles) tf cfg (take_atr n atr) = Inr ()"
proof -
  have tick: "0 < fv_tick_size cfg" using assms(1) by (simp add: fvg_config_valid_def)
  have "set (adjacent (take n candles)) \<subseteq> set (adjacent candles)"
    using adjacent_set_prefix [of "take n candles" "drop n candles"] by simp
  then have "validate_tick_candles FVGInputError (take n candles) tf (fv_tick_size cfg) = Inr ()"
    using assms(2) set_take_subset [of n candles]
    by (auto simp: validate_fvg_inputs_def bind_result_eq_Inr validate_tick_candles_Inr [OF tick] spaced_def)
  moreover have "set (zip (take n candles) (take n ps)) \<subseteq> set (zip candles ps)" for ps :: "atr_point list"
    by (simp add: set_take_subset flip: take_zip)
  ultimately show ?thesis
    using assms(2,3)
    by (cases atr) (auto simp: validate_fvg_inputs_def bind_result_eq_Inr take_atr_def check_all_Inr split: if_splits)
qed

lemma gap_kept_of:
  assumes "gap_zone_of a = Inr y" "gap_zone_of b = Inr y'" "gap_grows a b"
  shows "gap_kept y y'"
  using assms by (auto simp: gap_zone_of_def make_gap_zone_def gap_kept_def gap_grows_def bind_result_eq_Inr
      require_def split: option.splits if_splits)

text \<open>The prefix of an analysis, as its users need it.\<close>

lemma fvg_prefix_kept:
  assumes "fvg_config_valid cfg" "\<forall>c\<in>set candles. candle_valid c" "n \<le> length candles"
    and "analyze_fvg candles tf cfg atr = Inr a"
  shows "\<exists>b. analyze_fvg (take n candles) tf cfg (take_atr n atr) = Inr b
    \<and> list_all2 gap_kept (fa_zones b) (take (length (fa_zones b)) (fa_zones a))
    \<and> (\<exists>later. fa_rejections a = fa_rejections b @ later)"
proof -
  have valid: "validate_fvg_inputs candles tf cfg atr = Inr ()"
    and a: "map_result gap_zone_of (zones_after cfg tf atr candles (length candles)) = Inr (fa_zones a)"
      "fa_rejections a = rejections_after cfg tf atr candles (length candles)"
    using assms(4) by (auto simp: analyze_fvg_eq bind_result_eq_Inr)
  note prefix = zones_after_prefix [OF order_refl assms(3), of cfg tf atr]
  have valid': "validate_fvg_inputs (take n candles) tf cfg (take_atr n atr) = Inr ()"
    by (rule validate_fvg_take [OF assms(1) valid assms(3)])
  moreover have "\<forall>c\<in>set (take n candles). candle_valid c" using assms(2) by (auto dest: in_set_takeD)
  ultimately obtain b where b: "analyze_fvg (take n candles) tf cfg (take_atr n atr) = Inr b"
    using analyze_fvg_total [OF assms(1)] by blast
  have ln: "length (take n candles) = n" using assms(3) by simp
  have bz: "map_result gap_zone_of (zones_after cfg tf atr candles n) = Inr (fa_zones b)"
      "fa_rejections b = rejections_after cfg tf atr candles n"
    using b valid' prefix by (auto simp: analyze_fvg_eq bind_result_eq_Inr ln simp del: length_take)
  have len: "length (fa_zones b) = length (zones_after cfg tf atr candles n)"
      "length (fa_zones a) = length (zones_after cfg tf atr candles (length candles))"
    using a bz by (auto simp: map_result_Inr dest: list_all2_lengthD)
  have grow: "j < length (zones_after cfg tf atr candles (length candles))
      \<and> gap_grows (zones_after cfg tf atr candles n ! j) (zones_after cfg tf atr candles (length candles) ! j)"
    if "j < length (fa_zones b)" for j
    using zones_after_grow [of j cfg tf atr candles n "length candles - n"] that len assms(3) by simp
  have "list_all2 gap_kept (fa_zones b) (take (length (fa_zones b)) (fa_zones a))"
  proof (rule list_all2_all_nthI)
    show "length (fa_zones b) = length (take (length (fa_zones b)) (fa_zones a))"
    proof (cases "length (fa_zones b) \<le> length (fa_zones a)")
      case False
      then show ?thesis using grow [of "length (fa_zones a)"] len by simp
    qed simp
    fix j assume j: "j < length (fa_zones b)"
    have "gap_zone_of (zones_after cfg tf atr candles n ! j) = Inr (fa_zones b ! j)"
      using bz(1) j len by (simp add: map_result_Inr list_all2_conv_all_nth)
    moreover have "gap_zone_of (zones_after cfg tf atr candles (length candles) ! j) = Inr (fa_zones a ! j)"
      using a(1) grow [OF j] by (simp add: map_result_Inr list_all2_conv_all_nth)
    ultimately show "gap_kept (fa_zones b ! j) (take (length (fa_zones b)) (fa_zones a) ! j)"
      using gap_kept_of grow [OF j] j by simp
  qed
  moreover have "\<exists>later. fa_rejections a = fa_rejections b @ later"
    using rejections_after_grow [of cfg tf atr candles n "length candles - n"] a(2) bz(2) assms(3) by simp
  ultimately show ?thesis using b by blast
qed

text \<open>
  C36: gaps never repaint. The gaps and rejections reported for the first \<open>n\<close> candles are the first ones
  reported for all candles: the same identity, bounds, direction, confirmation and origin, with events only
  appended and the fill only growing.
\<close>

theorem fvg_never_repaints:
  assumes "fvg_config_valid cfg" "\<forall>c\<in>set candles. candle_valid c" "n \<le> length candles"
    and "analyze_fvg candles tf cfg atr = Inr a"
  shows "\<exists>b. analyze_fvg (take n candles) tf cfg (take_atr n atr) = Inr b
    \<and> list_all2 gap_kept (fa_zones b) (take (length (fa_zones b)) (fa_zones a))
    \<and> (\<exists>later. fa_rejections a = fa_rejections b @ later)"
  using assms by (rule fvg_prefix_kept)

section \<open>Properties of the engine\<close>

text \<open>
  C35: the lifecycle of every gap is a run of the state machine. Each event is a transition of the machine from
  the state the one before it led to, in time order with fills and retests that never shrink; the status
  shown agrees with the last event; an open gap is partially filled exactly when it has been touched and
  below the full fill, a filled one has reached it; and every inverted gap stems from a gap of the same
  analysis with the same bounds and the other direction that was inverted when the inverted gap was confirmed.
\<close>

theorem fvg_lifecycle_sound:
  assumes "fvg_config_valid cfg" "\<forall>c\<in>set candles. candle_valid c"
    and "analyze_fvg candles tf cfg atr = Inr a" "z \<in> set (fa_zones a)"
  shows "gap_history (gz_type z) (gz_lifecycle z)
    \<and> gz_lower z < gz_upper z \<and> 0 \<le> gz_fill_fraction z \<and> gz_fill_fraction z \<le> 1
    \<and> gv_to_state (last (gz_lifecycle z)) = gz_lifecycle_state z
    \<and> gz_status z = public_status (gz_lifecycle_state z)
    \<and> (gz_status z = ZONE_OPEN \<longrightarrow> gz_fill_fraction z = 0)
    \<and> (gz_status z = ZONE_PARTIAL \<longrightarrow> 0 < gz_fill_fraction z \<and> gz_fill_fraction z < fv_full_fill_fraction cfg)
    \<and> (gz_status z = ZONE_FILLED \<longrightarrow> fv_full_fill_fraction cfg \<le> gz_fill_fraction z)
    \<and> (gz_type z = IFVG \<longrightarrow> (\<exists>origin\<in>set (fa_zones a). gz_origin_fvg_id z = Some (gz_zone_id origin)
         \<and> gz_type origin = FVG \<and> gz_lifecycle_state origin = GAP_INVERTED
         \<and> gz_lower z = gz_lower origin \<and> gz_upper z = gz_upper origin
         \<and> gz_direction z = opposite_direction (gz_direction origin)
         \<and> gz_confirmed_at z = gv_occurred_at (last (gz_lifecycle origin))))"
proof -
  let ?zones = "zones_after cfg tf atr candles (length candles)"
  have valid: "validate_fvg_inputs candles tf cfg atr = Inr ()" and zones: "map_result gap_zone_of ?zones = Inr (fa_zones a)"
    using assms(3) by (auto simp: analyze_fvg_eq bind_result_eq_Inr)
  obtain t where sound: "zones_sound cfg t ?zones"
    using zones_after_sound [OF assms(2) validate_fvg_chronological [OF assms(1) valid] assms(1) order_refl] by blast
  obtain y where y: "y \<in> set ?zones" "gap_zone_of y = Inr z"
    using map_result_members(1) [OF zones assms(4)] by blast
  have y_sound: "gap_sound cfg t y" "gs_type y = IFVG \<longrightarrow> has_origin ?zones y"
    using sound y(1) by (auto simp: zones_sound_def)
  note z = gap_zone_total [OF y_sound(1), unfolded y(2)]
  have shown: "\<exists>o'\<in>set (fa_zones a). gap_zone_of origin = Inr o'" if "origin \<in> set ?zones" for origin
    using map_result_members(2) [OF zones that] .
  have origin: "\<exists>origin\<in>set (fa_zones a). gz_origin_fvg_id z = Some (gz_zone_id origin)
         \<and> gz_type origin = FVG \<and> gz_lifecycle_state origin = GAP_INVERTED
         \<and> gz_lower z = gz_lower origin \<and> gz_upper z = gz_upper origin
         \<and> gz_direction z = opposite_direction (gz_direction origin)
         \<and> gz_confirmed_at z = gv_occurred_at (last (gz_lifecycle origin))" if "gz_type z = IFVG"
  proof -
    obtain origin where o: "origin \<in> set ?zones" "gs_origin_fvg_id y = Some (gs_zone_id origin)"
        "gs_type origin = FVG" "gs_lifecycle_state origin = GAP_INVERTED" "gs_lower y = gs_lower origin"
        "gs_upper y = gs_upper origin" "gs_direction y = opposite_direction (gs_direction origin)"
        "gs_confirmed_at y = gv_occurred_at (last (gs_lifecycle origin))"
      using y_sound(2) z \<open>gz_type z = IFVG\<close> by (auto simp: has_origin_def)
    obtain o' where o': "o' \<in> set (fa_zones a)" "gap_zone_of origin = Inr o'" using shown [OF o(1)] by blast
    have "gap_sound cfg t origin" using sound o(1) by (auto simp: zones_sound_def)
    from gap_zone_total [OF this, unfolded o'(2)] show ?thesis
      using o o'(1) z by (intro bexI [of _ o']) auto
  qed
  have "gs_lifecycle_state y = GAP_ACTIVE \<Longrightarrow> gs_fill_fraction y = 0"
    "gs_lifecycle_state y = GAP_PARTIALLY_FILLED \<Longrightarrow> gs_fill_fraction y \<noteq> 0 \<and> gs_fill_fraction y < fv_full_fill_fraction cfg"
    "gs_lifecycle_state y = GAP_FILLED \<Longrightarrow> fv_full_fill_fraction cfg \<le> gs_fill_fraction y"
    using y_sound(1) by (auto simp: gap_sound_def terminal_gap_def split: if_splits)
  then have status: "public_status (gs_lifecycle_state y) = ZONE_OPEN \<Longrightarrow> gs_fill_fraction y = 0"
    "public_status (gs_lifecycle_state y) = ZONE_PARTIAL \<Longrightarrow> gs_fill_fraction y \<noteq> 0 \<and> gs_fill_fraction y < fv_full_fill_fraction cfg"
    "public_status (gs_lifecycle_state y) = ZONE_FILLED \<Longrightarrow> fv_full_fill_fraction cfg \<le> gs_fill_fraction y"
    by (auto simp: public_status_def split: if_splits)
  have shown_as: "gz_type z = gs_type y" "gz_lifecycle z = gs_lifecycle y" "gz_lower z = gs_lower y"
      "gz_upper z = gs_upper y" "gz_fill_fraction z = gs_fill_fraction y"
      "gz_lifecycle_state z = gs_lifecycle_state y" "gz_status z = public_status (gs_lifecycle_state y)"
    using z by auto
  have facts: "gap_history (gs_type y) (gs_lifecycle y)" "gs_lower y < gs_upper y" "0 \<le> gs_fill_fraction y"
      "gs_fill_fraction y \<le> 1" "gv_to_state (last (gs_lifecycle y)) = gs_lifecycle_state y"
    using y_sound(1) by (simp_all add: gap_sound_def fill_ok_def)
  show ?thesis
  proof (intro conjI impI)
    show "0 < gz_fill_fraction z" if "gz_status z = ZONE_PARTIAL"
      using status(2) that facts(3) by (simp add: shown_as less_le)
    show "\<exists>origin\<in>set (fa_zones a). gz_origin_fvg_id z = Some (gz_zone_id origin)
         \<and> gz_type origin = FVG \<and> gz_lifecycle_state origin = GAP_INVERTED
         \<and> gz_lower z = gz_lower origin \<and> gz_upper z = gz_upper origin
         \<and> gz_direction z = opposite_direction (gz_direction origin)
         \<and> gz_confirmed_at z = gv_occurred_at (last (gz_lifecycle origin))" if "gz_type z = IFVG"
      by (rule origin [OF that])
  qed (use facts status in \<open>simp_all add: shown_as\<close>)
qed

text \<open>
  what an analysis needs. For valid candles it returns exactly when every price is a multiple of the
  tick, the candles are evenly spaced, and the ATR points, if any, belong to the candles; none of the
  validators of events and zones ever refuses what the engine builds.
\<close>

theorem fvg_returns_iff:
  assumes "fvg_config_valid cfg" "\<forall>c\<in>set candles. candle_valid c"
  shows "(\<exists>a. analyze_fvg candles tf cfg atr = Inr a) \<longleftrightarrow>
    (\<forall>c\<in>set candles. tick_multiple (fv_tick_size cfg) (c_open c) \<and> tick_multiple (fv_tick_size cfg) (c_high c)
       \<and> tick_multiple (fv_tick_size cfg) (c_low c) \<and> tick_multiple (fv_tick_size cfg) (c_close c))
    \<and> spaced tf candles
    \<and> (case atr of None \<Rightarrow> True | Some r \<Rightarrow> map ap_timestamp (ar_points r) = map c_timestamp candles)"
proof -
  have tick: "0 < fv_tick_size cfg" using assms(1) by (simp add: fvg_config_valid_def)
  have aligned: "(\<forall>x\<in>set (zip cs ps). check_atr_timestamp x = Inr ()) \<and> length ps = length cs
      \<longleftrightarrow> map ap_timestamp ps = map c_timestamp cs" for cs and ps :: "atr_point list"
  proof (induction cs arbitrary: ps)
    case (Cons c cs)
    then show ?case
      by (cases ps) (auto simp: check_atr_timestamp_def require_def split: if_splits)
  qed simp
  have "(\<exists>a. analyze_fvg candles tf cfg atr = Inr a) \<longleftrightarrow> validate_fvg_inputs candles tf cfg atr = Inr ()"
    using analyze_fvg_total [OF assms] by (auto simp: analyze_fvg_eq bind_result_eq_Inr)
  also have "\<dots> \<longleftrightarrow> validate_tick_candles FVGInputError candles tf (fv_tick_size cfg) = Inr ()
      \<and> (case atr of None \<Rightarrow> True | Some r \<Rightarrow> map ap_timestamp (ar_points r) = map c_timestamp candles)"
    by (cases atr) (auto simp: validate_fvg_inputs_def bind_result_eq_Inr check_all_Inr simp flip: aligned split: if_splits)
  finally show ?thesis by (simp add: validate_tick_candles_Inr [OF tick])
qed

section \<open>A sample\<close>

definition sample_fvg_config :: fvg_config where
  "sample_fvg_config =
     \<lparr>fv_tick_size = 1, fv_min_gap_ticks = 1, fv_min_gap_atr_ratio = 0, fv_require_middle_direction = False,
      fv_fill_basis = FILL_WICK, fv_full_fill_fraction = 1, fv_max_age_bars = 10, fv_max_retests = 3,
      fv_ifvg_enabled = True, fv_inversion_buffer_ticks = 0\<rparr>"

definition sample_gap_bars :: "candle list" where
  "sample_gap_bars = [sample_bar 0 9 10 8 10, sample_bar 1 10 15 10 15, sample_bar 2 15 17 14 16,
     sample_bar 3 16 16 12 13, sample_bar 4 13 14 8 9]"

lemma sample_fvg_valid:
  "fvg_config_valid sample_fvg_config" "\<forall>c\<in>set sample_gap_bars. candle_valid c"
  by (simp_all add: fvg_config_valid_def sample_fvg_config_def sample_gap_bars_def sample_bar_def
      candle_valid_iff candle_fields_def)

lemma tick_multiple_one:
  "numeral n < (100::int) \<Longrightarrow> tick_multiple 1 (numeral n)"
proof -
  have "\<bar>of_int k :: rat\<bar> < 10 ^ context_precision" if "\<bar>k\<bar> < 100" for k
  proof -
    have "\<bar>of_int k :: rat\<bar> < 100" using that by linarith
    also have "(100::rat) \<le> 10 ^ context_precision" by (simp add: context_precision_def)
    finally show ?thesis .
  qed
  from this [of "numeral n"] show "numeral n < (100::int) \<Longrightarrow> tick_multiple 1 (numeral n)"
    by (simp add: tick_multiple_def)
qed

lemma sample_gaps_validated:
  "(\<forall>c\<in>set sample_gap_bars. tick_multiple 1 (c_open c) \<and> tick_multiple 1 (c_high c)
     \<and> tick_multiple 1 (c_low c) \<and> tick_multiple 1 (c_close c)) \<and> spaced ONE_MINUTE sample_gap_bars"
  by (simp add: tick_multiple_one sample_gap_bars_def sample_bar_def spaced_def minutes_def seconds_def)

definition sample_gaps :: fvg_analysis where
  "sample_gaps =
     (case analyze_fvg sample_gap_bars ONE_MINUTE sample_fvg_config None of Inl _ \<Rightarrow> undefined | Inr a \<Rightarrow> a)"

lemma sample_gaps_returned:
  "analyze_fvg sample_gap_bars ONE_MINUTE sample_fvg_config None = Inr sample_gaps"
proof -
  have "validate_fvg_inputs sample_gap_bars ONE_MINUTE sample_fvg_config None = Inr ()"
    using sample_gaps_validated
    by (simp add: validate_fvg_inputs_def bind_result_eq_Inr validate_tick_candles_Inr sample_fvg_config_def)
  from analyze_fvg_total [OF sample_fvg_valid this] show ?thesis by (auto simp: sample_gaps_def)
qed

lemma sample_gap_states:
  "map gs_lifecycle_state (zones_after sample_fvg_config ONE_MINUTE None sample_gap_bars 5)
    = [GAP_INVERTED, GAP_ACTIVE]"
proof -
  have d: "dmul 1 1 = 1" "dmul 1 0 = 0" "dsub 14 10 = 4" "dsub 14 12 = 2" "dsub 10 0 = 10" "dsub 8 17 = -9"
      "ddiv 2 4 = 1 / 2" "dsub 12 15 = -3" "dsub 10 16 = -6" "dsub 8 17 = -9" "dsub 14 14 = 0" "dsub 8 16 = -8"
      "dsub 10 14 = -4" "dsub 12 17 = -5"
    by (simp_all add: dec_evals)
  have f: "formation_at sample_fvg_config None sample_gap_bars 0 = NO_FORMATION"
    "formation_at sample_fvg_config None sample_gap_bars 1 = NO_FORMATION"
    "formation_at sample_fvg_config None sample_gap_bars 2 = FORMATION GAP_BULLISH 10 14"
    "formation_at sample_fvg_config None sample_gap_bars 3 = NO_FORMATION"
    "formation_at sample_fvg_config None sample_gap_bars 4 = NO_FORMATION"
    by (simp_all add: formation_at_def gap_formation_def sample_fvg_config_def sample_gap_bars_def sample_bar_def
        atr_at_open_def Let_def d)
  let ?next = "next_zones sample_fvg_config ONE_MINUTE None sample_gap_bars"
  have bars: "sample_gap_bars ! 0 = sample_bar 0 9 10 8 10" "sample_gap_bars ! 1 = sample_bar 1 10 15 10 15"
    "sample_gap_bars ! 2 = sample_bar 2 15 17 14 16" "sample_gap_bars ! 3 = sample_bar 3 16 16 12 13"
    "sample_gap_bars ! 4 = sample_bar 4 13 14 8 9"
    by (simp_all add: sample_gap_bars_def)
  have b: "c_timestamp (sample_bar n p h l c) = minutes n" "c_high (sample_bar n p h l c) = h"
    "c_low (sample_bar n p h l c) = l" "c_close (sample_bar n p h l c) = c" for n p h l c
    by (simp_all add: sample_bar_def)
  define z where "z = hd (formed_zones sample_fvg_config None sample_gap_bars 2 (minutes 2 + minutes 1))"
  have formed: "formed_zones sample_fvg_config None sample_gap_bars i t = []" if "i \<in> {0, 1, 3, 4}" for i t
    using that f by (auto simp: formed_zones_def form_zone_def)
  have z: "formed_zones sample_fvg_config None sample_gap_bars 2 (minutes 2 + minutes 1) = [z]"
      "gs_type z = FVG" "gs_direction z = GAP_BULLISH" "gs_lower z = 10" "gs_upper z = 14"
      "gs_confirmed_at z = minutes 2 + minutes 1" "gs_created_bar_index z = 2"
      "gs_lifecycle_state z = GAP_ACTIVE" "gs_fill_fraction z = 0" "gs_retest_count z = 0"
    by (simp_all add: z_def formed_zones_def form_zone_def f(3) new_fvg_def make_gap_event_def created_event_def Let_def)
  have t: "minutes 2 < minutes 2 + minutes 1" "\<not> minutes 3 < minutes 2 + minutes 1"
    "\<not> minutes 4 < minutes 2 + minutes 1"
    by (simp_all add: minutes_def seconds_def)
  have cfg: "fv_tick_size sample_fvg_config = 1" "fv_inversion_buffer_ticks sample_fvg_config = 0"
    "fv_fill_basis sample_fvg_config = FILL_WICK" "fv_full_fill_fraction sample_fvg_config = 1"
    "fv_max_age_bars sample_fvg_config = 10" "fv_max_retests sample_fvg_config = 3" "fv_ifvg_enabled sample_fvg_config"
    by (simp_all add: sample_fvg_config_def)
  have s: "zones_after sample_fvg_config ONE_MINUTE None sample_gap_bars 5 = ?next 4 (?next 3 (?next 2 (?next 1 (?next 0 []))))"
    by (simp add: numeral_eq_Suc after_simps)
  have n01: "?next 0 [] = []" "?next 1 [] = []"
    using formed [of 0] formed [of 1] by (simp_all add: next_zones_def Let_def del: One_nat_def)
  have n2: "?next 2 [] = [z]"
    by (simp add: next_zones_def Let_def bars b z(1) advanced_zone_def z(6) t(1))
  define y where "y = fst (advanced_zone sample_fvg_config (sample_bar 3 16 16 12 13) 3 (minutes 3 + minutes 1) z)"
  have crossed: "\<not> crossed_by sample_fvg_config (sample_bar 3 16 16 12 13) z"
    by (simp add: crossed_by_def invalidation_triggered_def z cfg b d)
  have filled: "bar_fill_fraction z (sample_bar 3 16 16 12 13) FILL_WICK = 1 / 2"
    by (simp add: bar_fill_fraction_def Let_def z b d)
  have adv: "advanced_zone sample_fvg_config (sample_bar 3 16 16 12 13) 3 (minutes 3 + minutes 1) z
      = (touched_zone sample_fvg_config (sample_bar 3 16 16 12 13) (minutes 3 + minutes 1) (1 / 2) z, None)"
    by (simp add: advanced_zone_def crossed filled z t cfg b terminal_gap_def Let_def touched_zone_def expired_zone_def)
  have y: "gs_type y = FVG" "gs_direction y = GAP_BULLISH" "gs_lower y = 10" "gs_upper y = 14"
      "gs_confirmed_at y = minutes 2 + minutes 1" "gs_lifecycle_state y = GAP_PARTIALLY_FILLED"
    by (simp_all add: y_def adv touched_zone_def Let_def z cfg)
  have n3: "?next 3 [z] = [y]"
    using formed [of 3] by (simp add: next_zones_def Let_def bars b y_def adv)
  have broken: "crossed_by sample_fvg_config (sample_bar 4 13 14 8 9) y"
    by (simp add: crossed_by_def invalidation_triggered_def y cfg b d)
  have n4: "map gs_lifecycle_state (?next 4 [y]) = [GAP_INVERTED, GAP_ACTIVE]"
    using formed [of 4] by (simp add: next_zones_def Let_def bars b advanced_zone_def broken y t cfg terminal_gap_def
        inverted_gap_def new_ifvg_def make_gap_event_def created_event_def)
  show ?thesis unfolding s n01 n2 n3 by (rule n4)
qed

lemma sample_gap_zones: "map gz_lifecycle_state (fa_zones sample_gaps) = [GAP_INVERTED, GAP_ACTIVE]"
proof -
  have shown: "gz_lifecycle_state y = gs_lifecycle_state z" if "gap_zone_of z = Inr y" for z y
    using that by (auto simp: gap_zone_of_def make_gap_zone_def bind_result_eq_Inr require_def split: option.splits if_splits)
  have "map gz_lifecycle_state ys = map gs_lifecycle_state zs" if "map_result gap_zone_of zs = Inr ys" for zs ys
    using that unfolding map_result_Inr list_all2_conv_all_nth by (auto intro!: nth_equalityI shown)
  moreover have five: "length sample_gap_bars = 5" by (simp add: sample_gap_bars_def)
  have "map_result gap_zone_of (zones_after sample_fvg_config ONE_MINUTE None sample_gap_bars 5) = Inr (fa_zones sample_gaps)"
    using sample_gaps_returned five by (auto simp: analyze_fvg_eq bind_result_eq_Inr dest!: arg_cong [of _ _ fa_zones])
  ultimately show ?thesis using sample_gap_states by metis
qed

lemma sample_gap_members: "fa_zones sample_gaps ! 0 \<in> set (fa_zones sample_gaps)"
  "gz_lifecycle_state (fa_zones sample_gaps ! 0) = GAP_INVERTED"
  using sample_gap_zones by (auto simp: map_eq_Cons_conv)

lemma fvg_never_repaints_witness:
  "\<exists>b. analyze_fvg (take 3 sample_gap_bars) ONE_MINUTE sample_fvg_config (take_atr 3 None) = Inr b
    \<and> list_all2 gap_kept (fa_zones b) (take (length (fa_zones b)) (fa_zones sample_gaps))
    \<and> (\<exists>later. fa_rejections sample_gaps = fa_rejections b @ later)"
  by (rule fvg_never_repaints [OF sample_fvg_valid _ sample_gaps_returned]) (simp add: sample_gap_bars_def)

lemma fvg_lifecycle_sound_witness:
  "gap_history (gz_type (fa_zones sample_gaps ! 0)) (gz_lifecycle (fa_zones sample_gaps ! 0))
    \<and> gv_to_state (last (gz_lifecycle (fa_zones sample_gaps ! 0))) = GAP_INVERTED
    \<and> gz_status (fa_zones sample_gaps ! 0) = ZONE_INVALIDATED"
  using fvg_lifecycle_sound [OF sample_fvg_valid sample_gaps_returned sample_gap_members(1)]
  by (simp add: sample_gap_members(2) public_status_def)

end
