(* ===== verification/FVG_Replay.thy ===== *)
theory FVG_Replay
  imports FVG "HOL-Library.AList"
begin

text \<open>
  The gap states of the replay engines: \<open>_FVGState\<close> of \<open>engines/incremental_strategy_engine.py\<close>, which
  updates every zone at each bar, and \<open>HotFVGState\<close> of \<open>engines/smc/hot_fvg.py\<close>, which keeps a dict of the
  zones that are not terminal and re-projects a zone only when its version changed. Both interpret \<open>replay\<close>
  on the analysis of \<open>FVG\<close>. A zone object shared by the list and the dict is its position in the list.
\<close>

section \<open>The append-only state\<close>

record fvg_state =
  fs_candles :: "candle list"
  fs_zones :: "gap_state list"
  fs_rejections :: "fvg_rejection list"

definition fvg_start :: fvg_state where
  "fvg_start = \<lparr>fs_candles = [], fs_zones = [], fs_rejections = []\<rparr>"

definition fvg_reset :: "'z fvg_state_scheme \<Rightarrow> 'z fvg_state_scheme" where
  "fvg_reset st = st\<lparr>fs_candles := [], fs_zones := [], fs_rejections := []\<rparr>"

text \<open>The state does not compare the ATR points with the candles: too few of them raise on access.\<close>

definition check_atr_index :: "atr_result option \<Rightarrow> nat \<Rightarrow> unit result" where
  "check_atr_index atr_result index =
     (case atr_result of
        None \<Rightarrow> Inr ()
      | Some atr \<Rightarrow> require (index < 2 \<or> index - 1 < length (ar_points atr)) IndexError)"

definition fvg_state_bar ::
  "fvg_config \<Rightarrow> timeframe \<Rightarrow> atr_result option \<Rightarrow> candle \<Rightarrow> fvg_state \<Rightarrow> fvg_state result" where
  "fvg_state_bar cfg tf atr_result bar st =
     (let index = length (fs_candles st); candles = fs_candles st @ [bar];
          confirmed_at = c_timestamp bar + timeframe_duration tf
      in bind_result (check_atr_index atr_result index) (\<lambda>_.
         bind_result (form_zone cfg atr_result candles index confirmed_at) (\<lambda>(formed, rejected).
           let zones = fs_zones st @ formed
           in bind_result (for_each (update_at cfg bar index confirmed_at) [0..<length zones] (zones, []))
                (\<lambda>(zones, new_ifvgs).
                  Inr \<lparr>fs_candles = candles, fs_zones = zones @ new_ifvgs,
                       fs_rejections = fs_rejections st @ rejected\<rparr>))))"

definition fvg_append ::
  "fvg_config \<Rightarrow> timeframe \<Rightarrow> candle list \<Rightarrow> atr_result option \<Rightarrow> fvg_state \<Rightarrow> fvg_state result" where
  "fvg_append cfg tf incoming atr_result st =
     (let st = (if prefix_ok (fs_candles st) incoming then st else fvg_reset st)
      in for_each (fvg_state_bar cfg tf atr_result) (drop (length (fs_candles st)) incoming) st)"

definition fvg_result :: "fvg_config \<Rightarrow> timeframe \<Rightarrow> fvg_state \<Rightarrow> fvg_analysis result" where
  "fvg_result cfg tf st =
     bind_result (map_result gap_zone_of (fs_zones st)) (\<lambda>zones.
       Inr \<lparr>fa_timeframe = tf, fa_config = cfg, fa_candle_count = length (fs_candles st),
            fa_data_cutoff_at = data_cutoff (fs_candles st) tf, fa_zones = zones,
            fa_rejections = fs_rejections st\<rparr>)"

section \<open>The state with a dict of open zones\<close>

text \<open>The fields of a zone that change: its version.\<close>

type_synonym gap_version = "gap_lifecycle_state \<times> rat \<times> nat \<times> utc_time option \<times> nat"

definition gap_version_of :: "gap_state \<Rightarrow> gap_version" where
  "gap_version_of zone =
     (gs_lifecycle_state zone, gs_fill_fraction zone, gs_retest_count zone, gs_last_updated_at zone,
      length (gs_lifecycle zone))"

record hot_fvg_state = fvg_state +
  hf_active :: "(string \<times> nat) list"
  hf_positions :: "string \<rightharpoonup> nat"
  hf_projections :: "gap_zone list"
  hf_versions :: "string \<rightharpoonup> gap_version"

definition hot_fvg_start :: hot_fvg_state where
  "hot_fvg_start = fvg_state.extend fvg_start (hot_fvg_state.fields [] Map.empty [] Map.empty)"

definition hot_fvg_reset :: "hot_fvg_state \<Rightarrow> hot_fvg_state" where
  "hot_fvg_reset st =
     (fvg_reset st)\<lparr>hf_active := [], hf_positions := Map.empty, hf_projections := [], hf_versions := Map.empty\<rparr>"

definition hot_add_zone :: "gap_state \<Rightarrow> hot_fvg_state \<Rightarrow> hot_fvg_state" where
  "hot_add_zone zone st =
     st\<lparr>fs_zones := fs_zones st @ [zone],
        hf_active := AList.update (gs_zone_id zone) (length (fs_zones st)) (hf_active st)\<rparr>"

text \<open>The projection of one open zone after a bar.\<close>

definition project_zone :: "string \<times> nat \<Rightarrow> hot_fvg_state \<Rightarrow> hot_fvg_state result" where
  "project_zone = (\<lambda>(name, j) st.
     let zone = fs_zones st ! j; version = gap_version_of zone
     in if hf_versions st name \<noteq> Some version
        then bind_result (gap_zone_of zone) (\<lambda>projection.
          Inr ((case hf_positions st name of
             None \<Rightarrow> st\<lparr>hf_positions := (hf_positions st)(name \<mapsto> length (hf_projections st)),
                        hf_projections := hf_projections st @ [projection]\<rparr>
           | Some position \<Rightarrow> st\<lparr>hf_projections := (hf_projections st)[position := projection]\<rparr>)
           \<lparr>hf_versions := (hf_versions st)(name \<mapsto> version)\<rparr>))
        else Inr st)"

definition after_bar :: "hot_fvg_state \<Rightarrow> hot_fvg_state result" where
  "after_bar st =
     bind_result (for_each project_zone (hf_active st) st) (\<lambda>st.
       let completed = map fst (filter (\<lambda>(name, j). terminal_gap (gs_lifecycle_state (fs_zones st ! j))) (hf_active st))
       in Inr (st\<lparr>hf_active := fold AList.delete completed (hf_active st)\<rparr>))"

definition hot_fvg_bar ::
  "fvg_config \<Rightarrow> timeframe \<Rightarrow> atr_result option \<Rightarrow> candle \<Rightarrow> hot_fvg_state \<Rightarrow> hot_fvg_state result" where
  "hot_fvg_bar cfg tf atr_result bar st =
     (let index = length (fs_candles st); candles = fs_candles st @ [bar];
          confirmed_at = c_timestamp bar + timeframe_duration tf
      in bind_result (check_atr_index atr_result index) (\<lambda>_.
         bind_result (form_zone cfg atr_result candles index confirmed_at) (\<lambda>(formed, rejected).
           let st = fold hot_add_zone formed
                 (st\<lparr>fs_candles := candles, fs_rejections := fs_rejections st @ rejected\<rparr>)
           in bind_result
                (for_each (update_at cfg bar index confirmed_at) (map snd (hf_active st)) (fs_zones st, []))
                (\<lambda>(zones, new_ifvgs). after_bar (fold hot_add_zone new_ifvgs (st\<lparr>fs_zones := zones\<rparr>))))))"

definition hot_fvg_append ::
  "fvg_config \<Rightarrow> timeframe \<Rightarrow> candle list \<Rightarrow> atr_result option \<Rightarrow> hot_fvg_state \<Rightarrow> hot_fvg_state result" where
  "hot_fvg_append cfg tf incoming atr_result st =
     (let st = (if prefix_ok (fs_candles st) incoming then st else hot_fvg_reset st)
      in for_each (hot_fvg_bar cfg tf atr_result) (drop (length (fs_candles st)) incoming) st)"

definition hot_fvg_result :: "fvg_config \<Rightarrow> timeframe \<Rightarrow> hot_fvg_state \<Rightarrow> fvg_analysis" where
  "hot_fvg_result cfg tf st =
     \<lparr>fa_timeframe = tf, fa_config = cfg, fa_candle_count = length (fs_candles st),
      fa_data_cutoff_at = data_cutoff (fs_candles st) tf, fa_zones = hf_projections st,
      fa_rejections = fs_rejections st\<rparr>"

section \<open>Every zone has its own id\<close>

lemma fvg_id_inject: "fvg_id d a = fvg_id d' b \<Longrightarrow> c_timestamp a = c_timestamp b"
  by (cases d; cases d') (simp_all add: fvg_id_def isoformat_injective)

lemma ifvg_id_inject: "ifvg_id d a origin = ifvg_id d' b origin' \<Longrightarrow> origin = origin'"
  by (cases d; cases d') (simp_all add: ifvg_id_def isoformat_append_inject)

lemma fvg_id_not_ifvg_id: "fvg_id d a \<noteq> ifvg_id d' b origin"
  by (simp add: fvg_id_def ifvg_id_def)

definition ids_ok :: "candle list \<Rightarrow> nat \<Rightarrow> gap_state list \<Rightarrow> bool" where
  "ids_ok candles n zones \<longleftrightarrow>
     distinct (map gs_zone_id zones)
     \<and> (\<forall>z\<in>set zones. gs_type z = FVG \<longrightarrow> (\<exists>d j. j < n \<and> gs_zone_id z = fvg_id d (candles ! j)))
     \<and> (\<forall>z\<in>set zones. gs_type z = IFVG \<longrightarrow> (\<exists>d bar origin. origin \<in> set zones
          \<and> gs_lifecycle_state origin = GAP_INVERTED \<and> gs_zone_id z = ifvg_id d bar (gs_zone_id origin)))"

lemma formed_cases:
  obtains "formed_zones cfg atr candles index t = []"
  | z d where "formed_zones cfg atr candles index t = [z]" "gs_type z = FVG"
      "gs_zone_id z = fvg_id d (candles ! index)" "gs_lifecycle_state z = GAP_ACTIVE"
  using that
  by (cases "formation_at cfg atr candles index")
    (auto simp: formed_zones_def form_zone_def new_fvg_def make_gap_event_def created_event_def Let_def)

lemma advanced_identity [simp]:
  "gs_zone_id (fst (advanced_zone cfg bar index t z)) = gs_zone_id z"
  "gs_type (fst (advanced_zone cfg bar index t z)) = gs_type z"
  using advanced_grows [of z cfg bar index t] by (simp_all add: gap_grows_def)

lemma advanced_made_id:
  assumes "snd (advanced_zone cfg bar index t z) = Some y"
  shows "gs_type y = IFVG" "\<exists>d. gs_zone_id y = ifvg_id d bar (gs_zone_id z)"
    "\<not> terminal_gap (gs_lifecycle_state z)" "gs_lifecycle_state y = GAP_ACTIVE"
proof -
  show "\<not> terminal_gap (gs_lifecycle_state z)" using assms advanced_terminal by fastforce
  show "gs_type y = IFVG" "\<exists>d. gs_zone_id y = ifvg_id d bar (gs_zone_id z)" "gs_lifecycle_state y = GAP_ACTIVE"
    using advanced_made(1) [OF assms]
    by (auto simp: inverted_gap_def new_ifvg_def make_gap_event_def created_event_def Let_def)
qed

lemma distinct_made:
  assumes "distinct (map gs_zone_id zones)"
  shows "distinct (map gs_zone_id (concat (map (\<lambda>z. made (snd (advanced_zone cfg bar index t z))) zones)))"
  using assms
proof (induction zones)
  case (Cons z zones)
  have "gs_zone_id y \<noteq> gs_zone_id y'"
    if "snd (advanced_zone cfg bar index t z) = Some y" "z' \<in> set zones"
      "snd (advanced_zone cfg bar index t z') = Some y'" for y y' z'
  proof
    assume "gs_zone_id y = gs_zone_id y'"
    then have "gs_zone_id z = gs_zone_id z'"
      using advanced_made_id(2) [OF that(1)] advanced_made_id(2) [OF that(3)] ifvg_id_inject by metis
    then show False using Cons.prems that(2) by auto
  qed
  then show ?case using Cons by (fastforce simp: made_def split: option.splits)
qed simp

lemma next_zones_ids:
  assumes "ids_ok candles n zones" "\<forall>j<n. c_timestamp (candles ! j) \<noteq> c_timestamp (candles ! n)"
  shows "ids_ok candles (Suc n) (next_zones cfg tf atr candles n zones)"
proof -
  let ?bar = "candles ! n" and ?t = "c_timestamp (candles ! n) + timeframe_duration tf"
  let ?adv = "advanced_zone cfg ?bar n ?t"
  define all where "all = zones @ formed_zones cfg atr candles n ?t"
  define new where "new = concat (map (\<lambda>z. made (snd (?adv z))) all)"
  have next_eq: "next_zones cfg tf atr candles n zones = map (\<lambda>z. fst (?adv z)) all @ new"
    by (simp add: next_zones_def Let_def all_def new_def)
  have old: "distinct (map gs_zone_id zones)"
      "\<And>z. z \<in> set zones \<Longrightarrow> gs_type z = FVG \<Longrightarrow> \<exists>d j. j < n \<and> gs_zone_id z = fvg_id d (candles ! j)"
      "\<And>z. z \<in> set zones \<Longrightarrow> gs_type z = IFVG \<Longrightarrow> \<exists>d bar origin. origin \<in> set zones
          \<and> gs_lifecycle_state origin = GAP_INVERTED \<and> gs_zone_id z = ifvg_id d bar (gs_zone_id origin)"
    using assms(1) by (auto simp: ids_ok_def)
  have fresh: "fvg_id d ?bar \<notin> gs_zone_id ` set zones" for d
  proof
    assume "fvg_id d ?bar \<in> gs_zone_id ` set zones"
    then obtain z where z: "z \<in> set zones" "gs_zone_id z = fvg_id d ?bar" by auto
    show False
    proof (cases "gs_type z")
      case FVG
      then show ?thesis using old(2) [OF z(1)] z(2) fvg_id_inject assms(2) by metis
    next
      case IFVG
      then show ?thesis using old(3) [OF z(1)] z(2) fvg_id_not_ifvg_id by metis
    qed
  qed
  have earlier: "\<exists>d j. j < Suc n \<and> gs_zone_id w = fvg_id d (candles ! j)" if "w \<in> set zones" "gs_type w = FVG" for w
    using old(2) [OF that] less_SucI by blast
  have all: "distinct (map gs_zone_id all) \<and> (\<forall>z\<in>set all. gs_type z = IFVG \<longrightarrow> z \<in> set zones)
      \<and> (\<forall>z\<in>set all. gs_type z = FVG \<longrightarrow> (\<exists>d j. j < Suc n \<and> gs_zone_id z = fvg_id d (candles ! j)))"
  proof (cases rule: formed_cases [of cfg atr candles n ?t])
    case 1
    then show ?thesis using old(1) earlier by (simp add: all_def)
  next
    case (2 z d)
    then show ?thesis using old(1) fresh [of d] earlier by (auto simp: all_def)
  qed
  then have all: "distinct (map gs_zone_id all)" "\<And>z. z \<in> set all \<Longrightarrow> gs_type z = IFVG \<Longrightarrow> z \<in> set zones"
      "\<And>z. z \<in> set all \<Longrightarrow> gs_type z = FVG \<Longrightarrow> \<exists>d j. j < Suc n \<and> gs_zone_id z = fvg_id d (candles ! j)"
    by blast+
  have made_by: "\<exists>z\<in>set all. snd (?adv z) = Some y" if "y \<in> set new" for y
    using that by (auto simp: new_def made_def split: option.splits)
  have kept: "origin \<in> set (map (\<lambda>z. fst (?adv z)) all)"
    if "origin \<in> set zones" "gs_lifecycle_state origin = GAP_INVERTED" for origin
  proof -
    have "fst (?adv origin) = origin" using that(2) by (simp add: advanced_terminal terminal_gap_def)
    then show ?thesis using that(1) by (force simp: all_def)
  qed
  have apart: "gs_zone_id y \<noteq> gs_zone_id w" if "y \<in> set new" "w \<in> set all" for y w
  proof
    assume eq: "gs_zone_id y = gs_zone_id w"
    obtain z where z: "z \<in> set all" "snd (?adv z) = Some y" using made_by \<open>y \<in> set new\<close> by blast
    then obtain d where d: "gs_zone_id y = ifvg_id d ?bar (gs_zone_id z)" using advanced_made_id(2) by blast
    show False
    proof (cases "gs_type w")
      case FVG
      then show ?thesis using all(3) [OF \<open>w \<in> set all\<close>] eq d fvg_id_not_ifvg_id by metis
    next
      case IFVG
      then obtain d' bar origin where origin: "origin \<in> set zones" "gs_lifecycle_state origin = GAP_INVERTED"
          "gs_zone_id w = ifvg_id d' bar (gs_zone_id origin)"
        using old(3) [OF all(2) [OF \<open>w \<in> set all\<close>]] by blast
      have "gs_zone_id z = gs_zone_id origin"
        by (rule ifvg_id_inject) (use eq d origin(3) in simp)
      moreover have "origin \<in> set all" using origin(1) by (simp add: all_def)
      ultimately have "z = origin" using all(1) z(1) by (auto simp: distinct_map dest: inj_onD)
      then show ?thesis using advanced_made_id(3) [OF z(2)] origin(2) by (simp add: terminal_gap_def)
    qed
  qed
  show ?thesis
    unfolding ids_ok_def next_eq
  proof (intro conjI ballI impI)
    show "distinct (map gs_zone_id (map (\<lambda>z. fst (?adv z)) all @ new))"
    proof -
      have "map gs_zone_id (map (\<lambda>z. fst (?adv z)) all) = map gs_zone_id all" by simp
      moreover have "distinct (map gs_zone_id new)" unfolding new_def by (rule distinct_made [OF all(1)])
      moreover have "gs_zone_id ` set all \<inter> gs_zone_id ` set new = {}" using apart by fastforce
      ultimately show ?thesis using all(1) by (simp only: map_append distinct_append set_map)
    qed
  next
    fix y assume y: "y \<in> set (map (\<lambda>z. fst (?adv z)) all @ new)"
    show "\<exists>d j. j < Suc n \<and> gs_zone_id y = fvg_id d (candles ! j)" if "gs_type y = FVG"
      using y that all(3) made_by advanced_made_id(1) by fastforce
    show "\<exists>d bar origin. origin \<in> set (map (\<lambda>z. fst (?adv z)) all @ new)
        \<and> gs_lifecycle_state origin = GAP_INVERTED \<and> gs_zone_id y = ifvg_id d bar (gs_zone_id origin)"
      if ifvg: "gs_type y = IFVG"
    proof (cases "y \<in> set new")
      case True
      then obtain z where z: "z \<in> set all" "snd (?adv z) = Some y" using made_by by blast
      then have "fst (?adv z) \<in> set (map (\<lambda>z. fst (?adv z)) all @ new)" by auto
      then show ?thesis using advanced_made_id(2) [OF z(2)] advanced_made(3) [OF z(2)] advanced_identity(1) by metis
    next
      case False
      then obtain z where z: "z \<in> set all" "y = fst (?adv z)" using y by auto
      then obtain d bar origin where "origin \<in> set zones" "gs_lifecycle_state origin = GAP_INVERTED"
          "gs_zone_id y = ifvg_id d bar (gs_zone_id origin)"
        using old(3) [OF all(2) [OF z(1)]] ifvg by auto
      then show ?thesis using kept by fastforce
    qed
  qed
qed

lemma zones_after_ids:
  assumes "chronological candles" "n \<le> length candles"
  shows "ids_ok candles n (zones_after cfg tf atr candles n)"
  using assms(2)
proof (induction n)
  case (Suc n)
  have "\<forall>j<n. c_timestamp (candles ! j) \<noteq> c_timestamp (candles ! n)"
    using assms(1) Suc.prems by (auto simp: chronological_def sorted_wrt_map sorted_wrt_iff_nth_less less_Suc_eq_le)
      (metis Suc_le_lessD order_less_irrefl)
  then show ?case using next_zones_ids Suc by (simp add: after_simps)
qed (simp add: ids_ok_def after_simps)

section \<open>The append-only state follows the zones of the analysis\<close>

lemma for_each_drop:
  assumes step: "\<And>n st. n < length xs \<Longrightarrow> T n st \<Longrightarrow> \<exists>st'. f (xs ! n) st = Inr st' \<and> T (Suc n) st'"
    and "T n st" "n \<le> length xs"
  shows "\<exists>st'. for_each f (drop n xs) st = Inr st' \<and> T (length xs) st'"
  using assms(2,3)
proof (induction "length xs - n" arbitrary: n st)
  case (Suc k)
  then have n: "n < length xs" by linarith
  then obtain st' where st': "f (xs ! n) st = Inr st'" "T (Suc n) st'" using step Suc.prems(1) by blast
  have "\<exists>st''. for_each f (drop (Suc n) xs) st' = Inr st'' \<and> T (length xs) st''"
    by (rule Suc.hyps(1)) (use Suc.hyps(2) n st' in auto)
  then show ?case using st'(1) n by (simp add: Cons_nth_drop_Suc [symmetric])
qed simp

definition fvg_tracks ::
  "fvg_config \<Rightarrow> timeframe \<Rightarrow> atr_result option \<Rightarrow> candle list \<Rightarrow> nat \<Rightarrow> 'z fvg_state_scheme \<Rightarrow> bool" where
  "fvg_tracks cfg tf atr candles n st \<longleftrightarrow>
     fs_candles st = take n candles \<and> fs_zones st = zones_after cfg tf atr candles n
     \<and> fs_rejections st = rejections_after cfg tf atr candles n"

definition atr_aligned :: "atr_result option \<Rightarrow> candle list \<Rightarrow> bool" where
  "atr_aligned atr candles \<longleftrightarrow> (case atr of None \<Rightarrow> True | Some r \<Rightarrow> length (ar_points r) = length candles)"

lemma form_zone_candles:
  assumes "n < length candles"
  shows "form_zone cfg atr (take (Suc n) candles) n t = form_zone cfg atr candles n t"
  using form_zone_prefix [of n "Suc n" candles cfg atr t] form_zone_prefix [of n "Suc n" "take (Suc n) candles" cfg atr t]
    assms by simp

lemma check_atr_index_aligned: "atr_aligned atr candles \<Longrightarrow> n < length candles \<Longrightarrow> check_atr_index atr n = Inr ()"
  by (cases atr) (auto simp: atr_aligned_def check_atr_index_def require_def)

lemma update_every_zone:
  "\<forall>z\<in>set zones. fill_ok z \<Longrightarrow>
    for_each (update_at cfg bar index t) [0..<length zones] (zones, []) = Inr (advance_all cfg bar index t zones)"
  by (rule update_loop_all) simp_all

lemma fvg_state_bar_tracks:
  assumes "fvg_tracks cfg tf atr candles n st" "n < length candles" "atr_aligned atr candles"
  shows "\<exists>st'. fvg_state_bar cfg tf atr (candles ! n) st = Inr st' \<and> fvg_tracks cfg tf atr candles (Suc n) st'"
proof -
  let ?t = "c_timestamp (candles ! n) + timeframe_duration tf"
  let ?zones = "zones_after cfg tf atr candles n @ formed_zones cfg atr candles n ?t"
  have st: "fs_candles st = take n candles" "fs_zones st = zones_after cfg tf atr candles n"
      "fs_rejections st = rejections_after cfg tf atr candles n"
    using assms(1) by (simp_all add: fvg_tracks_def)
  have len: "length (fs_candles st) = n" using st(1) assms(2) by simp
  have bars: "fs_candles st @ [candles ! n] = take (Suc n) candles"
    using st(1) assms(2) by (simp add: take_Suc_conv_app_nth)
  have formed: "form_zone cfg atr (take (Suc n) candles) n ?t
      = Inr (formed_zones cfg atr candles n ?t, formed_rejections cfg atr candles n ?t)"
    using assms(2) form_zone_candles form_zone_eq by simp
  have loop: "for_each (update_at cfg (candles ! n) n ?t) [0..<length ?zones] (?zones, [])
      = Inr (advance_all cfg (candles ! n) n ?t ?zones)"
    by (rule update_every_zone) (use zones_after_fill_ok formed_fill_ok in auto)
  show ?thesis
    unfolding fvg_state_bar_def Let_def len bars check_atr_index_aligned [OF assms(3,2)] bind_result_simps formed
      prod.case st(2) loop
    by (simp add: fvg_tracks_def after_simps next_zones_def Let_def st(3))
qed

text \<open>The ATR a state is given must be the one of its bars: the ATR of a prefix is the prefix of the ATR.\<close>

definition atr_stable :: "(candle list \<Rightarrow> atr_result option) \<Rightarrow> candle list \<Rightarrow> bool" where
  "atr_stable source bars \<longleftrightarrow> (\<forall>n\<le>length bars. source (take n bars) = take_atr n (source bars))"

lemma fvg_tracks_extend:
  assumes "fvg_tracks cfg tf (source old) old (length old) st" "atr_stable source bars"
  shows "prefix_ok old bars \<Longrightarrow> fvg_tracks cfg tf (source bars) bars (length old) st"
proof -
  assume "prefix_ok old bars"
  then have old: "old = take (length old) bars" "length old \<le> length bars" by (simp_all add: prefix_ok_def)
  have "source old = take_atr (length old) (source bars)" using assms(2) old by (metis atr_stable_def)
  then show ?thesis
    using assms(1) zones_after_prefix [OF order_refl old(2), of cfg tf "source bars"] old
    by (simp add: fvg_tracks_def)
qed

lemma analyze_fvg_aligned: "analyze_fvg bars tf cfg atr = Inr r \<Longrightarrow> atr_aligned atr bars"
  by (auto simp: analyze_fvg_eq bind_result_eq_Inr validate_fvg_inputs_def atr_aligned_def split: option.splits if_splits)

lemma fvg_tracks_seen:
  assumes "fvg_tracks cfg tf atr old (length old) st"
  shows "fs_candles st = old"
  using assms by (simp add: fvg_tracks_def)

lemma fvg_append_tracks:
  assumes "fvg_tracks cfg tf (source old) old (length old) st" "atr_stable source bars"
    "analyze_fvg bars tf cfg (source bars) = Inr r"
  shows "\<exists>st'. fvg_append cfg tf bars (source bars) st = Inr st'
    \<and> fvg_tracks cfg tf (source bars) bars (length bars) st'"
proof -
  let ?T = "fvg_tracks cfg tf (source bars) bars"
  define st0 where "st0 = (if prefix_ok old bars then st else fvg_reset st)"
  have start: "?T (length (fs_candles st0)) st0" "length (fs_candles st0) \<le> length bars"
    using fvg_tracks_extend [OF assms(1,2)] fvg_tracks_seen [OF assms(1)]
    by (auto simp: st0_def fvg_reset_def fvg_tracks_def after_simps prefix_ok_def)
  have "\<exists>st'. for_each (fvg_state_bar cfg tf (source bars)) (drop (length (fs_candles st0)) bars) st0 = Inr st'
      \<and> ?T (length bars) st'"
    by (rule for_each_drop [where T = ?T]) (use fvg_state_bar_tracks analyze_fvg_aligned [OF assms(3)] start in auto)
  then show ?thesis by (simp add: fvg_append_def Let_def fvg_tracks_seen [OF assms(1)] flip: st0_def)
qed

lemma fvg_result_tracks:
  assumes "fvg_tracks cfg tf atr bars (length bars) st" "analyze_fvg bars tf cfg atr = Inr r"
  shows "fvg_result cfg tf st = Inr r"
  using assms by (auto simp: fvg_result_def fvg_tracks_def analyze_fvg_eq bind_result_eq_Inr)

section \<open>Projections and versions\<close>

lemma with_event_length [simp]: "length (gs_lifecycle (with_event e bar t s z)) = Suc (length (gs_lifecycle z))"
  by (simp add: with_event_def)

lemma version_kept:
  assumes "gap_version_of (fst (advanced_zone cfg bar index t z)) = gap_version_of z"
  shows "fst (advanced_zone cfg bar index t z) = z"
proof -
  have event: "gap_version_of (with_event e bar t s y) \<noteq> gap_version_of z"
    if "length (gs_lifecycle z) \<le> length (gs_lifecycle y)" for e s y
    using that by (simp add: gap_version_of_def with_event_def)
  have touched: "gs_retest_count (touched_zone cfg bar t obs z) = gs_retest_count z + 1"
    "length (gs_lifecycle z) \<le> length (gs_lifecycle (touched_zone cfg bar t obs z))" for obs
    by (simp_all add: touched_zone_def Let_def)
  let ?touched = "touched_zone cfg bar t (bar_fill_fraction z bar (fv_fill_basis cfg)) z"
  have "fst (advanced_zone cfg bar index t z) \<in> {z, with_event IFVG_INVALIDATED bar t GAP_INVALIDATED z,
      with_event FVG_INVERTED bar t GAP_INVERTED z, ?touched, expired_zone cfg bar index t z,
      expired_zone cfg bar index t ?touched}"
    by (simp add: advanced_zone_def Let_def)
  then consider "fst (advanced_zone cfg bar index t z) = z"
    | e s where "fst (advanced_zone cfg bar index t z) = with_event e bar t s z"
    | "fst (advanced_zone cfg bar index t z) = ?touched"
    | "fst (advanced_zone cfg bar index t z) = expired_zone cfg bar index t z"
    | "fst (advanced_zone cfg bar index t z) = expired_zone cfg bar index t ?touched"
    by blast
  then show ?thesis
  proof cases
    case 3
    then show ?thesis using assms touched(1) by (simp add: gap_version_of_def)
  next
    case 4
    then show ?thesis using assms event [OF order_refl] by (simp add: expired_zone_def split: if_splits)
  next
    case 5
    then show ?thesis
      using assms event [OF touched(2)] touched(1) by (simp add: expired_zone_def gap_version_of_def split: if_splits)
  qed (use assms event [OF order_refl] in simp_all)
qed

text \<open>The index of the hot state stands for the zones \<open>ps\<close>: their projections, positions and versions.\<close>

definition projected :: "gap_state list \<Rightarrow> hot_fvg_state \<Rightarrow> bool" where
  "projected ps st \<longleftrightarrow>
     list_all2 (\<lambda>z y. gap_zone_of z = Inr y) ps (hf_projections st)
     \<and> (\<forall>j<length ps. hf_positions st (gs_zone_id (ps ! j)) = Some j
          \<and> hf_versions st (gs_zone_id (ps ! j)) = Some (gap_version_of (ps ! j)))
     \<and> (\<forall>name. name \<notin> gs_zone_id ` set ps \<longrightarrow> hf_positions st name = None \<and> hf_versions st name = None)"

definition index_only :: "hot_fvg_state \<Rightarrow> hot_fvg_state \<Rightarrow> bool" where
  "index_only st st' \<longleftrightarrow>
     fs_candles st' = fs_candles st \<and> fs_zones st' = fs_zones st \<and> fs_rejections st' = fs_rejections st
     \<and> hf_active st' = hf_active st"

lemma project_known:
  assumes "projected ps st" "distinct (map gs_zone_id ps)" "j < length ps" "gs_zone_id (fs_zones st ! j) = gs_zone_id (ps ! j)"
    and "gap_version_of (fs_zones st ! j) = gap_version_of (ps ! j) \<Longrightarrow> fs_zones st ! j = ps ! j"
    and "gap_zone_of (fs_zones st ! j) = Inr y"
  shows "\<exists>st'. project_zone (gs_zone_id (fs_zones st ! j), j) st = Inr st'
    \<and> projected (ps[j := fs_zones st ! j]) st' \<and> index_only st st'"
proof (cases "gap_version_of (fs_zones st ! j) = gap_version_of (ps ! j)")
  case True
  then have "ps[j := fs_zones st ! j] = ps" using assms(5) list_update_id by metis
  then show ?thesis
    using assms(1,3,4) True by (simp add: project_zone_def projected_def index_only_def)
next
  case False
  define z where "z = fs_zones st ! j"
  let ?st = "st\<lparr>hf_projections := (hf_projections st)[j := y],
      hf_versions := (hf_versions st)(gs_zone_id z \<mapsto> gap_version_of z)\<rparr>"
  have "project_zone (gs_zone_id z, j) st = Inr ?st"
    using assms False by (simp add: project_zone_def projected_def z_def)
  moreover have "projected (ps[j := z]) ?st"
  proof -
    have other: "gs_zone_id (ps ! i) \<noteq> gs_zone_id z" if "i < length ps" "i \<noteq> j" for i
      using assms(2-4) that by (simp add: z_def distinct_conv_nth)
    have names: "gs_zone_id ` set (ps[j := z]) = gs_zone_id ` set ps"
    proof -
      have "map gs_zone_id (ps[j := z]) = map gs_zone_id ps"
        using assms(3,4) by (simp add: map_update z_def list_update_same_conv)
      then show ?thesis by (metis set_map)
    qed
    have "list_all2 (\<lambda>z y. gap_zone_of z = Inr y) (ps[j := z]) ((hf_projections st)[j := y])"
      using assms(1,6) by (intro list_all2_update_cong) (simp_all add: projected_def z_def)
    moreover have "gs_zone_id z \<in> gs_zone_id ` set ps" using assms(3,4) by (simp add: z_def)
    ultimately show ?thesis
      using assms(1,3,4) other unfolding projected_def names
      by (auto simp: nth_list_update z_def)
  qed
  ultimately show ?thesis by (auto simp: index_only_def z_def)
qed

lemma project_fresh:
  assumes "projected ps st" "gs_zone_id z \<notin> gs_zone_id ` set ps" "fs_zones st ! j = z" "gap_zone_of z = Inr y"
  shows "\<exists>st'. project_zone (gs_zone_id z, j) st = Inr st' \<and> projected (ps @ [z]) st' \<and> index_only st st'"
proof -
  have len: "length (hf_projections st) = length ps"
    using assms(1) by (auto simp: projected_def dest: list_all2_lengthD)
  let ?st = "st\<lparr>hf_positions := (hf_positions st)(gs_zone_id z \<mapsto> length ps),
      hf_projections := hf_projections st @ [y],
      hf_versions := (hf_versions st)(gs_zone_id z \<mapsto> gap_version_of z)\<rparr>"
  have "project_zone (gs_zone_id z, j) st = Inr ?st"
    using assms len by (simp add: project_zone_def projected_def)
  moreover have "projected (ps @ [z]) ?st"
  proof -
    have "gs_zone_id (ps ! i) \<noteq> gs_zone_id z" if "i < length ps" for i
      using assms(2) that by (metis image_eqI nth_mem)
    then show ?thesis
      using assms(1,4) by (auto simp: projected_def nth_append less_Suc_eq list_all2_appendI)
  qed
  ultimately show ?thesis by (auto simp: index_only_def)
qed

lemma index_only_trans: "index_only a b \<Longrightarrow> index_only b c \<Longrightarrow> index_only a c"
  by (simp add: index_only_def)

text \<open>The loop over the open zones: the known ones are projected in place, the new ones at the end.\<close>

lemma project_known_loop:
  assumes "projected ps st" "distinct (map gs_zone_id ps)" "distinct js"
    and "\<forall>j\<in>set js. j < length ps \<and> gs_zone_id (fs_zones st ! j) = gs_zone_id (ps ! j)
      \<and> (gap_version_of (fs_zones st ! j) = gap_version_of (ps ! j) \<longrightarrow> fs_zones st ! j = ps ! j)
      \<and> (\<exists>y. gap_zone_of (fs_zones st ! j) = Inr y)"
  shows "\<exists>st' ps'. for_each project_zone (map (\<lambda>j. (gs_zone_id (fs_zones st ! j), j)) js) st = Inr st'
    \<and> projected ps' st' \<and> index_only st st' \<and> length ps' = length ps
    \<and> (\<forall>j<length ps. ps' ! j = (if j \<in> set js then fs_zones st ! j else ps ! j))"
  using assms
proof (induction js arbitrary: ps st)
  case Nil
  then show ?case by (auto simp: index_only_def)
next
  case (Cons j js)
  let ?z = "fs_zones st ! j"
  obtain y where j: "j < length ps" "gs_zone_id ?z = gs_zone_id (ps ! j)" "gap_zone_of ?z = Inr y"
      "gap_version_of ?z = gap_version_of (ps ! j) \<Longrightarrow> ?z = ps ! j" "j \<notin> set js"
    using Cons.prems(3,4) by auto
  obtain st' where st': "project_zone (gs_zone_id ?z, j) st = Inr st'" "projected (ps[j := ?z]) st'" "index_only st st'"
    using project_known [OF Cons.prems(1,2) j(1,2,4,3)] by blast
  have ids: "map gs_zone_id (ps[j := ?z]) = map gs_zone_id ps"
    using j(1,2) by (simp add: map_update list_update_same_conv)
  have same: "fs_zones st' = fs_zones st" using st'(3) by (simp add: index_only_def)
  have "ps[j := ?z] ! i = ps ! i" if "i \<in> set js" for i using that j(5) by (metis nth_list_update_neq)
  then have "\<exists>st'' ps'. for_each project_zone (map (\<lambda>j. (gs_zone_id (fs_zones st' ! j), j)) js) st' = Inr st''
      \<and> projected ps' st'' \<and> index_only st' st'' \<and> length ps' = length (ps[j := ?z])
      \<and> (\<forall>i<length (ps[j := ?z]). ps' ! i = (if i \<in> set js then fs_zones st' ! i else ps[j := ?z] ! i))"
    using Cons.prems by (intro Cons.IH [OF st'(2)]) (simp_all only: ids same length_list_update, simp_all)
  then obtain st'' ps' where rest: "for_each project_zone (map (\<lambda>j. (gs_zone_id (fs_zones st ! j), j)) js) st' = Inr st''"
      "projected ps' st''" "index_only st' st''" "length ps' = length ps"
      "\<forall>i<length ps. ps' ! i = (if i \<in> set js then fs_zones st ! i else ps[j := ?z] ! i)"
    by (auto simp: same)
  have "ps' ! i = (if i \<in> set (j # js) then fs_zones st ! i else ps ! i)" if "i < length ps" for i
    using rest(5) that by (auto simp: nth_list_update)
  then show ?case
    using st'(1) rest(1,2,4) index_only_trans [OF st'(3) rest(3)] by auto
qed

lemma project_fresh_loop:
  assumes "projected ps st" "distinct (map gs_zone_id (fs_zones st))" "ps = take (length ps) (fs_zones st)"
    "length ps \<le> k" "k \<le> length (fs_zones st)" "\<forall>z\<in>set (fs_zones st). \<exists>y. gap_zone_of z = Inr y"
  shows "\<exists>st'. for_each project_zone (map (\<lambda>j. (gs_zone_id (fs_zones st ! j), j)) [length ps..<k]) st = Inr st'
    \<and> projected (take k (fs_zones st)) st' \<and> index_only st st'"
  using assms(4,5)
proof (induction k rule: dec_induct)
  case base
  then show ?case using assms(1,3) by (auto simp: index_only_def)
next
  case (step k)
  then obtain st' where st': "for_each project_zone (map (\<lambda>j. (gs_zone_id (fs_zones st ! j), j)) [length ps..<k]) st = Inr st'"
      "projected (take k (fs_zones st)) st'" "index_only st st'"
    by auto
  have k: "k < length (fs_zones st)" using step.prems by simp
  obtain y where y: "gap_zone_of (fs_zones st ! k) = Inr y" using assms(6) k by (meson nth_mem)
  have "gs_zone_id (fs_zones st ! k) \<notin> gs_zone_id ` set (take k (fs_zones st))"
    using assms(2) k by (auto simp: in_set_conv_nth distinct_conv_nth)
  moreover have "fs_zones st' ! k = fs_zones st ! k" using st'(3) by (simp add: index_only_def)
  ultimately obtain st'' where "project_zone (gs_zone_id (fs_zones st ! k), k) st' = Inr st''"
      "projected (take k (fs_zones st) @ [fs_zones st ! k]) st''" "index_only st' st''"
    using project_fresh [OF st'(2) _ _ y] by blast
  then show ?case
    using st'(1) step.hyps(1) index_only_trans [OF st'(3)] k
    by (auto simp: for_each_append take_Suc_conv_app_nth)
qed

lemma fold_delete: "fold AList.delete names entries = filter (\<lambda>(name, _). name \<notin> set names) entries"
proof (induction names arbitrary: entries)
  case (Cons name names)
  then show ?case by (auto simp: AList.delete_eq intro!: filter_cong)
qed simp

lemma update_fresh: "name \<notin> fst ` set entries \<Longrightarrow> AList.update name v entries = entries @ [(name, v)]"
  by (induction entries) auto

lemma fold_hot_add_zone:
  assumes "distinct (map gs_zone_id new)" "gs_zone_id ` set new \<inter> fst ` set (hf_active st) = {}"
  shows "fold hot_add_zone new st = st\<lparr>fs_zones := fs_zones st @ new,
    hf_active := hf_active st @ zip (map gs_zone_id new) [length (fs_zones st)..<length (fs_zones st) + length new]\<rparr>"
  using assms
proof (induction new arbitrary: st)
  case (Cons z new)
  have "AList.update (gs_zone_id z) v (hf_active st) = hf_active st @ [(gs_zone_id z, v)]" for v
    using Cons.prems(2) by (intro update_fresh) auto
  then have step: "hot_add_zone z st = st\<lparr>fs_zones := fs_zones st @ [z],
      hf_active := hf_active st @ [(gs_zone_id z, length (fs_zones st))]\<rparr>" (is "_ = ?st")
    by (simp add: hot_add_zone_def)
  have "fold hot_add_zone new ?st = ?st\<lparr>fs_zones := fs_zones ?st @ new,
    hf_active := hf_active ?st @ zip (map gs_zone_id new) [length (fs_zones ?st)..<length (fs_zones ?st) + length new]\<rparr>"
    by (rule Cons.IH) (use Cons.prems in auto)
  moreover have "[length (fs_zones st)..<length (fs_zones st) + length (z # new)]
      = length (fs_zones st) # [length (fs_zones ?st)..<length (fs_zones ?st) + length new]"
    by (simp add: upt_conv_Cons del: upt_Suc)
  ultimately show ?case unfolding fold_simps step by (simp del: upt_Suc)
qed simp

section \<open>The hot state follows the zones of the analysis\<close>

definition named :: "gap_state list \<Rightarrow> nat \<Rightarrow> string \<times> nat" where
  "named zones j = (gs_zone_id (zones ! j), j)"

abbreviation open_positions :: "gap_state list \<Rightarrow> nat list" where
  "open_positions zones \<equiv> filter (\<lambda>j. \<not> terminal_gap (gs_lifecycle_state (zones ! j))) [0..<length zones]"

definition hot_fvg_tracks ::
  "fvg_config \<Rightarrow> timeframe \<Rightarrow> atr_result option \<Rightarrow> candle list \<Rightarrow> nat \<Rightarrow> hot_fvg_state \<Rightarrow> bool" where
  "hot_fvg_tracks cfg tf atr candles n st \<longleftrightarrow>
     fvg_tracks cfg tf atr candles n st
     \<and> hf_active st = map (named (fs_zones st)) (open_positions (fs_zones st)) \<and> projected (fs_zones st) st"

lemma zip_named: "zip (map gs_zone_id new) [length zones..<length zones + length new]
    = map (named (zones @ new)) [length zones..<length zones + length new]"
  by (rule nth_equalityI) (simp_all add: named_def nth_append)

lemma map_named_cong: "map gs_zone_id xs = take (length xs) (map gs_zone_id ys) \<Longrightarrow> \<forall>j\<in>set js. j < length xs
    \<Longrightarrow> map (named xs) js = map (named ys) js"
  by (rule map_cong) (auto simp: named_def list_eq_iff_nth_eq)

lemma filter_named: "filter (\<lambda>(name, _). name \<notin> names) (map (named zones) js)
    = map (named zones) (filter (\<lambda>j. gs_zone_id (zones ! j) \<notin> names) js)"
  by (simp add: filter_map comp_def named_def)

text \<open>The end of a bar: every open zone of \<open>old\<close> has its new state in \<open>zones\<close>, the rest are new.\<close>

lemma after_bar_projects:
  assumes "projected old st" "fs_zones st = zones" "hf_active st = map (named zones) (open_positions old @ [length old..<length zones])"
    and "distinct (map gs_zone_id zones)" "\<forall>z\<in>set zones. \<exists>y. gap_zone_of z = Inr y" "length old \<le> length zones"
    and kept: "\<forall>j<length old. gs_zone_id (zones ! j) = gs_zone_id (old ! j)
      \<and> (gap_version_of (zones ! j) = gap_version_of (old ! j) \<longrightarrow> zones ! j = old ! j)
      \<and> (terminal_gap (gs_lifecycle_state (old ! j)) \<longrightarrow> zones ! j = old ! j)"
  shows "\<exists>st'. after_bar st = Inr st' \<and> fs_candles st' = fs_candles st \<and> fs_zones st' = zones
    \<and> fs_rejections st' = fs_rejections st \<and> hf_active st' = map (named zones) (open_positions zones)
    \<and> projected zones st'"
proof -
  have ids: "map gs_zone_id old = take (length old) (map gs_zone_id zones)"
    using kept assms(6) by (simp add: list_eq_iff_nth_eq)
  then have distinct: "distinct (map gs_zone_id old)" using assms(4) distinct_take by metis
  have good: "\<exists>y. gap_zone_of (zones ! j) = Inr y" if "j < length old" for j
    using assms(5,6) that by simp
  have "\<exists>st' ps'. for_each project_zone (map (\<lambda>j. (gs_zone_id (fs_zones st ! j), j)) (open_positions old)) st = Inr st'
      \<and> projected ps' st' \<and> index_only st st' \<and> length ps' = length old
      \<and> (\<forall>j<length old. ps' ! j = (if j \<in> set (open_positions old) then fs_zones st ! j else old ! j))"
    by (rule project_known_loop [OF assms(1) distinct]) (use kept good assms(2) in auto)
  then obtain st' ps' where st': "for_each project_zone (map (named zones) (open_positions old)) st = Inr st'"
      "projected ps' st'" "index_only st st'" "length ps' = length old"
      "\<forall>j<length old. ps' ! j = (if j \<in> set (open_positions old) then zones ! j else old ! j)"
    unfolding named_def [abs_def] assms(2) by blast
  have "ps' ! j = zones ! j" if "j < length old" for j
    using st'(5) that kept by auto
  then have ps': "ps' = take (length ps') (fs_zones st')"
    using st'(3,4) assms(2,6) by (intro nth_equalityI) (auto simp: index_only_def)
  have zones': "fs_zones st' = zones" using st'(3) assms(2) by (simp add: index_only_def)
  have "\<exists>st''. for_each project_zone (map (\<lambda>j. (gs_zone_id (fs_zones st' ! j), j)) [length ps'..<length zones]) st' = Inr st''
      \<and> projected (take (length zones) (fs_zones st')) st'' \<and> index_only st' st''"
    by (rule project_fresh_loop [OF st'(2) _ ps']) (use assms(4-6) st'(4) zones' in auto)
  then obtain st'' where st'': "for_each project_zone (map (named zones) [length old..<length zones]) st' = Inr st''"
      "projected zones st''" "index_only st' st''"
    unfolding named_def [abs_def] zones' st'(4) by auto
  let ?js = "open_positions old @ [length old..<length zones]"
  have only: "index_only st st''" by (rule index_only_trans [OF st'(3) st''(3)])
  have loop: "for_each project_zone (hf_active st) st = Inr st''"
    using st'(1) st''(1) by (simp add: assms(3) for_each_append)
  let ?gone = "\<lambda>j. terminal_gap (gs_lifecycle_state (zones ! j))"
  have split: "[0..<length zones] = [0..<length old] @ [length old..<length zones]"
    using upt_add_eq_append [of 0 "length old" "length zones - length old"] assms(6) by simp
  have "filter (\<lambda>j. \<not> ?gone j) (open_positions old) = filter (\<lambda>j. \<not> ?gone j) [0..<length old]"
    unfolding filter_filter using kept by (intro filter_cong) auto
  then have positions: "filter (\<lambda>j. \<not> ?gone j) ?js = open_positions zones" by (simp add: split)
  have range: "j < length zones" if "j \<in> set ?js" for j using that assms(6) by auto
  have completed: "set (map fst (filter (\<lambda>(name, j). ?gone j) (map (named zones) ?js)))
      = gs_zone_id ` (!) zones ` {j \<in> set ?js. ?gone j}"
    by (auto simp: named_def image_iff)
  have "gs_zone_id (zones ! j) \<in> gs_zone_id ` (!) zones ` {j \<in> set ?js. ?gone j} \<longleftrightarrow> ?gone j" if "j \<in> set ?js" for j
  proof
    assume "gs_zone_id (zones ! j) \<in> gs_zone_id ` (!) zones ` {j \<in> set ?js. ?gone j}"
    then obtain i where i: "i \<in> set ?js" "?gone i" "gs_zone_id (zones ! j) = gs_zone_id (zones ! i)" by blast
    then have "i = j" using assms(4) range [OF i(1)] range [OF that] by (auto simp: distinct_conv_nth)
    then show "?gone j" using i(2) by simp
  qed (use that in blast)
  then have "filter (\<lambda>j. gs_zone_id (zones ! j) \<notin> gs_zone_id ` (!) zones ` {j \<in> set ?js. ?gone j}) ?js
      = filter (\<lambda>j. \<not> ?gone j) ?js"
    by (intro filter_cong [OF refl]) blast
  then have "fold AList.delete (map fst (filter (\<lambda>(name, j). ?gone j) (map (named zones) ?js))) (map (named zones) ?js)
      = map (named zones) (open_positions zones)"
    unfolding fold_delete completed positions [symmetric] filter_named by (rule arg_cong)
  moreover have "fs_zones st'' = zones" "hf_active st'' = map (named zones) ?js"
    using only assms(2,3) by (simp_all add: index_only_def)
  ultimately have "after_bar st = Inr (st''\<lparr>hf_active := map (named zones) (open_positions zones)\<rparr>)"
    by (simp only: after_bar_def loop bind_result_simps Let_def)
  then show ?thesis using only st''(2) assms(2) by (simp add: index_only_def projected_def)
qed

lemma hot_fvg_bar_tracks:
  assumes "hot_fvg_tracks cfg tf atr candles n st" "n < length candles" "atr_aligned atr candles"
    "fvg_config_valid cfg" "\<forall>c\<in>set candles. candle_valid c" "chronological candles"
  shows "\<exists>st'. hot_fvg_bar cfg tf atr (candles ! n) st = Inr st' \<and> hot_fvg_tracks cfg tf atr candles (Suc n) st'"
proof -
  let ?bar = "candles ! n" and ?t = "c_timestamp (candles ! n) + timeframe_duration tf"
  let ?adv = "advanced_zone cfg ?bar n ?t"
  define old where "old = zones_after cfg tf atr candles n"
  define formed where "formed = formed_zones cfg atr candles n ?t"
  define zones where "zones = old @ formed"
  define new where "new = concat (map (\<lambda>z. made (snd (?adv z))) zones)"
  define updated where "updated = map (\<lambda>z. fst (?adv z)) zones @ new"
  let ?rej = "fs_rejections st @ formed_rejections cfg atr candles n ?t"
  have st: "fs_candles st = take n candles" "fs_zones st = old" "fs_rejections st = rejections_after cfg tf atr candles n"
      "hf_active st = map (named old) (open_positions old)" "projected old st"
    using assms(1) by (auto simp: hot_fvg_tracks_def fvg_tracks_def old_def)
  have after: "zones_after cfg tf atr candles (Suc n) = updated"
    by (simp add: after_simps next_zones_def Let_def updated_def zones_def new_def old_def formed_def)
  have len: "length (fs_candles st) = n" using st(1) assms(2) by simp
  have bars: "fs_candles st @ [?bar] = take (Suc n) candles"
    using st(1) assms(2) by (simp add: take_Suc_conv_app_nth)
  have form: "form_zone cfg atr (take (Suc n) candles) n ?t = Inr (formed, formed_rejections cfg atr candles n ?t)"
    using assms(2) form_zone_candles form_zone_eq by (simp add: formed_def)
  have "distinct (map gs_zone_id updated)"
    using zones_after_ids [OF assms(6), of "Suc n" cfg tf atr] assms(2) by (simp add: ids_ok_def after)
  moreover have same: "map gs_zone_id updated = map gs_zone_id zones @ map gs_zone_id new"
    by (simp add: updated_def)
  ultimately have ids: "distinct (map gs_zone_id updated)" "distinct (map gs_zone_id formed)" "distinct (map gs_zone_id new)"
      "gs_zone_id ` set formed \<inter> gs_zone_id ` set old = {}" "gs_zone_id ` set new \<inter> gs_zone_id ` set zones = {}"
    by (auto simp: zones_def)
  have names: "fst ` set (map (named zs) js) \<subseteq> gs_zone_id ` set zs" if "\<forall>j\<in>set js. j < length zs" for zs js
    using that by (auto simp: named_def)
  let ?js = "open_positions old @ [length old..<length zones]"
  define st1 where "st1 = st\<lparr>fs_candles := take (Suc n) candles, fs_rejections := ?rej, fs_zones := zones,
    hf_active := map (named zones) ?js\<rparr>"
  have add1: "fold hot_add_zone formed (st\<lparr>fs_candles := take (Suc n) candles, fs_rejections := ?rej\<rparr>) = st1"
  proof -
    have "fst ` set (hf_active st) \<subseteq> gs_zone_id ` set old" unfolding st(4) by (rule names) simp
    then have "gs_zone_id ` set formed \<inter> fst ` set (hf_active st) = {}" using ids(4) by blast
    moreover have "map (named old) (open_positions old) = map (named zones) (open_positions old)"
      by (rule map_named_cong) (simp_all add: zones_def)
    ultimately show ?thesis
      using ids(2) by (subst fold_hot_add_zone) (simp_all add: st(2,4) zip_named st1_def, simp add: zones_def)
  qed
  have positions: "map snd (hf_active st1) = ?js" by (simp add: st1_def comp_def named_def)
  have loop: "for_each (update_at cfg ?bar n ?t) ?js (zones, []) = Inr (advance_all cfg ?bar n ?t zones)"
  proof (rule update_loop_all)
    show "\<forall>z\<in>set zones. fill_ok z" using zones_after_fill_ok formed_fill_ok by (auto simp: zones_def old_def formed_def)
    show "\<forall>j<length zones. j \<notin> set ?js \<longrightarrow> terminal_gap (gs_lifecycle_state (zones ! j))"
      by (auto simp: zones_def nth_append)
  qed (auto simp: zones_def sorted_wrt_append sorted_wrt_filter)
  define st2 where "st2 = st1\<lparr>fs_zones := updated, hf_active := map (named updated) (open_positions old @ [length old..<length updated])\<rparr>"
  have add2: "fold hot_add_zone new (st1\<lparr>fs_zones := map (\<lambda>z. fst (?adv z)) zones\<rparr>) = st2"
  proof -
    let ?zs = "map (\<lambda>z. fst (?adv z)) zones"
    have "fst ` set (map (named zones) ?js) \<subseteq> gs_zone_id ` set zones" by (rule names) (auto simp: zones_def)
    moreover have "hf_active st1 = map (named zones) ?js" by (simp add: st1_def)
    ultimately have "fst ` set (hf_active st1) \<subseteq> gs_zone_id ` set zones" by metis
    then have "gs_zone_id ` set new \<inter> fst ` set (hf_active st1) = {}" using ids(5) by blast
    moreover have "hf_active st1 @ zip (map gs_zone_id new) [length ?zs..<length ?zs + length new]
        = map (named updated) (open_positions old @ [length old..<length updated])"
    proof -
      have "map (named zones) ?js = map (named updated) ?js"
        by (rule map_named_cong) (auto simp: same updated_def zones_def)
      moreover have "[length old..<length updated] = [length old..<length zones] @ [length ?zs..<length ?zs + length new]"
        using upt_add_eq_append [of "length old" "length old + length formed" "length new"]
        by (simp add: updated_def zones_def add.assoc)
      moreover have "zip (map gs_zone_id new) [length ?zs..<length ?zs + length new]
          = map (named updated) [length ?zs..<length ?zs + length new]"
        using zip_named [of new ?zs] by (simp only: updated_def)
      moreover have "hf_active st1 = map (named zones) ?js" by (simp add: st1_def)
      ultimately show ?thesis by (simp only: map_append append_assoc)
    qed
    ultimately show ?thesis
      using ids(3) by (subst fold_hot_add_zone) (simp_all add: st1_def st2_def updated_def del: upt_Suc map_append)
  qed
  have "\<exists>st'. after_bar st2 = Inr st' \<and> fs_candles st' = fs_candles st2 \<and> fs_zones st' = updated
    \<and> fs_rejections st' = fs_rejections st2 \<and> hf_active st' = map (named updated) (open_positions updated)
    \<and> projected updated st'"
  proof (rule after_bar_projects)
    show "projected old st2" using st(5) by (simp add: projected_def st2_def st1_def)
    show "\<forall>z\<in>set updated. \<exists>y. gap_zone_of z = Inr y"
      using zones_after_sound [OF assms(5,6,4), of "Suc n" 0 tf atr] assms(2) gap_zone_total
      by (fastforce simp: zones_sound_def after)
    show "\<forall>j<length old. gs_zone_id (updated ! j) = gs_zone_id (old ! j)
      \<and> (gap_version_of (updated ! j) = gap_version_of (old ! j) \<longrightarrow> updated ! j = old ! j)
      \<and> (terminal_gap (gs_lifecycle_state (old ! j)) \<longrightarrow> updated ! j = old ! j)"
      using version_kept by (auto simp: updated_def zones_def nth_append advanced_terminal)
  qed (use ids in \<open>simp_all add: st2_def updated_def zones_def\<close>)
  then obtain st' where st': "after_bar st2 = Inr st'" "fs_candles st' = take (Suc n) candles" "fs_zones st' = updated"
      "fs_rejections st' = ?rej" "hf_active st' = map (named updated) (open_positions updated)" "projected updated st'"
    by (auto simp: st2_def st1_def)
  have "fs_zones st1 = zones" by (simp add: st1_def)
  then have "hot_fvg_bar cfg tf atr ?bar st = Inr st'"
    unfolding hot_fvg_bar_def Let_def len bars check_atr_index_aligned [OF assms(3,2)] bind_result_simps form
      prod.case add1 positions
    by (simp add: loop add2 st'(1) flip: new_def)
  then show ?thesis
    using st'(2-6) by (auto simp: hot_fvg_tracks_def fvg_tracks_def after after_simps(4) st(3))
qed

section \<open>Gaps after indicators, as the engines compose them\<close>

text \<open>
  What an evaluation does with a timeframe: the indicator state is brought up to date, and its ATR is given to
  the gap state. The analysis it stands for is that of the reference engine.
\<close>

definition gap_analysis ::
  "fvg_config \<Rightarrow> timeframe \<Rightarrow> macd_config \<Rightarrow> atr_config \<Rightarrow> candle list \<Rightarrow> fvg_analysis result" where
  "gap_analysis cfg tf macd_cfg atr_cfg bars =
     bind_result (calculate_indicators bars tf macd_cfg atr_cfg) (\<lambda>indicator.
       analyze_fvg bars tf cfg (Some (ia_atr indicator)))"

definition gap_feed ::
  "fvg_config \<Rightarrow> timeframe \<Rightarrow> macd_config \<Rightarrow> atr_config \<Rightarrow> candle list
     \<Rightarrow> indicator_state \<times> fvg_state \<Rightarrow> (indicator_state \<times> fvg_state) result" where
  "gap_feed cfg tf macd_cfg atr_cfg bars = (\<lambda>(indicators, st).
     bind_result (indicator_append macd_cfg atr_cfg bars indicators) (\<lambda>indicators.
       case indicator_result tf macd_cfg atr_cfg indicators of (indicator, indicators) \<Rightarrow>
         bind_result (fvg_append cfg tf bars (Some (ia_atr indicator)) st) (\<lambda>st. Inr (indicators, st))))"

definition gap_read ::
  "fvg_config \<Rightarrow> timeframe \<Rightarrow> indicator_state \<times> fvg_state
     \<Rightarrow> fvg_analysis result \<times> indicator_state \<times> fvg_state" where
  "gap_read cfg tf = (\<lambda>(indicators, st). (fvg_result cfg tf st, indicators, st))"

definition hot_gap_feed ::
  "fvg_config \<Rightarrow> timeframe \<Rightarrow> macd_config \<Rightarrow> atr_config \<Rightarrow> candle list
     \<Rightarrow> indicator_state \<times> hot_fvg_state \<Rightarrow> (indicator_state \<times> hot_fvg_state) result" where
  "hot_gap_feed cfg tf macd_cfg atr_cfg bars = (\<lambda>(indicators, st).
     bind_result (indicator_append macd_cfg atr_cfg bars indicators) (\<lambda>indicators.
       case indicator_result tf macd_cfg atr_cfg indicators of (indicator, indicators) \<Rightarrow>
         bind_result (hot_fvg_append cfg tf bars (Some (ia_atr indicator)) st) (\<lambda>st. Inr (indicators, st))))"

definition hot_gap_read ::
  "fvg_config \<Rightarrow> timeframe \<Rightarrow> indicator_state \<times> hot_fvg_state
     \<Rightarrow> fvg_analysis \<times> indicator_state \<times> hot_fvg_state" where
  "hot_gap_read cfg tf = (\<lambda>(indicators, st). (hot_fvg_result cfg tf st, indicators, st))"

definition atr_of :: "timeframe \<Rightarrow> macd_config \<Rightarrow> atr_config \<Rightarrow> candle list \<Rightarrow> atr_result option" where
  "atr_of tf macd_cfg atr_cfg bars = Some (ia_atr (indicators_of tf macd_cfg atr_cfg bars))"

lemma atr_of_stable:
  "macd_config_valid macd_cfg \<Longrightarrow> atr_config_valid atr_cfg \<Longrightarrow> atr_stable (atr_of tf macd_cfg atr_cfg) bars"
  by (simp add: atr_stable_def atr_of_def indicators_of_def take_atr_def points_prefix)

lemma gap_analysis_Inr:
  assumes "macd_config_valid macd_cfg" "gap_analysis cfg tf macd_cfg atr_cfg bars = Inr r"
  shows "calculate_indicators bars tf macd_cfg atr_cfg = Inr (indicators_of tf macd_cfg atr_cfg bars)"
    and "analyze_fvg bars tf cfg (atr_of tf macd_cfg atr_cfg bars) = Inr r"
  using assms(2) by (auto simp: gap_analysis_def calculate_indicators_eq [OF assms(1)] bind_result_eq_Inr atr_of_def)

lemma indicators_brought_up:
  assumes "indicator_seen macd_cfg atr_cfg old st" "macd_config_valid macd_cfg" "atr_config_valid atr_cfg"
    and "gap_analysis cfg tf macd_cfg atr_cfg bars = Inr r"
  obtains st' st'' where "indicator_append macd_cfg atr_cfg bars st = Inr st'" "indicator_seen macd_cfg atr_cfg bars st''"
    "indicator_result tf macd_cfg atr_cfg st' = (indicators_of tf macd_cfg atr_cfg bars, st'')"
  using that indicators.feed_returns [OF assms(1) _ gap_analysis_Inr(1) [OF assms(2,4)]]
    indicators.read_result [OF _ _ gap_analysis_Inr(1) [OF assms(2,4)]] assms(2,3)
  by (metis prod.collapse)

interpretation gaps: replay "gap_feed cfg tf macd_cfg atr_cfg" "gap_read cfg tf"
    "\<lambda>bars. bind_result (gap_analysis cfg tf macd_cfg atr_cfg bars) (\<lambda>r. Inr (Inr r))" "(indicator_start, fvg_start)"
    "\<lambda>bars (indicators, st). indicator_seen macd_cfg atr_cfg bars indicators
       \<and> fvg_tracks cfg tf (atr_of tf macd_cfg atr_cfg bars) bars (length bars) st"
    "\<lambda>bars. macd_config_valid macd_cfg \<and> atr_config_valid atr_cfg"
  for cfg tf macd_cfg atr_cfg
proof (unfold_locales, goal_cases)
  case (1 bars)
  then show ?case using indicator_seen_start by (auto simp: fvg_tracks_def fvg_start_def after_simps)
next
  case (2 old st bars r)
  then obtain r' where r': "gap_analysis cfg tf macd_cfg atr_cfg bars = Inr r'" by (auto simp: bind_result_eq_Inr)
  obtain ist gst where st: "st = (ist, gst)" "indicator_seen macd_cfg atr_cfg old ist"
      "fvg_tracks cfg tf (atr_of tf macd_cfg atr_cfg old) old (length old) gst"
    using 2(1) by (cases st) auto
  obtain ist' ist'' where ist: "indicator_append macd_cfg atr_cfg bars ist = Inr ist'" "indicator_seen macd_cfg atr_cfg bars ist''"
      "indicator_result tf macd_cfg atr_cfg ist' = (indicators_of tf macd_cfg atr_cfg bars, ist'')"
    using indicators_brought_up [OF st(2) _ _ r'] 2(2) by blast
  obtain gst' where "fvg_append cfg tf bars (atr_of tf macd_cfg atr_cfg bars) gst = Inr gst'"
      "fvg_tracks cfg tf (atr_of tf macd_cfg atr_cfg bars) bars (length bars) gst'"
    using fvg_append_tracks [OF st(3) atr_of_stable gap_analysis_Inr(2) [OF _ r']] 2(2) by blast
  then show ?case using ist st(1) by (simp add: gap_feed_def atr_of_def)
next
  case (3 bars st r)
  then show ?case
    using fvg_result_tracks gap_analysis_Inr(2) by (fastforce simp: gap_read_def bind_result_eq_Inr split: prod.splits)
qed

lemma hot_fvg_append_tracks:
  assumes "hot_fvg_tracks cfg tf (source old) old (length old) st" "atr_stable source bars"
    "analyze_fvg bars tf cfg (source bars) = Inr r" "fvg_config_valid cfg" "\<forall>c\<in>set bars. candle_valid c"
  shows "\<exists>st'. hot_fvg_append cfg tf bars (source bars) st = Inr st'
    \<and> hot_fvg_tracks cfg tf (source bars) bars (length bars) st'"
proof -
  let ?T = "hot_fvg_tracks cfg tf (source bars) bars"
  have track: "fvg_tracks cfg tf (source old) old (length old) st" using assms(1) by (simp add: hot_fvg_tracks_def)
  define st0 where "st0 = (if prefix_ok old bars then st else hot_fvg_reset st)"
  have start: "?T (length (fs_candles st0)) st0" "length (fs_candles st0) \<le> length bars"
    using fvg_tracks_extend [OF track assms(2)] fvg_tracks_seen [OF track] assms(1)
    by (auto simp: st0_def hot_fvg_reset_def fvg_reset_def hot_fvg_tracks_def fvg_tracks_def after_simps prefix_ok_def
        projected_def)
  have "chronological bars"
    using assms(3,4) validate_fvg_chronological by (auto simp: analyze_fvg_eq bind_result_eq_Inr)
  then have "\<exists>st'. for_each (hot_fvg_bar cfg tf (source bars)) (drop (length (fs_candles st0)) bars) st0 = Inr st'
      \<and> ?T (length bars) st'"
    by (intro for_each_drop [where T = ?T])
      (use hot_fvg_bar_tracks analyze_fvg_aligned [OF assms(3)] start assms(4,5) in auto)
  then show ?thesis by (simp add: hot_fvg_append_def Let_def fvg_tracks_seen [OF track] flip: st0_def)
qed

lemma hot_fvg_result_tracks:
  assumes "hot_fvg_tracks cfg tf atr bars (length bars) st" "analyze_fvg bars tf cfg atr = Inr r"
  shows "hot_fvg_result cfg tf st = r"
proof -
  have "map_result gap_zone_of (fs_zones st) = Inr (hf_projections st)"
    using assms(1) by (simp add: hot_fvg_tracks_def projected_def map_result_Inr)
  then show ?thesis
    using assms by (auto simp: hot_fvg_tracks_def hot_fvg_result_def fvg_tracks_def analyze_fvg_eq bind_result_eq_Inr)
qed

interpretation hot_gaps: replay "hot_gap_feed cfg tf macd_cfg atr_cfg" "hot_gap_read cfg tf"
    "gap_analysis cfg tf macd_cfg atr_cfg" "(indicator_start, hot_fvg_start)"
    "\<lambda>bars (indicators, st). indicator_seen macd_cfg atr_cfg bars indicators
       \<and> hot_fvg_tracks cfg tf (atr_of tf macd_cfg atr_cfg bars) bars (length bars) st"
    "\<lambda>bars. macd_config_valid macd_cfg \<and> atr_config_valid atr_cfg \<and> fvg_config_valid cfg \<and> (\<forall>c\<in>set bars. candle_valid c)"
  for cfg tf macd_cfg atr_cfg
proof (unfold_locales, goal_cases)
  case (1 bars)
  then show ?case using indicator_seen_start
    by (auto simp: hot_fvg_tracks_def fvg_tracks_def hot_fvg_start_def fvg_start_def after_simps projected_def
        fvg_state.defs hot_fvg_state.defs)
next
  case (2 old st bars r)
  obtain ist gst where st: "st = (ist, gst)" "indicator_seen macd_cfg atr_cfg old ist"
      "hot_fvg_tracks cfg tf (atr_of tf macd_cfg atr_cfg old) old (length old) gst"
    using 2(1) by (cases st) auto
  obtain ist' ist'' where ist: "indicator_append macd_cfg atr_cfg bars ist = Inr ist'" "indicator_seen macd_cfg atr_cfg bars ist''"
      "indicator_result tf macd_cfg atr_cfg ist' = (indicators_of tf macd_cfg atr_cfg bars, ist'')"
    using indicators_brought_up [OF st(2) _ _ 2(3)] 2(2) by blast
  obtain gst' where "hot_fvg_append cfg tf bars (atr_of tf macd_cfg atr_cfg bars) gst = Inr gst'"
      "hot_fvg_tracks cfg tf (atr_of tf macd_cfg atr_cfg bars) bars (length bars) gst'"
    using hot_fvg_append_tracks [OF st(3) atr_of_stable gap_analysis_Inr(2) [OF _ 2(3)]] 2(2) by blast
  then show ?case using ist st(1) by (simp add: hot_gap_feed_def atr_of_def)
next
  case (3 bars st r)
  then show ?case
    using hot_fvg_result_tracks gap_analysis_Inr(2) by (fastforce simp: hot_gap_read_def split: prod.splits)
qed

section \<open>The property of both states\<close>

text \<open>
  C37: the two gap states of the replay engines are the analysis. After any sequence of inputs, repeated,
  extended or unrelated, the append-only state and the hot state, each behind the indicator state whose ATR
  it is given, return what analyzing the bars last fed from scratch returns: dropping terminal gaps from the
  dict, caching projections and comparing versions changes nothing, and no projection is ever refused.
\<close>

theorem gap_replays_are_analysis:
  assumes "macd_config_valid macd_cfg" "atr_config_valid atr_cfg" "fvg_config_valid cfg"
    and "\<forall>bars\<in>set inputs. \<forall>c\<in>set bars. candle_valid c"
    and "map_result (gap_analysis cfg tf macd_cfg atr_cfg) inputs = Inr results"
  shows "replay_results (gap_feed cfg tf macd_cfg atr_cfg) (gap_read cfg tf) inputs (indicator_start, fvg_start)
      = Inr (map Inr results)
    \<and> replay_results (hot_gap_feed cfg tf macd_cfg atr_cfg) (hot_gap_read cfg tf) inputs
        (indicator_start, hot_fvg_start) = Inr results"
proof -
  have "map_result (\<lambda>bars. bind_result (gap_analysis cfg tf macd_cfg atr_cfg bars) (\<lambda>r. Inr (Inr r))) inputs
      = Inr (map Inr results)"
    using assms(5) by (auto simp: map_result_Inr list_all2_conv_all_nth)
  then show ?thesis
    using gaps.results_of_analysis [of macd_cfg atr_cfg inputs cfg tf "map Inr results"]
      hot_gaps.results_of_analysis [of macd_cfg atr_cfg cfg inputs tf results] assms
    by (simp add: list_all_iff)
qed

lemma sample_gap_analysis:
  "\<exists>r. gap_analysis sample_fvg_config ONE_MINUTE sample_macd_config sample_atr_config sample_gap_bars = Inr r"
proof -
  let ?atr = "atr_of ONE_MINUTE sample_macd_config sample_atr_config sample_gap_bars"
  have order: "validate_indicator_order sample_gap_bars = Inr ()"
    by (simp add: validate_indicator_order_def sample_gap_bars_def sample_bar_def minutes_def seconds_def)
  have "validate_fvg_inputs sample_gap_bars ONE_MINUTE sample_fvg_config ?atr = Inr ()"
    using sample_gaps_validated
    by (auto simp: validate_fvg_inputs_def bind_result_eq_Inr validate_tick_candles_Inr sample_fvg_config_def atr_of_def
        indicators_of_def atr_points_of_def check_all_Inr check_atr_timestamp_def in_set_zip)
  from analyze_fvg_total [OF sample_fvg_valid this] show ?thesis
    by (simp add: gap_analysis_def calculate_indicators_eq [OF sample_configs_valid(1)] order atr_of_def)
qed

definition sample_gap_results :: fvg_analysis where
  "sample_gap_results =
     (case gap_analysis sample_fvg_config ONE_MINUTE sample_macd_config sample_atr_config sample_gap_bars of
        Inr r \<Rightarrow> r | Inl _ \<Rightarrow> undefined)"

theorem gap_replays_are_analysis_witness:
  "replay_results (gap_feed sample_fvg_config ONE_MINUTE sample_macd_config sample_atr_config)
     (gap_read sample_fvg_config ONE_MINUTE) [sample_gap_bars, sample_gap_bars] (indicator_start, fvg_start)
     = Inr [Inr sample_gap_results, Inr sample_gap_results]
   \<and> replay_results (hot_gap_feed sample_fvg_config ONE_MINUTE sample_macd_config sample_atr_config)
     (hot_gap_read sample_fvg_config ONE_MINUTE) [sample_gap_bars, sample_gap_bars] (indicator_start, hot_fvg_start)
     = Inr [sample_gap_results, sample_gap_results]"
proof -
  have "gap_analysis sample_fvg_config ONE_MINUTE sample_macd_config sample_atr_config sample_gap_bars
      = Inr sample_gap_results"
    using sample_gap_analysis by (auto simp: sample_gap_results_def)
  then show ?thesis
    using gap_replays_are_analysis [OF sample_configs_valid sample_fvg_valid(1),
        of "[sample_gap_bars, sample_gap_bars]" ONE_MINUTE "[sample_gap_results, sample_gap_results]"] sample_fvg_valid(2)
    by simp
qed

end
