(* ===== verification/Displacement.thy ===== *)
theory Displacement
  imports FVG "HOL-Library.Multiset"
begin

text \<open>
  Displacement legs: the data model (\<open>schemas/displacement.py\<close>), the reference of a structure event
  (\<open>engines/structure/references.py\<close>) and \<open>analyze_displacement\<close> (\<open>engines/smc/displacement.py\<close>), which for
  each structure break looks for the earliest end bar at which the move since the break is strong enough.
  The metrics are computed with 34 digits, in the context of \<open>Indicators\<close>, which has the same precision.
\<close>

section \<open>Data model\<close>

datatype displacement_direction = DISPLACEMENT_BULLISH | DISPLACEMENT_BEARISH

datatype displacement_status =
  DISPLACEMENT_CANDIDATE | DISPLACEMENT_QUALIFIED | DISPLACEMENT_EXPIRED | DISPLACEMENT_REJECTED

datatype displacement_reason =
    UNSUPPORTED_STRUCTURE_EVENT | ATR_UNAVAILABLE | NET_MOVE_NOT_POSITIVE | NET_MOVE_BELOW_THRESHOLD
  | BODY_MOVE_BELOW_THRESHOLD | EFFICIENCY_BELOW_THRESHOLD | ADVERSE_MOVE_ABOVE_THRESHOLD | FVG_REQUIRED

record displacement_config =
  dc_tick_size :: rat
  dc_atr_period :: nat
  dc_max_bars :: nat
  dc_net_atr_ratio :: rat
  dc_body_atr_ratio :: rat
  dc_min_body_efficiency :: rat
  dc_max_adverse_atr_ratio :: rat
  dc_require_fvg :: bool

definition displacement_config_valid :: "displacement_config \<Rightarrow> bool" where
  "displacement_config_valid cfg \<longleftrightarrow>
     0 < dc_tick_size cfg \<and> 1 \<le> dc_atr_period cfg \<and> 1 \<le> dc_max_bars cfg \<and> 0 < dc_net_atr_ratio cfg
     \<and> 0 < dc_body_atr_ratio cfg \<and> 0 < dc_min_body_efficiency cfg \<and> dc_min_body_efficiency cfg \<le> 1
     \<and> 0 \<le> dc_max_adverse_atr_ratio cfg"

record strength_metrics =
  sm_atr_baseline :: rat
  sm_net_move :: rat
  sm_directional_body_sum :: rat
  sm_opposing_body_sum :: rat
  sm_total_body_sum :: rat
  sm_body_efficiency :: rat
  sm_net_atr_ratio :: rat
  sm_body_atr_ratio :: rat
  sm_adverse_price :: rat
  sm_adverse_atr_ratio :: rat

text \<open>The validator adds in the context of its caller, which has 34 digits.\<close>

definition make_strength_metrics :: "strength_metrics \<Rightarrow> strength_metrics result" where
  "make_strength_metrics m =
     bind_result (require (0 < sm_atr_baseline m \<and> 0 \<le> sm_directional_body_sum m \<and> 0 \<le> sm_opposing_body_sum m
         \<and> 0 \<le> sm_total_body_sum m \<and> 0 \<le> sm_body_efficiency m \<and> sm_body_efficiency m \<le> 1
         \<and> 0 \<le> sm_body_atr_ratio m \<and> 0 \<le> sm_adverse_price m \<and> 0 \<le> sm_adverse_atr_ratio m)
       (ValidationError ''strength metrics field'')) (\<lambda>_.
     bind_result (require (\<not> sm_total_body_sum m \<noteq> iadd (sm_directional_body_sum m) (sm_opposing_body_sum m))
       (ValidationError ''total_body_sum must equal directional plus opposing bodies'')) (\<lambda>_. Inr m))"

record displacement_leg =
  dl_leg_id :: string
  dl_status :: displacement_status
  dl_direction :: displacement_direction
  dl_start_bar_index :: nat
  dl_end_bar_index :: nat
  dl_start_timestamp :: utc_time
  dl_end_timestamp :: utc_time
  dl_timestamp :: utc_time
  dl_confirmed_at :: utc_time
  dl_metrics :: strength_metrics
  dl_associated_fvg :: "string list"
  dl_structure_break :: string

definition make_displacement_leg :: "displacement_leg \<Rightarrow> displacement_leg result" where
  "make_displacement_leg l =
     bind_result (require (\<not> dl_end_bar_index l < dl_start_bar_index l)
       (ValidationError ''displacement end bar cannot precede its start'')) (\<lambda>_.
     bind_result (require (\<not> dl_timestamp l \<noteq> dl_end_timestamp l)
       (ValidationError ''timestamp must identify the displacement end bar'')) (\<lambda>_.
     bind_result (require (\<not> dl_confirmed_at l \<le> dl_end_timestamp l)
       (ValidationError ''confirmed_at must be later than the end bar open'')) (\<lambda>_. Inr l)))"

record displacement_evaluation =
  dv_candidate_id :: string
  dv_direction :: displacement_direction
  dv_status :: displacement_status
  dv_start_bar_index :: nat
  dv_start_timestamp :: utc_time
  dv_last_bar_index :: "nat option"
  dv_last_evaluated_at :: "utc_time option"
  dv_metrics :: "strength_metrics option"
  dv_associated_fvg :: "string list"
  dv_structure_break :: string
  dv_reason_codes :: "displacement_reason list"

definition make_displacement_evaluation :: "displacement_evaluation \<Rightarrow> displacement_evaluation result" where
  "make_displacement_evaluation v =
     bind_result (require (dv_status v \<noteq> DISPLACEMENT_QUALIFIED)
       (ValidationError ''qualified candidates must be emitted as DisplacementLeg'')) (\<lambda>_.
     bind_result (require (\<not> (dv_status v = DISPLACEMENT_REJECTED \<and> dv_reason_codes v = []))
       (ValidationError ''rejected candidate requires a reason'')) (\<lambda>_. Inr v))"

record displacement_analysis =
  da_timeframe :: timeframe
  da_config :: displacement_config
  da_candle_count :: nat
  da_data_cutoff_at :: "utc_time option"
  da_legs :: "displacement_leg list"
  da_evaluations :: "displacement_evaluation list"

section \<open>The reference of a structure event\<close>

fun event_type_value :: "structure_event_type \<Rightarrow> string" where
  "event_type_value BOS = ''BOS''"
| "event_type_value MSS = ''MSS''"
| "event_type_value BREAK = ''BREAK''"

fun structure_direction_value :: "structure_direction \<Rightarrow> string" where
  "structure_direction_value STRUCTURE_BULLISH = ''bullish''"
| "structure_direction_value STRUCTURE_BEARISH = ''bearish''"

definition structure_event_reference :: "structure_event \<Rightarrow> string" where
  "structure_event_reference e =
     event_type_value (se_type e) @ '':'' @ structure_direction_value (se_direction e) @ '':''
     @ isoformat (se_timestamp e) @ '':'' @ se_broken_structure_id e"

section \<open>Inputs\<close>

definition check_event_order :: "structure_event \<times> structure_event \<Rightarrow> unit result" where
  "check_event_order = (\<lambda>(previous, current).
     require (\<not> se_confirmed_at current < se_confirmed_at previous)
       (DisplacementInputError ''structure events must be in confirmation order''))"

definition check_event_candle :: "candle list \<Rightarrow> timeframe \<Rightarrow> structure_event \<Rightarrow> unit result" where
  "check_event_candle candles tf e =
     bind_result (require (se_timestamp e \<in> c_timestamp ` set candles)
       (DisplacementInputError ''structure event timestamp must match a candle open'')) (\<lambda>_.
     require (\<not> se_confirmed_at e \<noteq> se_timestamp e + timeframe_duration tf)
       (DisplacementInputError ''structure event confirmed_at must match its candle close''))"

definition check_gap_candles :: "candle list \<Rightarrow> timeframe \<Rightarrow> gap_zone \<Rightarrow> unit result" where
  "check_gap_candles candles tf z =
     bind_result (require (gz_confirmed_at z \<in> (\<lambda>c. c_timestamp c + timeframe_duration tf) ` set candles)
       (DisplacementInputError ''FVG confirmed_at must match an available candle close'')) (\<lambda>_.
     require (\<not> list_ex (\<lambda>t. t \<notin> c_timestamp ` set candles) (gz_source_timestamps z))
       (DisplacementInputError ''FVG source timestamps must match available candles''))"

definition validate_displacement_inputs ::
  "candle list \<Rightarrow> timeframe \<Rightarrow> structure_event list \<Rightarrow> gap_zone list \<Rightarrow> displacement_config \<Rightarrow> unit result" where
  "validate_displacement_inputs candles tf events zones cfg =
     bind_result (validate_tick_candles DisplacementInputError candles tf (dc_tick_size cfg)) (\<lambda>_.
     bind_result (check_all check_event_order (adjacent events)) (\<lambda>_.
     bind_result (check_all (check_event_candle candles tf) events) (\<lambda>_.
     check_all (check_gap_candles candles tf) zones)))"

text \<open>The index of a timestamp; a dict keeps the last candle of a timestamp.\<close>

definition time_index :: "candle list \<Rightarrow> utc_time \<Rightarrow> nat result" where
  "time_index candles t =
     (case map_of (rev (zip (map c_timestamp candles) [0..<length candles])) t of
        None \<Rightarrow> Inl KeyError
      | Some index \<Rightarrow> Inr index)"

section \<open>Metrics\<close>

definition event_direction :: "structure_event \<Rightarrow> displacement_direction" where
  "event_direction e =
     (if se_direction e = STRUCTURE_BULLISH then DISPLACEMENT_BULLISH else DISPLACEMENT_BEARISH)"

definition body_step :: "rat \<Rightarrow> candle \<Rightarrow> rat \<times> rat \<Rightarrow> rat \<times> rat" where
  "body_step multiplier candle = (\<lambda>(directional, opposing).
     let signed_body = imul multiplier (isub (c_close candle) (c_open candle))
     in (iadd directional (max signed_body 0), iadd opposing (max (iround (- signed_body)) 0)))"

definition displacement_metrics ::
  "candle list \<Rightarrow> nat \<Rightarrow> nat \<Rightarrow> displacement_direction \<Rightarrow> rat \<Rightarrow> strength_metrics result" where
  "displacement_metrics candles start_index end_index direction atr_baseline =
     (let multiplier = (if direction = DISPLACEMENT_BULLISH then 1 else - 1);
          start_open = c_open (candles ! start_index);
          window = take (end_index + 1 - start_index) (drop start_index candles);
          (directional_body_sum, opposing_body_sum) = fold (body_step multiplier) window (0, 0);
          total_body_sum = iadd directional_body_sum opposing_body_sum;
          body_efficiency = (if total_body_sum > 0 then idiv directional_body_sum total_body_sum else 0);
          net_move = imul multiplier (isub (c_close (candles ! end_index)) start_open);
          adverse_price =
            (if direction = DISPLACEMENT_BULLISH
             then max (isub start_open (Min (set (map c_low window)))) 0
             else max (isub (Max (set (map c_high window))) start_open) 0)
      in make_strength_metrics
           \<lparr>sm_atr_baseline = iround atr_baseline, sm_net_move = iround net_move,
            sm_directional_body_sum = iround directional_body_sum,
            sm_opposing_body_sum = iround opposing_body_sum, sm_total_body_sum = iround total_body_sum,
            sm_body_efficiency = iround body_efficiency,
            sm_net_atr_ratio = iround (idiv net_move atr_baseline),
            sm_body_atr_ratio = iround (idiv directional_body_sum atr_baseline),
            sm_adverse_price = iround adverse_price,
            sm_adverse_atr_ratio = iround (idiv adverse_price atr_baseline)\<rparr>)"

section \<open>Gaps of a leg\<close>

definition required_gap :: "displacement_direction \<Rightarrow> gap_direction" where
  "required_gap direction = (if direction = DISPLACEMENT_BULLISH then GAP_BULLISH else GAP_BEARISH)"

definition match_gap ::
  "candle list \<Rightarrow> displacement_direction \<Rightarrow> nat \<Rightarrow> nat \<Rightarrow> utc_time \<Rightarrow> gap_zone \<Rightarrow> gap_zone list
     \<Rightarrow> gap_zone list result" where
  "match_gap candles direction start_index end_index end_close zone matches =
     (if gz_type zone \<noteq> FVG \<or> gz_direction zone \<noteq> required_gap direction then Inr matches
      else if gz_confirmed_at zone > end_close then Inr matches
      else bind_result (map_result (time_index candles) (gz_source_timestamps zone)) (\<lambda>source_indices.
        Inr (if list_all (\<lambda>index. int start_index - 2 \<le> int index \<and> index \<le> end_index) source_indices
             then matches @ [zone] else matches)))"

definition gap_key :: "gap_zone \<Rightarrow> utc_time \<times> string" where
  "gap_key zone = (gz_confirmed_at zone, gz_zone_id zone)"

definition matching_fvgs ::
  "gap_zone list \<Rightarrow> candle list \<Rightarrow> displacement_direction \<Rightarrow> nat \<Rightarrow> nat \<Rightarrow> utc_time \<Rightarrow> string list result" where
  "matching_fvgs zones candles direction start_index end_index end_close =
     bind_result (for_each (match_gap candles direction start_index end_index end_close) zones []) (\<lambda>matches.
       Inr (map gz_zone_id (sort_key gap_key matches)))"

text \<open>The index of the gaps by direction and last source, and the gaps without sources.\<close>

type_synonym gap_index = "gap_direction \<times> int \<Rightarrow> gap_zone list"

definition index_gap ::
  "candle list \<Rightarrow> gap_zone \<Rightarrow> gap_index \<times> gap_zone list \<Rightarrow> (gap_index \<times> gap_zone list) result" where
  "index_gap candles zone = (\<lambda>(by_last_source, source_free).
     if gz_type zone \<noteq> FVG then Inr (by_last_source, source_free)
     else bind_result (map_result (time_index candles) (gz_source_timestamps zone)) (\<lambda>indices.
       if indices = [] then Inr (by_last_source, source_free @ [zone])
       else let key = (gz_direction zone, int (Max (set indices)))
            in Inr (by_last_source(key := by_last_source key @ [zone]), source_free)))"

definition gaps_in_reach :: "gap_index \<times> gap_zone list \<Rightarrow> displacement_direction \<Rightarrow> nat \<Rightarrow> nat \<Rightarrow> gap_zone list" where
  "gaps_in_reach = (\<lambda>(by_last_source, source_free) direction start_index end_index.
     source_free @ concat (map (\<lambda>index. by_last_source (required_gap direction, index))
       [int start_index - 2..int end_index]))"

section \<open>The engine\<close>

definition failure_reasons ::
  "strength_metrics \<Rightarrow> string list \<Rightarrow> displacement_config \<Rightarrow> displacement_reason list" where
  "failure_reasons m associated_fvg cfg =
     (if sm_net_move m \<le> 0 then [NET_MOVE_NOT_POSITIVE] else [])
     @ (if sm_net_atr_ratio m < dc_net_atr_ratio cfg then [NET_MOVE_BELOW_THRESHOLD] else [])
     @ (if sm_body_atr_ratio m < dc_body_atr_ratio cfg then [BODY_MOVE_BELOW_THRESHOLD] else [])
     @ (if sm_body_efficiency m < dc_min_body_efficiency cfg then [EFFICIENCY_BELOW_THRESHOLD] else [])
     @ (if sm_adverse_atr_ratio m > dc_max_adverse_atr_ratio cfg then [ADVERSE_MOVE_ABOVE_THRESHOLD] else [])
     @ (if dc_require_fvg cfg \<and> associated_fvg = [] then [FVG_REQUIRED] else [])"

type_synonym end_evaluation = "strength_metrics \<times> string list \<times> displacement_reason list"

text \<open>The loop over the end bars stops at the first one without a reason; the last evaluation is kept.\<close>

fun qualify_loop ::
  "(nat \<Rightarrow> end_evaluation result) \<Rightarrow> nat list \<Rightarrow> end_evaluation option
     \<Rightarrow> (nat option \<times> end_evaluation option) result" where
  "qualify_loop evaluate [] latest = Inr (None, latest)"
| "qualify_loop evaluate (end_index # rest) latest =
     bind_result (evaluate end_index) (\<lambda>(metrics, fvgs, reasons).
       if reasons \<noteq> [] then qualify_loop evaluate rest (Some (metrics, fvgs, reasons))
       else Inr (Some end_index, Some (metrics, fvgs, reasons)))"

definition evaluate_end ::
  "displacement_config \<Rightarrow> timeframe \<Rightarrow> candle list \<Rightarrow> (nat \<Rightarrow> gap_zone list) \<Rightarrow> displacement_direction \<Rightarrow> nat \<Rightarrow> rat
     \<Rightarrow> nat \<Rightarrow> end_evaluation result" where
  "evaluate_end cfg tf candles gaps direction start_index atr_baseline end_index =
     bind_result (displacement_metrics candles start_index end_index direction atr_baseline) (\<lambda>metrics.
     bind_result (matching_fvgs (gaps end_index) candles direction start_index end_index
         (c_timestamp (candles ! end_index) + timeframe_duration tf)) (\<lambda>fvgs.
       Inr (metrics, fvgs, failure_reasons metrics fvgs cfg)))"

datatype displacement_outcome = LEG displacement_leg | EVALUATION displacement_evaluation

definition rejected_evaluation ::
  "structure_event \<Rightarrow> nat \<Rightarrow> displacement_reason \<Rightarrow> displacement_outcome result" where
  "rejected_evaluation event start_index reason =
     bind_result (make_displacement_evaluation
       \<lparr>dv_candidate_id = ''DISPLACEMENT:'' @ structure_event_reference event,
        dv_direction = event_direction event, dv_status = DISPLACEMENT_REJECTED,
        dv_start_bar_index = start_index, dv_start_timestamp = se_timestamp event, dv_last_bar_index = None,
        dv_last_evaluated_at = None, dv_metrics = None, dv_associated_fvg = [],
        dv_structure_break = structure_event_reference event, dv_reason_codes = [reason]\<rparr>) (\<lambda>v. Inr (EVALUATION v))"

definition qualified_leg ::
  "timeframe \<Rightarrow> candle list \<Rightarrow> structure_event \<Rightarrow> nat \<Rightarrow> nat \<Rightarrow> strength_metrics \<Rightarrow> string list
     \<Rightarrow> displacement_outcome result" where
  "qualified_leg tf candles event start_index end_index metrics fvgs =
     (let end_time = c_timestamp (candles ! end_index)
      in bind_result (make_displacement_leg
           \<lparr>dl_leg_id = ''LEG:'' @ structure_event_reference event @ '':'' @ isoformat end_time,
            dl_status = DISPLACEMENT_QUALIFIED, dl_direction = event_direction event,
            dl_start_bar_index = start_index, dl_end_bar_index = end_index,
            dl_start_timestamp = c_timestamp (candles ! start_index), dl_end_timestamp = end_time,
            dl_timestamp = end_time, dl_confirmed_at = end_time + timeframe_duration tf, dl_metrics = metrics,
            dl_associated_fvg = fvgs, dl_structure_break = structure_event_reference event\<rparr>) (\<lambda>l. Inr (LEG l)))"

definition atr_baseline_at :: "displacement_config \<Rightarrow> rat list \<Rightarrow> nat \<Rightarrow> rat" where
  "atr_baseline_at cfg trs start_index =
     (let baseline_start = start_index - dc_atr_period cfg
      in idiv (isum (take (start_index - baseline_start) (drop baseline_start trs))) (of_nat (dc_atr_period cfg)))"

definition displacement_of ::
  "displacement_config \<Rightarrow> timeframe \<Rightarrow> candle list \<Rightarrow> rat list \<Rightarrow> (displacement_direction \<Rightarrow> nat \<Rightarrow> nat \<Rightarrow> gap_zone list)
     \<Rightarrow> structure_event \<Rightarrow> displacement_outcome result" where
  "displacement_of cfg tf candles trs gaps event =
     bind_result (time_index candles (se_timestamp event)) (\<lambda>start_index.
       if se_type event \<notin> {BOS, MSS} then rejected_evaluation event start_index UNSUPPORTED_STRUCTURE_EVENT
       else if int start_index - int (dc_atr_period cfg) < 0 then rejected_evaluation event start_index ATR_UNAVAILABLE
       else let atr_baseline = atr_baseline_at cfg trs start_index
            in if atr_baseline \<le> 0 then rejected_evaluation event start_index ATR_UNAVAILABLE
       else let direction = event_direction event;
                last_permitted_index = start_index + dc_max_bars cfg - 1;
                available_end_index = min last_permitted_index (length candles - 1)
            in bind_result (qualify_loop
                 (evaluate_end cfg tf candles (gaps direction start_index) direction start_index atr_baseline)
                 [start_index..<available_end_index + 1] None) (\<lambda>(qualified, latest).
              case latest of
                None \<Rightarrow> Inl AssertionError
              | Some (metrics, fvgs, reasons) \<Rightarrow>
                  (case qualified of
                     Some end_index \<Rightarrow> qualified_leg tf candles event start_index end_index metrics fvgs
                   | None \<Rightarrow>
                       bind_result (make_displacement_evaluation
                         \<lparr>dv_candidate_id = ''DISPLACEMENT:'' @ structure_event_reference event,
                          dv_direction = direction,
                          dv_status = (if available_end_index = last_permitted_index then DISPLACEMENT_EXPIRED
                                       else DISPLACEMENT_CANDIDATE),
                          dv_start_bar_index = start_index, dv_start_timestamp = se_timestamp event,
                          dv_last_bar_index = Some available_end_index,
                          dv_last_evaluated_at =
                            Some (c_timestamp (candles ! available_end_index) + timeframe_duration tf),
                          dv_metrics = Some metrics, dv_associated_fvg = fvgs,
                          dv_structure_break = structure_event_reference event,
                          dv_reason_codes = reasons\<rparr>) (\<lambda>v. Inr (EVALUATION v)))))"

definition legs_of :: "displacement_outcome list \<Rightarrow> displacement_leg list" where
  "legs_of outcomes = concat (map (\<lambda>x. case x of LEG l \<Rightarrow> [l] | EVALUATION _ \<Rightarrow> []) outcomes)"

definition evaluations_of :: "displacement_outcome list \<Rightarrow> displacement_evaluation list" where
  "evaluations_of outcomes = concat (map (\<lambda>x. case x of LEG _ \<Rightarrow> [] | EVALUATION v \<Rightarrow> [v]) outcomes)"

definition analyze_displacement ::
  "candle list \<Rightarrow> timeframe \<Rightarrow> structure_event list \<Rightarrow> displacement_config \<Rightarrow> gap_zone list
     \<Rightarrow> displacement_analysis result" where
  "analyze_displacement candles tf events cfg zones =
     bind_result (validate_displacement_inputs candles tf events zones cfg) (\<lambda>_.
     bind_result (for_each (index_gap candles) zones (\<lambda>_. [], [])) (\<lambda>index.
     bind_result (map_result (displacement_of cfg tf candles (true_ranges candles) (gaps_in_reach index)) events) (\<lambda>outcomes.
       Inr \<lparr>da_timeframe = tf, da_config = cfg, da_candle_count = length candles,
            da_data_cutoff_at = data_cutoff candles tf, da_legs = legs_of outcomes,
            da_evaluations = evaluations_of outcomes\<rparr>)))"

section \<open>The index of a timestamp\<close>

lemma time_index_Inr:
  assumes "chronological candles"
  shows "time_index candles t = Inr i \<longleftrightarrow> i < length candles \<and> c_timestamp (candles ! i) = t"
proof -
  let ?xs = "zip (map c_timestamp candles) [0..<length candles]"
  have "distinct (map c_timestamp candles)"
    using chronological_inj [OF assms] by (auto simp: distinct_conv_nth)
  then have "distinct (map fst (rev ?xs))" by (simp add: rev_map [symmetric])
  then have "map_of (rev ?xs) t = Some i \<longleftrightarrow> (t, i) \<in> set ?xs" by (simp add: map_of_eq_Some_iff)
  also have "\<dots> \<longleftrightarrow> i < length candles \<and> c_timestamp (candles ! i) = t"
    by (auto simp: set_zip intro!: exI [of _ i])
  finally show ?thesis by (auto simp: time_index_def split: option.splits)
qed

lemma time_index_exists:
  assumes "chronological candles" "t \<in> c_timestamp ` set candles"
  shows "\<exists>i. time_index candles t = Inr i"
  using assms by (auto simp: time_index_Inr in_set_conv_nth)

section \<open>Metrics never fail\<close>

lemma iround_0 [simp]: "iround 0 = 0"
  by (simp add: iround_def)

lemma iround_mono: "x \<le> y \<Longrightarrow> iround x \<le> iround y"
  by (simp add: iround_def round_sig_mono)

definition sums_ok :: "rat \<times> rat \<Rightarrow> bool" where
  "sums_ok p \<longleftrightarrow> 0 \<le> fst p \<and> 0 \<le> snd p \<and> iround (fst p) = fst p \<and> iround (snd p) = snd p"

lemma body_step_ok: "sums_ok p \<Longrightarrow> sums_ok (body_step multiplier c p)"
proof -
  have "0 \<le> iadd x (max y 0)" if "0 \<le> x" for x y using that by (simp add: iadd_def)
  then show "sums_ok p \<Longrightarrow> sums_ok (body_step multiplier c p)"
    by (cases p) (simp add: sums_ok_def body_step_def Let_def)
qed

lemma body_sums_ok: "sums_ok p \<Longrightarrow> sums_ok (fold (body_step multiplier) window p)"
  by (induction window arbitrary: p) (simp_all add: body_step_ok)

definition metrics_of ::
  "candle list \<Rightarrow> nat \<Rightarrow> nat \<Rightarrow> displacement_direction \<Rightarrow> rat \<Rightarrow> strength_metrics" where
  "metrics_of candles start_index end_index direction atr_baseline =
     (case displacement_metrics candles start_index end_index direction atr_baseline of Inr m \<Rightarrow> m | Inl _ \<Rightarrow> undefined)"

lemma displacement_metrics_eq:
  assumes "0 < atr"
  shows "displacement_metrics candles s e direction atr = Inr (metrics_of candles s e direction atr)"
proof -
  define window where "window = take (e + 1 - s) (drop s candles)"
  define multiplier where "multiplier = (if direction = DISPLACEMENT_BULLISH then 1 else - 1 :: rat)"
  obtain a b where sums: "fold (body_step multiplier) window (0, 0) = (a, b)" by fastforce
  have ok: "0 \<le> a" "0 \<le> b" "iround a = a" "iround b = b"
    using body_sums_ok [of "(0, 0)" multiplier window] by (simp_all add: sums sums_ok_def iround_def)
  have total: "a \<le> iadd a b" "0 \<le> iadd a b"
    using iround_mono [of a "a + b"] ok by (simp_all add: iadd_def)
  have eff: "0 \<le> idiv a (iadd a b) \<and> idiv a (iadd a b) \<le> 1" if "0 < iadd a b"
  proof -
    have "a / iadd a b \<le> 1" "0 \<le> a / iadd a b" using total(1) that ok(1) by simp_all
    moreover have "iround 1 = 1" using round_sig_fits [of 34 1] fits_of_int [of 1 34] by (simp add: iround_def)
    ultimately show ?thesis using iround_mono [of "a / iadd a b" 1] by (simp add: idiv_def)
  qed
  have "\<exists>m. displacement_metrics candles s e direction atr = Inr m"
    using assms ok total eff
    unfolding displacement_metrics_def Let_def window_def [symmetric] multiplier_def [symmetric] sums prod.case
    by (auto simp: make_strength_metrics_def bind_result_eq_Inr idiv_def iround_0 split: if_splits)
  then show ?thesis by (auto simp: metrics_of_def)
qed

lemma window_prefix:
  assumes "e < n"
  shows "take (e + 1 - s) (drop s (take n candles)) = take (e + 1 - s) (drop s candles)"
  using assms by (simp add: drop_take min_absorb1)

lemma metrics_prefix:
  assumes "s \<le> e" "e < n"
  shows "metrics_of (take n candles) s e d atr = metrics_of candles s e d atr"
proof -
  have "displacement_metrics (take n candles) s e d atr = displacement_metrics candles s e d atr"
    unfolding displacement_metrics_def Let_def window_prefix [OF assms(2)] using assms by simp
  then show ?thesis by (simp add: metrics_of_def)
qed

section \<open>The gaps of a leg, without the index\<close>

text \<open>The gap has the direction of the leg, was confirmed by its end, and its candles lie within its reach.\<close>

definition gap_of_leg ::
  "candle list \<Rightarrow> displacement_direction \<Rightarrow> nat \<Rightarrow> nat \<Rightarrow> utc_time \<Rightarrow> gap_zone \<Rightarrow> bool" where
  "gap_of_leg candles direction s e end_close z \<longleftrightarrow>
     gz_type z = FVG \<and> gz_direction z = required_gap direction \<and> gz_confirmed_at z \<le> end_close
     \<and> (\<forall>t\<in>set (gz_source_timestamps z). \<exists>i<length candles.
          c_timestamp (candles ! i) = t \<and> int s - 2 \<le> int i \<and> i \<le> e)"

definition sources_known :: "candle list \<Rightarrow> gap_zone \<Rightarrow> bool" where
  "sources_known candles z \<longleftrightarrow> set (gz_source_timestamps z) \<subseteq> c_timestamp ` set candles"

lemma source_indices:
  assumes "chronological candles" "sources_known candles z"
  obtains js where "map_result (time_index candles) (gz_source_timestamps z) = Inr js"
    "list_all2 (\<lambda>t i. i < length candles \<and> c_timestamp (candles ! i) = t) (gz_source_timestamps z) js"
proof -
  have "\<exists>js. map_result (time_index candles) (gz_source_timestamps z) = Inr js"
    unfolding map_result_returns_iff using assms time_index_exists by (auto simp: sources_known_def)
  then obtain js where js: "map_result (time_index candles) (gz_source_timestamps z) = Inr js" by blast
  then have "list_all2 (\<lambda>t i. i < length candles \<and> c_timestamp (candles ! i) = t) (gz_source_timestamps z) js"
    by (simp add: map_result_Inr time_index_Inr [OF assms(1)])
  with js that show thesis by blast
qed

lemma list_all2_ball:
  assumes "list_all2 R xs ys"
  shows "(\<forall>y\<in>set ys. Q y) \<longleftrightarrow> (\<forall>i<length xs. Q (ys ! i))"
  using list_all2_lengthD [OF assms] by (simp add: all_set_conv_all_nth)

lemma source_indices_all:
  assumes "chronological candles"
    "list_all2 (\<lambda>t i. i < length candles \<and> c_timestamp (candles ! i) = t) ts js"
  shows "(\<forall>i\<in>set js. Q i) \<longleftrightarrow> (\<forall>t\<in>set ts. \<exists>i<length candles. c_timestamp (candles ! i) = t \<and> Q i)"
proof -
  have "Q (js ! k) \<longleftrightarrow> (\<exists>i<length candles. c_timestamp (candles ! i) = ts ! k \<and> Q i)" if "k < length ts" for k
  proof -
    have js: "js ! k < length candles" "c_timestamp (candles ! (js ! k)) = ts ! k"
      using list_all2_nthD [OF assms(2) that] by blast+
    then have "i = js ! k" if "i < length candles" "c_timestamp (candles ! i) = ts ! k" for i
      using that chronological_inj [OF assms(1) that(1) js(1)] by simp
    then show ?thesis using js by metis
  qed
  then show ?thesis unfolding list_all2_ball [OF assms(2)] by (simp add: all_set_conv_all_nth)
qed

lemma match_gap_eq:
  assumes "chronological candles" "sources_known candles z"
  shows "match_gap candles d s e t z ms = Inr (if gap_of_leg candles d s e t z then ms @ [z] else ms)"
proof -
  obtain js where js: "map_result (time_index candles) (gz_source_timestamps z) = Inr js"
      "list_all2 (\<lambda>t i. i < length candles \<and> c_timestamp (candles ! i) = t) (gz_source_timestamps z) js"
    using source_indices [OF assms] .
  note all = source_indices_all [OF assms(1) js(2), of "\<lambda>i. int s - 2 \<le> int i \<and> i \<le> e"]
  show ?thesis
    using all by (auto simp: match_gap_def js(1) gap_of_leg_def list_all_iff)
qed

lemma match_gaps_loop:
  assumes "chronological candles" "\<forall>z\<in>set zones. sources_known candles z"
  shows "for_each (match_gap candles d s e t) zones ms = Inr (ms @ filter (gap_of_leg candles d s e t) zones)"
  using assms(2) by (induction zones arbitrary: ms) (simp_all add: match_gap_eq [OF assms(1)])

lemma sort_key_ids: "map gz_zone_id (sort_key gap_key zs) = map snd (sort (map gap_key zs))"
proof -
  have "map gap_key (sort_key gap_key zs) = sort (map gap_key zs)"
    by (rule properties_for_sort [symmetric]) simp_all
  moreover have "snd \<circ> gap_key = gz_zone_id" by (auto simp: gap_key_def)
  ultimately show ?thesis by (metis map_map)
qed

definition leg_gaps ::
  "gap_zone list \<Rightarrow> candle list \<Rightarrow> displacement_direction \<Rightarrow> nat \<Rightarrow> nat \<Rightarrow> utc_time \<Rightarrow> string list" where
  "leg_gaps zones candles d s e t = map gz_zone_id (sort_key gap_key (filter (gap_of_leg candles d s e t) zones))"

lemma matching_fvgs_eq:
  assumes "chronological candles" "\<forall>z\<in>set zones. sources_known candles z"
  shows "matching_fvgs zones candles d s e t = Inr (leg_gaps zones candles d s e t)"
  by (simp add: matching_fvgs_def match_gaps_loop [OF assms] leg_gaps_def)

lemma leg_gaps_cong:
  assumes "mset (filter (gap_of_leg candles d s e t) zs) = mset (filter (gap_of_leg candles d s e t) zones)"
  shows "leg_gaps zs candles d s e t = leg_gaps zones candles d s e t"
proof -
  have "mset (map gap_key (filter (gap_of_leg candles d s e t) zs))
      = mset (map gap_key (filter (gap_of_leg candles d s e t) zones))"
    using assms by (simp only: mset_map)
  then have "sort (map gap_key (filter (gap_of_leg candles d s e t) zs))
      = sort (map gap_key (filter (gap_of_leg candles d s e t) zones))"
    by (metis mset_sort properties_for_sort sorted_sort)
  then show ?thesis by (simp add: leg_gaps_def sort_key_ids)
qed

text \<open>The index finds them: every gap is filed under its last source, so none in reach is missed or repeated.\<close>

definition last_source :: "candle list \<Rightarrow> gap_zone \<Rightarrow> int" where
  "last_source candles z =
     (case map_result (time_index candles) (gz_source_timestamps z) of
        Inr js \<Rightarrow> int (Max (set js)) | Inl _ \<Rightarrow> 0)"

lemma index_gaps_loop:
  assumes "chronological candles" "\<forall>z\<in>set zones. sources_known candles z"
  shows "for_each (index_gap candles) zones (m, free) = Inr
    (\<lambda>(d, i). m (d, i) @ filter (\<lambda>z. gz_type z = FVG \<and> gz_source_timestamps z \<noteq> []
        \<and> gz_direction z = d \<and> last_source candles z = i) zones,
     free @ filter (\<lambda>z. gz_type z = FVG \<and> gz_source_timestamps z = []) zones)"
  using assms(2)
proof (induction zones arbitrary: m free)
  case (Cons z zones)
  obtain js where js: "map_result (time_index candles) (gz_source_timestamps z) = Inr js"
      "list_all2 (\<lambda>t i. i < length candles \<and> c_timestamp (candles ! i) = t) (gz_source_timestamps z) js"
    using source_indices [OF assms(1)] Cons.prems by force
  have empty: "js = [] \<longleftrightarrow> gz_source_timestamps z = []" using js(2) by auto
  have last: "last_source candles z = int (Max (set js))" by (simp add: last_source_def js(1))
  have "index_gap candles z (m, free) = Inr
    (\<lambda>(d, i). m (d, i) @ filter (\<lambda>z. gz_type z = FVG \<and> gz_source_timestamps z \<noteq> []
        \<and> gz_direction z = d \<and> last_source candles z = i) [z],
     free @ filter (\<lambda>z. gz_type z = FVG \<and> gz_source_timestamps z = []) [z])"
    using empty last by (auto simp: index_gap_def js(1) Let_def fun_eq_iff)
  then show ?case
    using Cons.prems by (simp add: Cons.IH fun_eq_iff del: filter.simps) (auto simp: fun_eq_iff)
qed (auto simp: fun_eq_iff)

lemma filter_by_key:
  "mset (concat (map (\<lambda>i. filter (\<lambda>z. P z \<and> k z = i) zs) [a..b])) = mset (filter (\<lambda>z. P z \<and> a \<le> k z \<and> k z \<le> b) zs)"
  for a b :: int
proof (induction zs)
  case (Cons z zs)
  have "mset (concat (map (\<lambda>i. filter (\<lambda>z. P z \<and> k z = i) (z # zs)) ks))
      = (if P z then replicate_mset (count_list ks (k z)) z else {#})
        + mset (concat (map (\<lambda>i. filter (\<lambda>z. P z \<and> k z = i) zs) ks))" for ks :: "int list"
    by (induction ks) auto
  moreover have "count_list [a..b] (k z) = (if a \<le> k z \<and> k z \<le> b then 1 else 0)"
  proof -
    have "count_list xs x = (if x \<in> set xs then 1 else 0)" if "distinct xs" for xs and x :: int
      using that by (induction xs) auto
    then show ?thesis by simp
  qed
  ultimately show ?case using Cons.IH by auto
qed simp

lemma mset_filter_split:
  "\<forall>z\<in>set zs. L z \<longrightarrow> (A z \<and> \<not> B z) \<or> (B z \<and> \<not> A z) \<Longrightarrow>
    filter_mset L (mset (filter A zs)) + filter_mset L (mset (filter B zs)) = mset (filter L zs)"
  by (induction zs) auto

lemma gaps_in_reach_complete:
  assumes "chronological candles" "\<forall>z\<in>set zones. sources_known candles z"
    and "for_each (index_gap candles) zones (\<lambda>_. [], []) = Inr index"
  shows "leg_gaps (gaps_in_reach index d s e) candles d s e t = leg_gaps zones candles d s e t"
    and "\<forall>z\<in>set (gaps_in_reach index d s e). sources_known candles z"
proof -
  let ?P = "\<lambda>z. gz_type z = FVG \<and> gz_source_timestamps z \<noteq> [] \<and> gz_direction z = required_gap d"
  let ?free = "\<lambda>z. gz_type z = FVG \<and> gz_source_timestamps z = []"
  let ?leg = "gap_of_leg candles d s e t"
  have index: "gaps_in_reach index d s e = filter ?free zones
      @ concat (map (\<lambda>i. filter (\<lambda>z. ?P z \<and> last_source candles z = i) zones) [int s - 2..int e])"
    using assms(3) unfolding index_gaps_loop [OF assms(1,2)] by (auto simp: gaps_in_reach_def conj_assoc)
  show "\<forall>z\<in>set (gaps_in_reach index d s e). sources_known candles z"
    using assms(2) by (auto simp: index)
  have reach: "int s - 2 \<le> last_source candles z \<and> last_source candles z \<le> int e"
    if "?leg z" "z \<in> set zones" "gz_source_timestamps z \<noteq> []" for z
  proof -
    obtain js where js: "map_result (time_index candles) (gz_source_timestamps z) = Inr js"
        "list_all2 (\<lambda>t i. i < length candles \<and> c_timestamp (candles ! i) = t) (gz_source_timestamps z) js"
      using source_indices [OF assms(1)] assms(2) \<open>z \<in> set zones\<close> by force
    have "\<forall>i\<in>set js. int s - 2 \<le> int i \<and> i \<le> e"
      unfolding source_indices_all [OF assms(1) js(2)] using \<open>?leg z\<close> by (simp add: gap_of_leg_def)
    moreover have "Max (set js) \<in> set js" using js(2) that(3) by (intro Max_in) auto
    ultimately show ?thesis by (simp add: last_source_def js(1))
  qed
  have "mset (filter ?leg (gaps_in_reach index d s e))
      = filter_mset ?leg (mset (filter ?free zones))
        + filter_mset ?leg (mset (filter (\<lambda>z. ?P z \<and> int s - 2 \<le> last_source candles z \<and> last_source candles z \<le> int e) zones))"
    unfolding index filter_append mset_append filter_by_key [symmetric] by (simp only: mset_filter)
  also have "\<dots> = mset (filter ?leg zones)"
  proof -
    have leg: "gz_type z = FVG \<and> gz_direction z = required_gap d" if "?leg z" for z
      using that by (simp add: gap_of_leg_def)
    show ?thesis by (rule mset_filter_split) (use leg reach in blast)
  qed
  finally show "leg_gaps (gaps_in_reach index d s e) candles d s e t = leg_gaps zones candles d s e t"
    by (rule leg_gaps_cong)
qed

section \<open>The outcome of an event\<close>

text \<open>Why an end bar does not qualify, over all gaps; none is what the engine looks for.\<close>

definition weaknesses ::
  "displacement_config \<Rightarrow> timeframe \<Rightarrow> candle list \<Rightarrow> gap_zone list \<Rightarrow> displacement_direction \<Rightarrow> nat \<Rightarrow> nat
     \<Rightarrow> displacement_reason list" where
  "weaknesses cfg tf candles zones d s e =
     failure_reasons (metrics_of candles s e d (atr_baseline_at cfg (true_ranges candles) s))
       (leg_gaps zones candles d s e (c_timestamp (candles ! e) + timeframe_duration tf)) cfg"

abbreviation all_gaps :: "gap_zone list \<Rightarrow> displacement_direction \<Rightarrow> nat \<Rightarrow> nat \<Rightarrow> gap_zone list" where
  "all_gaps zones \<equiv> (\<lambda>_ _ _. zones)"

lemma evaluate_end_eq:
  assumes "chronological candles" "0 < atr"
    "\<forall>z\<in>set (gaps e). sources_known candles z"
    "leg_gaps (gaps e) candles d s e (c_timestamp (candles ! e) + timeframe_duration tf)
      = leg_gaps zones candles d s e (c_timestamp (candles ! e) + timeframe_duration tf)"
  shows "evaluate_end cfg tf candles gaps d s atr e =
    Inr (metrics_of candles s e d atr, leg_gaps zones candles d s e (c_timestamp (candles ! e) + timeframe_duration tf),
      failure_reasons (metrics_of candles s e d atr)
        (leg_gaps zones candles d s e (c_timestamp (candles ! e) + timeframe_duration tf)) cfg)"
  by (simp add: evaluate_end_def displacement_metrics_eq [OF assms(2)] matching_fvgs_eq [OF assms(1,3)] assms(4))

lemma qualify_loop_eq:
  assumes "\<forall>e\<in>set es. evaluate e = Inr (m e, g e, r e)"
  shows "qualify_loop evaluate es latest =
    Inr (case find (\<lambda>e. r e = []) es of
           Some e \<Rightarrow> (Some e, Some (m e, g e, r e))
         | None \<Rightarrow> (None, if es = [] then latest else Some (m (last es), g (last es), r (last es))))"
  using assms by (induction es arbitrary: latest) (auto split: option.split)

lemma indexed_gaps_same:
  assumes "chronological candles" "\<forall>z\<in>set zones. sources_known candles z"
    and "for_each (index_gap candles) zones (\<lambda>_. [], []) = Inr index"
  shows "displacement_of cfg tf candles trs (gaps_in_reach index) event = displacement_of cfg tf candles trs (all_gaps zones) event"
proof -
  have "evaluate_end cfg tf candles (gaps_in_reach index d s) d s atr = evaluate_end cfg tf candles (\<lambda>_. zones) d s atr"
    for d s atr
    using gaps_in_reach_complete [OF assms]
    by (intro ext) (simp add: evaluate_end_def matching_fvgs_eq [OF assms(1)] assms(2))
  note same = this
  show ?thesis unfolding displacement_of_def Let_def same ..
qed

definition leg_at ::
  "displacement_config \<Rightarrow> timeframe \<Rightarrow> candle list \<Rightarrow> gap_zone list \<Rightarrow> structure_event \<Rightarrow> nat \<Rightarrow> nat \<Rightarrow> displacement_leg" where
  "leg_at cfg tf candles zones event s e =
     \<lparr>dl_leg_id = ''LEG:'' @ structure_event_reference event @ '':'' @ isoformat (c_timestamp (candles ! e)),
      dl_status = DISPLACEMENT_QUALIFIED, dl_direction = event_direction event,
      dl_start_bar_index = s, dl_end_bar_index = e,
      dl_start_timestamp = c_timestamp (candles ! s), dl_end_timestamp = c_timestamp (candles ! e),
      dl_timestamp = c_timestamp (candles ! e), dl_confirmed_at = c_timestamp (candles ! e) + timeframe_duration tf,
      dl_metrics = metrics_of candles s e (event_direction event) (atr_baseline_at cfg (true_ranges candles) s),
      dl_associated_fvg =
        leg_gaps zones candles (event_direction event) s e (c_timestamp (candles ! e) + timeframe_duration tf),
      dl_structure_break = structure_event_reference event\<rparr>"

text \<open>An event that the engine measures, and the end bars it looks at.\<close>

definition measured :: "displacement_config \<Rightarrow> candle list \<Rightarrow> structure_event \<Rightarrow> nat \<Rightarrow> bool" where
  "measured cfg candles event s \<longleftrightarrow>
     se_type event \<in> {BOS, MSS} \<and> dc_atr_period cfg \<le> s \<and> 0 < atr_baseline_at cfg (true_ranges candles) s"

definition end_bars :: "displacement_config \<Rightarrow> candle list \<Rightarrow> nat \<Rightarrow> nat list" where
  "end_bars cfg candles s = [s..<min (s + dc_max_bars cfg) (length candles)]"

lemma displacement_of_cases:
  assumes "chronological candles" "\<forall>z\<in>set zones. sources_known candles z" "displacement_config_valid cfg"
    and s: "s < length candles" "c_timestamp (candles ! s) = se_timestamp event"
  shows "\<not> measured cfg candles event s \<Longrightarrow>
      \<exists>v. displacement_of cfg tf candles (true_ranges candles) (all_gaps zones) event = Inr (EVALUATION v)
        \<and> dv_status v = DISPLACEMENT_REJECTED"
    and "measured cfg candles event s \<Longrightarrow>
      (case find (\<lambda>e. weaknesses cfg tf candles zones (event_direction event) s e = []) (end_bars cfg candles s) of
         Some e \<Rightarrow> displacement_of cfg tf candles (true_ranges candles) (all_gaps zones) event
           = Inr (LEG (leg_at cfg tf candles zones event s e))
       | None \<Rightarrow> \<exists>v. displacement_of cfg tf candles (true_ranges candles) (all_gaps zones) event = Inr (EVALUATION v)
           \<and> dv_status v = (if s + dc_max_bars cfg \<le> length candles then DISPLACEMENT_EXPIRED else DISPLACEMENT_CANDIDATE)
           \<and> dv_reason_codes v \<noteq> [])"
proof -
  have index: "time_index candles (se_timestamp event) = Inr s"
    using s by (simp add: time_index_Inr [OF assms(1)])
  show "\<exists>v. displacement_of cfg tf candles (true_ranges candles) (all_gaps zones) event = Inr (EVALUATION v)
      \<and> dv_status v = DISPLACEMENT_REJECTED" if "\<not> measured cfg candles event s"
    using that unfolding displacement_of_def index bind_result_simps Let_def
    by (auto simp: measured_def rejected_evaluation_def make_displacement_evaluation_def)
  assume m: "measured cfg candles event s"
  let ?d = "event_direction event" and ?atr = "atr_baseline_at cfg (true_ranges candles) s"
  let ?close = "\<lambda>e. c_timestamp (candles ! e) + timeframe_duration tf"
  have max: "1 \<le> dc_max_bars cfg" using assms(3) by (simp add: displacement_config_valid_def)
  have ends: "[s..<min (s + dc_max_bars cfg - 1) (length candles - 1) + 1] = end_bars cfg candles s"
    "end_bars cfg candles s \<noteq> []"
  proof -
    have "min (s + dc_max_bars cfg - 1) (length candles - 1) + 1 = min (s + dc_max_bars cfg) (length candles)"
      using max s(1) by linarith
    then show "[s..<min (s + dc_max_bars cfg - 1) (length candles - 1) + 1] = end_bars cfg candles s"
      by (simp only: end_bars_def)
    show "end_bars cfg candles s \<noteq> []" using max s(1) by (auto simp: end_bars_def min_def)
  qed
  have eval: "\<forall>e\<in>set (end_bars cfg candles s). evaluate_end cfg tf candles (\<lambda>_. zones) ?d s ?atr e =
      Inr (metrics_of candles s e ?d ?atr, leg_gaps zones candles ?d s e (?close e), weaknesses cfg tf candles zones ?d s e)"
    using m unfolding weaknesses_def
    by (intro ballI evaluate_end_eq [OF assms(1)]) (simp_all add: measured_def assms(2))
  have guards: "(se_type event \<notin> {BOS, MSS}) = False" "(int s - int (dc_atr_period cfg) < 0) = False" "(?atr \<le> 0) = False"
    using m by (auto simp: measured_def)
  have dur: "0 < timeframe_duration tf" by (cases tf) (simp_all add: minutes_def seconds_def)
  note unfolded = displacement_of_def index bind_result_simps Let_def guards if_False ends(1) qualify_loop_eq [OF eval]
  show "case find (\<lambda>e. weaknesses cfg tf candles zones ?d s e = []) (end_bars cfg candles s) of
         Some e \<Rightarrow> displacement_of cfg tf candles (true_ranges candles) (all_gaps zones) event
           = Inr (LEG (leg_at cfg tf candles zones event s e))
       | None \<Rightarrow> \<exists>v. displacement_of cfg tf candles (true_ranges candles) (all_gaps zones) event = Inr (EVALUATION v)
           \<and> dv_status v = (if s + dc_max_bars cfg \<le> length candles then DISPLACEMENT_EXPIRED else DISPLACEMENT_CANDIDATE)
           \<and> dv_reason_codes v \<noteq> []"
  proof (cases "find (\<lambda>e. weaknesses cfg tf candles zones ?d s e = []) (end_bars cfg candles s)")
    case None
    have "weaknesses cfg tf candles zones ?d s (last (end_bars cfg candles s)) \<noteq> []"
      using None ends(2) by (simp add: find_None_iff)
    then show ?thesis
      using ends(2) max s(1) unfolding None unfolded option.case prod.case
      by (auto simp: make_displacement_evaluation_def min_def)
  next
    case (Some e)
    then have "s \<le> e" by (auto dest!: find_SomeD simp: end_bars_def)
    then show ?thesis
      unfolding Some unfolded option.case prod.case
      using dur by (simp add: qualified_leg_def make_displacement_leg_def leg_at_def Let_def)
  qed
qed

section \<open>The analysis\<close>

definition events_fit :: "candle list \<Rightarrow> timeframe \<Rightarrow> structure_event list \<Rightarrow> bool" where
  "events_fit candles tf events \<longleftrightarrow>
     sorted (map se_confirmed_at events)
     \<and> (\<forall>e\<in>set events. se_timestamp e \<in> c_timestamp ` set candles
          \<and> se_confirmed_at e = se_timestamp e + timeframe_duration tf)"

definition gaps_fit :: "candle list \<Rightarrow> timeframe \<Rightarrow> gap_zone list \<Rightarrow> bool" where
  "gaps_fit candles tf zones \<longleftrightarrow>
     (\<forall>z\<in>set zones. gz_confirmed_at z \<in> (\<lambda>c. c_timestamp c + timeframe_duration tf) ` set candles
        \<and> sources_known candles z)"

lemma validate_displacement_Inr:
  assumes "displacement_config_valid cfg"
  shows "validate_displacement_inputs candles tf events zones cfg = Inr u \<longleftrightarrow>
    (\<forall>c\<in>set candles. tick_multiple (dc_tick_size cfg) (c_open c) \<and> tick_multiple (dc_tick_size cfg) (c_high c)
       \<and> tick_multiple (dc_tick_size cfg) (c_low c) \<and> tick_multiple (dc_tick_size cfg) (c_close c))
    \<and> spaced tf candles \<and> events_fit candles tf events \<and> gaps_fit candles tf zones"
proof -
  have "0 < dc_tick_size cfg" using assms by (simp add: displacement_config_valid_def)
  moreover have "(\<forall>p\<in>set (adjacent events). check_event_order p = Inr ())
      \<longleftrightarrow> sorted (map se_confirmed_at events)"
    unfolding adjacent_sorted_iff by (simp add: check_event_order_def split_beta not_less)
  ultimately show ?thesis
    by (auto simp: validate_displacement_inputs_def bind_result_eq_Inr check_all_Inr validate_tick_candles_Inr
        events_fit_def gaps_fit_def check_event_candle_def check_gap_candles_def sources_known_def list_ex_iff)
qed

lemma event_index:
  assumes "events_fit candles tf events" "event \<in> set events"
  obtains s where "s < length candles" "c_timestamp (candles ! s) = se_timestamp event"
proof -
  have "se_timestamp event \<in> c_timestamp ` set candles" using assms by (simp add: events_fit_def)
  then obtain c where "c \<in> set candles" "c_timestamp c = se_timestamp event" by auto
  then show thesis using that by (metis in_set_conv_nth)
qed

lemma outcomes_exist:
  assumes "chronological candles" "\<forall>z\<in>set zones. sources_known candles z" "displacement_config_valid cfg"
    "events_fit candles tf events"
  shows "\<exists>outcomes. map_result (displacement_of cfg tf candles (true_ranges candles) (all_gaps zones)) events = Inr outcomes"
  unfolding map_result_returns_iff
proof
  fix event assume "event \<in> set events"
  then obtain s where s: "s < length candles" "c_timestamp (candles ! s) = se_timestamp event"
    using event_index [OF assms(4)] by blast
  show "\<exists>y. displacement_of cfg tf candles (true_ranges candles) (all_gaps zones) event = Inr y"
    using displacement_of_cases [OF assms(1-3) s, of tf]
    by (cases "measured cfg candles event s") (auto split: option.splits)
qed

lemma analyze_displacement_eq:
  assumes "displacement_config_valid cfg"
  shows "analyze_displacement candles tf events cfg zones =
    bind_result (validate_displacement_inputs candles tf events zones cfg) (\<lambda>_.
    bind_result (map_result (displacement_of cfg tf candles (true_ranges candles) (all_gaps zones)) events) (\<lambda>outcomes.
      Inr \<lparr>da_timeframe = tf, da_config = cfg, da_candle_count = length candles,
           da_data_cutoff_at = data_cutoff candles tf, da_legs = legs_of outcomes,
           da_evaluations = evaluations_of outcomes\<rparr>))"
proof (cases "validate_displacement_inputs candles tf events zones cfg")
  case (Inr u)
  then have fit: "chronological candles" "\<forall>z\<in>set zones. sources_known candles z"
    using spaced_chronological by (auto simp: validate_displacement_Inr [OF assms] gaps_fit_def)
  obtain index where index: "for_each (index_gap candles) zones (\<lambda>_. [], []) = Inr index"
    using index_gaps_loop [OF fit] by blast
  have "displacement_of cfg tf candles (true_ranges candles) (gaps_in_reach index)
      = displacement_of cfg tf candles (true_ranges candles) (all_gaps zones)"
    by (rule ext) (rule indexed_gaps_same [OF fit index])
  then show ?thesis by (simp add: analyze_displacement_def Inr index)
qed (simp add: analyze_displacement_def)

lemma analyze_displacement_returns:
  assumes "displacement_config_valid cfg"
  shows "(\<exists>a. analyze_displacement candles tf events cfg zones = Inr a)
    \<longleftrightarrow> validate_displacement_inputs candles tf events zones cfg = Inr ()"
proof
  assume valid: "validate_displacement_inputs candles tf events zones cfg = Inr ()"
  then have "chronological candles" "\<forall>z\<in>set zones. sources_known candles z" "events_fit candles tf events"
    using spaced_chronological by (auto simp: validate_displacement_Inr [OF assms] gaps_fit_def)
  then obtain outcomes where "map_result (displacement_of cfg tf candles (true_ranges candles) (all_gaps zones)) events = Inr outcomes"
    using outcomes_exist [OF _ _ assms] by blast
  then show "\<exists>a. analyze_displacement candles tf events cfg zones = Inr a"
    using valid by (simp add: analyze_displacement_eq [OF assms])
qed (auto simp: analyze_displacement_eq [OF assms] bind_result_eq_Inr)

lemma failure_reasons_none:
  "failure_reasons m gaps cfg = [] \<longleftrightarrow>
    0 < sm_net_move m \<and> dc_net_atr_ratio cfg \<le> sm_net_atr_ratio m \<and> dc_body_atr_ratio cfg \<le> sm_body_atr_ratio m
    \<and> dc_min_body_efficiency cfg \<le> sm_body_efficiency m \<and> sm_adverse_atr_ratio m \<le> dc_max_adverse_atr_ratio cfg
    \<and> (dc_require_fvg cfg \<longrightarrow> gaps \<noteq> [])"
  by (auto simp: failure_reasons_def)

text \<open>An end bar at which the move since the break is a displacement.\<close>

definition strong_end ::
  "displacement_config \<Rightarrow> timeframe \<Rightarrow> candle list \<Rightarrow> gap_zone list \<Rightarrow> structure_event \<Rightarrow> nat \<Rightarrow> nat \<Rightarrow> bool" where
  "strong_end cfg tf candles zones event s e \<longleftrightarrow>
     (let m = dl_metrics (leg_at cfg tf candles zones event s e)
      in 0 < sm_net_move m \<and> dc_net_atr_ratio cfg \<le> sm_net_atr_ratio m \<and> dc_body_atr_ratio cfg \<le> sm_body_atr_ratio m
         \<and> dc_min_body_efficiency cfg \<le> sm_body_efficiency m \<and> sm_adverse_atr_ratio m \<le> dc_max_adverse_atr_ratio cfg
         \<and> (dc_require_fvg cfg \<longrightarrow>
              (\<exists>z\<in>set zones. gap_of_leg candles (event_direction event) s e (c_timestamp (candles ! e) + timeframe_duration tf) z)))"

lemma strong_end_iff: "weaknesses cfg tf candles zones (event_direction event) s e = [] \<longleftrightarrow> strong_end cfg tf candles zones event s e"
proof -
  have "leg_gaps zones candles d s e t \<noteq> [] \<longleftrightarrow> (\<exists>z\<in>set zones. gap_of_leg candles d s e t z)" for d t
  proof -
    have "sort_key gap_key zs = [] \<longleftrightarrow> zs = []" for zs by (metis set_empty set_sort)
    then show ?thesis by (simp add: leg_gaps_def filter_empty_conv)
  qed
  then show ?thesis by (simp add: weaknesses_def failure_reasons_none strong_end_def leg_at_def Let_def)
qed

lemma find_snoc: "find P (xs @ [x]) = (case find P xs of Some y \<Rightarrow> Some y | None \<Rightarrow> if P x then Some x else None)"
  by (induction xs) auto

lemma find_upt_iff: "find P [s..<k] = Some e \<longleftrightarrow> s \<le> e \<and> e < k \<and> P e \<and> (\<forall>j. s \<le> j \<and> j < e \<longrightarrow> \<not> P j)"
proof (induction k arbitrary: e)
  case (Suc k)
  show ?case
  proof (cases "find P [s..<k]")
    case None
    then have "\<forall>j. s \<le> j \<and> j < k \<longrightarrow> \<not> P j" by (auto simp: find_None_iff)
    then show ?thesis using None by (auto simp: find_snoc less_Suc_eq)
  next
    case (Some x)
    then have x: "s \<le> x" "x < k" "P x" "\<forall>j. s \<le> j \<and> j < x \<longrightarrow> \<not> P j" using Suc.IH by blast+
    then have "x = e \<longleftrightarrow> s \<le> e \<and> e < Suc k \<and> P e \<and> (\<forall>j. s \<le> j \<and> j < e \<longrightarrow> \<not> P j)"
      by (metis less_SucI linorder_neqE_nat)
    then show ?thesis using Some x(1,2) by (simp add: find_snoc)
  qed
qed simp

section \<open>The legs of an analysis\<close>

definition legs_found ::
  "displacement_config \<Rightarrow> timeframe \<Rightarrow> candle list \<Rightarrow> gap_zone list \<Rightarrow> structure_event \<Rightarrow> nat \<Rightarrow> displacement_leg list" where
  "legs_found cfg tf candles zones event s =
     (if measured cfg candles event s
      then case find (\<lambda>e. weaknesses cfg tf candles zones (event_direction event) s e = []) (end_bars cfg candles s) of
             Some e \<Rightarrow> [leg_at cfg tf candles zones event s e] | None \<Rightarrow> []
      else [])"

lemma legs_found_mem:
  "l \<in> set (legs_found cfg tf candles zones event s) \<longleftrightarrow>
    measured cfg candles event s \<and>
    (\<exists>e. find (\<lambda>e. weaknesses cfg tf candles zones (event_direction event) s e = []) (end_bars cfg candles s) = Some e
      \<and> l = leg_at cfg tf candles zones event s e)"
  unfolding legs_found_def
  by (cases "measured cfg candles event s";
      cases "find (\<lambda>e. weaknesses cfg tf candles zones (event_direction event) s e = []) (end_bars cfg candles s)")
    (simp_all only: if_True if_False option.case list.set, simp_all)

definition start_of :: "candle list \<Rightarrow> structure_event \<Rightarrow> nat" where
  "start_of candles event = (case time_index candles (se_timestamp event) of Inr s \<Rightarrow> s | Inl _ \<Rightarrow> 0)"

lemma start_of_index:
  assumes "chronological candles" "s < length candles" "c_timestamp (candles ! s) = se_timestamp event"
  shows "start_of candles event = s"
proof -
  have "time_index candles (se_timestamp event) = Inr s" using assms by (simp add: time_index_Inr)
  then show ?thesis by (simp add: start_of_def)
qed

lemma start_of_event:
  assumes "chronological candles" "events_fit candles tf events" "event \<in> set events"
  shows "start_of candles event < length candles" "c_timestamp (candles ! start_of candles event) = se_timestamp event"
proof -
  obtain s where s: "s < length candles" "c_timestamp (candles ! s) = se_timestamp event"
    using event_index [OF assms(2,3)] .
  then have "start_of candles event = s" using start_of_index assms(1) by blast
  with s show "start_of candles event < length candles" "c_timestamp (candles ! start_of candles event) = se_timestamp event"
    by simp_all
qed

lemma outcome_legs:
  assumes "chronological candles" "\<forall>z\<in>set zones. sources_known candles z" "displacement_config_valid cfg"
    "s < length candles" "c_timestamp (candles ! s) = se_timestamp event"
    "displacement_of cfg tf candles (true_ranges candles) (all_gaps zones) event = Inr y"
  shows "(case y of LEG l \<Rightarrow> [l] | EVALUATION _ \<Rightarrow> []) = legs_found cfg tf candles zones event s"
  using displacement_of_cases [OF assms(1-5), of tf] assms(6)
  by (cases "measured cfg candles event s") (auto simp: legs_found_def split: option.splits)

lemma outcomes_legs:
  assumes "chronological candles" "\<forall>z\<in>set zones. sources_known candles z" "displacement_config_valid cfg"
    "events_fit candles tf events"
    "map_result (displacement_of cfg tf candles (true_ranges candles) (all_gaps zones)) events = Inr outcomes"
  shows "legs_of outcomes = concat (map (\<lambda>event. legs_found cfg tf candles zones event (start_of candles event)) events)"
proof -
  have "list_all2 (\<lambda>event y. displacement_of cfg tf candles (true_ranges candles) (all_gaps zones) event = Inr y) events outcomes"
    using assms(5) by (simp add: map_result_Inr)
  then have "map (\<lambda>y. case y of LEG l \<Rightarrow> [l] | EVALUATION _ \<Rightarrow> []) outcomes
      = map (\<lambda>event. legs_found cfg tf candles zones event (start_of candles event)) events"
    using outcome_legs [OF assms(1-3) start_of_event [OF assms(1,4)]]
    by - (rule nth_equalityI, auto simp: list_all2_conv_all_nth)
  then show ?thesis by (simp add: legs_of_def)
qed

lemma analyze_displacement_legs:
  assumes "displacement_config_valid cfg" "analyze_displacement candles tf events cfg zones = Inr a"
  shows "da_legs a = concat (map (\<lambda>event. legs_found cfg tf candles zones event (start_of candles event)) events)"
    and "chronological candles" "events_fit candles tf events" "gaps_fit candles tf zones"
proof -
  obtain outcomes where valid: "validate_displacement_inputs candles tf events zones cfg = Inr ()"
      "map_result (displacement_of cfg tf candles (true_ranges candles) (all_gaps zones)) events = Inr outcomes"
      "da_legs a = legs_of outcomes"
    using assms(2) by (auto simp: analyze_displacement_eq [OF assms(1)] bind_result_eq_Inr)
  then show fit: "chronological candles" "events_fit candles tf events" "gaps_fit candles tf zones"
    using spaced_chronological by (auto simp: validate_displacement_Inr [OF assms(1)])
  then show "da_legs a = concat (map (\<lambda>event. legs_found cfg tf candles zones event (start_of candles event)) events)"
    using outcomes_legs [OF _ _ assms(1) _ valid(2)] valid(3) by (auto simp: gaps_fit_def)
qed

section \<open>Legs of a prefix\<close>

lemma true_ranges_prefix: "take k (true_ranges (take n candles)) = take k (true_ranges candles)" if "k \<le> n"
  using that by (intro nth_equalityI) (auto simp: true_ranges_def true_range_def Let_def)

lemma baseline_prefix:
  assumes "s < n"
  shows "atr_baseline_at cfg (true_ranges (take n candles)) s = atr_baseline_at cfg (true_ranges candles) s"
proof -
  have "take (s - a) (drop a xs) = drop a (take s xs)" for a and xs :: "rat list" by (simp add: drop_take)
  then show ?thesis using true_ranges_prefix [of s n candles] assms by (simp add: atr_baseline_at_def Let_def)
qed

definition known_by :: "utc_time \<Rightarrow> gap_zone list \<Rightarrow> gap_zone list" where
  "known_by t zones = filter (\<lambda>z. gz_confirmed_at z \<le> t) zones"

lemma leg_gaps_prefix:
  assumes "e < n" "n \<le> length candles" "close \<le> t"
  shows "leg_gaps (known_by t zones) (take n candles) d s e close = leg_gaps zones candles d s e close"
proof -
  have "gap_of_leg (take n candles) d s e close z \<longleftrightarrow> gap_of_leg candles d s e close z" for z
  proof -
    have "(\<exists>i<length (take n candles). c_timestamp (take n candles ! i) = x \<and> int s - 2 \<le> int i \<and> i \<le> e)
        \<longleftrightarrow> (\<exists>i<length candles. c_timestamp (candles ! i) = x \<and> int s - 2 \<le> int i \<and> i \<le> e)" for x
      using assms(1,2) by (metis (no_types, lifting) length_take min_absorb2 nth_take order_le_less_trans order_less_le_trans)
    then show ?thesis by (simp add: gap_of_leg_def)
  qed
  moreover have "gap_of_leg candles d s e close z \<Longrightarrow> gz_confirmed_at z \<le> t" for z
    using assms(3) by (simp add: gap_of_leg_def)
  ultimately have "filter (gap_of_leg (take n candles) d s e close) (known_by t zones)
      = filter (gap_of_leg candles d s e close) zones"
    unfolding known_by_def filter_filter by (intro filter_cong) auto
  then show ?thesis by (simp add: leg_gaps_def)
qed

text \<open>The candles and gaps of an analysis, and what of them is known when candle \<open>n - 1\<close> closes.\<close>

definition cut_at ::
  "displacement_config \<Rightarrow> timeframe \<Rightarrow> candle list \<Rightarrow> gap_zone list \<Rightarrow> nat \<Rightarrow> utc_time \<Rightarrow> bool" where
  "cut_at cfg tf candles zones n cutoff \<longleftrightarrow>
     displacement_config_valid cfg \<and> chronological candles \<and> (\<forall>z\<in>set zones. sources_known candles z)
     \<and> (\<forall>z\<in>set (known_by cutoff zones). sources_known (take n candles) z) \<and> 0 < n \<and> n \<le> length candles
     \<and> cutoff = c_timestamp (candles ! (n - 1)) + timeframe_duration tf"

lemma cut_atD:
  assumes "cut_at cfg tf candles zones n cutoff"
  shows "displacement_config_valid cfg" "chronological candles" "\<forall>z\<in>set zones. sources_known candles z"
    "\<forall>z\<in>set (known_by cutoff zones). sources_known (take n candles) z" "0 < n" "n \<le> length candles"
    "cutoff = c_timestamp (candles ! (n - 1)) + timeframe_duration tf"
  using assms by (simp_all add: cut_at_def)

abbreviation outcome_at ::
  "displacement_config \<Rightarrow> timeframe \<Rightarrow> candle list \<Rightarrow> gap_zone list \<Rightarrow> structure_event \<Rightarrow> displacement_outcome result" where
  "outcome_at cfg tf candles zones \<equiv> displacement_of cfg tf candles (true_ranges candles) (all_gaps zones)"

lemma close_known:
  "cut_at cfg tf candles zones n cutoff \<Longrightarrow> e < length candles \<Longrightarrow> c_timestamp (candles ! e) + timeframe_duration tf \<le> cutoff \<longleftrightarrow> e < n"
  using chronological_less [of candles e "n - 1"] chronological_less [of candles "n - 1" e]
  by (cases e "n - 1" rule: linorder_cases) (auto simp: cut_at_def intro: less_imp_le)

lemma same_weaknesses:
  assumes cut: "cut_at cfg tf candles zones n cutoff" and "s \<le> e" "e < n"
  shows "weaknesses cfg tf (take n candles) (known_by cutoff zones) d s e = weaknesses cfg tf candles zones d s e"
proof -
  have close: "c_timestamp (candles ! e) + timeframe_duration tf \<le> cutoff" using close_known [OF cut] assms(3) cut_atD(6) [OF cut] by simp
  have "s < n" using assms by simp
  then show ?thesis
    using assms(3) by (simp add: weaknesses_def metrics_prefix [OF assms(2,3)] baseline_prefix
      leg_gaps_prefix [OF assms(3) cut_atD(6) [OF cut] close])
qed

lemma same_leg:
  assumes cut: "cut_at cfg tf candles zones n cutoff" and "s \<le> e" "e < n"
  shows "leg_at cfg tf (take n candles) (known_by cutoff zones) event s e = leg_at cfg tf candles zones event s e"
proof -
  have close: "c_timestamp (candles ! e) + timeframe_duration tf \<le> cutoff" using close_known [OF cut] assms(3) cut_atD(6) [OF cut] by simp
  have "s < n" using assms by simp
  then show ?thesis
    using assms(3) by (simp add: leg_at_def metrics_prefix [OF assms(2,3)] baseline_prefix
      leg_gaps_prefix [OF assms(3) cut_atD(6) [OF cut] close])
qed

text \<open>The legs of an event known at the cutoff are those confirmed by then; a later event has none by then.\<close>

lemma legs_found_prefix:
  assumes cut: "cut_at cfg tf candles zones n cutoff" and "s < n"
  shows "legs_found cfg tf (take n candles) (known_by cutoff zones) event s
    = filter (\<lambda>l. dl_confirmed_at l \<le> cutoff) (legs_found cfg tf candles zones event s)"
proof (cases "measured cfg candles event s")
  case False
  then have "\<not> measured cfg (take n candles) event s" using assms(2) by (simp add: measured_def baseline_prefix)
  then show ?thesis using False by (simp only: legs_found_def if_False filter.simps)
next
  case True
  let ?d = "event_direction event"
  let ?now = "find (\<lambda>e. weaknesses cfg tf candles zones ?d s e = []) (end_bars cfg candles s)"
  let ?before = "find (\<lambda>e. weaknesses cfg tf (take n candles) (known_by cutoff zones) ?d s e = [])
    (end_bars cfg (take n candles) s)"
  have measured: "measured cfg (take n candles) event s" using True assms(2) by (simp add: measured_def baseline_prefix)
  have ends: "e < length (take n candles) \<longleftrightarrow> e < length candles \<and> e < n" for e
    using cut_atD(6) [OF cut] by auto
  have found: "?before = Some e \<longleftrightarrow> ?now = Some e \<and> e < n" for e
  proof (cases "e < n")
    case True
    have "weaknesses cfg tf (take n candles) (known_by cutoff zones) ?d s j = weaknesses cfg tf candles zones ?d s j"
      if "s \<le> j" "j \<le> e" for j
      using same_weaknesses [OF cut that(1)] that True by simp
    then have "(s \<le> e \<and> weaknesses cfg tf (take n candles) (known_by cutoff zones) ?d s e = []
          \<and> (\<forall>j. s \<le> j \<and> j < e \<longrightarrow> weaknesses cfg tf (take n candles) (known_by cutoff zones) ?d s j \<noteq> []))
        \<longleftrightarrow> (s \<le> e \<and> weaknesses cfg tf candles zones ?d s e = []
          \<and> (\<forall>j. s \<le> j \<and> j < e \<longrightarrow> weaknesses cfg tf candles zones ?d s j \<noteq> []))"
      by (metis less_imp_le order_refl)
    then show ?thesis unfolding end_bars_def find_upt_iff min_less_iff_conj ends using True by blast
  qed (simp add: end_bars_def find_upt_iff)
  show ?thesis
  proof (cases ?now)
    case None
    then have none: "?before = None" using found by (cases ?before) auto
    show ?thesis by (simp only: legs_found_def True measured if_True None none option.case filter.simps)
  next
    case (Some e)
    then have e: "s \<le> e" "e < length candles" by (auto dest!: find_SomeD simp: end_bars_def)
    have confirmed: "dl_confirmed_at (leg_at cfg tf candles zones event s e) \<le> cutoff \<longleftrightarrow> e < n"
      using close_known [OF cut e(2)] by (simp add: leg_at_def)
    show ?thesis
    proof (cases "e < n")
      case True
      then have before: "?before = Some e" using found Some by blast
      have keep: "filter p [x] = [x]" if "p x" for p and x :: displacement_leg using that by simp
      show ?thesis
        unfolding legs_found_def if_P [OF measured] if_P [OF \<open>measured cfg candles event s\<close>] before Some option.case
          same_leg [OF cut e(1) True]
        by (rule keep [symmetric]) (use confirmed True in blast)
    next
      case False
      then have "?before \<noteq> Some x" for x using found [of x] Some by auto
      then have before: "?before = None" by (rule not_Some_eq [THEN iffD1, OF allI])
      show ?thesis
        unfolding legs_found_def if_P [OF measured] if_P [OF \<open>measured cfg candles event s\<close>] before Some option.case
        using confirmed False by simp
    qed
  qed
qed

lemma legs_found_later:
  assumes cut: "cut_at cfg tf candles zones n cutoff" and "\<not> s < n"
  shows "filter (\<lambda>l. dl_confirmed_at l \<le> cutoff) (legs_found cfg tf candles zones event s) = []"
proof -
  have "\<not> dl_confirmed_at (leg_at cfg tf candles zones event s e) \<le> cutoff" if "e \<in> set (end_bars cfg candles s)" for e
    using that close_known [OF cut, of e] assms(2) by (auto simp: end_bars_def leg_at_def)
  moreover have "\<exists>e\<in>set (end_bars cfg candles s). l = leg_at cfg tf candles zones event s e"
    if l: "l \<in> set (legs_found cfg tf candles zones event s)" for l
  proof -
    obtain e where "find (\<lambda>e. weaknesses cfg tf candles zones (event_direction event) s e = []) (end_bars cfg candles s) = Some e"
        "l = leg_at cfg tf candles zones event s e"
      using l unfolding legs_found_mem by blast
    then show ?thesis using find_SomeD by fast
  qed
  ultimately show ?thesis by (auto simp: filter_empty_conv)
qed

lemma concat_filter:
  "(\<And>x. x \<in> set xs \<Longrightarrow> (if p x then f x else []) = filter q (g x))
    \<Longrightarrow> concat (map f (filter p xs)) = filter q (concat (map g xs))"
proof (induction xs)
  case (Cons x xs)
  have "(if p x then f x else []) = filter q (g x)" using Cons.prems by simp
  moreover have "concat (map f (filter p xs)) = filter q (concat (map g xs))"
    by (rule Cons.IH) (use Cons.prems in simp)
  ultimately show ?case by (auto split: if_splits)
qed simp

section \<open>Properties\<close>

text \<open>
  C38: what a displacement leg is. The legs of an analysis are, for each break of structure or shift that is
  measured, the move to the earliest end bar at which it is strong enough, over all gaps and not only those
  the index finds: the net move is positive, every ratio to the mean range before the break reaches its
  threshold, and a gap of the move was confirmed by its end when one is required.
\<close>

theorem displacement_legs_exact:
  assumes "displacement_config_valid cfg" "analyze_displacement candles tf events cfg zones = Inr a"
  shows "l \<in> set (da_legs a) \<longleftrightarrow>
    (\<exists>event\<in>set events. \<exists>s e. s < length candles \<and> c_timestamp (candles ! s) = se_timestamp event
       \<and> measured cfg candles event s
       \<and> s \<le> e \<and> e < s + dc_max_bars cfg \<and> e < length candles
       \<and> strong_end cfg tf candles zones event s e
       \<and> (\<forall>j. s \<le> j \<and> j < e \<longrightarrow> \<not> strong_end cfg tf candles zones event s j)
       \<and> l = leg_at cfg tf candles zones event s e)"
proof -
  note a = analyze_displacement_legs [OF assms]
  have found: "l \<in> set (legs_found cfg tf candles zones event s) \<longleftrightarrow>
      measured cfg candles event s \<and> (\<exists>e. s \<le> e \<and> e < s + dc_max_bars cfg \<and> e < length candles
        \<and> strong_end cfg tf candles zones event s e
        \<and> (\<forall>j. s \<le> j \<and> j < e \<longrightarrow> \<not> strong_end cfg tf candles zones event s j)
        \<and> l = leg_at cfg tf candles zones event s e)" for event s
    unfolding legs_found_mem end_bars_def find_upt_iff strong_end_iff min_less_iff_conj by blast
  have start: "s < length candles \<and> c_timestamp (candles ! s) = se_timestamp event \<longleftrightarrow> s = start_of candles event"
    if "event \<in> set events" for event s
    using start_of_event [OF a(2,3) that] start_of_index [OF a(2)] by metis
  have "l \<in> set (da_legs a) \<longleftrightarrow> (\<exists>event\<in>set events. l \<in> set (legs_found cfg tf candles zones event (start_of candles event)))"
    by (simp add: a(1))
  also have "\<dots> \<longleftrightarrow> (\<exists>event\<in>set events. \<exists>s. (s < length candles \<and> c_timestamp (candles ! s) = se_timestamp event)
      \<and> l \<in> set (legs_found cfg tf candles zones event s))"
  proof (rule bex_cong [OF refl])
    fix event assume event: "event \<in> set events"
    have one: "Q s0 \<longleftrightarrow> (\<exists>s. P s \<and> Q s)" if "\<And>s. P s \<longleftrightarrow> s = s0" for P Q and s0 :: nat using that by simp
    show "l \<in> set (legs_found cfg tf candles zones event (start_of candles event))
        \<longleftrightarrow> (\<exists>s. (s < length candles \<and> c_timestamp (candles ! s) = se_timestamp event)
          \<and> l \<in> set (legs_found cfg tf candles zones event s))"
      by (rule one) (rule start [OF event])
  qed
  finally show ?thesis unfolding found by blast
qed

text \<open>The prefix of an analysis, as its users need it.\<close>

lemma displacement_prefix:
  assumes "displacement_config_valid cfg" "analyze_displacement candles tf events cfg zones = Inr a"
    and "0 < n" "n \<le> length candles" "cutoff = c_timestamp (candles ! (n - 1)) + timeframe_duration tf"
    and "\<forall>z\<in>set zones. \<forall>t\<in>set (gz_source_timestamps z). t + timeframe_duration tf \<le> gz_confirmed_at z"
  shows "\<exists>b. analyze_displacement (take n candles) tf (filter (\<lambda>e. se_confirmed_at e \<le> cutoff) events) cfg
      (filter (\<lambda>z. gz_confirmed_at z \<le> cutoff) zones) = Inr b
    \<and> da_legs b = filter (\<lambda>l. dl_confirmed_at l \<le> cutoff) (da_legs a)"
proof -
  let ?events = "filter (\<lambda>e. se_confirmed_at e \<le> cutoff) events" and ?zones = "known_by cutoff zones"
  note a = analyze_displacement_legs [OF assms(1,2)]
  have tick: "0 < dc_tick_size cfg" using assms(1) by (simp add: displacement_config_valid_def)
  have in_prefix: "t \<in> c_timestamp ` set (take n candles)"
    if t: "t \<in> c_timestamp ` set candles" "t + timeframe_duration tf \<le> cutoff" for t
  proof -
    obtain i where i: "i < length candles" "c_timestamp (candles ! i) = t" using t(1) by (auto simp: in_set_conv_nth)
    have "\<not> n - 1 < i" using chronological_less [OF a(2), of "n - 1" i] i t(2) assms(5) by auto
    then show ?thesis using i assms(3,4) by (auto simp: in_set_conv_nth intro!: image_eqI [of _ _ "candles ! i"] exI [of _ i])
  qed
  have known: "\<forall>z\<in>set ?zones. sources_known (take n candles) z"
  proof (intro ballI)
    fix z assume z: "z \<in> set ?zones"
    then have z': "z \<in> set zones" "gz_confirmed_at z \<le> cutoff" by (simp_all add: known_by_def)
    then have "sources_known candles z" using a(4) by (simp add: gaps_fit_def)
    then have "t \<in> c_timestamp ` set (take n candles)" if "t \<in> set (gz_source_timestamps z)" for t
    proof (intro in_prefix)
      show "t \<in> c_timestamp ` set candles" if "sources_known candles z"
        using that \<open>t \<in> set (gz_source_timestamps z)\<close> by (auto simp: sources_known_def)
      show "t + timeframe_duration tf \<le> cutoff"
        using assms(6) z' that by (meson order_trans)
    qed
    then show "sources_known (take n candles) z" by (auto simp: sources_known_def)
  qed
  have cut: "cut_at cfg tf candles zones n cutoff"
    using a(2,4) assms(1,3-5) known by (simp add: cut_at_def gaps_fit_def)
  have fit: "events_fit (take n candles) tf ?events" "gaps_fit (take n candles) tf ?zones"
  proof -
    show "events_fit (take n candles) tf ?events"
      using a(3) in_prefix by (auto simp: events_fit_def intro: sorted_filter)
    have "gz_confirmed_at z \<in> (\<lambda>c. c_timestamp c + timeframe_duration tf) ` set (take n candles)" if z: "z \<in> set ?zones" for z
    proof -
      obtain c where c: "c \<in> set candles" "gz_confirmed_at z = c_timestamp c + timeframe_duration tf" "gz_confirmed_at z \<le> cutoff"
        using z a(4) by (auto simp: known_by_def gaps_fit_def)
      then have "c_timestamp c \<in> c_timestamp ` set (take n candles)" by (intro in_prefix) auto
      then show ?thesis using c(2) by auto
    qed
    then show "gaps_fit (take n candles) tf ?zones" using known by (simp add: gaps_fit_def)
  qed
  have "validate_displacement_inputs candles tf events zones cfg = Inr ()"
    using assms(2) analyze_displacement_returns [OF assms(1)] by blast
  moreover have "set (adjacent (take n candles)) \<subseteq> set (adjacent candles)"
    using adjacent_set_prefix [of "take n candles" "drop n candles"] by simp
  ultimately have "validate_displacement_inputs (take n candles) tf ?events ?zones cfg = Inr ()"
    using fit set_take_subset [of n candles] by (auto simp: validate_displacement_Inr [OF assms(1)] spaced_def)
  then obtain b where b: "analyze_displacement (take n candles) tf ?events cfg ?zones = Inr b"
    using analyze_displacement_returns [OF assms(1)] by blast
  note b' = analyze_displacement_legs [OF assms(1) b]
  have each: "(if se_confirmed_at event \<le> cutoff
        then legs_found cfg tf (take n candles) ?zones event (start_of (take n candles) event) else [])
      = filter (\<lambda>l. dl_confirmed_at l \<le> cutoff) (legs_found cfg tf candles zones event (start_of candles event))"
    if "event \<in> set events" for event
  proof -
    let ?s = "start_of candles event"
    note s = start_of_event [OF a(2,3) that]
    have "se_confirmed_at event = c_timestamp (candles ! ?s) + timeframe_duration tf"
      using a(3) that s(2) by (simp add: events_fit_def)
    then have iff: "se_confirmed_at event \<le> cutoff \<longleftrightarrow> ?s < n" using close_known [OF cut s(1)] by simp
    show ?thesis
    proof (cases "?s < n")
      case True
      then have "start_of (take n candles) event = ?s"
        using s assms(4) by (intro start_of_index [OF b'(2)]) simp_all
      then show ?thesis using legs_found_prefix [OF cut True] iff True by (simp only: if_True)
    next
      case False
      then show ?thesis using legs_found_later [OF cut False] iff by (simp only: if_False)
    qed
  qed
  have "da_legs b = filter (\<lambda>l. dl_confirmed_at l \<le> cutoff) (da_legs a)"
    unfolding b'(1) a(1) by (rule concat_filter) (rule each)
  then show ?thesis using b by (auto simp: known_by_def)
qed

text \<open>
  C39: displacement legs are known when they are confirmed and never repaint. Analyzing the first \<open>n\<close> candles
  with the breaks and gaps confirmed by then gives exactly the legs of the full analysis that were
  confirmed by then, provided a gap is confirmed after its own candles.
\<close>

theorem displacement_never_repaints:
  assumes "displacement_config_valid cfg" "analyze_displacement candles tf events cfg zones = Inr a"
    and "0 < n" "n \<le> length candles" "cutoff = c_timestamp (candles ! (n - 1)) + timeframe_duration tf"
    and "\<forall>z\<in>set zones. \<forall>t\<in>set (gz_source_timestamps z). t + timeframe_duration tf \<le> gz_confirmed_at z"
  shows "\<exists>b. analyze_displacement (take n candles) tf (filter (\<lambda>e. se_confirmed_at e \<le> cutoff) events) cfg
      (filter (\<lambda>z. gz_confirmed_at z \<le> cutoff) zones) = Inr b
    \<and> da_legs b = filter (\<lambda>l. dl_confirmed_at l \<le> cutoff) (da_legs a)"
  using assms by (rule displacement_prefix)

section \<open>A sample\<close>

definition sample_displacement_config :: displacement_config where
  "sample_displacement_config =
     \<lparr>dc_tick_size = 1, dc_atr_period = 1, dc_max_bars = 2, dc_net_atr_ratio = 1, dc_body_atr_ratio = 1,
      dc_min_body_efficiency = 1 / 2, dc_max_adverse_atr_ratio = 1, dc_require_fvg = False\<rparr>"

definition sample_leg_bars :: "candle list" where
  "sample_leg_bars = [sample_bar 0 9 10 8 10, sample_bar 1 10 14 10 14, sample_bar 2 14 15 14 15]"

definition sample_break :: structure_event where
  "sample_break =
     \<lparr>se_type = BOS, se_direction = STRUCTURE_BULLISH, se_price = 10, se_timestamp = minutes 1,
      se_broken_structure_id = ''HIGH'', se_confirmation_type = BREAK_CLOSE, se_confirmed_at = minutes 2,
      se_display_alias = None, se_trend_before_break = TREND_BULLISH\<rparr>"

definition sample_legs :: displacement_analysis where
  "sample_legs =
     (case analyze_displacement sample_leg_bars ONE_MINUTE [sample_break] sample_displacement_config [] of
        Inr a \<Rightarrow> a | Inl _ \<Rightarrow> undefined)"

lemma sample_displacement_valid: "displacement_config_valid sample_displacement_config"
  by (simp add: displacement_config_valid_def sample_displacement_config_def)

lemma sample_legs_returned:
  "analyze_displacement sample_leg_bars ONE_MINUTE [sample_break] sample_displacement_config [] = Inr sample_legs"
proof -
  have "events_fit sample_leg_bars ONE_MINUTE [sample_break]"
    by (simp add: events_fit_def sample_leg_bars_def sample_break_def sample_bar_def minutes_def seconds_def)
  moreover have "spaced ONE_MINUTE sample_leg_bars"
    by (simp add: spaced_def sample_leg_bars_def sample_bar_def minutes_def seconds_def)
  ultimately have "validate_displacement_inputs sample_leg_bars ONE_MINUTE [sample_break] [] sample_displacement_config = Inr ()"
    by (simp add: validate_displacement_Inr [OF sample_displacement_valid] gaps_fit_def)
      (simp add: sample_leg_bars_def sample_bar_def sample_displacement_config_def tick_multiple_one)
  then have "\<exists>a. analyze_displacement sample_leg_bars ONE_MINUTE [sample_break] sample_displacement_config [] = Inr a"
    using analyze_displacement_returns [OF sample_displacement_valid] by blast
  then show ?thesis by (auto simp: sample_legs_def)
qed

lemma iround_int: "\<bar>k\<bar> < 10 ^ 34 \<Longrightarrow> iround (of_int k) = of_int k"
  unfolding iround_def by (intro round_sig_fits fits_of_int) simp_all

lemma iround_numeral: "numeral n < (10::int) ^ 34 \<Longrightarrow> iround (numeral n) = numeral n"
  using iround_int [of "numeral n"] by simp

lemma sample_leg_strong:
  "measured sample_displacement_config sample_leg_bars sample_break 1"
  "strong_end sample_displacement_config ONE_MINUTE sample_leg_bars [] sample_break 1 1"
proof -
  have one: "iround 1 = 1" using iround_int [of 1] by simp
  have ops: "iround 2 = 2" "iround 4 = 4" "iround (- 4) = - 4" "dsub 10 8 = 2"
    using iround_int [of 2] iround_int [of 4] iround_int [of "- 4"] by (simp_all add: dec_evals)
  have baseline: "atr_baseline_at sample_displacement_config (true_ranges sample_leg_bars) 1 = 2"
    by (simp add: atr_baseline_at_def sample_displacement_config_def true_ranges_def true_range_def sample_leg_bars_def
        sample_bar_def isum_def iadd_def idiv_def ops)
  then show "measured sample_displacement_config sample_leg_bars sample_break 1"
    by (simp add: measured_def sample_break_def) (simp add: sample_displacement_config_def)
  let ?m = "\<lparr>sm_atr_baseline = 2, sm_net_move = 4, sm_directional_body_sum = 4, sm_opposing_body_sum = 0,
    sm_total_body_sum = 4, sm_body_efficiency = 1, sm_net_atr_ratio = 2, sm_body_atr_ratio = 2, sm_adverse_price = 0,
    sm_adverse_atr_ratio = 0\<rparr>"
  have "displacement_metrics sample_leg_bars 1 1 DISPLACEMENT_BULLISH 2 = Inr ?m"
    by (simp add: displacement_metrics_def sample_leg_bars_def sample_bar_def body_step_def iadd_def isub_def imul_def
        idiv_def ops one make_strength_metrics_def)
  then have "metrics_of sample_leg_bars 1 1 DISPLACEMENT_BULLISH 2 = ?m" by (simp add: metrics_of_def)
  moreover have "event_direction sample_break = DISPLACEMENT_BULLISH" by (simp add: event_direction_def sample_break_def)
  ultimately show "strong_end sample_displacement_config ONE_MINUTE sample_leg_bars [] sample_break 1 1"
    by (simp add: strong_end_def leg_at_def baseline del: One_nat_def) (simp add: sample_displacement_config_def)
qed

theorem displacement_legs_exact_witness:
  "leg_at sample_displacement_config ONE_MINUTE sample_leg_bars [] sample_break 1 1 \<in> set (da_legs sample_legs)"
proof -
  have "c_timestamp (sample_leg_bars ! 1) = se_timestamp sample_break" "length sample_leg_bars = 3"
    "dc_max_bars sample_displacement_config = 2"
    by (simp_all add: sample_leg_bars_def sample_bar_def sample_break_def sample_displacement_config_def)
  then show ?thesis
    unfolding displacement_legs_exact [OF sample_displacement_valid sample_legs_returned]
    using sample_leg_strong by (intro bexI [of _ sample_break] exI [of _ 1]) simp_all
qed

theorem displacement_never_repaints_witness:
  "\<exists>b. analyze_displacement (take 2 sample_leg_bars) ONE_MINUTE
      (filter (\<lambda>e. se_confirmed_at e \<le> minutes 2) [sample_break]) sample_displacement_config
      (filter (\<lambda>z. gz_confirmed_at z \<le> minutes 2) []) = Inr b
    \<and> da_legs b = filter (\<lambda>l. dl_confirmed_at l \<le> minutes 2) (da_legs sample_legs)"
  by (rule displacement_never_repaints [OF sample_displacement_valid sample_legs_returned])
    (simp_all add: sample_leg_bars_def sample_bar_def minutes_def seconds_def)

end
