(* ===== verification/Strategy_Pipeline.thy ===== *)
theory Strategy_Pipeline
  imports Hot_Structure FVG_Replay Displacement
begin

text \<open>
  The engines composed as \<open>engines/strategy_engine.py\<close> composes them for the signal timeframe: structure, then
  indicators, gaps with their ATR, and displacement over the breaks and the gaps. A prefix of the candles
  gives the prefix of every output: no engine hands another anything that was not known yet.
\<close>

section \<open>Breaks of a prefix\<close>

lemma reference_step_events:
  assumes "reference_step cfg tf swings c st = Inr st'"
  shows "\<exists>es. bs_events st' = bs_events st @ es \<and> (\<forall>e\<in>set es. se_confirmed_at e = c_timestamp c + timeframe_duration tf)"
proof -
  obtain trend up down where ctx: "break_context cfg swings (bs_broken st) (c_timestamp c) = (trend, up, down)"
    by (metis prod.exhaust)
  obtain out where out: "structure_break cfg tf c trend up down = Inr out" "st' = record_outcome out st"
    using assms by (auto simp: reference_step_def append_structure_event_def ctx bind_result_eq_Inr)
  show ?thesis
  proof (cases out)
    case (BROKEN e)
    then have "se_confirmed_at e = c_timestamp c + timeframe_duration tf"
      using out(1) by (auto elim: structure_break_BROKEN)
    then show ?thesis using out(2) BROKEN by (simp add: record_outcome_def)
  qed (use out(2) in \<open>simp_all add: record_outcome_def\<close>)
qed

lemma reference_breaks_prefix:
  assumes "0 < ms_right_bars cfg" "chronological (candles @ later)"
    and "reference_breaks (candles @ later) (confirmed_swings (candles @ later) tf cfg) tf cfg = Inr st"
  shows "\<exists>st0 es. reference_breaks candles (confirmed_swings candles tf cfg) tf cfg = Inr st0
    \<and> bs_events st = bs_events st0 @ es
    \<and> (\<forall>e\<in>set es. \<exists>c\<in>set later. se_confirmed_at e = c_timestamp c + timeframe_duration tf)"
  using assms(2,3)
proof (induction later arbitrary: st rule: rev_induct)
  case Nil
  then show ?case by auto
next
  case (snoc c later)
  let ?before = "candles @ later"
  have c: "chronological (?before @ [c])" using snoc.prems(1) by simp
  obtain mid where mid: "reference_breaks ?before (confirmed_swings ?before tf cfg) tf cfg = Inr mid"
      "reference_step cfg tf (confirmed_swings (?before @ [c]) tf cfg) c mid = Inr st"
  proof -
    have "reference_breaks (?before @ [c]) (confirmed_swings (?before @ [c]) tf cfg) tf cfg = Inr st"
      using snoc.prems(2) by simp
    then have "bind_result (reference_breaks ?before (confirmed_swings ?before tf cfg) tf cfg)
        (reference_step cfg tf (confirmed_swings (?before @ [c]) tf cfg) c) = Inr st"
      by (simp only: reference_breaks_snoc [OF assms(1) c])
    then show thesis using that unfolding bind_result_eq_Inr by blast
  qed
  obtain st0 es where st0: "reference_breaks candles (confirmed_swings candles tf cfg) tf cfg = Inr st0"
      "bs_events mid = bs_events st0 @ es" "\<forall>e\<in>set es. \<exists>c\<in>set later. se_confirmed_at e = c_timestamp c + timeframe_duration tf"
    using snoc.IH [OF chronological_prefix [OF c] mid(1)] by blast
  obtain new where "bs_events st = bs_events mid @ new" "\<forall>e\<in>set new. se_confirmed_at e = c_timestamp c + timeframe_duration tf"
    using reference_step_events [OF mid(2)] by blast
  then show ?case using st0 by (intro exI [of _ st0] exI [of _ "es @ new"]) auto
qed

lemma analysis_events:
  assumes "structure_config_valid cfg" "analyze_market_structure candles tf cfg = Inr r"
  shows "\<exists>st. reference_breaks candles (confirmed_swings candles tf cfg) tf cfg = Inr st
    \<and> bs_events st = mr_structure_events r"
    and "chronological candles" "mr_confirmed_swings r = confirmed_swings candles tf cfg"
    and "\<forall>e\<in>set (mr_structure_events r). break_justified cfg tf candles (mr_confirmed_swings r) e"
proof -
  obtain v: "validate_structure_candles candles tf (ms_tick_size cfg) = Inr ()"
    and s: "mr_confirmed_swings r = snd (detect_swings candles tf cfg)"
    and d: "detect_structure_breaks candles (snd (detect_swings candles tf cfg)) tf cfg
      = Inr (mr_structure_events r, mr_structure_rejections r)"
    using assms(2) by (rule analyze_market_structure_Inr)
  have cfg: "0 < ms_right_bars cfg" "0 < ms_trend_points cfg" "0 < ms_tick_size cfg"
    using assms(1) by (auto simp: structure_config_valid_def)
  show c: "chronological candles" using validate_structure_chronological cfg(3) v by blast
  show "mr_confirmed_swings r = confirmed_swings candles tf cfg" by (simp add: s confirmed_swings_def)
  show st: "\<exists>st. reference_breaks candles (confirmed_swings candles tf cfg) tf cfg = Inr st
      \<and> bs_events st = mr_structure_events r"
    using d detect_breaks_reference [OF chronological_sorted [OF c] confirmed_swings_ordered [OF cfg(1) c, of tf] cfg(2), of tf]
    unfolding confirmed_swings_def
    by (cases "reference_breaks candles (snd (detect_swings candles tf cfg)) tf cfg") auto
  then show "\<forall>e\<in>set (mr_structure_events r). break_justified cfg tf candles (mr_confirmed_swings r) e"
    using reference_breaks_justified by (metis \<open>mr_confirmed_swings r = confirmed_swings candles tf cfg\<close>)
qed

text \<open>The close of the \<open>n\<close>-th candle: what is known by then.\<close>

abbreviation close_of :: "timeframe \<Rightarrow> candle list \<Rightarrow> nat \<Rightarrow> utc_time" where
  "close_of tf candles n \<equiv> c_timestamp (candles ! (n - 1)) + timeframe_duration tf"

lemma closes_ordered:
  assumes "chronological candles" "n \<le> length candles" "0 < n"
  shows "c \<in> set (take n candles) \<Longrightarrow> c_timestamp c + timeframe_duration tf \<le> close_of tf candles n"
    and "c \<in> set (drop n candles) \<Longrightarrow> close_of tf candles n < c_timestamp c + timeframe_duration tf"
proof -
  show "c_timestamp c + timeframe_duration tf \<le> close_of tf candles n" if c: "c \<in> set (take n candles)"
  proof -
    obtain i where "i < n" "candles ! i = c" using c assms(2) by (auto simp: in_set_conv_nth)
    then show ?thesis
      using chronological_less [OF assms(1), of i "n - 1"] assms(2,3)
      by (cases "i = n - 1") (auto intro: less_imp_le)
  qed
  show "close_of tf candles n < c_timestamp c + timeframe_duration tf" if c: "c \<in> set (drop n candles)"
  proof -
    obtain i where i: "i < length (drop n candles)" "drop n candles ! i = c" using c by (auto simp: in_set_conv_nth)
    then have "n + i < length candles" "candles ! (n + i) = c" by simp_all
    then show ?thesis using chronological_less [OF assms(1), of "n - 1" "n + i"] assms(3) by simp
  qed
qed

lemma structure_prefix:
  assumes "structure_config_valid cfg" "\<forall>c\<in>set candles. candle_valid c"
    and "analyze_market_structure candles tf cfg = Inr r" "0 < n" "n \<le> length candles"
  shows "\<exists>r'. analyze_market_structure (take n candles) tf cfg = Inr r'
    \<and> mr_structure_events r' = filter (\<lambda>e. se_confirmed_at e \<le> close_of tf candles n) (mr_structure_events r)
    \<and> mr_confirmed_swings r' = filter (\<lambda>s. cs_confirmed_at s \<le> close_of tf candles n) (mr_confirmed_swings r)"
proof -
  have cfg: "0 < ms_right_bars cfg" "0 < ms_tick_size cfg" using assms(1) by (auto simp: structure_config_valid_def)
  note r = analysis_events [OF assms(1,3)]
  note visible = confirmed_swings_visible [OF cfg(1) r(2) assms(5,4), of tf]
  have valid: "\<forall>c\<in>set (take n candles). candle_valid c" using assms(2) by (auto dest: in_set_takeD)
  have returns: "validate_structure_candles candles tf (ms_tick_size cfg) = Inr ()"
    "\<forall>s\<in>set (snd (detect_swings candles tf cfg)). zone_padding cfg < cs_price s"
    using analyze_returns_lemma [OF assms(1,2), of tf] assms(3) by blast+
  have "set (adjacent (take n candles)) \<subseteq> set (adjacent candles)"
    using adjacent_set_prefix [of "take n candles" "drop n candles"] by simp
  then have "validate_structure_candles (take n candles) tf (ms_tick_size cfg) = Inr ()"
    using returns(1) set_take_subset [of n candles]
    by (auto simp: validate_structure_candles_def validate_tick_candles_Inr [OF cfg(2)] spaced_def)
  moreover have "\<forall>s\<in>set (snd (detect_swings (take n candles) tf cfg)). zone_padding cfg < cs_price s"
    using returns(2) visible by (simp add: confirmed_swings_def)
  ultimately obtain r' where r': "analyze_market_structure (take n candles) tf cfg = Inr r'"
    using analyze_returns_lemma [OF assms(1) valid, of tf] by blast
  note p = analysis_events [OF assms(1) r']
  obtain st where st: "reference_breaks candles (confirmed_swings candles tf cfg) tf cfg = Inr st" "bs_events st = mr_structure_events r"
    using r(1) by blast
  obtain st0 es where st0: "reference_breaks (take n candles) (confirmed_swings (take n candles) tf cfg) tf cfg = Inr st0"
      "bs_events st = bs_events st0 @ es"
      "\<forall>e\<in>set es. \<exists>c\<in>set (drop n candles). se_confirmed_at e = c_timestamp c + timeframe_duration tf"
    using reference_breaks_prefix [of cfg "take n candles" "drop n candles" tf st] cfg(1) r(2) st(1) by auto
  have events: "bs_events st0 = mr_structure_events r'" using p(1) st0(1) by auto
  have "\<forall>e\<in>set (mr_structure_events r'). se_confirmed_at e \<le> close_of tf candles n"
  proof
    fix e assume "e \<in> set (mr_structure_events r')"
    then obtain c where "c \<in> set (take n candles)" "se_confirmed_at e = c_timestamp c + timeframe_duration tf"
      using p(4) unfolding break_justified_def by blast
    then show "se_confirmed_at e \<le> close_of tf candles n" using closes_ordered(1) [OF r(2) assms(5,4)] by metis
  qed
  moreover have "\<forall>e\<in>set es. \<not> se_confirmed_at e \<le> close_of tf candles n"
  proof
    fix e assume "e \<in> set es"
    then obtain c where c: "c \<in> set (drop n candles)" "se_confirmed_at e = c_timestamp c + timeframe_duration tf"
      using st0(3) by blast
    then show "\<not> se_confirmed_at e \<le> close_of tf candles n"
      using closes_ordered(2) [OF r(2) assms(5,4) c(1)] by simp
  qed
  ultimately have "mr_structure_events r' = filter (\<lambda>e. se_confirmed_at e \<le> close_of tf candles n) (mr_structure_events r)"
    unfolding st(2) [symmetric] st0(2) events by simp
  then show ?thesis using r' p(3) r(3) visible by auto
qed

section \<open>Gaps of a prefix\<close>

text \<open>What displacement uses of a gap, which no bar changes.\<close>

type_synonym gap_core = "string \<times> gap_zone_type \<times> gap_direction \<times> utc_time \<times> utc_time list"

definition gap_core_of :: "gap_zone \<Rightarrow> gap_core" where
  "gap_core_of z = (gz_zone_id z, gz_type z, gz_direction z, gz_confirmed_at z, gz_source_timestamps z)"

definition state_core_of :: "gap_state \<Rightarrow> gap_core" where
  "state_core_of z = (gs_zone_id z, gs_type z, gs_direction z, gs_confirmed_at z, gs_source_timestamps z)"

lemma gap_core_projected: "gap_zone_of z = Inr y \<Longrightarrow> gap_core_of y = state_core_of z"
  by (auto simp: gap_zone_of_def make_gap_zone_def gap_core_of_def state_core_of_def bind_result_eq_Inr
      split: option.splits)

lemma advanced_core [simp]: "state_core_of (fst (advanced_zone cfg bar index t z)) = state_core_of z"
proof -
  have event: "state_core_of (with_event e bar t s y) = state_core_of y" for e s y by (simp add: state_core_of_def)
  have touched: "state_core_of (touched_zone cfg bar t obs z) = state_core_of z" for obs
    by (simp add: touched_zone_def Let_def state_core_of_def)
  have "state_core_of (expired_zone cfg bar index t y) = state_core_of y" for y by (simp add: expired_zone_def event)
  then show ?thesis by (simp add: advanced_zone_def Let_def event touched)
qed

lemma made_confirmed:
  assumes "snd (advanced_zone cfg bar index t z) = Some y"
  shows "gs_confirmed_at y = t" "gs_source_timestamps y = gs_source_timestamps z"
  using advanced_made(1) [OF assms] advanced_core [of cfg bar index t z]
  by (auto simp: inverted_gap_def new_ifvg_def make_gap_event_def created_event_def Let_def state_core_of_def)

lemma formed_confirmed:
  assumes "z \<in> set (formed_zones cfg atr candles index t)"
  shows "gs_confirmed_at z = t" "gs_source_timestamps z = map c_timestamp (take 3 (drop (index - 2) candles))" "2 \<le> index"
  using assms
  by (auto simp: formed_zones_def form_zone_def new_fvg_def make_gap_event_def created_event_def Let_def formation_at_def
      split: gap_formation.splits if_splits)

lemma next_zones_core:
  "\<exists>new. map state_core_of (next_zones cfg tf atr candles index zones) = map state_core_of zones @ map state_core_of new
    \<and> (\<forall>z\<in>set new. gs_confirmed_at z = c_timestamp (candles ! index) + timeframe_duration tf
         \<and> (\<exists>origin\<in>set (zones @ formed_zones cfg atr candles index (c_timestamp (candles ! index) + timeframe_duration tf)).
              gs_source_timestamps z = gs_source_timestamps origin))"
proof -
  let ?t = "c_timestamp (candles ! index) + timeframe_duration tf"
  let ?formed = "formed_zones cfg atr candles index ?t"
  let ?adv = "advanced_zone cfg (candles ! index) index ?t"
  let ?made = "concat (map (\<lambda>z. made (snd (?adv z))) (zones @ ?formed))"
  have "map state_core_of (next_zones cfg tf atr candles index zones) = map state_core_of zones @ map state_core_of (?formed @ ?made)"
    by (simp add: next_zones_def Let_def comp_def)
  moreover have "gs_confirmed_at z = ?t \<and> (\<exists>origin\<in>set (zones @ ?formed). gs_source_timestamps z = gs_source_timestamps origin)"
    if "z \<in> set (?formed @ ?made)" for z
    using that formed_confirmed(1) made_confirmed
    by (auto simp: made_def split: option.splits)
  ultimately show ?thesis by blast
qed

lemma next_zones_sources:
  assumes "chronological candles" "Suc n \<le> length candles"
    and "\<forall>z\<in>set zones. gs_confirmed_at z \<le> close_of tf candles (Suc n)
      \<and> (\<forall>t\<in>set (gs_source_timestamps z). t + timeframe_duration tf \<le> gs_confirmed_at z)"
    and "z \<in> set (next_zones cfg tf atr candles n zones)"
  shows "gs_confirmed_at z \<le> close_of tf candles (Suc n)
    \<and> (\<forall>t\<in>set (gs_source_timestamps z). t + timeframe_duration tf \<le> gs_confirmed_at z)"
proof -
  let ?t = "close_of tf candles (Suc n)"
  obtain new where new: "map state_core_of (next_zones cfg tf atr candles n zones) = map state_core_of zones @ map state_core_of new"
      "\<forall>z\<in>set new. gs_confirmed_at z = ?t
         \<and> (\<exists>origin\<in>set (zones @ formed_zones cfg atr candles n ?t). gs_source_timestamps z = gs_source_timestamps origin)"
    using next_zones_core [of cfg tf atr candles n zones] by auto
  have formed: "\<forall>t\<in>set (gs_source_timestamps y). t + timeframe_duration tf \<le> ?t" if y: "y \<in> set (formed_zones cfg atr candles n ?t)" for y
  proof -
    have "set (take 3 (drop (n - 2) candles)) \<subseteq> set (take (Suc n) candles)"
    proof
      fix c assume "c \<in> set (take 3 (drop (n - 2) candles))"
      then obtain i where "i < 3" "n - 2 + i < length candles" "c = candles ! (n - 2 + i)"
        by (auto simp: in_set_conv_nth)
      then show "c \<in> set (take (Suc n) candles)"
        using formed_confirmed(3) [OF y] assms(2) by (auto simp: in_set_conv_nth intro!: exI [of _ "n - 2 + i"])
    qed
    then show ?thesis
      using closes_ordered(1) [OF assms(1,2)] formed_confirmed(2) [OF y] by auto
  qed
  have "state_core_of z \<in> set (map state_core_of (next_zones cfg tf atr candles n zones))" using assms(4) by simp
  then obtain y where y: "y \<in> set zones \<union> set new" "state_core_of z = state_core_of y" unfolding new(1) by auto
  then have same: "gs_confirmed_at z = gs_confirmed_at y" "gs_source_timestamps z = gs_source_timestamps y"
    by (simp_all add: state_core_of_def)
  show ?thesis
  proof (cases "y \<in> set zones")
    case True
    then show ?thesis using assms(3) same by simp
  next
    case False
    then obtain origin where "origin \<in> set zones \<union> set (formed_zones cfg atr candles n ?t)"
        "gs_source_timestamps y = gs_source_timestamps origin" "gs_confirmed_at y = ?t"
      using new(2) y(1) by auto
    then show ?thesis using same assms(3) formed by (metis UnE order.refl order.trans)
  qed
qed

lemma zones_after_sources:
  assumes "chronological candles" "n \<le> length candles" "z \<in> set (zones_after cfg tf atr candles n)"
  shows "gs_confirmed_at z \<le> close_of tf candles n
    \<and> (\<forall>t\<in>set (gs_source_timestamps z). t + timeframe_duration tf \<le> gs_confirmed_at z)"
  using assms(2,3)
proof (induction n arbitrary: z)
  case (Suc n)
  have "close_of tf candles n \<le> close_of tf candles (Suc n)"
    using chronological_less [OF assms(1), of "n - 1" n] Suc.prems(1) by (cases n) (auto intro: less_imp_le)
  then have "\<forall>y\<in>set (zones_after cfg tf atr candles n). gs_confirmed_at y \<le> close_of tf candles (Suc n)
      \<and> (\<forall>t\<in>set (gs_source_timestamps y). t + timeframe_duration tf \<le> gs_confirmed_at y)"
    using Suc.IH Suc.prems(1) by (meson Suc_leD order_trans)
  then show ?case
    using next_zones_sources [OF assms(1) Suc.prems(1)] Suc.prems(2) unfolding after_simps(2) by blast
qed (simp add: after_simps)

lemma zones_after_later:
  assumes "chronological candles" "n + k \<le> length candles" "0 < n"
  shows "\<exists>later. map state_core_of (zones_after cfg tf atr candles (n + k))
      = map state_core_of (zones_after cfg tf atr candles n) @ map state_core_of later
    \<and> (\<forall>z\<in>set later. close_of tf candles n < gs_confirmed_at z)"
  using assms(2)
proof (induction k)
  case (Suc k)
  let ?t = "close_of tf candles (Suc (n + k))"
  obtain new where new: "map state_core_of (zones_after cfg tf atr candles (Suc (n + k)))
        = map state_core_of (zones_after cfg tf atr candles (n + k)) @ map state_core_of new"
      "\<forall>z\<in>set new. gs_confirmed_at z = ?t"
    using next_zones_core [of cfg tf atr candles "n + k" "zones_after cfg tf atr candles (n + k)"]
    unfolding after_simps(2) by auto
  obtain later where later: "map state_core_of (zones_after cfg tf atr candles (n + k))
        = map state_core_of (zones_after cfg tf atr candles n) @ map state_core_of later"
      "\<forall>z\<in>set later. close_of tf candles n < gs_confirmed_at z"
    using Suc.IH Suc.prems by auto
  have "close_of tf candles n < ?t"
    using chronological_less [OF assms(1), of "n - 1" "n + k"] assms(3) Suc.prems by simp
  then show ?case using new later by (intro exI [of _ "later @ new"]) auto
qed simp

lemma filter_split:
  assumes "map f xs = as @ bs" "\<forall>x\<in>set xs. P x \<longleftrightarrow> Q (f x)" "\<forall>a\<in>set as. Q a" "\<forall>b\<in>set bs. \<not> Q b"
  shows "filter P xs = take (length as) xs"
proof -
  have as: "map f (take (length as) xs) = as" and bs: "map f (drop (length as) xs) = bs"
    using assms(1) by (simp_all flip: take_map drop_map)
  have "\<forall>x\<in>set (take (length as) xs). P x"
    using assms(2,3) by (metis as image_eqI in_set_takeD list.set_map)
  moreover have "\<forall>x\<in>set (drop (length as) xs). \<not> P x"
    using assms(2,4) by (metis bs image_eqI in_set_dropD list.set_map)
  ultimately have "filter P (take (length as) xs @ drop (length as) xs) = take (length as) xs"
    by (simp only: filter_append filter_True filter_False append_Nil2)
  then show ?thesis by simp
qed

lemma fvg_zones_cores:
  assumes "analyze_fvg candles tf cfg atr = Inr a"
  shows "map gap_core_of (fa_zones a) = map state_core_of (zones_after cfg tf atr candles (length candles))"
    and "validate_fvg_inputs candles tf cfg atr = Inr ()"
proof -
  have "map_result gap_zone_of (zones_after cfg tf atr candles (length candles)) = Inr (fa_zones a)"
    using assms by (auto simp: analyze_fvg_eq bind_result_eq_Inr)
  then have "list_all2 (\<lambda>z y. gap_zone_of z = Inr y) (zones_after cfg tf atr candles (length candles)) (fa_zones a)"
    by (simp add: map_result_Inr)
  then show "map gap_core_of (fa_zones a) = map state_core_of (zones_after cfg tf atr candles (length candles))"
    by (induction rule: list_all2_induct) (simp_all add: gap_core_projected)
  show "validate_fvg_inputs candles tf cfg atr = Inr ()"
    using assms by (auto simp: analyze_fvg_eq bind_result_eq_Inr)
qed

text \<open>The gaps of a prefix are the gaps confirmed by its close.\<close>

lemma fvg_prefix:
  assumes "fvg_config_valid cfg" "\<forall>c\<in>set candles. candle_valid c" "analyze_fvg candles tf cfg atr = Inr a"
    and "0 < n" "n \<le> length candles"
  shows "\<exists>b. analyze_fvg (take n candles) tf cfg (take_atr n atr) = Inr b
    \<and> list_all2 gap_kept (fa_zones b) (filter (\<lambda>z. gz_confirmed_at z \<le> close_of tf candles n) (fa_zones a))
    \<and> map gap_core_of (fa_zones b)
        = map gap_core_of (filter (\<lambda>z. gz_confirmed_at z \<le> close_of tf candles n) (fa_zones a))"
proof -
  let ?t = "close_of tf candles n"
  note a = fvg_zones_cores [OF assms(3)]
  have chron: "chronological candles" by (rule validate_fvg_chronological [OF assms(1) a(2)])
  obtain b where b: "analyze_fvg (take n candles) tf cfg (take_atr n atr) = Inr b"
      "list_all2 gap_kept (fa_zones b) (take (length (fa_zones b)) (fa_zones a))"
    using fvg_prefix_kept [OF assms(1,2,5,3)] by blast
  have cores: "map gap_core_of (fa_zones b) = map state_core_of (zones_after cfg tf atr candles n)"
    using fvg_zones_cores(1) [OF b(1)] zones_after_prefix(1) [OF order_refl assms(5)] assms(5) by simp
  obtain later where later: "map gap_core_of (fa_zones a) = map gap_core_of (fa_zones b) @ map state_core_of later"
      "\<forall>z\<in>set later. ?t < gs_confirmed_at z"
    using zones_after_later [OF chron _ assms(4), of "length candles - n" cfg tf atr] a(1) cores assms(5) by auto
  have known: "filter (\<lambda>z. gz_confirmed_at z \<le> ?t) (fa_zones a) = take (length (map gap_core_of (fa_zones b))) (fa_zones a)"
  proof (rule filter_split [OF later(1), where Q = "\<lambda>(_, _, _, t, _). t \<le> ?t"])
    show "\<forall>x\<in>set (map gap_core_of (fa_zones b)). (\<lambda>(_, _, _, t, _). t \<le> ?t) x"
      unfolding cores using zones_after_sources [OF chron assms(5)] by (auto simp: state_core_of_def)
  qed (use later(2) in \<open>auto simp: gap_core_of_def state_core_of_def not_le\<close>)
  moreover have "map gap_core_of (take (length (fa_zones b)) (fa_zones a)) = map gap_core_of (fa_zones b)"
    using later(1) by (simp flip: take_map)
  ultimately show ?thesis using b by (intro exI [of _ b]) simp
qed

lemma fvg_sources_closed:
  assumes "fvg_config_valid cfg" "analyze_fvg candles tf cfg atr = Inr a" "z \<in> set (fa_zones a)"
  shows "\<forall>t\<in>set (gz_source_timestamps z). t + timeframe_duration tf \<le> gz_confirmed_at z"
proof -
  have chron: "chronological candles" by (rule validate_fvg_chronological [OF assms(1) fvg_zones_cores(2) [OF assms(2)]])
  have "gap_core_of z \<in> set (map state_core_of (zones_after cfg tf atr candles (length candles)))"
    unfolding fvg_zones_cores(1) [OF assms(2), symmetric] using assms(3) by simp
  then obtain y where "y \<in> set (zones_after cfg tf atr candles (length candles))" "gap_core_of z = state_core_of y" by auto
  then show ?thesis using zones_after_sources [OF chron order.refl] by (auto simp: gap_core_of_def state_core_of_def)
qed

section \<open>Displacement of a prefix\<close>

text \<open>Displacement looks at a gap only through its core.\<close>

lemma leg_gaps_cores:
  assumes "map gap_core_of zs = map gap_core_of zones"
  shows "leg_gaps zs candles d s e t = leg_gaps zones candles d s e t"
proof -
  let ?key = "\<lambda>(i, _, _, t, _). (t, i) :: utc_time \<times> string"
  have "gap_of_leg candles d s e t = (\<lambda>(_, k, g, u, ts). k = FVG \<and> g = required_gap d \<and> u \<le> t
      \<and> (\<forall>t\<in>set ts. \<exists>i<length candles. c_timestamp (candles ! i) = t \<and> int s - 2 \<le> int i \<and> i \<le> e)) \<circ> gap_core_of"
    by (auto simp: gap_of_leg_def gap_core_of_def)
  then obtain Q where Q: "gap_of_leg candles d s e t = Q \<circ> gap_core_of" by blast
  have key: "gap_key = ?key \<circ> gap_core_of" by (auto simp: gap_key_def gap_core_of_def)
  have "map gap_key (filter (gap_of_leg candles d s e t) ys) = map ?key (filter Q (map gap_core_of ys))" for ys
    by (simp add: Q key filter_map)
  then show ?thesis by (simp add: leg_gaps_def sort_key_ids assms)
qed

lemma displacement_cores:
  assumes "displacement_config_valid cfg" "map gap_core_of zs = map gap_core_of zones"
    and "analyze_displacement candles tf events cfg zones = Inr a"
  shows "\<exists>b. analyze_displacement candles tf events cfg zs = Inr b \<and> da_legs b = da_legs a"
proof -
  have fit: "gaps_fit candles tf ys \<longleftrightarrow> (\<forall>(_, _, _, t, ts)\<in>set (map gap_core_of ys).
      t \<in> (\<lambda>c. c_timestamp c + timeframe_duration tf) ` set candles \<and> set ts \<subseteq> c_timestamp ` set candles)" for ys
    by (auto simp: gaps_fit_def sources_known_def gap_core_of_def)
  have "gaps_fit candles tf zs \<longleftrightarrow> gaps_fit candles tf zones" unfolding fit assms(2) ..
  then have "validate_displacement_inputs candles tf events zs cfg = Inr ()"
    using assms(3) analyze_displacement_returns [OF assms(1)] validate_displacement_Inr [OF assms(1)] by metis
  then obtain b where b: "analyze_displacement candles tf events cfg zs = Inr b"
    using analyze_displacement_returns [OF assms(1)] by metis
  have "legs_found cfg tf candles zs = legs_found cfg tf candles zones"
  proof -
    have "weaknesses cfg tf candles zs = weaknesses cfg tf candles zones"
      "leg_at cfg tf candles zs = leg_at cfg tf candles zones"
      by (intro ext; simp add: weaknesses_def leg_at_def leg_gaps_cores [OF assms(2)])+
    then show ?thesis by (intro ext) (simp only: legs_found_def)
  qed
  then show ?thesis
    using b analyze_displacement_legs(1) [OF assms(1) b] analyze_displacement_legs(1) [OF assms(1,3)] by simp
qed

section \<open>The engines in sequence\<close>

record signal_configs =
  sg_structure :: structure_config
  sg_macd :: macd_config
  sg_atr :: atr_config
  sg_fvg :: fvg_config
  sg_displacement :: displacement_config

type_synonym signal_analysis =
  "market_structure \<times> indicator_analysis \<times> fvg_analysis \<times> displacement_analysis"

text \<open>Lines 171 to 214 of \<open>evaluate\<close> for the signal timeframe, as far as displacement depends on them.\<close>

definition analyze_signal ::
  "signal_configs \<Rightarrow> timeframe \<Rightarrow> candle list \<Rightarrow> signal_analysis result" where
  "analyze_signal cfg tf candles =
     bind_result (analyze_market_structure candles tf (sg_structure cfg)) (\<lambda>structure.
     bind_result (calculate_indicators candles tf (sg_macd cfg) (sg_atr cfg)) (\<lambda>indicator.
     bind_result (analyze_fvg candles tf (sg_fvg cfg) (Some (ia_atr indicator))) (\<lambda>fvg.
     bind_result (analyze_displacement candles tf (mr_structure_events structure) (sg_displacement cfg) (fa_zones fvg))
       (\<lambda>displacement. Inr (structure, indicator, fvg, displacement)))))"

definition signal_configs_valid :: "signal_configs \<Rightarrow> bool" where
  "signal_configs_valid cfg \<longleftrightarrow>
     structure_config_valid (sg_structure cfg) \<and> macd_config_valid (sg_macd cfg) \<and> atr_config_valid (sg_atr cfg)
     \<and> fvg_config_valid (sg_fvg cfg) \<and> displacement_config_valid (sg_displacement cfg)"

text \<open>The breaks of a structure analysis and the gaps of a gap analysis fit the candles, as displacement asks.\<close>

lemma reference_events_sorted:
  assumes "0 < ms_right_bars cfg" "chronological candles"
    and "reference_breaks candles (confirmed_swings candles tf cfg) tf cfg = Inr st"
  shows "sorted (map se_confirmed_at (bs_events st))
    \<and> (\<forall>e\<in>set (bs_events st). \<exists>c\<in>set candles. se_confirmed_at e = c_timestamp c + timeframe_duration tf)"
  using assms(2,3)
proof (induction candles arbitrary: st rule: rev_induct)
  case Nil
  then show ?case by (auto simp: reference_breaks_def)
next
  case (snoc c candles)
  obtain mid where mid: "reference_breaks candles (confirmed_swings candles tf cfg) tf cfg = Inr mid"
      "reference_step cfg tf (confirmed_swings (candles @ [c]) tf cfg) c mid = Inr st"
    using snoc.prems(2) unfolding reference_breaks_snoc [OF assms(1) snoc.prems(1)] bind_result_eq_Inr by blast
  note before = snoc.IH [OF chronological_prefix [OF snoc.prems(1)] mid(1)]
  obtain new where new: "bs_events st = bs_events mid @ new"
      "\<forall>e\<in>set new. se_confirmed_at e = c_timestamp c + timeframe_duration tf"
    using reference_step_events [OF mid(2)] by blast
  have past: "c_timestamp x < c_timestamp c" if "x \<in> set candles" for x
    using snoc.prems(1) that by (auto simp: chronological_def sorted_wrt_append)
  have "se_confirmed_at e \<le> c_timestamp c + timeframe_duration tf" if e: "e \<in> set (bs_events mid)" for e
  proof -
    obtain x where "x \<in> set candles" "se_confirmed_at e = c_timestamp x + timeframe_duration tf" using before e by blast
    then show ?thesis using past [of x] by simp
  qed
  moreover have "sorted (map se_confirmed_at new)"
    using new(2) by (auto simp: sorted_wrt_map intro!: sorted_wrt_iff_nth_less [THEN iffD2] dest: nth_mem)
  ultimately have "sorted (map se_confirmed_at (bs_events st))"
    using before new by (auto simp: sorted_append)
  then show ?case using before new by auto
qed

lemma structure_events_fit:
  assumes "structure_config_valid cfg" "analyze_market_structure candles tf cfg = Inr r"
  shows "events_fit candles tf (mr_structure_events r)"
proof -
  note r = analysis_events [OF assms]
  have right: "0 < ms_right_bars cfg" using assms(1) by (simp add: structure_config_valid_def)
  obtain st where st: "reference_breaks candles (confirmed_swings candles tf cfg) tf cfg = Inr st"
      "bs_events st = mr_structure_events r" using r(1) by blast
  have "sorted (map se_confirmed_at (mr_structure_events r))"
    using reference_events_sorted [OF right r(2) st(1)] st(2) by simp
  moreover have "\<exists>c\<in>set candles. se_timestamp e = c_timestamp c
      \<and> se_confirmed_at e = c_timestamp c + timeframe_duration tf" if "e \<in> set (mr_structure_events r)" for e
    using r(4) that unfolding break_justified_def by blast
  ultimately show ?thesis unfolding events_fit_def by (metis image_eqI)
qed

lemma gap_zones_fit:
  assumes "analyze_fvg candles tf cfg atr = Inr a"
  shows "gaps_fit candles tf (fa_zones a)"
proof -
  have "gs_confirmed_at z \<in> (\<lambda>c. c_timestamp c + timeframe_duration tf) ` set candles
      \<and> set (gs_source_timestamps z) \<subseteq> c_timestamp ` set candles"
    if "n \<le> length candles" "z \<in> set (zones_after cfg tf atr candles n)" for n z
    using that
  proof (induction n arbitrary: z)
    case (Suc n)
    let ?t = "c_timestamp (candles ! n) + timeframe_duration tf"
    obtain new where new: "map state_core_of (next_zones cfg tf atr candles n (zones_after cfg tf atr candles n))
          = map state_core_of (zones_after cfg tf atr candles n) @ map state_core_of new"
        "\<forall>z\<in>set new. gs_confirmed_at z = ?t
           \<and> (\<exists>origin\<in>set (zones_after cfg tf atr candles n @ formed_zones cfg atr candles n ?t).
                gs_source_timestamps z = gs_source_timestamps origin)"
      using next_zones_core [of cfg tf atr candles n "zones_after cfg tf atr candles n"] by auto
    have formed: "set (gs_source_timestamps y) \<subseteq> c_timestamp ` set candles"
      if "y \<in> set (formed_zones cfg atr candles n ?t)" for y
      using formed_confirmed(2) [OF that] by (auto dest: in_set_takeD in_set_dropD)
    have "state_core_of z \<in> set (map state_core_of (next_zones cfg tf atr candles n (zones_after cfg tf atr candles n)))"
      using Suc.prems(2) by (simp add: after_simps)
    then obtain y where y: "y \<in> set (zones_after cfg tf atr candles n) \<union> set new" "state_core_of z = state_core_of y"
      unfolding new(1) by auto
    then have same: "gs_confirmed_at z = gs_confirmed_at y" "gs_source_timestamps z = gs_source_timestamps y"
      by (simp_all add: state_core_of_def)
    show ?case
    proof (cases "y \<in> set (zones_after cfg tf atr candles n)")
      case True
      then show ?thesis using Suc.IH [of y] Suc.prems(1) same by simp
    next
      case False
      then obtain origin where "origin \<in> set (zones_after cfg tf atr candles n) \<union> set (formed_zones cfg atr candles n ?t)"
          "gs_source_timestamps y = gs_source_timestamps origin" "gs_confirmed_at y = ?t"
        using new(2) y(1) by auto
      then show ?thesis using same formed Suc.IH [of origin] Suc.prems(1) by auto
    qed
  qed (simp add: after_simps)
  then have "\<forall>x\<in>set (map state_core_of (zones_after cfg tf atr candles (length candles))).
      (\<lambda>(_, _, _, t, ts). t \<in> (\<lambda>c. c_timestamp c + timeframe_duration tf) ` set candles
        \<and> set ts \<subseteq> c_timestamp ` set candles) x"
    by (simp only: set_map ball_simps state_core_of_def prod.case) blast
  then show ?thesis
    unfolding fvg_zones_cores(1) [OF assms, symmetric] by (simp add: gap_core_of_def gaps_fit_def sources_known_def)
qed

lemma indicators_returned:
  assumes "macd_config_valid macd_cfg" "chronological candles"
  shows "calculate_indicators candles tf macd_cfg atr_cfg = Inr (indicators_of tf macd_cfg atr_cfg candles)"
proof -
  have "c_timestamp x < c_timestamp y" if p: "(x, y) \<in> set (adjacent candles)" for x y
  proof -
    obtain j where "Suc j < length candles" "x = candles ! j" "y = candles ! Suc j"
      using p by (auto simp: adjacent_def in_set_zip nth_tl less_diff_conv)
    then show ?thesis using chronological_less [OF assms(2), of j "Suc j"] by simp
  qed
  then have "validate_indicator_order candles = Inr ()"
    by (auto simp: validate_indicator_order_def check_all_Inr not_le)
  then show ?thesis by (simp add: calculate_indicators_eq [OF assms(1)])
qed

lemma atr_points_accepted:
  "validate_tick_candles FVGInputError candles tf (fv_tick_size cfg) = Inr () \<Longrightarrow>
    validate_fvg_inputs candles tf cfg (Some (ia_atr (indicators_of tf macd_cfg atr_cfg candles))) = Inr ()"
  by (auto simp: validate_fvg_inputs_def indicators_of_def atr_points_of_def check_all_Inr check_atr_timestamp_def
      in_set_zip)

lemma analyze_signal_Inr:
  assumes "signal_configs_valid cfg" "analyze_signal cfg tf candles = Inr (s, i, f, d)"
  shows "analyze_market_structure candles tf (sg_structure cfg) = Inr s"
    and "i = indicators_of tf (sg_macd cfg) (sg_atr cfg) candles"
    and "analyze_fvg candles tf (sg_fvg cfg) (Some (ia_atr i)) = Inr f"
    and "analyze_displacement candles tf (mr_structure_events s) (sg_displacement cfg) (fa_zones f) = Inr d"
proof -
  have macd: "macd_config_valid (sg_macd cfg)" using assms(1) by (simp add: signal_configs_valid_def)
  show "analyze_market_structure candles tf (sg_structure cfg) = Inr s"
    "i = indicators_of tf (sg_macd cfg) (sg_atr cfg) candles"
    "analyze_fvg candles tf (sg_fvg cfg) (Some (ia_atr i)) = Inr f"
    "analyze_displacement candles tf (mr_structure_events s) (sg_displacement cfg) (fa_zones f) = Inr d"
    using assms(2) by (auto simp: analyze_signal_def bind_result_eq_Inr calculate_indicators_eq [OF macd])
qed

lemma signal_accepted:
  assumes "signal_configs_valid cfg" "\<forall>c\<in>set candles. candle_valid c"
    and "analyze_market_structure candles tf (sg_structure cfg) = Inr s"
    and "validate_tick_candles FVGInputError candles tf (fv_tick_size (sg_fvg cfg)) = Inr ()"
    and "validate_tick_candles DisplacementInputError candles tf (dc_tick_size (sg_displacement cfg)) = Inr ()"
  shows "\<exists>f d. analyze_signal cfg tf candles
    = Inr (s, indicators_of tf (sg_macd cfg) (sg_atr cfg) candles, f, d)"
proof -
  have cfg: "structure_config_valid (sg_structure cfg)" "macd_config_valid (sg_macd cfg)"
      "fvg_config_valid (sg_fvg cfg)" "displacement_config_valid (sg_displacement cfg)"
    using assms(1) by (simp_all add: signal_configs_valid_def)
  let ?i = "indicators_of tf (sg_macd cfg) (sg_atr cfg) candles"
  have i: "calculate_indicators candles tf (sg_macd cfg) (sg_atr cfg) = Inr ?i"
    by (rule indicators_returned [OF cfg(2) analysis_events(2) [OF cfg(1) assms(3)]])
  obtain f where f: "analyze_fvg candles tf (sg_fvg cfg) (Some (ia_atr ?i)) = Inr f"
    using analyze_fvg_total [OF cfg(3) assms(2) atr_points_accepted [OF assms(4)]] by blast
  have "validate_displacement_inputs candles tf (mr_structure_events s) (fa_zones f) (sg_displacement cfg) = Inr ()"
    using assms(5) cfg(4) structure_events_fit [OF cfg(1) assms(3)] gap_zones_fit [OF f]
    by (simp add: validate_displacement_Inr validate_tick_candles_Inr displacement_config_valid_def)
  then obtain d where "analyze_displacement candles tf (mr_structure_events s) (sg_displacement cfg) (fa_zones f) = Inr d"
    using analyze_displacement_returns [OF cfg(4)] by blast
  then show ?thesis using assms(3) i f by (simp add: analyze_signal_def)
qed

text \<open>
  C40: the engines hand each other what the next one accepts, and nothing hands on the future. Whenever the
  analyses of all candles return, so do those of the first \<open>n\<close>, and with exactly what was known when the
  \<open>n\<close>-th candle closed: the swings, breaks and displacement legs confirmed by then, the same indicator
  points, and the gaps confirmed by then, up to their later lifecycle.
\<close>

theorem signal_never_looks_ahead:
  assumes "signal_configs_valid cfg" "\<forall>c\<in>set candles. candle_valid c"
    and "analyze_signal cfg tf candles = Inr (s, i, f, d)" "0 < n" "n \<le> length candles"
    and "cutoff = c_timestamp (candles ! (n - 1)) + timeframe_duration tf"
  shows "\<exists>s' i' f' d'. analyze_signal cfg tf (take n candles) = Inr (s', i', f', d')
    \<and> mr_confirmed_swings s' = filter (\<lambda>x. cs_confirmed_at x \<le> cutoff) (mr_confirmed_swings s)
    \<and> mr_structure_events s' = filter (\<lambda>e. se_confirmed_at e \<le> cutoff) (mr_structure_events s)
    \<and> md_points (ia_macd i') = take n (md_points (ia_macd i))
    \<and> ar_points (ia_atr i') = take n (ar_points (ia_atr i))
    \<and> list_all2 gap_kept (fa_zones f') (filter (\<lambda>z. gz_confirmed_at z \<le> cutoff) (fa_zones f))
    \<and> da_legs d' = filter (\<lambda>l. dl_confirmed_at l \<le> cutoff) (da_legs d)"
proof -
  have cfg: "structure_config_valid (sg_structure cfg)" "macd_config_valid (sg_macd cfg)" "atr_config_valid (sg_atr cfg)"
      "fvg_config_valid (sg_fvg cfg)" "displacement_config_valid (sg_displacement cfg)"
    using assms(1) by (simp_all add: signal_configs_valid_def)
  note r = analyze_signal_Inr [OF assms(1,3)]
  obtain s' where s': "analyze_market_structure (take n candles) tf (sg_structure cfg) = Inr s'"
      "mr_structure_events s' = filter (\<lambda>e. se_confirmed_at e \<le> cutoff) (mr_structure_events s)"
      "mr_confirmed_swings s' = filter (\<lambda>x. cs_confirmed_at x \<le> cutoff) (mr_confirmed_swings s)"
    using structure_prefix [OF cfg(1) assms(2) r(1) assms(4,5)] assms(6) by blast
  let ?i = "indicators_of tf (sg_macd cfg) (sg_atr cfg) (take n candles)"
  have i': "calculate_indicators (take n candles) tf (sg_macd cfg) (sg_atr cfg) = Inr ?i"
    by (rule indicators_returned [OF cfg(2) analysis_events(2) [OF cfg(1) s'(1)]])
  have points: "md_points (ia_macd ?i) = take n (md_points (ia_macd i))" "ar_points (ia_atr ?i) = take n (ar_points (ia_atr i))"
    by (simp_all add: r(2) indicators_of_def points_prefix [OF cfg(2,3)])
  have atr: "take_atr n (Some (ia_atr i)) = Some (ia_atr ?i)"
    by (simp add: take_atr_def r(2) indicators_of_def points_prefix(2) [OF cfg(2,3)])
  obtain f' where f': "analyze_fvg (take n candles) tf (sg_fvg cfg) (Some (ia_atr ?i)) = Inr f'"
      "list_all2 gap_kept (fa_zones f') (filter (\<lambda>z. gz_confirmed_at z \<le> cutoff) (fa_zones f))"
      "map gap_core_of (fa_zones f') = map gap_core_of (filter (\<lambda>z. gz_confirmed_at z \<le> cutoff) (fa_zones f))"
    using fvg_prefix [OF cfg(4) assms(2) r(3) assms(4,5)] unfolding atr assms(6) by blast
  obtain d0 where d0: "analyze_displacement (take n candles) tf (mr_structure_events s') (sg_displacement cfg)
        (filter (\<lambda>z. gz_confirmed_at z \<le> cutoff) (fa_zones f)) = Inr d0"
      "da_legs d0 = filter (\<lambda>l. dl_confirmed_at l \<le> cutoff) (da_legs d)"
    using displacement_prefix [OF cfg(5) r(4) assms(4,5,6)] fvg_sources_closed [OF cfg(4) r(3)] s'(2) by auto
  obtain d' where d': "analyze_displacement (take n candles) tf (mr_structure_events s') (sg_displacement cfg) (fa_zones f') = Inr d'"
      "da_legs d' = da_legs d0"
    using displacement_cores [OF cfg(5) f'(3) d0(1)] by blast
  have "analyze_signal cfg tf (take n candles) = Inr (s', ?i, f', d')"
    by (simp add: analyze_signal_def s'(1) i' f'(1) d'(1))
  then show ?thesis using s'(2,3) points f'(2) d'(2) d0(2) by metis
qed

section \<open>A sample\<close>

definition sample_signal_configs :: signal_configs where
  "sample_signal_configs =
     \<lparr>sg_structure = sample_structure_config, sg_macd = sample_macd_config, sg_atr = sample_atr_config,
      sg_fvg = sample_fvg_config, sg_displacement = sample_displacement_config\<rparr>"

lemma sample_signal_valid: "signal_configs_valid sample_signal_configs"
  by (simp add: signal_configs_valid_def sample_signal_configs_def sample_structure_valid(1)
      sample_configs_valid sample_fvg_valid sample_displacement_valid)

lemma sample_signal_ticks:
  "validate_tick_candles FVGInputError sample_bars ONE_MINUTE (fv_tick_size sample_fvg_config) = Inr ()"
  "validate_tick_candles DisplacementInputError sample_bars ONE_MINUTE (dc_tick_size sample_displacement_config) = Inr ()"
proof -
  have "fv_tick_size sample_fvg_config = ms_tick_size sample_structure_config"
    "dc_tick_size sample_displacement_config = ms_tick_size sample_structure_config"
    by (simp_all add: sample_fvg_config_def sample_displacement_config_def sample_structure_config_def)
  moreover have "0 < ms_tick_size sample_structure_config" by (simp add: sample_structure_config_def)
  ultimately show "validate_tick_candles FVGInputError sample_bars ONE_MINUTE (fv_tick_size sample_fvg_config) = Inr ()"
    "validate_tick_candles DisplacementInputError sample_bars ONE_MINUTE (dc_tick_size sample_displacement_config) = Inr ()"
    using sample_structure_validated
    by (simp_all add: validate_structure_candles_def validate_tick_candles_Inr)
qed

definition sample_signal :: signal_analysis where
  "sample_signal = (case analyze_signal sample_signal_configs ONE_MINUTE sample_bars of Inr r \<Rightarrow> r)"

lemma sample_signal_returned:
  "\<exists>i f d. sample_signal = (sample_structure, i, f, d)
    \<and> analyze_signal sample_signal_configs ONE_MINUTE sample_bars = Inr (sample_structure, i, f, d)"
proof -
  have fields: "sg_structure sample_signal_configs = sample_structure_config"
      "sg_fvg sample_signal_configs = sample_fvg_config" "sg_displacement sample_signal_configs = sample_displacement_config"
    by (simp_all add: sample_signal_configs_def)
  obtain f d where "analyze_signal sample_signal_configs ONE_MINUTE sample_bars = Inr
      (sample_structure, indicators_of ONE_MINUTE (sg_macd sample_signal_configs) (sg_atr sample_signal_configs) sample_bars, f, d)"
    using signal_accepted [OF sample_signal_valid sample_structure_valid(2), of ONE_MINUTE sample_structure,
        unfolded fields, OF sample_structure_returned sample_signal_ticks] by blast
  then show ?thesis by (simp add: sample_signal_def)
qed

text \<open>At four of the five candles the swings are known and the break of the last candle is not.\<close>

theorem signal_never_looks_ahead_witness:
  "\<exists>s i f d. analyze_signal sample_signal_configs ONE_MINUTE (take 4 sample_bars) = Inr (s, i, f, d)
    \<and> mr_structure_events s = filter (\<lambda>e. se_confirmed_at e \<le> minutes 4) (mr_structure_events sample_structure)"
proof -
  obtain i f d where returned: "analyze_signal sample_signal_configs ONE_MINUTE sample_bars = Inr (sample_structure, i, f, d)"
    using sample_signal_returned by blast
  have "0 < (4::nat)" "4 \<le> length sample_bars"
    "minutes 4 = c_timestamp (sample_bars ! (4 - 1)) + timeframe_duration ONE_MINUTE"
    by (simp_all add: sample_bars_def sample_bar_def minutes_def seconds_def)
  from signal_never_looks_ahead [OF sample_signal_valid sample_structure_valid(2) returned this]
  show ?thesis by blast
qed

end
