(* ===== verification/Liquidity.thy ===== *)
theory Liquidity
  imports Market_Data
begin

text \<open>
  The liquidity data model (\<open>schemas/liquidity.py\<close>): pools, the interactions with a pool, and the
  append-only history from which \<open>snapshot_at\<close> rebuilds the state a pool had at a cutoff. A model
  class is a record; its constructor is \<open>make_...\<close>, which runs the field constraints and the
  validator in the order of the class.
\<close>

datatype liquidity_direction = BUY_SIDE | SELL_SIDE

datatype liquidity_formation = SWING | EQUAL | RELATIVE_EQUAL

datatype liquidity_event_type =
  BUY_SIDE_LIQUIDITY | SELL_SIDE_LIQUIDITY | EQUAL_HIGHS | EQUAL_LOWS

datatype liquidity_pool_state = POOL_ACTIVE | POOL_SWEPT | POOL_TAKEN | POOL_EXPIRED

datatype liquidity_termination_reason = TR_CLOSE_THROUGH | TR_MAX_AGE_EXCEEDED

datatype liquidity_history_event_type =
  HE_CREATED | HE_MEMBERS_UPDATED | HE_TOUCHED | HE_SWEPT | HE_TAKEN | HE_EXPIRED

datatype liquidity_interaction_type = TOUCH | SWEEP | TAKEN

datatype liquidity_confirmation =
    CONFIRMED_SWING | CONFIRMED_EQUAL_CLUSTER | CONFIRMED_RELATIVE_EQUAL_CLUSTER
  | BOUNDARY_TOUCH | CLOSE_BACK | CLOSE_THROUGH

record liquidity_interaction =
  li_event_id :: string
  li_type :: liquidity_interaction_type
  li_direction :: liquidity_direction
  li_level :: price
  li_created_at :: utc_time
  li_swept_at :: "utc_time option"
  li_confirmation :: liquidity_confirmation
  li_source_structure :: "string list"
  li_pool_id :: string
  li_timestamp :: utc_time
  li_confirmed_at :: utc_time

definition make_interaction :: "liquidity_interaction \<Rightarrow> liquidity_interaction result" where
  "make_interaction i =
     (if li_level i \<le> 0 then Inl (ValidationError ''level'')
      else if li_confirmed_at i \<le> li_timestamp i
      then Inl (ValidationError
        ''confirmed_at must be later than the interaction candle timestamp'')
      else if li_type i = SWEEP \<and> li_swept_at i \<noteq> Some (li_confirmed_at i)
      then Inl (ValidationError ''a sweep event must expose its own confirmation as swept_at'')
      else if li_type i \<noteq> SWEEP \<and> li_swept_at i \<noteq> None
      then Inl (ValidationError ''only a sweep interaction may set swept_at'')
      else Inr i)"

record liquidity_history_entry =
  lh_sequence :: int
  lh_event_type :: liquidity_history_event_type
  lh_available_at :: utc_time
  lh_type :: liquidity_event_type
  lh_formation :: liquidity_formation
  lh_level :: price
  lh_lower_bound :: price
  lh_upper_bound :: price
  lh_state :: liquidity_pool_state
  lh_terminal_reason :: "liquidity_termination_reason option"
  lh_confirmation :: liquidity_confirmation
  lh_source_structure :: "string list"
  lh_source_prices :: "price list"
  lh_source_pivot_timestamps :: "utc_time list"
  lh_members_available_at :: "utc_time list"
  lh_swept_at :: "utc_time option"
  lh_interaction_event_id :: "string option"

definition make_history_entry :: "liquidity_history_entry \<Rightarrow> liquidity_history_entry result" where
  "make_history_entry h =
     (if lh_sequence h < 0 \<or> lh_level h \<le> 0 \<or> lh_lower_bound h \<le> 0 \<or> lh_upper_bound h \<le> 0
      then Inl (ValidationError ''history field'')
      else if lh_lower_bound h > lh_upper_bound h
      then Inl (ValidationError ''history lower_bound must not exceed upper_bound'')
      else let member_count = length (lh_source_structure h)
      in if member_count = 0
      then Inl (ValidationError ''history entry must contain source members'')
      else if \<not> (member_count = length (lh_source_prices h)
        \<and> length (lh_source_prices h) = length (lh_source_pivot_timestamps h)
        \<and> length (lh_source_pivot_timestamps h) = length (lh_members_available_at h))
      then Inl (ValidationError ''history member fields must have matching counts'')
      else if list_ex (\<lambda>t. t > lh_available_at h) (lh_members_available_at h)
      then Inl (ValidationError ''history cannot expose a member before it was confirmed'')
      else Inr h)"

definition history_entry_valid :: "liquidity_history_entry \<Rightarrow> bool" where
  "history_entry_valid h \<longleftrightarrow> make_history_entry h = Inr h"

record liquidity_pool =
  lp_pool_id :: string
  lp_type :: liquidity_event_type
  lp_direction :: liquidity_direction
  lp_formation :: liquidity_formation
  lp_level :: price
  lp_lower_bound :: price
  lp_upper_bound :: price
  lp_state :: liquidity_pool_state
  lp_terminal_reason :: "liquidity_termination_reason option"
  lp_created_at :: utc_time
  lp_confirmed_at :: utc_time
  lp_updated_at :: utc_time
  lp_swept_at :: "utc_time option"
  lp_confirmation :: liquidity_confirmation
  lp_source_structure :: "string list"
  lp_source_prices :: "price list"
  lp_source_pivot_timestamps :: "utc_time list"
  lp_members_available_at :: "utc_time list"
  lp_interactions :: "liquidity_interaction list"
  lp_history :: "liquidity_history_entry list"

text \<open>The tuples the validator compares: the latest history entry against the exposed state.\<close>

definition final_state_matches :: "liquidity_history_entry \<Rightarrow> liquidity_pool \<Rightarrow> bool" where
  "final_state_matches latest p \<longleftrightarrow>
     lh_type latest = lp_type p \<and> lh_formation latest = lp_formation p
     \<and> lh_level latest = lp_level p \<and> lh_lower_bound latest = lp_lower_bound p
     \<and> lh_upper_bound latest = lp_upper_bound p \<and> lh_state latest = lp_state p
     \<and> lh_terminal_reason latest = lp_terminal_reason p
     \<and> lh_confirmation latest = lp_confirmation p
     \<and> lh_source_structure latest = lp_source_structure p
     \<and> lh_source_prices latest = lp_source_prices p
     \<and> lh_source_pivot_timestamps latest = lp_source_pivot_timestamps p
     \<and> lh_members_available_at latest = lp_members_available_at p
     \<and> lh_swept_at latest = lp_swept_at p \<and> lh_available_at latest = lp_updated_at p"

definition make_pool :: "liquidity_pool \<Rightarrow> liquidity_pool result" where
  "make_pool p =
     (if lp_level p \<le> 0 \<or> lp_lower_bound p \<le> 0 \<or> lp_upper_bound p \<le> 0 \<or> lp_history p = []
      then Inl (ValidationError ''pool field'')
      else if lp_lower_bound p > lp_upper_bound p
      then Inl (ValidationError ''liquidity pool lower_bound must not exceed upper_bound'')
      else let member_count = length (lp_source_structure p)
      in if member_count = 0
      then Inl (ValidationError ''liquidity pool must reference source structure'')
      else if \<not> (member_count = length (lp_source_prices p)
        \<and> length (lp_source_prices p) = length (lp_source_pivot_timestamps p)
        \<and> length (lp_source_pivot_timestamps p) = length (lp_members_available_at p))
      then Inl (ValidationError ''liquidity pool member fields must have matching counts'')
      else if lp_confirmed_at p \<noteq> lp_created_at p
      then Inl (ValidationError ''pool confirmed_at must equal its creation confirmation'')
      else if lp_state p = POOL_SWEPT \<and> lp_swept_at p = None
      then Inl (ValidationError ''a swept pool must set swept_at'')
      else if map lh_sequence (lp_history p) \<noteq> map int [0..<length (lp_history p)]
      then Inl (ValidationError ''liquidity history sequence must be contiguous and append-only'')
      else if lh_event_type (hd (lp_history p)) \<noteq> HE_CREATED
      then Inl (ValidationError ''liquidity history must begin with CREATED'')
      else if lh_available_at (hd (lp_history p)) \<noteq> lp_created_at p
      then Inl (ValidationError
        ''first liquidity history entry must be available at created_at'')
      else if list_ex (\<lambda>(previous, current). lh_available_at current < lh_available_at previous)
        (adjacent (lp_history p))
      then Inl (ValidationError ''liquidity history must be chronological'')
      else if \<not> final_state_matches (last (lp_history p)) p
      then Inl (ValidationError ''top-level pool state must equal its latest history entry'')
      else Inr p)"

definition pool_valid :: "liquidity_pool \<Rightarrow> bool" where
  "pool_valid p \<longleftrightarrow> make_pool p = Inr p"

text \<open>The state a pool had at a cutoff, rebuilt from the visible part of its history.\<close>

definition snapshot_state ::
  "liquidity_pool \<Rightarrow> utc_time \<Rightarrow> liquidity_history_entry list \<Rightarrow> liquidity_pool" where
  "snapshot_state p cutoff visible_history =
     (let latest = last visible_history in
      \<lparr>lp_pool_id = lp_pool_id p, lp_type = lh_type latest, lp_direction = lp_direction p,
       lp_formation = lh_formation latest, lp_level = lh_level latest,
       lp_lower_bound = lh_lower_bound latest, lp_upper_bound = lh_upper_bound latest,
       lp_state = lh_state latest, lp_terminal_reason = lh_terminal_reason latest,
       lp_created_at = lp_created_at p, lp_confirmed_at = lp_confirmed_at p,
       lp_updated_at = lh_available_at latest, lp_swept_at = lh_swept_at latest,
       lp_confirmation = lh_confirmation latest,
       lp_source_structure = lh_source_structure latest,
       lp_source_prices = lh_source_prices latest,
       lp_source_pivot_timestamps = lh_source_pivot_timestamps latest,
       lp_members_available_at = lh_members_available_at latest,
       lp_interactions = filter (\<lambda>i. li_confirmed_at i \<le> cutoff) (lp_interactions p),
       lp_history = visible_history\<rparr>)"

definition snapshot_at :: "liquidity_pool \<Rightarrow> utc_time \<Rightarrow> liquidity_pool option result" where
  "snapshot_at p cutoff =
     (let visible_history = filter (\<lambda>h. lh_available_at h \<le> cutoff) (lp_history p)
      in if visible_history = [] then Inr None
         else bind_result (make_pool (snapshot_state p cutoff visible_history))
                (\<lambda>s. Inr (Some s)))"

section \<open>Properties of snapshots\<close>

lemma pool_valid_iff [valid_defs]:
  "pool_valid p \<longleftrightarrow>
     0 < lp_level p \<and> 0 < lp_lower_bound p \<and> 0 < lp_upper_bound p \<and> lp_history p \<noteq> []
     \<and> lp_lower_bound p \<le> lp_upper_bound p \<and> lp_source_structure p \<noteq> []
     \<and> length (lp_source_prices p) = length (lp_source_structure p)
     \<and> length (lp_source_pivot_timestamps p) = length (lp_source_structure p)
     \<and> length (lp_members_available_at p) = length (lp_source_structure p)
     \<and> lp_confirmed_at p = lp_created_at p
     \<and> (lp_state p = POOL_SWEPT \<longrightarrow> lp_swept_at p \<noteq> None)
     \<and> map lh_sequence (lp_history p) = map int [0..<length (lp_history p)]
     \<and> lh_event_type (hd (lp_history p)) = HE_CREATED
     \<and> lh_available_at (hd (lp_history p)) = lp_created_at p
     \<and> sorted (map lh_available_at (lp_history p))
     \<and> final_state_matches (last (lp_history p)) p"
  unfolding pool_valid_def make_pool_def Let_def
  by (auto simp: not_le not_less split: if_splits)

lemma history_entry_valid_iff [valid_defs]:
  "history_entry_valid h \<longleftrightarrow>
     0 \<le> lh_sequence h \<and> 0 < lh_level h \<and> 0 < lh_lower_bound h \<and> 0 < lh_upper_bound h
     \<and> lh_lower_bound h \<le> lh_upper_bound h \<and> lh_source_structure h \<noteq> []
     \<and> length (lh_source_prices h) = length (lh_source_structure h)
     \<and> length (lh_source_pivot_timestamps h) = length (lh_source_structure h)
     \<and> length (lh_members_available_at h) = length (lh_source_structure h)
     \<and> (\<forall>t\<in>set (lh_members_available_at h). t \<le> lh_available_at h)"
  unfolding history_entry_valid_def make_history_entry_def Let_def
  by (auto simp: not_le not_less list_ex_iff split: if_splits)

text \<open>
  The history entries of a pool are valid, and an entry in state \<open>SWEPT\<close> carries the sweep time. The
  history validator does not check the second part; the pool validator checks it of the exposed
  state only.
\<close>

definition history_wf :: "liquidity_history_entry list \<Rightarrow> bool" where
  "history_wf hs \<longleftrightarrow>
     (\<forall>h\<in>set hs. history_entry_valid h \<and> (lh_state h = POOL_SWEPT \<longrightarrow> lh_swept_at h \<noteq> None))"

lemma snapshot_state_valid:
  assumes p: "pool_valid p" and wf: "history_wf (lp_history p)"
    and vis: "lp_history p = visible @ rest" "visible \<noteq> []"
  shows "pool_valid (snapshot_state p cutoff visible)"
proof -
  let ?l = "last visible"
  have l: "?l \<in> set (lp_history p)" using vis by simp
  then have h: "history_entry_valid ?l" "lh_state ?l = POOL_SWEPT \<longrightarrow> lh_swept_at ?l \<noteq> None"
    using wf by (auto simp: history_wf_def)
  have seq: "map lh_sequence visible = map int [0..<length visible]"
  proof -
    have "map lh_sequence (visible @ rest) = map int [0..<length visible + length rest]"
      using p vis(1) by (simp add: pool_valid_iff)
    then have "take (length visible) (map lh_sequence (visible @ rest))
        = take (length visible) (map int [0..<length visible + length rest])" by simp
    then show ?thesis by (simp add: take_map)
  qed
  have "hd (lp_history p) = hd visible" using vis by (simp add: hd_append)
  moreover have "sorted (map lh_available_at visible)"
    using p vis(1) by (simp add: pool_valid_iff sorted_append)
  ultimately show ?thesis
    using h p vis(2) seq unfolding pool_valid_iff history_entry_valid_iff
    by (simp add: snapshot_state_def Let_def final_state_matches_def)
qed

text \<open>
  A snapshot of a well-formed pool never fails: before its creation the pool is absent, and from
  then on the snapshot is a valid pool that knows nothing later than the cutoff.
\<close>

theorem snapshot_at_point_in_time:
  assumes p: "pool_valid p" and wf: "history_wf (lp_history p)"
  shows "if cutoff < lp_created_at p then snapshot_at p cutoff = Inr None
     else \<exists>s. snapshot_at p cutoff = Inr (Some s) \<and> pool_valid s
        \<and> lp_created_at s = lp_created_at p \<and> lp_updated_at s \<le> cutoff
        \<and> (\<forall>h\<in>set (lp_history s). lh_available_at h \<le> cutoff)
        \<and> (\<forall>i\<in>set (lp_interactions s). li_confirmed_at i \<le> cutoff)"
proof -
  let ?vis = "filter (\<lambda>h. lh_available_at h \<le> cutoff) (lp_history p)"
  have hist: "lp_history p \<noteq> []" "sorted (map lh_available_at (lp_history p))"
    and first: "lh_available_at (hd (lp_history p)) = lp_created_at p"
    using p by (simp_all add: pool_valid_iff)
  obtain a hs where ahs: "lp_history p = a # hs" using hist(1) by (cases "lp_history p") auto
  have empty: "?vis = [] \<longleftrightarrow> cutoff < lp_created_at p"
    using hist(2) first by (auto simp: ahs filter_empty_conv not_le)
  show ?thesis
  proof (cases "?vis = []")
    case True
    then show ?thesis using empty by (simp add: snapshot_at_def)
  next
    case False
    obtain rest where rest: "lp_history p = ?vis @ rest"
      using filter_le_prefix [OF hist(2), of cutoff] by blast
    have v: "pool_valid (snapshot_state p cutoff ?vis)"
      using snapshot_state_valid [OF p wf rest False] .
    moreover have "last ?vis \<in> set ?vis" using False by (rule last_in_set)
    then have "lh_available_at (last ?vis) \<le> cutoff" by simp
    ultimately show ?thesis
      using False empty by (simp add: snapshot_at_def pool_valid_def) (simp add: snapshot_state_def Let_def)
  qed
qed

section \<open>A sample pool\<close>

definition sample_entry :: "int \<Rightarrow> utc_time \<Rightarrow> liquidity_history_event_type \<Rightarrow>
    liquidity_pool_state \<Rightarrow> price \<Rightarrow> liquidity_history_entry" where
  "sample_entry n t e st l =
     \<lparr>lh_sequence = n, lh_event_type = e, lh_available_at = t, lh_type = BUY_SIDE_LIQUIDITY,
      lh_formation = SWING, lh_level = l, lh_lower_bound = l, lh_upper_bound = l,
      lh_state = st, lh_terminal_reason = None, lh_confirmation = CONFIRMED_SWING,
      lh_source_structure = [''s''], lh_source_prices = [l], lh_source_pivot_timestamps = [0],
      lh_members_available_at = [0], lh_swept_at = None, lh_interaction_event_id = None\<rparr>"

definition sample_pool :: "price \<Rightarrow> liquidity_pool" where
  "sample_pool l = snapshot_state
     \<lparr>lp_pool_id = ''p'', lp_type = BUY_SIDE_LIQUIDITY, lp_direction = BUY_SIDE,
      lp_formation = SWING, lp_level = l, lp_lower_bound = l, lp_upper_bound = l,
      lp_state = POOL_ACTIVE, lp_terminal_reason = None, lp_created_at = 1, lp_confirmed_at = 1,
      lp_updated_at = 1, lp_swept_at = None, lp_confirmation = CONFIRMED_SWING,
      lp_source_structure = [''s''], lp_source_prices = [l], lp_source_pivot_timestamps = [0],
      lp_members_available_at = [0], lp_interactions = [], lp_history = []\<rparr> 9
     [sample_entry 0 1 HE_CREATED POOL_ACTIVE l, sample_entry 1 5 HE_TAKEN POOL_TAKEN l]"

lemmas sample_pool_defs = sample_pool_def snapshot_state_def sample_entry_def Let_def

lemma sample_pool_valid: "0 < l \<Longrightarrow> pool_valid (sample_pool l)"
  by (simp add: pool_valid_iff sample_pool_defs final_state_matches_def)

lemma sample_pool_wf: "0 < l \<Longrightarrow> history_wf (lp_history (sample_pool l))"
  by (simp add: history_wf_def history_entry_valid_iff sample_pool_defs)

end
