(* ===== verification/Liquidity_Engine.thy ===== *)
theory Liquidity_Engine
  imports Liquidity Market_Structure Indicators "HOL-Library.AList"
begin

text \<open>
  The liquidity engine (\<open>engines/structure/liquidity.py\<close>, with the configuration and the result of
  \<open>schemas/liquidity.py\<close>): pools from confirmed swings and from clusters of nearly equal swings, their
  touches, sweeps, closes through and expiry, and the append-only history of each.

  The mutable \<open>_PoolState\<close> objects live in a store and are named by their position in it, in the order of
  their creation; a \<open>_ClusterState\<close> is named by its direction and its position in \<open>clusters[direction]\<close>.
  The engine does not look at every pool on every bar: it keeps the pools sorted by the price at which they
  can react, a heap of their ages and the clusters sorted by price. The second half of the theory shows that
  none of this is visible: the result is that of the plain loops over all live pools and clusters.
\<close>

section \<open>Configuration and result\<close>

record liquidity_config =
  lq_tick_size :: rat
  lq_include_single_swing_pools :: bool
  lq_single_pool_half_width_ticks :: nat
  lq_equal_tolerance_ticks :: rat
  lq_relative_equal_atr_ratio :: rat
  lq_cluster_min_touches :: nat
  lq_cluster_padding_ticks :: nat
  lq_sweep_min_penetration_ticks :: nat
  lq_taken_buffer_ticks :: nat
  lq_pool_max_age_bars :: nat
  lq_signal_allow_dual_sweep :: bool

definition liquidity_config_valid :: "liquidity_config \<Rightarrow> bool" where
  "liquidity_config_valid cfg \<longleftrightarrow>
     0 < lq_tick_size cfg \<and> 0 \<le> lq_equal_tolerance_ticks cfg \<and> 0 \<le> lq_relative_equal_atr_ratio cfg
     \<and> 2 \<le> lq_cluster_min_touches cfg \<and> 1 \<le> lq_pool_max_age_bars cfg"

record dual_sweep_group =
  dg_group_id :: string
  dg_timestamp :: utc_time
  dg_confirmed_at :: utc_time
  dg_buy_side_event_ids :: "string list"
  dg_sell_side_event_ids :: "string list"

record liquidity_analysis =
  la_timeframe :: timeframe
  la_config :: liquidity_config
  la_candle_count :: nat
  la_data_cutoff_at :: "utc_time option"
  la_pools :: "liquidity_pool list"
  la_interactions :: "liquidity_interaction list"
  la_dual_sweeps :: "dual_sweep_group list"

fun liquidity_direction_value :: "liquidity_direction \<Rightarrow> string" where
  "liquidity_direction_value BUY_SIDE = ''BUY_SIDE''"
| "liquidity_direction_value SELL_SIDE = ''SELL_SIDE''"

fun interaction_type_value :: "liquidity_interaction_type \<Rightarrow> string" where
  "interaction_type_value TOUCH = ''TOUCH''"
| "interaction_type_value SWEEP = ''SWEEP''"
| "interaction_type_value TAKEN = ''TAKEN''"

section \<open>Pools and clusters\<close>

record cluster_state =
  kl_direction :: liquidity_direction
  kl_anchor_price :: price
  kl_members :: "confirmed_swing list"
  kl_contains_relative_member :: bool
  kl_pool :: "nat option"

text \<open>
  The fields that the equality of the dataclass compares; \<open>interaction_reach\<close>, which it does not, is kept
  beside the store.
\<close>

record pool_state =
  pl_pool_id :: string
  pl_direction :: liquidity_direction
  pl_formation :: liquidity_formation
  pl_level :: price
  pl_lower_bound :: price
  pl_upper_bound :: price
  pl_created_at :: utc_time
  pl_updated_at :: utc_time
  pl_created_bar_index :: nat
  pl_confirmation :: liquidity_confirmation
  pl_source_structure :: "string list"
  pl_source_prices :: "price list"
  pl_source_pivot_timestamps :: "utc_time list"
  pl_members_available_at :: "utc_time list"
  pl_state :: liquidity_pool_state
  pl_terminal_reason :: "liquidity_termination_reason option"
  pl_swept_at :: "utc_time option"
  pl_interactions :: "liquidity_interaction list"
  pl_history :: "liquidity_history_entry list"

definition terminal_pool :: "pool_state \<Rightarrow> bool" where
  "terminal_pool pool \<longleftrightarrow> pl_state pool \<in> {POOL_TAKEN, POOL_EXPIRED}"

text \<open>The alignment of an ATR with the candles, and of the swings with their confirmations.\<close>

definition check_swing_order :: "confirmed_swing \<times> confirmed_swing \<Rightarrow> unit result" where
  "check_swing_order = (\<lambda>(previous_swing, current_swing).
     require (\<not> cs_confirmed_at current_swing < cs_confirmed_at previous_swing)
       (LiquidityInputError ''confirmed swings must be in confirmation order''))"

definition check_atr_points :: "candle list \<Rightarrow> atr_result option \<Rightarrow> unit result" where
  "check_atr_points candles atr_result =
     (case atr_result of
        None \<Rightarrow> Inr ()
      | Some atr \<Rightarrow>
          if length (ar_points atr) \<noteq> length candles
          then Inl (LiquidityInputError ''ATR points must align one-to-one with candles'')
          else check_all (\<lambda>(c, p). require (\<not> c_timestamp c \<noteq> ap_timestamp p)
                 (LiquidityInputError ''ATR timestamps must align with candle timestamps''))
               (zip candles (ar_points atr)))"

definition validate_liquidity_inputs ::
  "candle list \<Rightarrow> timeframe \<Rightarrow> confirmed_swing list \<Rightarrow> liquidity_config \<Rightarrow> atr_result option \<Rightarrow> unit result" where
  "validate_liquidity_inputs candles tf swings cfg atr_result =
     bind_result (validate_tick_candles LiquidityInputError candles tf (lq_tick_size cfg)) (\<lambda>_.
     bind_result (check_all check_swing_order (adjacent swings)) (\<lambda>_.
     check_atr_points candles atr_result))"

definition side_for :: "confirmed_swing \<Rightarrow> liquidity_direction" where
  "side_for swing = (if cs_kind swing = HIGH then BUY_SIDE else SELL_SIDE)"

definition pool_event_type :: "liquidity_direction \<Rightarrow> liquidity_formation \<Rightarrow> liquidity_event_type" where
  "pool_event_type direction formation =
     (if formation = SWING
      then if direction = BUY_SIDE then BUY_SIDE_LIQUIDITY else SELL_SIDE_LIQUIDITY
      else if direction = BUY_SIDE then EQUAL_HIGHS else EQUAL_LOWS)"

definition confirmation_for :: "liquidity_formation \<Rightarrow> liquidity_confirmation" where
  "confirmation_for formation =
     (if formation = SWING then CONFIRMED_SWING
      else if formation = RELATIVE_EQUAL then CONFIRMED_RELATIVE_EQUAL_CLUSTER
      else CONFIRMED_EQUAL_CLUSTER)"

definition record_history ::
  "liquidity_history_event_type \<Rightarrow> utc_time \<Rightarrow> string option \<Rightarrow> pool_state \<Rightarrow> pool_state result" where
  "record_history event_type available_at interaction_event_id pool =
     bind_result (make_history_entry
       \<lparr>lh_sequence = int (length (pl_history pool)), lh_event_type = event_type,
        lh_available_at = available_at, lh_type = pool_event_type (pl_direction pool) (pl_formation pool),
        lh_formation = pl_formation pool, lh_level = pl_level pool,
        lh_lower_bound = pl_lower_bound pool, lh_upper_bound = pl_upper_bound pool,
        lh_state = pl_state pool, lh_terminal_reason = pl_terminal_reason pool,
        lh_confirmation = pl_confirmation pool, lh_source_structure = pl_source_structure pool,
        lh_source_prices = pl_source_prices pool,
        lh_source_pivot_timestamps = pl_source_pivot_timestamps pool,
        lh_members_available_at = pl_members_available_at pool, lh_swept_at = pl_swept_at pool,
        lh_interaction_event_id = interaction_event_id\<rparr>) (\<lambda>entry.
       Inr (pool\<lparr>pl_history := pl_history pool @ [entry]\<rparr>))"

definition new_single_pool :: "confirmed_swing \<Rightarrow> liquidity_config \<Rightarrow> nat \<Rightarrow> pool_state result" where
  "new_single_pool swing cfg created_bar_index =
     (let direction = side_for swing;
          half_width = dmul (of_nat (lq_single_pool_half_width_ticks cfg)) (lq_tick_size cfg)
      in record_history HE_CREATED (cs_confirmed_at swing) None
        \<lparr>pl_pool_id = ''LIQ:SWING:'' @ liquidity_direction_value direction @ '':'' @ cs_swing_id swing,
         pl_direction = direction, pl_formation = SWING, pl_level = cs_price swing,
         pl_lower_bound = dsub (cs_price swing) half_width, pl_upper_bound = dadd (cs_price swing) half_width,
         pl_created_at = cs_confirmed_at swing, pl_updated_at = cs_confirmed_at swing,
         pl_created_bar_index = created_bar_index, pl_confirmation = CONFIRMED_SWING,
         pl_source_structure = [cs_swing_id swing], pl_source_prices = [cs_price swing],
         pl_source_pivot_timestamps = [cs_pivot_timestamp swing],
         pl_members_available_at = [cs_confirmed_at swing], pl_state = POOL_ACTIVE,
         pl_terminal_reason = None, pl_swept_at = None, pl_interactions = [], pl_history = []\<rparr>)"

text \<open>A swing joins a cluster by the distance to its anchor, in ticks or relative to the ATR.\<close>

definition membership ::
  "price \<Rightarrow> confirmed_swing \<Rightarrow> rat option \<Rightarrow> liquidity_config \<Rightarrow> liquidity_formation option" where
  "membership anchor_price swing atr cfg =
     (let distance = dabs (dsub (cs_price swing) anchor_price);
          tick_distance = ddiv distance (lq_tick_size cfg)
      in if tick_distance \<le> lq_equal_tolerance_ticks cfg then Some EQUAL
         else case atr of
           None \<Rightarrow> None
         | Some a \<Rightarrow>
             if 0 < a \<and> ddiv distance a \<le> lq_relative_equal_atr_ratio cfg then Some RELATIVE_EQUAL
             else None)"

text \<open>An entry of the cluster index: the anchor price of a cluster, which never changes, and its ordinal.\<close>

type_synonym cluster_entry = "price \<times> nat"

definition matching_cluster_entry ::
  "cluster_entry list \<Rightarrow> confirmed_swing \<Rightarrow> rat option \<Rightarrow> liquidity_config \<Rightarrow> cluster_entry option" where
  "matching_cluster_entry entries swing atr cfg =
     (let cut = bisect (\<lambda>middle. fst (entries ! middle) < cs_price swing) 0 (length entries);
          first = bisect (\<lambda>middle. membership (fst (entries ! middle)) swing atr cfg = None) 0 cut;
          low = bisect (\<lambda>middle. membership (fst (entries ! middle)) swing atr cfg \<noteq> None) cut (length entries)
      in min_by snd (take (low - first) (drop first entries)))"

text \<open>The pool of a cluster: none below the minimum of touches, else a new one or the widened old one.\<close>

definition cluster_fields :: "cluster_state \<Rightarrow> liquidity_config \<Rightarrow> pool_state \<Rightarrow> pool_state" where
  "cluster_fields cluster cfg pool =
     (let formation = (if kl_contains_relative_member cluster then RELATIVE_EQUAL else EQUAL);
          padding = dmul (of_nat (lq_cluster_padding_ticks cfg)) (lq_tick_size cfg);
          prices = map cs_price (kl_members cluster)
      in pool\<lparr>pl_formation := formation, pl_lower_bound := dsub (Min (set prices)) padding,
          pl_upper_bound := dadd (Max (set prices)) padding,
          pl_updated_at := cs_confirmed_at (last (kl_members cluster)),
          pl_confirmation := confirmation_for formation,
          pl_source_structure := map cs_swing_id (kl_members cluster), pl_source_prices := prices,
          pl_source_pivot_timestamps := map cs_pivot_timestamp (kl_members cluster),
          pl_members_available_at := map cs_confirmed_at (kl_members cluster)\<rparr>)"

definition new_cluster_pool :: "cluster_state \<Rightarrow> liquidity_config \<Rightarrow> nat \<Rightarrow> pool_state result" where
  "new_cluster_pool cluster cfg confirmed_bar_index =
     (let latest = last (kl_members cluster)
      in record_history HE_CREATED (cs_confirmed_at latest) None
        (cluster_fields cluster cfg
          \<lparr>pl_pool_id = ''LIQ:CLUSTER:'' @ liquidity_direction_value (kl_direction cluster) @ '':''
             @ cs_swing_id (hd (kl_members cluster)) @ '':'' @ cs_swing_id latest,
           pl_direction = kl_direction cluster, pl_formation = EQUAL, pl_level = kl_anchor_price cluster,
           pl_lower_bound = 0, pl_upper_bound = 0, pl_created_at = cs_confirmed_at latest,
           pl_updated_at = cs_confirmed_at latest, pl_created_bar_index = confirmed_bar_index,
           pl_confirmation = CONFIRMED_EQUAL_CLUSTER, pl_source_structure = [], pl_source_prices = [],
           pl_source_pivot_timestamps = [], pl_members_available_at = [], pl_state = POOL_ACTIVE,
           pl_terminal_reason = None, pl_swept_at = None, pl_interactions = [], pl_history = []\<rparr>))"

definition widened_cluster_pool :: "cluster_state \<Rightarrow> liquidity_config \<Rightarrow> pool_state \<Rightarrow> pool_state result" where
  "widened_cluster_pool cluster cfg pool =
     record_history HE_MEMBERS_UPDATED (cs_confirmed_at (last (kl_members cluster))) None
       (cluster_fields cluster cfg pool)"

section \<open>Interactions\<close>

definition interaction_of ::
  "liquidity_interaction_type \<Rightarrow> candle \<Rightarrow> utc_time \<Rightarrow> liquidity_confirmation \<Rightarrow> pool_state
     \<Rightarrow> liquidity_interaction" where
  "interaction_of interaction_type bar confirmed_at confirmation pool =
     \<lparr>li_event_id = ''LIQ:'' @ interaction_type_value interaction_type @ '':''
        @ liquidity_direction_value (pl_direction pool) @ '':'' @ pl_pool_id pool @ '':''
        @ isoformat (c_timestamp bar),
      li_type = interaction_type, li_direction = pl_direction pool, li_level = pl_level pool,
      li_created_at = pl_created_at pool,
      li_swept_at = (if interaction_type = SWEEP then Some confirmed_at else None),
      li_confirmation = confirmation, li_source_structure = pl_source_structure pool,
      li_pool_id = pl_pool_id pool, li_timestamp = c_timestamp bar, li_confirmed_at = confirmed_at\<rparr>"

definition append_interaction ::
  "liquidity_interaction_type \<Rightarrow> candle \<Rightarrow> utc_time \<Rightarrow> liquidity_confirmation \<Rightarrow> pool_state
     \<Rightarrow> (liquidity_interaction \<times> pool_state) result" where
  "append_interaction interaction_type bar confirmed_at confirmation pool =
     bind_result (make_interaction (interaction_of interaction_type bar confirmed_at confirmation pool)) (\<lambda>event.
       Inr (event, pool\<lparr>pl_interactions := pl_interactions pool @ [event]\<rparr>))"

text \<open>The common end of the three branches: the interaction, then its history entry.\<close>

definition interact ::
  "liquidity_interaction_type \<Rightarrow> liquidity_confirmation \<Rightarrow> liquidity_history_event_type \<Rightarrow> candle \<Rightarrow> utc_time
     \<Rightarrow> pool_state \<Rightarrow> (liquidity_interaction option \<times> pool_state) result" where
  "interact interaction_type confirmation event_type bar confirmed_at pool =
     bind_result (append_interaction interaction_type bar confirmed_at confirmation pool) (\<lambda>(event, pool).
     bind_result (record_history event_type confirmed_at (Some (li_event_id event)) pool) (\<lambda>pool.
       Inr (Some event, pool)))"

definition break_buffer_of :: "liquidity_config \<Rightarrow> rat" where
  "break_buffer_of cfg = dmul (of_nat (lq_taken_buffer_ticks cfg)) (lq_tick_size cfg)"

definition penetration_of :: "liquidity_config \<Rightarrow> rat" where
  "penetration_of cfg = dmul (of_nat (lq_sweep_min_penetration_ticks cfg)) (lq_tick_size cfg)"

definition taken_by :: "liquidity_config \<Rightarrow> pool_state \<Rightarrow> candle \<Rightarrow> bool" where
  "taken_by cfg pool bar =
     (if pl_direction pool = BUY_SIDE then c_close bar > dadd (pl_upper_bound pool) (break_buffer_of cfg)
      else c_close bar < dsub (pl_lower_bound pool) (break_buffer_of cfg))"

definition swept_by :: "liquidity_config \<Rightarrow> pool_state \<Rightarrow> candle \<Rightarrow> bool" where
  "swept_by cfg pool bar =
     (if pl_direction pool = BUY_SIDE
      then c_high bar > dadd (pl_upper_bound pool) (penetration_of cfg) \<and> c_close bar \<le> pl_upper_bound pool
      else c_low bar < dsub (pl_lower_bound pool) (penetration_of cfg) \<and> c_close bar \<ge> pl_lower_bound pool)"

definition touched_by :: "pool_state \<Rightarrow> candle \<Rightarrow> bool" where
  "touched_by pool bar =
     (if pl_direction pool = BUY_SIDE then c_high bar \<ge> pl_lower_bound pool
      else c_low bar \<le> pl_upper_bound pool)"

definition process_interaction ::
  "candle \<Rightarrow> utc_time \<Rightarrow> liquidity_config \<Rightarrow> pool_state \<Rightarrow> (liquidity_interaction option \<times> pool_state) result" where
  "process_interaction bar confirmed_at cfg pool =
     (if terminal_pool pool \<or> pl_created_at pool > c_timestamp bar then Inr (None, pool)
      else if taken_by cfg pool bar
      then interact TAKEN CLOSE_THROUGH HE_TAKEN bar confirmed_at
        (pool\<lparr>pl_state := POOL_TAKEN, pl_terminal_reason := Some TR_CLOSE_THROUGH, pl_updated_at := confirmed_at\<rparr>)
      else if swept_by cfg pool bar \<and> pl_state pool = POOL_ACTIVE
      then interact SWEEP CLOSE_BACK HE_SWEPT bar confirmed_at
        (pool\<lparr>pl_state := POOL_SWEPT, pl_swept_at := Some confirmed_at, pl_updated_at := confirmed_at\<rparr>)
      else if touched_by pool bar
      then interact TOUCH BOUNDARY_TOUCH HE_TOUCHED bar confirmed_at (pool\<lparr>pl_updated_at := confirmed_at\<rparr>)
      else Inr (None, pool))"

definition interaction_reach_of :: "liquidity_config \<Rightarrow> pool_state \<Rightarrow> rat" where
  "interaction_reach_of cfg pool =
     (if pl_direction pool = BUY_SIDE
      then min (pl_lower_bound pool) (min (dadd (pl_upper_bound pool) (break_buffer_of cfg))
        (dadd (pl_upper_bound pool) (penetration_of cfg)))
      else max (pl_upper_bound pool) (max (dsub (pl_lower_bound pool) (break_buffer_of cfg))
        (dsub (pl_lower_bound pool) (penetration_of cfg))))"

text \<open>What a bar does to one selected pool: an interaction if it is reachable, then the age limit.\<close>

definition expire_pool :: "nat \<Rightarrow> utc_time \<Rightarrow> liquidity_config \<Rightarrow> pool_state \<Rightarrow> pool_state result" where
  "expire_pool bar_index confirmed_at cfg pool =
     (if \<not> terminal_pool pool \<and> int bar_index - int (pl_created_bar_index pool) > int (lq_pool_max_age_bars cfg)
      then record_history HE_EXPIRED confirmed_at None
        (pool\<lparr>pl_state := POOL_EXPIRED, pl_terminal_reason := Some TR_MAX_AGE_EXCEEDED, pl_updated_at := confirmed_at\<rparr>)
      else Inr pool)"

definition advance_pool ::
  "liquidity_config \<Rightarrow> timeframe \<Rightarrow> nat \<Rightarrow> candle \<Rightarrow> bool \<Rightarrow> pool_state
     \<Rightarrow> (liquidity_interaction option \<times> pool_state) result" where
  "advance_pool cfg tf bar_index bar reachable pool =
     (let confirmed_at = c_timestamp bar + timeframe_duration tf
      in bind_result (if reachable then process_interaction bar confirmed_at cfg pool else Inr (None, pool))
        (\<lambda>(event, pool). bind_result (expire_pool bar_index confirmed_at cfg pool) (\<lambda>pool. Inr (event, pool))))"

definition pool_to_schema :: "pool_state \<Rightarrow> liquidity_pool result" where
  "pool_to_schema pool = make_pool
     \<lparr>lp_pool_id = pl_pool_id pool, lp_type = pool_event_type (pl_direction pool) (pl_formation pool),
      lp_direction = pl_direction pool, lp_formation = pl_formation pool, lp_level = pl_level pool,
      lp_lower_bound = pl_lower_bound pool, lp_upper_bound = pl_upper_bound pool, lp_state = pl_state pool,
      lp_terminal_reason = pl_terminal_reason pool, lp_created_at = pl_created_at pool,
      lp_confirmed_at = pl_created_at pool, lp_updated_at = pl_updated_at pool, lp_swept_at = pl_swept_at pool,
      lp_confirmation = pl_confirmation pool, lp_source_structure = pl_source_structure pool,
      lp_source_prices = pl_source_prices pool, lp_source_pivot_timestamps = pl_source_pivot_timestamps pool,
      lp_members_available_at = pl_members_available_at pool, lp_interactions = pl_interactions pool,
      lp_history = pl_history pool\<rparr>"

section \<open>The index of pools by reach and age\<close>

text \<open>An entry is the reach of a pool, its position among the pools, and the pool; ages are the heap, kept sorted.\<close>

type_synonym reach_entry = "rat \<times> nat \<times> nat"

record reach_index =
  ix_prices :: "liquidity_direction \<Rightarrow> reach_entry list"
  ix_current :: "nat \<Rightarrow> reach_entry option"
  ix_ages :: "(nat \<times> nat \<times> nat) list"

definition entry_key :: "reach_entry \<Rightarrow> rat \<times> nat" where
  "entry_key e = (fst e, fst (snd e))"

definition insert_by :: "('a \<Rightarrow> 'k::linorder) \<Rightarrow> 'a \<Rightarrow> 'a list \<Rightarrow> 'a list" where
  "insert_by key x xs =
     (let pos = bisect (\<lambda>mid. \<not> key x < key (xs ! mid)) 0 (length xs) in take pos xs @ [x] @ drop pos xs)"

definition remove_by :: "('a \<Rightarrow> 'k::linorder) \<Rightarrow> 'k \<Rightarrow> 'a list \<Rightarrow> 'a list result" where
  "remove_by key k xs =
     (let pos = bisect (\<lambda>mid. key (xs ! mid) < k) 0 (length xs)
      in if pos < length xs then Inr (take pos xs @ drop (Suc pos) xs) else Inl IndexError)"

definition index_discard :: "(nat \<Rightarrow> liquidity_direction) \<Rightarrow> nat \<Rightarrow> reach_index \<Rightarrow> reach_index result" where
  "index_discard direction_of a ix =
     (case ix_current ix a of
        None \<Rightarrow> Inl KeyError
      | Some old \<Rightarrow>
          bind_result (remove_by entry_key (entry_key old) (ix_prices ix (direction_of a))) (\<lambda>prices.
            Inr (ix\<lparr>ix_current := (ix_current ix)(a := None),
                    ix_prices := (ix_prices ix)(direction_of a := prices)\<rparr>)))"

definition index_put :: "liquidity_direction \<Rightarrow> reach_entry \<Rightarrow> reach_index \<Rightarrow> reach_index" where
  "index_put direction entry ix =
     ix\<lparr>ix_prices := (ix_prices ix)(direction := insert_by entry_key entry (ix_prices ix direction)),
        ix_current := (ix_current ix)(snd (snd entry) := Some entry)\<rparr>"

definition index_age :: "nat \<times> nat \<times> nat \<Rightarrow> reach_index \<Rightarrow> reach_index" where
  "index_age age ix = ix\<lparr>ix_ages := insert_by (\<lambda>(due, position, _). (due, position)) age (ix_ages ix)\<rparr>"

text \<open>\<open>selected\<close>: the dict of chosen pools, first by reach, then those whose age is due.\<close>

type_synonym chosen = "(nat \<times> reach_entry \<times> bool) list"

fun pop_due ::
  "nat \<Rightarrow> (nat \<Rightarrow> reach_entry option) \<Rightarrow> (nat \<times> nat \<times> nat) list \<Rightarrow> chosen \<Rightarrow> chosen \<times> (nat \<times> nat \<times> nat) list" where
  "pop_due bar_index current [] chosen = (chosen, [])"
| "pop_due bar_index current ((due, position, a) # ages) chosen =
     (if due \<le> bar_index
      then pop_due bar_index current ages
        (case current a of
           None \<Rightarrow> chosen
         | Some entry \<Rightarrow> if a \<in> fst ` set chosen then chosen else AList.update a (entry, False) chosen)
      else (chosen, (due, position, a) # ages))"

definition index_selected :: "candle \<Rightarrow> nat \<Rightarrow> reach_index \<Rightarrow> (nat \<times> bool) list \<times> reach_index" where
  "index_selected bar bar_index ix =
     (let buy = ix_prices ix BUY_SIDE; sell = ix_prices ix SELL_SIDE;
          buy_end = bisect (\<lambda>mid. \<not> c_high bar < fst (buy ! mid)) 0 (length buy);
          sell_start = bisect (\<lambda>mid. fst (sell ! mid) < c_low bar) 0 (length sell);
          near = fold (\<lambda>entry. AList.update (snd (snd entry)) (entry, True)) (take buy_end buy @ drop sell_start sell) [];
          (chosen, ages) = pop_due bar_index (ix_current ix) (ix_ages ix) near
      in (map (\<lambda>(a, _, reachable). (a, reachable)) (sort_key (\<lambda>(_, (_, position, _), _). position) chosen),
          ix\<lparr>ix_ages := ages\<rparr>))"

section \<open>The run\<close>

text \<open>
  The lists of the result, the store and the clusters are a book; the run adds the indices over them.
\<close>

record liquidity_book =
  bk_store :: "pool_state list"
  bk_pools :: "nat list"
  bk_clusters :: "liquidity_direction \<Rightarrow> cluster_state list"
  bk_interactions :: "liquidity_interaction list"
  bk_dual_sweeps :: "dual_sweep_group list"

record liquidity_run = liquidity_book +
  rn_pools_by_identity :: "string \<Rightarrow> nat list"
  rn_active :: reach_index
  rn_reach :: "nat \<Rightarrow> rat option"
  rn_cluster_index :: "liquidity_direction \<Rightarrow> cluster_entry list"
  rn_cluster_keys :: "nat \<Rightarrow> (liquidity_direction \<times> cluster_entry) option"

abbreviation pool_at :: "'a liquidity_book_scheme \<Rightarrow> nat \<Rightarrow> pool_state" where
  "pool_at bk a \<equiv> bk_store bk ! a"

text \<open>\<open>active_pools.update(pool, position)\<close>; the position is given for a pool that is not yet in the index.\<close>

definition index_update ::
  "liquidity_config \<Rightarrow> nat \<Rightarrow> nat option \<Rightarrow> liquidity_run \<Rightarrow> liquidity_run result" where
  "index_update cfg a position run =
     (let ix = rn_active run; pool = pool_at run a; reach = interaction_reach_of cfg pool;
          store = (\<lambda>position ix. run\<lparr>rn_reach := (rn_reach run)(a := Some reach),
            rn_active := index_put (pl_direction pool) (reach, position, a) ix\<rparr>)
      in case ix_current ix a of
           Some (_, old_position, _) \<Rightarrow>
             if rn_reach run a \<noteq> None then Inr run
             else bind_result (index_discard (\<lambda>a. pl_direction (pool_at run a)) a ix) (\<lambda>ix. Inr (store old_position ix))
         | None \<Rightarrow>
             case position of
               None \<Rightarrow> Inl AssertionError
             | Some p \<Rightarrow>
                 let run' = store p ix
                 in Inr (run'\<lparr>rn_active := index_age
                   (pl_created_bar_index pool + lq_pool_max_age_bars cfg + 1, p, a) (rn_active run')\<rparr>))"

text \<open>A new pool object, its entry in the archive, and the update of a cluster's pool.\<close>

definition add_object :: "pool_state \<Rightarrow> 'a liquidity_book_scheme \<Rightarrow> nat \<times> 'a liquidity_book_scheme" where
  "add_object pool bk = (length (bk_store bk), bk\<lparr>bk_store := bk_store bk @ [pool]\<rparr>)"

definition archive_pool :: "nat \<Rightarrow> liquidity_run \<Rightarrow> liquidity_run" where
  "archive_pool a run =
     (let i = pl_pool_id (pool_at run a)
      in run\<lparr>bk_pools := bk_pools run @ [a],
             rn_pools_by_identity := (rn_pools_by_identity run)(i := rn_pools_by_identity run i @ [a])\<rparr>)"

definition set_cluster ::
  "liquidity_direction \<Rightarrow> nat \<Rightarrow> cluster_state \<Rightarrow> 'a liquidity_book_scheme \<Rightarrow> 'a liquidity_book_scheme" where
  "set_cluster d k cluster bk = bk\<lparr>bk_clusters := (bk_clusters bk)(d := (bk_clusters bk d)[k := cluster])\<rparr>"

definition update_cluster_pool ::
  "liquidity_config \<Rightarrow> nat \<Rightarrow> liquidity_direction \<Rightarrow> nat \<Rightarrow> 'a liquidity_book_scheme
     \<Rightarrow> (nat option \<times> 'a liquidity_book_scheme) result" where
  "update_cluster_pool cfg confirmed_bar_index d k bk =
     (let cluster = bk_clusters bk d ! k
      in if length (kl_members cluster) < lq_cluster_min_touches cfg then Inr (None, bk)
         else case kl_pool cluster of
           None \<Rightarrow>
             bind_result (new_cluster_pool cluster cfg confirmed_bar_index) (\<lambda>pool.
               let (a, bk) = add_object pool bk
               in Inr (Some a, set_cluster d k (cluster\<lparr>kl_pool := Some a\<rparr>) bk))
         | Some a \<Rightarrow>
             bind_result (widened_cluster_pool cluster cfg (pool_at bk a)) (\<lambda>pool.
               Inr (Some a, bk\<lparr>bk_store := (bk_store bk)[a := pool]\<rparr>)))"

definition new_cluster :: "confirmed_swing \<Rightarrow> cluster_state" where
  "new_cluster swing =
     \<lparr>kl_direction = side_for swing, kl_anchor_price = cs_price swing, kl_members = [swing],
      kl_contains_relative_member = False, kl_pool = None\<rparr>"

definition join_cluster :: "confirmed_swing \<Rightarrow> liquidity_formation \<Rightarrow> cluster_state \<Rightarrow> cluster_state" where
  "join_cluster swing classification cluster =
     cluster\<lparr>kl_members := kl_members cluster @ [swing],
             kl_contains_relative_member := classification = RELATIVE_EQUAL \<or> kl_contains_relative_member cluster\<rparr>"

definition same_pool :: "'a liquidity_book_scheme \<Rightarrow> nat \<Rightarrow> nat \<Rightarrow> bool" where
  "same_pool bk a b \<longleftrightarrow> b = a \<or> pool_at bk b = pool_at bk a"

text \<open>\<open>consume_swing\<close>: the two dictionaries by candle close, the single pool, then the cluster.\<close>

definition close_to_index :: "candle list \<Rightarrow> timeframe \<Rightarrow> utc_time \<Rightarrow> nat option" where
  "close_to_index candles tf =
     map_of (rev (zip (map (\<lambda>c. c_timestamp c + timeframe_duration tf) candles) [0..<length candles]))"

definition atr_by_confirmation :: "candle list \<Rightarrow> timeframe \<Rightarrow> atr_result option \<Rightarrow> utc_time \<Rightarrow> rat option" where
  "atr_by_confirmation candles tf atr_result t =
     (case atr_result of
        None \<Rightarrow> None
      | Some atr \<Rightarrow>
          Option.bind (map_of (rev (zip (map (\<lambda>c. c_timestamp c + timeframe_duration tf) candles)
            (map ap_atr (ar_points atr)))) t) (\<lambda>x. x))"

definition single_pool_step ::
  "liquidity_config \<Rightarrow> nat \<Rightarrow> confirmed_swing \<Rightarrow> liquidity_run \<Rightarrow> liquidity_run result" where
  "single_pool_step cfg confirmed_bar_index swing run =
     (if lq_include_single_swing_pools cfg
      then bind_result (new_single_pool swing cfg confirmed_bar_index) (\<lambda>pool.
        let (a, run) = add_object pool run; run = archive_pool a run
        in index_update cfg a (Some (length (bk_pools run) - 1)) run)
      else Inr run)"

text \<open>What \<open>consume_swing\<close> does with the updated pool of a cluster: a new one joins the archive, a known one moves in the index.\<close>

definition file_pool ::
  "liquidity_config \<Rightarrow> liquidity_direction \<times> cluster_entry \<Rightarrow> nat \<Rightarrow> liquidity_run \<Rightarrow> liquidity_run result" where
  "file_pool cfg key a run =
     (if \<not> list_ex (same_pool run a) (rn_pools_by_identity run (pl_pool_id (pool_at run a)))
      then let run = archive_pool a run
           in bind_result (index_update cfg a (Some (length (bk_pools run) - 1)) run) (\<lambda>run.
             Inr (run\<lparr>rn_cluster_keys := (rn_cluster_keys run)(a := Some key)\<rparr>))
      else if ix_current (rn_active run) a \<noteq> None
      then index_update cfg a None run
      else Inr run)"

definition cluster_step ::
  "liquidity_config \<Rightarrow> nat \<Rightarrow> rat option \<Rightarrow> confirmed_swing \<Rightarrow> liquidity_run \<Rightarrow> liquidity_run result" where
  "cluster_step cfg confirmed_bar_index atr swing run =
     (let d = side_for swing; entries = rn_cluster_index run d
      in case matching_cluster_entry entries swing atr cfg of
           None \<Rightarrow>
             let ordinal = length (bk_clusters run d)
             in Inr (run\<lparr>bk_clusters := (bk_clusters run)(d := bk_clusters run d @ [new_cluster swing]),
                         rn_cluster_index := (rn_cluster_index run)
                           (d := insert_by (\<lambda>e. e) (cs_price swing, ordinal) entries)\<rparr>)
         | Some (anchor, ordinal) \<Rightarrow>
             case membership anchor swing atr cfg of
               None \<Rightarrow> Inl AssertionError
             | Some classification \<Rightarrow>
                 let run = set_cluster d ordinal (join_cluster swing classification (bk_clusters run d ! ordinal)) run
                 in bind_result (update_cluster_pool cfg confirmed_bar_index d ordinal run) (\<lambda>(pool, run).
                   case pool of
                     None \<Rightarrow> Inr run
                   | Some a \<Rightarrow> file_pool cfg (d, anchor, ordinal) a (run\<lparr>rn_reach := (rn_reach run)(a := None)\<rparr>)))"

definition consume_swing ::
  "candle list \<Rightarrow> timeframe \<Rightarrow> liquidity_config \<Rightarrow> atr_result option \<Rightarrow> confirmed_swing \<Rightarrow> liquidity_run
     \<Rightarrow> liquidity_run result" where
  "consume_swing candles tf cfg atr_result swing run =
     (case close_to_index candles tf (cs_confirmed_at swing) of
        None \<Rightarrow> Inl (LiquidityInputError ''swing confirmed_at must align with a candle close'')
      | Some confirmed_bar_index \<Rightarrow>
          bind_result (single_pool_step cfg confirmed_bar_index swing run)
            (cluster_step cfg confirmed_bar_index (atr_by_confirmation candles tf atr_result (cs_confirmed_at swing)) swing))"

fun consume_until ::
  "(confirmed_swing \<Rightarrow> 's \<Rightarrow> 's result) \<Rightarrow> utc_time \<Rightarrow> confirmed_swing list \<Rightarrow> 's
     \<Rightarrow> (confirmed_swing list \<times> 's) result" where
  "consume_until consume t [] s = Inr ([], s)"
| "consume_until consume t (swing # swings) s =
     (if cs_confirmed_at swing \<le> t
      then bind_result (consume swing s) (consume_until consume t swings)
      else Inr (swing # swings, s))"

text \<open>The loop body for one selected pool.\<close>

definition retire_pool :: "nat \<Rightarrow> liquidity_run \<Rightarrow> liquidity_run result" where
  "retire_pool a run =
     bind_result (index_discard (\<lambda>a. pl_direction (pool_at run a)) a (rn_active run)) (\<lambda>ix.
       case rn_cluster_keys run a of
         None \<Rightarrow> Inr (run\<lparr>rn_active := ix\<rparr>)
       | Some (d, key) \<Rightarrow>
           bind_result (remove_by (\<lambda>e. e) key (rn_cluster_index run d)) (\<lambda>entries.
             Inr (run\<lparr>rn_active := ix, rn_cluster_keys := (rn_cluster_keys run)(a := None),
                      rn_cluster_index := (rn_cluster_index run)(d := entries)\<rparr>)))"

definition store_outcome ::
  "nat \<Rightarrow> liquidity_interaction option \<times> pool_state \<Rightarrow> 'a liquidity_book_scheme \<Rightarrow> 'a liquidity_book_scheme" where
  "store_outcome a = (\<lambda>(event, pool) bk.
     bk\<lparr>bk_store := (bk_store bk)[a := pool],
        bk_interactions := bk_interactions bk @ (case event of None \<Rightarrow> [] | Some e \<Rightarrow> [e])\<rparr>)"

definition bar_pool_step ::
  "liquidity_config \<Rightarrow> timeframe \<Rightarrow> nat \<Rightarrow> candle \<Rightarrow> nat \<times> bool \<Rightarrow> liquidity_run \<Rightarrow> liquidity_run result" where
  "bar_pool_step cfg tf bar_index bar = (\<lambda>(a, reachable) run.
     bind_result (advance_pool cfg tf bar_index bar reachable (pool_at run a)) (\<lambda>outcome.
       let run = store_outcome a outcome run
       in if terminal_pool (pool_at run a) then retire_pool a run else Inr run))"

text \<open>The sweeps of the bar on both sides make a dual sweep; \<open>bar_events\<close> are the interactions of this bar.\<close>

definition dual_sweep_of :: "timeframe \<Rightarrow> candle \<Rightarrow> liquidity_interaction list \<Rightarrow> dual_sweep_group list" where
  "dual_sweep_of tf bar bar_events =
     (let sweeps = (\<lambda>d. map li_event_id (filter (\<lambda>e. li_type e = SWEEP \<and> li_direction e = d) bar_events))
      in if sweeps BUY_SIDE \<noteq> [] \<and> sweeps SELL_SIDE \<noteq> []
         then [\<lparr>dg_group_id = ''LIQ:DUAL_SWEEP:'' @ isoformat (c_timestamp bar), dg_timestamp = c_timestamp bar,
                dg_confirmed_at = c_timestamp bar + timeframe_duration tf,
                dg_buy_side_event_ids = sweeps BUY_SIDE, dg_sell_side_event_ids = sweeps SELL_SIDE\<rparr>]
         else [])"

definition add_dual_sweep ::
  "timeframe \<Rightarrow> candle \<Rightarrow> nat \<Rightarrow> 'a liquidity_book_scheme \<Rightarrow> 'a liquidity_book_scheme" where
  "add_dual_sweep tf bar before bk =
     bk\<lparr>bk_dual_sweeps := bk_dual_sweeps bk @ dual_sweep_of tf bar (drop before (bk_interactions bk))\<rparr>"

definition liquidity_bar ::
  "candle list \<Rightarrow> timeframe \<Rightarrow> liquidity_config \<Rightarrow> atr_result option \<Rightarrow> nat
     \<Rightarrow> confirmed_swing list \<times> liquidity_run \<Rightarrow> (confirmed_swing list \<times> liquidity_run) result" where
  "liquidity_bar candles tf cfg atr_result bar_index = (\<lambda>(swings, run).
     let bar = candles ! bar_index; consume = consume_swing candles tf cfg atr_result
     in bind_result (consume_until consume (c_timestamp bar) swings run) (\<lambda>(swings, run).
        let (selection, ix) = index_selected bar bar_index (rn_active run);
            before = length (bk_interactions run)
        in bind_result (for_each (bar_pool_step cfg tf bar_index bar) selection (run\<lparr>rn_active := ix\<rparr>)) (\<lambda>run.
           consume_until consume (c_timestamp bar + timeframe_duration tf) swings (add_dual_sweep tf bar before run))))"

definition liquidity_start :: liquidity_run where
  "liquidity_start =
     \<lparr>bk_store = [], bk_pools = [], bk_clusters = (\<lambda>_. []), bk_interactions = [], bk_dual_sweeps = [],
      rn_pools_by_identity = (\<lambda>_. []), rn_active = \<lparr>ix_prices = (\<lambda>_. []), ix_current = (\<lambda>_. None), ix_ages = []\<rparr>,
      rn_reach = (\<lambda>_. None), rn_cluster_index = (\<lambda>_. []), rn_cluster_keys = (\<lambda>_. None)\<rparr>"

definition liquidity_result ::
  "candle list \<Rightarrow> timeframe \<Rightarrow> liquidity_config \<Rightarrow> 'a liquidity_book_scheme \<Rightarrow> liquidity_analysis result" where
  "liquidity_result candles tf cfg bk =
     bind_result (map_result (\<lambda>a. pool_to_schema (pool_at bk a)) (bk_pools bk)) (\<lambda>pools.
       Inr \<lparr>la_timeframe = tf, la_config = cfg, la_candle_count = length candles,
            la_data_cutoff_at = data_cutoff candles tf, la_pools = pools,
            la_interactions = bk_interactions bk, la_dual_sweeps = bk_dual_sweeps bk\<rparr>)"

text \<open>\<open>usable_swings\<close>; for no candles the result is empty, whatever the swings.\<close>

definition usable_swings :: "candle list \<Rightarrow> timeframe \<Rightarrow> confirmed_swing list \<Rightarrow> confirmed_swing list" where
  "usable_swings candles tf swings =
     (case data_cutoff candles tf of
        None \<Rightarrow> []
      | Some cutoff \<Rightarrow> filter (\<lambda>swing. cs_confirmed_at swing \<le> cutoff) swings)"

definition analyze_liquidity ::
  "candle list \<Rightarrow> timeframe \<Rightarrow> confirmed_swing list \<Rightarrow> liquidity_config \<Rightarrow> atr_result option
     \<Rightarrow> liquidity_analysis result" where
  "analyze_liquidity candles tf swings cfg atr_result =
     bind_result (validate_liquidity_inputs candles tf swings cfg atr_result) (\<lambda>_.
     bind_result (for_each (liquidity_bar candles tf cfg atr_result) [0..<length candles]
       (usable_swings candles tf swings, liquidity_start)) (\<lambda>(_, run).
       liquidity_result candles tf cfg run))"

section \<open>The loops without the indices\<close>

text \<open>
  The same book, kept by plain loops: every bar advances every live pool in the order of the archive, and a
  swing joins the first live cluster of its side that has it as a member.
\<close>

definition live_cluster :: "'a liquidity_book_scheme \<Rightarrow> cluster_state \<Rightarrow> bool" where
  "live_cluster bk cluster \<longleftrightarrow>
     (case kl_pool cluster of None \<Rightarrow> True | Some a \<Rightarrow> \<not> terminal_pool (pool_at bk a))"

definition first_cluster ::
  "'a liquidity_book_scheme \<Rightarrow> confirmed_swing \<Rightarrow> rat option \<Rightarrow> liquidity_config \<Rightarrow> nat option" where
  "first_cluster bk swing atr cfg =
     (let clusters = bk_clusters bk (side_for swing)
      in find (\<lambda>k. live_cluster bk (clusters ! k) \<and> membership (kl_anchor_price (clusters ! k)) swing atr cfg \<noteq> None)
           [0..<length clusters])"

definition reference_single ::
  "liquidity_config \<Rightarrow> nat \<Rightarrow> confirmed_swing \<Rightarrow> liquidity_book \<Rightarrow> liquidity_book result" where
  "reference_single cfg confirmed_bar_index swing bk =
     (if lq_include_single_swing_pools cfg
      then bind_result (new_single_pool swing cfg confirmed_bar_index) (\<lambda>pool.
        Inr (bk\<lparr>bk_store := bk_store bk @ [pool], bk_pools := bk_pools bk @ [length (bk_store bk)]\<rparr>))
      else Inr bk)"

definition reference_cluster ::
  "liquidity_config \<Rightarrow> nat \<Rightarrow> rat option \<Rightarrow> confirmed_swing \<Rightarrow> liquidity_book \<Rightarrow> liquidity_book result" where
  "reference_cluster cfg confirmed_bar_index atr swing bk =
     (let d = side_for swing; clusters = bk_clusters bk d
      in case first_cluster bk swing atr cfg of
           None \<Rightarrow> Inr (bk\<lparr>bk_clusters := (bk_clusters bk)(d := clusters @ [new_cluster swing])\<rparr>)
         | Some k \<Rightarrow>
             let cluster = clusters ! k;
                 joined = join_cluster swing (the (membership (kl_anchor_price cluster) swing atr cfg)) cluster
             in bind_result (update_cluster_pool cfg confirmed_bar_index d k (set_cluster d k joined bk)) (\<lambda>(pool, bk).
                  Inr (case pool of
                    None \<Rightarrow> bk
                  | Some a \<Rightarrow> if list_ex (same_pool bk a) (bk_pools bk) then bk
                              else bk\<lparr>bk_pools := bk_pools bk @ [a]\<rparr>)))"

definition reference_consume ::
  "candle list \<Rightarrow> timeframe \<Rightarrow> liquidity_config \<Rightarrow> atr_result option \<Rightarrow> confirmed_swing \<Rightarrow> liquidity_book
     \<Rightarrow> liquidity_book result" where
  "reference_consume candles tf cfg atr_result swing bk =
     (case close_to_index candles tf (cs_confirmed_at swing) of
        None \<Rightarrow> Inl (LiquidityInputError ''swing confirmed_at must align with a candle close'')
      | Some confirmed_bar_index \<Rightarrow>
          bind_result (reference_single cfg confirmed_bar_index swing bk)
            (reference_cluster cfg confirmed_bar_index (atr_by_confirmation candles tf atr_result (cs_confirmed_at swing)) swing))"

definition reference_pool_step ::
  "liquidity_config \<Rightarrow> timeframe \<Rightarrow> nat \<Rightarrow> candle \<Rightarrow> nat \<Rightarrow> liquidity_book \<Rightarrow> liquidity_book result" where
  "reference_pool_step cfg tf bar_index bar a bk =
     bind_result (advance_pool cfg tf bar_index bar True (pool_at bk a)) (\<lambda>outcome. Inr (store_outcome a outcome bk))"

definition live_pools :: "'a liquidity_book_scheme \<Rightarrow> nat list" where
  "live_pools bk = filter (\<lambda>a. \<not> terminal_pool (pool_at bk a)) (bk_pools bk)"

definition reference_bar ::
  "candle list \<Rightarrow> timeframe \<Rightarrow> liquidity_config \<Rightarrow> atr_result option \<Rightarrow> nat
     \<Rightarrow> confirmed_swing list \<times> liquidity_book \<Rightarrow> (confirmed_swing list \<times> liquidity_book) result" where
  "reference_bar candles tf cfg atr_result bar_index = (\<lambda>(swings, bk).
     let bar = candles ! bar_index; consume = reference_consume candles tf cfg atr_result
     in bind_result (consume_until consume (c_timestamp bar) swings bk) (\<lambda>(swings, bk).
        bind_result (for_each (reference_pool_step cfg tf bar_index bar) (live_pools bk) bk) (\<lambda>bk'.
          consume_until consume (c_timestamp bar + timeframe_duration tf) swings
            (add_dual_sweep tf bar (length (bk_interactions bk)) bk'))))"

definition reference_start :: liquidity_book where
  "reference_start = \<lparr>bk_store = [], bk_pools = [], bk_clusters = (\<lambda>_. []), bk_interactions = [], bk_dual_sweeps = []\<rparr>"

definition reference_liquidity ::
  "candle list \<Rightarrow> timeframe \<Rightarrow> confirmed_swing list \<Rightarrow> liquidity_config \<Rightarrow> atr_result option
     \<Rightarrow> liquidity_analysis result" where
  "reference_liquidity candles tf swings cfg atr_result =
     bind_result (validate_liquidity_inputs candles tf swings cfg atr_result) (\<lambda>_.
     bind_result (for_each (reference_bar candles tf cfg atr_result) [0..<length candles]
       (usable_swings candles tf swings, reference_start)) (\<lambda>(_, bk). liquidity_result candles tf cfg bk))"

section \<open>Sorted lists of entries\<close>

lemma insert_by_sorted:
  assumes "sorted (map key xs)"
  shows "sorted (map key (insert_by key x xs))" "set (insert_by key x xs) = insert x (set xs)"
    "key x \<notin> key ` set xs \<Longrightarrow> distinct (map key xs) \<Longrightarrow> distinct (map key (insert_by key x xs))"
proof -
  let ?n = "length xs"
  define k where "k = bisect (\<lambda>mid. \<not> key x < key (xs ! mid)) 0 ?n"
  have mono: "key (xs ! i) \<le> key (xs ! j)" if "i \<le> j" "j < ?n" for i j
    using sorted_nth_mono [OF assms that(1)] that by simp
  have k: "k \<le> ?n \<and> (\<forall>i. i < ?n \<longrightarrow> \<not> key x < key (xs ! i) \<longleftrightarrow> i < k)"
  proof -
    have "0 \<le> k \<and> k \<le> ?n \<and> (\<forall>i. 0 \<le> i \<longrightarrow> i < ?n \<longrightarrow> \<not> key x < key (xs ! i) \<longleftrightarrow> i < k)"
      unfolding k_def
    proof (rule bisect_prefix)
      fix i j assume "i \<le> j" "j < ?n" "\<not> key x < key (xs ! j)"
      then show "\<not> key x < key (xs ! i)" using mono [of i j] by simp
    qed simp
    then show ?thesis by simp
  qed
  have before: "key y \<le> key x" if y: "y \<in> set (take k xs)" for y
  proof -
    obtain i where "i < k" "i < ?n" "y = xs ! i" using y by (auto simp: in_set_conv_nth)
    then show ?thesis using k by (simp add: not_less)
  qed
  have after: "key x \<le> key y" if y: "y \<in> set (drop k xs)" for y
  proof -
    obtain j where "j < ?n - k" "y = drop k xs ! j" using y by (auto simp: in_set_conv_nth)
    then have j: "k + j < ?n" "y = xs ! (k + j)" using k by auto
    then have "\<not> key x < key (xs ! (k + j)) \<longleftrightarrow> k + j < k" using k by blast
    then show ?thesis using j by simp
  qed
  have parts: "sorted (map key (take k xs @ drop k xs))" using assms by simp
  show "sorted (map key (insert_by key x xs))"
    using parts before after unfolding insert_by_def Let_def k_def [symmetric] map_append sorted_append
    by auto
  have set_parts: "set (take k xs) \<union> set (drop k xs) = set xs"
    by (metis append_take_drop_id set_append)
  show "set (insert_by key x xs) = insert x (set xs)"
    unfolding insert_by_def Let_def k_def [symmetric] using set_parts by auto
  assume "key x \<notin> key ` set xs" "distinct (map key xs)"
  moreover have "distinct (map key (take k xs @ drop k xs)) = distinct (map key xs)" by simp
  ultimately show "distinct (map key (insert_by key x xs))"
    unfolding insert_by_def Let_def k_def [symmetric] using set_parts by (simp del: append_take_drop_id) blast
qed

lemma remove_by_found:
  assumes "sorted_wrt (<) (map key xs)" "x \<in> set xs"
  shows "\<exists>ys. remove_by key (key x) xs = Inr ys \<and> sorted_wrt (<) (map key ys) \<and> set ys = set xs - {x}"
proof -
  let ?n = "length xs"
  define k where "k = bisect (\<lambda>mid. key (xs ! mid) < key x) 0 ?n"
  have mono: "key (xs ! i) < key (xs ! j)" if "i < j" "j < ?n" for i j
    using assms(1) that by (simp add: sorted_wrt_map sorted_wrt_iff_nth_less)
  have down: "key (xs ! i) < key x" if "i \<le> j" "j < ?n" "key (xs ! j) < key x" for i j
    using mono [of i j] that by (cases "i = j") auto
  have k: "k \<le> ?n \<and> (\<forall>i. i < ?n \<longrightarrow> key (xs ! i) < key x \<longleftrightarrow> i < k)"
  proof -
    have "0 \<le> k \<and> k \<le> ?n \<and> (\<forall>i. 0 \<le> i \<longrightarrow> i < ?n \<longrightarrow> key (xs ! i) < key x \<longleftrightarrow> i < k)"
      unfolding k_def by (rule bisect_prefix) (use down in \<open>simp_all\<close>)
    then show ?thesis by simp
  qed
  obtain i where i: "i < ?n" "xs ! i = x" using assms(2) by (metis in_set_conv_nth)
  have "i = k"
  proof (rule antisym)
    show "k \<le> i" using k i by (metis less_irrefl not_le)
    show "i \<le> k"
    proof (rule ccontr)
      assume "\<not> i \<le> k"
      then have "key (xs ! k) < key x" using mono [of k i] i by simp
      then show False using k i(1) \<open>\<not> i \<le> k\<close> by (meson less_irrefl not_le order.strict_trans)
    qed
  qed
  then have kn: "k < ?n" "xs ! k = x" using i by simp_all
  have split: "xs = take k xs @ x # drop (Suc k) xs" using id_take_nth_drop [OF kn(1)] kn(2) by simp
  have "sorted_wrt (<) (map key (take k xs @ drop (Suc k) xs))"
    using assms(1) by (subst (asm) split) (simp add: sorted_wrt_append)
  moreover have "sorted_wrt (<) (map key (take k xs @ x # drop (Suc k) xs))" using assms(1) split by simp
  then have "x \<notin> set (take k xs)" "x \<notin> set (drop (Suc k) xs)" by (auto simp: sorted_wrt_append)
  then have "set (take k xs @ drop (Suc k) xs) = set (take k xs @ x # drop (Suc k) xs) - {x}" by auto
  then have "set (take k xs @ drop (Suc k) xs) = set xs - {x}" using split by simp
  ultimately show ?thesis using kn(1) by (simp add: remove_by_def Let_def flip: k_def)
qed

lemma insert_by_strict:
  assumes "sorted_wrt (<) (map key xs)" "key x \<notin> key ` set xs"
  shows "sorted_wrt (<) (map key (insert_by key x xs)) \<and> set (insert_by key x xs) = insert x (set xs)"
  using insert_by_sorted [of key xs x] assms by (simp add: strict_sorted_iff)

section \<open>The search for a cluster finds the first match\<close>

lemma distance_mono:
  assumes "p \<le> a \<and> a \<le> b \<or> b \<le> a \<and> a \<le> p"
  shows "dabs (dsub p a) \<le> dabs (dsub p b)"
proof -
  have "dsub p b \<le> dsub p a \<and> dsub p a \<le> 0 \<or> 0 \<le> dsub p a \<and> dsub p a \<le> dsub p b"
    using assms unfolding dsub_def by (auto intro: rnd_mono)
  then show ?thesis unfolding dabs_dsub by linarith
qed

lemma membership_iff:
  "membership a swing atr cfg \<noteq> None \<longleftrightarrow>
    ddiv (dabs (dsub (cs_price swing) a)) (lq_tick_size cfg) \<le> lq_equal_tolerance_ticks cfg
    \<or> (\<exists>x. atr = Some x \<and> 0 < x \<and> ddiv (dabs (dsub (cs_price swing) a)) x \<le> lq_relative_equal_atr_ratio cfg)"
  by (auto simp: membership_def Let_def split: option.splits)

lemma membership_nearer:
  assumes "0 < lq_tick_size cfg" "membership b swing atr cfg \<noteq> None"
    and "cs_price swing \<le> a \<and> a \<le> b \<or> b \<le> a \<and> a \<le> cs_price swing"
  shows "membership a swing atr cfg \<noteq> None"
proof -
  have "ddiv (dabs (dsub (cs_price swing) a)) t \<le> ddiv (dabs (dsub (cs_price swing) b)) t" if "0 < t" for t
    unfolding ddiv_def using distance_mono [OF assms(3)] that by (intro rnd_mono divide_right_mono) simp_all
  note near = this
  consider "ddiv (dabs (dsub (cs_price swing) b)) (lq_tick_size cfg) \<le> lq_equal_tolerance_ticks cfg"
    | x where "atr = Some x" "0 < x" "ddiv (dabs (dsub (cs_price swing) b)) x \<le> lq_relative_equal_atr_ratio cfg"
    using assms(2) unfolding membership_iff by blast
  then show ?thesis
  proof cases
    case 1
    then show ?thesis unfolding membership_iff using order_trans [OF near [OF assms(1)]] by blast
  next
    case (2 x)
    then show ?thesis unfolding membership_iff using order_trans [OF near [OF 2(2)]] by blast
  qed
qed

lemma filter_cut:
  assumes "first \<le> low" "low \<le> length xs"
    "\<And>i. i < length xs \<Longrightarrow> p (xs ! i) \<longleftrightarrow> first \<le> i \<and> i < low"
  shows "take (low - first) (drop first xs) = filter p xs"
proof -
  have "filter p (take (low - first) (drop first xs)) = filter p xs"
    by (rule filter_slice) (use assms in auto)
  moreover have "\<forall>x\<in>set (take (low - first) (drop first xs)). p x"
    using assms by (auto simp: in_set_conv_nth)
  ultimately show ?thesis by (metis filter_True)
qed

lemma bisect_cong:
  assumes "\<And>i. lo \<le> i \<Longrightarrow> i < hi \<Longrightarrow> p i \<longleftrightarrow> q i"
  shows "bisect p lo hi = bisect q lo hi"
  using assms
proof (induction p lo hi rule: bisect.induct)
  case (1 p lo hi)
  show ?case
  proof (cases "lo < hi")
    case True
    define mid where "mid = (lo + hi) div 2"
    have mid: "lo \<le> mid" "mid < hi" using True by (auto simp: mid_def)
    then have same: "p mid \<longleftrightarrow> q mid" by (rule "1.prems")
    show ?thesis
    proof (cases "p mid")
      case pm: True
      have "bisect p (mid + 1) hi = bisect q (mid + 1) hi"
        using "1.IH"(1) [OF True mid_def pm] "1.prems" mid by simp
      then show ?thesis using True pm same by (subst (1 2) bisect.simps) (simp add: mid_def Let_def)
    next
      case pm: False
      have "bisect p lo mid = bisect q lo mid"
        using "1.IH"(2) [OF True mid_def pm] "1.prems" mid by simp
      then show ?thesis using True pm same by (subst (1 2) bisect.simps) (simp add: mid_def Let_def)
    qed
  qed (simp add: bisect.simps)
qed

lemma bisect_range:
  assumes "lo \<le> hi" "\<And>i j. lo \<le> i \<Longrightarrow> i \<le> j \<Longrightarrow> j < hi \<Longrightarrow> p j \<Longrightarrow> p i"
  shows "lo \<le> bisect p lo hi \<and> bisect p lo hi \<le> hi
    \<and> (\<forall>i. lo \<le> i \<longrightarrow> i < hi \<longrightarrow> p i \<longleftrightarrow> i < bisect p lo hi)"
proof -
  let ?q = "\<lambda>i. i < lo \<or> p i"
  have "bisect p lo hi = bisect ?q lo hi" by (rule bisect_cong) simp
  moreover have "lo \<le> bisect ?q lo hi \<and> bisect ?q lo hi \<le> hi
      \<and> (\<forall>i. lo \<le> i \<longrightarrow> i < hi \<longrightarrow> ?q i \<longleftrightarrow> i < bisect ?q lo hi)"
  proof (rule bisect_prefix [OF assms(1)])
    fix i j assume ij: "i \<le> j" "j < hi" "j < lo \<or> p j"
    show "i < lo \<or> p i"
    proof (cases "i < lo")
      case False
      then show ?thesis using assms(2) [of i j] ij by simp
    qed simp
  qed
  ultimately show ?thesis by simp
qed

lemma matching_entries:
  assumes "sorted (map fst entries)" "0 < lq_tick_size cfg"
  shows "matching_cluster_entry entries swing atr cfg
    = min_by snd (filter (\<lambda>e. membership (fst e) swing atr cfg \<noteq> None) entries)"
proof -
  let ?n = "length entries" and ?p = "cs_price swing"
  let ?m = "\<lambda>i. membership (fst (entries ! i)) swing atr cfg"
  define cut where "cut = bisect (\<lambda>i. fst (entries ! i) < ?p) 0 ?n"
  define first where "first = bisect (\<lambda>i. ?m i = None) 0 cut"
  define low where "low = bisect (\<lambda>i. ?m i \<noteq> None) cut ?n"
  have mono: "fst (entries ! i) \<le> fst (entries ! j)" if "i \<le> j" "j < ?n" for i j
    using sorted_nth_mono [OF assms(1) that(1)] that by simp
  have cut: "0 \<le> cut \<and> cut \<le> ?n \<and> (\<forall>i. 0 \<le> i \<longrightarrow> i < ?n \<longrightarrow> fst (entries ! i) < ?p \<longleftrightarrow> i < cut)"
    unfolding cut_def
  proof (rule bisect_prefix)
    fix i j assume "i \<le> j" "j < ?n" "fst (entries ! j) < ?p"
    then show "fst (entries ! i) < ?p" using mono [of i j] by simp
  qed simp
  have first: "0 \<le> first \<and> first \<le> cut \<and> (\<forall>i. 0 \<le> i \<longrightarrow> i < cut \<longrightarrow> ?m i = None \<longleftrightarrow> i < first)"
    unfolding first_def
  proof (rule bisect_prefix)
    fix i j assume ij: "i \<le> j" "j < cut" "?m j = None"
    then have "j < ?n" "fst (entries ! j) < ?p" using cut by auto
    then have "fst (entries ! i) \<le> fst (entries ! j) \<and> fst (entries ! j) \<le> ?p" using mono [OF ij(1)] by simp
    then show "?m i = None" using membership_nearer [OF assms(2)] ij(3) by blast
  qed simp
  have low: "cut \<le> low \<and> low \<le> ?n \<and> (\<forall>i. cut \<le> i \<longrightarrow> i < ?n \<longrightarrow> ?m i \<noteq> None \<longleftrightarrow> i < low)"
    unfolding low_def
  proof (rule bisect_range)
    fix i j assume ij: "cut \<le> i" "i \<le> j" "j < ?n" "?m j \<noteq> None"
    then have "i < ?n" by simp
    then have "?p \<le> fst (entries ! i)" using cut ij(1) by (meson le0 not_le)
    then show "?m i \<noteq> None" using membership_nearer [OF assms(2) ij(4)] mono [OF ij(2,3)] by blast
  qed (use cut in simp)
  have "take (low - first) (drop first entries) = filter (\<lambda>e. membership (fst e) swing atr cfg \<noteq> None) entries"
  proof (rule filter_cut)
    fix i assume i: "i < ?n"
    show "membership (fst (entries ! i)) swing atr cfg \<noteq> None \<longleftrightarrow> first \<le> i \<and> i < low"
      using first low i by (cases "i < cut") (auto simp: not_less)
  qed (use first low in auto)
  then show ?thesis
    by (simp only: matching_cluster_entry_def Let_def cut_def [symmetric] first_def [symmetric] low_def [symmetric])
qed

lemma find_upt_least: "find P [0..<n] = (if \<exists>k<n. P k then Some (LEAST k. P k) else None)"
proof (cases "\<exists>k<n. P k")
  case True
  then obtain k where k: "k < n" "P k" by blast
  have "find P [0..<n] \<noteq> None" using k by (auto simp: find_None_iff)
  then obtain l where l: "find P [0..<n] = Some l" by blast
  then have "P l" "\<forall>j<l. \<not> P j" by (auto simp: find_Some_iff)
  then have "l = (LEAST k. P k)" by (intro Least_equality [symmetric]) (auto simp: not_less [symmetric])
  then show ?thesis using True l by simp
qed (auto simp: find_None_iff)

text \<open>The live clusters of a side, by price.\<close>

definition cluster_index_ok :: "'a liquidity_book_scheme \<Rightarrow> liquidity_direction \<Rightarrow> cluster_entry list \<Rightarrow> bool" where
  "cluster_index_ok bk d entries \<longleftrightarrow>
     sorted_wrt (<) entries
     \<and> set entries = {(kl_anchor_price (bk_clusters bk d ! k), k) | k.
          k < length (bk_clusters bk d) \<and> live_cluster bk (bk_clusters bk d ! k)}"

lemma first_cluster_found:
  assumes "cluster_index_ok bk (side_for swing) entries" "0 < lq_tick_size cfg"
  shows "matching_cluster_entry entries swing atr cfg
    = map_option (\<lambda>k. (kl_anchor_price (bk_clusters bk (side_for swing) ! k), k)) (first_cluster bk swing atr cfg)"
proof -
  let ?cl = "\<lambda>k. bk_clusters bk (side_for swing) ! k" and ?n = "length (bk_clusters bk (side_for swing))"
  let ?P = "\<lambda>k. live_cluster bk (?cl k) \<and> membership (kl_anchor_price (?cl k)) swing atr cfg \<noteq> None"
  let ?found = "filter (\<lambda>e. membership (fst e) swing atr cfg \<noteq> None) entries"
  have "sorted_wrt (<) entries" using assms(1) by (simp add: cluster_index_ok_def)
  then have "sorted_wrt (\<lambda>x y. fst x \<le> fst y) entries"
    by (rule sorted_wrt_mono_rel [rotated]) (auto simp: less_prod_def)
  then have "sorted (map fst entries)" by (simp add: sorted_wrt_map)
  note matching = matching_entries [OF this assms(2)]
  have members: "set ?found = {(kl_anchor_price (?cl k), k) | k. k < ?n \<and> ?P k}"
    using assms(1) unfolding cluster_index_ok_def by auto
  show ?thesis
  proof (cases "\<exists>k<?n. ?P k")
    case False
    then have "set ?found = {}" unfolding members by blast
    then have "?found = []" by (simp only: set_empty)
    moreover have "first_cluster bk swing atr cfg = None"
      unfolding first_cluster_def Let_def find_upt_least using False by auto
    ultimately show ?thesis unfolding matching by simp
  next
    case True
    then obtain k0 where k0: "k0 < ?n" "?P k0" by blast
    let ?k = "LEAST k. ?P k"
    have least: "?P ?k" "?k \<le> k0" using LeastI [of ?P, OF k0(2)] Least_le [of ?P, OF k0(2)] by simp_all
    then have k: "(kl_anchor_price (?cl ?k), ?k) \<in> set ?found" using members k0(1) by auto
    then have "?found \<noteq> []" by (metis empty_iff set_empty)
    then have "min_by snd ?found \<noteq> None" by (simp only: min_by_None_iff not_False_eq_True)
    then obtain e where e: "min_by snd ?found = Some e" by (meson option.exhaust)
    have "e \<in> {(kl_anchor_price (?cl k), k) | k. k < ?n \<and> ?P k}" using min_by_mem [OF e] unfolding members .
    then obtain j where j: "e = (kl_anchor_price (?cl j), j)" "?P j" by blast
    have "j \<le> ?k" using min_by_least [OF e k] j(1) by simp
    moreover have "?k \<le> j" using Least_le [of ?P, OF j(2)] .
    moreover have "first_cluster bk swing atr cfg = Some ?k"
      unfolding first_cluster_def Let_def find_upt_least using k0 by auto
    ultimately show ?thesis unfolding matching e using j(1) by simp
  qed
qed

section \<open>Pools out of reach\<close>

definition in_reach :: "liquidity_config \<Rightarrow> candle \<Rightarrow> pool_state \<Rightarrow> bool" where
  "in_reach cfg bar pool \<longleftrightarrow>
     (if pl_direction pool = BUY_SIDE then interaction_reach_of cfg pool \<le> c_high bar
      else c_low bar \<le> interaction_reach_of cfg pool)"

definition due_at :: "liquidity_config \<Rightarrow> pool_state \<Rightarrow> nat" where
  "due_at cfg pool = pl_created_bar_index pool + lq_pool_max_age_bars cfg + 1"

lemma out_of_reach:
  assumes "candle_valid bar" "\<not> in_reach cfg bar pool"
  shows "process_interaction bar t cfg pool = Inr (None, pool)"
proof -
  have "c_close bar \<le> c_high bar" "c_low bar \<le> c_close bar" using assms(1) by (simp_all add: candle_valid_iff)
  then have "\<not> taken_by cfg pool bar \<and> \<not> swept_by cfg pool bar \<and> \<not> touched_by pool bar"
    using assms(2) by (auto simp: taken_by_def swept_by_def touched_by_def in_reach_def interaction_reach_of_def
        split: if_splits)
  then show ?thesis by (simp add: process_interaction_def)
qed

lemma advance_by_reach:
  "candle_valid bar \<Longrightarrow> advance_pool cfg tf n bar (in_reach cfg bar pool) pool = advance_pool cfg tf n bar True pool"
  by (cases "in_reach cfg bar pool") (simp_all add: advance_pool_def out_of_reach)

lemma advance_skip:
  assumes "candle_valid bar" "\<not> in_reach cfg bar pool" "n < due_at cfg pool"
  shows "advance_pool cfg tf n bar True pool = Inr (None, pool)"
  using assms(3) by (simp add: advance_pool_def out_of_reach [OF assms(1,2)] expire_pool_def due_at_def)

section \<open>The selection finds the pools in reach and the pools that are due\<close>

definition position_entry :: "liquidity_config \<Rightarrow> 'a liquidity_book_scheme \<Rightarrow> nat \<Rightarrow> reach_entry" where
  "position_entry cfg bk p = (interaction_reach_of cfg (pool_at bk (bk_pools bk ! p)), p, bk_pools bk ! p)"

definition live_positions :: "'a liquidity_book_scheme \<Rightarrow> nat set" where
  "live_positions bk = {p. p < length (bk_pools bk) \<and> \<not> terminal_pool (pool_at bk (bk_pools bk ! p))}"

definition age_key :: "nat \<times> nat \<times> nat \<Rightarrow> nat \<times> nat" where
  "age_key = (\<lambda>(due, position, _). (due, position))"

text \<open>
  What the index holds: one entry per live pool, sorted by reach on each side. Its age is in the heap,
  except for the pools \<open>S\<close> that the current bar \<open>n\<close> has popped and not yet expired.
\<close>

definition reach_index_ok ::
  "liquidity_config \<Rightarrow> nat \<Rightarrow> nat set \<Rightarrow> 'a liquidity_book_scheme \<Rightarrow> reach_index \<Rightarrow> bool" where
  "reach_index_ok cfg n S bk ix \<longleftrightarrow>
     (\<forall>a e. ix_current ix a = Some e \<longleftrightarrow> e \<in> position_entry cfg bk ` live_positions bk \<and> snd (snd e) = a)
     \<and> (\<forall>d. sorted_wrt (<) (map entry_key (ix_prices ix d))
          \<and> set (ix_prices ix d) = {e \<in> position_entry cfg bk ` live_positions bk. pl_direction (pool_at bk (snd (snd e))) = d})
     \<and> sorted (map age_key (ix_ages ix))
     \<and> (\<forall>(due, p, a)\<in>set (ix_ages ix). a < length (bk_store bk) \<and> due = due_at cfg (pool_at bk a))
     \<and> (\<forall>p\<in>live_positions bk. (due_at cfg (pool_at bk (bk_pools bk ! p)), p, bk_pools bk ! p) \<in> set (ix_ages ix)
          \<or> due_at cfg (pool_at bk (bk_pools bk ! p)) \<le> n \<and> bk_pools bk ! p \<in> S)"

lemma reach_index_okD:
  assumes "reach_index_ok cfg n S bk ix"
  shows "ix_current ix a = Some e \<longleftrightarrow> e \<in> position_entry cfg bk ` live_positions bk \<and> snd (snd e) = a"
    and "sorted_wrt (<) (map entry_key (ix_prices ix d))"
    and "set (ix_prices ix d) = {e \<in> position_entry cfg bk ` live_positions bk. pl_direction (pool_at bk (snd (snd e))) = d}"
    and "sorted (map age_key (ix_ages ix))"
    and "(due, p, a) \<in> set (ix_ages ix) \<Longrightarrow> a < length (bk_store bk) \<and> due = due_at cfg (pool_at bk a)"
    and "p \<in> live_positions bk \<Longrightarrow> (due_at cfg (pool_at bk (bk_pools bk ! p)), p, bk_pools bk ! p) \<in> set (ix_ages ix)
          \<or> due_at cfg (pool_at bk (bk_pools bk ! p)) \<le> n \<and> bk_pools bk ! p \<in> S"
  using assms unfolding reach_index_ok_def by blast+

lemma update_new: "a \<notin> fst ` set xs \<Longrightarrow> AList.update a v xs = xs @ [(a, v)]"
  by (induction xs) auto

lemma near_fold:
  assumes "distinct (map (\<lambda>e. snd (snd e)) es)" "\<forall>e\<in>set es. snd (snd e) \<notin> fst ` set acc"
  shows "fold (\<lambda>e. AList.update (snd (snd e)) (e, True)) es acc = acc @ map (\<lambda>e. (snd (snd e), (e, True))) es"
  using assms
proof (induction es arbitrary: acc)
  case (Cons e es)
  have "fold (\<lambda>e. AList.update (snd (snd e)) (e, True)) es (acc @ [(snd (snd e), (e, True))])
      = (acc @ [(snd (snd e), (e, True))]) @ map (\<lambda>e. (snd (snd e), (e, True))) es"
  proof (rule Cons.IH)
    show "distinct (map (\<lambda>e. snd (snd e)) es)" using Cons.prems(1) by simp
    have "snd (snd x) \<noteq> snd (snd e)" if "x \<in> set es" for x
      using Cons.prems(1) that by (metis (mono_tags, lifting) distinct.simps(2) image_eqI list.set_map list.simps(9))
    then show "\<forall>x\<in>set es. snd (snd x) \<notin> fst ` set (acc @ [(snd (snd e), (e, True))])"
      using Cons.prems(2) by simp
  qed
  then show ?case using Cons.prems(2) by (simp add: update_new)
qed simp

lemma chosen_split:
  fixes current :: "'a \<Rightarrow> 'e option"
  shows "{(b, (e, False)) | b e. (b = a \<or> D b) \<and> current b = Some e \<and> b \<notin> K}
    = {(a, (e, False)) | e. current a = Some e \<and> a \<notin> K}
      \<union> {(b, (e, False)) | b e. D b \<and> current b = Some e \<and> b \<notin> K \<and> (b = a \<longrightarrow> current a = None)}"
  by auto

lemma pop_due_result:
  assumes "sorted (map age_key ages)" "distinct (map fst chosen)"
  shows "\<exists>chosen' ages'. pop_due n current ages chosen = (chosen', ages') \<and> distinct (map fst chosen')
    \<and> set chosen' = set chosen \<union> {(a, (e, False)) | a e. (\<exists>due p. (due, p, a) \<in> set ages \<and> due \<le> n)
          \<and> current a = Some e \<and> a \<notin> fst ` set chosen}
    \<and> sorted (map age_key ages') \<and> set ages' = {x \<in> set ages. \<not> fst x \<le> n}"
  using assms
proof (induction ages arbitrary: chosen)
  case Nil
  then show ?case by simp
next
  case (Cons x ages)
  obtain due p a where x: "x = (due, p, a)" by (metis prod_cases3)
  show ?case
  proof (cases "due \<le> n")
    case False
    have later: "due \<le> fst y" if "y \<in> set ages" for y
    proof -
      have "age_key x \<le> age_key y" using Cons.prems(1) that by auto
      then show ?thesis by (auto simp: x age_key_def less_eq_prod_def split: prod.splits)
    qed
    have none: "\<not> fst y \<le> n" if "y \<in> set (x # ages)" for y
      using that later [of y] False by (cases "y = x") (simp_all add: x)
    have "pop_due n current (x # ages) chosen = (chosen, x # ages)" using False by (simp add: x)
    moreover have "set chosen = set chosen \<union> {(a, (e, False)) | a e. (\<exists>due p. (due, p, a) \<in> set (x # ages) \<and> due \<le> n)
          \<and> current a = Some e \<and> a \<notin> fst ` set chosen}"
      using none by fastforce
    moreover have "set (x # ages) = {y \<in> set (x # ages). \<not> fst y \<le> n}" using none by auto
    ultimately show ?thesis
      using Cons.prems by (intro exI [of _ chosen] exI [of _ "x # ages"] conjI)
  next
    case True
    define c where "c = (case current a of None \<Rightarrow> chosen
      | Some entry \<Rightarrow> if a \<in> fst ` set chosen then chosen else AList.update a (entry, False) chosen)"
    have c: "distinct (map fst c)" "set c = set chosen \<union> {(a, (e, False)) | e. current a = Some e \<and> a \<notin> fst ` set chosen}"
      using Cons.prems(2) by (auto simp: c_def update_new split: option.split)
    obtain chosen' ages' where r: "pop_due n current ages c = (chosen', ages')" "distinct (map fst chosen')"
        "set chosen' = set c \<union> {(a, (e, False)) | a e. (\<exists>due p. (due, p, a) \<in> set ages \<and> due \<le> n)
          \<and> current a = Some e \<and> a \<notin> fst ` set c}"
        "sorted (map age_key ages')" "set ages' = {x \<in> set ages. \<not> fst x \<le> n}"
      using Cons.IH [OF _ c(1)] Cons.prems(1) by auto
    have keys: "fst ` set c = fst ` set chosen \<union> (if current a = None then {} else {a})"
      by (cases "current a"; cases "a \<in> fst ` set chosen") (simp_all add: c_def update_new insert_absorb)
    have "set chosen' = set chosen \<union> {(b, (e, False)) | b e. (\<exists>due p. (due, p, b) \<in> set (x # ages) \<and> due \<le> n)
          \<and> current b = Some e \<and> b \<notin> fst ` set chosen}" (is "_ = set chosen \<union> ?new")
    proof -
      have "?new = {(a, (e, False)) | e. current a = Some e \<and> a \<notin> fst ` set chosen}
          \<union> {(b, (e, False)) | b e. (\<exists>due p. (due, p, b) \<in> set ages \<and> due \<le> n) \<and> current b = Some e \<and> b \<notin> fst ` set c}"
      proof -
        define D where "D b \<longleftrightarrow> (\<exists>due p. (due, p, b) \<in> set ages \<and> due \<le> n)" for b
        have D: "(\<exists>due p. (due, p, b) \<in> set (x # ages) \<and> due \<le> n) \<longleftrightarrow> b = a \<or> D b" for b
          using True by (auto simp: x D_def)
        have fresh: "b \<notin> fst ` set c \<longleftrightarrow> b \<notin> fst ` set chosen \<and> (b = a \<longrightarrow> current a = None)" for b
          unfolding keys by auto
        show ?thesis unfolding D D_def [symmetric] fresh by (rule chosen_split)
      qed
      then show ?thesis by (simp only: r(3) Un_assoc [symmetric] c(2) [symmetric])
    qed
    moreover have "set ages' = {y \<in> set (x # ages). \<not> fst y \<le> n}"
      unfolding r(5) using True by (auto simp: x)
    moreover have "pop_due n current (x # ages) chosen = (chosen', ages')" using True r(1) by (simp add: x c_def)
    ultimately show ?thesis
      using r(2,4) by (intro exI [of _ chosen'] exI [of _ ages'] conjI)
  qed
qed

lemma take_below:
  assumes "sorted (map key xs)"
  shows "take (bisect (\<lambda>mid. \<not> v < key (xs ! mid)) 0 (length xs)) xs = filter (\<lambda>x. key x \<le> v) xs"
proof -
  let ?n = "length xs"
  define k where "k = bisect (\<lambda>mid. \<not> v < key (xs ! mid)) 0 ?n"
  have k: "0 \<le> k \<and> k \<le> ?n \<and> (\<forall>i. 0 \<le> i \<longrightarrow> i < ?n \<longrightarrow> \<not> v < key (xs ! i) \<longleftrightarrow> i < k)"
    unfolding k_def
  proof (rule bisect_prefix)
    fix i j assume "i \<le> j" "j < ?n" "\<not> v < key (xs ! j)"
    then show "\<not> v < key (xs ! i)" using sorted_nth_mono [OF assms, of i j] by simp
  qed simp
  then have "take (k - 0) (drop 0 xs) = filter (\<lambda>x. key x \<le> v) xs"
    by (intro filter_cut) (auto simp: not_less)
  then show ?thesis by (simp add: k_def)
qed

lemma drop_below:
  assumes "sorted (map key xs)"
  shows "drop (bisect (\<lambda>mid. key (xs ! mid) < v) 0 (length xs)) xs = filter (\<lambda>x. v \<le> key x) xs"
proof -
  let ?n = "length xs"
  define k where "k = bisect (\<lambda>mid. key (xs ! mid) < v) 0 ?n"
  have k: "0 \<le> k \<and> k \<le> ?n \<and> (\<forall>i. 0 \<le> i \<longrightarrow> i < ?n \<longrightarrow> key (xs ! i) < v \<longleftrightarrow> i < k)"
    unfolding k_def
  proof (rule bisect_prefix)
    fix i j assume "i \<le> j" "j < ?n" "key (xs ! j) < v"
    then show "key (xs ! i) < v" using sorted_nth_mono [OF assms, of i j] by simp
  qed simp
  then have "take (?n - k) (drop k xs) = filter (\<lambda>x. v \<le> key x) xs"
    by (intro filter_cut) (auto simp: not_less [symmetric])
  then show ?thesis by (simp add: k_def)
qed

lemma sort_by_position:
  assumes "distinct (map pos xs)" "set (map pos xs) = {p. p < n \<and> P p}" "\<forall>x\<in>set xs. h (pos x) = x"
  shows "sort_key pos xs = map h (filter P [0..<n])"
proof -
  have "sorted (map pos (sort_key pos xs))" "distinct (map pos (sort_key pos xs))"
    using assms(1) by (simp_all add: distinct_map)
  moreover have "set (map pos (sort_key pos xs)) = set (filter P [0..<n])" using assms(2) by auto
  ultimately have "map pos (sort_key pos xs) = filter P [0..<n]"
    by (intro sorted_distinct_set_unique) (simp_all add: sorted_wrt_filter)
  moreover have "map (\<lambda>x. h (pos x)) (sort_key pos xs) = sort_key pos xs"
    by (rule map_idI) (simp add: assms(3))
  ultimately show ?thesis by (metis (no_types, lifting) map_eq_conv map_map comp_apply)
qed

definition selected_positions :: "liquidity_config \<Rightarrow> nat \<Rightarrow> candle \<Rightarrow> 'a liquidity_book_scheme \<Rightarrow> nat \<Rightarrow> bool" where
  "selected_positions cfg n bar bk p \<longleftrightarrow> p \<in> live_positions bk
     \<and> (in_reach cfg bar (pool_at bk (bk_pools bk ! p)) \<or> due_at cfg (pool_at bk (bk_pools bk ! p)) \<le> n)"

lemma near_entries:
  fixes bar :: candle
  assumes ok: "reach_index_ok cfg n S bk ix" and pools: "distinct (bk_pools bk)"
  defines "es \<equiv> filter (\<lambda>e. fst e \<le> c_high bar) (ix_prices ix BUY_SIDE) @ filter (\<lambda>e. c_low bar \<le> fst e) (ix_prices ix SELL_SIDE)"
  shows "set es = position_entry cfg bk ` {p \<in> live_positions bk. in_reach cfg bar (pool_at bk (bk_pools bk ! p))}"
    and "distinct (map (\<lambda>e. snd (snd e)) es)"
proof -
  have "x \<in> set es \<longleftrightarrow> (\<exists>p\<in>live_positions bk. x = position_entry cfg bk p \<and> in_reach cfg bar (pool_at bk (bk_pools bk ! p)))" for x
  proof -
    have side: "pl_direction y = SELL_SIDE \<longleftrightarrow> pl_direction y \<noteq> BUY_SIDE" for y by (cases "pl_direction y") simp_all
    show ?thesis
      unfolding es_def set_append set_filter reach_index_okD(3) [OF ok]
      by (auto simp: position_entry_def in_reach_def side)
  qed
  then show "set es = position_entry cfg bk ` {p \<in> live_positions bk. in_reach cfg bar (pool_at bk (bk_pools bk ! p))}" by auto
  have inj: "inj_on (\<lambda>e. snd (snd e)) (position_entry cfg bk ` live_positions bk)"
    using nth_eq_iff_index_eq [OF pools] by (auto simp: inj_on_def position_entry_def live_positions_def)
  have "distinct (ix_prices ix d)" for d
    using reach_index_okD(2) [OF ok, of d] by (simp add: strict_sorted_iff distinct_map)
  then have "distinct es"
    unfolding es_def distinct_append set_filter reach_index_okD(3) [OF ok] by auto
  moreover have "set es \<subseteq> position_entry cfg bk ` live_positions bk"
    unfolding es_def set_append set_filter reach_index_okD(3) [OF ok] by blast
  ultimately show "distinct (map (\<lambda>e. snd (snd e)) es)"
    using inj_on_subset [OF inj] by (simp add: distinct_map)
qed

lemma index_selected_ok:
  assumes ok: "reach_index_ok cfg n {} bk ix" and pools: "distinct (bk_pools bk)"
  shows "\<exists>ix'. index_selected bar n ix =
      (map (\<lambda>a. (a, in_reach cfg bar (pool_at bk a)))
         (map ((!) (bk_pools bk)) (filter (selected_positions cfg n bar bk) [0..<length (bk_pools bk)])), ix')
    \<and> reach_index_ok cfg n (set (map ((!) (bk_pools bk)) (filter (selected_positions cfg n bar bk) [0..<length (bk_pools bk)]))) bk ix'"
proof -
  let ?pool = "\<lambda>p. pool_at bk (bk_pools bk ! p)"
  let ?near = "\<lambda>p. in_reach cfg bar (?pool p)"
  let ?h = "\<lambda>p. (bk_pools bk ! p, (position_entry cfg bk p, ?near p))"
  let ?es = "filter (\<lambda>e. fst e \<le> c_high bar) (ix_prices ix BUY_SIDE) @ filter (\<lambda>e. c_low bar \<le> fst e) (ix_prices ix SELL_SIDE)"
  let ?near_chosen = "map (\<lambda>e. (snd (snd e), (e, True))) ?es"
  have prices: "sorted (map fst (ix_prices ix d))" for d
  proof -
    have "sorted_wrt (\<lambda>x y. entry_key x < entry_key y) (ix_prices ix d)"
      using reach_index_okD(2) [OF ok, of d] by (simp add: sorted_wrt_map)
    then have "sorted_wrt (\<lambda>x y. fst x \<le> fst y) (ix_prices ix d)"
      by (rule sorted_wrt_mono_rel [rotated]) (auto simp: entry_key_def less_prod_def)
    then show ?thesis by (simp add: sorted_wrt_map)
  qed
  note es = near_entries [OF ok pools, of bar]
  have fold: "fold (\<lambda>entry. AList.update (snd (snd entry)) (entry, True)) ?es [] = ?near_chosen"
    using near_fold [OF es(2), of "[]"] by simp
  have keys: "distinct (map fst ?near_chosen)" using es(2) by (simp add: comp_def)
  obtain chosen ages where r: "pop_due n (ix_current ix) (ix_ages ix) ?near_chosen = (chosen, ages)"
      "distinct (map fst chosen)"
      "set chosen = set ?near_chosen \<union> {(a, (e, False)) | a e. (\<exists>due p. (due, p, a) \<in> set (ix_ages ix) \<and> due \<le> n)
          \<and> ix_current ix a = Some e \<and> a \<notin> fst ` set ?near_chosen}"
      "sorted (map age_key ages)" "set ages = {x \<in> set (ix_ages ix). \<not> fst x \<le> n}"
    using pop_due_result [OF reach_index_okD(4) [OF ok] keys, of n "ix_current ix"] by (elim exE conjE) (rule that)
  have near_set: "set ?near_chosen = ?h ` {p \<in> live_positions bk. ?near p}"
  proof -
    have "set ?near_chosen = (\<lambda>e. (snd (snd e), (e, True))) ` set ?es" by (rule set_map)
    also have "\<dots> = (\<lambda>p. (bk_pools bk ! p, (position_entry cfg bk p, True))) ` {p \<in> live_positions bk. ?near p}"
      unfolding es(1) image_image by (simp add: position_entry_def)
    also have "\<dots> = ?h ` {p \<in> live_positions bk. ?near p}" by (rule image_cong) simp_all
    finally show ?thesis .
  qed
  have near_key: "a \<in> fst ` set ?near_chosen \<longleftrightarrow> in_reach cfg bar (pool_at bk a)" if "p \<in> live_positions bk" "a = bk_pools bk ! p" for a p
    unfolding near_set using that by (auto simp: image_image image_iff)
  have due_set: "{(a, (e, False)) | a e. (\<exists>due p. (due, p, a) \<in> set (ix_ages ix) \<and> due \<le> n)
        \<and> ix_current ix a = Some e \<and> a \<notin> fst ` set ?near_chosen}
      = ?h ` {p \<in> live_positions bk. \<not> ?near p \<and> due_at cfg (?pool p) \<le> n}" (is "?left = ?right")
  proof
    show "?left \<subseteq> ?right"
    proof
      fix x assume "x \<in> ?left"
      then obtain a e due q where x: "x = (a, (e, False))" "(due, q, a) \<in> set (ix_ages ix)" "due \<le> n"
          "ix_current ix a = Some e" "a \<notin> fst ` set ?near_chosen" by blast
      from x(4) obtain p where p: "p \<in> live_positions bk" "e = position_entry cfg bk p" "a = bk_pools bk ! p"
        unfolding reach_index_okD(1) [OF ok] by (auto simp: position_entry_def)
      have "\<not> ?near p" using x(5) near_key [OF p(1,3)] p(3) by simp
      moreover have "due_at cfg (?pool p) \<le> n" using reach_index_okD(5) [OF ok x(2)] x(3) p(3) by simp
      ultimately show "x \<in> ?right" using x(1) p by (intro image_eqI [of _ _ p]) simp_all
    qed
    show "?right \<subseteq> ?left"
    proof
      fix x assume "x \<in> ?right"
      then obtain p where p: "p \<in> live_positions bk" "\<not> ?near p" "due_at cfg (?pool p) \<le> n"
          "x = (bk_pools bk ! p, (position_entry cfg bk p, False))" by auto
      have "(due_at cfg (?pool p), p, bk_pools bk ! p) \<in> set (ix_ages ix)"
        using reach_index_okD(6) [OF ok p(1)] by blast
      moreover have "ix_current ix (bk_pools bk ! p) = Some (position_entry cfg bk p)"
        unfolding reach_index_okD(1) [OF ok] using p(1) by (auto simp: position_entry_def)
      moreover have "bk_pools bk ! p \<notin> fst ` set ?near_chosen" using near_key [OF p(1) refl] p(2) by simp
      ultimately show "x \<in> ?left" using p(3,4) by blast
    qed
  qed
  have members: "set chosen = ?h ` {p. p < length (bk_pools bk) \<and> selected_positions cfg n bar bk p}"
    unfolding r(3) due_set unfolding near_set image_Un [symmetric]
    by (rule arg_cong [of _ _ "image ?h"]) (auto simp: selected_positions_def live_positions_def)
  let ?pos = "\<lambda>(_, (_, position, _), _). position"
  have pos: "?pos (?h p) = p" for p by (simp add: position_entry_def)
  have "sort_key ?pos chosen = map ?h (filter (selected_positions cfg n bar bk) [0..<length (bk_pools bk)])"
  proof (rule sort_by_position)
    show same: "\<forall>x\<in>set chosen. ?h (?pos x) = x" unfolding members by (auto simp: position_entry_def)
    have "inj_on ?pos (set chosen)"
    proof (rule inj_on_inverseI)
      show "?h (?pos x) = x" if "x \<in> set chosen" for x using same that by blast
    qed
    then show "distinct (map ?pos chosen)" using r(2) by (simp add: distinct_map)
    show "set (map ?pos chosen) = {p. p < length (bk_pools bk) \<and> selected_positions cfg n bar bk p}"
      unfolding set_map members image_image pos by simp
  qed
  then have "index_selected bar n ix =
      (map (\<lambda>a. (a, in_reach cfg bar (pool_at bk a)))
         (map ((!) (bk_pools bk)) (filter (selected_positions cfg n bar bk) [0..<length (bk_pools bk)])), ix\<lparr>ix_ages := ages\<rparr>)"
    unfolding index_selected_def Let_def take_below [OF prices] drop_below [OF prices] fold r(1)
    by (simp add: comp_def)
  moreover have "reach_index_ok cfg n (set (map ((!) (bk_pools bk)) (filter (selected_positions cfg n bar bk) [0..<length (bk_pools bk)])))
      bk (ix\<lparr>ix_ages := ages\<rparr>)" (is "reach_index_ok cfg n ?S bk _")
  proof -
    have "(due_at cfg (?pool p), p, bk_pools bk ! p) \<in> set ages
        \<or> due_at cfg (?pool p) \<le> n \<and> bk_pools bk ! p \<in> ?S" if p: "p \<in> live_positions bk" for p
    proof (cases "due_at cfg (?pool p) \<le> n")
      case True
      then have "p \<in> set (filter (selected_positions cfg n bar bk) [0..<length (bk_pools bk)])"
        using p by (simp add: selected_positions_def live_positions_def)
      then show ?thesis using True by (metis image_eqI list.set_map)
    next
      case False
      then show ?thesis using reach_index_okD(6) [OF ok p] r(5) by simp
    qed
    moreover have "\<forall>(due, p, a)\<in>set ages. a < length (bk_store bk) \<and> due = due_at cfg (pool_at bk a)"
      using reach_index_okD(5) [OF ok] r(5) by auto
    ultimately show ?thesis
      using reach_index_okD(1-3) [OF ok] r(4) by (simp add: reach_index_ok_def)
  qed
  ultimately show ?thesis by blast
qed

section \<open>Entries come and go\<close>

definition index_holds :: "reach_entry set \<Rightarrow> (nat \<Rightarrow> liquidity_direction) \<Rightarrow> reach_index \<Rightarrow> bool" where
  "index_holds E direction_of ix \<longleftrightarrow>
     (\<forall>a e. ix_current ix a = Some e \<longleftrightarrow> e \<in> E \<and> snd (snd e) = a)
     \<and> (\<forall>d. sorted_wrt (<) (map entry_key (ix_prices ix d))
          \<and> set (ix_prices ix d) = {e \<in> E. direction_of (snd (snd e)) = d})"

lemma reach_index_ok_iff:
  "reach_index_ok cfg n S bk ix \<longleftrightarrow>
    index_holds (position_entry cfg bk ` live_positions bk) (\<lambda>a. pl_direction (pool_at bk a)) ix
    \<and> sorted (map age_key (ix_ages ix))
    \<and> (\<forall>(due, p, a)\<in>set (ix_ages ix). a < length (bk_store bk) \<and> due = due_at cfg (pool_at bk a))
    \<and> (\<forall>p\<in>live_positions bk. (due_at cfg (pool_at bk (bk_pools bk ! p)), p, bk_pools bk ! p) \<in> set (ix_ages ix)
          \<or> due_at cfg (pool_at bk (bk_pools bk ! p)) \<le> n \<and> bk_pools bk ! p \<in> S)"
  by (simp add: reach_index_ok_def index_holds_def conj_assoc)

lemma index_discard_holds:
  assumes "index_holds E direction_of ix" "e \<in> E" "inj_on (\<lambda>e. snd (snd e)) E"
  shows "\<exists>ix'. index_discard direction_of (snd (snd e)) ix = Inr ix' \<and> index_holds (E - {e}) direction_of ix'
    \<and> ix_ages ix' = ix_ages ix"
proof -
  let ?a = "snd (snd e)" and ?d = "direction_of (snd (snd e))"
  have current: "ix_current ix a = Some x \<longleftrightarrow> x \<in> E \<and> snd (snd x) = a" for a x
    using assms(1) unfolding index_holds_def by blast
  have prices: "sorted_wrt (<) (map entry_key (ix_prices ix d))" "set (ix_prices ix d) = {x \<in> E. direction_of (snd (snd x)) = d}" for d
    using assms(1) by (simp_all add: index_holds_def)
  have here: "ix_current ix ?a = Some e" unfolding current using assms(2) by simp
  have "e \<in> set (ix_prices ix ?d)" unfolding prices(2) using assms(2) by simp
  from remove_by_found [OF prices(1) this] obtain ys where ys: "remove_by entry_key (entry_key e) (ix_prices ix ?d) = Inr ys"
      "sorted_wrt (<) (map entry_key ys)" "set ys = set (ix_prices ix ?d) - {e}" by blast
  let ?ix = "ix\<lparr>ix_current := (ix_current ix)(?a := None), ix_prices := (ix_prices ix)(?d := ys)\<rparr>"
  have "index_discard direction_of ?a ix = Inr ?ix" by (simp add: index_discard_def here ys(1))
  moreover have "index_holds (E - {e}) direction_of ?ix"
    unfolding index_holds_def
  proof (intro conjI allI)
    fix a x
    have only: "y = e" if "y \<in> E" "snd (snd y) = ?a" for y
      using inj_onD [OF assms(3) that(2)] that(1) assms(2) by blast
    show "ix_current ?ix a = Some x \<longleftrightarrow> x \<in> E - {e} \<and> snd (snd x) = a"
      using current [of a x] only [of x] by (cases "a = ?a") auto
  next
    fix d
    show "sorted_wrt (<) (map entry_key (ix_prices ?ix d))" using ys(2) prices(1) by simp
    show "set (ix_prices ?ix d) = {x \<in> E - {e}. direction_of (snd (snd x)) = d}"
      using ys(3) prices(2) by auto
  qed
  ultimately show ?thesis by (intro exI [of _ ?ix]) simp
qed

lemma index_put_holds:
  assumes "index_holds E direction_of ix" "\<forall>x\<in>E. snd (snd x) \<noteq> snd (snd e)" "\<forall>x\<in>E. fst (snd x) \<noteq> fst (snd e)"
  shows "index_holds (insert e E) direction_of (index_put (direction_of (snd (snd e))) e ix)"
    and "ix_ages (index_put (direction_of (snd (snd e))) e ix) = ix_ages ix"
proof -
  let ?a = "snd (snd e)" and ?d = "direction_of (snd (snd e))"
  have current: "ix_current ix a = Some x \<longleftrightarrow> x \<in> E \<and> snd (snd x) = a" for a x
    using assms(1) unfolding index_holds_def by blast
  have prices: "sorted_wrt (<) (map entry_key (ix_prices ix d))" "set (ix_prices ix d) = {x \<in> E. direction_of (snd (snd x)) = d}" for d
    using assms(1) by (simp_all add: index_holds_def)
  have "entry_key e \<notin> entry_key ` set (ix_prices ix ?d)"
    unfolding prices(2) using assms(3) by (auto simp: entry_key_def)
  note put = insert_by_strict [OF prices(1) this]
  show "index_holds (insert e E) direction_of (index_put ?d e ix)"
    unfolding index_holds_def
  proof (intro conjI allI)
    fix a x
    show "ix_current (index_put ?d e ix) a = Some x \<longleftrightarrow> x \<in> insert e E \<and> snd (snd x) = a"
      using current [of a x] assms(2) by (cases "a = ?a") (auto simp: index_put_def)
  next
    fix d
    show "sorted_wrt (<) (map entry_key (ix_prices (index_put ?d e ix) d))"
      using put prices(1) by (simp add: index_put_def)
    show "set (ix_prices (index_put ?d e ix) d) = {x \<in> insert e E. direction_of (snd (snd x)) = d}"
      using put prices(2) by (auto simp: index_put_def)
  qed
  show "ix_ages (index_put ?d e ix) = ix_ages ix" by (simp add: index_put_def)
qed

lemma index_age_sorted:
  assumes "sorted (map age_key (ix_ages ix))"
  shows "sorted (map age_key (ix_ages (index_age age ix)))"
    and "set (ix_ages (index_age age ix)) = insert age (set (ix_ages ix))"
    and "index_holds E direction_of (index_age age ix) = index_holds E direction_of ix"
  using insert_by_sorted(1,2) [OF assms, of age]
  by (simp_all add: index_age_def age_key_def index_holds_def)

section \<open>What a step keeps of a pool\<close>

definition history_entry_of ::
  "liquidity_history_event_type \<Rightarrow> utc_time \<Rightarrow> string option \<Rightarrow> pool_state \<Rightarrow> liquidity_history_entry" where
  "history_entry_of event_type t i pool =
     \<lparr>lh_sequence = int (length (pl_history pool)), lh_event_type = event_type,
      lh_available_at = t, lh_type = pool_event_type (pl_direction pool) (pl_formation pool),
      lh_formation = pl_formation pool, lh_level = pl_level pool,
      lh_lower_bound = pl_lower_bound pool, lh_upper_bound = pl_upper_bound pool,
      lh_state = pl_state pool, lh_terminal_reason = pl_terminal_reason pool,
      lh_confirmation = pl_confirmation pool, lh_source_structure = pl_source_structure pool,
      lh_source_prices = pl_source_prices pool,
      lh_source_pivot_timestamps = pl_source_pivot_timestamps pool,
      lh_members_available_at = pl_members_available_at pool, lh_swept_at = pl_swept_at pool,
      lh_interaction_event_id = i\<rparr>"

lemma record_history_Inr:
  "record_history event_type t i pool = Inr y \<longleftrightarrow>
    history_entry_valid (history_entry_of event_type t i pool)
    \<and> y = pool\<lparr>pl_history := pl_history pool @ [history_entry_of event_type t i pool]\<rparr>"
proof -
  have "make_history_entry h = Inr h' \<Longrightarrow> h' = h" for h h'
    by (auto simp: make_history_entry_def Let_def split: if_splits)
  then show ?thesis
    unfolding record_history_def history_entry_of_def [symmetric] history_entry_valid_def
    by (auto simp: bind_result_eq_Inr)
qed

lemma interact_Inr:
  assumes "interact ty conf he bar t pool = Inr (e, y)"
  defines "i \<equiv> interaction_of ty bar t conf pool"
  shows "e = Some i" "make_interaction i = Inr i"
    "history_entry_valid (history_entry_of he t (Some (li_event_id i)) pool)"
    "y = pool\<lparr>pl_interactions := pl_interactions pool @ [i],
      pl_history := pl_history pool @ [history_entry_of he t (Some (li_event_id i)) pool]\<rparr>"
proof -
  have make: "make_interaction x = Inr x' \<Longrightarrow> x' = x" for x x'
    by (auto simp: make_interaction_def split: if_splits)
  have entry: "history_entry_of he t x (pool\<lparr>pl_interactions := xs\<rparr>) = history_entry_of he t x pool" for x xs
    by (simp add: history_entry_of_def)
  obtain i' where i': "make_interaction i = Inr i'"
      "record_history he t (Some (li_event_id i')) (pool\<lparr>pl_interactions := pl_interactions pool @ [i']\<rparr>) = Inr y" "e = Some i'"
    using assms(1) unfolding interact_def append_interaction_def i_def by (auto simp: bind_result_eq_Inr)
  have "i' = i" by (rule make [OF i'(1)])
  then show "e = Some i" "make_interaction i = Inr i"
    "history_entry_valid (history_entry_of he t (Some (li_event_id i)) pool)"
    "y = pool\<lparr>pl_interactions := pl_interactions pool @ [i],
      pl_history := pl_history pool @ [history_entry_of he t (Some (li_event_id i)) pool]\<rparr>"
    using i' by (simp_all add: record_history_Inr entry)
qed

definition same_core :: "pool_state \<Rightarrow> pool_state \<Rightarrow> bool" where
  "same_core p q \<longleftrightarrow> pl_pool_id q = pl_pool_id p \<and> pl_direction q = pl_direction p
     \<and> pl_lower_bound q = pl_lower_bound p \<and> pl_upper_bound q = pl_upper_bound p
     \<and> pl_created_bar_index q = pl_created_bar_index p \<and> pl_created_at q = pl_created_at p"

lemma process_interaction_core:
  assumes "process_interaction bar t cfg pool = Inr (e, y)"
  shows "same_core pool y"
proof -
  have kept: "same_core p y" if "interact ty conf he bar t p = Inr (e, y)" for p ty conf he
    using interact_Inr(4) [OF that] by (simp add: same_core_def)
  have "same_core pool y" if "same_core p y" "same_core pool p" for p using that by (simp add: same_core_def)
  then show ?thesis
    using assms kept unfolding process_interaction_def
    by (auto simp: same_core_def split: if_splits)
qed

lemma advance_pool_core:
  assumes "advance_pool cfg tf n bar reachable pool = Inr (e, y)"
  shows "same_core pool y" "due_at cfg pool \<le> n \<Longrightarrow> terminal_pool y"
proof -
  obtain z where z: "reachable \<Longrightarrow> process_interaction bar (c_timestamp bar + timeframe_duration tf) cfg pool = Inr (e, z)"
      "\<not> reachable \<Longrightarrow> z = pool"
      "expire_pool n (c_timestamp bar + timeframe_duration tf) cfg z = Inr y"
    using assms by (auto simp: advance_pool_def Let_def bind_result_eq_Inr split: if_splits)
  have "same_core pool z" using process_interaction_core z(1,2) by (cases reachable) (auto simp: same_core_def)
  moreover have "same_core z y"
    using z(3) by (auto simp: expire_pool_def record_history_Inr same_core_def split: if_splits)
  ultimately show "same_core pool y" by (simp add: same_core_def)
  assume "due_at cfg pool \<le> n"
  then have "int n - int (pl_created_bar_index z) > int (lq_pool_max_age_bars cfg)"
    using \<open>same_core pool z\<close> by (simp add: due_at_def same_core_def)
  then show "terminal_pool y"
    using z(3) by (auto simp: expire_pool_def record_history_Inr terminal_pool_def split: if_splits)
qed

section \<open>The invariant of the run\<close>

definition clusters_ok :: "'a liquidity_book_scheme \<Rightarrow> bool" where
  "clusters_ok bk \<longleftrightarrow>
     (\<forall>d k a. k < length (bk_clusters bk d) \<and> kl_pool (bk_clusters bk d ! k) = Some a \<longrightarrow> a < length (bk_store bk))
     \<and> (\<forall>d k d' k' a. k < length (bk_clusters bk d) \<and> k' < length (bk_clusters bk d')
          \<and> kl_pool (bk_clusters bk d ! k) = Some a \<and> kl_pool (bk_clusters bk d' ! k') = Some a \<longrightarrow> d = d' \<and> k = k')"

definition book_ok :: "'a liquidity_book_scheme \<Rightarrow> bool" where
  "book_ok bk \<longleftrightarrow> distinct (bk_pools bk) \<and> (\<forall>a\<in>set (bk_pools bk). a < length (bk_store bk))
     \<and> (\<forall>a<length (bk_store bk). terminal_pool (pool_at bk a) \<longrightarrow> a \<in> set (bk_pools bk)) \<and> clusters_ok bk"

definition keys_ok :: "liquidity_run \<Rightarrow> bool" where
  "keys_ok run \<longleftrightarrow> (\<forall>a d anchor k. rn_cluster_keys run a = Some (d, anchor, k) \<longleftrightarrow>
     a \<in> set (live_pools run) \<and> k < length (bk_clusters run d) \<and> kl_pool (bk_clusters run d ! k) = Some a
     \<and> anchor = kl_anchor_price (bk_clusters run d ! k))"

definition run_ok :: "liquidity_config \<Rightarrow> nat \<Rightarrow> nat set \<Rightarrow> liquidity_run \<Rightarrow> bool" where
  "run_ok cfg n S run \<longleftrightarrow> book_ok run
     \<and> (\<forall>i. rn_pools_by_identity run i = filter (\<lambda>a. pl_pool_id (pool_at run a) = i) (bk_pools run))
     \<and> (\<forall>a\<in>set (live_pools run). rn_reach run a \<noteq> None)
     \<and> reach_index_ok cfg n S run (rn_active run)
     \<and> (\<forall>d. cluster_index_ok run d (rn_cluster_index run d))
     \<and> keys_ok run"

lemma run_okD:
  assumes "run_ok cfg n S run"
  shows "distinct (bk_pools run)" "a \<in> set (bk_pools run) \<Longrightarrow> a < length (bk_store run)"
    "a < length (bk_store run) \<Longrightarrow> terminal_pool (pool_at run a) \<Longrightarrow> a \<in> set (bk_pools run)"
    "clusters_ok run"
    "rn_pools_by_identity run i = filter (\<lambda>a. pl_pool_id (pool_at run a) = i) (bk_pools run)"
    "a \<in> set (live_pools run) \<Longrightarrow> rn_reach run a \<noteq> None"
    "reach_index_ok cfg n S run (rn_active run)" "cluster_index_ok run d (rn_cluster_index run d)" "keys_ok run"
  using assms unfolding run_ok_def book_ok_def by blast+

lemma live_position:
  assumes "a \<in> set (live_pools bk)"
  obtains p where "p \<in> live_positions bk" "bk_pools bk ! p = a"
  using assms by (auto simp: live_pools_def live_positions_def in_set_conv_nth)

lemma live_positions_pools: "(\<lambda>p. bk_pools bk ! p) ` live_positions bk = set (live_pools bk)"
  by (auto simp: live_pools_def live_positions_def in_set_conv_nth)

lemma position_entries_inj:
  "distinct (bk_pools bk) \<Longrightarrow> inj_on (\<lambda>e. snd (snd e)) (position_entry cfg bk ` live_positions bk)"
  using nth_eq_iff_index_eq [of "bk_pools bk"] by (auto simp: inj_on_def position_entry_def live_positions_def)

section \<open>A bar in lockstep\<close>

lemma store_outcome_simps [simp]:
  "bk_pools (store_outcome a (e, y) bk) = bk_pools bk" "bk_clusters (store_outcome a (e, y) bk) = bk_clusters bk"
  "bk_store (store_outcome a (e, y) bk) = (bk_store bk)[a := y]"
  "bk_dual_sweeps (store_outcome a (e, y) bk) = bk_dual_sweeps bk"
  "rn_pools_by_identity (store_outcome a (e, y) run) = rn_pools_by_identity run"
  "rn_active (store_outcome a (e, y) run) = rn_active run" "rn_reach (store_outcome a (e, y) run) = rn_reach run"
  "rn_cluster_index (store_outcome a (e, y) run) = rn_cluster_index run"
  "rn_cluster_keys (store_outcome a (e, y) run) = rn_cluster_keys run"
  by (simp_all add: store_outcome_def)

lemma stored_core:
  assumes "a < length (bk_store bk)" "same_core (pool_at bk a) y"
  shows "pl_pool_id (pool_at (store_outcome a (e, y) bk) b) = pl_pool_id (pool_at bk b)"
    and "pl_direction (pool_at (store_outcome a (e, y) bk) b) = pl_direction (pool_at bk b)"
    and "due_at cfg (pool_at (store_outcome a (e, y) bk) b) = due_at cfg (pool_at bk b)"
    and "position_entry cfg (store_outcome a (e, y) bk) p = position_entry cfg bk p"
proof -
  have same: "same_core (pool_at bk b) (pool_at (store_outcome a (e, y) bk) b)" for b
    using assms by (cases "b = a") (simp_all add: same_core_def)
  then show "pl_pool_id (pool_at (store_outcome a (e, y) bk) b) = pl_pool_id (pool_at bk b)"
    "pl_direction (pool_at (store_outcome a (e, y) bk) b) = pl_direction (pool_at bk b)"
    "due_at cfg (pool_at (store_outcome a (e, y) bk) b) = due_at cfg (pool_at bk b)"
    by (simp_all add: same_core_def due_at_def)
  have "interaction_reach_of cfg (pool_at (store_outcome a (e, y) bk) b) = interaction_reach_of cfg (pool_at bk b)" for b
    using same [of b] by (simp add: same_core_def interaction_reach_of_def)
  then show "position_entry cfg (store_outcome a (e, y) bk) p = position_entry cfg bk p"
    by (simp add: position_entry_def del: store_outcome_simps(3))
qed

lemma stored_live:
  assumes "a < length (bk_store bk)" "a \<in> set (live_pools bk)"
  shows "set (live_pools (store_outcome a (e, y) bk)) = set (live_pools bk) - (if terminal_pool y then {a} else {})"
    and "live_positions (store_outcome a (e, y) bk) = live_positions bk - (if terminal_pool y then {p. bk_pools bk ! p = a} else {})"
    and "live_cluster (store_outcome a (e, y) bk) cluster \<longleftrightarrow> live_cluster bk cluster \<and> (kl_pool cluster = Some a \<longrightarrow> \<not> terminal_pool y)"
proof -
  have a: "\<not> terminal_pool (pool_at bk a)" "a \<in> set (bk_pools bk)" using assms(2) by (simp_all add: live_pools_def)
  have at: "pool_at (store_outcome a (e, y) bk) b = (if b = a then y else pool_at bk b)" for b
    using assms(1) by simp
  show "set (live_pools (store_outcome a (e, y) bk)) = set (live_pools bk) - (if terminal_pool y then {a} else {})"
    using a by (auto simp: live_pools_def at simp del: store_outcome_simps(3))
  show "live_positions (store_outcome a (e, y) bk) = live_positions bk - (if terminal_pool y then {p. bk_pools bk ! p = a} else {})"
    using a by (auto simp: live_positions_def at simp del: store_outcome_simps(3))
  show "live_cluster (store_outcome a (e, y) bk) cluster \<longleftrightarrow> live_cluster bk cluster \<and> (kl_pool cluster = Some a \<longrightarrow> \<not> terminal_pool y)"
    using a by (cases "kl_pool cluster") (auto simp: live_cluster_def at simp del: store_outcome_simps(3))
qed

lemma stored_book:
  assumes "book_ok bk" "a \<in> set (live_pools bk)"
  shows "book_ok (store_outcome a (e, y) bk)"
proof -
  have a: "a \<in> set (bk_pools bk)" using assms(2) by (simp add: live_pools_def)
  then have "a < length (bk_store bk)" using assms(1) by (simp add: book_ok_def)
  moreover have "clusters_ok (store_outcome a (e, y) bk)"
    using assms(1) by (simp add: book_ok_def clusters_ok_def)
  ultimately show ?thesis using assms(1) a by (auto simp: book_ok_def nth_list_update)
qed

text \<open>A pool that stays live keeps its place in every index.\<close>

lemma store_live_ok:
  assumes "run_ok cfg n S run" "a \<in> set (live_pools run)" "same_core (pool_at run a) y"
    and "\<not> terminal_pool y" "n < due_at cfg (pool_at run a)"
  shows "run_ok cfg n (S - {a}) (store_outcome a (e, y) run)"
proof -
  let ?run = "store_outcome a (e, y) run"
  note ok = run_okD [OF assms(1)]
  have a: "a < length (bk_store run)" using ok(2) assms(2) by (simp add: live_pools_def)
  note core = stored_core [OF a assms(3)] and live = stored_live [OF a assms(2)]
  have ages: "(due_at cfg (pool_at run (bk_pools run ! p)), p, bk_pools run ! p) \<in> set (ix_ages (rn_active run))
      \<or> due_at cfg (pool_at run (bk_pools run ! p)) \<le> n \<and> bk_pools run ! p \<in> S - {a}"
    if "p \<in> live_positions run" for p
    using reach_index_okD(6) [OF ok(7) that] assms(5) by auto
  have "reach_index_ok cfg n (S - {a}) ?run (rn_active ?run)"
    using ok(7) ages assms(4) unfolding reach_index_ok_iff by (simp add: core live(2) del: store_outcome_simps(3)) simp
  moreover have "cluster_index_ok ?run d (rn_cluster_index ?run d)" for d
    using ok(8) [of d] assms(4) by (simp add: cluster_index_ok_def live(3))
  moreover have "keys_ok ?run" using ok(9) assms(4) by (simp add: keys_ok_def live(1))
  moreover have "book_ok ?run" using assms(1,2) by (intro stored_book) (simp_all add: run_ok_def)
  ultimately show ?thesis
    using ok(5,6) assms(4) by (simp add: run_ok_def core(1) live(1) del: store_outcome_simps(3))
qed

lemma image_without: "\<forall>q\<in>L. f q = x \<longleftrightarrow> P q \<Longrightarrow> f ` L - {x} = f ` (L - {q. P q})"
  by auto

lemma keys_okD:
  "keys_ok run \<Longrightarrow> rn_cluster_keys run a = Some (d, anchor, k) \<longleftrightarrow>
     a \<in> set (live_pools run) \<and> k < length (bk_clusters run d) \<and> kl_pool (bk_clusters run d ! k) = Some a
     \<and> anchor = kl_anchor_price (bk_clusters run d ! k)"
  unfolding keys_ok_def by blast

lemma clusters_okD:
  assumes "clusters_ok bk"
  shows "k < length (bk_clusters bk d) \<Longrightarrow> kl_pool (bk_clusters bk d ! k) = Some a \<Longrightarrow> a < length (bk_store bk)"
    and "k < length (bk_clusters bk d) \<Longrightarrow> kl_pool (bk_clusters bk d ! k) = Some a
      \<Longrightarrow> k' < length (bk_clusters bk d') \<Longrightarrow> kl_pool (bk_clusters bk d' ! k') = Some a \<Longrightarrow> d' = d \<and> k' = k"
  using assms unfolding clusters_ok_def by blast+

text \<open>A pool that ends leaves the index of pools, and its cluster the index of clusters.\<close>

lemma store_retired_index:
  assumes "run_ok cfg n S run" "a \<in> set (live_pools run)" "same_core (pool_at run a) y" "terminal_pool y"
  shows "\<exists>ix. index_discard (\<lambda>b. pl_direction (pool_at (store_outcome a (e, y) run) b)) a (rn_active run) = Inr ix
    \<and> reach_index_ok cfg n (S - {a}) (store_outcome a (e, y) run) ix"
proof -
  let ?run = "store_outcome a (e, y) run" and ?E = "position_entry cfg run ` live_positions run"
  note ok = run_okD [OF assms(1)]
  have a: "a < length (bk_store run)" using ok(2) assms(2) by (simp add: live_pools_def)
  note core = stored_core [OF a assms(3)] and live = stored_live [OF a assms(2)]
  note inj = position_entries_inj [OF ok(1), of cfg]
  obtain p where p: "p \<in> live_positions run" "bk_pools run ! p = a" using assms(2) by (rule live_position)
  have addr: "snd (snd (position_entry cfg run q)) = bk_pools run ! q" for q by (simp add: position_entry_def)
  have holds: "index_holds ?E (\<lambda>b. pl_direction (pool_at run b)) (rn_active run)"
    using ok(7) unfolding reach_index_ok_iff by blast
  have "position_entry cfg run p \<in> ?E" using p(1) by simp
  from index_discard_holds [OF holds this inj] obtain ix where
    ix: "index_discard (\<lambda>b. pl_direction (pool_at run b)) a (rn_active run) = Inr ix"
      "index_holds (?E - {position_entry cfg run p}) (\<lambda>b. pl_direction (pool_at run b)) ix"
      "ix_ages ix = ix_ages (rn_active run)"
    unfolding addr p(2) by blast
  have "?E - {position_entry cfg run p} = position_entry cfg run ` (live_positions run - {q. bk_pools run ! q = a})"
  proof -
    have "position_entry cfg run q = position_entry cfg run p \<longleftrightarrow> bk_pools run ! q = a" if "q \<in> live_positions run" for q
      using inj_on_eq_iff [OF inj, of "position_entry cfg run q" "position_entry cfg run p"] that p addr by (metis imageI)
    then show ?thesis by (intro image_without) blast
  qed
  then have "reach_index_ok cfg n (S - {a}) ?run ix"
    using ix(2) ok(7) assms(4) unfolding reach_index_ok_iff
    by (simp add: core live(2) ix(3) del: store_outcome_simps(3)) auto
  then show ?thesis using ix(1) by (simp add: core(2) del: store_outcome_simps(3))
qed

lemma store_retired_clusters:
  assumes "run_ok cfg n S run" "a \<in> set (live_pools run)" "terminal_pool y"
  shows "rn_cluster_keys run a = None \<Longrightarrow> cluster_index_ok (store_outcome a (e, y) run) d (rn_cluster_index run d)"
    and "rn_cluster_keys run a = Some (d', key) \<Longrightarrow> \<exists>entries. remove_by (\<lambda>e. e) key (rn_cluster_index run d') = Inr entries
      \<and> cluster_index_ok (store_outcome a (e, y) run) d (((rn_cluster_index run)(d' := entries)) d)"
proof -
  let ?run = "store_outcome a (e, y) run"
  note ok = run_okD [OF assms(1)]
  have a: "a < length (bk_store run)" using ok(2) assms(2) by (simp add: live_pools_def)
  note live = stored_live(3) [OF a assms(2)]
  note keys = keys_okD [OF ok(9)]
  have index: "sorted_wrt (<) (rn_cluster_index run d)"
    "set (rn_cluster_index run d) = {(kl_anchor_price (bk_clusters run d ! k), k) | k.
        k < length (bk_clusters run d) \<and> live_cluster run (bk_clusters run d ! k)}" for d
    using ok(8) [of d] by (simp_all add: cluster_index_ok_def)
  have other: "cluster_index_ok ?run d (rn_cluster_index run d)"
    if "\<And>k. k < length (bk_clusters run d) \<Longrightarrow> kl_pool (bk_clusters run d ! k) \<noteq> Some a" for d
    using index [of d] that unfolding cluster_index_ok_def live store_outcome_simps by auto
  show "cluster_index_ok ?run d (rn_cluster_index run d)" if "rn_cluster_keys run a = None"
    using that keys [of a d] assms(2) by (intro other) auto
  assume "rn_cluster_keys run a = Some (d', key)"
  then obtain k where k: "key = (kl_anchor_price (bk_clusters run d' ! k), k)" "k < length (bk_clusters run d')"
      "kl_pool (bk_clusters run d' ! k) = Some a"
    using keys [of a d'] by (cases key) auto
  have "live_cluster run (bk_clusters run d' ! k)" using assms(2) k(3) by (simp add: live_cluster_def live_pools_def)
  then have "key \<in> set (rn_cluster_index run d')" unfolding index(2) k(1) using k(2) by blast
  then obtain entries where entries: "remove_by (\<lambda>e. e) key (rn_cluster_index run d') = Inr entries"
      "sorted_wrt (<) entries" "set entries = set (rn_cluster_index run d') - {key}"
    using remove_by_found [of "\<lambda>e. e" "rn_cluster_index run d'" key] index(1) by auto
  have "cluster_index_ok ?run d (((rn_cluster_index run)(d' := entries)) d)"
  proof (cases "d = d'")
    case True
    have only: "kl_pool (bk_clusters run d' ! j) = Some a \<longleftrightarrow> j = k" if "j < length (bk_clusters run d')" for j
      using clusters_okD(2) [OF ok(4) k(2,3) that] k(3) by auto
    have "set entries = {(kl_anchor_price (bk_clusters run d' ! j), j) | j.
        j < length (bk_clusters run d') \<and> live_cluster ?run (bk_clusters run d' ! j)}"
      unfolding entries(3) index(2) live k(1) using only assms(3) by auto
    then show ?thesis using entries(2) True by (simp add: cluster_index_ok_def)
  next
    case False
    have "kl_pool (bk_clusters run d ! j) \<noteq> Some a" if "j < length (bk_clusters run d)" for j
      using clusters_okD(2) [OF ok(4) k(2,3) that] False by auto
    from other [OF this] show ?thesis using False by simp
  qed
  then show "\<exists>entries. remove_by (\<lambda>e. e) key (rn_cluster_index run d') = Inr entries
      \<and> cluster_index_ok ?run d (((rn_cluster_index run)(d' := entries)) d)"
    using entries(1) by blast
qed

text \<open>The run tracks the book: the same error, or the same book and the invariant.\<close>

abbreviation book_of :: "liquidity_run \<Rightarrow> liquidity_book" where
  "book_of \<equiv> liquidity_book.truncate"

definition tracks :: "(liquidity_run \<Rightarrow> bool) \<Rightarrow> liquidity_run result \<Rightarrow> liquidity_book result \<Rightarrow> bool" where
  "tracks ok r r' \<longleftrightarrow> (case r' of Inl e \<Rightarrow> r = Inl e | Inr bk \<Rightarrow> \<exists>run. r = Inr run \<and> book_of run = bk \<and> ok run)"

lemma tracks_Inr: "tracks ok (Inr run) (Inr bk) \<longleftrightarrow> book_of run = bk \<and> ok run"
  by (simp add: tracks_def)

lemma tracks_Inl: "tracks ok (Inl e) (Inl e)"
  by (simp add: tracks_def)

lemma tracks_bind:
  assumes "tracks ok r r'" "\<And>run. ok run \<Longrightarrow> r = Inr run \<Longrightarrow> tracks ok' (f run) (f' (book_of run))"
  shows "tracks ok' (bind_result r f) (bind_result r' f')"
proof (cases r')
  case (Inl e)
  then show ?thesis using assms(1) by (simp add: tracks_def)
next
  case (Inr bk)
  then obtain run where "r = Inr run" "book_of run = bk" "ok run" using assms(1) by (auto simp: tracks_def)
  then show ?thesis using assms(2) [of run] Inr by simp
qed

lemma tracks_on:
  assumes "\<And>x. r = Inr x \<Longrightarrow> tracks ok (f x) (f' x)"
  shows "tracks ok (bind_result r f) (bind_result r f')"
  using assms by (cases r) (simp_all add: tracks_Inl)

lemma book_of_simps [simp]:
  "bk_store (book_of run) = bk_store run" "bk_pools (book_of run) = bk_pools run"
  "bk_clusters (book_of run) = bk_clusters run" "bk_interactions (book_of run) = bk_interactions run"
  "bk_dual_sweeps (book_of run) = bk_dual_sweeps run"
  by (simp_all add: liquidity_book.truncate_def)

lemma book_of_store [simp]: "book_of (store_outcome a x run) = store_outcome a x (book_of run)"
  by (simp add: store_outcome_def liquidity_book.truncate_def split_beta)

lemma book_of_parts [simp]:
  "book_of (run\<lparr>rn_active := ix\<rparr>) = book_of run" "book_of (run\<lparr>rn_reach := r\<rparr>) = book_of run"
  "book_of (run\<lparr>rn_cluster_index := c\<rparr>) = book_of run" "book_of (run\<lparr>rn_cluster_keys := k\<rparr>) = book_of run"
  "book_of (run\<lparr>rn_pools_by_identity := i\<rparr>) = book_of run"
  by (simp_all add: liquidity_book.truncate_def)

lemma live_pools_book [simp]: "live_pools (book_of run) = live_pools run"
  by (simp add: live_pools_def)

text \<open>The indices do not show in the book.\<close>

lemma book_parts [simp]:
  "live_pools (run\<lparr>rn_active := x0\<rparr>) = live_pools run"
  "live_pools (run\<lparr>rn_reach := x1\<rparr>) = live_pools run"
  "live_pools (run\<lparr>rn_cluster_index := x2\<rparr>) = live_pools run"
  "live_pools (run\<lparr>rn_cluster_keys := x3\<rparr>) = live_pools run"
  "live_pools (run\<lparr>rn_pools_by_identity := x4\<rparr>) = live_pools run"
  "live_positions (run\<lparr>rn_active := x0\<rparr>) = live_positions run"
  "live_positions (run\<lparr>rn_reach := x1\<rparr>) = live_positions run"
  "live_positions (run\<lparr>rn_cluster_index := x2\<rparr>) = live_positions run"
  "live_positions (run\<lparr>rn_cluster_keys := x3\<rparr>) = live_positions run"
  "live_positions (run\<lparr>rn_pools_by_identity := x4\<rparr>) = live_positions run"
  "position_entry cfg (run\<lparr>rn_active := x0\<rparr>) p = position_entry cfg run p"
  "position_entry cfg (run\<lparr>rn_reach := x1\<rparr>) p = position_entry cfg run p"
  "position_entry cfg (run\<lparr>rn_cluster_index := x2\<rparr>) p = position_entry cfg run p"
  "position_entry cfg (run\<lparr>rn_cluster_keys := x3\<rparr>) p = position_entry cfg run p"
  "position_entry cfg (run\<lparr>rn_pools_by_identity := x4\<rparr>) p = position_entry cfg run p"
  "live_cluster (run\<lparr>rn_active := x0\<rparr>) c = live_cluster run c"
  "live_cluster (run\<lparr>rn_reach := x1\<rparr>) c = live_cluster run c"
  "live_cluster (run\<lparr>rn_cluster_index := x2\<rparr>) c = live_cluster run c"
  "live_cluster (run\<lparr>rn_cluster_keys := x3\<rparr>) c = live_cluster run c"
  "live_cluster (run\<lparr>rn_pools_by_identity := x4\<rparr>) c = live_cluster run c"
  "cluster_index_ok (run\<lparr>rn_active := x0\<rparr>) d es = cluster_index_ok run d es"
  "cluster_index_ok (run\<lparr>rn_reach := x1\<rparr>) d es = cluster_index_ok run d es"
  "cluster_index_ok (run\<lparr>rn_cluster_index := x2\<rparr>) d es = cluster_index_ok run d es"
  "cluster_index_ok (run\<lparr>rn_cluster_keys := x3\<rparr>) d es = cluster_index_ok run d es"
  "cluster_index_ok (run\<lparr>rn_pools_by_identity := x4\<rparr>) d es = cluster_index_ok run d es"
  "clusters_ok (run\<lparr>rn_active := x0\<rparr>) = clusters_ok run"
  "clusters_ok (run\<lparr>rn_reach := x1\<rparr>) = clusters_ok run"
  "clusters_ok (run\<lparr>rn_cluster_index := x2\<rparr>) = clusters_ok run"
  "clusters_ok (run\<lparr>rn_cluster_keys := x3\<rparr>) = clusters_ok run"
  "clusters_ok (run\<lparr>rn_pools_by_identity := x4\<rparr>) = clusters_ok run"
  "book_ok (run\<lparr>rn_active := x0\<rparr>) = book_ok run"
  "book_ok (run\<lparr>rn_reach := x1\<rparr>) = book_ok run"
  "book_ok (run\<lparr>rn_cluster_index := x2\<rparr>) = book_ok run"
  "book_ok (run\<lparr>rn_cluster_keys := x3\<rparr>) = book_ok run"
  "book_ok (run\<lparr>rn_pools_by_identity := x4\<rparr>) = book_ok run"
  "reach_index_ok cfg n S (run\<lparr>rn_active := x0\<rparr>) ix = reach_index_ok cfg n S run ix"
  "reach_index_ok cfg n S (run\<lparr>rn_reach := x1\<rparr>) ix = reach_index_ok cfg n S run ix"
  "reach_index_ok cfg n S (run\<lparr>rn_cluster_index := x2\<rparr>) ix = reach_index_ok cfg n S run ix"
  "reach_index_ok cfg n S (run\<lparr>rn_cluster_keys := x3\<rparr>) ix = reach_index_ok cfg n S run ix"
  "reach_index_ok cfg n S (run\<lparr>rn_pools_by_identity := x4\<rparr>) ix = reach_index_ok cfg n S run ix"
  by (simp_all add: live_pools_def live_positions_def position_entry_def live_cluster_def cluster_index_ok_def clusters_ok_def
      book_ok_def reach_index_ok_def cong: option.case_cong)

lemma bar_pool_step_tracks:
  assumes "run_ok cfg n S run" "candle_valid bar" "a \<in> set (live_pools run)"
  shows "tracks (run_ok cfg n (S - {a})) (bar_pool_step cfg tf n bar (a, in_reach cfg bar (pool_at run a)) run)
    (reference_pool_step cfg tf n bar a (book_of run))"
  unfolding bar_pool_step_def reference_pool_step_def prod.case book_of_simps advance_by_reach [OF assms(2)]
proof (rule tracks_on)
  fix x assume adv: "advance_pool cfg tf n bar True (pool_at run a) = Inr x"
  obtain e y where x: "x = (e, y)" by (cases x)
  note core = advance_pool_core [OF adv [unfolded x]]
  let ?run = "store_outcome a (e, y) run"
  have a: "a < length (bk_store run)" using run_okD(2) [OF assms(1)] assms(3) by (simp add: live_pools_def)
  show "tracks (run_ok cfg n (S - {a})) (let run = store_outcome a x run in if terminal_pool (pool_at run a) then retire_pool a run else Inr run)
      (Inr (store_outcome a x (book_of run)))"
  proof (cases "terminal_pool y")
    case False
    then have "n < due_at cfg (pool_at run a)" using core(2) by (meson not_le)
    from store_live_ok [OF assms(1,3) core(1) False this] show ?thesis
      using False a by (simp add: x Let_def tracks_Inr)
  next
    case True
    obtain ix where ix: "index_discard (\<lambda>b. pl_direction (pool_at ?run b)) a (rn_active run) = Inr ix"
        "reach_index_ok cfg n (S - {a}) ?run ix"
      using store_retired_index [OF assms(1,3) core(1) True] by blast
    note ok = run_okD [OF assms(1)]
    note core' = stored_core [OF a core(1)] and live = stored_live [OF a assms(3)]
    have book: "book_ok ?run" using assms(1,3) by (intro stored_book) (simp_all add: run_ok_def)
    have rest: "rn_pools_by_identity run i = filter (\<lambda>b. pl_pool_id (pool_at ?run b) = i) (bk_pools run)"
        "b \<in> set (live_pools ?run) \<Longrightarrow> rn_reach run b \<noteq> None" for i b
      using ok(5,6) live(1) core'(1) by (simp_all del: store_outcome_simps(3))
    have "\<exists>run'. retire_pool a ?run = Inr run' \<and> book_of run' = book_of ?run \<and> run_ok cfg n (S - {a}) run'"
    proof (cases "rn_cluster_keys run a")
      case None
      let ?new = "?run\<lparr>rn_active := ix\<rparr>"
      have "\<not> (k < length (bk_clusters run d) \<and> kl_pool (bk_clusters run d ! k) = Some a)" for d k
        using keys_okD [OF ok(9), of a d "kl_anchor_price (bk_clusters run d ! k)" k] None assms(3) by simp
      then have "keys_ok ?new" using ok(9) unfolding keys_ok_def book_parts live(1) by (auto simp: live_pools_def)
      then have "run_ok cfg n (S - {a}) ?new"
        using book ix(2) rest store_retired_clusters(1) [OF assms(1,3) True None] by (simp add: run_ok_def)
      then show ?thesis using ix(1) None by (simp add: retire_pool_def)
    next
      case (Some dk)
      obtain d key where dk: "dk = (d, key)" by (cases dk)
      note removed = store_retired_clusters(2) [OF assms(1,3) True Some [unfolded dk]]
      obtain entries where entries: "remove_by (\<lambda>e. e) key (rn_cluster_index run d) = Inr entries"
        using removed by blast
      have index: "cluster_index_ok ?run d' (((rn_cluster_index run)(d := entries)) d')" for d'
        using removed [of e d'] entries by auto
      let ?new = "?run\<lparr>rn_active := ix, rn_cluster_keys := (rn_cluster_keys run)(a := None),
        rn_cluster_index := (rn_cluster_index run)(d := entries)\<rparr>"
      have "keys_ok ?new" using ok(9) True unfolding keys_ok_def book_parts live(1) by (auto simp: live_pools_def)
      then have "run_ok cfg n (S - {a}) ?new"
        using book ix(2) rest index by (simp add: run_ok_def)
      then show ?thesis using ix(1) Some dk entries by (simp add: retire_pool_def)
    qed
    then show ?thesis using a True by (auto simp: x Let_def tracks_def)
  qed
qed

lemma bar_loop_tracks:
  assumes "candle_valid bar" "distinct as" "set as \<subseteq> set (live_pools run)" "run_ok cfg n (set as) run"
  shows "tracks (run_ok cfg n {}) (for_each (bar_pool_step cfg tf n bar) (map (\<lambda>a. (a, in_reach cfg bar (pool_at run a))) as) run)
    (for_each (reference_pool_step cfg tf n bar) as (book_of run))"
  using assms(2-4)
proof (induction as arbitrary: run)
  case Nil
  then show ?case by (simp add: tracks_Inr)
next
  case (Cons a as)
  have a: "a \<in> set (live_pools run)" "a < length (bk_store run)"
    using Cons.prems(2) run_okD(2) [OF Cons.prems(3)] by (auto simp: live_pools_def)
  have gone: "set (a # as) - {a} = set as" using Cons.prems(1) by auto
  note step = bar_pool_step_tracks [OF Cons.prems(3) assms(1) a(1), of tf]
  show ?case
    unfolding for_each.simps list.map
  proof (rule tracks_bind [OF step])
    fix run' assume ok: "run_ok cfg n (set (a # as) - {a}) run'"
      and run': "bar_pool_step cfg tf n bar (a, in_reach cfg bar (pool_at run a)) run = Inr run'"
    have "reference_pool_step cfg tf n bar a (book_of run) = Inr (book_of run')"
      using step run' by (cases "reference_pool_step cfg tf n bar a (book_of run)") (simp_all add: tracks_def)
    then obtain x where "store_outcome a x (book_of run) = book_of run'"
      by (auto simp: reference_pool_step_def bind_result_eq_Inr)
    note x = this [symmetric]
    then have "bk_store run' = (bk_store run)[a := snd x]" "bk_pools run' = bk_pools run"
      by (cases x; simp flip: book_of_simps(1,2))+
    then have same: "pool_at run' b = pool_at run b" if "b \<in> set as" for b
    proof -
      have "b \<noteq> a" using that Cons.prems(1) by auto
      then show ?thesis by (simp add: \<open>bk_store run' = (bk_store run)[a := snd x]\<close>)
    qed
    have "set as \<subseteq> set (live_pools run')"
    proof
      fix b assume "b \<in> set as"
      then show "b \<in> set (live_pools run')"
        using Cons.prems(2) same [of b] \<open>bk_pools run' = bk_pools run\<close> by (auto simp: live_pools_def)
    qed
    moreover have "distinct as" "run_ok cfg n (set as) run'" using Cons.prems(1) ok gone by simp_all
    ultimately have IH: "tracks (run_ok cfg n {}) (for_each (bar_pool_step cfg tf n bar) (map (\<lambda>b. (b, in_reach cfg bar (pool_at run' b))) as) run')
        (for_each (reference_pool_step cfg tf n bar) as (book_of run'))"
      using Cons.IH by blast
    have "map (\<lambda>b. (b, in_reach cfg bar (pool_at run b))) as = map (\<lambda>b. (b, in_reach cfg bar (pool_at run' b))) as"
      by (simp add: same)
    then show "tracks (run_ok cfg n {}) (for_each (bar_pool_step cfg tf n bar) (map (\<lambda>b. (b, in_reach cfg bar (pool_at run b))) as) run')
        (for_each (reference_pool_step cfg tf n bar) as (book_of run'))"
      using IH by (simp only:)
  qed
qed

lemma for_each_skip:
  assumes "\<And>x s. x \<in> set xs \<Longrightarrow> \<not> P x \<Longrightarrow> I s \<Longrightarrow> f x s = Inr s"
    and "\<And>x s t. x \<in> set xs \<Longrightarrow> P x \<Longrightarrow> I s \<Longrightarrow> f x s = Inr t \<Longrightarrow> I t" and "I s"
  shows "for_each f xs s = for_each f (filter P xs) s"
  using assms
proof (induction xs arbitrary: s)
  case (Cons x xs)
  have IH: "for_each f xs t = for_each f (filter P xs) t" if "I t" for t
  proof (rule Cons.IH)
    show "f y u = Inr u" if "y \<in> set xs" "\<not> P y" "I u" for y u using Cons.prems(1) [of y u] that by simp
    show "I v" if "y \<in> set xs" "P y" "I u" "f y u = Inr v" for y u v using Cons.prems(2) [of y u v] that by simp
  qed (rule that)
  show ?case
  proof (cases "P x")
    case True
    then show ?thesis using IH Cons.prems(2) [of x s] Cons.prems(3) by (cases "f x s") simp_all
  next
    case False
    then show ?thesis using IH [OF Cons.prems(3)] Cons.prems(1) [of x s] Cons.prems(3) by simp
  qed
qed simp

text \<open>The pools the index leaves out would not have changed.\<close>

lemma reference_skip:
  assumes "candle_valid bar"
  shows "for_each (reference_pool_step cfg tf n bar) (live_pools bk) bk
    = for_each (reference_pool_step cfg tf n bar)
        (filter (\<lambda>a. in_reach cfg bar (pool_at bk a) \<or> due_at cfg (pool_at bk a) \<le> n) (live_pools bk)) bk"
proof (rule for_each_skip [where I = "\<lambda>s. \<forall>a. \<not> (in_reach cfg bar (pool_at bk a) \<or> due_at cfg (pool_at bk a) \<le> n) \<longrightarrow> pool_at s a = pool_at bk a"])
  fix a and s :: liquidity_book
  assume a: "\<not> (in_reach cfg bar (pool_at bk a) \<or> due_at cfg (pool_at bk a) \<le> n)"
    and s: "\<forall>a. \<not> (in_reach cfg bar (pool_at bk a) \<or> due_at cfg (pool_at bk a) \<le> n) \<longrightarrow> pool_at s a = pool_at bk a"
  have "advance_pool cfg tf n bar True (pool_at s a) = Inr (None, pool_at s a)"
    using advance_skip [OF assms] a s by (simp add: not_le)
  then show "reference_pool_step cfg tf n bar a s = Inr s"
    by (simp add: reference_pool_step_def store_outcome_def)
next
  fix a and s t :: liquidity_book
  assume "in_reach cfg bar (pool_at bk a) \<or> due_at cfg (pool_at bk a) \<le> n"
    and "\<forall>a. \<not> (in_reach cfg bar (pool_at bk a) \<or> due_at cfg (pool_at bk a) \<le> n) \<longrightarrow> pool_at s a = pool_at bk a"
    and "reference_pool_step cfg tf n bar a s = Inr t"
  moreover from this(3) obtain x where "t = store_outcome a x s"
    by (auto simp: reference_pool_step_def bind_result_eq_Inr)
  ultimately show "\<forall>a. \<not> (in_reach cfg bar (pool_at bk a) \<or> due_at cfg (pool_at bk a) \<le> n) \<longrightarrow> pool_at t a = pool_at bk a"
    by (cases x) (metis nth_list_update_neq store_outcome_simps(3))
qed simp

lemma selected_live:
  "map ((!) (bk_pools bk)) (filter (selected_positions cfg n bar bk) [0..<length (bk_pools bk)])
    = filter (\<lambda>a. in_reach cfg bar (pool_at bk a) \<or> due_at cfg (pool_at bk a) \<le> n) (live_pools bk)"
proof -
  let ?Q = "\<lambda>a. \<not> terminal_pool (pool_at bk a) \<and> (in_reach cfg bar (pool_at bk a) \<or> due_at cfg (pool_at bk a) \<le> n)"
  have "filter (selected_positions cfg n bar bk) [0..<length (bk_pools bk)]
      = filter (?Q \<circ> (!) (bk_pools bk)) [0..<length (bk_pools bk)]"
    by (rule filter_cong) (auto simp: selected_positions_def live_positions_def)
  then have "map ((!) (bk_pools bk)) (filter (selected_positions cfg n bar bk) [0..<length (bk_pools bk)])
      = filter ?Q (map ((!) (bk_pools bk)) [0..<length (bk_pools bk)])"
    by (simp add: filter_map)
  also have "\<dots> = filter ?Q (bk_pools bk)" by (simp add: map_nth)
  finally show ?thesis by (simp add: live_pools_def conj_commute)
qed

lemma bar_pools_track:
  assumes "candle_valid bar" "run_ok cfg n {} run" "index_selected bar n (rn_active run) = (sel, ix)"
  shows "tracks (run_ok cfg n {}) (for_each (bar_pool_step cfg tf n bar) sel (run\<lparr>rn_active := ix\<rparr>))
    (for_each (reference_pool_step cfg tf n bar) (live_pools run) (book_of run))"
proof -
  let ?as = "filter (\<lambda>a. in_reach cfg bar (pool_at run a) \<or> due_at cfg (pool_at run a) \<le> n) (live_pools run)"
  let ?run = "run\<lparr>rn_active := ix\<rparr>"
  note ok = run_okD [OF assms(2)]
  have sel: "sel = map (\<lambda>a. (a, in_reach cfg bar (pool_at run a))) ?as" "reach_index_ok cfg n (set ?as) run ix"
    using index_selected_ok [OF ok(7,1), of bar] unfolding selected_live by (simp_all add: assms(3))
  have "run_ok cfg n (set ?as) ?run"
    using assms(2) sel(2) unfolding run_ok_def book_parts keys_ok_def by simp
  moreover have "distinct ?as" "set ?as \<subseteq> set (live_pools ?run)" using ok(1) by (auto simp: live_pools_def)
  ultimately have "tracks (run_ok cfg n {})
      (for_each (bar_pool_step cfg tf n bar) (map (\<lambda>a. (a, in_reach cfg bar (pool_at ?run a))) ?as) ?run)
      (for_each (reference_pool_step cfg tf n bar) ?as (book_of ?run))"
    by (intro bar_loop_tracks [OF assms(1)])
  moreover have "for_each (reference_pool_step cfg tf n bar) ?as (book_of run)
      = for_each (reference_pool_step cfg tf n bar) (live_pools run) (book_of run)"
    using reference_skip [OF assms(1), of cfg tf n "book_of run"] by simp
  ultimately show ?thesis by (simp add: sel(1))
qed

section \<open>A swing in lockstep\<close>

definition base_ok :: "liquidity_config \<Rightarrow> liquidity_run \<Rightarrow> bool" where
  "base_ok cfg run \<longleftrightarrow> book_ok run
     \<and> (\<forall>i. rn_pools_by_identity run i = filter (\<lambda>a. pl_pool_id (pool_at run a) = i) (bk_pools run))
     \<and> (\<forall>a\<in>set (live_pools run). rn_reach run a \<noteq> None)
     \<and> reach_index_ok cfg 0 {} run (rn_active run)
     \<and> (\<forall>d. cluster_index_ok run d (rn_cluster_index run d))"

lemma reach_index_ok_any: "reach_index_ok cfg n {} bk ix \<longleftrightarrow> reach_index_ok cfg m {} bk ix"
  by (simp add: reach_index_ok_def)

lemma run_ok_base: "run_ok cfg n {} run \<longleftrightarrow> base_ok cfg run \<and> keys_ok run"
  unfolding run_ok_def base_ok_def reach_index_ok_any [of cfg n run "rn_active run" 0] by blast

lemma base_okD:
  assumes "base_ok cfg run"
  shows "book_ok run" "rn_pools_by_identity run i = filter (\<lambda>a. pl_pool_id (pool_at run a) = i) (bk_pools run)"
    "a \<in> set (live_pools run) \<Longrightarrow> rn_reach run a \<noteq> None" "reach_index_ok cfg 0 {} run (rn_active run)"
    "cluster_index_ok run d (rn_cluster_index run d)"
  using assms unfolding base_ok_def by blast+

lemma book_okD:
  assumes "book_ok bk"
  shows "distinct (bk_pools bk)" "a \<in> set (bk_pools bk) \<Longrightarrow> a < length (bk_store bk)"
    "a < length (bk_store bk) \<Longrightarrow> terminal_pool (pool_at bk a) \<Longrightarrow> a \<in> set (bk_pools bk)" "clusters_ok bk"
  using assms unfolding book_ok_def by blast+

text \<open>Archiving an object that is not yet in the archive.\<close>

lemma archive_base:
  assumes "base_ok cfg run" "a < length (bk_store run)" "a \<notin> set (bk_pools run)"
  shows "\<exists>run'. index_update cfg a (Some (length (bk_pools (archive_pool a run)) - 1)) (archive_pool a run) = Inr run'
    \<and> book_of run' = (book_of run)\<lparr>bk_pools := bk_pools run @ [a]\<rparr> \<and> base_ok cfg run'
    \<and> rn_cluster_keys run' = rn_cluster_keys run"
proof -
  let ?p = "length (bk_pools run)" and ?run = "archive_pool a run"
  let ?pool = "pool_at run a" and ?e = "position_entry cfg ?run (length (bk_pools run))"
  let ?E = "position_entry cfg run ` live_positions run"
  note base = base_okD [OF assms(1)] and book = book_okD [OF base_okD(1) [OF assms(1)]]
  have live: "\<not> terminal_pool ?pool" using book(3) assms(2,3) by blast
  have parts: "bk_store ?run = bk_store run" "bk_pools ?run = bk_pools run @ [a]" "bk_clusters ?run = bk_clusters run"
      "rn_active ?run = rn_active run" "rn_reach ?run = rn_reach run" "rn_cluster_index ?run = rn_cluster_index run"
      "rn_cluster_keys ?run = rn_cluster_keys run" "bk_interactions ?run = bk_interactions run"
      "bk_dual_sweeps ?run = bk_dual_sweeps run"
    by (simp_all add: archive_pool_def Let_def)
  have entry: "?e = (interaction_reach_of cfg ?pool, ?p, a)" by (simp add: position_entry_def parts)
  have positions: "live_positions ?run = insert ?p (live_positions run)"
    using live by (auto simp: live_positions_def parts nth_append less_Suc_eq)
  have old: "position_entry cfg ?run q = position_entry cfg run q" "bk_pools ?run ! q = bk_pools run ! q" if "q \<in> live_positions run" for q
    using that by (simp_all add: position_entry_def parts nth_append live_positions_def)
  have entries: "position_entry cfg ?run ` live_positions ?run = insert ?e ?E"
    unfolding positions using old(1) by auto
  have holds: "index_holds ?E (\<lambda>b. pl_direction (pool_at run b)) (rn_active run)"
    using base(4) unfolding reach_index_ok_iff by blast
  have fresh: "\<forall>x\<in>?E. snd (snd x) \<noteq> snd (snd ?e)" "\<forall>x\<in>?E. fst (snd x) \<noteq> fst (snd ?e)"
    unfolding entry using assms(3) by (auto simp: position_entry_def live_positions_def)
  let ?put = "index_put (pl_direction ?pool) ?e (rn_active run)"
  have put: "index_holds (insert ?e ?E) (\<lambda>b. pl_direction (pool_at run b)) ?put" "ix_ages ?put = ix_ages (rn_active run)"
    using index_put_holds [OF holds fresh] by (simp_all add: entry)
  let ?age = "(due_at cfg ?pool, ?p, a)" and ?ix = "index_age (due_at cfg ?pool, ?p, a) ?put"
  have "sorted (map age_key (ix_ages ?put))" using base(4) put(2) unfolding reach_index_ok_iff by simp
  note age = index_age_sorted [OF this, where age = "?age"]
  have "ix_current (rn_active run) a = None"
  proof (rule ccontr)
    assume "ix_current (rn_active run) a \<noteq> None"
    then obtain x where "x \<in> ?E" "snd (snd x) = a" using reach_index_okD(1) [OF base(4)] by fastforce
    then show False using fresh(1) unfolding entry by (metis snd_conv)
  qed
  let ?new = "?run\<lparr>rn_reach := (rn_reach run)(a := Some (interaction_reach_of cfg ?pool)), rn_active := ?ix\<rparr>"
  have "index_update cfg a (Some (length (bk_pools ?run) - 1)) ?run = Inr ?new"
    using \<open>ix_current (rn_active run) a = None\<close>
    by (simp add: index_update_def parts Let_def entry due_at_def)
  moreover have "reach_index_ok cfg 0 {} ?run ?ix"
    unfolding reach_index_ok_iff entries unfolding positions parts
  proof (intro conjI ballI)
    show "index_holds (insert ?e ?E) (\<lambda>b. pl_direction (pool_at run b)) ?ix" using put(1) age(3) by blast
    show "sorted (map age_key (ix_ages ?ix))" by (rule age(1))
    fix x assume "x \<in> set (ix_ages ?ix)"
    then have "x = ?age \<or> x \<in> set (ix_ages (rn_active run))" unfolding age(2) put(2) by simp
    then show "case x of (due, p, b) \<Rightarrow> b < length (bk_store run) \<and> due = due_at cfg (pool_at run b)"
      using assms(2) reach_index_okD(5) [OF base(4)] by auto
  next
    fix q assume q: "q \<in> insert ?p (live_positions run)"
    have "(due_at cfg (pool_at run ((bk_pools run @ [a]) ! q)), q, (bk_pools run @ [a]) ! q) \<in> set (ix_ages ?ix)"
    proof (cases "q = ?p")
      case True
      then show ?thesis unfolding age(2) by simp
    next
      case False
      then have "q \<in> live_positions run" using q by simp
      then show ?thesis
        using reach_index_okD(6) [OF base(4)] old(2) unfolding age(2) put(2) parts by auto
    qed
    then show "(due_at cfg (pool_at run ((bk_pools run @ [a]) ! q)), q, (bk_pools run @ [a]) ! q) \<in> set (ix_ages ?ix)
        \<or> due_at cfg (pool_at run ((bk_pools run @ [a]) ! q)) \<le> 0 \<and> (bk_pools run @ [a]) ! q \<in> {}" ..
  qed
  moreover have "book_ok ?run"
    using book assms(2,3) by (auto simp: book_ok_def clusters_ok_def parts)
  moreover have "rn_pools_by_identity ?run i = filter (\<lambda>b. pl_pool_id (pool_at ?run b) = i) (bk_pools ?run)" for i
    using base(2) by (simp add: archive_pool_def Let_def)
  moreover have "set (live_pools ?run) = insert a (set (live_pools run))"
    using live by (auto simp: live_pools_def parts)
  moreover have "cluster_index_ok ?run d (rn_cluster_index run d)" for d
    using base(5) [of d] by (simp add: cluster_index_ok_def live_cluster_def parts cong: option.case_cong)
  ultimately have "base_ok cfg ?new" using base(3) by (simp add: base_ok_def parts)
  then show ?thesis
    using \<open>index_update cfg a (Some (length (bk_pools ?run) - 1)) ?run = Inr ?new\<close>
    by (intro exI [of _ ?new]) (simp add: parts liquidity_book.truncate_def)
qed

text \<open>A new object, which no pool or cluster knows yet, changes nothing.\<close>

lemma add_object_simps [simp]:
  "fst (add_object pool bk) = length (bk_store bk)" "bk_store (snd (add_object pool bk)) = bk_store bk @ [pool]"
  "bk_pools (snd (add_object pool bk)) = bk_pools bk" "bk_clusters (snd (add_object pool bk)) = bk_clusters bk"
  "rn_pools_by_identity (snd (add_object pool run)) = rn_pools_by_identity run"
  "rn_active (snd (add_object pool run)) = rn_active run" "rn_reach (snd (add_object pool run)) = rn_reach run"
  "rn_cluster_index (snd (add_object pool run)) = rn_cluster_index run"
  "rn_cluster_keys (snd (add_object pool run)) = rn_cluster_keys run"
  "book_of (snd (add_object pool run)) = snd (add_object pool (book_of run))"
  by (simp_all add: add_object_def liquidity_book.truncate_def)

lemma add_object_ok:
  assumes "run_ok cfg n {} run" "\<not> terminal_pool pool"
  shows "run_ok cfg n {} (snd (add_object pool run))"
proof -
  let ?run = "snd (add_object pool run)"
  have base: "base_ok cfg run" and keys: "keys_ok run" using assms(1) by (simp_all add: run_ok_base)
  note book = book_okD [OF base_okD(1) [OF base]]
  have at: "pool_at ?run b = pool_at run b" if "b < length (bk_store run)" for b using that by (simp add: nth_append)
  have pools: "pool_at ?run b = pool_at run b" if "b \<in> set (bk_pools run)" for b using at book(2) that by blast
  have live: "live_pools ?run = live_pools run"
    unfolding live_pools_def add_object_simps(3) using pools by (intro filter_cong) simp_all
  have positions: "live_positions ?run = live_positions run"
    using pools by (auto simp: live_positions_def simp del: add_object_simps(2))
  have entry: "position_entry cfg ?run p = position_entry cfg run p" if "p < length (bk_pools run)" for p
    using pools [of "bk_pools run ! p"] that by (simp add: position_entry_def del: add_object_simps(2))
  have entries: "position_entry cfg ?run ` live_positions run = position_entry cfg run ` live_positions run"
    using entry by (intro image_cong) (simp_all add: live_positions_def)
  have "reach_index_ok cfg 0 {} ?run (rn_active ?run)"
    unfolding reach_index_ok_def positions entries add_object_simps(6)
  proof (intro conjI allI ballI)
    fix a e
    show "ix_current (rn_active run) a = Some e \<longleftrightarrow> e \<in> position_entry cfg run ` live_positions run \<and> snd (snd e) = a"
      by (rule reach_index_okD(1) [OF base_okD(4) [OF base]])
  next
    fix d
    show "sorted_wrt (<) (map entry_key (ix_prices (rn_active run) d))" by (rule reach_index_okD(2) [OF base_okD(4) [OF base]])
    have "pl_direction (pool_at ?run (snd (snd e))) = pl_direction (pool_at run (snd (snd e)))"
      if "e \<in> position_entry cfg run ` live_positions run" for e
      using that pools by (auto simp: position_entry_def live_positions_def simp del: add_object_simps(2))
    then show "set (ix_prices (rn_active run) d) = {e \<in> position_entry cfg run ` live_positions run. pl_direction (pool_at ?run (snd (snd e))) = d}"
      unfolding reach_index_okD(3) [OF base_okD(4) [OF base]] by (intro Collect_cong conj_cong refl) (simp only:)
  next
    show "sorted (map age_key (ix_ages (rn_active run)))" by (rule reach_index_okD(4) [OF base_okD(4) [OF base]])
    fix x assume "x \<in> set (ix_ages (rn_active run))"
    then show "case x of (due, p, a) \<Rightarrow> a < length (bk_store ?run) \<and> due = due_at cfg (pool_at ?run a)"
      using reach_index_okD(5) [OF base_okD(4) [OF base]] at by (auto simp: nth_append)
  next
    fix p assume p: "p \<in> live_positions run"
    then have "pool_at ?run (bk_pools run ! p) = pool_at run (bk_pools run ! p)" using pools by (simp add: live_positions_def del: add_object_simps(2))
    then show "(due_at cfg (pool_at ?run (bk_pools ?run ! p)), p, bk_pools ?run ! p) \<in> set (ix_ages (rn_active run))
        \<or> due_at cfg (pool_at ?run (bk_pools ?run ! p)) \<le> 0 \<and> bk_pools ?run ! p \<in> {}"
      using reach_index_okD(6) [OF base_okD(4) [OF base] p] by (simp del: add_object_simps(2))
  qed
  moreover have "cluster_index_ok ?run d (rn_cluster_index ?run d)" for d
  proof -
    have "live_cluster ?run (bk_clusters run d ! k) \<longleftrightarrow> live_cluster run (bk_clusters run d ! k)" if "k < length (bk_clusters run d)" for k
      using clusters_okD(1) [OF book(4) that] at
      by (cases "kl_pool (bk_clusters run d ! k)") (simp_all add: live_cluster_def del: add_object_simps(2))
    then show ?thesis using base_okD(5) [OF base, of d] by (auto simp: cluster_index_ok_def)
  qed
  moreover have "book_ok ?run"
    using book assms(2) by (auto simp: book_ok_def clusters_ok_def nth_append less_Suc_eq)
  moreover have "rn_pools_by_identity ?run i = filter (\<lambda>b. pl_pool_id (pool_at ?run b) = i) (bk_pools ?run)" for i
    using base_okD(2) [OF base, of i] pools by (simp del: add_object_simps(2) cong: filter_cong)
  ultimately have "base_ok cfg ?run" using base_okD(3) [OF base] by (simp add: base_ok_def live)
  moreover have "keys_ok ?run" using keys by (simp add: keys_ok_def live)
  ultimately show ?thesis by (simp add: run_ok_base)
qed

lemma record_history_fields:
  "record_history et t i pool = Inr y \<Longrightarrow> pl_state y = pl_state pool \<and> pl_pool_id y = pl_pool_id pool
    \<and> pl_direction y = pl_direction pool \<and> pl_created_bar_index y = pl_created_bar_index pool"
  by (simp add: record_history_Inr)

lemma new_pools_active:
  "new_single_pool swing cfg i = Inr y \<Longrightarrow> pl_state y = POOL_ACTIVE"
  "new_cluster_pool cluster cfg i = Inr y \<Longrightarrow> pl_state y = POOL_ACTIVE"
  by (auto simp: new_single_pool_def new_cluster_pool_def cluster_fields_def Let_def dest!: record_history_fields)

lemma widened_fields:
  "widened_cluster_pool cluster cfg pool = Inr y \<Longrightarrow> pl_state y = pl_state pool \<and> pl_pool_id y = pl_pool_id pool
    \<and> pl_direction y = pl_direction pool \<and> pl_created_bar_index y = pl_created_bar_index pool"
  by (auto simp: widened_cluster_pool_def cluster_fields_def Let_def dest!: record_history_fields)

lemma single_pool_tracks:
  assumes "run_ok cfg n {} run"
  shows "tracks (run_ok cfg n {}) (single_pool_step cfg i swing run) (reference_single cfg i swing (book_of run))"
proof (cases "lq_include_single_swing_pools cfg")
  case True
  show ?thesis
    unfolding single_pool_step_def reference_single_def if_P [OF True]
  proof (rule tracks_on)
    fix pool assume pool: "new_single_pool swing cfg i = Inr pool"
    let ?run = "snd (add_object pool run)" and ?a = "length (bk_store run)"
    have "\<not> terminal_pool pool" using new_pools_active(1) [OF pool] by (simp add: terminal_pool_def)
    from add_object_ok [OF assms this] have ok: "run_ok cfg n {} ?run" .
    then have base: "base_ok cfg ?run" and keys: "keys_ok ?run" by (simp_all add: run_ok_base)
    have old: "?a \<notin> set (bk_pools run)" using run_okD(2) [OF assms, of ?a] by auto
    then obtain run' where run': "index_update cfg ?a (Some (length (bk_pools (archive_pool ?a ?run)) - 1)) (archive_pool ?a ?run) = Inr run'"
        "book_of run' = (book_of ?run)\<lparr>bk_pools := bk_pools ?run @ [?a]\<rparr>" "base_ok cfg run'"
        "rn_cluster_keys run' = rn_cluster_keys ?run"
      using archive_base [OF base, of ?a] by auto
    have parts: "bk_clusters run' = bk_clusters run" "bk_pools run' = bk_pools run @ [?a]" "bk_store run' = bk_store run @ [pool]"
      using arg_cong [OF run'(2), of bk_clusters] arg_cong [OF run'(2), of bk_pools] arg_cong [OF run'(2), of bk_store] by simp_all
    have "set (live_pools run') = insert ?a (set (live_pools ?run))"
      using \<open>\<not> terminal_pool pool\<close> by (auto simp: live_pools_def parts)
    moreover have "kl_pool (bk_clusters run d ! k) \<noteq> Some ?a" if "k < length (bk_clusters run d)" for d k
      using clusters_okD(1) [OF run_okD(4) [OF assms] that] by auto
    ultimately have "keys_ok run'"
      using keys unfolding keys_ok_def run'(4) parts(1) add_object_simps(4) by auto
    then have "run_ok cfg n {} run'" using run'(3) by (simp add: run_ok_base)
    moreover have "book_of run' = book_of run\<lparr>bk_store := bk_store run @ [pool], bk_pools := bk_pools run @ [?a]\<rparr>"
      unfolding run'(2) by (simp add: add_object_def)
    ultimately show "tracks (run_ok cfg n {})
        (let (a, run) = add_object pool run; run = archive_pool a run in index_update cfg a (Some (length (bk_pools run) - 1)) run)
        (Inr (book_of run\<lparr>bk_store := bk_store (book_of run) @ [pool], bk_pools := bk_pools (book_of run) @ [length (bk_store (book_of run))]\<rparr>))"
      using run'(1) by (simp add: tracks_Inr split_beta Let_def)
  qed
qed (use assms in \<open>simp add: single_pool_step_def reference_single_def tracks_Inr\<close>)

text \<open>A widened pool keeps its identity, side, age and state; only its reach moves.\<close>

definition same_place :: "pool_state \<Rightarrow> pool_state \<Rightarrow> bool" where
  "same_place p q \<longleftrightarrow> pl_state q = pl_state p \<and> pl_pool_id q = pl_pool_id p
     \<and> pl_direction q = pl_direction p \<and> pl_created_bar_index q = pl_created_bar_index p"

abbreviation put_pool :: "nat \<Rightarrow> pool_state \<Rightarrow> 'a liquidity_book_scheme \<Rightarrow> 'a liquidity_book_scheme" where
  "put_pool a y bk \<equiv> bk\<lparr>bk_store := (bk_store bk)[a := y]\<rparr>"

lemma put_pool_parts:
  assumes "a < length (bk_store bk)" "same_place (pool_at bk a) y"
  shows "same_place (pool_at bk b) (pool_at (put_pool a y bk) b)"
    and "live_pools (put_pool a y bk) = live_pools bk" "live_positions (put_pool a y bk) = live_positions bk"
    and "live_cluster (put_pool a y bk) c = live_cluster bk c"
    and "due_at cfg (pool_at (put_pool a y bk) b) = due_at cfg (pool_at bk b)"
    and "pl_direction (pool_at (put_pool a y bk) b) = pl_direction (pool_at bk b)"
    and "pl_pool_id (pool_at (put_pool a y bk) b) = pl_pool_id (pool_at bk b)"
proof -
  have same: "same_place (pool_at bk b) (pool_at (put_pool a y bk) b)" for b
    using assms by (cases "b = a") (simp_all add: same_place_def)
  then show "same_place (pool_at bk b) (pool_at (put_pool a y bk) b)" .
  have "terminal_pool (pool_at (put_pool a y bk) b) = terminal_pool (pool_at bk b)" for b
    using same [of b] by (simp add: same_place_def terminal_pool_def)
  then show "live_pools (put_pool a y bk) = live_pools bk" "live_positions (put_pool a y bk) = live_positions bk"
    "live_cluster (put_pool a y bk) c = live_cluster bk c"
    by (simp_all add: live_pools_def live_positions_def live_cluster_def cong: option.case_cong)
  show "due_at cfg (pool_at (put_pool a y bk) b) = due_at cfg (pool_at bk b)"
    "pl_direction (pool_at (put_pool a y bk) b) = pl_direction (pool_at bk b)"
    "pl_pool_id (pool_at (put_pool a y bk) b) = pl_pool_id (pool_at bk b)"
    using same [of b] by (simp_all add: same_place_def due_at_def)
qed

lemma put_pool_rest:
  assumes "run_ok cfg n {} run" "a < length (bk_store run)" "same_place (pool_at run a) y"
  shows "book_ok (put_pool a y run)" "cluster_index_ok (put_pool a y run) d (rn_cluster_index run d)"
    and "rn_pools_by_identity run i = filter (\<lambda>b. pl_pool_id (pool_at (put_pool a y run) b) = i) (bk_pools run)"
    and "keys_ok (put_pool a y run)"
proof -
  note ok = run_okD [OF assms(1)]
  note parts = put_pool_parts [OF assms(2,3)]
  have "terminal_pool (pool_at (put_pool a y run) b) = terminal_pool (pool_at run b)" for b
    using parts(1) [of b] by (simp add: same_place_def terminal_pool_def)
  then show "book_ok (put_pool a y run)"
    using ok(1-4) by (auto simp: book_ok_def clusters_ok_def)
  show "cluster_index_ok (put_pool a y run) d (rn_cluster_index run d)"
    using ok(8) [of d] unfolding cluster_index_ok_def parts(4) by simp
  show "rn_pools_by_identity run i = filter (\<lambda>b. pl_pool_id (pool_at (put_pool a y run) b) = i) (bk_pools run)"
    unfolding parts(7) by (rule ok(5))
  show "keys_ok (put_pool a y run)"
    using ok(9) unfolding keys_ok_def parts(2) by simp
qed

lemma put_unarchived:
  assumes "run_ok cfg n {} run" "a < length (bk_store run)" "same_place (pool_at run a) y" "a \<notin> set (bk_pools run)"
  shows "run_ok cfg n {} (put_pool a y run)"
proof -
  note ok = run_okD [OF assms(1)]
  note parts = put_pool_parts [OF assms(2,3)] and rest = put_pool_rest [OF assms(1-3)]
  have "position_entry cfg (put_pool a y run) p = position_entry cfg run p" if "p < length (bk_pools run)" for p
  proof -
    have "bk_pools run ! p \<noteq> a" using assms(4) that by (metis nth_mem)
    then show ?thesis by (simp add: position_entry_def)
  qed
  then have entries: "position_entry cfg (put_pool a y run) ` live_positions run = position_entry cfg run ` live_positions run"
    by (intro image_cong) (simp_all add: live_positions_def)
  have "reach_index_ok cfg n {} (put_pool a y run) (rn_active run)"
    using ok(7) unfolding reach_index_ok_def parts(3) entries parts(5,6) by simp
  then show ?thesis
    using rest ok(6) unfolding run_ok_def parts(2) by simp
qed

lemma put_archived:
  assumes "run_ok cfg n {} run" "same_place (pool_at run a) y" "a \<in> set (live_pools run)"
  shows "\<exists>run'. index_update cfg a None (put_pool a y run\<lparr>rn_reach := (rn_reach run)(a := None)\<rparr>) = Inr run'
    \<and> book_of run' = put_pool a y (book_of run) \<and> run_ok cfg n {} run'"
proof -
  let ?put = "put_pool a y run" and ?E = "position_entry cfg run ` live_positions run"
  note ok = run_okD [OF assms(1)]
  have a: "a < length (bk_store run)" using ok(2) assms(3) by (simp add: live_pools_def)
  note parts = put_pool_parts [OF a assms(2)] and rest = put_pool_rest [OF assms(1) a assms(2)]
  note inj = position_entries_inj [OF ok(1), of cfg]
  obtain p where p: "p \<in> live_positions run" "bk_pools run ! p = a" using assms(3) by (rule live_position)
  let ?e = "position_entry cfg run p" and ?e' = "position_entry cfg ?put p"
  have e: "?e = (interaction_reach_of cfg (pool_at run a), p, a)" "?e' = (interaction_reach_of cfg y, p, a)"
    using a p(2) by (simp_all add: position_entry_def)
  have other: "position_entry cfg ?put q = position_entry cfg run q" if "q \<in> live_positions run" "q \<noteq> p" for q
  proof -
    have "bk_pools run ! q \<noteq> a" using that p nth_eq_iff_index_eq [OF ok(1)] by (auto simp: live_positions_def)
    then show ?thesis by (simp add: position_entry_def)
  qed
  have "position_entry cfg run q = ?e \<longleftrightarrow> q = p" for q by (auto simp: position_entry_def)
  then have removed: "?E - {?e} = position_entry cfg run ` (live_positions run - {q. q = p})"
    by (intro image_without) blast
  have entries: "position_entry cfg ?put ` live_positions run = insert ?e' (?E - {?e})"
  proof -
    have "position_entry cfg ?put ` (live_positions run - {q. q = p}) = position_entry cfg run ` (live_positions run - {q. q = p})"
      using other by (intro image_cong) auto
    moreover have "live_positions run = insert p (live_positions run - {q. q = p})" using p(1) by auto
    ultimately show ?thesis unfolding removed by (metis image_insert)
  qed
  have holds: "index_holds ?E (\<lambda>b. pl_direction (pool_at run b)) (rn_active run)"
    using ok(7) unfolding reach_index_ok_iff by blast
  have "?e \<in> ?E" using p(1) by simp
  from index_discard_holds [OF holds this inj] obtain ix where
    ix: "index_discard (\<lambda>b. pl_direction (pool_at run b)) a (rn_active run) = Inr ix"
      "index_holds (?E - {?e}) (\<lambda>b. pl_direction (pool_at run b)) ix" "ix_ages ix = ix_ages (rn_active run)"
    unfolding e(1) snd_conv by blast
  have fresh: "\<forall>x\<in>?E - {?e}. snd (snd x) \<noteq> snd (snd ?e')" "\<forall>x\<in>?E - {?e}. fst (snd x) \<noteq> fst (snd ?e')"
    unfolding removed e(2) using p nth_eq_iff_index_eq [OF ok(1)] by (auto simp: position_entry_def live_positions_def)
  let ?ix = "index_put (pl_direction y) ?e' ix"
  have "pl_direction y = pl_direction (pool_at run a)" using assms(2) by (simp add: same_place_def)
  then have put: "index_holds (insert ?e' (?E - {?e})) (\<lambda>b. pl_direction (pool_at run b)) ?ix" "ix_ages ?ix = ix_ages ix"
    using index_put_holds [OF ix(2) fresh] by (simp_all add: e(2))
  have current: "ix_current (rn_active run) a = Some ?e"
    unfolding reach_index_okD(1) [OF ok(7)] using \<open>?e \<in> ?E\<close> by (simp only: e(1) snd_conv simp_thms)
  let ?run = "put_pool a y run\<lparr>rn_reach := (rn_reach run)(a := None)\<rparr>"
  let ?new = "?run\<lparr>rn_reach := (rn_reach run)(a := Some (interaction_reach_of cfg y)), rn_active := ?ix\<rparr>"
  have dirs: "(\<lambda>b. pl_direction (pool_at ?run b)) = (\<lambda>b. pl_direction (pool_at run b))"
    using parts(6) by simp
  have "index_update cfg a None ?run = Inr ?new"
    using ix(1) dirs current a by (simp add: index_update_def Let_def e)
  moreover have "reach_index_ok cfg n {} ?put ?ix"
    unfolding reach_index_ok_iff parts(3) entries parts(5,6) put(2) ix(3)
    using put(1) ok(7) unfolding reach_index_ok_iff by simp
  then have "run_ok cfg n {} ?new"
    using rest ok(6) unfolding run_ok_def book_parts keys_ok_def parts(2) by simp
  moreover have "book_of ?new = put_pool a y (book_of run)" by (simp add: liquidity_book.truncate_def)
  ultimately show ?thesis by blast
qed

text \<open>A cluster may change its members, or take a pool that nobody else has.\<close>

lemma set_cluster_simps [simp]:
  "bk_store (set_cluster d k c bk) = bk_store bk" "bk_pools (set_cluster d k c bk) = bk_pools bk"
  "bk_clusters (set_cluster d k c bk) d' = (if d' = d then (bk_clusters bk d)[k := c] else bk_clusters bk d')"
  "rn_pools_by_identity (set_cluster d k c run) = rn_pools_by_identity run" "rn_active (set_cluster d k c run) = rn_active run"
  "rn_reach (set_cluster d k c run) = rn_reach run" "rn_cluster_index (set_cluster d k c run) = rn_cluster_index run"
  "rn_cluster_keys (set_cluster d k c run) = rn_cluster_keys run"
  "live_pools (set_cluster d k c bk) = live_pools bk" "live_cluster (set_cluster d k c bk) c' = live_cluster bk c'"
  "reach_index_ok cfg n S (set_cluster d k c bk) ix = reach_index_ok cfg n S bk ix"
  "book_of (set_cluster d k c run) = set_cluster d k c (book_of run)"
  by (simp_all add: set_cluster_def live_pools_def live_cluster_def reach_index_ok_def live_positions_def position_entry_def
      liquidity_book.truncate_def cong: option.case_cong)

lemma set_cluster_ok:
  assumes "run_ok cfg n {} run" "k < length (bk_clusters run d)"
    and "kl_anchor_price c = kl_anchor_price (bk_clusters run d ! k)"
    and "kl_pool c = kl_pool (bk_clusters run d ! k)
      \<or> kl_pool (bk_clusters run d ! k) = None \<and> kl_pool c = Some a \<and> a < length (bk_store run) \<and> a \<notin> set (bk_pools run)
        \<and> (\<forall>d k. k < length (bk_clusters run d) \<longrightarrow> kl_pool (bk_clusters run d ! k) \<noteq> Some a)"
  shows "run_ok cfg n {} (set_cluster d k c run)"
proof -
  let ?run = "set_cluster d k c run"
  note ok = run_okD [OF assms(1)]
  have at: "bk_clusters ?run d' ! j = (if d' = d \<and> j = k then c else bk_clusters run d' ! j)" "length (bk_clusters ?run d') = length (bk_clusters run d')" for d' j
    using assms(2) by simp_all
  have live_a: "\<not> terminal_pool (pool_at run b)" if "b < length (bk_store run)" "b \<notin> set (bk_pools run)" for b
    using ok(3) that by blast
  have live: "live_cluster run c = live_cluster run (bk_clusters run d ! k)"
    using assms(4) live_a [of a] by (auto simp: live_cluster_def)
  have "cluster_index_ok ?run d' (rn_cluster_index run d')" for d'
  proof -
    have "kl_anchor_price (bk_clusters ?run d' ! j) = kl_anchor_price (bk_clusters run d' ! j)"
      "live_cluster run (bk_clusters ?run d' ! j) = live_cluster run (bk_clusters run d' ! j)" for j
      unfolding at using assms(3) live by auto
    then show ?thesis using ok(8) [of d'] unfolding cluster_index_ok_def set_cluster_simps(10) at(2) by (simp del: set_cluster_simps(3))
  qed
  moreover have "clusters_ok ?run"
    unfolding clusters_ok_def
  proof (intro conjI allI impI)
    fix d' j b assume "j < length (bk_clusters ?run d') \<and> kl_pool (bk_clusters ?run d' ! j) = Some b"
    then show "b < length (bk_store ?run)"
      unfolding at using assms(4) clusters_okD(1) [OF ok(4)] by (auto split: if_splits)
  next
    fix d1 j1 d2 j2 b
    assume "j1 < length (bk_clusters ?run d1) \<and> j2 < length (bk_clusters ?run d2)
      \<and> kl_pool (bk_clusters ?run d1 ! j1) = Some b \<and> kl_pool (bk_clusters ?run d2 ! j2) = Some b"
    then have b: "j1 < length (bk_clusters run d1)" "j2 < length (bk_clusters run d2)"
        "kl_pool (if d1 = d \<and> j1 = k then c else bk_clusters run d1 ! j1) = Some b"
        "kl_pool (if d2 = d \<and> j2 = k then c else bk_clusters run d2 ! j2) = Some b"
      unfolding at by simp_all
    have taken: "d' = d \<and> j = k" if "j < length (bk_clusters run d')" "kl_pool (bk_clusters run d' ! j) = Some b" "kl_pool c = Some b" for d' j
      using assms(4)
    proof
      assume "kl_pool c = kl_pool (bk_clusters run d ! k)"
      then show ?thesis using clusters_okD(2) [OF ok(4) assms(2) _ that(1,2)] that(3) by simp
    next
      assume "kl_pool (bk_clusters run d ! k) = None \<and> kl_pool c = Some a \<and> a < length (bk_store run) \<and> a \<notin> set (bk_pools run)
        \<and> (\<forall>d k. k < length (bk_clusters run d) \<longrightarrow> kl_pool (bk_clusters run d ! k) \<noteq> Some a)"
      then show ?thesis using that by simp
    qed
    have "d1 = d2 \<and> j1 = j2"
    proof (cases "d1 = d \<and> j1 = k")
      case True
      then have c: "kl_pool c = Some b" using b(3) by simp
      show ?thesis
      proof (cases "d2 = d \<and> j2 = k")
        case False
        then have "kl_pool (bk_clusters run d2 ! j2) = Some b" using b(4) by (simp only: if_False)
        from taken [OF b(2) this c] show ?thesis using True by simp
      qed (use True in simp)
    next
      case False
      then have one: "kl_pool (bk_clusters run d1 ! j1) = Some b" using b(3) by (simp only: if_False)
      show ?thesis
      proof (cases "d2 = d \<and> j2 = k")
        case True
        then have "kl_pool c = Some b" using b(4) by simp
        from taken [OF b(1) one this] show ?thesis using True by simp
      next
        case False
        then have "kl_pool (bk_clusters run d2 ! j2) = Some b" using b(4) by (simp only: if_False)
        then show ?thesis using clusters_okD(2) [OF ok(4) b(2) _ b(1) one] by blast
      qed
    qed
    then show "d1 = d2" "j1 = j2" by simp_all
  qed
  then have "book_ok ?run" using ok(1-3) by (simp add: book_ok_def)
  moreover have "keys_ok ?run"
  proof -
    have "a \<notin> set (live_pools run)" if "a \<notin> set (bk_pools run)" using that by (simp add: live_pools_def)
    then have "b \<in> set (live_pools run) \<Longrightarrow> kl_pool (bk_clusters ?run d' ! j) = Some b \<longleftrightarrow> kl_pool (bk_clusters run d' ! j) = Some b" for b d' j
      unfolding at using assms(4) by auto
    moreover have "kl_anchor_price (bk_clusters ?run d' ! j) = kl_anchor_price (bk_clusters run d' ! j)" for d' j
      unfolding at using assms(3) by auto
    ultimately show ?thesis
      using ok(9) unfolding keys_ok_def set_cluster_simps(8,9) at(2) by (simp del: set_cluster_simps(3)) blast
  qed
  ultimately show ?thesis using ok(5-7) by (simp add: run_ok_def del: set_cluster_simps(3))
qed

lemma add_cluster_tracks:
  assumes "run_ok cfg n {} run"
  shows "run_ok cfg n {} (run\<lparr>bk_clusters := (bk_clusters run)(side_for swing := bk_clusters run (side_for swing) @ [new_cluster swing]),
    rn_cluster_index := (rn_cluster_index run)(side_for swing :=
      insert_by (\<lambda>e. e) (cs_price swing, length (bk_clusters run (side_for swing))) (rn_cluster_index run (side_for swing)))\<rparr>)"
proof -
  let ?d = "side_for swing" and ?k = "length (bk_clusters run (side_for swing))"
  let ?cl = "(bk_clusters run)(?d := bk_clusters run ?d @ [new_cluster swing])"
  let ?run = "run\<lparr>bk_clusters := ?cl\<rparr>"
  note ok = run_okD [OF assms]
  have keep: "live_pools ?run = live_pools run" "live_cluster ?run c = live_cluster run c" for c
    by (simp_all add: live_pools_def live_cluster_def cong: option.case_cong)
  have index: "reach_index_ok cfg n {} ?run (rn_active run)"
    using ok(7) by (simp add: reach_index_ok_def live_positions_def position_entry_def)
  have at: "j < length (?cl d) \<longleftrightarrow> j < length (bk_clusters run d) \<or> d = ?d \<and> j = ?k" for j d by auto
  have nth: "?cl d ! j = bk_clusters run d ! j" if "j < length (bk_clusters run d)" for d j
    using that by (cases "d = ?d") (simp_all add: nth_append)
  have new: "?cl ?d ! ?k = new_cluster swing" by simp
  let ?new = "insert_by (\<lambda>e. e) (cs_price swing, ?k) (rn_cluster_index run ?d)"
  have entries: "sorted_wrt (<) (rn_cluster_index run d)" "set (rn_cluster_index run d)
      = {(kl_anchor_price (bk_clusters run d ! j), j) | j. j < length (bk_clusters run d) \<and> live_cluster run (bk_clusters run d ! j)}" for d
    using ok(8) [of d] by (simp_all add: cluster_index_ok_def)
  have "(cs_price swing, ?k) \<notin> (\<lambda>e. e) ` set (rn_cluster_index run ?d)" unfolding entries(2) by auto
  with entries(1) have inserted: "sorted_wrt (<) ?new" "set ?new = insert (cs_price swing, ?k) (set (rn_cluster_index run ?d))"
    using insert_by_strict [of "\<lambda>e. e" "rn_cluster_index run ?d" "(cs_price swing, ?k)"] by simp_all
  have "cluster_index_ok ?run d (((rn_cluster_index run)(?d := ?new)) d)" for d
  proof (cases "d = ?d")
    case True
    have fresh: "kl_anchor_price (new_cluster swing) = cs_price swing" "live_cluster run (new_cluster swing)"
      by (simp_all add: new_cluster_def live_cluster_def)
    have "{(kl_anchor_price (?cl ?d ! j), j) | j. j < length (?cl ?d) \<and> live_cluster run (?cl ?d ! j)}
        = insert (cs_price swing, ?k) {(kl_anchor_price (bk_clusters run ?d ! j), j) | j.
            j < length (bk_clusters run ?d) \<and> live_cluster run (bk_clusters run ?d ! j)}" (is "?L = ?R")
    proof
      show "?L \<subseteq> ?R"
      proof
        fix x assume "x \<in> ?L"
        then obtain j where j: "x = (kl_anchor_price (?cl ?d ! j), j)" "j < length (?cl ?d)" "live_cluster run (?cl ?d ! j)" by blast
        show "x \<in> ?R"
        proof (cases "j = ?k")
          case True
          then show ?thesis using j(1) new fresh(1) by simp
        next
          case False
          then have l: "j < length (bk_clusters run ?d)" using j(2) by simp
          then show ?thesis using j(1,3) unfolding nth [OF l] by blast
        qed
      qed
      show "?R \<subseteq> ?L"
      proof
        fix x assume "x \<in> ?R"
        then consider "x = (cs_price swing, ?k)"
          | j where "x = (kl_anchor_price (bk_clusters run ?d ! j), j)" "j < length (bk_clusters run ?d)" "live_cluster run (bk_clusters run ?d ! j)"
          by blast
        then show "x \<in> ?L"
        proof cases
          case 1
          then show ?thesis using new fresh by (intro CollectI exI [of _ ?k]) simp
        next
          case (2 j)
          then show ?thesis using nth [OF 2(2)] by (intro CollectI exI [of _ j]) simp
        qed
      qed
    qed
    then show ?thesis using inserted True by (simp add: cluster_index_ok_def keep(2) entries(2) del: fun_upd_apply) simp
  next
    case False
    then show ?thesis using ok(8) [of d] by (simp add: cluster_index_ok_def keep(2))
  qed
  moreover have "clusters_ok ?run"
  proof -
    have none: "kl_pool (new_cluster swing) = None" by (simp add: new_cluster_def)
    have occ: "j < length (bk_clusters run d) \<and> kl_pool (bk_clusters run d ! j) = Some a"
      if "j < length (?cl d)" "kl_pool (?cl d ! j) = Some a" for d j a
      using that nth [of j d] new none unfolding at by (metis option.distinct(1))
    show ?thesis
      unfolding clusters_ok_def
    proof (intro conjI allI impI)
      fix d j a assume "j < length (bk_clusters ?run d) \<and> kl_pool (bk_clusters ?run d ! j) = Some a"
      then have "j < length (?cl d)" "kl_pool (?cl d ! j) = Some a" by simp_all
      from occ [OF this] have "j < length (bk_clusters run d)" "kl_pool (bk_clusters run d ! j) = Some a" by blast+
      then show "a < length (bk_store ?run)" using clusters_okD(1) [OF ok(4), of j d a] by simp
    next
      fix d1 j1 d2 j2 a
      assume "j1 < length (bk_clusters ?run d1) \<and> j2 < length (bk_clusters ?run d2)
        \<and> kl_pool (bk_clusters ?run d1 ! j1) = Some a \<and> kl_pool (bk_clusters ?run d2 ! j2) = Some a"
      then have "j1 < length (?cl d1)" "kl_pool (?cl d1 ! j1) = Some a" "j2 < length (?cl d2)" "kl_pool (?cl d2 ! j2) = Some a"
        by simp_all
      from occ [OF this(1,2)] occ [OF this(3,4)] clusters_okD(2) [OF ok(4), of j2 d2 a j1 d1]
      show "d1 = d2" "j1 = j2" by simp_all
    qed
  qed
  moreover have "keys_ok (?run\<lparr>rn_cluster_index := (rn_cluster_index run)(?d := ?new)\<rparr>)"
  proof -
    have none: "kl_pool (new_cluster swing) = None" by (simp add: new_cluster_def)
    have "j < length (?cl d) \<and> kl_pool (?cl d ! j) = Some a \<and> anchor = kl_anchor_price (?cl d ! j)
        \<longleftrightarrow> j < length (bk_clusters run d) \<and> kl_pool (bk_clusters run d ! j) = Some a \<and> anchor = kl_anchor_price (bk_clusters run d ! j)" for d j a anchor
      unfolding at using nth new none by (metis option.distinct(1))
    then show ?thesis using ok(9) unfolding keys_ok_def book_parts keep by (simp del: fun_upd_apply)
  qed
  ultimately show ?thesis
    using ok(1-3,5,6) index unfolding run_ok_def book_ok_def by (simp add: keep del: fun_upd_apply)
qed

text \<open>The end of the cluster step: the pool joins the archive, moves in the index, or stays outside.\<close>

definition filed :: "nat \<Rightarrow> liquidity_book \<Rightarrow> liquidity_book" where
  "filed a bk = (if list_ex (same_pool bk a) (bk_pools bk) then bk else bk\<lparr>bk_pools := bk_pools bk @ [a]\<rparr>)"

lemma same_pool_bucket:
  assumes "\<And>i. rn_pools_by_identity run i = filter (\<lambda>a. pl_pool_id (pool_at run a) = i) (bk_pools run)"
  shows "list_ex (same_pool run a) (rn_pools_by_identity run (pl_pool_id (pool_at run a)))
    \<longleftrightarrow> list_ex (same_pool (book_of run) a) (bk_pools run)"
  unfolding assms by (auto simp: list_ex_iff same_pool_def)

lemma file_new_tracks:
  assumes "run_ok cfg n {} run" "a < length (bk_store run)" "a \<notin> set (bk_pools run)"
    and "k < length (bk_clusters run d)" "kl_pool (bk_clusters run d ! k) = Some a"
  shows "tracks (run_ok cfg n {})
    (file_pool cfg (d, kl_anchor_price (bk_clusters run d ! k), k) a (run\<lparr>rn_reach := (rn_reach run)(a := None)\<rparr>))
    (Inr (filed a (book_of run)))"
proof -
  let ?run = "run\<lparr>rn_reach := (rn_reach run)(a := None)\<rparr>" and ?key = "(d, kl_anchor_price (bk_clusters run d ! k), k)"
  note ok = run_okD [OF assms(1)]
  have not_live: "a \<notin> set (live_pools run)" using assms(3) by (simp add: live_pools_def)
  then have base: "base_ok cfg ?run"
    using assms(1) unfolding run_ok_base base_ok_def book_parts by auto
  have keys: "keys_ok ?run" using ok(9) unfolding keys_ok_def book_parts by simp
  have "list_ex (same_pool ?run a) (rn_pools_by_identity ?run (pl_pool_id (pool_at ?run a)))
      \<longleftrightarrow> list_ex (same_pool (book_of run) a) (bk_pools run)"
    using same_pool_bucket [of ?run a] ok(5) by simp
  note bucket = this
  show ?thesis
  proof (cases "list_ex (same_pool (book_of run) a) (bk_pools run)")
    case True
    have "ix_current (rn_active run) a = None"
    proof (rule ccontr)
      assume "ix_current (rn_active run) a \<noteq> None"
      then obtain x where "x \<in> position_entry cfg run ` live_positions run" "snd (snd x) = a"
        using reach_index_okD(1) [OF ok(7)] by fastforce
      then have "a \<in> set (live_pools run)"
        unfolding live_positions_pools [symmetric] by (auto simp: position_entry_def)
      then show False using not_live by simp
    qed
    then show ?thesis
      using True bucket base keys by (simp add: file_pool_def filed_def tracks_Inr run_ok_base)
  next
    case False
    obtain run' where run': "index_update cfg a (Some (length (bk_pools (archive_pool a ?run)) - 1)) (archive_pool a ?run) = Inr run'"
        "book_of run' = (book_of ?run)\<lparr>bk_pools := bk_pools ?run @ [a]\<rparr>" "base_ok cfg run'"
        "rn_cluster_keys run' = rn_cluster_keys ?run"
      using archive_base [OF base] assms(2,3) by auto
    have parts: "bk_clusters run' = bk_clusters run" "bk_pools run' = bk_pools run @ [a]" "bk_store run' = bk_store run"
      using arg_cong [OF run'(2), of bk_clusters] arg_cong [OF run'(2), of bk_pools] arg_cong [OF run'(2), of bk_store] by simp_all
    let ?new = "run'\<lparr>rn_cluster_keys := (rn_cluster_keys run')(a := Some ?key)\<rparr>"
    have "\<not> terminal_pool (pool_at run a)" using ok(3) assms(2,3) by blast
    then have live: "set (live_pools run') = insert a (set (live_pools run))" by (auto simp: live_pools_def parts)
    have "keys_ok ?new"
      unfolding keys_ok_def book_parts live
    proof (intro allI)
      fix b d' anchor j
      show "rn_cluster_keys ?new b = Some (d', anchor, j) \<longleftrightarrow> b \<in> insert a (set (live_pools run))
          \<and> j < length (bk_clusters ?new d') \<and> kl_pool (bk_clusters ?new d' ! j) = Some b
          \<and> anchor = kl_anchor_price (bk_clusters ?new d' ! j)"
      proof (cases "b = a")
        case True
        have "j < length (bk_clusters run d') \<Longrightarrow> kl_pool (bk_clusters run d' ! j) = Some a \<Longrightarrow> d' = d \<and> j = k"
          using clusters_okD(2) [OF ok(4) assms(4,5), of j d'] by blast
        then show ?thesis using assms(4,5) True by (auto simp: parts)
      next
        case False
        then show ?thesis using keys_okD [OF ok(9), of b d' anchor j] by (simp add: run'(4) parts)
      qed
    qed
    then have "run_ok cfg n {} ?new" using run'(3) unfolding run_ok_base base_ok_def book_parts by simp
    then show ?thesis
      using False bucket run'(1,2) by (simp add: file_pool_def filed_def tracks_Inr Let_def)
  qed
qed

lemma file_live_tracks:
  assumes "run_ok cfg n {} run" "same_place (pool_at run a) y" "a \<in> set (live_pools run)"
  shows "tracks (run_ok cfg n {}) (file_pool cfg key a (put_pool a y run\<lparr>rn_reach := (rn_reach run)(a := None)\<rparr>))
    (Inr (filed a (put_pool a y (book_of run))))"
proof -
  let ?run = "put_pool a y run\<lparr>rn_reach := (rn_reach run)(a := None)\<rparr>"
  note ok = run_okD [OF assms(1)]
  have a: "a < length (bk_store run)" "a \<in> set (bk_pools run)" using ok(2) assms(3) by (simp_all add: live_pools_def)
  have "pl_pool_id y = pl_pool_id (pool_at run a)" using assms(2) by (simp add: same_place_def)
  then have there: "list_ex (same_pool ?run a) (rn_pools_by_identity ?run (pl_pool_id (pool_at ?run a)))"
    using a ok(5) by (auto simp: list_ex_iff same_pool_def)
  have archived: "list_ex (same_pool (put_pool a y (book_of run)) a) (bk_pools run)"
    using a(2) by (auto simp: list_ex_iff same_pool_def)
  obtain p where p: "p \<in> live_positions run" "bk_pools run ! p = a" using assms(3) by (rule live_position)
  then have "ix_current (rn_active run) a = Some (position_entry cfg run p)"
    unfolding reach_index_okD(1) [OF ok(7)] by (auto simp: position_entry_def)
  then have current: "ix_current (rn_active ?run) a \<noteq> None" by simp
  obtain run' where "index_update cfg a None ?run = Inr run'" "book_of run' = put_pool a y (book_of run)" "run_ok cfg n {} run'"
    using put_archived [OF assms] by blast
  then show ?thesis
    unfolding file_pool_def using there current archived by (simp add: filed_def tracks_Inr)
qed

lemma bind_result_assoc: "bind_result (bind_result r f) g = bind_result r (\<lambda>x. bind_result (f x) g)"
  by (cases r) simp_all

lemma first_cluster_Some:
  assumes "first_cluster bk swing atr cfg = Some k"
  shows "k < length (bk_clusters bk (side_for swing))" "live_cluster bk (bk_clusters bk (side_for swing) ! k)"
    "\<exists>m. membership (kl_anchor_price (bk_clusters bk (side_for swing) ! k)) swing atr cfg = Some m"
proof -
  let ?P = "\<lambda>k. live_cluster bk (bk_clusters bk (side_for swing) ! k)
    \<and> membership (kl_anchor_price (bk_clusters bk (side_for swing) ! k)) swing atr cfg \<noteq> None"
  have "k \<in> set [0..<length (bk_clusters bk (side_for swing))] \<and> ?P k"
    using assms find_SomeD [of ?P "[0..<length (bk_clusters bk (side_for swing))]" k]
    unfolding first_cluster_def Let_def by blast
  then show "k < length (bk_clusters bk (side_for swing))" "live_cluster bk (bk_clusters bk (side_for swing) ! k)"
    "\<exists>m. membership (kl_anchor_price (bk_clusters bk (side_for swing) ! k)) swing atr cfg = Some m"
    by auto
qed

lemma first_cluster_book [simp]: "first_cluster (book_of run) swing atr cfg = first_cluster run swing atr cfg"
proof -
  have "live_cluster (book_of run) c = live_cluster run c" for c
    by (simp add: live_cluster_def cong: option.case_cong)
  then show ?thesis by (simp add: first_cluster_def)
qed

lemma joined_fields [simp]:
  "kl_anchor_price (join_cluster swing m c) = kl_anchor_price c" "kl_pool (join_cluster swing m c) = kl_pool c"
  by (simp_all add: join_cluster_def)

text \<open>The pool of a live cluster after the swing has joined it.\<close>

lemma cluster_pool_tracks:
  assumes run: "run_ok cfg n {} run" and k: "k < length (bk_clusters run d)" "live_cluster run (bk_clusters run d ! k)"
  shows "tracks (run_ok cfg n {})
    (bind_result (update_cluster_pool cfg i d k run) (\<lambda>(pool, run').
       case pool of None \<Rightarrow> Inr run'
       | Some a \<Rightarrow> file_pool cfg (d, kl_anchor_price (bk_clusters run d ! k), k) a (run'\<lparr>rn_reach := (rn_reach run')(a := None)\<rparr>)))
    (bind_result (update_cluster_pool cfg i d k (book_of run)) (\<lambda>(pool, bk).
       Inr (case pool of None \<Rightarrow> bk | Some a \<Rightarrow> filed a bk)))"
proof (cases "length (kl_members (bk_clusters run d ! k)) < lq_cluster_min_touches cfg")
  case True
  then show ?thesis using run by (simp add: update_cluster_pool_def Let_def tracks_Inr)
next
  case enough: False
  let ?c = "bk_clusters run d ! k"
  note ok = run_okD [OF run]
  show ?thesis
  proof (cases "kl_pool ?c")
    case None
    have "tracks (run_ok cfg n {})
        (bind_result (new_cluster_pool ?c cfg i) (\<lambda>pool.
          let run' = set_cluster d k (?c\<lparr>kl_pool := Some (length (bk_store run))\<rparr>) (snd (add_object pool run))
          in file_pool cfg (d, kl_anchor_price ?c, k) (length (bk_store run))
            (run'\<lparr>rn_reach := (rn_reach run')(length (bk_store run) := None)\<rparr>)))
        (bind_result (new_cluster_pool ?c cfg i) (\<lambda>pool.
          Inr (filed (length (bk_store run)) (set_cluster d k (?c\<lparr>kl_pool := Some (length (bk_store run))\<rparr>) (snd (add_object pool (book_of run)))))))"
    proof (rule tracks_on)
      fix pool assume "new_cluster_pool ?c cfg i = Inr pool"
      then have active: "\<not> terminal_pool pool" using new_pools_active(2) by (simp add: terminal_pool_def)
      let ?a = "length (bk_store run)" and ?run = "snd (add_object pool run)"
      have added: "run_ok cfg n {} ?run" by (rule add_object_ok [OF run active])
      have fresh: "?a \<notin> set (bk_pools run)" using ok(2) [of ?a] by auto
      have nobody: "kl_pool (bk_clusters run d' ! j) \<noteq> Some ?a" if "j < length (bk_clusters run d')" for d' j
        using clusters_okD(1) [OF ok(4) that] by auto
      have "run_ok cfg n {} (set_cluster d k (?c\<lparr>kl_pool := Some ?a\<rparr>) ?run)"
      proof (rule set_cluster_ok [where a = "length (bk_store run)"])
        show "kl_pool (?c\<lparr>kl_pool := Some ?a\<rparr>) = kl_pool (bk_clusters ?run d ! k)
          \<or> kl_pool (bk_clusters ?run d ! k) = None \<and> kl_pool (?c\<lparr>kl_pool := Some ?a\<rparr>) = Some ?a
            \<and> ?a < length (bk_store ?run) \<and> ?a \<notin> set (bk_pools ?run)
            \<and> (\<forall>d' j. j < length (bk_clusters ?run d') \<longrightarrow> kl_pool (bk_clusters ?run d' ! j) \<noteq> Some ?a)"
          using None fresh nobody by simp
      qed (use added k in simp_all)
      from file_new_tracks [OF this, of ?a k d] fresh k(1)
      show "tracks (run_ok cfg n {})
          (let run' = set_cluster d k (?c\<lparr>kl_pool := Some ?a\<rparr>) ?run
           in file_pool cfg (d, kl_anchor_price ?c, k) ?a (run'\<lparr>rn_reach := (rn_reach run')(?a := None)\<rparr>))
          (Inr (filed ?a (set_cluster d k (?c\<lparr>kl_pool := Some ?a\<rparr>) (snd (add_object pool (book_of run))))))"
        by (simp add: Let_def)
    qed
    then show ?thesis
      using enough None by (simp add: update_cluster_pool_def Let_def split_beta bind_result_assoc)
  next
    case (Some a)
    have a: "a < length (bk_store run)" using clusters_okD(1) [OF ok(4) k(1) Some] .
    have live: "\<not> terminal_pool (pool_at run a)" using k(2) Some by (simp add: live_cluster_def)
    have "tracks (run_ok cfg n {})
        (bind_result (widened_cluster_pool ?c cfg (pool_at run a)) (\<lambda>y.
          file_pool cfg (d, kl_anchor_price ?c, k) a (put_pool a y run\<lparr>rn_reach := (rn_reach run)(a := None)\<rparr>)))
        (bind_result (widened_cluster_pool ?c cfg (pool_at run a)) (\<lambda>y. Inr (filed a (put_pool a y (book_of run)))))"
    proof (rule tracks_on)
      fix y assume "widened_cluster_pool ?c cfg (pool_at run a) = Inr y"
      then have place: "same_place (pool_at run a) y" using widened_fields by (simp add: same_place_def)
      show "tracks (run_ok cfg n {})
          (file_pool cfg (d, kl_anchor_price ?c, k) a (put_pool a y run\<lparr>rn_reach := (rn_reach run)(a := None)\<rparr>))
          (Inr (filed a (put_pool a y (book_of run))))"
      proof (cases "a \<in> set (bk_pools run)")
        case True
        then show ?thesis using live by (intro file_live_tracks [OF run place]) (simp add: live_pools_def)
      next
        case False
        have "run_ok cfg n {} (put_pool a y run)" by (rule put_unarchived [OF run a place False])
        from file_new_tracks [OF this, of a k d] show ?thesis
          using a k(1) Some False by (simp add: liquidity_book.truncate_def)
      qed
    qed
    then show ?thesis
      using enough Some by (simp add: update_cluster_pool_def Let_def split_beta bind_result_assoc)
  qed
qed

lemma book_of_clusters [simp]: "book_of (run\<lparr>bk_clusters := c\<rparr>) = book_of run\<lparr>bk_clusters := c\<rparr>"
  by (simp add: liquidity_book.truncate_def)

lemma cluster_step_tracks:
  assumes "run_ok cfg n {} run" "0 < lq_tick_size cfg"
  shows "tracks (run_ok cfg n {}) (cluster_step cfg i atr swing run) (reference_cluster cfg i atr swing (book_of run))"
proof -
  let ?d = "side_for swing"
  note matching = first_cluster_found [OF run_okD(8) [OF assms(1)] assms(2), of swing atr]
  show ?thesis
  proof (cases "first_cluster run swing atr cfg")
    case None
    then show ?thesis
      using add_cluster_tracks [OF assms(1), of swing] matching
      by (simp add: cluster_step_def reference_cluster_def Let_def tracks_Inr)
  next
    case (Some k)
    note k = first_cluster_Some [OF Some]
    then obtain m where m: "membership (kl_anchor_price (bk_clusters run ?d ! k)) swing atr cfg = Some m" by blast
    let ?joined = "join_cluster swing m (bk_clusters run ?d ! k)"
    let ?run = "set_cluster ?d k ?joined run"
    have ran: "run_ok cfg n {} ?run" by (rule set_cluster_ok [OF assms(1) k(1)]) simp_all
    have live: "live_cluster ?run (bk_clusters ?run ?d ! k)" using k(1,2) by (simp add: live_cluster_def cong: option.case_cong)
    have "k < length (bk_clusters ?run ?d)" using k(1) by simp
    note tail = cluster_pool_tracks [OF ran this live, of i]
    have anchor: "kl_anchor_price (bk_clusters ?run ?d ! k) = kl_anchor_price (bk_clusters run ?d ! k)" using k(1) by simp
    have "reference_cluster cfg i atr swing (book_of run)
        = bind_result (update_cluster_pool cfg i ?d k (book_of ?run)) (\<lambda>(pool, bk).
            Inr (case pool of None \<Rightarrow> bk | Some a \<Rightarrow> filed a bk))"
      by (simp add: reference_cluster_def Some m Let_def filed_def cong: option.case_cong)
    moreover have "cluster_step cfg i atr swing run
        = bind_result (update_cluster_pool cfg i ?d k ?run) (\<lambda>(pool, run').
           case pool of None \<Rightarrow> Inr run'
           | Some a \<Rightarrow> file_pool cfg (?d, kl_anchor_price (bk_clusters run ?d ! k), k) a (run'\<lparr>rn_reach := (rn_reach run')(a := None)\<rparr>))"
      using matching m by (simp add: cluster_step_def Some Let_def)
    ultimately show ?thesis using tail unfolding anchor by (simp only:)
  qed
qed

lemma consume_tracks:
  assumes "run_ok cfg n {} run" "0 < lq_tick_size cfg"
  shows "tracks (run_ok cfg n {}) (consume_swing candles tf cfg atr_result swing run)
    (reference_consume candles tf cfg atr_result swing (book_of run))"
proof (cases "close_to_index candles tf (cs_confirmed_at swing)")
  case None
  then show ?thesis by (simp add: consume_swing_def reference_consume_def tracks_Inl)
next
  case (Some i)
  show ?thesis
    unfolding consume_swing_def reference_consume_def Some option.case
    by (rule tracks_bind [OF single_pool_tracks [OF assms(1)]]) (rule cluster_step_tracks [OF _ assms(2)])
qed

definition tracks_rest ::
  "(liquidity_run \<Rightarrow> bool) \<Rightarrow> (confirmed_swing list \<times> liquidity_run) result \<Rightarrow> (confirmed_swing list \<times> liquidity_book) result \<Rightarrow> bool" where
  "tracks_rest ok r r' \<longleftrightarrow>
     (case r' of Inl e \<Rightarrow> r = Inl e | Inr (swings, bk) \<Rightarrow> \<exists>run. r = Inr (swings, run) \<and> book_of run = bk \<and> ok run)"

lemma tracks_rest_bind:
  assumes "tracks_rest ok r r'" "\<And>swings run. ok run \<Longrightarrow> P (f (swings, run)) (f' (swings, book_of run))" "\<And>e. P (Inl e) (Inl e)"
  shows "P (bind_result r f) (bind_result r' f')"
proof (cases r')
  case (Inl e)
  then show ?thesis using assms(1,3) by (simp add: tracks_rest_def)
next
  case (Inr x)
  obtain swings bk where x: "x = (swings, bk)" by (cases x)
  then obtain run where "r = Inr (swings, run)" "book_of run = bk" "ok run"
    using assms(1) Inr by (auto simp: tracks_rest_def)
  then show ?thesis using assms(2) [of run swings] Inr x by simp
qed

lemma tracks_bind_rest:
  assumes "tracks ok r r'" "\<And>run. ok run \<Longrightarrow> tracks_rest ok' (f run) (f' (book_of run))"
  shows "tracks_rest ok' (bind_result r f) (bind_result r' f')"
proof (cases r')
  case (Inl e)
  then show ?thesis using assms(1) by (simp add: tracks_def tracks_rest_def)
next
  case (Inr bk)
  then obtain run where "r = Inr run" "book_of run = bk" "ok run" using assms(1) by (auto simp: tracks_def)
  then show ?thesis using assms(2) [of run] Inr by simp
qed

lemma consume_until_tracks:
  assumes "run_ok cfg n {} run" "0 < lq_tick_size cfg"
  shows "tracks_rest (run_ok cfg n {}) (consume_until (consume_swing candles tf cfg atr_result) t swings run)
    (consume_until (reference_consume candles tf cfg atr_result) t swings (book_of run))"
  using assms(1)
proof (induction swings arbitrary: run)
  case Nil
  then show ?case by (simp add: tracks_rest_def)
next
  case (Cons swing swings)
  show ?case
  proof (cases "cs_confirmed_at swing \<le> t")
    case True
    show ?thesis
      unfolding consume_until.simps if_P [OF True]
      by (rule tracks_bind_rest [OF consume_tracks [OF Cons.prems assms(2)]]) (rule Cons.IH)
  next
    case False
    then show ?thesis using Cons.prems by (simp add: tracks_rest_def)
  qed
qed

lemma run_ok_any: "run_ok cfg n {} run \<longleftrightarrow> run_ok cfg m {} run"
  by (simp add: run_ok_base)

lemma bar_tracks:
  assumes "run_ok cfg m {} run" "0 < lq_tick_size cfg" "candle_valid (candles ! n)"
  shows "tracks_rest (run_ok cfg m {}) (liquidity_bar candles tf cfg atr_result n (swings, run))
    (reference_bar candles tf cfg atr_result n (swings, book_of run))"
  unfolding liquidity_bar_def reference_bar_def prod.case Let_def
proof (rule tracks_rest_bind [where P = "tracks_rest (run_ok cfg m {})", OF consume_until_tracks [OF assms(1,2)]], unfold prod.case)
  fix swings run assume ok: "run_ok cfg m {} run"
  let ?bar = "candles ! n"
  obtain sel ix where sel: "index_selected ?bar n (rn_active run) = (sel, ix)" by (cases "index_selected ?bar n (rn_active run)")
  have step: "tracks (run_ok cfg m {}) (for_each (bar_pool_step cfg tf n ?bar) sel (run\<lparr>rn_active := ix\<rparr>))
      (for_each (reference_pool_step cfg tf n ?bar) (live_pools run) (book_of run))"
  proof -
    have "run_ok cfg m {} = run_ok cfg n {}" by (rule ext) (rule run_ok_any)
    then show ?thesis using bar_pools_track [OF assms(3) _ sel] ok by simp
  qed
  have "tracks_rest (run_ok cfg m {})
      (bind_result (for_each (bar_pool_step cfg tf n ?bar) sel (run\<lparr>rn_active := ix\<rparr>)) (\<lambda>run'.
         consume_until (consume_swing candles tf cfg atr_result) (c_timestamp ?bar + timeframe_duration tf) swings
           (add_dual_sweep tf ?bar (length (bk_interactions run)) run')))
      (bind_result (for_each (reference_pool_step cfg tf n ?bar) (live_pools run) (book_of run)) (\<lambda>bk'.
         consume_until (reference_consume candles tf cfg atr_result) (c_timestamp ?bar + timeframe_duration tf) swings
           (add_dual_sweep tf ?bar (length (bk_interactions run)) bk')))"
  proof (rule tracks_bind_rest [OF step])
    fix run' assume ok': "run_ok cfg m {} run'"
    let ?run = "add_dual_sweep tf ?bar (length (bk_interactions run)) run'"
    have "run_ok cfg m {} ?run"
      using ok' by (simp add: add_dual_sweep_def run_ok_def book_ok_def clusters_ok_def live_pools_def reach_index_ok_def
          live_positions_def position_entry_def cluster_index_ok_def live_cluster_def keys_ok_def cong: option.case_cong)
    from consume_until_tracks [OF this assms(2)]
    show "tracks_rest (run_ok cfg m {})
        (consume_until (consume_swing candles tf cfg atr_result) (c_timestamp ?bar + timeframe_duration tf) swings ?run)
        (consume_until (reference_consume candles tf cfg atr_result) (c_timestamp ?bar + timeframe_duration tf) swings
           (add_dual_sweep tf ?bar (length (bk_interactions run)) (book_of run')))"
      by (simp add: add_dual_sweep_def liquidity_book.truncate_def)
  qed
  then show "tracks_rest (run_ok cfg m {})
      (case index_selected ?bar n (rn_active run) of (selection, ix) \<Rightarrow>
         bind_result (for_each (bar_pool_step cfg tf n ?bar) selection (run\<lparr>rn_active := ix\<rparr>)) (\<lambda>run'.
           consume_until (consume_swing candles tf cfg atr_result) (c_timestamp ?bar + timeframe_duration tf) swings
             (add_dual_sweep tf ?bar (length (bk_interactions run)) run')))
      (bind_result (for_each (reference_pool_step cfg tf n ?bar) (live_pools (book_of run)) (book_of run)) (\<lambda>bk'.
         consume_until (reference_consume candles tf cfg atr_result) (c_timestamp ?bar + timeframe_duration tf) swings
           (add_dual_sweep tf ?bar (length (bk_interactions (book_of run))) bk')))"
    by (simp add: sel)
qed (simp add: tracks_rest_def)

lemma liquidity_start_ok: "run_ok cfg n {} liquidity_start"
  by (simp add: run_ok_def book_ok_def clusters_ok_def live_pools_def reach_index_ok_def live_positions_def
      cluster_index_ok_def keys_ok_def liquidity_start_def)

lemma bars_track:
  assumes "0 < lq_tick_size cfg" "\<forall>i\<in>set is. candle_valid (candles ! i)" "run_ok cfg 0 {} run"
  shows "tracks_rest (run_ok cfg 0 {}) (for_each (liquidity_bar candles tf cfg atr_result) is (swings, run))
    (for_each (reference_bar candles tf cfg atr_result) is (swings, book_of run))"
  using assms(2,3)
proof (induction "is" arbitrary: swings run)
  case Nil
  then show ?case by (simp add: tracks_rest_def)
next
  case (Cons i "is")
  have valid: "candle_valid (candles ! i)" "\<forall>i\<in>set is. candle_valid (candles ! i)" using Cons.prems(1) by simp_all
  show ?case
    unfolding for_each.simps
  proof (rule tracks_rest_bind [where P = "tracks_rest (run_ok cfg 0 {})", OF bar_tracks [OF Cons.prems(2) assms(1) valid(1)]])
    show "tracks_rest (run_ok cfg 0 {}) (for_each (liquidity_bar candles tf cfg atr_result) is (swings', run'))
        (for_each (reference_bar candles tf cfg atr_result) is (swings', book_of run'))" if "run_ok cfg 0 {} run'" for swings' run'
      by (rule Cons.IH [OF valid(2) that])
  qed (simp add: tracks_rest_def)
qed

lemma analyze_liquidity_reference:
  assumes "liquidity_config_valid cfg" "\<forall>c\<in>set candles. candle_valid c"
  shows "analyze_liquidity candles tf swings cfg atr_result = reference_liquidity candles tf swings cfg atr_result"
proof -
  have tick: "0 < lq_tick_size cfg" using assms(1) by (simp add: liquidity_config_valid_def)
  have start: "book_of liquidity_start = reference_start"
    by (simp add: liquidity_start_def reference_start_def liquidity_book.truncate_def)
  have "\<forall>i\<in>set [0..<length candles]. candle_valid (candles ! i)" using assms(2) by simp
  note track = bars_track [OF tick this liquidity_start_ok, of tf atr_result "usable_swings candles tf swings"]
  have result: "liquidity_result candles tf cfg run = liquidity_result candles tf cfg (book_of run)" for run :: liquidity_run
    by (simp add: liquidity_result_def)
  have "bind_result (for_each (liquidity_bar candles tf cfg atr_result) [0..<length candles]
        (usable_swings candles tf swings, liquidity_start)) (\<lambda>(_, run). liquidity_result candles tf cfg run)
      = bind_result (for_each (reference_bar candles tf cfg atr_result) [0..<length candles]
        (usable_swings candles tf swings, reference_start)) (\<lambda>(_, bk). liquidity_result candles tf cfg bk)"
    unfolding start [symmetric]
    by (rule tracks_rest_bind [where P = "(=)", OF track]) (simp_all add: result)
  then show ?thesis by (simp add: analyze_liquidity_def reference_liquidity_def)
qed

text \<open>
  C34: The price index, the age heap and the sorted clusters are invisible: on valid candles the analysis is
  that of the plain loops, in which every bar advances every live pool in the order of the archive and a
  swing joins the oldest live cluster of its side that accepts it. Pools, interactions, dual sweeps, their
  order and every error are the same.
\<close>

theorem liquidity_index_exact:
  assumes "liquidity_config_valid cfg" "\<forall>c\<in>set candles. candle_valid c"
  shows "analyze_liquidity candles tf swings cfg atr_result
    = reference_liquidity candles tf swings cfg atr_result"
  using assms by (rule analyze_liquidity_reference)

section \<open>A sample run\<close>

definition sample_liquidity_config :: liquidity_config where
  "sample_liquidity_config =
     \<lparr>lq_tick_size = 1, lq_include_single_swing_pools = True, lq_single_pool_half_width_ticks = 1,
      lq_equal_tolerance_ticks = 1, lq_relative_equal_atr_ratio = 0, lq_cluster_min_touches = 2,
      lq_cluster_padding_ticks = 0, lq_sweep_min_penetration_ticks = 0, lq_taken_buffer_ticks = 0,
      lq_pool_max_age_bars = 100, lq_signal_allow_dual_sweep = False\<rparr>"

definition sweep_bars :: "candle list" where
  "sweep_bars = [sample_bar 2 12 13 8 9, sample_bar 3 9 16 9 11]"

definition sweep_swing :: confirmed_swing where
  "sweep_swing = \<lparr>cs_swing_id = ''s'', cs_source_candidate_id = ''c'', cs_kind = HIGH, cs_pivot_index = 0,
     cs_pivot_timestamp = minutes 1, cs_price = 14, cs_candidate_at = minutes 2, cs_confirmed_at = minutes 3,
     cs_left_evidence = [minutes 0], cs_right_evidence = [minutes 2]\<rparr>"

lemma sample_liquidity_valid:
  "liquidity_config_valid sample_liquidity_config" "\<forall>c\<in>set sweep_bars. candle_valid c"
  by (simp_all add: liquidity_config_valid_def sample_liquidity_config_def sweep_bars_def sample_bar_def
      candle_valid_iff candle_fields_def minutes_def seconds_def)

lemma sweep_inputs_valid:
  "validate_liquidity_inputs sweep_bars ONE_MINUTE [sweep_swing] sample_liquidity_config None = Inr ()"
  by code_simp

theorem liquidity_index_exact_witness:
  "(case analyze_liquidity sweep_bars ONE_MINUTE [sweep_swing] sample_liquidity_config None of
      Inl _ \<Rightarrow> False
    | Inr r \<Rightarrow> map (\<lambda>p. (lp_state p, lp_level p, map li_type (lp_interactions p))) (la_pools r)
        = [(POOL_SWEPT, 14, [SWEEP])])"
  unfolding liquidity_index_exact [OF sample_liquidity_valid] reference_liquidity_def sweep_inputs_valid
  by (simp add: upt_rec usable_swings_def data_cutoff_def
      reference_bar_def reference_consume_def close_to_index_def reference_single_def reference_cluster_def
      new_single_pool_def record_history_def make_history_entry_def first_cluster_def reference_start_def
      live_pools_def reference_pool_step_def advance_pool_def process_interaction_def terminal_pool_def
      taken_by_def swept_by_def interact_def append_interaction_def interaction_of_def make_interaction_def
      expire_pool_def store_outcome_def add_dual_sweep_def dual_sweep_of_def liquidity_result_def
      pool_to_schema_def make_pool_def final_state_matches_def pool_event_type_def side_for_def
      break_buffer_of_def penetration_of_def sweep_bars_def sweep_swing_def sample_bar_def
      sample_liquidity_config_def minutes_def seconds_def dec_evals Let_def)

end
