(* ===== verification/Signal_Schemas.thy ===== *)
theory Signal_Schemas
  imports Market_Data
begin

text \<open>
  \<open>schemas/signal.py\<close>: decisions, entry zones and the two public signal models, with the directional
  ordering of stop, entry zone and target that every later stage re-checks.
\<close>

datatype signal_decision = LONG | SHORT | NO_TRADE

fun decision_value :: "signal_decision \<Rightarrow> string" where
  "decision_value LONG = ''LONG''"
| "decision_value SHORT = ''SHORT''"
| "decision_value NO_TRADE = ''NO_TRADE''"

record entry_zone =
  ez_low :: price
  ez_high :: price

definition make_entry_zone :: "entry_zone \<Rightarrow> entry_zone result" where
  "make_entry_zone z =
     (if ez_low z \<le> 0 \<or> ez_high z \<le> 0 then Inl (ValidationError ''entry zone field'')
      else if ez_low z > ez_high z
      then Inl (ValidationError ''entry zone low must be less than or equal to high'')
      else Inr z)"

definition entry_zone_valid :: "entry_zone \<Rightarrow> bool" where
  "entry_zone_valid z \<longleftrightarrow> make_entry_zone z = Inr z"

lemma entry_zone_valid_iff [valid_defs]:
  "entry_zone_valid z \<longleftrightarrow> 0 < ez_low z \<and> ez_low z \<le> ez_high z"
  by (auto simp: entry_zone_valid_def make_entry_zone_def)

text \<open>The ordering \<open>stop < entry low <= entry high < target\<close>, mirrored for a short.\<close>

definition long_ordered :: "price \<Rightarrow> entry_zone \<Rightarrow> price \<Rightarrow> bool" where
  "long_ordered stop z target \<longleftrightarrow> stop < ez_low z \<and> ez_low z \<le> ez_high z \<and> ez_high z < target"

definition short_ordered :: "price \<Rightarrow> entry_zone \<Rightarrow> price \<Rightarrow> bool" where
  "short_ordered stop z target \<longleftrightarrow> target < ez_low z \<and> ez_low z \<le> ez_high z \<and> ez_high z < stop"

record signal_create =
  sc_symbol :: market_symbol
  sc_timeframe :: timeframe
  sc_decision :: signal_decision
  sc_entry_zone :: "entry_zone option"
  sc_take_profit :: "price option"
  sc_stop_loss :: "price option"
  sc_risk_reward :: "rat option"
  sc_reason_codes :: "string list"
  sc_data_cutoff_at :: utc_time

definition opt_pos :: "rat option \<Rightarrow> bool" where
  "opt_pos v = (case v of None \<Rightarrow> True | Some x \<Rightarrow> 0 < x)"

lemma opt_pos_simps [simp]: "opt_pos None" "opt_pos (Some x) \<longleftrightarrow> 0 < x"
  by (simp_all add: opt_pos_def)

definition validate_trade_levels :: "signal_create \<Rightarrow> signal_create result" where
  "validate_trade_levels s =
     (if sc_decision s = NO_TRADE
      then if sc_entry_zone s \<noteq> None \<or> sc_take_profit s \<noteq> None \<or> sc_stop_loss s \<noteq> None
              \<or> sc_risk_reward s \<noteq> None
           then Inl (ValidationError
             ''NO_TRADE must not include entry, take profit, stop loss, or risk/reward'')
           else Inr s
      else case (sc_entry_zone s, sc_take_profit s, sc_stop_loss s, sc_risk_reward s) of
        (Some z, Some tp, Some sl, Some rr) \<Rightarrow>
          if sc_decision s = LONG
          then if long_ordered sl z tp then Inr s
               else Inl (ValidationError
                 ''LONG levels must satisfy stop < entry low <= entry high < take profit'')
          else if short_ordered sl z tp then Inr s
               else Inl (ValidationError
                 ''SHORT levels must satisfy take profit < entry low <= entry high < stop'')
      | _ \<Rightarrow> Inl (ValidationError
          ''LONG and SHORT require one entry zone, one take profit, one stop loss, and risk/reward''))"

definition make_signal_create :: "signal_create \<Rightarrow> signal_create result" where
  "make_signal_create s =
     (if opt_pos (sc_take_profit s) \<and> opt_pos (sc_stop_loss s) \<and> opt_pos (sc_risk_reward s)
         \<and> sc_reason_codes s \<noteq> []
      then validate_trade_levels s else Inl (ValidationError ''signal field''))"

text \<open>
  The public evaluation: its identity comes from the market-data provenance, and a deterministic
  \<open>NO_TRADE\<close> is never upgraded. The provenance enters through the five fields the validator reads.
\<close>

record signal_evaluation =
  se_symbol :: market_symbol
  se_timeframe :: timeframe
  se_source :: string
  se_retrieved_at :: utc_time
  se_data_cutoff_at :: utc_time
  se_prov_symbol :: market_symbol
  se_prov_timeframe :: timeframe
  se_prov_provider :: string
  se_prov_retrieved_at :: utc_time
  se_prov_data_cutoff_at :: utc_time
  se_decision :: signal_decision
  se_algorithm_decision :: signal_decision
  se_final_decision :: signal_decision
  se_validated_at :: utc_time
  se_entry_min :: "price option"
  se_entry_max :: "price option"
  se_take_profit :: "price option"
  se_stop_loss :: "price option"
  se_risk_reward :: "rat option"
  se_algorithm_score :: "int option"
  se_score_breakdown :: "(string \<times> int) list"
  se_reason_codes :: "string list"

definition validate_evaluated_levels :: "signal_evaluation \<Rightarrow> signal_evaluation result" where
  "validate_evaluated_levels s =
     (if se_symbol s \<noteq> se_prov_symbol s \<or> se_timeframe s \<noteq> se_prov_timeframe s
         \<or> se_source s \<noteq> se_prov_provider s \<or> se_retrieved_at s \<noteq> se_prov_retrieved_at s
         \<or> se_data_cutoff_at s \<noteq> se_prov_data_cutoff_at s
      then Inl (ValidationError ''signal response identity must come from provenance'')
      else if se_decision s \<noteq> se_final_decision s
      then Inl (ValidationError ''decision alias must equal final_decision'')
      else if se_final_decision s \<noteq> se_algorithm_decision s
      then Inl (ValidationError ''deterministic-only final decision must equal the algorithm'')
      else if se_algorithm_decision s = NO_TRADE \<and> se_final_decision s \<noteq> NO_TRADE
      then Inl (ValidationError ''deterministic NO_TRADE cannot be upgraded'')
      else if se_final_decision s = NO_TRADE
      then if se_entry_min s \<noteq> None \<or> se_entry_max s \<noteq> None \<or> se_take_profit s \<noteq> None
              \<or> se_stop_loss s \<noteq> None \<or> se_risk_reward s \<noteq> None
           then Inl (ValidationError ''NO_TRADE evaluation cannot expose tradable levels'')
           else Inr s
      else case (se_entry_min s, se_entry_max s, se_take_profit s, se_stop_loss s,
                 se_risk_reward s, se_algorithm_score s) of
        (Some emin, Some emax, Some tp, Some sl, Some rr, Some score) \<Rightarrow>
          let z = \<lparr>ez_low = emin, ez_high = emax\<rparr>;
              ordered = (if se_final_decision s = LONG then long_ordered sl z tp
                         else short_ordered sl z tp)
          in if \<not> ordered then Inl (ValidationError ''evaluated levels are directionally invalid'')
             else Inr s
      | _ \<Rightarrow> Inl (ValidationError
          ''trade evaluation requires entry, one TP, one SL, RR, and score''))"

definition make_signal_evaluation :: "signal_evaluation \<Rightarrow> signal_evaluation result" where
  "make_signal_evaluation s =
     (if opt_pos (se_entry_min s) \<and> opt_pos (se_entry_max s) \<and> opt_pos (se_take_profit s)
         \<and> opt_pos (se_stop_loss s) \<and> opt_pos (se_risk_reward s) \<and> se_reason_codes s \<noteq> []
      then validate_evaluated_levels s else Inl (ValidationError ''evaluation field''))"

section \<open>What the models guarantee\<close>

lemma make_signal_create_id: "make_signal_create s = Inr s' \<Longrightarrow> s' = s"
  by (auto simp: make_signal_create_def validate_trade_levels_def
      split: if_splits option.splits prod.splits)

text \<open>
  An accepted public evaluation never upgrades the algorithm: all three decisions agree, a
  \<open>NO_TRADE\<close> carries no price level at all, and a trade carries its entry zone, one target and one
  stop in the order its direction requires.
\<close>

theorem signal_evaluation_consistent:
  assumes "make_signal_evaluation s = Inr s'"
  shows "s' = s \<and> se_decision s = se_algorithm_decision s \<and> se_final_decision s = se_algorithm_decision s
    \<and> (if se_algorithm_decision s = NO_TRADE
       then se_entry_min s = None \<and> se_entry_max s = None \<and> se_take_profit s = None
          \<and> se_stop_loss s = None \<and> se_risk_reward s = None
       else \<exists>emin emax tp sl rr score. se_entry_min s = Some emin \<and> se_entry_max s = Some emax
          \<and> se_take_profit s = Some tp \<and> se_stop_loss s = Some sl \<and> se_risk_reward s = Some rr
          \<and> se_algorithm_score s = Some score \<and> 0 < rr \<and> 0 < sl \<and> emin \<le> emax
          \<and> (if se_algorithm_decision s = LONG then sl < emin \<and> emax < tp
             else tp < emin \<and> emax < sl))"
  using assms
  by (auto simp: make_signal_evaluation_def validate_evaluated_levels_def Let_def
      long_ordered_def short_ordered_def split: if_splits option.splits)

definition sample_evaluation :: "signal_evaluation" where
  "sample_evaluation =
     \<lparr>se_symbol = BTCUSDT, se_timeframe = ONE_MINUTE, se_source = ''binance'',
      se_retrieved_at = 5, se_data_cutoff_at = 4, se_prov_symbol = BTCUSDT,
      se_prov_timeframe = ONE_MINUTE, se_prov_provider = ''binance'', se_prov_retrieved_at = 5,
      se_prov_data_cutoff_at = 4, se_decision = LONG, se_algorithm_decision = LONG,
      se_final_decision = LONG, se_validated_at = 5, se_entry_min = Some 10, se_entry_max = Some 11,
      se_take_profit = Some 14, se_stop_loss = Some 9, se_risk_reward = Some 2,
      se_algorithm_score = Some 70, se_score_breakdown = [], se_reason_codes = [''OK'']\<rparr>"

end
