(* ===== verification/Risk_Engine.thy ===== *)
theory Risk_Engine
  imports Signal_Schemas Liquidity
begin

text \<open>
  The risk engine: its data model (\<open>schemas/risk.py\<close>) and \<open>calculate_risk_plan\<close>
  (\<open>engines/risk/calculations.py\<close>), which selects one structural stop and one opposing-liquidity
  target for a candidate, or rejects it with one reason. All arithmetic runs under the default
  decimal context, so every sum, product and quotient is rounded as the code rounds it.
\<close>

datatype risk_direction = RISK_LONG | RISK_SHORT

datatype risk_decision = DECIDE_LONG | DECIDE_SHORT | DECIDE_NO_TRADE

datatype risk_entry_reference = MIDPOINT | NEAR_EDGE | FAR_EDGE

datatype risk_target_source = NEAREST_OPPOSING_LIQUIDITY

datatype risk_reason_code =
    RISK_ACCEPTED | CANDIDATE_NOT_AVAILABLE | ATR_UNAVAILABLE | STOP_LEVEL_INVALID
  | RISK_DISTANCE_BELOW_MINIMUM | RISK_DISTANCE_ABOVE_ATR_MAXIMUM
  | STRUCTURAL_TARGET_UNAVAILABLE | DIRECTIONAL_LEVELS_INVALID
  | REWARD_DISTANCE_INVALID | RR_BELOW_MINIMUM

record risk_config =
  rk_entry_reference :: risk_entry_reference
  rk_stop_buffer_ticks :: int
  rk_atr_buffer :: rat
  rk_min_distance_ticks :: int
  rk_max_distance_atr_ratio :: rat
  rk_target_source :: risk_target_source
  rk_target_min_distance_ticks :: int
  rk_min_rr :: rat

definition risk_config_valid :: "risk_config \<Rightarrow> bool" where
  "risk_config_valid c \<longleftrightarrow>
     0 \<le> rk_stop_buffer_ticks c \<and> 0 \<le> rk_atr_buffer c \<and> 1 \<le> rk_min_distance_ticks c
     \<and> 0 < rk_max_distance_atr_ratio c \<and> 1 \<le> rk_target_min_distance_ticks c \<and> 0 < rk_min_rr c"

record risk_candidate =
  rc_candidate_id :: string
  rc_direction :: risk_direction
  rc_entry_zone :: entry_zone
  rc_structural_invalidation_level :: price
  rc_structural_invalidation_source :: string
  rc_confirmed_at :: utc_time

definition make_risk_candidate :: "risk_candidate \<Rightarrow> risk_candidate result" where
  "make_risk_candidate c =
     (if rc_candidate_id c = '''' \<or> rc_structural_invalidation_level c \<le> 0
         \<or> rc_structural_invalidation_source c = ''''
      then Inl (ValidationError ''risk candidate field'')
      else if rc_direction c = RISK_LONG
      then if rc_structural_invalidation_level c \<ge> ez_low (rc_entry_zone c)
           then Inl (ValidationError ''LONG structural invalidation must be below entry zone'')
           else Inr c
      else if rc_structural_invalidation_level c \<le> ez_high (rc_entry_zone c)
           then Inl (ValidationError ''SHORT structural invalidation must be above entry zone'')
           else Inr c)"

definition risk_candidate_valid :: "risk_candidate \<Rightarrow> bool" where
  "risk_candidate_valid c \<longleftrightarrow> make_risk_candidate c = Inr c \<and> entry_zone_valid (rc_entry_zone c)"

record risk_metadata =
  rm_entry_method :: risk_entry_reference
  rm_entry_raw :: price
  rm_entry_rounding :: string
  rm_stop_source :: string
  rm_stop_source_id :: string
  rm_stop_structural_level :: price
  rm_stop_tick_buffer :: rat
  rm_stop_atr_buffer :: rat
  rm_stop_selected_buffer :: rat
  rm_stop_rounding :: string
  rm_target_source :: risk_target_source
  rm_target_source_id :: string
  rm_target_source_structure :: "string list"
  rm_target_raw_level :: price
  rm_target_rounding :: string
  rm_target_selection_rule :: string

definition make_risk_metadata :: "risk_metadata \<Rightarrow> risk_metadata result" where
  "make_risk_metadata m =
     (if 0 < rm_entry_raw m \<and> 0 < rm_stop_structural_level m \<and> 0 \<le> rm_stop_tick_buffer m
         \<and> 0 \<le> rm_stop_atr_buffer m \<and> 0 \<le> rm_stop_selected_buffer m \<and> 0 < rm_target_raw_level m
      then Inr m else Inl (ValidationError ''risk metadata field''))"

record risk_plan =
  rp_candidate_id :: string
  rp_decision :: risk_decision
  rp_decision_time :: utc_time
  rp_entry_zone :: "entry_zone option"
  rp_entry_reference :: "price option"
  rp_take_profit :: "price option"
  rp_stop_loss :: "price option"
  rp_risk :: "rat option"
  rp_reward :: "rat option"
  rp_risk_reward :: "rat option"
  rp_selection_metadata :: "risk_metadata option"
  rp_reason_codes :: "risk_reason_code list"

definition validate_plan :: "risk_plan \<Rightarrow> risk_plan result" where
  "validate_plan p =
     (if rp_decision p = DECIDE_NO_TRADE
      then if rp_entry_zone p \<noteq> None \<or> rp_entry_reference p \<noteq> None \<or> rp_take_profit p \<noteq> None
              \<or> rp_stop_loss p \<noteq> None \<or> rp_risk p \<noteq> None \<or> rp_reward p \<noteq> None
              \<or> rp_risk_reward p \<noteq> None \<or> rp_selection_metadata p \<noteq> None
           then Inl (ValidationError ''NO_TRADE risk plan must not expose tradable levels'')
           else Inr p
      else case (rp_entry_zone p, rp_entry_reference p, rp_take_profit p, rp_stop_loss p,
                 rp_risk p, rp_reward p, rp_risk_reward p, rp_selection_metadata p) of
        (Some z, Some entry, Some tp, Some sl, Some risk, Some reward, Some rr, Some m) \<Rightarrow>
          if rr \<noteq> ddiv reward risk
          then Inl (ValidationError ''risk_reward must equal reward / risk'')
          else if rp_decision p = DECIDE_LONG
          then if \<not> long_ordered sl z tp
               then Inl (ValidationError ''LONG levels are directionally invalid'')
               else if risk \<noteq> dsub entry sl
               then Inl (ValidationError ''LONG risk is inconsistent with entry and stop'')
               else if reward \<noteq> dsub tp entry
               then Inl (ValidationError ''LONG reward is inconsistent with entry and target'')
               else Inr p
          else if \<not> short_ordered sl z tp
               then Inl (ValidationError ''SHORT levels are directionally invalid'')
               else if risk \<noteq> dsub sl entry
               then Inl (ValidationError ''SHORT risk is inconsistent with entry and stop'')
               else if reward \<noteq> dsub entry tp
               then Inl (ValidationError ''SHORT reward is inconsistent with entry and target'')
               else Inr p
      | _ \<Rightarrow> Inl (ValidationError ''accepted risk plan requires exactly one entry, TP, and SL''))"

definition make_risk_plan :: "risk_plan \<Rightarrow> risk_plan result" where
  "make_risk_plan p =
     (if opt_pos (rp_entry_reference p) \<and> opt_pos (rp_take_profit p) \<and> opt_pos (rp_stop_loss p)
         \<and> opt_pos (rp_risk p) \<and> opt_pos (rp_reward p) \<and> opt_pos (rp_risk_reward p)
         \<and> rp_reason_codes p \<noteq> []
      then validate_plan p else Inl (ValidationError ''risk plan field''))"

section \<open>Rounding to the tick\<close>

definition round_nearest_tick :: "price \<Rightarrow> rat \<Rightarrow> price" where
  "round_nearest_tick v tick_size = dmul (integral_half_up (ddiv v tick_size)) tick_size"

definition floor_tick :: "price \<Rightarrow> rat \<Rightarrow> price" where
  "floor_tick v tick_size = dmul (integral_floor (ddiv v tick_size)) tick_size"

definition ceil_tick :: "price \<Rightarrow> rat \<Rightarrow> price" where
  "ceil_tick v tick_size = dmul (integral_ceiling (ddiv v tick_size)) tick_size"

section \<open>The plan\<close>

definition rejected :: "risk_candidate \<Rightarrow> risk_reason_code \<Rightarrow> risk_plan result" where
  "rejected c reason = make_risk_plan
     \<lparr>rp_candidate_id = rc_candidate_id c, rp_decision = DECIDE_NO_TRADE,
      rp_decision_time = rc_confirmed_at c, rp_entry_zone = None, rp_entry_reference = None,
      rp_take_profit = None, rp_stop_loss = None, rp_risk = None, rp_reward = None,
      rp_risk_reward = None, rp_selection_metadata = None, rp_reason_codes = [reason]\<rparr>"

definition entry_reference_raw :: "risk_candidate \<Rightarrow> risk_config \<Rightarrow> price" where
  "entry_reference_raw c cfg =
     (let z = rc_entry_zone c
      in case rk_entry_reference cfg of
           MIDPOINT \<Rightarrow> ddiv (dadd (ez_low z) (ez_high z)) 2
         | NEAR_EDGE \<Rightarrow> if rc_direction c = RISK_LONG then ez_high z else ez_low z
         | FAR_EDGE \<Rightarrow> if rc_direction c = RISK_LONG then ez_low z else ez_high z)"

definition visible_active :: "risk_candidate \<Rightarrow> liquidity_pool list \<Rightarrow> liquidity_pool list" where
  "visible_active c pools =
     filter (\<lambda>p. lp_created_at p \<le> rc_confirmed_at c \<and> lp_updated_at p \<le> rc_confirmed_at c
                \<and> lp_state p = POOL_ACTIVE) pools"

definition eligible_targets ::
  "risk_candidate \<Rightarrow> liquidity_pool list \<Rightarrow> price \<Rightarrow> risk_config \<Rightarrow> rat \<Rightarrow> liquidity_pool list" where
  "eligible_targets c pools entry_reference cfg tick_size =
     (let minimum = dmul (of_int (rk_target_min_distance_ticks cfg)) tick_size
      in if rc_direction c = RISK_LONG
         then filter (\<lambda>p. lp_direction p = BUY_SIDE
                \<and> lp_lower_bound p > dadd entry_reference minimum) (visible_active c pools)
         else filter (\<lambda>p. lp_direction p = SELL_SIDE
                \<and> lp_upper_bound p < dsub entry_reference minimum) (visible_active c pools))"

definition target_key :: "risk_candidate \<Rightarrow> liquidity_pool \<Rightarrow> rat \<times> utc_time \<times> string" where
  "target_key c p =
     (if rc_direction c = RISK_LONG then lp_lower_bound p else dneg (lp_upper_bound p),
      lp_created_at p, lp_pool_id p)"

definition select_target_pool ::
  "risk_candidate \<Rightarrow> liquidity_pool list \<Rightarrow> price \<Rightarrow> risk_config \<Rightarrow> rat \<Rightarrow> liquidity_pool option" where
  "select_target_pool c pools entry_reference cfg tick_size =
     min_by (target_key c) (eligible_targets c pools entry_reference cfg tick_size)"

text \<open>
  \<open>calculate_risk_plan\<close>, in the order of its guards and early returns. \<open>stop_levels\<close> is the part that
  selects the stop (the buffers, the rounded stop and the risk), \<open>finish_plan\<close> the part after the
  target pool has been selected.
\<close>

record stop_levels =
  sl_tick_buffer :: rat
  sl_atr_buffer :: rat
  sl_selected_buffer :: rat
  sl_stop_loss :: price
  sl_risk :: rat

definition compute_stop ::
  "risk_candidate \<Rightarrow> risk_config \<Rightarrow> rat \<Rightarrow> rat option \<Rightarrow> price \<Rightarrow> stop_levels" where
  "compute_stop c cfg tick_size atr_at_decision entry_reference =
     (let tick_buffer = dmul (of_int (rk_stop_buffer_ticks cfg)) tick_size;
          atr_buffer = (case atr_at_decision of None \<Rightarrow> 0 | Some atr \<Rightarrow> dmul (rk_atr_buffer cfg) atr);
          selected_buffer = max tick_buffer atr_buffer;
          structural_level = rc_structural_invalidation_level c;
          stop_loss = (if rc_direction c = RISK_LONG
            then floor_tick (dsub structural_level selected_buffer) tick_size
            else ceil_tick (dadd structural_level selected_buffer) tick_size);
          risk = (if rc_direction c = RISK_LONG then dsub entry_reference stop_loss
                  else dsub stop_loss entry_reference)
      in \<lparr>sl_tick_buffer = tick_buffer, sl_atr_buffer = atr_buffer,
          sl_selected_buffer = selected_buffer, sl_stop_loss = stop_loss, sl_risk = risk\<rparr>)"

definition selection_metadata ::
  "risk_candidate \<Rightarrow> risk_config \<Rightarrow> price \<Rightarrow> stop_levels \<Rightarrow> liquidity_pool \<Rightarrow> price \<Rightarrow> risk_metadata" where
  "selection_metadata c cfg entry_raw s target_pool target_raw =
     (let is_long = (rc_direction c = RISK_LONG) in
      \<lparr>rm_entry_method = rk_entry_reference cfg, rm_entry_raw = entry_raw,
       rm_entry_rounding = ''ROUND_HALF_UP_TO_TICK'',
       rm_stop_source = ''SETUP_STRUCTURAL_INVALIDATION'',
       rm_stop_source_id = rc_structural_invalidation_source c,
       rm_stop_structural_level = rc_structural_invalidation_level c,
       rm_stop_tick_buffer = sl_tick_buffer s, rm_stop_atr_buffer = sl_atr_buffer s,
       rm_stop_selected_buffer = sl_selected_buffer s,
       rm_stop_rounding = (if is_long then ''ROUND_FLOOR_TO_TICK'' else ''ROUND_CEILING_TO_TICK''),
       rm_target_source = rk_target_source cfg, rm_target_source_id = lp_pool_id target_pool,
       rm_target_source_structure = lp_source_structure target_pool,
       rm_target_raw_level = target_raw,
       rm_target_rounding = (if is_long then ''ROUND_FLOOR_TO_TICK'' else ''ROUND_CEILING_TO_TICK''),
       rm_target_selection_rule = ''nearest active opposing liquidity in the ''
         @ (if is_long then ''long'' else ''short'')
         @ '' reward direction; ties use created_at then pool_id''\<rparr>)"

definition accepted_plan ::
  "risk_candidate \<Rightarrow> price \<Rightarrow> price \<Rightarrow> price \<Rightarrow> rat \<Rightarrow> rat \<Rightarrow> rat \<Rightarrow> risk_metadata \<Rightarrow> risk_plan" where
  "accepted_plan c entry_reference take_profit stop_loss risk reward risk_reward metadata =
     \<lparr>rp_candidate_id = rc_candidate_id c,
      rp_decision = (if rc_direction c = RISK_LONG then DECIDE_LONG else DECIDE_SHORT),
      rp_decision_time = rc_confirmed_at c, rp_entry_zone = Some (rc_entry_zone c),
      rp_entry_reference = Some entry_reference, rp_take_profit = Some take_profit,
      rp_stop_loss = Some stop_loss, rp_risk = Some risk, rp_reward = Some reward,
      rp_risk_reward = Some risk_reward, rp_selection_metadata = Some metadata,
      rp_reason_codes = [RISK_ACCEPTED]\<rparr>"

definition finish_plan ::
  "risk_candidate \<Rightarrow> risk_config \<Rightarrow> rat \<Rightarrow> price \<Rightarrow> price \<Rightarrow> stop_levels \<Rightarrow> liquidity_pool \<Rightarrow> risk_plan result" where
  "finish_plan c cfg tick_size entry_raw entry_reference s target_pool =
     (let is_long = (rc_direction c = RISK_LONG);
          target_raw = (if is_long then lp_lower_bound target_pool else lp_upper_bound target_pool);
          take_profit = (if is_long then floor_tick target_raw tick_size
                         else ceil_tick target_raw tick_size);
          reward = (if is_long then dsub take_profit entry_reference
                    else dsub entry_reference take_profit);
          ordered = (if is_long then long_ordered (sl_stop_loss s) (rc_entry_zone c) take_profit
                     else short_ordered (sl_stop_loss s) (rc_entry_zone c) take_profit)
      in if \<not> ordered then rejected c DIRECTIONAL_LEVELS_INVALID
         else if reward \<le> 0 then rejected c REWARD_DISTANCE_INVALID
         else let risk_reward = ddiv reward (sl_risk s)
         in if risk_reward < rk_min_rr cfg then rejected c RR_BELOW_MINIMUM
         else bind_result (make_risk_metadata
                (selection_metadata c cfg entry_raw s target_pool target_raw))
              (\<lambda>metadata. make_risk_plan (accepted_plan c entry_reference take_profit
                 (sl_stop_loss s) (sl_risk s) reward risk_reward metadata)))"

definition calculate_risk_plan ::
  "risk_candidate \<Rightarrow> liquidity_pool list \<Rightarrow> risk_config \<Rightarrow> rat \<Rightarrow> rat option \<Rightarrow> risk_plan result" where
  "calculate_risk_plan c pools cfg tick_size atr_at_decision =
    (if tick_size \<le> 0 then Inl (ValueError ''tick_size must be finite and positive'')
     else if (case atr_at_decision of None \<Rightarrow> False | Some atr \<Rightarrow> atr \<le> 0)
     then Inl (ValueError ''atr_at_decision must be finite and positive when supplied'')
     else if list_ex (\<lambda>p. lp_created_at p \<le> rc_confirmed_at c
             \<and> rc_confirmed_at c < lp_updated_at p) pools
     then Inl (RiskInputError
       ''liquidity pools must be point-in-time snapshots at the candidate confirmation'')
     else let
       entry_raw = entry_reference_raw c cfg;
       entry_reference = round_nearest_tick entry_raw tick_size
     in if rk_atr_buffer cfg > 0 \<and> atr_at_decision = None then rejected c ATR_UNAVAILABLE
     else let s = compute_stop c cfg tick_size atr_at_decision entry_reference
     in if sl_stop_loss s \<le> 0 \<or> sl_risk s \<le> 0 then rejected c STOP_LEVEL_INVALID
     else if sl_risk s < dmul (of_int (rk_min_distance_ticks cfg)) tick_size
     then rejected c RISK_DISTANCE_BELOW_MINIMUM
     else case atr_at_decision of
       None \<Rightarrow> rejected c ATR_UNAVAILABLE
     | Some atr \<Rightarrow>
         if ddiv (sl_risk s) atr > rk_max_distance_atr_ratio cfg
         then rejected c RISK_DISTANCE_ABOVE_ATR_MAXIMUM
         else case select_target_pool c pools entry_reference cfg tick_size of
           None \<Rightarrow> rejected c STRUCTURAL_TARGET_UNAVAILABLE
         | Some target_pool \<Rightarrow>
             finish_plan c cfg tick_size entry_raw entry_reference s target_pool)"

section \<open>Lemmas\<close>

lemma rejected_eq:
  "rejected c reason = Inr
     \<lparr>rp_candidate_id = rc_candidate_id c, rp_decision = DECIDE_NO_TRADE,
      rp_decision_time = rc_confirmed_at c, rp_entry_zone = None, rp_entry_reference = None,
      rp_take_profit = None, rp_stop_loss = None, rp_risk = None, rp_reward = None,
      rp_risk_reward = None, rp_selection_metadata = None, rp_reason_codes = [reason]\<rparr>"
  by (simp add: rejected_def make_risk_plan_def validate_plan_def)

lemma risk_candidate_valid_iff [valid_defs]:
  "risk_candidate_valid c \<longleftrightarrow>
     rc_candidate_id c \<noteq> '''' \<and> 0 < rc_structural_invalidation_level c
     \<and> rc_structural_invalidation_source c \<noteq> '''' \<and> entry_zone_valid (rc_entry_zone c)
     \<and> (if rc_direction c = RISK_LONG
        then rc_structural_invalidation_level c < ez_low (rc_entry_zone c)
        else ez_high (rc_entry_zone c) < rc_structural_invalidation_level c)"
  by (auto simp: risk_candidate_valid_def make_risk_candidate_def)

lemma entry_reference_raw_pos:
  "entry_zone_valid (rc_entry_zone c) \<Longrightarrow> 0 < entry_reference_raw c cfg"
  by (auto simp: entry_reference_raw_def entry_zone_valid_iff Let_def ddiv_def dadd_def
      split: risk_entry_reference.splits)

text \<open>The guards of the code: the three inputs it refuses with an exception.\<close>

definition risk_inputs_ok ::
  "risk_candidate \<Rightarrow> liquidity_pool list \<Rightarrow> rat \<Rightarrow> rat option \<Rightarrow> bool" where
  "risk_inputs_ok c pools tick_size atr \<longleftrightarrow>
     0 < tick_size \<and> (\<forall>a. atr = Some a \<longrightarrow> 0 < a)
     \<and> (\<forall>p\<in>set pools. \<not> (lp_created_at p \<le> rc_confirmed_at c \<and> rc_confirmed_at c < lp_updated_at p))"

lemma calculate_risk_plan_guarded:
  "\<not> risk_inputs_ok c pools tick_size atr \<Longrightarrow>
     \<exists>e. calculate_risk_plan c pools cfg tick_size atr = Inl e"
  by (auto simp: calculate_risk_plan_def risk_inputs_ok_def list_ex_iff split: option.splits)

text \<open>
  An outcome of the engine is a rejection with one reason, or the accepted plan whose numbers satisfy
  every guard of the code.
\<close>

definition accepted_by ::
  "risk_candidate \<Rightarrow> liquidity_pool list \<Rightarrow> risk_config \<Rightarrow> rat \<Rightarrow> rat option \<Rightarrow> risk_plan \<Rightarrow> bool" where
  "accepted_by c pools cfg tick_size atr p \<longleftrightarrow>
     (\<exists>entry tp sl risk reward rr m a pool.
        rp_decision p = (if rc_direction c = RISK_LONG then DECIDE_LONG else DECIDE_SHORT)
        \<and> rp_candidate_id p = rc_candidate_id c \<and> rp_decision_time p = rc_confirmed_at c
        \<and> rp_reason_codes p = [RISK_ACCEPTED]
        \<and> rp_entry_zone p = Some (rc_entry_zone c) \<and> rp_entry_reference p = Some entry
        \<and> rp_take_profit p = Some tp \<and> rp_stop_loss p = Some sl \<and> rp_risk p = Some risk
        \<and> rp_reward p = Some reward \<and> rp_risk_reward p = Some rr
        \<and> rp_selection_metadata p = Some m
        \<and> entry = round_nearest_tick (entry_reference_raw c cfg) tick_size
        \<and> atr = Some a \<and> select_target_pool c pools entry cfg tick_size = Some pool
        \<and> rm_target_source_id m = lp_pool_id pool
        \<and> 0 < sl \<and> 0 < risk \<and> 0 < reward \<and> rr = ddiv reward risk \<and> rk_min_rr cfg \<le> rr
        \<and> dmul (of_int (rk_min_distance_ticks cfg)) tick_size \<le> risk
        \<and> ddiv risk a \<le> rk_max_distance_atr_ratio cfg
        \<and> (if rc_direction c = RISK_LONG
           then long_ordered sl (rc_entry_zone c) tp \<and> risk = dsub entry sl \<and> reward = dsub tp entry
              \<and> tp = floor_tick (lp_lower_bound pool) tick_size
           else short_ordered sl (rc_entry_zone c) tp \<and> risk = dsub sl entry \<and> reward = dsub entry tp
              \<and> tp = ceil_tick (lp_upper_bound pool) tick_size))"

lemma select_target_pool_mem:
  "select_target_pool c pools entry cfg tick_size = Some p \<Longrightarrow> p \<in> set pools"
  by (auto simp: select_target_pool_def eligible_targets_def visible_active_def Let_def
      dest!: min_by_mem split: if_splits)

lemma ceil_tick_pos: "0 < v \<Longrightarrow> 0 < tick_size \<Longrightarrow> 0 < ceil_tick v tick_size"
  by (simp add: ceil_tick_def integral_ceiling_def dmul_def ddiv_def)

lemma compute_stop_buffers_nonneg:
  assumes "risk_config_valid cfg" "0 < tick_size" "\<forall>a. atr = Some a \<longrightarrow> 0 < a"
  shows "0 \<le> sl_tick_buffer (compute_stop c cfg tick_size atr e)"
    "0 \<le> sl_atr_buffer (compute_stop c cfg tick_size atr e)"
    "0 \<le> sl_selected_buffer (compute_stop c cfg tick_size atr e)"
  using assms by (auto simp: compute_stop_def Let_def risk_config_valid_def le_max_iff_disj
      dmul_nonneg split: option.splits)

lemma compute_stop_risk:
  "sl_risk (compute_stop c cfg tick_size atr e) =
     (if rc_direction c = RISK_LONG then dsub e (sl_stop_loss (compute_stop c cfg tick_size atr e))
      else dsub (sl_stop_loss (compute_stop c cfg tick_size atr e)) e)"
  by (simp add: compute_stop_def Let_def)

lemma make_accepted_plan:
  assumes "0 < sl" "0 < risk" "0 < reward" "0 < tp" "rr = ddiv reward risk"
    and "if rc_direction c = RISK_LONG
      then long_ordered sl (rc_entry_zone c) tp \<and> risk = dsub e sl \<and> reward = dsub tp e
      else short_ordered sl (rc_entry_zone c) tp \<and> risk = dsub sl e \<and> reward = dsub e tp"
  shows "make_risk_plan (accepted_plan c e tp sl risk reward rr m)
       = Inr (accepted_plan c e tp sl risk reward rr m)"
proof -
  have "0 < e" using assms by (auto split: if_splits)
  with assms show ?thesis
    by (auto simp: make_risk_plan_def validate_plan_def accepted_plan_def ddiv_pos split: if_splits)
qed

lemma finish_plan_outcome:
  assumes c: "risk_candidate_valid c" and raw: "0 < raw" and t: "0 < tick_size"
    and s: "0 < sl_stop_loss s" "0 < sl_risk s"
      "sl_risk s = (if rc_direction c = RISK_LONG then dsub e (sl_stop_loss s)
         else dsub (sl_stop_loss s) e)"
      "0 \<le> sl_tick_buffer s" "0 \<le> sl_atr_buffer s" "0 \<le> sl_selected_buffer s"
    and pool: "0 < lp_lower_bound pool" "0 < lp_upper_bound pool"
  shows "(\<exists>reason. reason \<noteq> RISK_ACCEPTED
           \<and> finish_plan c cfg tick_size raw e s pool = rejected c reason)
     \<or> (\<exists>tp reward m. finish_plan c cfg tick_size raw e s pool
            = Inr (accepted_plan c e tp (sl_stop_loss s) (sl_risk s) reward (ddiv reward (sl_risk s)) m)
          \<and> rm_target_source_id m = lp_pool_id pool \<and> 0 < reward
          \<and> rk_min_rr cfg \<le> ddiv reward (sl_risk s)
          \<and> (if rc_direction c = RISK_LONG
             then long_ordered (sl_stop_loss s) (rc_entry_zone c) tp \<and> reward = dsub tp e
                \<and> tp = floor_tick (lp_lower_bound pool) tick_size
             else short_ordered (sl_stop_loss s) (rc_entry_zone c) tp \<and> reward = dsub e tp
                \<and> tp = ceil_tick (lp_upper_bound pool) tick_size))"
proof -
  let ?long = "rc_direction c = RISK_LONG"
  define traw where "traw = (if ?long then lp_lower_bound pool else lp_upper_bound pool)"
  define tp where "tp = (if ?long then floor_tick traw tick_size else ceil_tick traw tick_size)"
  define reward where "reward = (if ?long then dsub tp e else dsub e tp)"
  define rr where "rr = ddiv reward (sl_risk s)"
  define ordered where "ordered \<longleftrightarrow> (if ?long then long_ordered (sl_stop_loss s) (rc_entry_zone c) tp
    else short_ordered (sl_stop_loss s) (rc_entry_zone c) tp)"
  define m where "m = selection_metadata c cfg raw s pool traw"
  have def: "finish_plan c cfg tick_size raw e s pool =
      (if \<not> ordered then rejected c DIRECTIONAL_LEVELS_INVALID
       else if reward \<le> 0 then rejected c REWARD_DISTANCE_INVALID
       else if rr < rk_min_rr cfg then rejected c RR_BELOW_MINIMUM
       else bind_result (make_risk_metadata m) (\<lambda>m. make_risk_plan
         (accepted_plan c e tp (sl_stop_loss s) (sl_risk s) reward rr m)))"
    by (simp add: finish_plan_def Let_def traw_def tp_def reward_def rr_def ordered_def m_def)
  show ?thesis
  proof (cases "ordered \<and> 0 < reward \<and> rk_min_rr cfg \<le> rr")
    case False
    then consider "\<not> ordered" | "ordered" "reward \<le> 0" | "ordered" "0 < reward" "rr < rk_min_rr cfg"
      by fastforce
    then have "finish_plan c cfg tick_size raw e s pool = rejected c DIRECTIONAL_LEVELS_INVALID
      \<or> finish_plan c cfg tick_size raw e s pool = rejected c REWARD_DISTANCE_INVALID
      \<or> finish_plan c cfg tick_size raw e s pool = rejected c RR_BELOW_MINIMUM"
      unfolding def by cases simp_all
    then have "\<exists>reason. reason \<noteq> RISK_ACCEPTED
        \<and> finish_plan c cfg tick_size raw e s pool = rejected c reason"
      by blast
    then show ?thesis by blast
  next
    case True
    have "0 < traw" using pool by (simp add: traw_def)
    moreover have "0 < rc_structural_invalidation_level c" using c by (simp add: valid_defs)
    ultimately have "make_risk_metadata m = Inr m"
      using raw s by (simp add: make_risk_metadata_def m_def selection_metadata_def Let_def)
    moreover have "0 < tp"
    proof (cases ?long)
      case True
      with \<open>ordered \<and> _\<close> s(1) show ?thesis by (auto simp: ordered_def long_ordered_def)
    next
      case False
      with \<open>0 < traw\<close> t show ?thesis by (simp add: tp_def ceil_tick_pos)
    qed
    then have "make_risk_plan (accepted_plan c e tp (sl_stop_loss s) (sl_risk s) reward rr m)
        = Inr (accepted_plan c e tp (sl_stop_loss s) (sl_risk s) reward rr m)"
      using True s by (intro make_accepted_plan) (auto simp: ordered_def reward_def rr_def)
    moreover have "rm_target_source_id m = lp_pool_id pool"
      by (simp add: m_def selection_metadata_def Let_def)
    ultimately have "finish_plan c cfg tick_size raw e s pool
        = Inr (accepted_plan c e tp (sl_stop_loss s) (sl_risk s) reward rr m)"
      and "rm_target_source_id m = lp_pool_id pool"
      using True def by simp_all
    moreover have "if ?long then long_ordered (sl_stop_loss s) (rc_entry_zone c) tp
          \<and> reward = dsub tp e \<and> tp = floor_tick (lp_lower_bound pool) tick_size
        else short_ordered (sl_stop_loss s) (rc_entry_zone c) tp
          \<and> reward = dsub e tp \<and> tp = ceil_tick (lp_upper_bound pool) tick_size"
      using True unfolding ordered_def
      by (cases ?long) (simp_all only: if_True if_False reward_def tp_def traw_def simp_thms)
    ultimately show ?thesis
      using True unfolding rr_def by blast
  qed
qed

text \<open>Every run that passes the guards ends in a rejection with one reason, or in an accepted plan.\<close>

lemma calculate_risk_plan_outcome:
  assumes ok: "risk_inputs_ok c pools tick_size atr" and c: "risk_candidate_valid c"
    and cfg: "risk_config_valid cfg"
    and pools: "\<forall>p\<in>set pools. 0 < lp_lower_bound p \<and> 0 < lp_upper_bound p"
  shows "(\<exists>reason. reason \<noteq> RISK_ACCEPTED \<and>
            calculate_risk_plan c pools cfg tick_size atr = rejected c reason)
       \<or> (\<exists>p. calculate_risk_plan c pools cfg tick_size atr = Inr p
            \<and> accepted_by c pools cfg tick_size atr p)"
proof -
  define Q where "Q r \<longleftrightarrow> (\<exists>reason. reason \<noteq> RISK_ACCEPTED \<and> r = rejected c reason)
    \<or> (\<exists>p. r = Inr p \<and> accepted_by c pools cfg tick_size atr p)" for r
  define e where "e = round_nearest_tick (entry_reference_raw c cfg) tick_size"
  define s where "s = compute_stop c cfg tick_size atr e"
  have guards: "\<not> tick_size \<le> 0"
    "\<not> (case atr of None \<Rightarrow> False | Some a \<Rightarrow> a \<le> 0)"
    "\<not> list_ex (\<lambda>p. lp_created_at p \<le> rc_confirmed_at c \<and> rc_confirmed_at c < lp_updated_at p) pools"
    using ok by (auto simp: risk_inputs_ok_def list_ex_iff split: option.splits)
  have raw: "0 < entry_reference_raw c cfg"
    using c by (intro entry_reference_raw_pos) (simp add: risk_candidate_valid_iff)
  have Q_rejected: "Q (rejected c r)" if "r \<noteq> RISK_ACCEPTED" for r using that by (auto simp: Q_def)
  have Q_if: "Q (if b then x else y)" if "b \<Longrightarrow> Q x" "\<not> b \<Longrightarrow> Q y" for b x y using that by simp
  have Q_option: "Q (case o' of None \<Rightarrow> x | Some a \<Rightarrow> f a)"
    if "o' = None \<Longrightarrow> Q x" "\<And>a. o' = Some a \<Longrightarrow> Q (f a)" for o' :: "'z option" and x f
    using that by (cases o') auto
  have Q_finish: "Q (finish_plan c cfg tick_size (entry_reference_raw c cfg) e s pool)"
    if atr: "atr = Some a" and pool: "select_target_pool c pools e cfg tick_size = Some pool"
      and stop: "\<not> (sl_stop_loss s \<le> 0 \<or> sl_risk s \<le> 0)"
      and min: "\<not> sl_risk s < dmul (of_int (rk_min_distance_ticks cfg)) tick_size"
      and max: "\<not> rk_max_distance_atr_ratio cfg < ddiv (sl_risk s) a" for a pool
  proof -
    have "0 < lp_lower_bound pool" "0 < lp_upper_bound pool"
      using select_target_pool_mem [OF pool] pools by auto
    moreover have "0 < tick_size" "\<forall>x. atr = Some x \<longrightarrow> 0 < x"
      using ok by (simp_all add: risk_inputs_ok_def)
    moreover note buffers = compute_stop_buffers_nonneg [OF cfg calculation(3,4), of c e]
    ultimately have "(\<exists>reason. reason \<noteq> RISK_ACCEPTED
           \<and> finish_plan c cfg tick_size (entry_reference_raw c cfg) e s pool = rejected c reason)
     \<or> (\<exists>tp reward m. finish_plan c cfg tick_size (entry_reference_raw c cfg) e s pool
            = Inr (accepted_plan c e tp (sl_stop_loss s) (sl_risk s) reward (ddiv reward (sl_risk s)) m)
          \<and> rm_target_source_id m = lp_pool_id pool \<and> 0 < reward
          \<and> rk_min_rr cfg \<le> ddiv reward (sl_risk s)
          \<and> (if rc_direction c = RISK_LONG
             then long_ordered (sl_stop_loss s) (rc_entry_zone c) tp \<and> reward = dsub tp e
                \<and> tp = floor_tick (lp_lower_bound pool) tick_size
             else short_ordered (sl_stop_loss s) (rc_entry_zone c) tp \<and> reward = dsub e tp
                \<and> tp = ceil_tick (lp_upper_bound pool) tick_size))"
      using stop by (intro finish_plan_outcome c raw) (simp_all add: s_def compute_stop_risk)
    then show ?thesis
    proof (elim disjE exE conjE)
      fix tp reward m
      assume plan: "finish_plan c cfg tick_size (entry_reference_raw c cfg) e s pool
            = Inr (accepted_plan c e tp (sl_stop_loss s) (sl_risk s) reward (ddiv reward (sl_risk s)) m)"
        and facts: "rm_target_source_id m = lp_pool_id pool" "0 < reward"
          "rk_min_rr cfg \<le> ddiv reward (sl_risk s)"
          "if rc_direction c = RISK_LONG
             then long_ordered (sl_stop_loss s) (rc_entry_zone c) tp \<and> reward = dsub tp e
                \<and> tp = floor_tick (lp_lower_bound pool) tick_size
             else short_ordered (sl_stop_loss s) (rc_entry_zone c) tp \<and> reward = dsub e tp
                \<and> tp = ceil_tick (lp_upper_bound pool) tick_size"
      have "accepted_by c pools cfg tick_size atr
          (accepted_plan c e tp (sl_stop_loss s) (sl_risk s) reward (ddiv reward (sl_risk s)) m)"
        unfolding accepted_by_def
        using facts atr pool stop min max compute_stop_risk [of c cfg tick_size atr e, folded s_def]
        by (auto simp: accepted_plan_def e_def not_le not_less)
      with plan show ?thesis by (auto simp: Q_def)
    qed (auto simp: Q_def)
  qed
  show ?thesis
    unfolding Q_def [symmetric]
    unfolding calculate_risk_plan_def if_not_P [OF guards(1)] if_not_P [OF guards(2)]
      if_not_P [OF guards(3)] Let_def e_def [symmetric] s_def [symmetric]
    by (intro Q_if Q_option Q_rejected Q_finish) simp_all
qed

section \<open>Properties\<close>

text \<open>
  The risk engine is total behind its guards: for valid inputs it returns a plan, which is a
  rejection with exactly one reason and no tradable level, or an accepted plan in the direction of the
  candidate with every level present. Its own validators never reject what it builds.
\<close>

theorem risk_plan_total:
  assumes "risk_inputs_ok c pools tick_size atr" "risk_candidate_valid c" "risk_config_valid cfg"
    and "\<forall>p\<in>set pools. pool_valid p"
  shows "\<exists>p. calculate_risk_plan c pools cfg tick_size atr = Inr p
     \<and> rp_candidate_id p = rc_candidate_id c \<and> rp_decision_time p = rc_confirmed_at c
     \<and> (if rp_decision p = DECIDE_NO_TRADE
        then (\<exists>reason. reason \<noteq> RISK_ACCEPTED \<and> rp_reason_codes p = [reason])
           \<and> rp_entry_zone p = None \<and> rp_entry_reference p = None \<and> rp_take_profit p = None
           \<and> rp_stop_loss p = None \<and> rp_risk p = None \<and> rp_reward p = None
           \<and> rp_risk_reward p = None \<and> rp_selection_metadata p = None
        else rp_decision p = (if rc_direction c = RISK_LONG then DECIDE_LONG else DECIDE_SHORT)
           \<and> rp_reason_codes p = [RISK_ACCEPTED] \<and> rp_entry_zone p = Some (rc_entry_zone c))"
proof -
  have pools: "\<forall>p\<in>set pools. 0 < lp_lower_bound p \<and> 0 < lp_upper_bound p"
    using assms(4) by (simp add: pool_valid_iff)
  from calculate_risk_plan_outcome [OF assms(1-3) this] show ?thesis
    by (elim disjE exE conjE) (auto simp: rejected_eq accepted_by_def)
qed

text \<open>
  C2: What an accepted plan guarantees: the reward to risk ratio reaches the configured minimum, the
  risk distance is at least the minimum number of ticks and at most the configured multiple of the
  ATR, the stop, the entry zone and the target are strictly ordered in the direction of the trade,
  and risk, reward and their ratio are those of the levels.
\<close>

theorem risk_plan_accepted:
  assumes "risk_inputs_ok c pools tick_size atr" "risk_candidate_valid c" "risk_config_valid cfg"
    and "\<forall>p\<in>set pools. pool_valid p"
    and "calculate_risk_plan c pools cfg tick_size atr = Inr p"
    and "rp_decision p \<noteq> DECIDE_NO_TRADE"
  shows "\<exists>entry tp sl risk reward a.
     rp_entry_reference p = Some entry \<and> rp_take_profit p = Some tp \<and> rp_stop_loss p = Some sl
     \<and> rp_risk p = Some risk \<and> rp_reward p = Some reward \<and> atr = Some a
     \<and> rp_risk_reward p = Some (ddiv reward risk) \<and> rk_min_rr cfg \<le> ddiv reward risk
     \<and> 0 < sl \<and> 0 < risk \<and> 0 < reward
     \<and> dmul (of_int (rk_min_distance_ticks cfg)) tick_size \<le> risk
     \<and> ddiv risk a \<le> rk_max_distance_atr_ratio cfg
     \<and> (if rc_direction c = RISK_LONG
        then long_ordered sl (rc_entry_zone c) tp \<and> risk = dsub entry sl \<and> reward = dsub tp entry
        else short_ordered sl (rc_entry_zone c) tp \<and> risk = dsub sl entry \<and> reward = dsub entry tp)"
proof -
  have "\<forall>p\<in>set pools. 0 < lp_lower_bound p \<and> 0 < lp_upper_bound p"
    using assms(4) by (simp add: pool_valid_iff)
  from calculate_risk_plan_outcome [OF assms(1-3) this] assms(5,6)
  have "accepted_by c pools cfg tick_size atr p" by (auto simp: rejected_eq)
  then show ?thesis unfolding accepted_by_def
    by (elim exE conjE) (intro exI conjI, assumption+, auto split: if_splits)
qed

lemma select_target_pool_nearest:
  assumes sel: "select_target_pool c pools entry cfg tick_size = Some pool"
    and q: "q \<in> set (eligible_targets c pools entry cfg tick_size)"
  shows "if rc_direction c = RISK_LONG
     then lp_lower_bound pool < lp_lower_bound q
       \<or> lp_lower_bound pool = lp_lower_bound q \<and> (lp_created_at pool < lp_created_at q
          \<or> lp_created_at pool = lp_created_at q \<and> lp_pool_id pool \<le> lp_pool_id q)
     else rnd (lp_upper_bound q) < rnd (lp_upper_bound pool)
       \<or> rnd (lp_upper_bound q) = rnd (lp_upper_bound pool) \<and> (lp_created_at pool < lp_created_at q
          \<or> lp_created_at pool = lp_created_at q \<and> lp_pool_id pool \<le> lp_pool_id q)"
proof -
  have "target_key c pool \<le> target_key c q"
    using min_by_least [OF sel [unfolded select_target_pool_def] q] .
  then show ?thesis
    by (auto simp: target_key_def less_eq_prod_def dneg_def rnd_minus order_le_less split: if_splits)
qed

lemma accepted_plan_no_stale_pool:
  assumes "calculate_risk_plan c pools cfg tick_size atr = Inr p" "q \<in> set pools"
    and "lp_created_at q \<le> rc_confirmed_at c"
  shows "lp_updated_at q \<le> rc_confirmed_at c"
proof (rule ccontr)
  assume "\<not> lp_updated_at q \<le> rc_confirmed_at c"
  then have "list_ex (\<lambda>p. lp_created_at p \<le> rc_confirmed_at c
      \<and> rc_confirmed_at c < lp_updated_at p) pools"
    using assms(2,3) by (auto simp: list_ex_iff not_le)
  then show False using assms(1) by (simp add: calculate_risk_plan_def split: if_splits)
qed

text \<open>
  C8: The target of an accepted plan is the level of the nearest active pool on the opposing side.
  The pool existed, and was last changed, no later than the confirmation; it is active; its level is
  beyond the entry reference by more than the configured minimum number of ticks. Every other pool of
  that kind is farther away: a long takes the lowest such lower bound above the entry, a short the
  highest such upper bound below it. Pools at the same level are ordered by creation time and then by
  pool id. (A short compares the levels as rounded by the decimal context, since the code sorts by
  \<open>-upper_bound\<close>; a level of at most 28 digits is its own rounding.)
\<close>

theorem risk_target_nearest:
  assumes "risk_inputs_ok c pools tick_size atr" "risk_candidate_valid c" "risk_config_valid cfg"
    and "\<forall>p\<in>set pools. pool_valid p"
    and "calculate_risk_plan c pools cfg tick_size atr = Inr p"
    and "rp_decision p \<noteq> DECIDE_NO_TRADE"
  shows "\<exists>pool entry m. pool \<in> set pools \<and> rp_selection_metadata p = Some m
     \<and> rm_target_source_id m = lp_pool_id pool \<and> rp_entry_reference p = Some entry
     \<and> rp_take_profit p = Some (if rc_direction c = RISK_LONG
          then floor_tick (lp_lower_bound pool) tick_size
          else ceil_tick (lp_upper_bound pool) tick_size)
     \<and> lp_created_at pool \<le> rc_confirmed_at c \<and> lp_updated_at pool \<le> rc_confirmed_at c
     \<and> lp_state pool = POOL_ACTIVE
     \<and> lp_direction pool = (if rc_direction c = RISK_LONG then BUY_SIDE else SELL_SIDE)
     \<and> (if rc_direction c = RISK_LONG
        then dadd entry (dmul (of_int (rk_target_min_distance_ticks cfg)) tick_size) < lp_lower_bound pool
          \<and> (\<forall>q\<in>set pools. lp_created_at q \<le> rc_confirmed_at c \<and> lp_state q = POOL_ACTIVE
               \<and> lp_direction q = BUY_SIDE
               \<and> dadd entry (dmul (of_int (rk_target_min_distance_ticks cfg)) tick_size) < lp_lower_bound q
               \<longrightarrow> lp_lower_bound pool < lp_lower_bound q
                 \<or> lp_lower_bound pool = lp_lower_bound q \<and> (lp_created_at pool < lp_created_at q
                    \<or> lp_created_at pool = lp_created_at q \<and> lp_pool_id pool \<le> lp_pool_id q))
        else lp_upper_bound pool < dsub entry (dmul (of_int (rk_target_min_distance_ticks cfg)) tick_size)
          \<and> (\<forall>q\<in>set pools. lp_created_at q \<le> rc_confirmed_at c \<and> lp_state q = POOL_ACTIVE
               \<and> lp_direction q = SELL_SIDE
               \<and> lp_upper_bound q < dsub entry (dmul (of_int (rk_target_min_distance_ticks cfg)) tick_size)
               \<longrightarrow> rnd (lp_upper_bound q) < rnd (lp_upper_bound pool)
                 \<or> rnd (lp_upper_bound q) = rnd (lp_upper_bound pool) \<and> (lp_created_at pool < lp_created_at q
                    \<or> lp_created_at pool = lp_created_at q \<and> lp_pool_id pool \<le> lp_pool_id q)))"
proof -
  have "\<forall>p\<in>set pools. 0 < lp_lower_bound p \<and> 0 < lp_upper_bound p"
    using assms(4) by (simp add: pool_valid_iff)
  from calculate_risk_plan_outcome [OF assms(1-3) this] assms(5,6)
  have "accepted_by c pools cfg tick_size atr p" by (auto simp: rejected_eq)
  then obtain pool entry m where
    p: "rp_selection_metadata p = Some m" "rm_target_source_id m = lp_pool_id pool"
      "rp_entry_reference p = Some entry"
      "select_target_pool c pools entry cfg tick_size = Some pool"
      "rp_take_profit p = Some (if rc_direction c = RISK_LONG
          then floor_tick (lp_lower_bound pool) tick_size
          else ceil_tick (lp_upper_bound pool) tick_size)"
    unfolding accepted_by_def by (elim exE conjE) (simp split: if_splits)
  have mem: "pool \<in> set (eligible_targets c pools entry cfg tick_size)"
    using min_by_mem p(4) unfolding select_target_pool_def .
  note fresh = accepted_plan_no_stale_pool [OF assms(5)]
  note near = select_target_pool_nearest [OF p(4)]
  show ?thesis
  proof (cases "rc_direction c = RISK_LONG")
    case True
    show ?thesis
      using p select_target_pool_mem [OF p(4)] mem near fresh
      by (intro exI [of _ pool] exI [of _ entry] exI [of _ m])
        (simp add: True eligible_targets_def visible_active_def Let_def)
  next
    case False
    show ?thesis
      using p select_target_pool_mem [OF p(4)] mem near fresh
      by (intro exI [of _ pool] exI [of _ entry] exI [of _ m])
        (simp add: False eligible_targets_def visible_active_def Let_def)
  qed
qed

text \<open>
  The engine does not look ahead: pools created after the confirmation of the candidate have no
  influence on the result, whatever it is.
\<close>

theorem risk_plan_ignores_future_pools:
  "calculate_risk_plan c pools cfg tick_size atr
   = calculate_risk_plan c (filter (\<lambda>p. lp_created_at p \<le> rc_confirmed_at c) pools) cfg tick_size atr"
proof -
  let ?vis = "filter (\<lambda>p. lp_created_at p \<le> rc_confirmed_at c) pools"
  have "visible_active c ?vis = visible_active c pools"
    by (simp add: visible_active_def conj_commute conj_left_commute)
  then have "select_target_pool c ?vis e cfg tick_size = select_target_pool c pools e cfg tick_size" for e
    by (simp only: select_target_pool_def eligible_targets_def)
  moreover have "list_ex (\<lambda>p. lp_created_at p \<le> rc_confirmed_at c \<and> rc_confirmed_at c < lp_updated_at p) ?vis
      = list_ex (\<lambda>p. lp_created_at p \<le> rc_confirmed_at c \<and> rc_confirmed_at c < lp_updated_at p) pools"
    by (auto simp: list_ex_iff)
  ultimately show ?thesis by (simp only: calculate_risk_plan_def)
qed

section \<open>A sample candidate\<close>

definition sample_candidate :: risk_candidate where
  "sample_candidate =
     \<lparr>rc_candidate_id = ''s1'', rc_direction = RISK_LONG, rc_entry_zone = \<lparr>ez_low = 100, ez_high = 101\<rparr>,
      rc_structural_invalidation_level = 987/10, rc_structural_invalidation_source = ''setup'',
      rc_confirmed_at = 4\<rparr>"

definition sample_risk_config :: risk_config where
  "sample_risk_config =
     \<lparr>rk_entry_reference = MIDPOINT, rk_stop_buffer_ticks = 2, rk_atr_buffer = 1/10,
      rk_min_distance_ticks = 1, rk_max_distance_atr_ratio = 3,
      rk_target_source = NEAREST_OPPOSING_LIQUIDITY, rk_target_min_distance_ticks = 1, rk_min_rr = 2\<rparr>"

definition sample_target :: "price \<Rightarrow> liquidity_pool" where
  "sample_target l = snapshot_state (sample_pool l) 3 [sample_entry 0 1 HE_CREATED POOL_ACTIVE l]"

lemma sample_risk_inputs:
  "risk_inputs_ok sample_candidate [sample_target 120, sample_target 110] (1/10) (Some 2)"
  "risk_candidate_valid sample_candidate" "risk_config_valid sample_risk_config"
  "\<forall>p\<in>set [sample_target 120, sample_target 110]. pool_valid p"
  by (simp_all add: risk_inputs_ok_def risk_config_valid_def risk_candidate_valid_iff
      entry_zone_valid_iff pool_valid_iff sample_candidate_def sample_risk_config_def
      sample_target_def sample_pool_defs final_state_matches_def)

lemma sample_fields [simp]:
  "rc_direction sample_candidate = RISK_LONG" "rc_confirmed_at sample_candidate = 4"
  "rc_entry_zone sample_candidate = \<lparr>ez_low = 100, ez_high = 101\<rparr>"
  "rc_structural_invalidation_level sample_candidate = 987/10"
  "rc_structural_invalidation_source sample_candidate = ''setup''"
  "rk_entry_reference sample_risk_config = MIDPOINT" "rk_stop_buffer_ticks sample_risk_config = 2"
  "rk_atr_buffer sample_risk_config = 1/10" "rk_min_distance_ticks sample_risk_config = 1"
  "rk_max_distance_atr_ratio sample_risk_config = 3" "rk_min_rr sample_risk_config = 2"
  "rk_target_min_distance_ticks sample_risk_config = 1"
  "lp_created_at (sample_target l) = 1" "lp_updated_at (sample_target l) = 1"
  "lp_lower_bound (sample_target l) = l" "lp_state (sample_target l) = POOL_ACTIVE"
  "lp_direction (sample_target l) = BUY_SIDE" "lp_pool_id (sample_target l) = ''p''"
  by (simp_all add: sample_candidate_def sample_risk_config_def sample_target_def sample_pool_defs)

text \<open>
  A long and a short candidate with three pools each: a far one, a nearer one, and one that is closer
  than the minimum separation of a tick.
\<close>

definition named_above :: "string \<Rightarrow> price \<Rightarrow> liquidity_pool" where
  "named_above n l = (sample_target l)\<lparr>lp_pool_id := n\<rparr>"

definition named_below :: "string \<Rightarrow> price \<Rightarrow> liquidity_pool" where
  "named_below n l = (sample_target l)\<lparr>lp_pool_id := n, lp_type := SELL_SIDE_LIQUIDITY,
     lp_direction := SELL_SIDE,
     lp_history := [(sample_entry 0 1 HE_CREATED POOL_ACTIVE l)\<lparr>lh_type := SELL_SIDE_LIQUIDITY\<rparr>]\<rparr>"

definition pools_above :: "liquidity_pool list" where
  "pools_above = [named_above ''far'' 120, named_above ''near'' 110, named_above ''inside'' (503/5)]"

definition pools_below :: "liquidity_pool list" where
  "pools_below = [named_below ''far'' 80, named_below ''near'' 90, named_below ''inside'' (502/5)]"

definition sample_short :: risk_candidate where
  "sample_short = sample_candidate\<lparr>rc_direction := RISK_SHORT,
     rc_structural_invalidation_level := 1023/10\<rparr>"

lemma sample_named_inputs:
  "risk_inputs_ok sample_candidate pools_above (1/10) (Some 2)"
  "risk_inputs_ok sample_short pools_below (1/10) (Some 2)"
  "risk_candidate_valid sample_short"
  "\<forall>p\<in>set pools_above. pool_valid p" "\<forall>p\<in>set pools_below. pool_valid p"
  by (simp_all add: risk_inputs_ok_def risk_candidate_valid_iff entry_zone_valid_iff pool_valid_iff
      sample_candidate_def sample_short_def pools_above_def pools_below_def named_above_def
      named_below_def sample_target_def sample_pool_defs final_state_matches_def)

lemma named_fields [simp]:
  "rc_direction sample_short = RISK_SHORT" "rc_confirmed_at sample_short = 4"
  "rc_entry_zone sample_short = \<lparr>ez_low = 100, ez_high = 101\<rparr>"
  "rc_structural_invalidation_level sample_short = 1023/10"
  "rc_structural_invalidation_source sample_short = ''setup''"
  "lp_created_at (named_above n l) = 1" "lp_updated_at (named_above n l) = 1"
  "lp_lower_bound (named_above n l) = l" "lp_state (named_above n l) = POOL_ACTIVE"
  "lp_direction (named_above n l) = BUY_SIDE" "lp_pool_id (named_above n l) = n"
  "lp_created_at (named_below n l) = 1" "lp_updated_at (named_below n l) = 1"
  "lp_upper_bound (named_below n l) = l" "lp_state (named_below n l) = POOL_ACTIVE"
  "lp_direction (named_below n l) = SELL_SIDE" "lp_pool_id (named_below n l) = n"
  by (simp_all add: sample_short_def named_above_def named_below_def)
    (simp_all add: sample_candidate_def sample_target_def sample_pool_defs)

lemma sample_reference:
  "entry_reference_raw sample_candidate sample_risk_config = 201/2"
  "entry_reference_raw sample_short sample_risk_config = 201/2"
  "round_nearest_tick (201/2) (1/10) = 201/2"
  by (simp_all add: entry_reference_raw_def round_nearest_tick_def dec_evals)

lemma plan_arith:
  "floor_tick 110 (1/10) = 110" "dsub 110 (201/2) = 19/2" "ddiv (19/2) 2 = 19/4"
  "ddiv 2 2 = 1" "dmul 1 (1/10) = 1/10" "dsub (201/2) (197/2) = 2" "dmul 2 (1/10) = 1/5"
  "dmul (1/10) 2 = 1/5" "dsub (987/10) (1/5) = 197/2" "floor_tick (197/2) (1/10) = 197/2"
  "dadd (201/2) (1/10) = 503/5" "ceil_tick 90 (1/10) = 90" "dsub (201/2) 90 = 21/2"
  "ddiv (21/2) 2 = 21/4" "dadd (1023/10) (1/5) = 205/2" "ceil_tick (205/2) (1/10) = 205/2"
  "dsub (205/2) (201/2) = 2" "dsub (201/2) (1/10) = 502/5" "rnd 80 = 80" "rnd 90 = 90"
  by (simp_all add: floor_tick_def ceil_tick_def dec_evals)

lemma sample_plan_exists:
  "\<exists>p. calculate_risk_plan sample_candidate [sample_target 120, sample_target 110]
     sample_risk_config (1/10) (Some 2) = Inr p \<and> rp_decision p \<noteq> DECIDE_NO_TRADE"
proof -
  let ?s = "compute_stop sample_candidate sample_risk_config (1/10) (Some 2) (201/2)"
  have s: "sl_stop_loss ?s = 197/2" "sl_risk ?s = 2"
    "sl_tick_buffer ?s = 1/5" "sl_atr_buffer ?s = 1/5" "sl_selected_buffer ?s = 1/5"
    by (simp_all add: compute_stop_def Let_def plan_arith)
  have p: "select_target_pool sample_candidate [sample_target 120, sample_target 110] (201/2)
      sample_risk_config (1/10) = Some (sample_target 110)"
    by (simp add: select_target_pool_def eligible_targets_def visible_active_def target_key_def Let_def plan_arith)
  have "calculate_risk_plan sample_candidate [sample_target 120, sample_target 110]
      sample_risk_config (1/10) (Some 2)
      = finish_plan sample_candidate sample_risk_config (1/10) (201/2) (201/2) ?s (sample_target 110)"
    by (simp add: calculate_risk_plan_def Let_def sample_reference s p plan_arith)
  also have "\<exists>p. \<dots> = Inr p \<and> rp_decision p \<noteq> DECIDE_NO_TRADE"
    by (simp add: finish_plan_def s plan_arith long_ordered_def make_risk_metadata_def selection_metadata_def
      make_accepted_plan) (simp add: accepted_plan_def)
  finally show ?thesis .
qed

theorem risk_plan_accepted_witness:
  "\<exists>p rr. calculate_risk_plan sample_candidate [sample_target 120, sample_target 110]
     sample_risk_config (1/10) (Some 2) = Inr p \<and> rp_risk_reward p = Some rr \<and> 2 \<le> rr"
proof -
  obtain p where p: "calculate_risk_plan sample_candidate [sample_target 120, sample_target 110]
     sample_risk_config (1/10) (Some 2) = Inr p" "rp_decision p \<noteq> DECIDE_NO_TRADE"
    using sample_plan_exists by blast
  with risk_plan_accepted [OF sample_risk_inputs p] show ?thesis by auto
qed

lemma named_long_plan:
  "\<exists>p. calculate_risk_plan sample_candidate pools_above sample_risk_config (1/10) (Some 2) = Inr p
     \<and> rp_decision p \<noteq> DECIDE_NO_TRADE \<and> rp_entry_reference p = Some (201/2)"
proof -
  let ?s = "compute_stop sample_candidate sample_risk_config (1/10) (Some 2) (201/2)"
  have s: "sl_stop_loss ?s = 197/2" "sl_risk ?s = 2"
    "sl_tick_buffer ?s = 1/5" "sl_atr_buffer ?s = 1/5" "sl_selected_buffer ?s = 1/5"
    by (simp_all add: compute_stop_def Let_def plan_arith)
  have p: "select_target_pool sample_candidate pools_above (201/2) sample_risk_config (1/10)
      = Some (named_above ''near'' 110)"
    by (simp add: select_target_pool_def eligible_targets_def visible_active_def target_key_def
        Let_def pools_above_def plan_arith)
  have eq: "calculate_risk_plan sample_candidate pools_above sample_risk_config (1/10) (Some 2)
      = finish_plan sample_candidate sample_risk_config (1/10) (201/2) (201/2) ?s (named_above ''near'' 110)"
    by (simp add: calculate_risk_plan_def Let_def sample_reference s p plan_arith)
      (simp add: pools_above_def)
  have "\<exists>p. finish_plan sample_candidate sample_risk_config (1/10) (201/2) (201/2) ?s (named_above ''near'' 110) = Inr p
      \<and> rp_decision p \<noteq> DECIDE_NO_TRADE \<and> rp_entry_reference p = Some (201/2)"
    by (simp add: finish_plan_def s plan_arith long_ordered_def make_risk_metadata_def
      selection_metadata_def make_accepted_plan) (simp add: accepted_plan_def)
  then show ?thesis by (simp only: eq)
qed

lemma named_short_plan:
  "\<exists>p. calculate_risk_plan sample_short pools_below sample_risk_config (1/10) (Some 2) = Inr p
     \<and> rp_decision p \<noteq> DECIDE_NO_TRADE \<and> rp_entry_reference p = Some (201/2)"
proof -
  let ?s = "compute_stop sample_short sample_risk_config (1/10) (Some 2) (201/2)"
  have s: "sl_stop_loss ?s = 205/2" "sl_risk ?s = 2"
    "sl_tick_buffer ?s = 1/5" "sl_atr_buffer ?s = 1/5" "sl_selected_buffer ?s = 1/5"
    by (simp_all add: compute_stop_def Let_def plan_arith)
  have p: "select_target_pool sample_short pools_below (201/2) sample_risk_config (1/10)
      = Some (named_below ''near'' 90)"
    by (simp add: select_target_pool_def eligible_targets_def visible_active_def target_key_def
        Let_def pools_below_def plan_arith dec_evals)
  have eq: "calculate_risk_plan sample_short pools_below sample_risk_config (1/10) (Some 2)
      = finish_plan sample_short sample_risk_config (1/10) (201/2) (201/2) ?s (named_below ''near'' 90)"
    by (simp add: calculate_risk_plan_def Let_def sample_reference s p plan_arith)
      (simp add: pools_below_def)
  have "\<exists>p. finish_plan sample_short sample_risk_config (1/10) (201/2) (201/2) ?s (named_below ''near'' 90) = Inr p
      \<and> rp_decision p \<noteq> DECIDE_NO_TRADE \<and> rp_entry_reference p = Some (201/2)"
    by (simp add: finish_plan_def s plan_arith short_ordered_def make_risk_metadata_def
      selection_metadata_def make_accepted_plan) (simp add: accepted_plan_def)
  then show ?thesis by (simp only: eq)
qed

text \<open>
  The theorem alone decides the target: the pool inside the separation is excluded, and the far one
  is not nearest.
\<close>

theorem risk_target_nearest_witness:
  "(\<exists>p m. calculate_risk_plan sample_candidate pools_above sample_risk_config (1/10) (Some 2) = Inr p
     \<and> rp_selection_metadata p = Some m \<and> rm_target_source_id m = ''near''
     \<and> rp_take_profit p = Some 110)
   \<and> (\<exists>p m. calculate_risk_plan sample_short pools_below sample_risk_config (1/10) (Some 2) = Inr p
     \<and> rp_selection_metadata p = Some m \<and> rm_target_source_id m = ''near''
     \<and> rp_take_profit p = Some 90)"
proof
  obtain p where p: "calculate_risk_plan sample_candidate pools_above sample_risk_config (1/10) (Some 2)
      = Inr p" "rp_decision p \<noteq> DECIDE_NO_TRADE" "rp_entry_reference p = Some (201/2)"
    using named_long_plan by (elim exE conjE) (rule that)
  from risk_target_nearest [OF sample_named_inputs(1) sample_risk_inputs(2,3) sample_named_inputs(4) p(1,2)] p(3)
  show "\<exists>p m. calculate_risk_plan sample_candidate pools_above sample_risk_config (1/10) (Some 2) = Inr p
     \<and> rp_selection_metadata p = Some m \<and> rm_target_source_id m = ''near''
     \<and> rp_take_profit p = Some 110"
    by (auto simp: p(1) [unfolded pools_above_def] pools_above_def plan_arith simp del: eq_divide_eq_numeral1 divide_eq_eq_numeral1
        less_divide_eq_numeral1 divide_less_eq_numeral1)
next
  obtain p where p: "calculate_risk_plan sample_short pools_below sample_risk_config (1/10) (Some 2)
      = Inr p" "rp_decision p \<noteq> DECIDE_NO_TRADE" "rp_entry_reference p = Some (201/2)"
    using named_short_plan by (elim exE conjE) (rule that)
  from risk_target_nearest [OF sample_named_inputs(2,3) sample_risk_inputs(3) sample_named_inputs(5) p(1,2)] p(3)
  show "\<exists>p m. calculate_risk_plan sample_short pools_below sample_risk_config (1/10) (Some 2) = Inr p
     \<and> rp_selection_metadata p = Some m \<and> rm_target_source_id m = ''near''
     \<and> rp_take_profit p = Some 90"
    by (auto simp: p(1) [unfolded pools_below_def] pools_below_def plan_arith simp del: eq_divide_eq_numeral1 divide_eq_eq_numeral1
        less_divide_eq_numeral1 divide_less_eq_numeral1)
qed

end
