(* ===== verification/CRT_Detector.thy ===== *)
theory CRT_Detector
  imports Market_Data
begin

text \<open>
  Candle-range-theory confirmations: the data model (\<open>schemas/crt.py\<close>) and \<open>analyze_crt\<close>
  (\<open>engines/crt/detector.py\<close>), which turns formal sweep evidence into confirmations, groups the
  evidence by candle pair, and rejects evidence with a code. The two loops over groups and evidence
  thread the lists of confirmations and rejections and stop at a raise.
\<close>

datatype crt_swept_side = SWEPT_HIGH | SWEPT_LOW

datatype crt_direction = CRT_BULLISH | CRT_BEARISH

datatype crt_entry_relation = BUY_BELOW_THIRD_CANDLE_OPEN | SELL_ABOVE_THIRD_CANDLE_OPEN

datatype crt_confirmation_status = SWEEP_CANDLE_CLOSED

datatype crt_signal_use = USE_CONFIRMATION | USE_FILTER

datatype crt_signal_match_status =
    CRT_DISABLED | CRT_NOT_USED | CRT_MISSING | CRT_MATCH | CRT_DIRECTION_CONFLICT

datatype crt_rejection_code =
    UNKNOWN_RANGE_CANDLE | UNKNOWN_MANIPULATION_CANDLE | NON_CONSECUTIVE_CANDLES
  | LEVEL_DOES_NOT_MATCH_RANGE_BOUNDARY | SWEEP_CONFIRMED_BEFORE_CANDLE_CLOSE
  | EVIDENCE_NOT_YET_CONFIRMED | DUAL_SIDE_SWEEP_NEEDS_FORMALIZATION

record crt_config =
  crt_enabled :: bool
  crt_signal_uses :: "crt_signal_use list"
  crt_weight :: "int option"

definition crt_config_valid :: "crt_config \<Rightarrow> bool" where
  "crt_config_valid c \<longleftrightarrow>
     (case crt_weight c of None \<Rightarrow> True | Some w \<Rightarrow> 0 \<le> w) \<and> distinct (crt_signal_uses c)"

record crt_sweep_evidence =
  ce_evidence_id :: string
  ce_source_event_id :: string
  ce_range_candle_timestamp :: utc_time
  ce_manipulation_candle_timestamp :: utc_time
  ce_swept_side :: crt_swept_side
  ce_level :: price
  ce_confirmed_at :: utc_time

definition crt_evidence_valid :: "crt_sweep_evidence \<Rightarrow> bool" where
  "crt_evidence_valid e \<longleftrightarrow>
     ce_evidence_id e \<noteq> '''' \<and> ce_source_event_id e \<noteq> '''' \<and> 0 < ce_level e"

record crt_confirmation =
  cc_confirmation_id :: string
  cc_status :: crt_confirmation_status
  cc_direction :: crt_direction
  cc_timeframe :: timeframe
  cc_range_candle_timestamp :: utc_time
  cc_range_high :: price
  cc_range_low :: price
  cc_manipulation_candle_timestamp :: utc_time
  cc_manipulation_closed_at :: utc_time
  cc_swept_side :: crt_swept_side
  cc_sweep_level :: price
  cc_source_event_id :: string
  cc_confirmed_at :: utc_time
  cc_third_candle_timestamp :: "utc_time option"
  cc_third_candle_open :: "price option"
  cc_entry_relation :: crt_entry_relation
  cc_opposite_wick_reference :: price

definition validate_reference_roles :: "crt_confirmation \<Rightarrow> crt_confirmation result" where
  "validate_reference_roles c =
     (if cc_range_low c \<ge> cc_range_high c
      then Inl (ValidationError ''CRT range low must be below range high'')
      else if (cc_third_candle_timestamp c = None) \<noteq> (cc_third_candle_open c = None)
      then Inl (ValidationError ''third candle timestamp and open must appear together'')
      else if cc_confirmed_at c < cc_manipulation_closed_at c
      then Inl (ValidationError ''CRT cannot confirm before manipulation candle closes'')
      else Inr c)"

definition make_crt_confirmation :: "crt_confirmation \<Rightarrow> crt_confirmation result" where
  "make_crt_confirmation c =
     (if 0 < cc_range_high c \<and> 0 < cc_range_low c \<and> 0 < cc_sweep_level c
         \<and> (case cc_third_candle_open c of None \<Rightarrow> True | Some p \<Rightarrow> 0 < p)
         \<and> 0 < cc_opposite_wick_reference c
      then validate_reference_roles c else Inl (ValidationError ''CRT confirmation field''))"

record crt_rejection =
  cr_evidence_ids :: "string list"
  cr_code :: crt_rejection_code
  cr_evaluated_at :: utc_time

record crt_analysis_result =
  ca_enabled :: bool
  ca_timeframe :: timeframe
  ca_data_cutoff_at :: "utc_time option"
  ca_confirmations :: "crt_confirmation list"
  ca_rejections :: "crt_rejection list"

section \<open>The detector\<close>

definition validate_candles :: "candle list \<Rightarrow> timedelta \<Rightarrow> unit result" where
  "validate_candles candles duration =
     check_all (\<lambda>(previous, current).
       let delta = c_timestamp current - c_timestamp previous
       in if delta \<le> 0
          then Inl (CRTInputError ''candles must have unique timestamps in ascending order'')
          else if delta \<noteq> duration
          then Inl (CRTInputError ''candle sequence contains a timeframe gap'')
          else Inr ()) (adjacent candles)"

text \<open>The index of the candle with a timestamp; a later candle overwrites an earlier one.\<close>

definition by_timestamp :: "candle list \<Rightarrow> utc_time \<Rightarrow> nat option" where
  "by_timestamp candles = map_of (rev (zip (map c_timestamp candles) [0..<length candles]))"

definition crt_cutoff :: "candle list \<Rightarrow> timedelta \<Rightarrow> utc_time option" where
  "crt_cutoff candles duration =
     (if candles = [] then None else Some (c_timestamp (last candles) + duration))"

definition validate_evidence ::
  "crt_sweep_evidence \<Rightarrow> candle list \<Rightarrow> timedelta \<Rightarrow> utc_time option \<Rightarrow> crt_rejection option" where
  "validate_evidence e candles duration cutoff =
     (let reject = (\<lambda>code. Some \<lparr>cr_evidence_ids = [ce_evidence_id e], cr_code = code,
             cr_evaluated_at = (case cutoff of Some t \<Rightarrow> t | None \<Rightarrow> ce_confirmed_at e)\<rparr>)
      in case by_timestamp candles (ce_range_candle_timestamp e) of
        None \<Rightarrow> reject UNKNOWN_RANGE_CANDLE
      | Some range_index \<Rightarrow>
          (case by_timestamp candles (ce_manipulation_candle_timestamp e) of
            None \<Rightarrow> reject UNKNOWN_MANIPULATION_CANDLE
          | Some manipulation_index \<Rightarrow>
              if manipulation_index \<noteq> range_index + 1 then reject NON_CONSECUTIVE_CANDLES
              else let
                range_candle = candles ! range_index;
                expected_level = (if ce_swept_side e = SWEPT_HIGH then c_high range_candle
                                  else c_low range_candle)
              in if ce_level e \<noteq> expected_level then reject LEVEL_DOES_NOT_MATCH_RANGE_BOUNDARY
              else if ce_confirmed_at e < c_timestamp (candles ! manipulation_index) + duration
              then reject SWEEP_CONFIRMED_BEFORE_CANDLE_CLOSE
              else case cutoff of
                None \<Rightarrow> reject EVIDENCE_NOT_YET_CONFIRMED
              | Some t \<Rightarrow> if ce_confirmed_at e > t then reject EVIDENCE_NOT_YET_CONFIRMED else None))"

text \<open>The confirmation the loop body builds; its indices exist because the evidence passed.\<close>

definition crt_confirmation_of ::
  "crt_sweep_evidence \<Rightarrow> candle list \<Rightarrow> timeframe \<Rightarrow> nat \<Rightarrow> nat \<Rightarrow> crt_confirmation" where
  "crt_confirmation_of e candles tf range_index manipulation_index =
     (let range_candle = candles ! range_index;
          third = (if manipulation_index + 1 < length candles
                   then Some (candles ! (manipulation_index + 1)) else None);
          bullish = (ce_swept_side e = SWEPT_LOW)
      in \<lparr>cc_confirmation_id = ''CRT:'' @ ce_evidence_id e, cc_status = SWEEP_CANDLE_CLOSED,
          cc_direction = (if bullish then CRT_BULLISH else CRT_BEARISH), cc_timeframe = tf,
          cc_range_candle_timestamp = c_timestamp range_candle,
          cc_range_high = c_high range_candle, cc_range_low = c_low range_candle,
          cc_manipulation_candle_timestamp = ce_manipulation_candle_timestamp e,
          cc_manipulation_closed_at
            = c_timestamp (candles ! manipulation_index) + timeframe_duration tf,
          cc_swept_side = ce_swept_side e, cc_sweep_level = ce_level e,
          cc_source_event_id = ce_source_event_id e, cc_confirmed_at = ce_confirmed_at e,
          cc_third_candle_timestamp = map_option c_timestamp third,
          cc_third_candle_open = map_option c_open third,
          cc_entry_relation = (if bullish then BUY_BELOW_THIRD_CANDLE_OPEN
                               else SELL_ABOVE_THIRD_CANDLE_OPEN),
          cc_opposite_wick_reference
            = (if bullish then c_high range_candle else c_low range_candle)\<rparr>)"

type_synonym crt_loop_state = "crt_confirmation list \<times> crt_rejection list"

definition evidence_step :: "candle list \<Rightarrow> timeframe \<Rightarrow> crt_sweep_evidence \<Rightarrow>
    crt_loop_state \<Rightarrow> crt_loop_state result" where
  "evidence_step candles tf e s =
     (let duration = timeframe_duration tf
      in case validate_evidence e candles duration (crt_cutoff candles duration) of
        Some rejection \<Rightarrow> Inr (fst s, snd s @ [rejection])
      | None \<Rightarrow>
          bind_result (make_crt_confirmation (crt_confirmation_of e candles tf
              (the (by_timestamp candles (ce_range_candle_timestamp e)))
              (the (by_timestamp candles (ce_manipulation_candle_timestamp e)))))
            (\<lambda>c. Inr (fst s @ [c], snd s)))"

definition dual_sided :: "crt_sweep_evidence list \<Rightarrow> bool" where
  "dual_sided es \<longleftrightarrow> 1 < length (remdups (map ce_swept_side es))"

definition dual_rejection ::
  "candle list \<Rightarrow> timedelta \<Rightarrow> crt_sweep_evidence list \<Rightarrow> crt_rejection" where
  "dual_rejection candles duration es =
     \<lparr>cr_evidence_ids = sort (map ce_evidence_id es),
      cr_code = DUAL_SIDE_SWEEP_NEEDS_FORMALIZATION,
      cr_evaluated_at = (case crt_cutoff candles duration of Some t \<Rightarrow> t
                         | None \<Rightarrow> Min (set (map ce_confirmed_at es)))\<rparr>"

definition group_step :: "candle list \<Rightarrow> timeframe \<Rightarrow> crt_sweep_evidence list \<Rightarrow>
    crt_loop_state \<Rightarrow> crt_loop_state result" where
  "group_step candles tf es s =
     (if dual_sided es then Inr (fst s, snd s @ [dual_rejection candles (timeframe_duration tf) es])
      else for_each (evidence_step candles tf) es s)"

text \<open>
  The groups, in the order the code visits them: by manipulation candle, then by range candle; a
  group keeps the order of the evidence.
\<close>

definition evidence_key :: "crt_sweep_evidence \<Rightarrow> utc_time \<times> utc_time" where
  "evidence_key e = (ce_manipulation_candle_timestamp e, ce_range_candle_timestamp e)"

definition evidence_groups :: "crt_sweep_evidence list \<Rightarrow> crt_sweep_evidence list list" where
  "evidence_groups es =
     map (\<lambda>k. filter (\<lambda>e. evidence_key e = k) es) (sort (remdups (map evidence_key es)))"

definition analyze_crt :: "candle list \<Rightarrow> timeframe \<Rightarrow> crt_config \<Rightarrow>
    crt_sweep_evidence list \<Rightarrow> crt_analysis_result result" where
  "analyze_crt candles tf cfg confirmed_sweeps =
     (let duration = timeframe_duration tf; cutoff = crt_cutoff candles duration
      in bind_result (validate_candles candles duration) (\<lambda>_.
        if \<not> crt_enabled cfg
        then Inr \<lparr>ca_enabled = False, ca_timeframe = tf, ca_data_cutoff_at = cutoff,
                  ca_confirmations = [], ca_rejections = []\<rparr>
        else if \<not> distinct (map ce_evidence_id confirmed_sweeps)
        then Inl (CRTInputError ''CRT sweep evidence ids must be unique'')
        else bind_result
          (for_each (group_step candles tf) (evidence_groups confirmed_sweeps) ([], []))
          (\<lambda>(confirmations, rejections).
             Inr \<lparr>ca_enabled = True, ca_timeframe = tf, ca_data_cutoff_at = cutoff,
                  ca_confirmations
                    = sort_key (\<lambda>c. (cc_confirmed_at c, cc_confirmation_id c)) confirmations,
                  ca_rejections = rejections\<rparr>)))"

section \<open>The loops in closed form\<close>

lemma by_timestamp_SomeD:
  "by_timestamp candles t = Some i \<Longrightarrow> i < length candles \<and> c_timestamp (candles ! i) = t"
  by (auto simp: by_timestamp_def in_set_zip dest!: map_of_SomeD)

text \<open>The verdict on one piece of evidence, and the confirmation it yields.\<close>

definition evidence_verdict ::
  "candle list \<Rightarrow> timeframe \<Rightarrow> crt_sweep_evidence \<Rightarrow> crt_rejection option" where
  "evidence_verdict candles tf e =
     validate_evidence e candles (timeframe_duration tf) (crt_cutoff candles (timeframe_duration tf))"

definition confirmation_for ::
  "candle list \<Rightarrow> timeframe \<Rightarrow> crt_sweep_evidence \<Rightarrow> crt_confirmation" where
  "confirmation_for candles tf e = crt_confirmation_of e candles tf
     (the (by_timestamp candles (ce_range_candle_timestamp e)))
     (the (by_timestamp candles (ce_manipulation_candle_timestamp e)))"

definition group_confirmations ::
  "candle list \<Rightarrow> timeframe \<Rightarrow> crt_sweep_evidence list \<Rightarrow> crt_confirmation list" where
  "group_confirmations candles tf es =
     (if dual_sided es then []
      else map (confirmation_for candles tf) (filter (\<lambda>e. evidence_verdict candles tf e = None) es))"

definition group_rejections ::
  "candle list \<Rightarrow> timeframe \<Rightarrow> crt_sweep_evidence list \<Rightarrow> crt_rejection list" where
  "group_rejections candles tf es =
     (if dual_sided es then [dual_rejection candles (timeframe_duration tf) es]
      else List.map_filter (evidence_verdict candles tf) es)"

lemma validate_reference_roles_Inr: "make_crt_confirmation c = Inr c' \<Longrightarrow> c' = c"
  by (auto simp: make_crt_confirmation_def validate_reference_roles_def split: if_splits)

lemma evidence_loop_eq:
  "for_each (evidence_step candles tf) es s = Inr t \<Longrightarrow>
     t = (fst s @ map (confirmation_for candles tf)
            (filter (\<lambda>e. evidence_verdict candles tf e = None) es),
          snd s @ List.map_filter (evidence_verdict candles tf) es)"
proof (induction es arbitrary: s)
  case (Cons e es)
  from Cons.prems obtain u where u: "evidence_step candles tf e s = Inr u"
    "for_each (evidence_step candles tf) es u = Inr t"
    by (auto simp: bind_result_eq_Inr)
  have "u = (if evidence_verdict candles tf e = None
      then (fst s @ [confirmation_for candles tf e], snd s)
      else (fst s, snd s @ [the (evidence_verdict candles tf e)]))"
    using u(1) by (auto simp: evidence_step_def evidence_verdict_def confirmation_for_def Let_def
        bind_result_eq_Inr dest!: validate_reference_roles_Inr split: option.splits)
  with Cons.IH [OF u(2)] show ?case
    by (auto simp: List.map_filter_simps split: option.splits)
qed (simp add: List.map_filter_simps)

lemma group_loop_eq:
  "for_each (group_step candles tf) gs s = Inr t \<Longrightarrow>
     t = (fst s @ concat (map (group_confirmations candles tf) gs),
          snd s @ concat (map (group_rejections candles tf) gs))"
proof (induction gs arbitrary: s)
  case (Cons g gs)
  from Cons.prems obtain u where u: "group_step candles tf g s = Inr u"
    "for_each (group_step candles tf) gs u = Inr t"
    by (auto simp: bind_result_eq_Inr)
  have "u = (fst s @ group_confirmations candles tf g, snd s @ group_rejections candles tf g)"
    using u(1) by (auto simp: group_step_def group_confirmations_def group_rejections_def
        dest: evidence_loop_eq split: if_splits)
  with Cons.IH [OF u(2)] show ?case by simp
qed simp

lemma evidence_group_mem:
  "g \<in> set (evidence_groups es) \<and> e \<in> set g \<longleftrightarrow>
     e \<in> set es \<and> g = filter (\<lambda>e'. evidence_key e' = evidence_key e) es"
  by (auto simp: evidence_groups_def)

lemma dual_sided_iff:
  "dual_sided es \<longleftrightarrow> (\<exists>a\<in>set es. \<exists>b\<in>set es. ce_swept_side a \<noteq> ce_swept_side b)"
proof -
  have "card (ce_swept_side ` set es) \<le> Suc 0 \<longleftrightarrow>
      (\<forall>a\<in>set es. \<forall>b\<in>set es. ce_swept_side a = ce_swept_side b)"
    by (subst card_le_Suc0_iff_eq) auto
  moreover have "dual_sided es \<longleftrightarrow> \<not> card (ce_swept_side ` set es) \<le> Suc 0"
    by (simp add: dual_sided_def length_remdups_card_conv not_le)
  ultimately show ?thesis by blast
qed

lemma evidence_verdict_None_iff:
  "evidence_verdict candles tf e = None \<longleftrightarrow>
     (\<exists>i. by_timestamp candles (ce_range_candle_timestamp e) = Some i
        \<and> by_timestamp candles (ce_manipulation_candle_timestamp e) = Some (Suc i)
        \<and> ce_level e = (if ce_swept_side e = SWEPT_HIGH then c_high (candles ! i) else c_low (candles ! i))
        \<and> c_timestamp (candles ! Suc i) + timeframe_duration tf \<le> ce_confirmed_at e
        \<and> candles \<noteq> []
        \<and> ce_confirmed_at e \<le> c_timestamp (last candles) + timeframe_duration tf)"
proof (cases "by_timestamp candles (ce_range_candle_timestamp e)")
  case None
  then show ?thesis by (simp add: evidence_verdict_def validate_evidence_def Let_def)
next
  case (Some i)
  show ?thesis
  proof (cases "by_timestamp candles (ce_manipulation_candle_timestamp e) = Some (Suc i)")
    case True
    with Some show ?thesis
      by (simp add: evidence_verdict_def validate_evidence_def Let_def crt_cutoff_def not_less not_le)
  next
    case False
    with Some show ?thesis
      by (auto simp: evidence_verdict_def validate_evidence_def Let_def split: option.splits)
  qed
qed

lemma evidence_verdict_ids:
  assumes "evidence_verdict candles tf e = Some r"
  shows "cr_evidence_ids r = [ce_evidence_id e]"
proof -
  define Q where "Q v \<longleftrightarrow> (\<forall>r. v = Some r \<longrightarrow> cr_evidence_ids r = [ce_evidence_id e])"
    for v :: "crt_rejection option"
  have if_rule: "Q x \<Longrightarrow> Q y \<Longrightarrow> Q (if b then x else y)" for b x y by simp
  have option_rule: "Q x \<Longrightarrow> (\<And>a. Q (f a)) \<Longrightarrow> Q (case v of None \<Rightarrow> x | Some a \<Rightarrow> f a)"
    for v :: "'z option" and x f by (cases v) auto
  have leaf: "Q (Some \<lparr>cr_evidence_ids = [ce_evidence_id e], cr_code = code, cr_evaluated_at = t\<rparr>)" "Q None"
    for code t by (simp_all add: Q_def)
  have "Q (evidence_verdict candles tf e)"
    unfolding evidence_verdict_def validate_evidence_def Let_def
    by (intro if_rule option_rule leaf)
  then show ?thesis using assms by (simp add: Q_def)
qed

text \<open>Evidence is accepted when nothing contradicts it and its own checks pass.\<close>

definition evidence_accepted ::
  "candle list \<Rightarrow> timeframe \<Rightarrow> crt_sweep_evidence list \<Rightarrow> crt_sweep_evidence \<Rightarrow> bool" where
  "evidence_accepted candles tf es e \<longleftrightarrow>
     (\<forall>e'\<in>set es. evidence_key e' = evidence_key e \<longrightarrow> ce_swept_side e' = ce_swept_side e)
     \<and> evidence_verdict candles tf e = None"

lemma group_not_dual_iff:
  assumes "e \<in> set es"
  shows "\<not> dual_sided (filter (\<lambda>e'. evidence_key e' = evidence_key e) es) \<longleftrightarrow>
     (\<forall>e'\<in>set es. evidence_key e' = evidence_key e \<longrightarrow> ce_swept_side e' = ce_swept_side e)"
  using assms unfolding dual_sided_iff set_filter mem_Collect_eq Ball_def Bex_def by metis

lemma confirmations_mem:
  "c \<in> set (concat (map (group_confirmations candles tf) (evidence_groups es))) \<longleftrightarrow>
     (\<exists>e\<in>set es. evidence_accepted candles tf es e \<and> c = confirmation_for candles tf e)"
  (is "?lhs \<longleftrightarrow> ?rhs")
proof
  assume ?lhs
  then obtain g e where "g \<in> set (evidence_groups es)" "\<not> dual_sided g" "e \<in> set g"
    "evidence_verdict candles tf e = None" "c = confirmation_for candles tf e"
    by (auto simp: group_confirmations_def split: if_splits)
  with evidence_group_mem [of g es e] group_not_dual_iff [of e es] show ?rhs
    unfolding evidence_accepted_def by blast
next
  assume ?rhs
  then obtain e where e: "e \<in> set es" "evidence_accepted candles tf es e"
    "c = confirmation_for candles tf e" by blast
  let ?g = "filter (\<lambda>e'. evidence_key e' = evidence_key e) es"
  have "?g \<in> set (evidence_groups es)" "e \<in> set ?g"
    using evidence_group_mem [of ?g es e] e(1) by auto
  moreover have "c \<in> set (group_confirmations candles tf ?g)"
  proof -
    have "\<not> dual_sided ?g" "evidence_verdict candles tf e = None"
      using e(2) group_not_dual_iff [OF e(1)] unfolding evidence_accepted_def by blast+
    then show ?thesis using e(1,3) by (simp add: group_confirmations_def)
  qed
  ultimately show ?lhs by auto
qed

lemma rejections_mem:
  assumes "e \<in> set es" "distinct (map ce_evidence_id es)"
  shows "(\<exists>r\<in>set (concat (map (group_rejections candles tf) (evidence_groups es))).
       ce_evidence_id e \<in> set (cr_evidence_ids r)) \<longleftrightarrow> \<not> evidence_accepted candles tf es e"
  (is "?lhs \<longleftrightarrow> _")
proof
  let ?g = "\<lambda>e. filter (\<lambda>e'. evidence_key e' = evidence_key e) es"
  assume ?lhs
  then obtain g r where g: "g \<in> set (evidence_groups es)" "r \<in> set (group_rejections candles tf g)"
    "ce_evidence_id e \<in> set (cr_evidence_ids r)" by auto
  then obtain e' where e': "e' \<in> set g" "ce_evidence_id e = ce_evidence_id e'"
    "dual_sided g \<or> evidence_verdict candles tf e' \<noteq> None"
    using evidence_verdict_ids
    by (cases "dual_sided g")
      (fastforce simp: group_rejections_def dual_rejection_def List.map_filter_def)+
  have mem: "e' \<in> set es" "g = ?g e'" using evidence_group_mem [of g es e'] g(1) e'(1) by blast+
  have eq: "e' = e"
    using assms e'(2) mem(1) unfolding distinct_map by (metis inj_onD)
  with e'(3) mem(2) group_not_dual_iff [OF assms(1)] show "\<not> evidence_accepted candles tf es e"
    unfolding evidence_accepted_def eq by blast
next
  let ?g = "filter (\<lambda>e'. evidence_key e' = evidence_key e) es"
  assume "\<not> evidence_accepted candles tf es e"
  then have "dual_sided ?g \<or> (\<not> dual_sided ?g \<and> evidence_verdict candles tf e \<noteq> None)"
    using group_not_dual_iff [OF assms(1)] unfolding evidence_accepted_def by argo
  then have "\<exists>r\<in>set (group_rejections candles tf ?g). ce_evidence_id e \<in> set (cr_evidence_ids r)"
  proof
    assume "dual_sided ?g"
    then show ?thesis using assms(1) by (simp add: group_rejections_def dual_rejection_def)
  next
    assume *: "\<not> dual_sided ?g \<and> evidence_verdict candles tf e \<noteq> None"
    then obtain r where r: "evidence_verdict candles tf e = Some r" by blast
    have "r \<in> set (group_rejections candles tf ?g)"
      using * r assms(1) by (force simp: group_rejections_def List.map_filter_def)
    with evidence_verdict_ids [OF r] show ?thesis by force
  qed
  moreover have "?g \<in> set (evidence_groups es)"
    using evidence_group_mem [of ?g es e] assms(1) by auto
  ultimately show ?lhs by auto
qed

lemma analyze_crt_eq:
  assumes "analyze_crt candles tf cfg es = Inr r" "crt_enabled cfg"
  shows "distinct (map ce_evidence_id es)"
    "set (ca_confirmations r)
       = set (concat (map (group_confirmations candles tf) (evidence_groups es)))"
    "ca_rejections r = concat (map (group_rejections candles tf) (evidence_groups es))"
  using assms
  by (auto simp: analyze_crt_def Let_def bind_result_eq_Inr split: if_splits dest!: group_loop_eq)

section \<open>Properties\<close>

text \<open>
  C6: Every confirmation rests on supplied evidence for two consecutive candles of the series: the level
  is the boundary of the range candle on the swept side, the evidence was confirmed no earlier than the
  close of the manipulation candle and no later than the data cutoff, nothing contradicts its side, and
  the third candle is the next one when it exists.
\<close>

theorem crt_confirmations_sound:
  assumes "analyze_crt candles tf cfg es = Inr r" "c \<in> set (ca_confirmations r)"
  shows "\<exists>e\<in>set es. \<exists>i. Suc i < length candles
     \<and> cc_confirmation_id c = ''CRT:'' @ ce_evidence_id e
     \<and> c_timestamp (candles ! i) = ce_range_candle_timestamp e
     \<and> c_timestamp (candles ! Suc i) = ce_manipulation_candle_timestamp e
     \<and> cc_sweep_level c
       = (if ce_swept_side e = SWEPT_HIGH then c_high (candles ! i) else c_low (candles ! i))
     \<and> cc_direction c = (if ce_swept_side e = SWEPT_LOW then CRT_BULLISH else CRT_BEARISH)
     \<and> c_timestamp (candles ! Suc i) + timeframe_duration tf \<le> cc_confirmed_at c
     \<and> cc_confirmed_at c \<le> c_timestamp (last candles) + timeframe_duration tf
     \<and> (\<forall>e'\<in>set es. evidence_key e' = evidence_key e \<longrightarrow> ce_swept_side e' = ce_swept_side e)
     \<and> cc_third_candle_timestamp c
       = (if i + 2 < length candles then Some (c_timestamp (candles ! (i + 2))) else None)"
proof -
  have "crt_enabled cfg"
    using assms by (auto simp: analyze_crt_def Let_def bind_result_eq_Inr split: if_splits)
  note eq = analyze_crt_eq(2) [OF assms(1) this]
  from assms(2) obtain e where e: "e \<in> set es" "evidence_accepted candles tf es e"
    "c = confirmation_for candles tf e"
    unfolding eq confirmations_mem by blast
  then obtain i where i: "by_timestamp candles (ce_range_candle_timestamp e) = Some i"
    "by_timestamp candles (ce_manipulation_candle_timestamp e) = Some (Suc i)"
    "ce_level e = (if ce_swept_side e = SWEPT_HIGH then c_high (candles ! i) else c_low (candles ! i))"
    "c_timestamp (candles ! Suc i) + timeframe_duration tf \<le> ce_confirmed_at e"
    "ce_confirmed_at e \<le> c_timestamp (last candles) + timeframe_duration tf"
    unfolding evidence_accepted_def evidence_verdict_None_iff by blast
  have "\<forall>e'\<in>set es. evidence_key e' = evidence_key e \<longrightarrow> ce_swept_side e' = ce_swept_side e"
    using e(2) unfolding evidence_accepted_def by blast
  moreover have "c = crt_confirmation_of e candles tf i (Suc i)"
    by (simp add: e(3) confirmation_for_def i(1,2))
  then have "cc_confirmation_id c = ''CRT:'' @ ce_evidence_id e"
    "cc_sweep_level c = ce_level e" "cc_confirmed_at c = ce_confirmed_at e"
    "cc_direction c = (if ce_swept_side e = SWEPT_LOW then CRT_BULLISH else CRT_BEARISH)"
    "cc_third_candle_timestamp c
       = (if i + 2 < length candles then Some (c_timestamp (candles ! (i + 2))) else None)"
    by (simp_all add: crt_confirmation_of_def Let_def)
  ultimately show ?thesis
    using i(3-5) by_timestamp_SomeD [OF i(1)] by_timestamp_SomeD [OF i(2)]
    by (intro bexI [OF _ e(1)] exI [of _ i] conjI) simp_all
qed

text \<open>
  Every piece of evidence is answered exactly once: it yields a confirmation under its own id or its
  id appears in a rejection, never both.
\<close>

theorem crt_evidence_answered:
  assumes "analyze_crt candles tf cfg es = Inr r" "crt_enabled cfg" "e \<in> set es"
  shows "(\<exists>c\<in>set (ca_confirmations r). cc_confirmation_id c = ''CRT:'' @ ce_evidence_id e)
     \<noteq> (\<exists>j\<in>set (ca_rejections r). ce_evidence_id e \<in> set (cr_evidence_ids j))"
proof -
  note eq = analyze_crt_eq [OF assms(1,2)]
  have id: "cc_confirmation_id (confirmation_for candles tf e') = ''CRT:'' @ ce_evidence_id e'" for e'
    by (simp add: confirmation_for_def crt_confirmation_of_def Let_def)
  have "(\<exists>c\<in>set (ca_confirmations r). cc_confirmation_id c = ''CRT:'' @ ce_evidence_id e)
      \<longleftrightarrow> evidence_accepted candles tf es e"
    using assms(3) eq(1) unfolding eq(2) Bex_def confirmations_mem
    by (auto simp: id distinct_map dest: inj_onD)
  then show ?thesis unfolding eq(3) rejections_mem [OF assms(3) eq(1)] by simp
qed

section \<open>When the analysis returns\<close>

definition confirmable :: "candle list \<Rightarrow> timeframe \<Rightarrow> crt_sweep_evidence \<Rightarrow> bool" where
  "confirmable candles tf e \<longleftrightarrow>
     (\<exists>c. make_crt_confirmation (confirmation_for candles tf e) = Inr c)"

lemma evidence_step_total:
  "(\<exists>t. evidence_step candles tf e s = Inr t) \<longleftrightarrow>
     (evidence_verdict candles tf e = None \<longrightarrow> confirmable candles tf e)"
  by (auto simp: evidence_step_def evidence_verdict_def confirmation_for_def confirmable_def Let_def
      bind_result_eq_Inr split: option.splits)

lemma evidence_loop_total:
  "(\<exists>t. for_each (evidence_step candles tf) es s = Inr t) \<longleftrightarrow>
     (\<forall>e\<in>set es. evidence_verdict candles tf e = None \<longrightarrow> confirmable candles tf e)"
proof (induction es arbitrary: s)
  case (Cons e es)
  show ?case
  proof (cases "evidence_step candles tf e s")
    case (Inl err)
    then show ?thesis using evidence_step_total [of candles tf e s] by auto
  next
    case (Inr u)
    then show ?thesis using evidence_step_total [of candles tf e s] Cons.IH [of u] by auto
  qed
qed simp

lemma group_loop_total:
  "(\<exists>t. for_each (group_step candles tf) gs s = Inr t) \<longleftrightarrow>
     (\<forall>g\<in>set gs. \<not> dual_sided g \<longrightarrow>
        (\<forall>e\<in>set g. evidence_verdict candles tf e = None \<longrightarrow> confirmable candles tf e))"
proof (induction gs arbitrary: s)
  case (Cons g gs)
  have g: "(\<exists>t. group_step candles tf g s = Inr t) \<longleftrightarrow> (\<not> dual_sided g \<longrightarrow>
        (\<forall>e\<in>set g. evidence_verdict candles tf e = None \<longrightarrow> confirmable candles tf e))"
    using evidence_loop_total by (simp add: group_step_def)
  show ?case
  proof (cases "group_step candles tf g s")
    case (Inl err)
    then show ?thesis using g by auto
  next
    case (Inr u)
    then show ?thesis using g Cons.IH [of u] by auto
  qed
qed simp

lemma groups_confirmable_iff:
  "(\<forall>g\<in>set (evidence_groups es). \<not> dual_sided g \<longrightarrow>
        (\<forall>e\<in>set g. evidence_verdict candles tf e = None \<longrightarrow> confirmable candles tf e))
   \<longleftrightarrow> (\<forall>e\<in>set es. evidence_accepted candles tf es e \<longrightarrow> confirmable candles tf e)"
proof -
  have "(g \<in> set (evidence_groups es) \<and> \<not> dual_sided g \<and> e \<in> set g
        \<and> evidence_verdict candles tf e = None)
    \<longleftrightarrow> e \<in> set es \<and> g = filter (\<lambda>e'. evidence_key e' = evidence_key e) es
        \<and> evidence_accepted candles tf es e" for g e
    using evidence_group_mem [of g es e] group_not_dual_iff [of e es]
    unfolding evidence_accepted_def by blast
  then show ?thesis by blast
qed

lemma confirmable_iff:
  assumes "evidence_verdict candles tf e = None" "\<forall>c\<in>set candles. candle_valid c"
    and i: "by_timestamp candles (ce_range_candle_timestamp e) = Some i"
  shows "confirmable candles tf e \<longleftrightarrow> c_low (candles ! i) < c_high (candles ! i)"
proof -
  have v: "by_timestamp candles (ce_manipulation_candle_timestamp e) = Some (Suc i)"
    "ce_level e = (if ce_swept_side e = SWEPT_HIGH then c_high (candles ! i) else c_low (candles ! i))"
    "c_timestamp (candles ! Suc i) + timeframe_duration tf \<le> ce_confirmed_at e"
    using assms(1) i unfolding evidence_verdict_None_iff by auto
  have "candle_valid (candles ! i)" using by_timestamp_SomeD [OF i] assms(2) by simp
  then have pos: "0 < c_high (candles ! i)" "0 < c_low (candles ! i)"
    by (simp_all add: candle_valid_iff candle_fields_def)
  have third: "0 < c_open (candles ! Suc (Suc i))" if "Suc (Suc i) < length candles"
    using that assms(2) by (simp add: candle_valid_iff candle_fields_def)
  show ?thesis
    using pos third v(2,3)
    by (simp add: confirmable_def confirmation_for_def i v(1) crt_confirmation_of_def Let_def
        make_crt_confirmation_def validate_reference_roles_def not_le)
qed

text \<open>
  C14: When the analysis returns. On a gapless series of valid candles with unique evidence ids the
  analysis returns exactly when the range candle of every accepted piece of evidence has a positive
  range: accepted evidence for a flat range candle makes the confirmation's own validator raise, and
  the whole analysis with it, instead of being rejected with a code.
\<close>

theorem crt_returns_iff:
  assumes "validate_candles candles (timeframe_duration tf) = Inr ()"
    and "\<forall>c\<in>set candles. candle_valid c" "crt_enabled cfg" "distinct (map ce_evidence_id es)"
  shows "(\<exists>r. analyze_crt candles tf cfg es = Inr r) \<longleftrightarrow>
     (\<forall>e\<in>set es. \<forall>i. evidence_accepted candles tf es e
        \<and> by_timestamp candles (ce_range_candle_timestamp e) = Some i
        \<longrightarrow> c_low (candles ! i) < c_high (candles ! i))"
proof -
  have "(\<exists>r. analyze_crt candles tf cfg es = Inr r) \<longleftrightarrow>
      (\<exists>t. for_each (group_step candles tf) (evidence_groups es) ([], []) = Inr t)"
    using assms(1,3,4) by (auto simp: analyze_crt_def Let_def bind_result_eq_Inr)
  also have "\<dots> \<longleftrightarrow> (\<forall>e\<in>set es. evidence_accepted candles tf es e \<longrightarrow> confirmable candles tf e)"
    unfolding group_loop_total groups_confirmable_iff ..
  also have "\<dots> \<longleftrightarrow> (\<forall>e\<in>set es. \<forall>i. evidence_accepted candles tf es e
        \<and> by_timestamp candles (ce_range_candle_timestamp e) = Some i
        \<longrightarrow> c_low (candles ! i) < c_high (candles ! i))"
  proof -
    have "confirmable candles tf e \<longleftrightarrow> (\<forall>i. by_timestamp candles (ce_range_candle_timestamp e) = Some i
        \<longrightarrow> c_low (candles ! i) < c_high (candles ! i))"
      if "evidence_accepted candles tf es e" for e
    proof -
      have n: "evidence_verdict candles tf e = None"
        using that unfolding evidence_accepted_def by blast
      then obtain i where "by_timestamp candles (ce_range_candle_timestamp e) = Some i"
        unfolding evidence_verdict_None_iff by blast
      with confirmable_iff [OF n assms(2)] show ?thesis by simp
    qed
    then show ?thesis by blast
  qed
  finally show ?thesis .
qed

section \<open>A sample analysis\<close>

definition sample_range_candle :: "utc_time \<Rightarrow> rat \<Rightarrow> rat \<Rightarrow> candle" where
  "sample_range_candle t l h =
     \<lparr>c_timestamp = t, c_open = l, c_high = h, c_low = l, c_close = h, c_volume = 0\<rparr>"

definition sample_sweep :: "string \<Rightarrow> crt_swept_side \<Rightarrow> rat \<Rightarrow> crt_sweep_evidence" where
  "sample_sweep i side l =
     \<lparr>ce_evidence_id = i, ce_source_event_id = ''src'', ce_range_candle_timestamp = 0,
      ce_manipulation_candle_timestamp = minutes 1, ce_swept_side = side, ce_level = l,
      ce_confirmed_at = minutes 2\<rparr>"

definition sample_crt_config :: crt_config where
  "sample_crt_config = \<lparr>crt_enabled = True, crt_signal_uses = [USE_FILTER], crt_weight = Some 2\<rparr>"

definition sample_series :: "rat \<Rightarrow> candle list" where
  "sample_series h = [sample_range_candle 0 5 h, sample_range_candle (minutes 1) 4 8,
     sample_range_candle (minutes 2) 6 9]"

definition sample_crt_result :: crt_analysis_result where
  "sample_crt_result =
     \<lparr>ca_enabled = True, ca_timeframe = ONE_MINUTE, ca_data_cutoff_at = Some (minutes 3),
      ca_confirmations = [crt_confirmation_of (sample_sweep ''a'' SWEPT_LOW 5) (sample_series 7)
        ONE_MINUTE 0 1], ca_rejections = []\<rparr>"

lemma sample_crt_analysis:
  "analyze_crt (sample_series 7) ONE_MINUTE sample_crt_config [sample_sweep ''a'' SWEPT_LOW 5]
     = Inr sample_crt_result"
  by code_simp

theorem crt_confirmations_sound_witness:
  "\<exists>c\<in>set (ca_confirmations sample_crt_result). cc_confirmation_id c = ''CRT:a''"
  using crt_confirmations_sound [OF sample_crt_analysis]
  by (auto simp: sample_crt_result_def sample_sweep_def)

theorem crt_returns_iff_witness:
  "\<not> (\<exists>r. analyze_crt (sample_series 5) ONE_MINUTE sample_crt_config
       [sample_sweep ''a'' SWEPT_LOW 5] = Inr r)"
proof -
  have "validate_candles (sample_series 5) (timeframe_duration ONE_MINUTE) = Inr ()" by code_simp
  moreover have "\<forall>c\<in>set (sample_series 5). candle_valid c"
    by (simp add: sample_series_def sample_range_candle_def candle_valid_iff candle_fields_def)
  moreover have "evidence_verdict (sample_series 5) ONE_MINUTE (sample_sweep ''a'' SWEPT_LOW 5) = None"
    "by_timestamp (sample_series 5) 0 = Some 0" "c_low (sample_series 5 ! 0) = c_high (sample_series 5 ! 0)"
    by code_simp+
  ultimately show ?thesis
    by (subst crt_returns_iff) (auto simp: sample_crt_config_def evidence_accepted_def sample_sweep_def)
qed

end
