(* ===== verification/Signal_Score.thy ===== *)
theory Signal_Score
  imports CRT_Detector
begin

text \<open>
  The weighted signal score: the data model (\<open>schemas/signal_score.py\<close>) and
  \<open>calculate_signal_score\<close> (\<open>engines/signal/score.py\<close>). Scores are Python integers. A dictionary keyed
  by the score components is a partial function of the component; the breakdown of a result keeps the
  order of the enumeration.
\<close>

datatype signal_score_decision = LONG_CANDIDATE | SHORT_CANDIDATE | SCORE_NO_TRADE

datatype signal_evidence_direction = EV_BULLISH | EV_BEARISH | EV_NEUTRAL

datatype signal_score_component =
    MACD | BOS | MSS | LIQUIDITY_SWEEP | FVG | ORDER_BLOCK | DISPLACEMENT
  | SUPPORT_RESISTANCE | HTF_ALIGNMENT

datatype signal_score_reason_code =
    SCORE_LONG_THRESHOLD_MET | SCORE_SHORT_THRESHOLD_MET | SCORE_BELOW_THRESHOLDS
  | HTF_CONFLICT_VETO | CRT_CONFIRMATION_MATCH | CRT_CONFIRMATION_MISSING
  | CRT_CONFIRMATION_CONFLICT | CRT_FILTER_MISSING | CRT_FILTER_DIRECTION_CONFLICT

datatype empirical_validation_status = UNVALIDATED | BACKTESTED | VALIDATED

instantiation signal_score_component :: enum
begin

definition
  "enum_signal_score_component = [MACD, BOS, MSS, LIQUIDITY_SWEEP, FVG, ORDER_BLOCK, DISPLACEMENT,
     SUPPORT_RESISTANCE, HTF_ALIGNMENT]"

definition
  "enum_all_signal_score_component P \<longleftrightarrow> P MACD \<and> P BOS \<and> P MSS \<and> P LIQUIDITY_SWEEP \<and> P FVG
     \<and> P ORDER_BLOCK \<and> P DISPLACEMENT \<and> P SUPPORT_RESISTANCE \<and> P HTF_ALIGNMENT"

definition
  "enum_ex_signal_score_component P \<longleftrightarrow> P MACD \<or> P BOS \<or> P MSS \<or> P LIQUIDITY_SWEEP \<or> P FVG
     \<or> P ORDER_BLOCK \<or> P DISPLACEMENT \<or> P SUPPORT_RESISTANCE \<or> P HTF_ALIGNMENT"

instance
proof
  show univ: "(UNIV :: signal_score_component set) = set enum_class.enum"
    unfolding enum_signal_score_component_def using signal_score_component.exhaust by auto
  show "distinct (enum_class.enum :: signal_score_component list)"
    by (simp add: enum_signal_score_component_def)
  show "enum_class.enum_all P \<longleftrightarrow> Ball (UNIV :: signal_score_component set) P" for P
    unfolding univ by (simp add: enum_signal_score_component_def enum_all_signal_score_component_def)
  show "enum_class.enum_ex P \<longleftrightarrow> Bex (UNIV :: signal_score_component set) P" for P
    unfolding univ by (simp add: enum_signal_score_component_def enum_ex_signal_score_component_def)
qed

end

record signal_score_thresholds =
  st_long_threshold :: int
  st_short_threshold :: int
  st_veto_on_htf_conflict :: bool

definition thresholds_valid :: "signal_score_thresholds \<Rightarrow> bool" where
  "thresholds_valid t \<longleftrightarrow>
     0 < st_long_threshold t \<and> st_short_threshold t < 0 \<and> st_short_threshold t < st_long_threshold t"

record signal_score_weights =
  sw_macd :: int
  sw_bos :: int
  sw_mss :: int
  sw_liquidity_sweep :: int
  sw_fvg :: int
  sw_order_block :: int
  sw_displacement :: int
  sw_support_resistance :: int
  sw_htf_alignment :: int

fun as_component_map :: "signal_score_weights \<Rightarrow> signal_score_component \<Rightarrow> int" where
  "as_component_map w MACD = sw_macd w"
| "as_component_map w BOS = sw_bos w"
| "as_component_map w MSS = sw_mss w"
| "as_component_map w LIQUIDITY_SWEEP = sw_liquidity_sweep w"
| "as_component_map w FVG = sw_fvg w"
| "as_component_map w ORDER_BLOCK = sw_order_block w"
| "as_component_map w DISPLACEMENT = sw_displacement w"
| "as_component_map w SUPPORT_RESISTANCE = sw_support_resistance w"
| "as_component_map w HTF_ALIGNMENT = sw_htf_alignment w"

definition weights_valid :: "signal_score_weights \<Rightarrow> bool" where
  "weights_valid w \<longleftrightarrow> (\<forall>c\<in>set enum_class.enum. 0 \<le> as_component_map w c)"

record strategy_score_config =
  sg_empirical_validation_status :: empirical_validation_status
  sg_signal :: signal_score_thresholds
  sg_weights :: signal_score_weights
  sg_crt :: crt_config

definition score_config_valid :: "strategy_score_config \<Rightarrow> bool" where
  "score_config_valid c \<longleftrightarrow>
     thresholds_valid (sg_signal c) \<and> weights_valid (sg_weights c) \<and> crt_config_valid (sg_crt c)"

record signal_component_evidence =
  sv_direction :: signal_evidence_direction
  sv_confirmed_at :: utc_time
  sv_source_ids :: "string list"

text \<open>\<open>str.strip\<close> on the code points Python treats as white space below 256.\<close>

definition py_space :: "char \<Rightarrow> bool" where
  "py_space ch \<longleftrightarrow> (let n = of_char ch :: nat
     in 9 \<le> n \<and> n \<le> 13 \<or> 28 \<le> n \<and> n \<le> 32 \<or> n = 133 \<or> n = 160)"

definition blank :: "string \<Rightarrow> bool" where
  "blank s \<longleftrightarrow> list_all py_space s"

definition require_nonblank_unique_sources :: "string list \<Rightarrow> string list result" where
  "require_nonblank_unique_sources v =
     (if v = [] then Inl (ValidationError ''source_ids field'')
      else if list_ex blank v
      then Inl (ValidationError ''source_ids must not contain blank values'')
      else if \<not> distinct v then Inl (ValidationError ''source_ids must be unique'')
      else Inr v)"

record signal_score_evidence =
  sev_decision_time :: utc_time
  sev_components :: "signal_score_component \<Rightarrow> signal_component_evidence option"
  sev_higher_timeframe_conflict :: bool
  sev_crt_confirmation :: "crt_confirmation option"

definition prevent_future_evidence :: "signal_score_evidence \<Rightarrow> signal_score_evidence result" where
  "prevent_future_evidence e =
     (if list_ex (\<lambda>c. case sev_components e c of None \<Rightarrow> False
          | Some v \<Rightarrow> sv_confirmed_at v > sev_decision_time e) enum_class.enum
      then Inl (ValidationError ''component evidence confirms after decision_time'')
      else if (case sev_crt_confirmation e of None \<Rightarrow> False
          | Some c \<Rightarrow> cc_confirmed_at c > sev_decision_time e)
      then Inl (ValidationError ''CRT confirmation confirms after decision_time'')
      else Inr e)"

record signal_score_result =
  sr_decision :: signal_score_decision
  sr_score :: int
  sr_score_breakdown :: "(signal_score_component \<times> int) list"
  sr_crt_score_contribution :: int
  sr_crt_confirmation_status :: crt_signal_match_status
  sr_decision_time :: utc_time
  sr_strategy_version :: string
  sr_empirical_validation_status :: empirical_validation_status
  sr_reason_codes :: "signal_score_reason_code list"

definition validate_score_audit :: "signal_score_result \<Rightarrow> signal_score_result result" where
  "validate_score_audit r =
     (if \<not> list_all (\<lambda>c. c \<in> fst ` set (sr_score_breakdown r)) enum_class.enum
      then Inl (ValidationError ''score_breakdown must contain every score component'')
      else if sum_list (map snd (sr_score_breakdown r)) + sr_crt_score_contribution r \<noteq> sr_score r
      then Inl (ValidationError ''score must equal core breakdown plus explicit CRT contribution'')
      else Inr r)"

section \<open>The score\<close>

definition component_contribution :: "int \<Rightarrow> signal_evidence_direction \<Rightarrow> int" where
  "component_contribution weight direction =
     (if direction = EV_BULLISH then weight else if direction = EV_BEARISH then - weight else 0)"

definition crt_contribution :: "signal_score_evidence \<Rightarrow> strategy_score_config \<Rightarrow> int" where
  "crt_contribution e cfg =
     (case (crt_weight (sg_crt cfg), sev_crt_confirmation e) of
        (Some w, Some c) \<Rightarrow>
          if \<not> crt_enabled (sg_crt cfg) then 0
          else if cc_direction c = CRT_BULLISH then w else - w
      | _ \<Rightarrow> 0)"

definition crt_match_status ::
  "signal_score_decision \<Rightarrow> signal_score_evidence \<Rightarrow> strategy_score_config \<Rightarrow> crt_signal_match_status" where
  "crt_match_status decision e cfg =
     (if \<not> crt_enabled (sg_crt cfg) then CRT_DISABLED
      else if crt_signal_uses (sg_crt cfg) = [] \<and> crt_weight (sg_crt cfg) = None then CRT_NOT_USED
      else case sev_crt_confirmation e of
        None \<Rightarrow> CRT_MISSING
      | Some c \<Rightarrow>
          if decision = SCORE_NO_TRADE then CRT_NOT_USED
          else if cc_direction c = (if decision = LONG_CANDIDATE then CRT_BULLISH else CRT_BEARISH)
          then CRT_MATCH else CRT_DIRECTION_CONFLICT)"

definition score_breakdown_of ::
  "signal_score_evidence \<Rightarrow> strategy_score_config \<Rightarrow> (signal_score_component \<times> int) list" where
  "score_breakdown_of e cfg =
     map (\<lambda>c. (c, component_contribution (as_component_map (sg_weights cfg) c)
        (case sev_components e c of None \<Rightarrow> EV_NEUTRAL | Some v \<Rightarrow> sv_direction v))) enum_class.enum"

definition threshold_decision :: "signal_score_evidence \<Rightarrow> strategy_score_config \<Rightarrow> int \<Rightarrow>
    signal_score_decision \<times> signal_score_reason_code" where
  "threshold_decision e cfg score =
     (if sev_higher_timeframe_conflict e \<and> st_veto_on_htf_conflict (sg_signal cfg)
      then (SCORE_NO_TRADE, HTF_CONFLICT_VETO)
      else if score \<ge> st_long_threshold (sg_signal cfg) then (LONG_CANDIDATE, SCORE_LONG_THRESHOLD_MET)
      else if score \<le> st_short_threshold (sg_signal cfg)
      then (SHORT_CANDIDATE, SCORE_SHORT_THRESHOLD_MET)
      else (SCORE_NO_TRADE, SCORE_BELOW_THRESHOLDS))"

definition confirmation_reasons ::
  "crt_signal_match_status \<Rightarrow> strategy_score_config \<Rightarrow> signal_score_reason_code list" where
  "confirmation_reasons status cfg =
     (if crt_enabled (sg_crt cfg) \<and> USE_CONFIRMATION \<in> set (crt_signal_uses (sg_crt cfg))
      then case status of
          CRT_MATCH \<Rightarrow> [CRT_CONFIRMATION_MATCH]
        | CRT_MISSING \<Rightarrow> [CRT_CONFIRMATION_MISSING]
        | CRT_DIRECTION_CONFLICT \<Rightarrow> [CRT_CONFIRMATION_CONFLICT]
        | _ \<Rightarrow> []
      else [])"

definition apply_crt_filter :: "signal_score_decision \<Rightarrow> signal_score_reason_code list \<Rightarrow>
    crt_signal_match_status \<Rightarrow> strategy_score_config \<Rightarrow>
    signal_score_decision \<times> signal_score_reason_code list" where
  "apply_crt_filter decision reasons status cfg =
     (if decision \<noteq> SCORE_NO_TRADE \<and> crt_enabled (sg_crt cfg)
         \<and> USE_FILTER \<in> set (crt_signal_uses (sg_crt cfg))
      then case status of
          CRT_MISSING \<Rightarrow> (SCORE_NO_TRADE, reasons @ [CRT_FILTER_MISSING])
        | CRT_DIRECTION_CONFLICT \<Rightarrow> (SCORE_NO_TRADE, reasons @ [CRT_FILTER_DIRECTION_CONFLICT])
        | _ \<Rightarrow> (decision, reasons)
      else (decision, reasons))"

definition calculate_signal_score ::
  "signal_score_evidence \<Rightarrow> strategy_score_config \<Rightarrow> string \<Rightarrow> signal_score_result result" where
  "calculate_signal_score e cfg strategy_version =
     (let score_breakdown = score_breakdown_of e cfg;
          contribution = crt_contribution e cfg;
          score = sum_list (map snd score_breakdown) + contribution;
          (decision, reason) = threshold_decision e cfg score;
          status = crt_match_status decision e cfg;
          reason_list = reason # confirmation_reasons status cfg;
          (decision, reason_list) = apply_crt_filter decision reason_list status cfg
      in validate_score_audit
        \<lparr>sr_decision = decision, sr_score = score, sr_score_breakdown = score_breakdown,
         sr_crt_score_contribution = contribution, sr_crt_confirmation_status = status,
         sr_decision_time = sev_decision_time e, sr_strategy_version = strategy_version,
         sr_empirical_validation_status = sg_empirical_validation_status cfg,
         sr_reason_codes = reason_list\<rparr>)"

section \<open>Lemmas\<close>

lemma score_audit_ok:
  "sr_score_breakdown r = score_breakdown_of e cfg \<Longrightarrow>
   sr_score r = sum_list (map snd (score_breakdown_of e cfg)) + sr_crt_score_contribution r \<Longrightarrow>
   validate_score_audit r = Inr r"
  by (force simp: validate_score_audit_def score_breakdown_of_def list_all_iff)

text \<open>The final decision as a table.\<close>

definition final_decision :: "signal_score_evidence \<Rightarrow> strategy_score_config \<Rightarrow> int \<Rightarrow> signal_score_decision" where
  "final_decision e cfg score =
     (let d = fst (threshold_decision e cfg score)
      in if d \<noteq> SCORE_NO_TRADE \<and> crt_enabled (sg_crt cfg) \<and> USE_FILTER \<in> set (crt_signal_uses (sg_crt cfg))
            \<and> crt_match_status d e cfg \<noteq> CRT_MATCH
         then SCORE_NO_TRADE else d)"

definition total_score :: "signal_score_evidence \<Rightarrow> strategy_score_config \<Rightarrow> int" where
  "total_score e cfg = sum_list (map snd (score_breakdown_of e cfg)) + crt_contribution e cfg"

lemma match_status_filtering:
  "d \<noteq> SCORE_NO_TRADE \<Longrightarrow> crt_enabled (sg_crt cfg) \<Longrightarrow> USE_FILTER \<in> set (crt_signal_uses (sg_crt cfg))
   \<Longrightarrow> crt_match_status d e cfg \<in> {CRT_MISSING, CRT_MATCH, CRT_DIRECTION_CONFLICT}"
  by (auto simp: crt_match_status_def split: option.splits)

lemma calculate_signal_score_eq:
  "\<exists>r. calculate_signal_score e cfg v = Inr r \<and> sr_score r = total_score e cfg
     \<and> sr_decision r = final_decision e cfg (total_score e cfg)
     \<and> sr_score_breakdown r = score_breakdown_of e cfg
     \<and> sr_crt_score_contribution r = crt_contribution e cfg
     \<and> sr_crt_confirmation_status r
       = crt_match_status (fst (threshold_decision e cfg (total_score e cfg))) e cfg"
proof -
  obtain d reason where d: "threshold_decision e cfg (total_score e cfg) = (d, reason)" by force
  let ?status = "crt_match_status d e cfg"
  obtain d' rs where f: "apply_crt_filter d (reason # confirmation_reasons ?status cfg) ?status cfg = (d', rs)"
    by force
  have "d' = final_decision e cfg (total_score e cfg)"
    using f match_status_filtering [of d cfg e]
    by (auto simp: apply_crt_filter_def final_decision_def d split: if_splits)
  moreover have "calculate_signal_score e cfg v = validate_score_audit
        \<lparr>sr_decision = d', sr_score = total_score e cfg, sr_score_breakdown = score_breakdown_of e cfg,
         sr_crt_score_contribution = crt_contribution e cfg, sr_crt_confirmation_status = ?status,
         sr_decision_time = sev_decision_time e, sr_strategy_version = v,
         sr_empirical_validation_status = sg_empirical_validation_status cfg,
         sr_reason_codes = rs\<rparr>"
    using d f by (simp add: calculate_signal_score_def Let_def total_score_def)
  ultimately show ?thesis
    by (simp add: score_audit_ok [of _ e cfg] total_score_def d [unfolded total_score_def])
qed

lemma sum_list_abs_le:
  fixes f g :: "'a \<Rightarrow> int"
  shows "\<forall>x\<in>set xs. \<bar>f x\<bar> \<le> g x \<Longrightarrow> \<bar>sum_list (map f xs)\<bar> \<le> sum_list (map g xs)"
  by (induction xs) auto

section \<open>Properties\<close>

text \<open>
  The score is total and auditable: the calculation never raises, the score is the sum of the
  signed weights of the evidence plus the explicit CRT contribution, and with valid weights its
  magnitude never exceeds the sum of the weights.
\<close>

theorem signal_score_audit:
  "\<exists>r. calculate_signal_score e cfg v = Inr r
     \<and> sr_score r = sum_list (map (\<lambda>c. component_contribution (as_component_map (sg_weights cfg) c)
         (case sev_components e c of None \<Rightarrow> EV_NEUTRAL | Some x \<Rightarrow> sv_direction x)) enum_class.enum)
       + sr_crt_score_contribution r
     \<and> (score_config_valid cfg \<longrightarrow> \<bar>sr_score r\<bar> \<le> sum_list (map (as_component_map (sg_weights cfg)) enum_class.enum)
         + (case crt_weight (sg_crt cfg) of None \<Rightarrow> 0 | Some w \<Rightarrow> w))"
proof -
  let ?f = "\<lambda>c. component_contribution (as_component_map (sg_weights cfg) c)
         (case sev_components e c of None \<Rightarrow> EV_NEUTRAL | Some x \<Rightarrow> sv_direction x)"
  obtain r where r: "calculate_signal_score e cfg v = Inr r" "sr_score r = total_score e cfg"
    "sr_crt_score_contribution r = crt_contribution e cfg"
    using calculate_signal_score_eq by blast
  have sum: "total_score e cfg = sum_list (map ?f enum_class.enum) + crt_contribution e cfg"
    by (simp add: total_score_def score_breakdown_of_def o_def)
  have "\<bar>total_score e cfg\<bar> \<le> sum_list (map (as_component_map (sg_weights cfg)) enum_class.enum)
         + (case crt_weight (sg_crt cfg) of None \<Rightarrow> 0 | Some w \<Rightarrow> w)" if v: "score_config_valid cfg"
  proof -
    have "\<bar>sum_list (map ?f enum_class.enum)\<bar>
        \<le> sum_list (map (as_component_map (sg_weights cfg)) enum_class.enum)"
      using v by (intro sum_list_abs_le)
        (auto simp: score_config_valid_def weights_valid_def component_contribution_def)
    moreover have "\<bar>crt_contribution e cfg\<bar> \<le> (case crt_weight (sg_crt cfg) of None \<Rightarrow> 0 | Some w \<Rightarrow> w)"
      using v by (auto simp: score_config_valid_def crt_config_valid_def crt_contribution_def
          split: option.splits)
    ultimately show ?thesis unfolding sum by linarith
  qed
  with r sum show ?thesis by auto
qed

text \<open>
  C5: A trade candidate is never produced against its gates: the score reaches the threshold of its
  side, a vetoed timeframe conflict is absent, and when CRT is a filter a confirmation exists and has
  the direction of the candidate. Conversely a score past a threshold that no gate stops is a candidate.
\<close>

theorem signal_score_gates:
  assumes "score_config_valid cfg" "calculate_signal_score e cfg v = Inr r"
    and "open_gates = (\<lambda>d. \<not> (sev_higher_timeframe_conflict e \<and> st_veto_on_htf_conflict (sg_signal cfg))
      \<and> (crt_enabled (sg_crt cfg) \<and> USE_FILTER \<in> set (crt_signal_uses (sg_crt cfg)) \<longrightarrow>
         (\<exists>c. sev_crt_confirmation e = Some c \<and> cc_direction c = d)))"
  shows "((sr_decision r = LONG_CANDIDATE) \<longleftrightarrow>
       st_long_threshold (sg_signal cfg) \<le> sr_score r \<and> open_gates CRT_BULLISH)
     \<and> ((sr_decision r = SHORT_CANDIDATE) \<longleftrightarrow>
       sr_score r \<le> st_short_threshold (sg_signal cfg) \<and> open_gates CRT_BEARISH)"
proof -
  have r: "sr_decision r = final_decision e cfg (sr_score r)"
    using calculate_signal_score_eq [of e cfg v] assms(2) by auto
  have t: "st_short_threshold (sg_signal cfg) < 0" "0 < st_long_threshold (sg_signal cfg)"
    using assms(1) by (simp_all add: score_config_valid_def thresholds_valid_def)
  let ?filter = "crt_enabled (sg_crt cfg) \<and> USE_FILTER \<in> set (crt_signal_uses (sg_crt cfg))"
  have match: "crt_match_status d e cfg = CRT_MATCH \<longleftrightarrow> (\<exists>c. sev_crt_confirmation e = Some c
      \<and> cc_direction c = (if d = LONG_CANDIDATE then CRT_BULLISH else CRT_BEARISH))"
    if ?filter "d \<noteq> SCORE_NO_TRADE" for d
    using that by (auto simp: crt_match_status_def split: option.splits)
  have "(d \<noteq> SCORE_NO_TRADE \<and> ?filter \<and> crt_match_status d e cfg \<noteq> CRT_MATCH)
      = (d \<noteq> SCORE_NO_TRADE \<and> ?filter \<and> \<not> (\<exists>c. sev_crt_confirmation e = Some c
      \<and> cc_direction c = (if d = LONG_CANDIDATE then CRT_BULLISH else CRT_BEARISH)))" for d
    using match [of d] by blast
  then show ?thesis
    using t unfolding r final_decision_def Let_def assms(3) threshold_decision_def by auto
qed

text \<open>The mirror image of the evidence and of the configuration.\<close>

fun mirror_direction :: "signal_evidence_direction \<Rightarrow> signal_evidence_direction" where
  "mirror_direction EV_BULLISH = EV_BEARISH"
| "mirror_direction EV_BEARISH = EV_BULLISH"
| "mirror_direction EV_NEUTRAL = EV_NEUTRAL"

fun mirror_decision :: "signal_score_decision \<Rightarrow> signal_score_decision" where
  "mirror_decision LONG_CANDIDATE = SHORT_CANDIDATE"
| "mirror_decision SHORT_CANDIDATE = LONG_CANDIDATE"
| "mirror_decision SCORE_NO_TRADE = SCORE_NO_TRADE"

definition mirror_crt :: "crt_confirmation \<Rightarrow> crt_confirmation" where
  "mirror_crt c = c\<lparr>cc_direction := (if cc_direction c = CRT_BULLISH then CRT_BEARISH else CRT_BULLISH)\<rparr>"

definition mirror_evidence :: "signal_score_evidence \<Rightarrow> signal_score_evidence" where
  "mirror_evidence e = e
     \<lparr>sev_components := (\<lambda>c. map_option (\<lambda>v. v\<lparr>sv_direction := mirror_direction (sv_direction v)\<rparr>)
          (sev_components e c)),
      sev_crt_confirmation := map_option mirror_crt (sev_crt_confirmation e)\<rparr>"

definition mirror_config :: "strategy_score_config \<Rightarrow> strategy_score_config" where
  "mirror_config cfg = cfg
     \<lparr>sg_signal := \<lparr>st_long_threshold = - st_short_threshold (sg_signal cfg),
        st_short_threshold = - st_long_threshold (sg_signal cfg),
        st_veto_on_htf_conflict = st_veto_on_htf_conflict (sg_signal cfg)\<rparr>\<rparr>"

lemmas mirror_defs = mirror_evidence_def mirror_config_def mirror_crt_def

lemma mirror_contribution:
  "component_contribution w (mirror_direction d) = - component_contribution w d"
  by (cases d) (simp_all add: component_contribution_def)

lemma not_bullish: "d \<noteq> CRT_BULLISH \<longleftrightarrow> d = CRT_BEARISH"
  by (cases d) simp_all

lemma mirror_total_score: "total_score (mirror_evidence e) (mirror_config cfg) = - total_score e cfg"
proof -
  have "map snd (score_breakdown_of (mirror_evidence e) (mirror_config cfg))
      = map (\<lambda>c. - component_contribution (as_component_map (sg_weights cfg) c)
         (case sev_components e c of None \<Rightarrow> EV_NEUTRAL | Some v \<Rightarrow> sv_direction v)) enum_class.enum"
    by (auto simp: score_breakdown_of_def mirror_defs simp flip: mirror_contribution
        split: option.splits)
  then have "sum_list (map snd (score_breakdown_of (mirror_evidence e) (mirror_config cfg)))
      = - sum_list (map snd (score_breakdown_of e cfg))"
    by (simp only:) (simp add: score_breakdown_of_def o_def uminus_sum_list_map)
  moreover have "crt_contribution (mirror_evidence e) (mirror_config cfg) = - crt_contribution e cfg"
    by (auto simp: crt_contribution_def mirror_defs not_bullish split: option.splits)
  ultimately show ?thesis by (simp add: total_score_def)
qed

lemma mirror_status:
  "crt_match_status (mirror_decision d) (mirror_evidence e) (mirror_config cfg)
     = crt_match_status d e cfg"
  by (cases d) (auto simp: crt_match_status_def mirror_defs not_bullish split: option.splits)

text \<open>
  The score has no bias: turning every bullish piece of evidence bearish and back, and exchanging the
  thresholds, negates the score and exchanges long and short, with the same CRT status.
\<close>

theorem signal_score_mirror:
  assumes "score_config_valid cfg" "calculate_signal_score e cfg v = Inr r"
  shows "\<exists>r'. calculate_signal_score (mirror_evidence e) (mirror_config cfg) v = Inr r'
     \<and> sr_score r' = - sr_score r \<and> sr_decision r' = mirror_decision (sr_decision r)
     \<and> sr_crt_confirmation_status r' = sr_crt_confirmation_status r"
proof -
  let ?s = "total_score e cfg"
  have r: "sr_score r = ?s" "sr_decision r = final_decision e cfg ?s"
    "sr_crt_confirmation_status r = crt_match_status (fst (threshold_decision e cfg ?s)) e cfg"
    using calculate_signal_score_eq [of e cfg v] assms(2) by auto
  have d: "fst (threshold_decision (mirror_evidence e) (mirror_config cfg) (- s))
      = mirror_decision (fst (threshold_decision e cfg s))" for s
    using assms(1) by (auto simp: threshold_decision_def mirror_defs score_config_valid_def
        thresholds_valid_def)
  have no: "mirror_decision x = SCORE_NO_TRADE \<longleftrightarrow> x = SCORE_NO_TRADE" for x by (cases x) simp_all
  have same: "sg_crt (mirror_config cfg) = sg_crt cfg" by (simp add: mirror_config_def)
  have "final_decision (mirror_evidence e) (mirror_config cfg) (- ?s)
      = mirror_decision (final_decision e cfg ?s)"
    by (simp add: final_decision_def d mirror_status Let_def no same)
  with calculate_signal_score_eq [of "mirror_evidence e" "mirror_config cfg" v] r
  show ?thesis by (auto simp: mirror_total_score d mirror_status)
qed

section \<open>A sample score\<close>

definition sample_score_config :: strategy_score_config where
  "sample_score_config =
     \<lparr>sg_empirical_validation_status = UNVALIDATED,
      sg_signal = \<lparr>st_long_threshold = 4, st_short_threshold = - 4, st_veto_on_htf_conflict = True\<rparr>,
      sg_weights = \<lparr>sw_macd = 1, sw_bos = 2, sw_mss = 3, sw_liquidity_sweep = 2, sw_fvg = 1,
        sw_order_block = 1, sw_displacement = 1, sw_support_resistance = 1, sw_htf_alignment = 2\<rparr>,
      sg_crt = sample_crt_config\<rparr>"

definition sample_evidence :: "crt_confirmation option \<Rightarrow> signal_score_evidence" where
  "sample_evidence crt =
     \<lparr>sev_decision_time = 9,
      sev_components = (\<lambda>_. None)(BOS := Some \<lparr>sv_direction = EV_BULLISH, sv_confirmed_at = 1,
         sv_source_ids = [''s'']\<rparr>, MSS := Some \<lparr>sv_direction = EV_BULLISH, sv_confirmed_at = 1,
         sv_source_ids = [''s'']\<rparr>),
      sev_higher_timeframe_conflict = False, sev_crt_confirmation = crt\<rparr>"

lemma sample_score_config_valid: "score_config_valid sample_score_config"
  by code_simp

theorem signal_score_gates_witness:
  "\<exists>r. calculate_signal_score (sample_evidence None) sample_score_config ''v1'' = Inr r
     \<and> sr_decision r = SCORE_NO_TRADE"
proof -
  obtain r where r: "calculate_signal_score (sample_evidence None) sample_score_config ''v1'' = Inr r"
    "sr_score r = total_score (sample_evidence None) sample_score_config"
    using calculate_signal_score_eq by blast
  from signal_score_gates [OF sample_score_config_valid r(1) refl]
  have "sr_decision r \<noteq> LONG_CANDIDATE" "sr_decision r \<noteq> SHORT_CANDIDATE"
    by (auto simp: sample_evidence_def sample_score_config_def sample_crt_config_def)
  then have "sr_decision r = SCORE_NO_TRADE" by (cases "sr_decision r") simp_all
  with r(1) show ?thesis by blast
qed

end
