(* ===== verification/Signal_Lifecycle.thy ===== *)
theory Signal_Lifecycle
  imports Signal_Schemas
begin

text \<open>
  The lifecycle of a signal: its data model (\<open>schemas/signal_lifecycle.py\<close>) and
  \<open>replay_signal_lifecycle\<close> (\<open>engines/signal/lifecycle.py\<close>), which replays a candidate over closed
  candles. The entry resolver is a parameter of the engine, as it is a callback of the code; the
  locale \<open>entry_resolver\<close> states what the engine relies on, and the execution theory interprets it
  on the resolver the program builds. The loop keeps its local variables in a record. Event details
  (free text) are left out.
\<close>

datatype signal_lifecycle_status = WAITING | ACTIVE | TP_HIT | SL_HIT | CANCELLED | AMBIGUOUS

datatype signal_lifecycle_event_type =
    EVT_CREATED | EVT_ACTIVATED | EVT_TAKE_PROFIT_HIT | EVT_STOP_LOSS_HIT | EVT_CANCELLED
  | EVT_AMBIGUOUS

datatype signal_lifecycle_reason_code =
    SIGNAL_CREATED | ENTRY_ZONE_TOUCHED | ENTRY_EXECUTION_CONFIRMED | TAKE_PROFIT_TOUCHED
  | STOP_LOSS_TOUCHED | TP_AND_SL_TOUCHED_SAME_CANDLE | ENTRY_AND_EXIT_ORDER_UNKNOWN
  | STRUCTURAL_INVALIDATION_BEFORE_ENTRY | ENTRY_AND_INVALIDATION_ORDER_UNKNOWN
  | CONSERVATIVE_STOP_FIRST

datatype same_candle_policy = POLICY_AMBIGUOUS | POLICY_CONSERVATIVE_STOP_FIRST

record lifecycle_candidate =
  lc_signal_id :: string
  lc_direction :: signal_decision
  lc_entry_zone :: entry_zone
  lc_entry_reference :: price
  lc_take_profit :: price
  lc_stop_loss :: price
  lc_created_at :: utc_time

definition validate_lifecycle_levels :: "lifecycle_candidate \<Rightarrow> lifecycle_candidate result" where
  "validate_lifecycle_levels c =
     (if lc_direction c = NO_TRADE
      then Inl (ValidationError ''NO_TRADE cannot enter signal lifecycle management'')
      else if \<not> (ez_low (lc_entry_zone c) \<le> lc_entry_reference c
                 \<and> lc_entry_reference c \<le> ez_high (lc_entry_zone c))
      then Inl (ValidationError ''entry_reference must be inside entry_zone'')
      else if \<not> (if lc_direction c = LONG
                 then long_ordered (lc_stop_loss c) (lc_entry_zone c) (lc_take_profit c)
                 else short_ordered (lc_stop_loss c) (lc_entry_zone c) (lc_take_profit c))
      then Inl (ValidationError ''signal lifecycle levels are directionally invalid'')
      else Inr c)"

definition make_lifecycle_candidate :: "lifecycle_candidate \<Rightarrow> lifecycle_candidate result" where
  "make_lifecycle_candidate c =
     (if lc_signal_id c \<noteq> '''' \<and> 0 < lc_entry_reference c \<and> 0 < lc_take_profit c
         \<and> 0 < lc_stop_loss c
      then validate_lifecycle_levels c else Inl (ValidationError ''lifecycle candidate field''))"

definition lifecycle_candidate_valid :: "lifecycle_candidate \<Rightarrow> bool" where
  "lifecycle_candidate_valid c \<longleftrightarrow>
     make_lifecycle_candidate c = Inr c \<and> entry_zone_valid (lc_entry_zone c)"

record structural_invalidation =
  iv_confirmed_at :: utc_time
  iv_source_structure :: string
  iv_reason :: string

record lifecycle_event =
  le_event_type :: signal_lifecycle_event_type
  le_from_status :: "signal_lifecycle_status option"
  le_to_status :: signal_lifecycle_status
  le_occurred_at :: utc_time
  le_bar_timestamp :: "utc_time option"
  le_price :: "price option"
  le_reason_code :: signal_lifecycle_reason_code

definition make_lifecycle_event :: "lifecycle_event \<Rightarrow> lifecycle_event result" where
  "make_lifecycle_event e =
     (if opt_pos (le_price e) then Inr e else Inl (ValidationError ''lifecycle event field''))"

record lifecycle_result =
  lr_signal_id :: string
  lr_status :: signal_lifecycle_status
  lr_created_at :: utc_time
  lr_activated_at :: "utc_time option"
  lr_terminal_at :: "utc_time option"
  lr_last_evaluated_at :: utc_time
  lr_events :: "lifecycle_event list"

definition terminal_status :: "signal_lifecycle_status \<Rightarrow> bool" where
  "terminal_status s \<longleftrightarrow> s = TP_HIT \<or> s = SL_HIT \<or> s = CANCELLED \<or> s = AMBIGUOUS"

definition validate_status_timestamps :: "lifecycle_result \<Rightarrow> lifecycle_result result" where
  "validate_status_timestamps r =
     (if lr_events r = [] then Inl (ValidationError ''lifecycle result field'')
      else if terminal_status (lr_status r) \<noteq> (lr_terminal_at r \<noteq> None)
      then Inl (ValidationError ''terminal status and terminal_at must agree'')
      else if (lr_status r = ACTIVE \<or> lr_status r = TP_HIT \<or> lr_status r = SL_HIT)
              \<and> lr_activated_at r = None
      then Inl (ValidationError ''active or resolved trade requires activated_at'')
      else if (lr_status r = WAITING \<or> lr_status r = CANCELLED) \<and> lr_activated_at r \<noteq> None
      then Inl (ValidationError ''waiting or cancelled signal cannot have activated_at'')
      else Inr r)"

section \<open>The replay\<close>

record entry_evidence =
  ev_executed :: bool
  ev_executed_at :: "utc_time option"
  ev_executed_entry_price :: "price option"

type_synonym entry_execution_resolver =
  "lifecycle_candidate \<Rightarrow> candle \<Rightarrow> candle option \<Rightarrow> utc_time \<Rightarrow> entry_evidence result"

record lifecycle_state =
  ls_status :: signal_lifecycle_status
  ls_activated_at :: "utc_time option"
  ls_terminal_at :: "utc_time option"
  ls_last_evaluated_at :: utc_time
  ls_events :: "lifecycle_event list"

definition take_profit_touched :: "lifecycle_candidate \<Rightarrow> candle \<Rightarrow> bool" where
  "take_profit_touched signal bar \<longleftrightarrow>
     (if lc_direction signal = LONG then c_high bar \<ge> lc_take_profit signal
      else c_low bar \<le> lc_take_profit signal)"

definition stop_loss_touched :: "lifecycle_candidate \<Rightarrow> candle \<Rightarrow> bool" where
  "stop_loss_touched signal bar \<longleftrightarrow>
     (if lc_direction signal = LONG then c_low bar \<le> lc_stop_loss signal
      else c_high bar \<ge> lc_stop_loss signal)"

definition validate_lifecycle_inputs ::
  "lifecycle_candidate \<Rightarrow> candle list \<Rightarrow> timedelta \<Rightarrow> structural_invalidation option \<Rightarrow> unit result" where
  "validate_lifecycle_inputs signal candles duration invalidation =
     bind_result (check_all (\<lambda>(previous, current).
       let delta = c_timestamp current - c_timestamp previous
       in if delta \<le> 0
          then Inl (SignalLifecycleInputError
            ''candles must have unique timestamps in ascending order'')
          else if delta \<noteq> duration
          then Inl (SignalLifecycleInputError ''candle sequence contains a timeframe gap'')
          else Inr ()) (adjacent candles))
     (\<lambda>_. case invalidation of
        None \<Rightarrow> Inr ()
      | Some i \<Rightarrow> if iv_confirmed_at i < lc_created_at signal
          then Inl (SignalLifecycleInputError
            ''structural invalidation cannot predate signal creation'')
          else Inr ())"

definition invalidation_event :: "structural_invalidation \<Rightarrow> utc_time option \<Rightarrow> lifecycle_event" where
  "invalidation_event i bar_timestamp =
     \<lparr>le_event_type = EVT_CANCELLED, le_from_status = Some WAITING, le_to_status = CANCELLED,
      le_occurred_at = iv_confirmed_at i, le_bar_timestamp = bar_timestamp, le_price = None,
      le_reason_code = STRUCTURAL_INVALIDATION_BEFORE_ENTRY\<rparr>"

definition exit_event :: "signal_lifecycle_status \<Rightarrow> candle \<Rightarrow> utc_time \<Rightarrow> price \<Rightarrow>
    signal_lifecycle_reason_code \<Rightarrow> lifecycle_event" where
  "exit_event status bar occurred_at p reason =
     \<lparr>le_event_type = (if status = TP_HIT then EVT_TAKE_PROFIT_HIT else EVT_STOP_LOSS_HIT),
      le_from_status = Some ACTIVE, le_to_status = status, le_occurred_at = occurred_at,
      le_bar_timestamp = Some (c_timestamp bar), le_price = Some p, le_reason_code = reason\<rparr>"

text \<open>Append an event and move to its status; a terminal status is given its instant.\<close>

definition transition :: "lifecycle_event \<Rightarrow> utc_time option \<Rightarrow> lifecycle_state \<Rightarrow> lifecycle_state result" where
  "transition ev terminal_at s =
     bind_result (make_lifecycle_event ev) (\<lambda>ev.
       Inr (s\<lparr>ls_status := le_to_status ev, ls_terminal_at := terminal_at,
              ls_events := ls_events s @ [ev]\<rparr>))"

text \<open>The end of the loop body: the exits of an active signal.\<close>

definition exit_step :: "lifecycle_candidate \<Rightarrow> same_candle_policy \<Rightarrow> timedelta \<Rightarrow> candle \<Rightarrow>
    lifecycle_state \<Rightarrow> lifecycle_state result" where
  "exit_step signal policy duration bar s0 =
     (let bar_close = c_timestamp bar + duration;
          tp = take_profit_touched signal bar; sl = stop_loss_touched signal bar;
          s = s0\<lparr>ls_last_evaluated_at := bar_close\<rparr>
      in if tp \<and> sl
         then if policy = POLICY_CONSERVATIVE_STOP_FIRST
              then transition (exit_event SL_HIT bar bar_close (lc_stop_loss signal)
                     CONSERVATIVE_STOP_FIRST) (Some bar_close) s
              else transition
                     \<lparr>le_event_type = EVT_AMBIGUOUS, le_from_status = Some ACTIVE,
                      le_to_status = AMBIGUOUS, le_occurred_at = bar_close,
                      le_bar_timestamp = Some (c_timestamp bar), le_price = None,
                      le_reason_code = TP_AND_SL_TOUCHED_SAME_CANDLE\<rparr> (Some bar_close) s
         else if tp
         then transition (exit_event TP_HIT bar bar_close (lc_take_profit signal)
                TAKE_PROFIT_TOUCHED) (Some bar_close) s
         else if sl
         then transition (exit_event SL_HIT bar bar_close (lc_stop_loss signal)
                STOP_LOSS_TOUCHED) (Some bar_close) s
         else Inr s)"

text \<open>The activation of a waiting signal whose entry executed.\<close>

definition activate :: "lifecycle_candidate \<Rightarrow> same_candle_policy \<Rightarrow> timedelta \<Rightarrow> candle \<Rightarrow>
    utc_time \<Rightarrow> price \<Rightarrow> lifecycle_state \<Rightarrow> lifecycle_state result" where
  "activate signal policy duration bar executed_at executed_price s =
     (let bar_close = c_timestamp bar + duration;
          touched = (take_profit_touched signal bar \<or> stop_loss_touched signal bar)
      in bind_result (transition
           \<lparr>le_event_type = EVT_ACTIVATED, le_from_status = Some WAITING, le_to_status = ACTIVE,
            le_occurred_at = executed_at, le_bar_timestamp = Some (c_timestamp bar),
            le_price = Some executed_price, le_reason_code = ENTRY_EXECUTION_CONFIRMED\<rparr> None
           (s\<lparr>ls_activated_at := Some executed_at, ls_last_evaluated_at := bar_close\<rparr>))
         (\<lambda>s. if touched \<and> executed_at \<noteq> c_timestamp bar
              then transition
                \<lparr>le_event_type = EVT_AMBIGUOUS, le_from_status = Some ACTIVE,
                 le_to_status = AMBIGUOUS, le_occurred_at = bar_close,
                 le_bar_timestamp = Some (c_timestamp bar), le_price = None,
                 le_reason_code = ENTRY_AND_EXIT_ORDER_UNKNOWN\<rparr> (Some bar_close) s
              else if \<not> touched then Inr s
              else exit_step signal policy duration bar s))"

text \<open>The loop body for a bar that opens at or after the creation of the signal.\<close>

definition waiting_step :: "lifecycle_candidate \<Rightarrow> same_candle_policy \<Rightarrow> timedelta \<Rightarrow> candle \<Rightarrow>
    entry_evidence \<Rightarrow> lifecycle_state \<Rightarrow> lifecycle_state result" where
  "waiting_step signal policy duration bar entry s =
     (if \<not> ev_executed entry
      then Inr (s\<lparr>ls_last_evaluated_at := c_timestamp bar + duration\<rparr>)
      else case (ev_executed_at entry, ev_executed_entry_price entry) of
        (Some t, Some p) \<Rightarrow> activate signal policy duration bar t p s
      | _ \<Rightarrow> Inl AssertionError)"

definition bar_step :: "entry_execution_resolver \<Rightarrow> lifecycle_candidate \<Rightarrow> same_candle_policy \<Rightarrow>
    timedelta \<Rightarrow> structural_invalidation option \<Rightarrow> candle option \<Rightarrow> candle \<Rightarrow>
    lifecycle_state \<Rightarrow> lifecycle_state result" where
  "bar_step resolver signal policy duration invalidation previous_bar bar s =
     (let bar_close = c_timestamp bar + duration
      in if ls_status s = WAITING
      then bind_result (resolver signal bar previous_bar bar_close) (\<lambda>entry.
        case invalidation of
          None \<Rightarrow> waiting_step signal policy duration bar entry s
        | Some i \<Rightarrow>
            if iv_confirmed_at i \<le> c_timestamp bar
            then transition (invalidation_event i None) (Some (iv_confirmed_at i))
                   (s\<lparr>ls_last_evaluated_at := max (ls_last_evaluated_at s) (iv_confirmed_at i)\<rparr>)
            else if iv_confirmed_at i \<le> bar_close
            then if ev_executed entry
                 then transition
                   \<lparr>le_event_type = EVT_AMBIGUOUS, le_from_status = Some WAITING,
                    le_to_status = AMBIGUOUS, le_occurred_at = bar_close,
                    le_bar_timestamp = Some (c_timestamp bar), le_price = None,
                    le_reason_code = ENTRY_AND_INVALIDATION_ORDER_UNKNOWN\<rparr> (Some bar_close)
                   (s\<lparr>ls_last_evaluated_at := bar_close\<rparr>)
                 else transition (invalidation_event i (Some (c_timestamp bar)))
                   (Some (iv_confirmed_at i)) (s\<lparr>ls_last_evaluated_at := bar_close\<rparr>)
            else waiting_step signal policy duration bar entry s)
      else exit_step signal policy duration bar s)"

text \<open>
  The loop. Every \<open>break\<close> of the code leaves a terminal status, so the test at the head of the next
  iteration stops the loop in the same state.
\<close>

fun replay_bars :: "entry_execution_resolver \<Rightarrow> lifecycle_candidate \<Rightarrow> same_candle_policy \<Rightarrow>
    timedelta \<Rightarrow> structural_invalidation option \<Rightarrow> candle option \<Rightarrow> candle list \<Rightarrow>
    lifecycle_state \<Rightarrow> lifecycle_state result" where
  "replay_bars resolver signal policy duration invalidation previous_bar [] s = Inr s"
| "replay_bars resolver signal policy duration invalidation previous_bar (bar # bars) s =
     (if terminal_status (ls_status s) then Inr s
      else if c_timestamp bar < lc_created_at signal
      then replay_bars resolver signal policy duration invalidation (Some bar) bars s
      else bind_result (bar_step resolver signal policy duration invalidation previous_bar bar s)
        (replay_bars resolver signal policy duration invalidation (Some bar) bars))"

definition initial_state :: "lifecycle_candidate \<Rightarrow> lifecycle_state" where
  "initial_state signal =
     \<lparr>ls_status = WAITING, ls_activated_at = None, ls_terminal_at = None,
      ls_last_evaluated_at = lc_created_at signal,
      ls_events = [\<lparr>le_event_type = EVT_CREATED, le_from_status = None, le_to_status = WAITING,
        le_occurred_at = lc_created_at signal, le_bar_timestamp = None, le_price = None,
        le_reason_code = SIGNAL_CREATED\<rparr>]\<rparr>"

definition start_state ::
  "lifecycle_candidate \<Rightarrow> structural_invalidation option \<Rightarrow> lifecycle_state result" where
  "start_state signal invalidation =
     (case invalidation of
        None \<Rightarrow> Inr (initial_state signal)
      | Some i \<Rightarrow> if iv_confirmed_at i = lc_created_at signal
          then transition (invalidation_event i None) (Some (iv_confirmed_at i)) (initial_state signal)
          else Inr (initial_state signal))"

definition result_of :: "lifecycle_candidate \<Rightarrow> lifecycle_state \<Rightarrow> lifecycle_result" where
  "result_of signal s =
     \<lparr>lr_signal_id = lc_signal_id signal, lr_status = ls_status s,
      lr_created_at = lc_created_at signal, lr_activated_at = ls_activated_at s,
      lr_terminal_at = ls_terminal_at s, lr_last_evaluated_at = ls_last_evaluated_at s,
      lr_events = ls_events s\<rparr>"

definition replay_signal_lifecycle :: "entry_execution_resolver \<Rightarrow> lifecycle_candidate \<Rightarrow>
    candle list \<Rightarrow> timeframe \<Rightarrow> same_candle_policy \<Rightarrow> structural_invalidation option \<Rightarrow>
    lifecycle_result result" where
  "replay_signal_lifecycle resolver signal candles tf policy invalidation =
     (let duration = timeframe_duration tf
      in bind_result (validate_lifecycle_inputs signal candles duration invalidation) (\<lambda>_.
         bind_result (start_state signal invalidation) (\<lambda>s.
         bind_result (replay_bars resolver signal policy duration invalidation None candles s) (\<lambda>s.
         validate_status_timestamps (result_of signal s)))))"

section \<open>The status machine\<close>

inductive status_step :: "signal_lifecycle_status \<Rightarrow> signal_lifecycle_status \<Rightarrow> bool" where
  activated: "status_step WAITING ACTIVE"
| cancelled: "status_step WAITING CANCELLED"
| entry_order_unknown: "status_step WAITING AMBIGUOUS"
| target_hit: "status_step ACTIVE TP_HIT"
| stop_hit: "status_step ACTIVE SL_HIT"
| exit_order_unknown: "status_step ACTIVE AMBIGUOUS"

inductive_simps status_step_from: "status_step WAITING s" "status_step ACTIVE s"

inductive_cases status_stepE: "status_step a b"

lemma terminal_is_final: "status_step a b \<Longrightarrow> \<not> terminal_status a"
  by (erule status_stepE) (simp_all add: terminal_status_def)

text \<open>The events of a signal form a path of the machine.\<close>

fun event_chain :: "signal_lifecycle_status \<Rightarrow> lifecycle_event list \<Rightarrow> signal_lifecycle_status \<Rightarrow> bool" where
  "event_chain a [] b \<longleftrightarrow> a = b"
| "event_chain a (e # es) b \<longleftrightarrow>
     le_from_status e = Some a \<and> status_step a (le_to_status e) \<and> event_chain (le_to_status e) es b"

lemma event_chain_append:
  "event_chain a (es @ fs) c \<longleftrightarrow> (\<exists>b. event_chain a es b \<and> event_chain b fs c)"
  by (induction es arbitrary: a) auto

lemma event_chain_reachable: "event_chain a es b \<Longrightarrow> status_step\<^sup>*\<^sup>* a b"
  by (induction es arbitrary: a) (auto intro: converse_rtranclp_into_rtranclp)

section \<open>The invariant of the replay\<close>

definition lifecycle_ok ::
  "lifecycle_candidate \<Rightarrow> structural_invalidation option \<Rightarrow> lifecycle_state \<Rightarrow> bool" where
  "lifecycle_ok signal iv s \<longleftrightarrow>
     (\<exists>es. ls_events s = ls_events (initial_state signal) @ es
        \<and> event_chain WAITING es (ls_status s))
     \<and> terminal_status (ls_status s) = (ls_terminal_at s \<noteq> None)
     \<and> (ls_status s \<in> {ACTIVE, TP_HIT, SL_HIT} \<longrightarrow> ls_activated_at s \<noteq> None)
     \<and> (ls_status s \<in> {WAITING, CANCELLED} \<longrightarrow> ls_activated_at s = None)
     \<and> lc_created_at signal \<le> ls_last_evaluated_at s
     \<and> sorted (map le_occurred_at (ls_events s))
     \<and> (\<forall>e\<in>set (ls_events s). le_occurred_at e \<le> ls_last_evaluated_at s)
     \<and> (\<forall>t. ls_terminal_at s = Some t \<longrightarrow> t \<le> ls_last_evaluated_at s)
     \<and> (\<forall>a. ls_activated_at s = Some a \<longrightarrow> a \<le> ls_last_evaluated_at s)
     \<and> (\<forall>i. ls_status s = WAITING \<and> iv = Some i \<longrightarrow> ls_last_evaluated_at s < iv_confirmed_at i)"

lemma transition_eq_Inr:
  "transition ev t s = Inr s' \<longleftrightarrow> opt_pos (le_price ev)
     \<and> s' = s\<lparr>ls_status := le_to_status ev, ls_terminal_at := t, ls_events := ls_events s @ [ev]\<rparr>"
  by (auto simp: transition_def make_lifecycle_event_def)

lemma transition_total: "opt_pos (le_price ev) \<Longrightarrow> \<exists>s'. transition ev t s = Inr s'"
  by (simp add: transition_eq_Inr)

text \<open>One transition keeps the invariant when it follows the machine and the clock.\<close>

lemma transition_ok:
  assumes "lifecycle_ok signal iv s"
    and "transition ev t (s\<lparr>ls_activated_at := a, ls_last_evaluated_at := now\<rparr>) = Inr s'"
    and "le_from_status ev = Some (ls_status s)" "status_step (ls_status s) (le_to_status ev)"
    and "ls_last_evaluated_at s \<le> le_occurred_at ev" "le_occurred_at ev \<le> now"
    and "terminal_status (le_to_status ev) = (t \<noteq> None)" "t = None \<or> t = Some (le_occurred_at ev)"
    and "a = (if le_to_status ev = ACTIVE then Some (le_occurred_at ev) else ls_activated_at s)"
  shows "lifecycle_ok signal iv s' \<and> ls_last_evaluated_at s' = now"
proof -
  have s': "s' = s\<lparr>ls_activated_at := a, ls_last_evaluated_at := now, ls_status := le_to_status ev, ls_terminal_at := t,
      ls_events := ls_events s @ [ev]\<rparr>"
    using assms(2) by (simp add: transition_eq_Inr)
  from assms(1) obtain es where es: "ls_events s = ls_events (initial_state signal) @ es"
    "event_chain WAITING es (ls_status s)" by (auto simp: lifecycle_ok_def)
  have chain: "event_chain WAITING (es @ [ev]) (le_to_status ev)"
    using es assms(3,4) by (auto simp: event_chain_append)
  have moved: "le_to_status ev \<noteq> WAITING"
    "le_to_status ev = CANCELLED \<Longrightarrow> ls_status s = WAITING"
    "le_to_status ev = TP_HIT \<or> le_to_status ev = SL_HIT \<Longrightarrow> ls_status s = ACTIVE"
    using assms(4) by (auto elim: status_stepE)
  have old: "ls_activated_at s = None" if "ls_status s = WAITING"
    using assms(1) that by (simp add: lifecycle_ok_def)
  have active: "ls_activated_at s \<noteq> None" if "ls_status s = ACTIVE"
    using assms(1) that by (simp add: lifecycle_ok_def)
  have times: "lc_created_at signal \<le> ls_last_evaluated_at s"
    "sorted (map le_occurred_at (ls_events s))"
    "\<forall>e\<in>set (ls_events s). le_occurred_at e \<le> ls_last_evaluated_at s"
    "\<forall>a. ls_activated_at s = Some a \<longrightarrow> a \<le> ls_last_evaluated_at s"
    using assms(1) by (simp_all add: lifecycle_ok_def)
  have now: "ls_last_evaluated_at s \<le> now" using assms(5,6) by simp
  have "sorted (map le_occurred_at (ls_events s @ [ev]))"
    using times(2,3) assms(5) by (auto simp: sorted_append intro: order_trans)
  moreover have "\<forall>e\<in>set (ls_events s @ [ev]). le_occurred_at e \<le> now"
    using times(3) now assms(6) by auto
  moreover have "\<forall>b. a = Some b \<longrightarrow> b \<le> now"
    using times(4) now assms(6,9) by auto
  moreover have "\<forall>b. t = Some b \<longrightarrow> b \<le> now" using assms(6,8) by auto
  moreover have "le_to_status ev \<in> {ACTIVE, TP_HIT, SL_HIT} \<longrightarrow> a \<noteq> None"
    using moved(3) active assms(9) by auto
  moreover have "le_to_status ev \<in> {WAITING, CANCELLED} \<longrightarrow> a = None"
    using moved old assms(9) by auto
  moreover have "\<exists>es. ls_events s @ [ev] = ls_events (initial_state signal) @ es
      \<and> event_chain WAITING es (le_to_status ev)"
    using es(1) chain by (intro exI [of _ "es @ [ev]"]) simp
  moreover have "lc_created_at signal \<le> now" using times(1) now by simp
  ultimately show ?thesis
    using assms(7) moved(1) unfolding s' lifecycle_ok_def by simp
qed

lemma transition_ok_keep:
  assumes "lifecycle_ok signal iv s" "transition ev t (s\<lparr>ls_last_evaluated_at := now\<rparr>) = Inr s'"
    and "le_from_status ev = Some (ls_status s)" "status_step (ls_status s) (le_to_status ev)"
    and "ls_last_evaluated_at s \<le> le_occurred_at ev" "le_occurred_at ev \<le> now"
    and "terminal_status (le_to_status ev)" "t = Some (le_occurred_at ev)"
  shows "lifecycle_ok signal iv s' \<and> ls_last_evaluated_at s' = now"
proof (rule transition_ok [OF assms(1) _ assms(3-6)])
  show "transition ev t (s\<lparr>ls_activated_at := ls_activated_at s, ls_last_evaluated_at := now\<rparr>) = Inr s'"
    using assms(2) by simp
qed (use assms(7,8) in \<open>auto simp: terminal_status_def\<close>)

lemma hold_ok:
  assumes "lifecycle_ok signal iv s" "ls_last_evaluated_at s \<le> now"
    and "\<forall>i. ls_status s = WAITING \<and> iv = Some i \<longrightarrow> now < iv_confirmed_at i"
  shows "lifecycle_ok signal iv (s\<lparr>ls_last_evaluated_at := now\<rparr>)"
  using assms unfolding lifecycle_ok_def by (auto intro: order_trans)

text \<open>The event an exit records, when a level is touched.\<close>

definition exit_record :: "lifecycle_candidate \<Rightarrow> same_candle_policy \<Rightarrow> timedelta \<Rightarrow> candle \<Rightarrow> lifecycle_event" where
  "exit_record signal policy duration bar =
     (let bar_close = c_timestamp bar + duration;
          tp = take_profit_touched signal bar; sl = stop_loss_touched signal bar
      in if tp \<and> sl
         then if policy = POLICY_CONSERVATIVE_STOP_FIRST
              then exit_event SL_HIT bar bar_close (lc_stop_loss signal) CONSERVATIVE_STOP_FIRST
              else \<lparr>le_event_type = EVT_AMBIGUOUS, le_from_status = Some ACTIVE,
                    le_to_status = AMBIGUOUS, le_occurred_at = bar_close,
                    le_bar_timestamp = Some (c_timestamp bar), le_price = None,
                    le_reason_code = TP_AND_SL_TOUCHED_SAME_CANDLE\<rparr>
         else if tp
         then exit_event TP_HIT bar bar_close (lc_take_profit signal) TAKE_PROFIT_TOUCHED
         else exit_event SL_HIT bar bar_close (lc_stop_loss signal) STOP_LOSS_TOUCHED)"

lemma exit_step_eq:
  "exit_step signal policy duration bar s =
     (if take_profit_touched signal bar \<or> stop_loss_touched signal bar
      then transition (exit_record signal policy duration bar) (Some (c_timestamp bar + duration))
        (s\<lparr>ls_last_evaluated_at := c_timestamp bar + duration\<rparr>)
      else Inr (s\<lparr>ls_last_evaluated_at := c_timestamp bar + duration\<rparr>))"
  by (simp add: exit_step_def exit_record_def Let_def)

lemma exit_record_fields:
  "le_from_status (exit_record signal policy duration bar) = Some ACTIVE"
  "le_occurred_at (exit_record signal policy duration bar) = c_timestamp bar + duration"
  "le_to_status (exit_record signal policy duration bar) =
     (if take_profit_touched signal bar \<and> stop_loss_touched signal bar
      then if policy = POLICY_CONSERVATIVE_STOP_FIRST then SL_HIT else AMBIGUOUS
      else if take_profit_touched signal bar then TP_HIT else SL_HIT)"
  by (simp_all add: exit_record_def exit_event_def Let_def)

lemma exit_record_price:
  "0 < lc_take_profit signal \<Longrightarrow> 0 < lc_stop_loss signal \<Longrightarrow>
     opt_pos (le_price (exit_record signal policy duration bar))"
  by (simp add: exit_record_def exit_event_def Let_def)

lemma exit_step_ok:
  assumes ok: "lifecycle_ok signal iv s" and st: "ls_status s = ACTIVE"
    and now: "ls_last_evaluated_at s \<le> c_timestamp bar + duration"
    and step: "exit_step signal policy duration bar s = Inr s'"
  shows "lifecycle_ok signal iv s' \<and> ls_last_evaluated_at s' = c_timestamp bar + duration"
proof (cases "take_profit_touched signal bar \<or> stop_loss_touched signal bar")
  case True
  then have tr: "transition (exit_record signal policy duration bar)
      (Some (c_timestamp bar + duration))
      (s\<lparr>ls_last_evaluated_at := c_timestamp bar + duration\<rparr>) = Inr s'"
    using step by (simp add: exit_step_eq)
  show ?thesis
    using now st by (intro transition_ok_keep [OF ok tr])
      (simp_all add: exit_record_fields terminal_status_def status_step_from)
next
  case False
  then have s': "s' = s\<lparr>ls_last_evaluated_at := c_timestamp bar + duration\<rparr>"
    using step by (simp add: exit_step_eq)
  show ?thesis using st hold_ok [OF ok now] by (simp add: s')
qed

lemma exit_step_total:
  "0 < lc_take_profit signal \<Longrightarrow> 0 < lc_stop_loss signal \<Longrightarrow>
     \<exists>s'. exit_step signal policy duration bar s = Inr s'"
  by (simp add: exit_step_eq transition_eq_Inr exit_record_price)

text \<open>The outcome of a bar for a waiting signal, as the claims about resolved trades use it.\<close>

definition bar_touched :: "lifecycle_candidate \<Rightarrow> candle \<Rightarrow> bool" where
  "bar_touched signal bar \<longleftrightarrow> take_profit_touched signal bar \<or> stop_loss_touched signal bar"

lemma exit_step_outcome:
  "exit_step signal policy duration bar s = Inr s' \<Longrightarrow>
     ls_activated_at s' = ls_activated_at s
     \<and> (if bar_touched signal bar
        then ls_status s' = le_to_status (exit_record signal policy duration bar)
           \<and> ls_terminal_at s' = Some (c_timestamp bar + duration)
        else ls_status s' = ls_status s)"
  by (auto simp: exit_step_eq bar_touched_def transition_eq_Inr split: if_splits)

lemma exit_record_terminal: "terminal_status (le_to_status (exit_record signal policy duration bar))"
  by (simp add: exit_record_fields terminal_status_def)

lemma replay_bars_terminal:
  "terminal_status (ls_status s) \<Longrightarrow> replay_bars r signal policy duration iv prev bars s = Inr s"
  by (cases bars) simp_all

lemma replay_bars_append:
  "replay_bars r signal policy duration iv prev (xs @ ys) s =
     bind_result (replay_bars r signal policy duration iv prev xs s)
       (replay_bars r signal policy duration iv (if xs = [] then prev else Some (last xs)) ys)"
proof (induction xs arbitrary: prev s)
  case (Cons x xs)
  show ?case
  proof (cases "terminal_status (ls_status s)")
    case True
    then show ?thesis by (simp add: replay_bars_terminal)
  next
    case False
    then show ?thesis
      by (cases "bar_step r signal policy duration iv prev x s") (simp_all add: Cons.IH)
  qed
qed simp

text \<open>Every operation only appends events.\<close>

definition extends :: "lifecycle_state \<Rightarrow> lifecycle_state result \<Rightarrow> bool" where
  "extends s r \<longleftrightarrow> (\<forall>s'. r = Inr s' \<longrightarrow> (\<exists>es. ls_events s' = ls_events s @ es))"

lemma extends_intros:
  "extends s (Inl e)"
  "ls_events u = ls_events s \<Longrightarrow> extends s (Inr u)"
  "ls_events u = ls_events s \<Longrightarrow> extends s (transition ev t u)"
  by (auto simp: extends_def transition_eq_Inr)

lemma extends_if: "extends s x \<Longrightarrow> extends s y \<Longrightarrow> extends s (if b then x else y)"
  by simp

lemma extends_option:
  "extends s x \<Longrightarrow> (\<And>a. extends s (f a)) \<Longrightarrow> extends s (case v of None \<Rightarrow> x | Some a \<Rightarrow> f a)"
  by (cases v) auto

lemma extends_bind:
  "extends s r \<Longrightarrow> (\<And>u. extends u (f u)) \<Longrightarrow> extends s (bind_result r f)"
  by (cases r) (fastforce simp: extends_def)+

lemma extends_bind_value: "(\<And>x. extends s (f x)) \<Longrightarrow> extends s (bind_result r f)"
  by (cases r) (simp_all add: extends_def)

lemma exit_step_extends: "extends s (exit_step signal policy duration bar s)"
  unfolding exit_step_eq by (intro extends_if extends_intros) simp_all

lemma activate_extends: "extends s (activate signal policy duration bar t p s)"
  unfolding activate_def Let_def
  by (intro extends_bind extends_if extends_intros exit_step_extends) simp_all

lemma waiting_step_extends: "extends s (waiting_step signal policy duration bar e s)"
  by (auto simp: waiting_step_def intro!: extends_intros activate_extends split: option.splits)

lemma bar_step_extends: "extends s (bar_step r signal policy duration iv prev bar s)"
  unfolding bar_step_def Let_def
  by (intro extends_if extends_bind_value extends_option extends_intros waiting_step_extends
      exit_step_extends) simp_all

lemma replay_bars_events:
  "replay_bars r signal policy duration iv prev bars s = Inr t \<Longrightarrow> \<exists>es. ls_events t = ls_events s @ es"
proof (induction bars arbitrary: prev s)
  case (Cons bar bars)
  show ?case
  proof (cases "terminal_status (ls_status s) \<or> c_timestamp bar < lc_created_at signal")
    case True
    then show ?thesis using Cons by (auto split: if_splits)
  next
    case False
    then obtain u where "bar_step r signal policy duration iv prev bar s = Inr u"
      "replay_bars r signal policy duration iv (Some bar) bars u = Inr t"
      using Cons.prems by (auto simp: bind_result_eq_Inr)
    with bar_step_extends Cons.IH show ?thesis unfolding extends_def by (metis append.assoc)
  qed
qed auto

lemma validate_inputs_iff:
  "validate_lifecycle_inputs signal candles d iv = Inr () \<longleftrightarrow>
     (\<forall>p\<in>set (adjacent candles). c_timestamp (snd p) - c_timestamp (fst p) = d
        \<and> 0 < c_timestamp (snd p) - c_timestamp (fst p))
     \<and> (\<forall>i. iv = Some i \<longrightarrow> lc_created_at signal \<le> iv_confirmed_at i)"
  by (auto simp: validate_lifecycle_inputs_def bind_result_eq_Inr check_all_Inr Let_def
      split: option.splits if_splits)

lemma start_state_ok:
  assumes "\<forall>i. iv = Some i \<longrightarrow> lc_created_at signal \<le> iv_confirmed_at i"
  shows "\<exists>s. start_state signal iv = Inr s \<and> lifecycle_ok signal iv s
     \<and> ls_last_evaluated_at s = lc_created_at signal
     \<and> (ls_status s = WAITING \<or> terminal_status (ls_status s) \<and> ls_status s = CANCELLED)"
proof (cases "\<exists>i. iv = Some i \<and> iv_confirmed_at i = lc_created_at signal")
  case True
  then show ?thesis
    by (auto simp: start_state_def transition_eq_Inr invalidation_event_def initial_state_def
        lifecycle_ok_def terminal_status_def status_step_from)
next
  case False
  then have "start_state signal iv = Inr (initial_state signal)"
    by (auto simp: start_state_def split: option.splits)
  moreover have "lifecycle_ok signal iv (initial_state signal)"
    using False assms by (force simp: lifecycle_ok_def initial_state_def terminal_status_def)
  ultimately show ?thesis by (simp add: initial_state_def)
qed

lemma lifecycle_ok_validates:
  "lifecycle_ok signal iv s \<Longrightarrow> validate_status_timestamps (result_of signal s) = Inr (result_of signal s)"
  by (auto simp: lifecycle_ok_def validate_status_timestamps_def result_of_def initial_state_def)

section \<open>What the engine relies on\<close>

text \<open>
  Evidence of an executed entry names a positive price and an instant of the bar: its open or its close.
\<close>

locale entry_resolver =
  fixes resolve :: entry_execution_resolver
  assumes evidence_complete:
    "\<lbrakk>resolve signal bar previous_bar bar_close = Inr e; ev_executed e\<rbrakk> \<Longrightarrow>
       \<exists>t p. ev_executed_at e = Some t \<and> (t = c_timestamp bar \<or> t = bar_close)
           \<and> ev_executed_entry_price e = Some p \<and> 0 < p"
begin

lemma activate_ok:
  assumes ok: "lifecycle_ok signal iv s" and st: "ls_status s = WAITING"
    and now: "ls_last_evaluated_at s \<le> c_timestamp bar" and d: "0 < duration"
    and t: "t = c_timestamp bar \<or> t = c_timestamp bar + duration"
    and step: "activate signal policy duration bar t p s = Inr s'"
  shows "lifecycle_ok signal iv s' \<and> ls_last_evaluated_at s' = c_timestamp bar + duration"
proof -
  let ?close = "c_timestamp bar + duration"
  let ?touched = "take_profit_touched signal bar \<or> stop_loss_touched signal bar"
  let ?ev = "\<lparr>le_event_type = EVT_ACTIVATED, le_from_status = Some WAITING, le_to_status = ACTIVE,
            le_occurred_at = t, le_bar_timestamp = Some (c_timestamp bar),
            le_price = Some p, le_reason_code = ENTRY_EXECUTION_CONFIRMED\<rparr>"
  from step obtain u where u: "transition ?ev None
      (s\<lparr>ls_activated_at := Some t, ls_last_evaluated_at := ?close\<rparr>) = Inr u"
    by (auto simp: activate_def Let_def bind_result_eq_Inr)
  have uok: "lifecycle_ok signal iv u \<and> ls_last_evaluated_at u = ?close"
    using now d t st by (intro transition_ok [OF ok u])
      (auto simp: terminal_status_def status_step_from)
  have ust: "ls_status u = ACTIVE" "ls_last_evaluated_at u = ?close"
    "u\<lparr>ls_last_evaluated_at := ?close\<rparr> = u"
    using u by (simp_all add: transition_eq_Inr)
  let ?amb = "\<lparr>le_event_type = EVT_AMBIGUOUS, le_from_status = Some ACTIVE,
                 le_to_status = AMBIGUOUS, le_occurred_at = ?close,
                 le_bar_timestamp = Some (c_timestamp bar), le_price = None,
                 le_reason_code = ENTRY_AND_EXIT_ORDER_UNKNOWN\<rparr>"
  have eq: "activate signal policy duration bar t p s =
      (if ?touched \<and> t \<noteq> c_timestamp bar then transition ?amb (Some ?close) u
       else if \<not> ?touched then Inr u else exit_step signal policy duration bar u)"
    using u by (simp add: activate_def Let_def)
  show ?thesis
  proof (cases ?touched)
    case False
    then show ?thesis using uok step unfolding eq by simp
  next
    case touched: True
    show ?thesis
    proof (cases "t = c_timestamp bar")
      case True
      then have "exit_step signal policy duration bar u = Inr s'"
        using step touched unfolding eq by simp
      with uok ust show ?thesis by (intro exit_step_ok) simp_all
    next
      case False
      then have tr: "transition ?amb (Some ?close) (u\<lparr>ls_last_evaluated_at := ?close\<rparr>) = Inr s'"
        using step touched unfolding eq ust(3) by simp
      show ?thesis using uok ust by (intro transition_ok_keep [OF _ tr])
        (simp_all add: terminal_status_def status_step_from)
    qed
  qed
qed

lemma waiting_step_ok:
  assumes ok: "lifecycle_ok signal iv s" and st: "ls_status s = WAITING"
    and now: "ls_last_evaluated_at s \<le> c_timestamp bar" and d: "0 < duration"
    and iv: "\<forall>i. iv = Some i \<longrightarrow> c_timestamp bar + duration < iv_confirmed_at i"
    and res: "resolve signal bar prev (c_timestamp bar + duration) = Inr e"
    and step: "waiting_step signal policy duration bar e s = Inr s'"
  shows "lifecycle_ok signal iv s' \<and> ls_last_evaluated_at s' = c_timestamp bar + duration"
proof (cases "ev_executed e")
  case True
  from evidence_complete [OF res True] obtain t p where
    "ev_executed_at e = Some t" "t = c_timestamp bar \<or> t = c_timestamp bar + duration"
    "ev_executed_entry_price e = Some p" by blast
  with True step show ?thesis
    by (intro activate_ok [OF ok st now d]) (auto simp: waiting_step_def)
next
  case False
  then have s': "s' = s\<lparr>ls_last_evaluated_at := c_timestamp bar + duration\<rparr>"
    using step by (simp add: waiting_step_def)
  show ?thesis using hold_ok [OF ok, of "c_timestamp bar + duration"] now d iv by (simp add: s')
qed

lemma bar_step_ok:
  assumes ok: "lifecycle_ok signal iv s" and st: "\<not> terminal_status (ls_status s)"
    and now: "ls_last_evaluated_at s \<le> c_timestamp bar" and d: "0 < duration"
    and step: "bar_step resolve signal policy duration iv prev bar s = Inr s'"
  shows "lifecycle_ok signal iv s' \<and> ls_last_evaluated_at s' \<le> c_timestamp bar + duration"
proof (cases "ls_status s = WAITING")
  case False
  with st have "ls_status s = ACTIVE" by (cases "ls_status s") (simp_all add: terminal_status_def)
  with step now d show ?thesis
    using exit_step_ok [OF ok, of bar duration policy s'] by (simp add: bar_step_def Let_def)
next
  case True
  let ?close = "c_timestamp bar + duration"
  from step True obtain e where e: "resolve signal bar prev ?close = Inr e"
    by (auto simp: bar_step_def Let_def bind_result_eq_Inr)
  show ?thesis
  proof (cases "\<exists>i. iv = Some i \<and> iv_confirmed_at i \<le> ?close")
    case False
    then have "waiting_step signal policy duration bar e s = Inr s'"
      using step True e d by (auto simp: bar_step_def Let_def split: option.splits)
    with waiting_step_ok [OF ok True now d _ e] False show ?thesis by (auto simp: not_le)
  next
    case inv: True
    then obtain i where i: "iv = Some i" "iv_confirmed_at i \<le> ?close" by blast
    have pending: "ls_last_evaluated_at s < iv_confirmed_at i"
      using ok True i(1) by (simp add: lifecycle_ok_def)
    show ?thesis
    proof (cases "iv_confirmed_at i \<le> c_timestamp bar")
      case before: True
      have tr: "transition (invalidation_event i None) (Some (iv_confirmed_at i))
          (s\<lparr>ls_last_evaluated_at := max (ls_last_evaluated_at s) (iv_confirmed_at i)\<rparr>) = Inr s'"
        using step True e i before by (simp add: bar_step_def Let_def)
      have "lifecycle_ok signal iv s' \<and>
          ls_last_evaluated_at s' = max (ls_last_evaluated_at s) (iv_confirmed_at i)"
        using pending True by (intro transition_ok_keep [OF ok tr])
          (simp_all add: invalidation_event_def terminal_status_def status_step_from)
      with i now d show ?thesis by simp
    next
      case False
      let ?amb = "\<lparr>le_event_type = EVT_AMBIGUOUS, le_from_status = Some WAITING,
                    le_to_status = AMBIGUOUS, le_occurred_at = ?close,
                    le_bar_timestamp = Some (c_timestamp bar), le_price = None,
                    le_reason_code = ENTRY_AND_INVALIDATION_ORDER_UNKNOWN\<rparr>"
      have tr: "transition (if ev_executed e then ?amb else invalidation_event i (Some (c_timestamp bar)))
          (Some (if ev_executed e then ?close else iv_confirmed_at i))
          (s\<lparr>ls_last_evaluated_at := ?close\<rparr>) = Inr s'"
        using step True e i False by (auto simp: bar_step_def Let_def)
      have "lifecycle_ok signal iv s' \<and> ls_last_evaluated_at s' = ?close"
        using pending True i now d by (intro transition_ok_keep [OF ok tr])
          (simp_all add: invalidation_event_def terminal_status_def status_step_from)
      then show ?thesis by simp
    qed
  qed
qed

end

context entry_resolver
begin

lemma replay_bars_ok:
  assumes "lifecycle_ok signal iv s" "0 < duration"
    and "sorted_wrt (\<lambda>a b. c_timestamp a + duration \<le> c_timestamp b) bars"
    and "\<forall>b\<in>set bars. lc_created_at signal \<le> c_timestamp b \<longrightarrow> ls_last_evaluated_at s \<le> c_timestamp b"
    and "replay_bars resolve signal policy duration iv prev bars s = Inr t"
  shows "lifecycle_ok signal iv t"
  using assms
proof (induction bars arbitrary: prev s)
  case (Cons bar bars)
  show ?case
  proof (cases "terminal_status (ls_status s) \<or> c_timestamp bar < lc_created_at signal")
    case True
    then show ?thesis using Cons.IH [of s] Cons.prems by (auto split: if_splits)
  next
    case False
    then obtain u where u: "bar_step resolve signal policy duration iv prev bar s = Inr u"
      "replay_bars resolve signal policy duration iv (Some bar) bars u = Inr t"
      using Cons.prems(5) by (auto simp: bind_result_eq_Inr)
    have step: "lifecycle_ok signal iv u \<and> ls_last_evaluated_at u \<le> c_timestamp bar + duration"
      using False Cons.prems(1,2,4) by (intro bar_step_ok [OF _ _ _ _ u(1)]) auto
    then have "\<forall>b\<in>set bars. ls_last_evaluated_at u \<le> c_timestamp b"
      using Cons.prems(3) by fastforce
    with step u(2) Cons.prems(2,3) show ?thesis by (intro Cons.IH [of u "Some bar"]) auto
  qed
qed simp

text \<open>The replay raises only when the resolver does.\<close>

lemma bar_step_error:
  assumes "bar_step resolve signal policy duration iv prev bar s = Inl err"
    and "0 < lc_take_profit signal" "0 < lc_stop_loss signal"
  shows "resolve signal bar prev (c_timestamp bar + duration) = Inl err"
proof -
  have exit: "exit_step signal policy duration bar u \<noteq> Inl err" for u
    using exit_step_total [OF assms(2,3), of policy duration bar u] by auto
  have act: "activate signal policy duration bar t p s \<noteq> Inl err" if "0 < p" for t p
    using that exit by (auto simp: activate_def Let_def transition_def make_lifecycle_event_def)
  show ?thesis
  proof (cases "resolve signal bar prev (c_timestamp bar + duration)")
    case (Inl e)
    with assms(1) exit [of s] show ?thesis by (auto simp: bar_step_def Let_def split: if_splits)
  next
    case (Inr e)
    have wait: "waiting_step signal policy duration bar e s \<noteq> Inl err"
      using evidence_complete [OF Inr] act by (cases "ev_executed e") (auto simp: waiting_step_def)
    have tr: "transition ev t u \<noteq> Inl err" if "le_price ev = None" for ev t u
      using that by (simp add: transition_def make_lifecycle_event_def)
    from assms(1) have False
      using exit wait tr by (auto simp: bar_step_def Let_def Inr invalidation_event_def
          split: if_splits option.splits)
    then show ?thesis ..
  qed
qed

lemma replay_bars_error:
  assumes "replay_bars resolve signal policy duration iv prev bars s = Inl err"
    and "0 < lc_take_profit signal" "0 < lc_stop_loss signal"
  shows "\<exists>bar\<in>set bars. \<exists>prev. resolve signal bar prev (c_timestamp bar + duration) = Inl err"
  using assms(1)
proof (induction bars arbitrary: prev s)
  case (Cons bar bars)
  show ?case
  proof (cases "terminal_status (ls_status s) \<or> c_timestamp bar < lc_created_at signal")
    case True
    then show ?thesis using Cons by (auto split: if_splits)
  next
    case False
    then consider "bar_step resolve signal policy duration iv prev bar s = Inl err"
      | u where "replay_bars resolve signal policy duration iv (Some bar) bars u = Inl err"
      using Cons.prems by (auto simp: bind_result_eq_Inl)
    then show ?thesis
      by cases (use bar_step_error assms(2,3) Cons.IH in fastforce)+
  qed
qed simp

text \<open>The outcome of the first bar that does not leave a waiting signal waiting.\<close>

lemma activate_outcome:
  assumes step: "activate signal policy duration bar t p s = Inr s'"
  shows "(bar_touched signal bar \<and> t \<noteq> c_timestamp bar \<and> ls_status s' = AMBIGUOUS)
    \<or> (\<not> bar_touched signal bar \<and> ls_status s' = ACTIVE \<and> ls_activated_at s' = Some t)
    \<or> (bar_touched signal bar \<and> t = c_timestamp bar \<and> ls_activated_at s' = Some t
       \<and> ls_terminal_at s' = Some (c_timestamp bar + duration)
       \<and> ls_status s' = le_to_status (exit_record signal policy duration bar))"
proof -
  let ?ev = "\<lparr>le_event_type = EVT_ACTIVATED, le_from_status = Some WAITING, le_to_status = ACTIVE,
            le_occurred_at = t, le_bar_timestamp = Some (c_timestamp bar),
            le_price = Some p, le_reason_code = ENTRY_EXECUTION_CONFIRMED\<rparr>"
  from step obtain u where u: "transition ?ev None
      (s\<lparr>ls_activated_at := Some t, ls_last_evaluated_at := c_timestamp bar + duration\<rparr>) = Inr u"
    by (auto simp: activate_def Let_def bind_result_eq_Inr)
  then have ust: "ls_activated_at u = Some t" "ls_status u = ACTIVE"
    by (simp_all add: transition_eq_Inr)
  show ?thesis
  proof (cases "bar_touched signal bar")
    case False
    then show ?thesis using step u ust by (simp add: activate_def Let_def bar_touched_def)
  next
    case touched: True
    show ?thesis
    proof (cases "t = c_timestamp bar")
      case True
      then have "exit_step signal policy duration bar u = Inr s'"
        using step u touched unfolding activate_def Let_def bar_touched_def by simp
      from exit_step_outcome [OF this] touched True ust show ?thesis by simp
    next
      case False
      then have "ls_status s' = AMBIGUOUS"
        using step u touched unfolding activate_def Let_def bar_touched_def
        by (simp add: transition_eq_Inr)
      with touched False show ?thesis by simp
    qed
  qed
qed

lemma bar_step_outcome:
  assumes "bar_step resolve signal policy duration iv prev bar s = Inr s'" "ls_status s = WAITING"
  shows "ls_status s' = WAITING \<or> ls_status s' \<in> {CANCELLED, AMBIGUOUS}
    \<or> (\<exists>a. ls_activated_at s' = Some a \<and> (a = c_timestamp bar \<or> a = c_timestamp bar + duration)
        \<and> ls_status s' = ACTIVE \<and> \<not> bar_touched signal bar)
    \<or> (ls_activated_at s' = Some (c_timestamp bar) \<and> bar_touched signal bar
        \<and> ls_terminal_at s' = Some (c_timestamp bar + duration)
        \<and> ls_status s' = le_to_status (exit_record signal policy duration bar))"
proof -
  from assms obtain e where e: "resolve signal bar prev (c_timestamp bar + duration) = Inr e"
    by (auto simp: bar_step_def Let_def bind_result_eq_Inr)
  consider "ls_status s' \<in> {CANCELLED, AMBIGUOUS}" | "waiting_step signal policy duration bar e s = Inr s'"
    using assms e by (auto simp: bar_step_def Let_def transition_eq_Inr invalidation_event_def
        split: option.splits if_splits)
  then show ?thesis
  proof cases
    case 2
    show ?thesis
    proof (cases "ev_executed e")
      case True
      from evidence_complete [OF e True] obtain t p where
        t: "ev_executed_at e = Some t" "t = c_timestamp bar \<or> t = c_timestamp bar + duration"
        "ev_executed_entry_price e = Some p" by blast
      then have "activate signal policy duration bar t p s = Inr s'"
        using 2 True by (simp add: waiting_step_def)
      from activate_outcome [OF this] t(2) show ?thesis by auto
    qed (use 2 assms(2) in \<open>auto simp: waiting_step_def\<close>)
  qed auto
qed

lemma replay_active_resolved:
  assumes "replay_bars resolve signal policy duration iv prev bars s = Inr t"
    and "ls_status s = ACTIVE" "ls_status t \<in> {TP_HIT, SL_HIT}"
    and "\<forall>b\<in>set bars. lc_created_at signal \<le> c_timestamp b"
  shows "\<exists>xs b ys. bars = xs @ b # ys \<and> (\<forall>x\<in>set xs. \<not> bar_touched signal x)
     \<and> ls_activated_at t = ls_activated_at s \<and> ls_terminal_at t = Some (c_timestamp b + duration)
     \<and> bar_touched signal b \<and> ls_status t = le_to_status (exit_record signal policy duration b)"
  using assms
proof (induction bars arbitrary: prev s)
  case (Cons bar bars)
  then obtain u where u: "exit_step signal policy duration bar s = Inr u"
    "replay_bars resolve signal policy duration iv (Some bar) bars u = Inr t"
    by (auto simp: bind_result_eq_Inr bar_step_def terminal_status_def)
  note out = exit_step_outcome [OF u(1)]
  show ?case
  proof (cases "bar_touched signal bar")
    case True
    then have "t = u" using u(2) out exit_record_terminal by (simp add: replay_bars_terminal)
    with True out show ?thesis by (intro exI [of _ "[]"] exI [of _ bar] exI [of _ bars]) simp
  next
    case False
    then obtain xs b ys where "bars = xs @ b # ys" "\<forall>x\<in>set xs. \<not> bar_touched signal x"
      "ls_activated_at t = ls_activated_at s" "ls_terminal_at t = Some (c_timestamp b + duration)"
      "bar_touched signal b" "ls_status t = le_to_status (exit_record signal policy duration b)"
      using Cons.IH [OF u(2)] out Cons.prems by auto
    with False show ?thesis
      by (intro exI [of _ "bar # xs"] exI [of _ b] exI [of _ ys]) simp
  qed
qed auto

lemma replay_waiting_resolved:
  assumes "replay_bars resolve signal policy duration iv prev bars s = Inr t"
    and "ls_status s = WAITING" "ls_status t \<in> {TP_HIT, SL_HIT}" "0 < duration"
    and "sorted_wrt (\<lambda>a b. c_timestamp a + duration \<le> c_timestamp b) bars"
  shows "\<exists>xs b ys a. bars = xs @ b # ys \<and> ls_activated_at t = Some a
     \<and> (\<exists>x\<in>set bars. lc_created_at signal \<le> c_timestamp x \<and> c_timestamp x \<le> a)
     \<and> a \<le> c_timestamp b \<and> (\<forall>x\<in>set xs. a \<le> c_timestamp x \<longrightarrow> \<not> bar_touched signal x)
     \<and> ls_terminal_at t = Some (c_timestamp b + duration)
     \<and> bar_touched signal b \<and> ls_status t = le_to_status (exit_record signal policy duration b)"
  using assms
proof (induction bars arbitrary: prev s)
  case (Cons bar bars)
  have sorted: "sorted_wrt (\<lambda>a b. c_timestamp a + duration \<le> c_timestamp b) bars"
    and later: "\<forall>b\<in>set bars. c_timestamp bar + duration \<le> c_timestamp b" using Cons.prems(5) by auto
  have lift: ?case if "\<exists>xs b ys a. bars = xs @ b # ys \<and> ls_activated_at t = Some a
     \<and> (\<exists>x\<in>set bars. lc_created_at signal \<le> c_timestamp x \<and> c_timestamp x \<le> a)
     \<and> a \<le> c_timestamp b \<and> (\<forall>x\<in>set xs. a \<le> c_timestamp x \<longrightarrow> \<not> bar_touched signal x)
     \<and> ls_terminal_at t = Some (c_timestamp b + duration)
     \<and> bar_touched signal b \<and> ls_status t = le_to_status (exit_record signal policy duration b)"
  proof -
    from that obtain xs b ys a x where r: "bars = xs @ b # ys" "ls_activated_at t = Some a"
      "x \<in> set bars" "lc_created_at signal \<le> c_timestamp x" "c_timestamp x \<le> a"
      "a \<le> c_timestamp b" "\<forall>x\<in>set xs. a \<le> c_timestamp x \<longrightarrow> \<not> bar_touched signal x"
      "ls_terminal_at t = Some (c_timestamp b + duration)"
      "bar_touched signal b" "ls_status t = le_to_status (exit_record signal policy duration b)"
      by blast
    have "c_timestamp bar < a" using later r(3,5) Cons.prems(4) by fastforce
    then have "\<forall>x\<in>set (bar # xs). a \<le> c_timestamp x \<longrightarrow> \<not> bar_touched signal x" using r(7) by auto
    moreover have "\<exists>x\<in>set (bar # bars). lc_created_at signal \<le> c_timestamp x \<and> c_timestamp x \<le> a"
      using r(3-5) by auto
    ultimately show ?thesis using r(1,2,6,8-10)
      by (intro exI [of _ "bar # xs"] exI [of _ b] exI [of _ ys] exI [of _ a]) simp
  qed
  show ?case
  proof (cases "c_timestamp bar < lc_created_at signal")
    case True
    then have "replay_bars resolve signal policy duration iv (Some bar) bars s = Inr t"
      using Cons.prems(1,2) by (simp add: terminal_status_def)
    then show ?thesis using Cons.IH Cons.prems(2-4) sorted lift by blast
  next
    case False
    then obtain u where u: "bar_step resolve signal policy duration iv prev bar s = Inr u"
      "replay_bars resolve signal policy duration iv (Some bar) bars u = Inr t"
      using Cons.prems(1,2) by (auto simp: bind_result_eq_Inr terminal_status_def)
    have dead: "t = u" if "terminal_status (ls_status u)"
      using u(2) that by (simp add: replay_bars_terminal)
    from bar_step_outcome [OF u(1) Cons.prems(2)] consider
        "ls_status u = WAITING" | "ls_status u \<in> {CANCELLED, AMBIGUOUS}"
      | a where "ls_activated_at u = Some a" "a = c_timestamp bar \<or> a = c_timestamp bar + duration"
        "ls_status u = ACTIVE" "\<not> bar_touched signal bar"
      | "ls_activated_at u = Some (c_timestamp bar)" "bar_touched signal bar"
        "ls_terminal_at u = Some (c_timestamp bar + duration)"
        "ls_status u = le_to_status (exit_record signal policy duration bar)"
      by blast
    then show ?thesis
    proof cases
      case 1
      then show ?thesis using Cons.IH [OF u(2)] Cons.prems(3,4) sorted lift by blast
    next
      case 2
      then have "t = u" by (intro dead) (auto simp: terminal_status_def)
      with 2 Cons.prems(3) show ?thesis by auto
    next
      case 3
      have "\<forall>b\<in>set bars. lc_created_at signal \<le> c_timestamp b"
        using later False Cons.prems(4) by fastforce
      then obtain xs b ys where r: "bars = xs @ b # ys" "\<forall>x\<in>set xs. \<not> bar_touched signal x"
        "ls_activated_at t = Some a" "ls_terminal_at t = Some (c_timestamp b + duration)"
        "bar_touched signal b" "ls_status t = le_to_status (exit_record signal policy duration b)"
        using replay_active_resolved [OF u(2) 3(3) Cons.prems(3)] unfolding 3(1) by blast
      moreover have "a \<le> c_timestamp b" using later r(1) 3(2) Cons.prems(4) by fastforce
      moreover have "\<forall>x\<in>set (bar # xs). a \<le> c_timestamp x \<longrightarrow> \<not> bar_touched signal x"
        using r(2) 3(4) by auto
      moreover have "\<exists>x\<in>set (bar # bars). lc_created_at signal \<le> c_timestamp x \<and> c_timestamp x \<le> a"
        using False 3(2) Cons.prems(4) by auto
      ultimately show ?thesis
        by (intro exI [of _ "bar # xs"] exI [of _ b] exI [of _ ys] exI [of _ a]) simp
    next
      case 4
      then have "t = u" using exit_record_terminal by (intro dead) simp
      with 4 False show ?thesis
        by (intro exI [of _ "[]"] exI [of _ bar] exI [of _ bars] exI [of _ "c_timestamp bar"]) simp
    qed
  qed
qed auto

end

section \<open>Properties of every resolver\<close>

text \<open>
  C9: The replay does not look ahead: candles that arrive later only append events, and once a signal is
  terminal its result is the same however many candles follow. This holds for every entry resolver.
\<close>

theorem lifecycle_no_lookahead:
  assumes "replay_signal_lifecycle resolver signal candles tf policy iv = Inr r"
    and "validate_lifecycle_inputs signal (candles @ later) (timeframe_duration tf) iv = Inr ()"
  shows "(terminal_status (lr_status r) \<longrightarrow>
        replay_signal_lifecycle resolver signal (candles @ later) tf policy iv = Inr r)
     \<and> (\<forall>r'. replay_signal_lifecycle resolver signal (candles @ later) tf policy iv = Inr r' \<longrightarrow>
        (\<exists>es. lr_events r' = lr_events r @ es))"
proof -
  let ?d = "timeframe_duration tf"
  from assms(1) obtain s t where s: "start_state signal iv = Inr s"
    "replay_bars resolver signal policy ?d iv None candles s = Inr t"
    "validate_status_timestamps (result_of signal t) = Inr r"
    by (auto simp: replay_signal_lifecycle_def Let_def bind_result_eq_Inr)
  have r: "r = result_of signal t"
    using s(3) by (auto simp: validate_status_timestamps_def split: if_splits)
  have eq: "replay_signal_lifecycle resolver signal (candles @ later) tf policy iv =
      bind_result (replay_bars resolver signal policy ?d iv
          (if candles = [] then None else Some (last candles)) later t)
        (\<lambda>u. validate_status_timestamps (result_of signal u))"
    using assms(2) s(1,2) by (simp add: replay_signal_lifecycle_def Let_def replay_bars_append)
  have "\<exists>es. lr_events r' = lr_events r @ es"
    if r': "replay_signal_lifecycle resolver signal (candles @ later) tf policy iv = Inr r'" for r'
  proof -
    from r' obtain u where u: "replay_bars resolver signal policy ?d iv
        (if candles = [] then None else Some (last candles)) later t = Inr u"
      "validate_status_timestamps (result_of signal u) = Inr r'"
      by (auto simp: eq bind_result_eq_Inr)
    then have "r' = result_of signal u"
      by (auto simp: validate_status_timestamps_def split: if_splits)
    with replay_bars_events [OF u(1)] show ?thesis by (simp add: r result_of_def)
  qed
  moreover have "replay_signal_lifecycle resolver signal (candles @ later) tf policy iv = Inr r"
    if "terminal_status (lr_status r)"
    using that s(3) unfolding eq r by (simp add: result_of_def replay_bars_terminal)
  ultimately show ?thesis by blast
qed

end
