(* ===== verification/Backtest_Execution.thy ===== *)
theory Backtest_Execution
  imports Signal_Lifecycle
begin

text \<open>
  The conservative fills of the backtest: the data model (\<open>schemas/execution.py\<close>,
  \<open>core/financial.py\<close>) and the entry and exit policy (\<open>backtesting/execution.py\<close>). Prices go through
  the default decimal context, so each product, sum and quotient is rounded where the code rounds it.
  The entry policy provides the resolver of the lifecycle engine: the interpretation at the end
  discharges the contract of \<open>entry_resolver\<close>.
\<close>

datatype financial_outcome = OUTCOME_PROFIT | OUTCOME_LOSS | OUTCOME_FLAT

definition classify_financial_outcome :: "rat \<Rightarrow> financial_outcome" where
  "classify_financial_outcome net_pnl =
     (if net_pnl > 0 then OUTCOME_PROFIT else if net_pnl < 0 then OUTCOME_LOSS else OUTCOME_FLAT)"

datatype execution_policy_name = CONSERVATIVE_MARKET_FILL

datatype execution_exit_reason = EXIT_TAKE_PROFIT | EXIT_STOP_LOSS

datatype entry_execution_reason =
    OPEN_INSIDE_ZONE | BOUNDARY_TOUCH_FROM_BELOW | BOUNDARY_TOUCH_FROM_ABOVE
  | ZONE_SKIPPED | NO_ZONE_INTERACTION

record execution_config =
  xc_policy :: execution_policy_name
  xc_commission_bps_per_side :: rat
  xc_spread_bps :: rat
  xc_slippage_bps_per_side :: rat

definition execution_config_valid :: "execution_config \<Rightarrow> bool" where
  "execution_config_valid c \<longleftrightarrow>
     0 \<le> xc_commission_bps_per_side c \<and> 0 \<le> xc_spread_bps c \<and> 0 \<le> xc_slippage_bps_per_side c"

record entry_request =
  eq_candidate_id :: string
  eq_direction :: signal_decision
  eq_entry_zone_low :: price
  eq_entry_zone_high :: price
  eq_entry_reference :: price
  eq_stop_loss :: price
  eq_candle :: candle
  eq_previous_close :: "price option"
  eq_candle_close_at :: utc_time

definition validate_entry_levels :: "entry_request \<Rightarrow> entry_request result" where
  "validate_entry_levels r =
     (if eq_direction r = NO_TRADE then Inl (ValidationError ''NO_TRADE cannot be executed'')
      else if \<not> (eq_entry_zone_low r \<le> eq_entry_reference r
                 \<and> eq_entry_reference r \<le> eq_entry_zone_high r)
      then Inl (ValidationError ''entry_reference must be inside entry zone'')
      else if \<not> (if eq_direction r = LONG then eq_stop_loss r < eq_entry_zone_low r
                 else eq_stop_loss r > eq_entry_zone_high r)
      then Inl (ValidationError ''entry and stop levels are directionally invalid'')
      else Inr r)"

definition make_entry_request :: "entry_request \<Rightarrow> entry_request result" where
  "make_entry_request r =
     (if eq_candidate_id r \<noteq> '''' \<and> 0 < eq_entry_zone_low r \<and> 0 < eq_entry_zone_high r
         \<and> 0 < eq_entry_reference r \<and> 0 < eq_stop_loss r \<and> opt_pos (eq_previous_close r)
      then validate_entry_levels r else Inl (ValidationError ''entry execution request field''))"

record entry_result =
  er_execution_policy :: execution_policy_name
  er_candidate_id :: string
  er_direction :: signal_decision
  er_executed :: bool
  er_execution_reason :: entry_execution_reason
  er_requested_entry_price :: price
  er_stop_loss :: price
  er_base_entry_execution_price :: "price option"
  er_executed_entry_price :: "price option"
  er_entry_gap_detected :: bool
  er_entry_spread_cost :: rat
  er_entry_slippage :: rat
  er_planned_risk :: rat
  er_actual_entry_risk :: "rat option"
  er_executed_at :: "utc_time option"
  er_source_bar_timestamp :: utc_time

definition validate_execution_evidence :: "entry_result \<Rightarrow> entry_result result" where
  "validate_execution_evidence r =
     (if er_executed r \<noteq> (er_base_entry_execution_price r \<noteq> None \<and> er_executed_entry_price r \<noteq> None
           \<and> er_actual_entry_risk r \<noteq> None \<and> er_executed_at r \<noteq> None)
      then Inl (ValidationError ''executed entry and execution evidence must agree'')
      else if er_planned_risk r \<noteq> dabs (dsub (er_requested_entry_price r) (er_stop_loss r))
      then Inl (ValidationError ''planned_risk must use requested entry and stop loss'')
      else if \<not> er_executed r
      then if er_entry_spread_cost r \<noteq> 0 \<or> er_entry_slippage r \<noteq> 0
           then Inl (ValidationError ''unexecuted entry cannot report execution costs'')
           else Inr r
      else if er_execution_reason r \<notin> {OPEN_INSIDE_ZONE, BOUNDARY_TOUCH_FROM_BELOW,
                BOUNDARY_TOUCH_FROM_ABOVE}
      then Inl (ValidationError ''executed entry requires an executable reason'')
      else case (er_executed_entry_price r, er_base_entry_execution_price r) of
        (Some executed, Some base) \<Rightarrow>
          let expected = dabs (dsub executed (er_requested_entry_price r))
          in if er_entry_slippage r \<noteq> dabs (dsub executed base)
             then Inl (ValidationError ''entry_slippage must be measured from executable base'')
             else if expected < er_entry_slippage r
             then Inl (ValidationError ''entry execution arithmetic is inconsistent'')
             else if er_actual_entry_risk r \<noteq> Some (dabs (dsub executed (er_stop_loss r)))
             then Inl (ValidationError ''actual_entry_risk must use executed entry and stop loss'')
             else Inr r
      | _ \<Rightarrow> Inl AssertionError)"

definition make_entry_result :: "entry_result \<Rightarrow> entry_result result" where
  "make_entry_result r =
     (if 0 < er_requested_entry_price r \<and> 0 < er_stop_loss r
         \<and> opt_pos (er_base_entry_execution_price r) \<and> opt_pos (er_executed_entry_price r)
         \<and> 0 \<le> er_entry_spread_cost r \<and> 0 \<le> er_entry_slippage r \<and> 0 < er_planned_risk r
         \<and> opt_pos (er_actual_entry_risk r)
      then validate_execution_evidence r else Inl (ValidationError ''entry execution result field''))"

section \<open>The entry of one closed candle\<close>

definition basis_points :: rat where
  "basis_points = 10000"

definition entry_gap_skipped :: "entry_request \<Rightarrow> bool" where
  "entry_gap_skipped r =
     (case eq_previous_close r of
        None \<Rightarrow> False
      | Some previous \<Rightarrow>
          (previous < eq_entry_zone_low r \<and> c_open (eq_candle r) > eq_entry_zone_high r)
          \<or> (previous > eq_entry_zone_high r \<and> c_open (eq_candle r) < eq_entry_zone_low r))"

text \<open>The reason, the executable base and its instant.\<close>

definition entry_base ::
  "entry_request \<Rightarrow> entry_execution_reason \<times> (price \<times> utc_time) option" where
  "entry_base r =
     (let low = eq_entry_zone_low r; high = eq_entry_zone_high r; bar = eq_candle r
      in if low \<le> c_open bar \<and> c_open bar \<le> high
         then (OPEN_INSIDE_ZONE, Some (c_open bar, c_timestamp bar))
         else if c_open bar < low \<and> c_high bar \<ge> low
         then (BOUNDARY_TOUCH_FROM_BELOW, Some (low, eq_candle_close_at r))
         else if c_open bar > high \<and> c_low bar \<le> high
         then (BOUNDARY_TOUCH_FROM_ABOVE, Some (high, eq_candle_close_at r))
         else (if entry_gap_skipped r then ZONE_SKIPPED else NO_ZONE_INTERACTION, None))"

definition execute_entry_candle :: "entry_request \<Rightarrow> execution_config \<Rightarrow> entry_result result" where
  "execute_entry_candle r cfg =
     (let gap_skipped = entry_gap_skipped r;
          (reason, base) = entry_base r;
          planned_risk = dabs (dsub (eq_entry_reference r) (eq_stop_loss r))
      in case base of
        None \<Rightarrow> make_entry_result
          \<lparr>er_execution_policy = xc_policy cfg, er_candidate_id = eq_candidate_id r,
           er_direction = eq_direction r, er_executed = False, er_execution_reason = reason,
           er_requested_entry_price = eq_entry_reference r, er_stop_loss = eq_stop_loss r,
           er_base_entry_execution_price = None, er_executed_entry_price = None,
           er_entry_gap_detected = gap_skipped, er_entry_spread_cost = 0, er_entry_slippage = 0,
           er_planned_risk = planned_risk, er_actual_entry_risk = None, er_executed_at = None,
           er_source_bar_timestamp = c_timestamp (eq_candle r)\<rparr>
      | Some (base, executed_at) \<Rightarrow>
          let slippage = ddiv (dmul base (xc_slippage_bps_per_side cfg)) basis_points;
              executed_price = (if eq_direction r = LONG then dadd base slippage
                                else dsub base slippage)
          in if executed_price \<le> 0
             then Inl (ValueError ''configured slippage produced a non-positive entry price'')
             else let actual_entry_risk = dabs (dsub executed_price (eq_stop_loss r))
             in if actual_entry_risk \<le> 0
                then Inl (ValueError ''executed entry price must differ from stop loss'')
                else make_entry_result
                  \<lparr>er_execution_policy = xc_policy cfg, er_candidate_id = eq_candidate_id r,
                   er_direction = eq_direction r, er_executed = True, er_execution_reason = reason,
                   er_requested_entry_price = eq_entry_reference r, er_stop_loss = eq_stop_loss r,
                   er_base_entry_execution_price = Some base,
                   er_executed_entry_price = Some executed_price,
                   er_entry_gap_detected = gap_skipped,
                   er_entry_spread_cost = ddiv (dmul base (xc_spread_bps cfg)) basis_points,
                   er_entry_slippage = slippage, er_planned_risk = planned_risk,
                   er_actual_entry_risk = Some actual_entry_risk, er_executed_at = Some executed_at,
                   er_source_bar_timestamp = c_timestamp (eq_candle r)\<rparr>)"

definition evidence_of :: "entry_result \<Rightarrow> entry_evidence" where
  "evidence_of r =
     \<lparr>ev_executed = er_executed r, ev_executed_at = er_executed_at r,
      ev_executed_entry_price = er_executed_entry_price r\<rparr>"

definition build_entry_execution_resolver :: "execution_config \<Rightarrow> entry_execution_resolver" where
  "build_entry_execution_resolver cfg = (\<lambda>signal bar previous_bar bar_close.
     bind_result (make_entry_request
       \<lparr>eq_candidate_id = lc_signal_id signal, eq_direction = lc_direction signal,
        eq_entry_zone_low = ez_low (lc_entry_zone signal),
        eq_entry_zone_high = ez_high (lc_entry_zone signal),
        eq_entry_reference = lc_entry_reference signal, eq_stop_loss = lc_stop_loss signal,
        eq_candle = bar, eq_previous_close = map_option c_close previous_bar,
        eq_candle_close_at = bar_close\<rparr>)
     (\<lambda>request. bind_result (execute_entry_candle request cfg) (\<lambda>r. Inr (evidence_of r))))"

section \<open>The exit on one terminal candle\<close>

record execution_request =
  xr_candidate_id :: string
  xr_direction :: signal_decision
  xr_entry_execution :: entry_result
  xr_stop_loss :: price
  xr_take_profit :: price
  xr_candle :: candle
  xr_was_active_before_open :: bool
  xr_lifecycle_status :: signal_lifecycle_status
  xr_lifecycle_terminal_at :: utc_time

definition validate_request :: "execution_request \<Rightarrow> execution_request result" where
  "validate_request r =
     (if xr_direction r = NO_TRADE then Inl (ValidationError ''NO_TRADE cannot be executed'')
      else if xr_lifecycle_status r \<notin> {TP_HIT, SL_HIT, AMBIGUOUS}
      then Inl (ValidationError ''execution requires a terminal price lifecycle status'')
      else if \<not> er_executed (xr_entry_execution r)
      then Inl (ValidationError ''terminal execution requires executed entry evidence'')
      else if er_candidate_id (xr_entry_execution r) \<noteq> xr_candidate_id r
      then Inl (ValidationError ''entry execution candidate does not match'')
      else if er_direction (xr_entry_execution r) \<noteq> xr_direction r
      then Inl (ValidationError ''entry execution direction does not match'')
      else let entry_reference = er_requested_entry_price (xr_entry_execution r)
      in if \<not> (if xr_direction r = LONG
               then xr_stop_loss r < entry_reference \<and> entry_reference < xr_take_profit r
               else xr_take_profit r < entry_reference \<and> entry_reference < xr_stop_loss r)
         then Inl (ValidationError ''execution levels are directionally invalid'')
         else Inr r)"

definition make_execution_request :: "execution_request \<Rightarrow> execution_request result" where
  "make_execution_request r =
     (if xr_candidate_id r \<noteq> '''' \<and> 0 < xr_stop_loss r \<and> 0 < xr_take_profit r
      then validate_request r else Inl (ValidationError ''execution request field''))"

record execution_result =
  xs_execution_policy :: execution_policy_name
  xs_candidate_id :: string
  xs_direction :: signal_decision
  xs_entry_execution :: entry_result
  xs_exit_reason :: execution_exit_reason
  xs_requested_exit_price :: price
  xs_base_execution_price :: price
  xs_executed_entry_price :: price
  xs_executed_exit_price :: price
  xs_gap_detected :: bool
  xs_spread_cost :: rat
  xs_exit_slippage :: rat
  xs_slippage :: rat
  xs_gap_slippage :: rat
  xs_commission_cost :: rat
  xs_gross_pnl :: rat
  xs_net_pnl :: rat
  xs_planned_risk :: rat
  xs_actual_entry_risk :: rat
  xs_gross_r :: rat
  xs_net_r :: rat
  xs_financial_outcome :: financial_outcome
  xs_executed_at :: utc_time
  xs_source_bar_timestamp :: utc_time

definition validate_arithmetic :: "execution_result \<Rightarrow> execution_result result" where
  "validate_arithmetic r =
     (let e = xs_entry_execution r
      in if \<not> er_executed e
         then Inl (ValidationError ''terminal result requires executed entry evidence'')
         else if xs_candidate_id r \<noteq> er_candidate_id e
         then Inl (ValidationError ''terminal result must preserve entry candidate'')
         else if xs_direction r \<noteq> er_direction e
         then Inl (ValidationError ''terminal result must preserve entry direction'')
         else if xs_execution_policy r \<noteq> er_execution_policy e
         then Inl (ValidationError ''terminal result must preserve entry execution policy'')
         else if Some (xs_executed_entry_price r) \<noteq> er_executed_entry_price e
         then Inl (ValidationError ''terminal result must preserve executed entry price'')
         else if xs_planned_risk r \<noteq> er_planned_risk e
         then Inl (ValidationError ''terminal result must preserve planned risk'')
         else if Some (xs_actual_entry_risk r) \<noteq> er_actual_entry_risk e
         then Inl (ValidationError ''terminal result must preserve actual entry risk'')
         else if xs_gross_pnl r \<noteq> (if xs_direction r = LONG
              then dsub (xs_executed_exit_price r) (xs_executed_entry_price r)
              else dsub (xs_executed_entry_price r) (xs_executed_exit_price r))
         then Inl (ValidationError ''gross_pnl must use direction-aware executed prices'')
         else if xs_net_pnl r
              \<noteq> dsub (dsub (xs_gross_pnl r) (xs_spread_cost r)) (xs_commission_cost r)
         then Inl (ValidationError ''net_pnl must subtract spread and commission exactly once'')
         else if xs_exit_slippage r
              \<noteq> dabs (dsub (xs_executed_exit_price r) (xs_base_execution_price r))
         then Inl (ValidationError ''exit_slippage must be measured from executable base'')
         else if xs_slippage r \<noteq> dadd (er_entry_slippage e) (xs_exit_slippage r)
         then Inl (ValidationError ''total slippage must equal entry plus exit slippage'')
         else if xs_gross_r r \<noteq> ddiv (xs_gross_pnl r) (xs_planned_risk r)
         then Inl (ValidationError ''gross_r must use executed-price gross_pnl'')
         else if xs_net_r r \<noteq> ddiv (xs_net_pnl r) (xs_planned_risk r)
         then Inl (ValidationError ''net_r must use executed-price net_pnl'')
         else if xs_financial_outcome r \<noteq> classify_financial_outcome (xs_net_pnl r)
         then Inl (ValidationError ''financial_outcome must match net_pnl'')
         else if xs_gap_slippage r
              \<noteq> dabs (dsub (xs_base_execution_price r) (xs_requested_exit_price r))
         then Inl (ValidationError
           ''gap_slippage must equal the absolute requested-to-base difference'')
         else if \<not> xs_gap_detected r \<and> xs_gap_slippage r \<noteq> 0
         then Inl (ValidationError ''non-gap execution cannot report gap slippage'')
         else Inr r)"

definition make_execution_result :: "execution_result \<Rightarrow> execution_result result" where
  "make_execution_result r =
     (if 0 < xs_requested_exit_price r \<and> 0 < xs_base_execution_price r
         \<and> 0 < xs_executed_entry_price r \<and> 0 < xs_executed_exit_price r \<and> 0 \<le> xs_spread_cost r
         \<and> 0 \<le> xs_exit_slippage r \<and> 0 \<le> xs_slippage r \<and> 0 \<le> xs_gap_slippage r
         \<and> 0 \<le> xs_commission_cost r \<and> 0 < xs_planned_risk r \<and> 0 < xs_actual_entry_risk r
      then validate_arithmetic r else Inl (ValidationError ''execution result field''))"

definition opening_gap_reason :: "execution_request \<Rightarrow> execution_exit_reason option" where
  "opening_gap_reason r =
     (let open_price = c_open (xr_candle r)
      in if xr_direction r = LONG
         then if open_price < xr_stop_loss r then Some EXIT_STOP_LOSS
              else if open_price > xr_take_profit r then Some EXIT_TAKE_PROFIT else None
         else if open_price > xr_stop_loss r then Some EXIT_STOP_LOSS
              else if open_price < xr_take_profit r then Some EXIT_TAKE_PROFIT else None)"

text \<open>The reason of the exit and whether it is an opening gap; \<open>None\<close> when the order is unknown.\<close>

definition exit_decision :: "execution_request \<Rightarrow> (execution_exit_reason \<times> bool) option" where
  "exit_decision r =
     (case (if xr_was_active_before_open r then opening_gap_reason r else None) of
        Some reason \<Rightarrow> Some (reason, True)
      | None \<Rightarrow>
          if xr_lifecycle_status r = AMBIGUOUS then None
          else if xr_lifecycle_status r = TP_HIT then Some (EXIT_TAKE_PROFIT, False)
          else Some (EXIT_STOP_LOSS, False))"

definition exit_base :: "execution_request \<Rightarrow> execution_exit_reason \<Rightarrow> bool \<Rightarrow> price" where
  "exit_base r reason gap_detected =
     (if gap_detected \<and> reason = EXIT_STOP_LOSS then c_open (xr_candle r)
      else if reason = EXIT_TAKE_PROFIT then xr_take_profit r else xr_stop_loss r)"

definition exit_fill :: "execution_request \<Rightarrow> execution_config \<Rightarrow> price \<Rightarrow> price" where
  "exit_fill r cfg base =
     (let exit_slippage = ddiv (dmul base (xc_slippage_bps_per_side cfg)) basis_points
      in if xr_direction r = LONG then dsub base exit_slippage else dadd base exit_slippage)"

definition settled_result :: "execution_request \<Rightarrow> execution_config \<Rightarrow> execution_exit_reason \<Rightarrow> bool \<Rightarrow>
    price \<Rightarrow> price \<Rightarrow> rat \<Rightarrow> execution_result" where
  "settled_result r cfg reason gap_detected executed_entry entry_base_price actual_entry_risk =
     (let e = xr_entry_execution r;
          requested = (if reason = EXIT_TAKE_PROFIT then xr_take_profit r else xr_stop_loss r);
          base = exit_base r reason gap_detected;
          exit_slippage = ddiv (dmul base (xc_slippage_bps_per_side cfg)) basis_points;
          executed_exit = exit_fill r cfg base;
          gross_pnl = (if xr_direction r = LONG then dsub executed_exit executed_entry
                       else dsub executed_entry executed_exit);
          spread_cost = er_entry_spread_cost e;
          commission_cost = ddiv (dmul (dadd entry_base_price base)
             (xc_commission_bps_per_side cfg)) basis_points;
          net_pnl = dsub (dsub gross_pnl spread_cost) commission_cost;
          planned_risk = er_planned_risk e
      in \<lparr>xs_execution_policy = xc_policy cfg, xs_candidate_id = xr_candidate_id r,
          xs_direction = xr_direction r, xs_entry_execution = e, xs_exit_reason = reason,
          xs_requested_exit_price = requested, xs_base_execution_price = base,
          xs_executed_entry_price = executed_entry, xs_executed_exit_price = executed_exit,
          xs_gap_detected = gap_detected, xs_spread_cost = spread_cost,
          xs_exit_slippage = exit_slippage,
          xs_slippage = dadd (er_entry_slippage e) exit_slippage,
          xs_gap_slippage = dabs (dsub base requested), xs_commission_cost = commission_cost,
          xs_gross_pnl = gross_pnl, xs_net_pnl = net_pnl, xs_planned_risk = planned_risk,
          xs_actual_entry_risk = actual_entry_risk, xs_gross_r = ddiv gross_pnl planned_risk,
          xs_net_r = ddiv net_pnl planned_risk,
          xs_financial_outcome = classify_financial_outcome net_pnl,
          xs_executed_at = (if gap_detected then c_timestamp (xr_candle r)
                            else xr_lifecycle_terminal_at r),
          xs_source_bar_timestamp = c_timestamp (xr_candle r)\<rparr>)"

definition settle_exit :: "execution_request \<Rightarrow> execution_config \<Rightarrow> execution_exit_reason \<Rightarrow> bool \<Rightarrow>
    price \<Rightarrow> price \<Rightarrow> rat \<Rightarrow> execution_result result" where
  "settle_exit r cfg reason gap_detected executed_entry entry_base_price actual_entry_risk =
     (if executed_entry \<le> 0 \<or> exit_fill r cfg (exit_base r reason gap_detected) \<le> 0
      then Inl (ValueError ''configured slippage produced a non-positive execution price'')
      else make_execution_result
        (settled_result r cfg reason gap_detected executed_entry entry_base_price actual_entry_risk))"

definition execute_terminal_candle ::
  "execution_request \<Rightarrow> execution_config \<Rightarrow> execution_result option result" where
  "execute_terminal_candle r cfg =
     (case exit_decision r of
        None \<Rightarrow> Inr None
      | Some (reason, gap_detected) \<Rightarrow>
          (case (er_executed_entry_price (xr_entry_execution r),
                 er_base_entry_execution_price (xr_entry_execution r),
                 er_actual_entry_risk (xr_entry_execution r)) of
             (Some executed_entry, Some entry_base_price, Some actual_entry_risk) \<Rightarrow>
               bind_result (settle_exit r cfg reason gap_detected executed_entry entry_base_price
                 actual_entry_risk) (\<lambda>x. Inr (Some x))
           | _ \<Rightarrow> Inl AssertionError))"

section \<open>The resolver keeps its contract\<close>

lemma make_entry_result_Inr: "make_entry_result r = Inr r' \<Longrightarrow> r' = r"
  by (auto simp: make_entry_result_def validate_execution_evidence_def Let_def
      split: if_splits option.splits)

lemma make_entry_request_Inr: "make_entry_request r = Inr r' \<Longrightarrow> r' = r"
  by (auto simp: make_entry_request_def validate_entry_levels_def split: if_splits)

lemma entry_base_instant:
  "entry_base r = (reason, Some (base, t)) \<Longrightarrow> t = c_timestamp (eq_candle r) \<or> t = eq_candle_close_at r"
  by (auto simp: entry_base_def Let_def split: if_splits)

lemma execute_entry_executed:
  assumes "execute_entry_candle r cfg = Inr res" "er_executed res"
  obtains base t p where "entry_base r = (er_execution_reason res, Some (base, t))"
    "er_executed_at res = Some t" "er_base_entry_execution_price res = Some base"
    "er_executed_entry_price res = Some p" "0 < p"
    "p = (if eq_direction r = LONG
          then dadd base (ddiv (dmul base (xc_slippage_bps_per_side cfg)) basis_points)
          else dsub base (ddiv (dmul base (xc_slippage_bps_per_side cfg)) basis_points))"
proof -
  obtain reason b where b: "entry_base r = (reason, b)" by force
  show ?thesis
  proof (cases b)
    case None
    with assms b show ?thesis
      by (auto simp: execute_entry_candle_def Let_def dest!: make_entry_result_Inr)
  next
    case (Some bt)
    obtain base t where bt: "bt = (base, t)" by force
    from assms(1) b Some bt show ?thesis
      by (intro that [of base t]) (auto simp: execute_entry_candle_def Let_def not_le
          dest!: make_entry_result_Inr split: if_splits)
  qed
qed

interpretation entry_policy: entry_resolver "build_entry_execution_resolver cfg" for cfg
proof
  fix signal bar previous_bar bar_close e
  assume res: "build_entry_execution_resolver cfg signal bar previous_bar bar_close = Inr e"
    and ex: "ev_executed e"
  then obtain r er where r: "make_entry_request
       \<lparr>eq_candidate_id = lc_signal_id signal, eq_direction = lc_direction signal,
        eq_entry_zone_low = ez_low (lc_entry_zone signal),
        eq_entry_zone_high = ez_high (lc_entry_zone signal),
        eq_entry_reference = lc_entry_reference signal, eq_stop_loss = lc_stop_loss signal,
        eq_candle = bar, eq_previous_close = map_option c_close previous_bar,
        eq_candle_close_at = bar_close\<rparr> = Inr r"
    "execute_entry_candle r cfg = Inr er" "e = evidence_of er"
    by (auto simp: build_entry_execution_resolver_def bind_result_eq_Inr)
  then have fields: "eq_candle r = bar" "eq_candle_close_at r = bar_close"
    by (auto dest!: make_entry_request_Inr)
  from ex r(3) have "er_executed er" by (simp add: evidence_of_def)
  from execute_entry_executed [OF r(2) this] obtain base t p where
    "entry_base r = (er_execution_reason er, Some (base, t))" "er_executed_at er = Some t"
    "er_executed_entry_price er = Some p" "0 < p" by metis
  with entry_base_instant [of r] fields r(3)
  show "\<exists>t p. ev_executed_at e = Some t \<and> (t = c_timestamp bar \<or> t = bar_close)
           \<and> ev_executed_entry_price e = Some p \<and> 0 < p"
    by (auto simp: evidence_of_def)
qed

section \<open>Properties of the replay with the program's resolver\<close>

lemma replay_inputs_spaced:
  assumes "validate_lifecycle_inputs signal candles (timeframe_duration tf) iv = Inr ()"
  shows "sorted_wrt (\<lambda>a b. c_timestamp a + timeframe_duration tf \<le> c_timestamp b) candles"
  using assms by (intro adjacent_spaced) (simp_all add: validate_inputs_iff)

text \<open>The replay in its parts: the state after the loop, which satisfies the invariant.\<close>

lemma replay_result:
  assumes "replay_signal_lifecycle (build_entry_execution_resolver cfg) signal candles tf policy iv = Inr r"
  shows "\<exists>s t. validate_lifecycle_inputs signal candles (timeframe_duration tf) iv = Inr ()
     \<and> start_state signal iv = Inr s
     \<and> replay_bars (build_entry_execution_resolver cfg) signal policy (timeframe_duration tf) iv
         None candles s = Inr t
     \<and> lifecycle_ok signal iv t \<and> r = result_of signal t"
proof -
  from assms obtain s t where st:
    "validate_lifecycle_inputs signal candles (timeframe_duration tf) iv = Inr ()"
    "start_state signal iv = Inr s"
    "replay_bars (build_entry_execution_resolver cfg) signal policy (timeframe_duration tf) iv
         None candles s = Inr t"
    "validate_status_timestamps (result_of signal t) = Inr r"
    by (auto simp: replay_signal_lifecycle_def Let_def bind_result_eq_Inr)
  have "lifecycle_ok signal iv s \<and> ls_last_evaluated_at s = lc_created_at signal"
    using start_state_ok [of iv signal] st(1,2) by (auto simp: validate_inputs_iff)
  then have "lifecycle_ok signal iv t"
    using replay_inputs_spaced [OF st(1)] by (intro entry_policy.replay_bars_ok [OF _ _ _ _ st(3)]) auto
  with st show ?thesis by (auto simp: lifecycle_ok_validates)
qed

text \<open>
  C10: The result of a replay is a run of the status machine: its events start with the creation, each
  next event leaves the status the previous one reached, the instants never go back, and the status and
  its activation and terminal stamps agree.
\<close>

theorem lifecycle_result_is_run:
  assumes "replay_signal_lifecycle (build_entry_execution_resolver cfg) signal candles tf policy iv = Inr r"
  shows "(\<exists>es. lr_events r = ls_events (initial_state signal) @ es
        \<and> event_chain WAITING es (lr_status r))
     \<and> sorted (map le_occurred_at (lr_events r))
     \<and> (lr_terminal_at r \<noteq> None) = terminal_status (lr_status r)
     \<and> (lr_status r \<in> {ACTIVE, TP_HIT, SL_HIT} \<longrightarrow> lr_activated_at r \<noteq> None)
     \<and> (lr_status r \<in> {WAITING, CANCELLED} \<longrightarrow> lr_activated_at r = None)
     \<and> status_step\<^sup>*\<^sup>* WAITING (lr_status r)"
proof -
  from replay_result [OF assms] obtain t where t: "lifecycle_ok signal iv t" "r = result_of signal t"
    by blast
  then obtain es where es: "ls_events t = ls_events (initial_state signal) @ es"
    "event_chain WAITING es (ls_status t)" unfolding lifecycle_ok_def by blast
  have "lr_events r = ls_events (initial_state signal) @ es"
    "event_chain WAITING es (lr_status r)" "status_step\<^sup>*\<^sup>* WAITING (lr_status r)"
    using es event_chain_reachable [OF es(2)] by (simp_all add: t(2) result_of_def)
  moreover have "sorted (map le_occurred_at (lr_events r))"
    "(lr_terminal_at r \<noteq> None) = terminal_status (lr_status r)"
    "lr_status r \<in> {ACTIVE, TP_HIT, SL_HIT} \<longrightarrow> lr_activated_at r \<noteq> None"
    "lr_status r \<in> {WAITING, CANCELLED} \<longrightarrow> lr_activated_at r = None"
    using t(1) by (simp_all add: lifecycle_ok_def t(2) result_of_def)
  ultimately show ?thesis by blast
qed

text \<open>
  C11: The engine itself never raises: for a valid candidate the replay fails only when the candles or
  the invalidation are refused on entry, or when the execution policy raises on one of the bars.
\<close>

theorem lifecycle_error_source:
  assumes "lifecycle_candidate_valid signal"
    and "replay_signal_lifecycle (build_entry_execution_resolver cfg) signal candles tf policy iv = Inl err"
  shows "validate_lifecycle_inputs signal candles (timeframe_duration tf) iv = Inl err
     \<or> (\<exists>bar\<in>set candles. \<exists>prev. build_entry_execution_resolver cfg signal bar prev
          (c_timestamp bar + timeframe_duration tf) = Inl err)"
proof (cases "validate_lifecycle_inputs signal candles (timeframe_duration tf) iv")
  case (Inl e)
  with assms(2) show ?thesis by (simp add: replay_signal_lifecycle_def Let_def)
next
  case (Inr u)
  then have "\<forall>i. iv = Some i \<longrightarrow> lc_created_at signal \<le> iv_confirmed_at i"
    by (auto simp: validate_inputs_iff)
  from start_state_ok [OF this] obtain s where s: "start_state signal iv = Inr s"
    "lifecycle_ok signal iv s" "ls_last_evaluated_at s = lc_created_at signal" by blast
  let ?run = "replay_bars (build_entry_execution_resolver cfg) signal policy (timeframe_duration tf) iv
     None candles s"
  have pos: "0 < lc_take_profit signal" "0 < lc_stop_loss signal"
    using assms(1) by (simp_all add: lifecycle_candidate_valid_def make_lifecycle_candidate_def
        split: if_splits)
  show ?thesis
  proof (cases ?run)
    case (Inl e)
    then have "err = e" using assms(2) Inr s(1) by (simp add: replay_signal_lifecycle_def Let_def)
    with entry_policy.replay_bars_error [OF Inl pos] show ?thesis by blast
  next
    case run: (Inr t)
    have "sorted_wrt (\<lambda>a b. c_timestamp a + timeframe_duration tf \<le> c_timestamp b) candles"
      using Inr by (intro replay_inputs_spaced) simp
    then have "lifecycle_ok signal iv t"
      using s(2,3) by (intro entry_policy.replay_bars_ok [OF _ _ _ _ run]) auto
    then show ?thesis
      using assms(2) Inr s(1) run
      by (simp add: replay_signal_lifecycle_def Let_def lifecycle_ok_validates)
  qed
qed

text \<open>
  C1: A trade is resolved only when the order of prices proves it: a target or stop is reported at the
  close of a bar that touches it, the entry took place at the open of that bar or earlier, no earlier
  bar since the entry touched either level, and a bar that touches both never counts as a profit.
\<close>

theorem lifecycle_resolution_conservative:
  assumes "replay_signal_lifecycle (build_entry_execution_resolver cfg) signal candles tf policy iv = Inr r"
    and "lr_status r \<in> {TP_HIT, SL_HIT}"
  shows "\<exists>before bar later entered. candles = before @ bar # later
     \<and> lr_activated_at r = Some entered \<and> lc_created_at signal \<le> entered
     \<and> entered \<le> c_timestamp bar
     \<and> lr_terminal_at r = Some (c_timestamp bar + timeframe_duration tf)
     \<and> (\<forall>x\<in>set before. entered \<le> c_timestamp x \<longrightarrow>
          \<not> take_profit_touched signal x \<and> \<not> stop_loss_touched signal x)
     \<and> (lr_status r = TP_HIT \<longrightarrow> take_profit_touched signal bar \<and> \<not> stop_loss_touched signal bar)
     \<and> (lr_status r = SL_HIT \<longrightarrow> stop_loss_touched signal bar
          \<and> (take_profit_touched signal bar \<longrightarrow> policy = POLICY_CONSERVATIVE_STOP_FIRST))"
proof -
  let ?d = "timeframe_duration tf"
  from replay_result [OF assms(1)] obtain s t where st:
    "validate_lifecycle_inputs signal candles ?d iv = Inr ()" "start_state signal iv = Inr s"
    "replay_bars (build_entry_execution_resolver cfg) signal policy ?d iv None candles s = Inr t"
    "r = result_of signal t" by blast
  have status: "ls_status t \<in> {TP_HIT, SL_HIT}" using assms(2) st(4) by (simp add: result_of_def)
  have "ls_status s = WAITING"
  proof (rule ccontr)
    assume "ls_status s \<noteq> WAITING"
    then have "ls_status s = CANCELLED"
      using start_state_ok [of iv signal] st(1,2) by (auto simp: validate_inputs_iff)
    with st(3) status show False by (auto simp: replay_bars_terminal terminal_status_def)
  qed
  from entry_policy.replay_waiting_resolved [OF st(3) this status timeframe_duration_pos
      replay_inputs_spaced [OF st(1)]]
  obtain xs b ys a where res: "candles = xs @ b # ys" "ls_activated_at t = Some a"
     "\<exists>x\<in>set candles. lc_created_at signal \<le> c_timestamp x \<and> c_timestamp x \<le> a"
     "a \<le> c_timestamp b" "\<forall>x\<in>set xs. a \<le> c_timestamp x \<longrightarrow> \<not> bar_touched signal x"
     "ls_terminal_at t = Some (c_timestamp b + ?d)"
     "bar_touched signal b" "ls_status t = le_to_status (exit_record signal policy ?d b)"
    by blast
  have "lr_status r = TP_HIT \<longrightarrow> take_profit_touched signal b \<and> \<not> stop_loss_touched signal b"
    "lr_status r = SL_HIT \<longrightarrow> stop_loss_touched signal b
          \<and> (take_profit_touched signal b \<longrightarrow> policy = POLICY_CONSERVATIVE_STOP_FIRST)"
    using res(7,8) by (auto simp: st(4) result_of_def exit_record_fields bar_touched_def split: if_splits)
  moreover have "lc_created_at signal \<le> a" using res(3) by auto
  ultimately show ?thesis
    using res(1,2,4-6) by (intro exI [of _ xs] exI [of _ b] exI [of _ ys] exI [of _ a])
      (auto simp: st(4) result_of_def bar_touched_def)
qed

section \<open>Properties of the fills\<close>

lemma entry_request_facts:
  assumes "make_entry_request r = Inr r"
  shows "eq_entry_zone_low r \<le> eq_entry_reference r" "eq_entry_reference r \<le> eq_entry_zone_high r"
    "0 < eq_entry_zone_low r" "0 < eq_stop_loss r" "0 < eq_entry_reference r" "eq_direction r \<noteq> NO_TRADE"
    "if eq_direction r = LONG then eq_stop_loss r < eq_entry_zone_low r
     else eq_entry_zone_high r < eq_stop_loss r"
  using assms by (auto simp: make_entry_request_def validate_entry_levels_def split: if_splits)

lemma entry_base_in_zone:
  assumes "entry_base r = (reason, Some (base, t))" "candle_valid (eq_candle r)"
    "make_entry_request r = Inr r"
  shows "eq_entry_zone_low r \<le> base \<and> base \<le> eq_entry_zone_high r
    \<and> c_low (eq_candle r) \<le> base \<and> base \<le> c_high (eq_candle r)
    \<and> reason \<in> {OPEN_INSIDE_ZONE, BOUNDARY_TOUCH_FROM_BELOW, BOUNDARY_TOUCH_FROM_ABOVE}"
  using assms(1,2) entry_request_facts(1,2) [OF assms(3)]
  by (auto simp: entry_base_def Let_def candle_valid_iff split: if_splits)

lemma entry_base_None:
  assumes "entry_base r = (reason, None)" "candle_valid (eq_candle r)"
  shows "c_high (eq_candle r) < eq_entry_zone_low r \<or> eq_entry_zone_high r < c_low (eq_candle r)"
  using assms by (auto simp: entry_base_def Let_def candle_valid_iff split: if_splits)

lemma execute_entry_executed_iff:
  assumes "execute_entry_candle r cfg = Inr res"
  shows "er_executed res \<longleftrightarrow> snd (entry_base r) \<noteq> None"
  using assms by (cases "entry_base r"; cases "snd (entry_base r)")
    (auto simp: execute_entry_candle_def Let_def dest!: make_entry_result_Inr split: if_splits)

text \<open>
  C12: An entry fills exactly when the range of the candle meets the entry zone. The fill price starts
  from a price inside both the zone and the candle, it is known to precede the rest of the bar only
  when the bar opens inside the zone, and slippage only ever makes it worse.
\<close>

theorem entry_fills_iff_zone_traded:
  assumes "execute_entry_candle r cfg = Inr res" "make_entry_request r = Inr r"
    and "candle_valid (eq_candle r)" "execution_config_valid cfg"
    and "fits 28 (c_open (eq_candle r))" "fits 28 (eq_entry_zone_low r)" "fits 28 (eq_entry_zone_high r)"
  shows "(er_executed res \<longleftrightarrow> (\<exists>p. eq_entry_zone_low r \<le> p \<and> p \<le> eq_entry_zone_high r
            \<and> c_low (eq_candle r) \<le> p \<and> p \<le> c_high (eq_candle r)))
     \<and> (er_executed res \<longrightarrow> (\<exists>base t p.
           er_base_entry_execution_price res = Some base \<and> er_executed_entry_price res = Some p
         \<and> er_executed_at res = Some t
         \<and> eq_entry_zone_low r \<le> base \<and> base \<le> eq_entry_zone_high r
         \<and> c_low (eq_candle r) \<le> base \<and> base \<le> c_high (eq_candle r)
         \<and> (if er_execution_reason res = OPEN_INSIDE_ZONE then t = c_timestamp (eq_candle r)
            else t = eq_candle_close_at r)
         \<and> (if eq_direction r = LONG then base \<le> p else p \<le> base)))"
proof (cases "snd (entry_base r)")
  case None
  then have b: "entry_base r = (fst (entry_base r), None)" by (metis prod.collapse)
  have "\<not> er_executed res" using None execute_entry_executed_iff [OF assms(1)] by simp
  moreover have "\<not> (\<exists>p. eq_entry_zone_low r \<le> p \<and> p \<le> eq_entry_zone_high r
      \<and> c_low (eq_candle r) \<le> p \<and> p \<le> c_high (eq_candle r))"
    using entry_base_None [OF b assms(3)] by auto
  ultimately show ?thesis by blast
next
  case (Some bt)
  then have ex: "er_executed res" using execute_entry_executed_iff [OF assms(1)] by simp
  from execute_entry_executed [OF assms(1) ex] obtain base t p where
    b: "entry_base r = (er_execution_reason res, Some (base, t))"
    "er_executed_at res = Some t" "er_base_entry_execution_price res = Some base"
    "er_executed_entry_price res = Some p"
    "p = (if eq_direction r = LONG
          then dadd base (ddiv (dmul base (xc_slippage_bps_per_side cfg)) basis_points)
          else dsub base (ddiv (dmul base (xc_slippage_bps_per_side cfg)) basis_points))" by metis
  note z = entry_base_in_zone [OF b(1) assms(3,2)]
  have base: "fits 28 base" "0 < base"
    using b(1) assms(5-7) z entry_request_facts(3) [OF assms(2)]
    by (auto simp: entry_base_def Let_def split: if_splits)
  have slip: "0 \<le> ddiv (dmul base (xc_slippage_bps_per_side cfg)) basis_points"
    using base(2) assms(4) by (intro ddiv_nonneg dmul_nonneg)
      (simp_all add: execution_config_valid_def basis_points_def)
  have "rnd base \<le> dadd base (ddiv (dmul base (xc_slippage_bps_per_side cfg)) basis_points)"
    "dsub base (ddiv (dmul base (xc_slippage_bps_per_side cfg)) basis_points) \<le> rnd base"
    unfolding dadd_def dsub_def using slip by (intro rnd_mono; simp)+
  then have worse: "if eq_direction r = LONG then base \<le> p else p \<le> base"
    using b(5) rnd_fits [OF base(1)] by simp
  have "if er_execution_reason res = OPEN_INSIDE_ZONE then t = c_timestamp (eq_candle r)
            else t = eq_candle_close_at r"
    using b(1) by (auto simp: entry_base_def Let_def split: if_splits)
  with z b(2-4) worse ex show ?thesis by blast
qed

text \<open>Prices with eight decimal places and rates with four: their products and sums are exact.\<close>

definition quoted :: "rat \<Rightarrow> bool" where
  "quoted x \<longleftrightarrow> decimal_places 8 8 x"

definition quoted_bps :: "rat \<Rightarrow> bool" where
  "quoted_bps x \<longleftrightarrow> decimal_places 4 4 x"

lemma quoted_product:
  assumes "quoted x" "quoted_bps b"
  shows "ddiv (dmul x b) basis_points = x * b / 10000"
    and "decimal_places 16 12 (x * b / 10000)"
proof -
  have m: "decimal_places 12 12 (x * b)"
    using decimal_places_mult [of 8 8 x 4 4 b] assms by (simp add: quoted_def quoted_bps_def)
  have d: "decimal_places 16 12 (x * b / 10000)"
    using decimal_places_scale [OF m, of 4] by simp
  show "decimal_places 16 12 (x * b / 10000)" by (rule d)
  show "ddiv (dmul x b) basis_points = x * b / 10000"
    using decimal_places_rnd [OF m] decimal_places_rnd [OF d]
    by (simp add: ddiv_def dmul_def basis_points_def)
qed

lemma slippage_bound:
  assumes "quoted x" "quoted_bps b"
  shows "\<bar>x * b / 10000\<bar> \<le> 10 ^ 8"
proof -
  have x: "\<bar>x\<bar> < 10 ^ 8" and b: "\<bar>b\<bar> < 10 ^ 4"
    using assms unfolding quoted_def quoted_bps_def decimal_places_def by blast+
  have "\<bar>x\<bar> * \<bar>b\<bar> \<le> 10 ^ 8 * 10 ^ 4"
    using x b by (intro mult_mono) simp_all
  then show ?thesis by (simp add: abs_mult)
qed

lemma quoted_slip_exact:
  assumes "quoted x" "quoted y" "quoted_bps b"
  shows "rnd (x + x * b / 10000) = x + x * b / 10000" "rnd (x - x * b / 10000) = x - x * b / 10000"
    "rnd (x * b / 10000) = x * b / 10000"
    "rnd (x + x * b / 10000 - y) = x + x * b / 10000 - y"
    "rnd (x - x * b / 10000 - y) = x - x * b / 10000 - y"
proof -
  have "decimal_places 16 9 x" "decimal_places 16 9 y"
    using assms(1,2) unfolding quoted_def by (auto elim: decimal_places_raise)
  moreover have s: "decimal_places 16 9 (x * b / 10000)"
    using quoted_product(2) [OF assms(1,3)] slippage_bound [OF assms(1,3)]
    unfolding decimal_places_def by simp
  ultimately have "decimal_places 16 10 (x + x * b / 10000)" "decimal_places 16 10 (x - x * b / 10000)"
    and y: "decimal_places 16 10 y"
    using decimal_places_add [of 16 9] decimal_places_diff [of 16 9] decimal_places_raise [of 16 9 y 16 10]
    by (simp_all del: times_divide_eq_right add: eval_nat_numeral)
  note d = this
  from d(1,2) y have "decimal_places 16 11 (x + x * b / 10000 - y)"
    "decimal_places 16 11 (x - x * b / 10000 - y)"
    using decimal_places_diff [of 16 10] by (simp_all del: times_divide_eq_right add: eval_nat_numeral)
  with d s show "rnd (x + x * b / 10000) = x + x * b / 10000"
    "rnd (x - x * b / 10000) = x - x * b / 10000" "rnd (x * b / 10000) = x * b / 10000"
    "rnd (x + x * b / 10000 - y) = x + x * b / 10000 - y"
    "rnd (x - x * b / 10000 - y) = x - x * b / 10000 - y"
    by (simp_all only: decimal_places_rnd [of 16 10] decimal_places_rnd [of 16 11]
        decimal_places_rnd [of 16 9] arith_simps)
qed

text \<open>
  C13: When the entry policy returns. For quoted prices and rates the policy raises in two cases: a short
  fill that slippage pushes to zero or below, and an executed entry whose base is better than the
  requested entry by less than twice the slippage. In the second case the fill is
  in the zone and its slippage is exact, but the result's own validator compares the distance to the
  requested price with the slippage and refuses it.
\<close>

theorem entry_policy_returns_iff:
  assumes "make_entry_request r = Inr r" "candle_valid (eq_candle r)" "execution_config_valid cfg"
    and "quoted (c_open (eq_candle r))" "quoted (eq_entry_zone_low r)" "quoted (eq_entry_zone_high r)"
    and "quoted (eq_entry_reference r)" "quoted (eq_stop_loss r)"
    and "quoted_bps (xc_slippage_bps_per_side cfg)"
    and "entry_base r = (reason, Some (base, t))"
    and "slip = base * xc_slippage_bps_per_side cfg / 10000"
  shows "(\<exists>res. execute_entry_candle r cfg = Inr res) \<longleftrightarrow>
     (if eq_direction r = LONG
      then \<not> (eq_entry_reference r - 2 * slip < base \<and> base < eq_entry_reference r)
      else slip < base
         \<and> \<not> (eq_entry_reference r < base \<and> base < eq_entry_reference r + 2 * slip))"
proof -
  let ?bps = "xc_slippage_bps_per_side cfg"
  note facts = entry_request_facts [OF assms(1)]
  note zone = entry_base_in_zone [OF assms(10,2,1)]
  have q: "quoted base" using assms(4-6,10) by (auto simp: entry_base_def Let_def split: if_splits)
  have "0 < base" using zone facts(3) by linarith
  then have slip0: "0 \<le> slip" using assms(3) by (simp add: assms(11) execution_config_valid_def)
  note product = quoted_product(1) [OF q assms(9), folded assms(11)]
  note exact = quoted_slip_exact [OF q _ assms(9), folded assms(11)]
  let ?long = "eq_direction r = LONG"
  define p where "p = (if ?long then base + slip else base - slip)"
  have fill: "(if ?long then dadd base slip else dsub base slip) = p"
    using exact(1,2) [OF q] by (simp add: p_def dadd_def dsub_def)
  have diffs: "dsub p y = p - y" if "quoted y" for y
    using exact(4,5) [OF that] by (simp add: p_def dsub_def)
  have dslip: "dabs (dsub p base) = slip"
    using diffs [OF q] exact(3) [OF q] slip0 by (simp add: dabs_def p_def rnd_minus)
  have dref: "dabs (dsub p y) = \<bar>p - y\<bar>" if "quoted y" for y
    using diffs [OF that] dabs_dsub [of p y] by metis
  have risk: "p \<noteq> eq_stop_loss r" if "0 < p"
    using facts(7) zone slip0 by (auto simp: p_def split: if_splits)
  have planned: "0 < dabs (dsub (eq_entry_reference r) (eq_stop_loss r))"
    using facts(1,2,7) by (auto split: if_splits)
  have spread: "0 \<le> ddiv (dmul base (xc_spread_bps cfg)) basis_points"
    using \<open>0 < base\<close> assms(3) by (intro ddiv_nonneg dmul_nonneg)
      (simp_all add: execution_config_valid_def basis_points_def)
  define res where "res = \<lparr>er_execution_policy = xc_policy cfg, er_candidate_id = eq_candidate_id r,
       er_direction = eq_direction r, er_executed = True, er_execution_reason = reason,
       er_requested_entry_price = eq_entry_reference r, er_stop_loss = eq_stop_loss r,
       er_base_entry_execution_price = Some base, er_executed_entry_price = Some p,
       er_entry_gap_detected = entry_gap_skipped r,
       er_entry_spread_cost = ddiv (dmul base (xc_spread_bps cfg)) basis_points,
       er_entry_slippage = slip,
       er_planned_risk = dabs (dsub (eq_entry_reference r) (eq_stop_loss r)),
       er_actual_entry_risk = Some (dabs (dsub p (eq_stop_loss r))), er_executed_at = Some t,
       er_source_bar_timestamp = c_timestamp (eq_candle r)\<rparr>"
  have eq: "execute_entry_candle r cfg =
      (if p \<le> 0 then Inl (ValueError ''configured slippage produced a non-positive entry price'')
       else if dabs (dsub p (eq_stop_loss r)) \<le> 0
       then Inl (ValueError ''executed entry price must differ from stop loss'')
       else make_entry_result res)"
    unfolding execute_entry_candle_def Let_def assms(10)
    by (simp only: prod.case option.case product fill res_def)
  have validated: "(\<exists>x. make_entry_result res = Inr x) \<longleftrightarrow> slip \<le> \<bar>p - eq_entry_reference r\<bar>"
    if "0 < p"
  proof -
    have "0 < dabs (dsub p (eq_stop_loss r))" using risk [OF that] by simp
    then show ?thesis
      using that zone facts(4,5) planned spread slip0 \<open>0 < base\<close>
      by (auto simp: make_entry_result_def validate_execution_evidence_def res_def Let_def dslip
          dref [OF assms(7)] not_less)
  qed
  have "(\<exists>x. execute_entry_candle r cfg = Inr x) \<longleftrightarrow> 0 < p \<and> slip \<le> \<bar>p - eq_entry_reference r\<bar>"
  proof (cases "0 < p")
    case True
    then have "\<not> p \<le> 0" "\<not> dabs (dsub p (eq_stop_loss r)) \<le> 0"
      using risk by (simp_all add: not_le)
    with True validated show ?thesis unfolding eq by simp
  next
    case False
    then show ?thesis unfolding eq by simp
  qed
  also have "\<dots> \<longleftrightarrow> (if ?long then \<not> (eq_entry_reference r - 2 * slip < base \<and> base < eq_entry_reference r)
      else slip < base \<and> \<not> (eq_entry_reference r < base \<and> base < eq_entry_reference r + 2 * slip))"
    using slip0 \<open>0 < base\<close> by (auto simp: p_def abs_if)
  finally show ?thesis .
qed

section \<open>Properties of the exits\<close>

lemma make_execution_result_Inr: "make_execution_result r = Inr r' \<Longrightarrow> r' = r"
  by (auto simp: make_execution_result_def validate_arithmetic_def Let_def split: if_splits)

lemma terminal_settled:
  assumes "execute_terminal_candle x cfg = Inr (Some res)"
  shows "\<exists>reason gap entry eb risk. exit_decision x = Some (reason, gap)
     \<and> er_executed_entry_price (xr_entry_execution x) = Some entry
     \<and> er_base_entry_execution_price (xr_entry_execution x) = Some eb
     \<and> er_actual_entry_risk (xr_entry_execution x) = Some risk
     \<and> settle_exit x cfg reason gap entry eb risk = Inr res"
  using assms unfolding execute_terminal_candle_def
  by (auto simp: bind_result_eq_Inr split: option.splits)

lemma settle_exit_facts:
  assumes "settle_exit x cfg reason gap entry eb risk = Inr res"
  shows "xs_exit_reason res = reason" "xs_gap_detected res = gap"
    "xs_base_execution_price res = exit_base x reason gap"
    "xs_executed_exit_price res = exit_fill x cfg (exit_base x reason gap)"
    "xs_gross_pnl res = (if xr_direction x = LONG then dsub (xs_executed_exit_price res) entry
       else dsub entry (xs_executed_exit_price res))"
    "xs_net_pnl res = dsub (dsub (xs_gross_pnl res) (xs_spread_cost res)) (xs_commission_cost res)"
    "xs_financial_outcome res = classify_financial_outcome (xs_net_pnl res)"
    "0 \<le> xs_spread_cost res" "0 \<le> xs_commission_cost res" "0 < xs_base_execution_price res"
proof -
  from assms have m: "make_execution_result (settled_result x cfg reason gap entry eb risk) = Inr res"
    by (simp add: settle_exit_def split: if_splits)
  then have res: "res = settled_result x cfg reason gap entry eb risk"
    by (rule make_execution_result_Inr)
  then show "xs_exit_reason res = reason" "xs_gap_detected res = gap"
    "xs_base_execution_price res = exit_base x reason gap"
    "xs_executed_exit_price res = exit_fill x cfg (exit_base x reason gap)"
    "xs_gross_pnl res = (if xr_direction x = LONG then dsub (xs_executed_exit_price res) entry
       else dsub entry (xs_executed_exit_price res))"
    "xs_net_pnl res = dsub (dsub (xs_gross_pnl res) (xs_spread_cost res)) (xs_commission_cost res)"
    "xs_financial_outcome res = classify_financial_outcome (xs_net_pnl res)"
    by (simp_all add: settled_result_def Let_def)
  show "0 \<le> xs_spread_cost res" "0 \<le> xs_commission_cost res" "0 < xs_base_execution_price res"
    using m unfolding res [symmetric] by (simp_all add: make_execution_result_def split: if_splits)
qed

lemma exit_fill_bound:
  assumes "fits 28 base" "0 < base" "execution_config_valid cfg"
  shows "if xr_direction x = LONG then exit_fill x cfg base \<le> base else base \<le> exit_fill x cfg base"
proof -
  have "0 \<le> ddiv (dmul base (xc_slippage_bps_per_side cfg)) basis_points"
    using assms(2,3) by (intro ddiv_nonneg dmul_nonneg)
      (simp_all add: execution_config_valid_def basis_points_def)
  then have "dsub base (ddiv (dmul base (xc_slippage_bps_per_side cfg)) basis_points) \<le> rnd base"
    "rnd base \<le> dadd base (ddiv (dmul base (xc_slippage_bps_per_side cfg)) basis_points)"
    unfolding dsub_def dadd_def by (intro rnd_mono; simp)+
  then show ?thesis by (simp add: exit_fill_def Let_def rnd_fits [OF assms(1)])
qed

text \<open>
  C4: Exits are conservative. The exit is undecided exactly for an ambiguous bar that did not open beyond a
  level of an already active trade. A target never fills better than the target price, a stop never
  better than the stop price, a stop that the bar opens beyond fills no better than the open, and the net
  result never exceeds the gross result.
\<close>

theorem exit_is_conservative:
  assumes "make_execution_request x = Inr x" "execution_config_valid cfg"
    and "candle_valid (xr_candle x)" "fits 28 (c_open (xr_candle x))" "fits 28 (xr_stop_loss x)"
    and "fits 28 (xr_take_profit x)"
    and "execute_terminal_candle x cfg = Inr out"
  shows "(out = None \<longleftrightarrow> xr_lifecycle_status x = AMBIGUOUS
           \<and> (xr_was_active_before_open x \<longrightarrow> opening_gap_reason x = None))
     \<and> (\<forall>res. out = Some res \<longrightarrow>
          (let bound = (if xs_exit_reason res = EXIT_TAKE_PROFIT then xr_take_profit x
                        else if xs_gap_detected res then c_open (xr_candle x) else xr_stop_loss x)
           in if xr_direction x = LONG then xs_executed_exit_price res \<le> bound
              else bound \<le> xs_executed_exit_price res)
        \<and> (xs_exit_reason res = EXIT_STOP_LOSS \<longrightarrow>
             (if xr_direction x = LONG then xs_executed_exit_price res \<le> xr_stop_loss x
              else xr_stop_loss x \<le> xs_executed_exit_price res))
        \<and> xs_net_pnl res \<le> xs_gross_pnl res)"
proof -
  have none: "out = None \<longleftrightarrow> exit_decision x = None"
    using assms(7) unfolding execute_terminal_candle_def
    by (auto simp: bind_result_eq_Inr split: option.splits)
  have "exit_decision x = None \<longleftrightarrow> xr_lifecycle_status x = AMBIGUOUS
           \<and> (xr_was_active_before_open x \<longrightarrow> opening_gap_reason x = None)"
    by (auto simp: exit_decision_def split: option.splits if_splits)
  moreover have "(let bound = (if xs_exit_reason res = EXIT_TAKE_PROFIT then xr_take_profit x
                        else if xs_gap_detected res then c_open (xr_candle x) else xr_stop_loss x)
           in if xr_direction x = LONG then xs_executed_exit_price res \<le> bound
              else bound \<le> xs_executed_exit_price res)
        \<and> (xs_exit_reason res = EXIT_STOP_LOSS \<longrightarrow>
             (if xr_direction x = LONG then xs_executed_exit_price res \<le> xr_stop_loss x
              else xr_stop_loss x \<le> xs_executed_exit_price res))
        \<and> xs_net_pnl res \<le> xs_gross_pnl res" if "out = Some res" for res
  proof -
    from assms(7) that terminal_settled obtain reason gap entry eb risk where
      d: "exit_decision x = Some (reason, gap)"
      and s: "settle_exit x cfg reason gap entry eb risk = Inr res" by metis
    note f = settle_exit_facts [OF s]
    have fit: "fits 28 (exit_base x reason gap)" "0 < exit_base x reason gap"
      using assms(4-6) f(3,10) by (simp_all add: exit_base_def)
    note bound = exit_fill_bound [OF fit assms(2), of x, folded f(4)]
    have gap: "if xr_direction x = LONG then c_open (xr_candle x) \<le> xr_stop_loss x
        else xr_stop_loss x \<le> c_open (xr_candle x)" if "gap" "reason = EXIT_STOP_LOSS"
      using d that by (auto simp: exit_decision_def opening_gap_reason_def Let_def
          split: option.splits if_splits)
    have "xs_net_pnl res \<le> rnd (rnd (xs_gross_pnl res))"
    proof -
      have "dsub (xs_gross_pnl res) (xs_spread_cost res) \<le> rnd (xs_gross_pnl res)"
        unfolding dsub_def using f(8) by (intro rnd_mono) simp
      then show ?thesis unfolding f(6) dsub_def [of "dsub _ _"] using f(9) by (intro rnd_mono) simp
    qed
    moreover have "rnd (xs_gross_pnl res) = xs_gross_pnl res"
      unfolding f(5) by (simp add: dsub_def)
    ultimately have "xs_net_pnl res \<le> xs_gross_pnl res" by simp
    then show ?thesis
      using bound gap f(1,2) by (cases reason) (auto simp: Let_def exit_base_def split: if_splits)
  qed
  ultimately show ?thesis using none by blast
qed

text \<open>
  C7: A stop is a loss. Whatever the candle, the gap and the costs, a trade entered by the entry policy
  and closed at its stop has a negative gross and net result and is classified as a loss.
\<close>

theorem stop_exit_is_loss:
  assumes "execute_entry_candle q cfg = Inr entry" "make_entry_request q = Inr q"
    and "candle_valid (eq_candle q)" "execution_config_valid cfg"
    and "fits 28 (c_open (eq_candle q))" "fits 28 (eq_entry_zone_low q)" "fits 28 (eq_entry_zone_high q)"
    and "xr_entry_execution x = entry" "xr_stop_loss x = eq_stop_loss q"
    and "xr_direction x = eq_direction q"
    and "fits 28 (c_open (xr_candle x))" "fits 28 (xr_stop_loss x)"
    and "execute_terminal_candle x cfg = Inr (Some res)" "xs_exit_reason res = EXIT_STOP_LOSS"
  shows "xs_gross_pnl res < 0 \<and> xs_net_pnl res < 0 \<and> xs_financial_outcome res = OUTCOME_LOSS"
proof -
  from terminal_settled [OF assms(13)] obtain reason gap p eb risk where
    d: "exit_decision x = Some (reason, gap)"
    and e: "er_executed_entry_price entry = Some p" "er_base_entry_execution_price entry = Some eb"
    and s: "settle_exit x cfg reason gap p eb risk = Inr res"
    unfolding assms(8) by blast
  note f = settle_exit_facts [OF s]
  have reason: "reason = EXIT_STOP_LOSS" using f(1) assms(14) by simp
  have ex: "er_executed entry"
  proof (rule ccontr)
    assume "\<not> er_executed entry"
    then have "snd (entry_base q) = None" using execute_entry_executed_iff [OF assms(1)] by blast
    then have "er_executed_entry_price entry = None"
      using assms(1) by (cases "entry_base q")
        (auto simp: execute_entry_candle_def Let_def dest!: make_entry_result_Inr)
    with e(1) show False by simp
  qed
  from execute_entry_executed [OF assms(1) ex] obtain base t where
    b: "entry_base q = (er_execution_reason entry, Some (base, t))"
    "p = (if eq_direction q = LONG
          then dadd base (ddiv (dmul base (xc_slippage_bps_per_side cfg)) basis_points)
          else dsub base (ddiv (dmul base (xc_slippage_bps_per_side cfg)) basis_points))"
    using e(1) by (metis option.inject)
  note z = entry_base_in_zone [OF b(1) assms(3,2)]
  note facts = entry_request_facts [OF assms(2)]
  have base: "fits 28 base" "0 < base"
    using b(1) assms(5-7) z facts(3) by (auto simp: entry_base_def Let_def split: if_splits)
  have slip: "0 \<le> ddiv (dmul base (xc_slippage_bps_per_side cfg)) basis_points"
    using base(2) assms(4) by (intro ddiv_nonneg dmul_nonneg)
      (simp_all add: execution_config_valid_def basis_points_def)
  have "rnd base \<le> dadd base (ddiv (dmul base (xc_slippage_bps_per_side cfg)) basis_points)"
    "dsub base (ddiv (dmul base (xc_slippage_bps_per_side cfg)) basis_points) \<le> rnd base"
    unfolding dadd_def dsub_def using slip by (intro rnd_mono; simp)+
  then have entry_side: "if xr_direction x = LONG then base \<le> p else p \<le> base"
    using b(2) rnd_fits [OF base(1)] assms(10) by simp
  have fit: "fits 28 (exit_base x reason gap)" "0 < exit_base x reason gap"
    using assms(11,12) f(3,10) by (simp_all add: exit_base_def reason)
  note exit_side = exit_fill_bound [OF fit assms(4), of x, folded f(4)]
  have stop_side: "if xr_direction x = LONG then exit_base x reason gap \<le> xr_stop_loss x
      else xr_stop_loss x \<le> exit_base x reason gap"
    using d by (auto simp: exit_base_def reason exit_decision_def opening_gap_reason_def Let_def
        split: option.splits if_splits)
  have "xs_gross_pnl res < 0"
    using entry_side exit_side stop_side facts(7) z assms(9,10) unfolding f(5)
    by (auto split: if_splits)
  then have gross: "xs_gross_pnl res - xs_spread_cost res < 0" using f(8) by linarith
  then have "dsub (xs_gross_pnl res) (xs_spread_cost res) < 0" by simp
  with f(9) have "dsub (xs_gross_pnl res) (xs_spread_cost res) < xs_commission_cost res" by linarith
  then have "xs_net_pnl res < 0" unfolding f(6) by simp
  with \<open>xs_gross_pnl res < 0\<close> show ?thesis unfolding f(7) by (simp add: classify_financial_outcome_def)
qed

section \<open>A sample trade\<close>

definition sample_signal :: lifecycle_candidate where
  "sample_signal =
     \<lparr>lc_signal_id = ''sig'', lc_direction = LONG, lc_entry_zone = \<lparr>ez_low = 100, ez_high = 102\<rparr>,
      lc_entry_reference = 101, lc_take_profit = 110, lc_stop_loss = 98, lc_created_at = 0\<rparr>"

definition sample_bar :: "int \<Rightarrow> rat \<Rightarrow> rat \<Rightarrow> rat \<Rightarrow> candle" where
  "sample_bar n o' h l = \<lparr>c_timestamp = minutes n, c_open = o', c_high = h, c_low = l,
     c_close = o', c_volume = 1\<rparr>"

definition sample_execution :: "rat \<Rightarrow> execution_config" where
  "sample_execution bps = \<lparr>xc_policy = CONSERVATIVE_MARKET_FILL, xc_commission_bps_per_side = 0,
     xc_spread_bps = 0, xc_slippage_bps_per_side = bps\<rparr>"

definition sample_entry_request :: "rat \<Rightarrow> entry_request" where
  "sample_entry_request o' =
     \<lparr>eq_candidate_id = ''sig'', eq_direction = LONG, eq_entry_zone_low = 100,
      eq_entry_zone_high = 102, eq_entry_reference = 101, eq_stop_loss = 98,
      eq_candle = sample_bar 0 o' 103 99, eq_previous_close = None,
      eq_candle_close_at = minutes 1\<rparr>"

definition sample_entry_result :: entry_result where
  "sample_entry_result =
     \<lparr>er_execution_policy = CONSERVATIVE_MARKET_FILL, er_candidate_id = ''sig'',
      er_direction = LONG, er_executed = True, er_execution_reason = OPEN_INSIDE_ZONE,
      er_requested_entry_price = 101, er_stop_loss = 98, er_base_entry_execution_price = Some 101,
      er_executed_entry_price = Some 101, er_entry_gap_detected = False, er_entry_spread_cost = 0,
      er_entry_slippage = 0, er_planned_risk = 3, er_actual_entry_risk = Some 3,
      er_executed_at = Some 0, er_source_bar_timestamp = 0\<rparr>"

lemmas sample_trade_defs = sample_signal_def sample_bar_def sample_execution_def
  sample_entry_request_def sample_entry_result_def

lemma sample_arith:
  "dsub 101 98 = 3" "dabs 3 = 3" "dmul 101 0 = 0" "ddiv 0 basis_points = 0" "dadd 101 0 = 101"
  "dsub 101 101 = 0" "dabs 0 = 0" "dmul 98 0 = 0" "dsub 98 0 = 98" "dsub 98 101 = - 3"
  "dadd 101 98 = 199" "dmul 199 0 = 0" "dsub (- 3) 0 = - 3" "dadd 0 0 = 0" "dsub 98 98 = 0"
  "ddiv (- 3) 3 = - 1"
  by (simp_all add: dec_evals)

lemma sample_fill:
  "execute_entry_candle (sample_entry_request 101) (sample_execution 0) = Inr sample_entry_result"
  by (simp add: execute_entry_candle_def entry_base_def entry_gap_skipped_def sample_trade_defs
      Let_def sample_arith make_entry_result_def validate_execution_evidence_def minutes_def
      seconds_def)

lemma sample_request_ok:
  "100 \<le> o' \<Longrightarrow> o' \<le> 103 \<Longrightarrow> make_entry_request (sample_entry_request o') = Inr (sample_entry_request o')
     \<and> candle_valid (eq_candle (sample_entry_request o'))"
  by (simp add: make_entry_request_def validate_entry_levels_def sample_trade_defs candle_valid_iff
      candle_fields_def)

lemma sample_resolver:
  "build_entry_execution_resolver (sample_execution 0) sample_signal (sample_bar 0 101 103 99) None
     (minutes 1) = Inr (evidence_of sample_entry_result)"
proof -
  have "\<lparr>eq_candidate_id = lc_signal_id sample_signal, eq_direction = lc_direction sample_signal,
        eq_entry_zone_low = ez_low (lc_entry_zone sample_signal),
        eq_entry_zone_high = ez_high (lc_entry_zone sample_signal),
        eq_entry_reference = lc_entry_reference sample_signal,
        eq_stop_loss = lc_stop_loss sample_signal, eq_candle = sample_bar 0 101 103 99,
        eq_previous_close = map_option c_close None, eq_candle_close_at = minutes 1\<rparr>
      = sample_entry_request 101"
    by (simp add: sample_signal_def sample_entry_request_def)
  with sample_request_ok [of 101] sample_fill show ?thesis
    by (simp add: build_entry_execution_resolver_def)
qed

definition sample_bars :: "candle list" where
  "sample_bars = [sample_bar 0 101 103 99, sample_bar 1 104 111 102]"

lemma sample_replay:
  "\<exists>r. replay_signal_lifecycle (build_entry_execution_resolver (sample_execution 0)) sample_signal
     sample_bars ONE_MINUTE POLICY_AMBIGUOUS None = Inr r \<and> lr_status r = TP_HIT"
proof -
  have m: "minutes n + minutes 1 = minutes (n + 1)" for n by (simp add: minutes_def seconds_def)
  have z: "minutes 0 = 0" by (simp add: minutes_def seconds_def)
  have valid: "validate_lifecycle_inputs sample_signal sample_bars (minutes 1) None = Inr ()"
    by (simp add: validate_inputs_iff sample_bars_def sample_bar_def m z)
  let ?res = "build_entry_execution_resolver (sample_execution 0)"
  have "\<exists>u. bar_step ?res sample_signal POLICY_AMBIGUOUS (minutes 1) None None
      (sample_bar 0 101 103 99) (initial_state sample_signal) = Inr u \<and> ls_status u = ACTIVE"
  proof -
    have "c_timestamp (sample_bar 0 101 103 99) + minutes 1 = minutes 1"
      "\<not> take_profit_touched sample_signal (sample_bar 0 101 103 99)"
      "\<not> stop_loss_touched sample_signal (sample_bar 0 101 103 99)"
      by (simp_all add: sample_trade_defs z take_profit_touched_def stop_loss_touched_def)
    with sample_resolver show ?thesis
      by (simp add: bar_step_def initial_state_def waiting_step_def evidence_of_def
          sample_entry_result_def activate_def transition_def make_lifecycle_event_def Let_def)
  qed
  then obtain u where u: "bar_step ?res sample_signal POLICY_AMBIGUOUS (minutes 1) None None
      (sample_bar 0 101 103 99) (initial_state sample_signal) = Inr u" "ls_status u = ACTIVE" by blast
  have "bar_step ?res sample_signal POLICY_AMBIGUOUS (minutes 1) None (Some (sample_bar 0 101 103 99))
      (sample_bar 1 104 111 102) u
      = transition (exit_event TP_HIT (sample_bar 1 104 111 102) (minutes 2) 110 TAKE_PROFIT_TOUCHED)
         (Some (minutes 2)) (u\<lparr>ls_last_evaluated_at := minutes 2\<rparr>)"
    using u(2) by (simp add: bar_step_def exit_step_def Let_def take_profit_touched_def
        stop_loss_touched_def sample_signal_def sample_bar_def m)
  then obtain t where t: "bar_step ?res sample_signal POLICY_AMBIGUOUS (minutes 1) None
      (Some (sample_bar 0 101 103 99)) (sample_bar 1 104 111 102) u = Inr t" "ls_status t = TP_HIT"
    by (simp add: transition_def make_lifecycle_event_def exit_event_def)
  have run: "replay_bars ?res sample_signal POLICY_AMBIGUOUS (minutes 1) None None sample_bars
      (initial_state sample_signal) = Inr t"
    using u t by (simp add: sample_bars_def terminal_status_def)
      (simp add: initial_state_def sample_signal_def sample_bar_def minutes_def seconds_def)
  have start: "start_state sample_signal None = Inr (initial_state sample_signal)"
    by (simp add: start_state_def)
  then have "lifecycle_ok sample_signal None (initial_state sample_signal)"
    using start_state_ok [of None sample_signal] by simp
  moreover have "sorted_wrt (\<lambda>a b. c_timestamp a + minutes 1 \<le> c_timestamp b) sample_bars"
    using replay_inputs_spaced [of sample_signal sample_bars ONE_MINUTE None] valid by simp
  ultimately have "lifecycle_ok sample_signal None t"
    by (intro entry_policy.replay_bars_ok [OF _ _ _ _ run])
      (simp_all add: initial_state_def)
  from lifecycle_ok_validates [OF this] have "replay_signal_lifecycle ?res sample_signal sample_bars
      ONE_MINUTE POLICY_AMBIGUOUS None = Inr (result_of sample_signal t)"
    using valid run start by (simp add: replay_signal_lifecycle_def Let_def)
  with t(2) show ?thesis by (simp add: result_of_def)
qed

theorem lifecycle_result_is_run_witness:
  "\<exists>r. replay_signal_lifecycle (build_entry_execution_resolver (sample_execution 0)) sample_signal
     sample_bars ONE_MINUTE POLICY_AMBIGUOUS None = Inr r \<and> lr_terminal_at r \<noteq> None"
  using sample_replay lifecycle_result_is_run by (fastforce simp: terminal_status_def)

theorem lifecycle_error_source_witness:
  "\<exists>err. replay_signal_lifecycle (build_entry_execution_resolver (sample_execution 0)) sample_signal
       [sample_bar 0 101 103 99, sample_bar 0 101 103 99] ONE_MINUTE POLICY_AMBIGUOUS None = Inl err
     \<and> (validate_lifecycle_inputs sample_signal [sample_bar 0 101 103 99, sample_bar 0 101 103 99]
           (timeframe_duration ONE_MINUTE) None = Inl err
        \<or> (\<exists>bar\<in>set [sample_bar 0 101 103 99, sample_bar 0 101 103 99]. \<exists>prev.
             build_entry_execution_resolver (sample_execution 0) sample_signal bar prev
               (c_timestamp bar + timeframe_duration ONE_MINUTE) = Inl err))"
proof -
  have valid: "lifecycle_candidate_valid sample_signal"
    by (simp add: lifecycle_candidate_valid_def make_lifecycle_candidate_def
        validate_lifecycle_levels_def sample_signal_def long_ordered_def entry_zone_valid_iff)
  have raises: "replay_signal_lifecycle (build_entry_execution_resolver (sample_execution 0))
      sample_signal [sample_bar 0 101 103 99, sample_bar 0 101 103 99] ONE_MINUTE POLICY_AMBIGUOUS None
      = Inl (SignalLifecycleInputError ''candles must have unique timestamps in ascending order'')"
    by (simp add: replay_signal_lifecycle_def validate_lifecycle_inputs_def)
  from raises lifecycle_error_source [OF valid raises] show ?thesis by blast
qed

theorem lifecycle_resolution_conservative_witness:
  "\<exists>r. replay_signal_lifecycle (build_entry_execution_resolver (sample_execution 0)) sample_signal
     sample_bars ONE_MINUTE POLICY_AMBIGUOUS None = Inr r \<and> lr_activated_at r \<noteq> None
     \<and> lr_status r = TP_HIT"
proof -
  obtain r where r: "replay_signal_lifecycle (build_entry_execution_resolver (sample_execution 0))
     sample_signal sample_bars ONE_MINUTE POLICY_AMBIGUOUS None = Inr r" "lr_status r = TP_HIT"
    using sample_replay by blast
  with lifecycle_resolution_conservative [OF r(1)] show ?thesis by auto
qed

theorem lifecycle_no_lookahead_witness:
  "\<exists>r. replay_signal_lifecycle (build_entry_execution_resolver (sample_execution 0)) sample_signal
     (sample_bars @ [sample_bar 2 90 91 89]) ONE_MINUTE POLICY_AMBIGUOUS None = Inr r
     \<and> lr_status r = TP_HIT"
proof -
  obtain r where r: "replay_signal_lifecycle (build_entry_execution_resolver (sample_execution 0))
     sample_signal sample_bars ONE_MINUTE POLICY_AMBIGUOUS None = Inr r" "lr_status r = TP_HIT"
    using sample_replay by blast
  have "validate_lifecycle_inputs sample_signal (sample_bars @ [sample_bar 2 90 91 89])
      (timeframe_duration ONE_MINUTE) None = Inr ()"
    by (simp add: validate_inputs_iff sample_bars_def sample_bar_def minutes_def seconds_def)
  from lifecycle_no_lookahead [OF r(1) this] r(2) show ?thesis by (auto simp: terminal_status_def)
qed

lemma sample_fits: "fits 28 98" "fits 28 100" "fits 28 101" "fits 28 102" "fits 28 110" "fits 28 104"
  using fits_of_int [of 98 28] fits_of_int [of 100 28] fits_of_int [of 101 28]
    fits_of_int [of 102 28] fits_of_int [of 110 28] fits_of_int [of 104 28] by simp_all

lemma sample_costs_ok: "0 \<le> bps \<Longrightarrow> execution_config_valid (sample_execution bps)"
  by (simp add: execution_config_valid_def sample_execution_def)

theorem entry_fills_iff_zone_traded_witness:
  "er_executed sample_entry_result \<and> er_executed_entry_price sample_entry_result = Some 101"
proof -
  have "fits 28 (c_open (eq_candle (sample_entry_request 101)))"
    "fits 28 (eq_entry_zone_low (sample_entry_request 101))"
    "fits 28 (eq_entry_zone_high (sample_entry_request 101))"
    using sample_fits by (simp_all add: sample_entry_request_def sample_bar_def)
  from entry_fills_iff_zone_traded [OF sample_fill _ _ sample_costs_ok this]
  have "er_executed sample_entry_result" using sample_request_ok [of 101]
    by (auto simp: sample_entry_request_def sample_bar_def)
  then show ?thesis by (simp add: sample_entry_result_def)
qed

theorem entry_policy_returns_iff_witness:
  "\<not> (\<exists>res. execute_entry_candle (sample_entry_request (1009/10)) (sample_execution 10) = Inr res)"
proof -
  let ?r = "sample_entry_request (1009/10)"
  have q: "quoted (1009/10)" "quoted 98" "quoted 100" "quoted 101" "quoted 102" "quoted_bps 10"
    by (simp_all add: quoted_def quoted_bps_def decimal_places_def)
  have base: "entry_base ?r = (OPEN_INSIDE_ZONE, Some (1009/10, 0))"
    by (simp add: entry_base_def sample_trade_defs minutes_def seconds_def)
  have ok: "make_entry_request ?r = Inr ?r" "candle_valid (eq_candle ?r)"
    using sample_request_ok [of "1009/10"] by simp_all
  have "quoted (c_open (eq_candle ?r))" "quoted (eq_entry_zone_low ?r)" "quoted (eq_entry_zone_high ?r)"
    "quoted (eq_entry_reference ?r)" "quoted (eq_stop_loss ?r)"
    "quoted_bps (xc_slippage_bps_per_side (sample_execution 10))"
    using q by (simp_all add: sample_entry_request_def sample_bar_def sample_execution_def)
  from entry_policy_returns_iff [OF ok sample_costs_ok this base refl] show ?thesis
    by (simp add: sample_entry_request_def sample_execution_def)
qed

definition sample_exit_request :: execution_request where
  "sample_exit_request =
     \<lparr>xr_candidate_id = ''sig'', xr_direction = LONG, xr_entry_execution = sample_entry_result,
      xr_stop_loss = 98, xr_take_profit = 110, xr_candle = sample_bar 1 104 104 97,
      xr_was_active_before_open = True, xr_lifecycle_status = SL_HIT,
      xr_lifecycle_terminal_at = minutes 2\<rparr>"

lemma sample_exit:
  "\<exists>res. execute_terminal_candle sample_exit_request (sample_execution 0) = Inr (Some res)
     \<and> xs_exit_reason res = EXIT_STOP_LOSS"
  by (simp add: execute_terminal_candle_def exit_decision_def opening_gap_reason_def
      sample_exit_request_def sample_bar_def sample_entry_result_def settle_exit_def exit_fill_def
      exit_base_def settled_result_def sample_execution_def sample_arith Let_def
      make_execution_result_def validate_arithmetic_def classify_financial_outcome_def)

theorem exit_is_conservative_witness:
  "\<exists>res. execute_terminal_candle sample_exit_request (sample_execution 0) = Inr (Some res)
     \<and> xs_executed_exit_price res \<le> 98"
proof -
  obtain res where res: "execute_terminal_candle sample_exit_request (sample_execution 0) = Inr (Some res)"
    "xs_exit_reason res = EXIT_STOP_LOSS" using sample_exit by blast
  have "make_execution_request sample_exit_request = Inr sample_exit_request"
    by (simp add: make_execution_request_def validate_request_def sample_exit_request_def
        sample_entry_result_def Let_def)
  moreover have "candle_valid (xr_candle sample_exit_request)" "fits 28 (c_open (xr_candle sample_exit_request))"
    "fits 28 (xr_stop_loss sample_exit_request)" "fits 28 (xr_take_profit sample_exit_request)"
    using sample_fits by (simp_all add: sample_exit_request_def sample_bar_def candle_valid_iff
        candle_fields_def)
  ultimately have "xs_executed_exit_price res \<le> xr_stop_loss sample_exit_request"
    using exit_is_conservative [OF _ sample_costs_ok _ _ _ _ res(1)] res(2)
    by (auto simp: sample_exit_request_def)
  with res(1) show ?thesis by (simp add: sample_exit_request_def)
qed

theorem stop_exit_is_loss_witness:
  "\<exists>res. execute_terminal_candle sample_exit_request (sample_execution 0) = Inr (Some res)
     \<and> xs_financial_outcome res = OUTCOME_LOSS"
proof -
  obtain res where res: "execute_terminal_candle sample_exit_request (sample_execution 0) = Inr (Some res)"
    "xs_exit_reason res = EXIT_STOP_LOSS" using sample_exit by blast
  have "fits 28 (c_open (eq_candle (sample_entry_request 101)))"
    "fits 28 (eq_entry_zone_low (sample_entry_request 101))"
    "fits 28 (eq_entry_zone_high (sample_entry_request 101))"
    "xr_entry_execution sample_exit_request = sample_entry_result"
    "xr_stop_loss sample_exit_request = eq_stop_loss (sample_entry_request 101)"
    "xr_direction sample_exit_request = eq_direction (sample_entry_request 101)"
    "fits 28 (c_open (xr_candle sample_exit_request))" "fits 28 (xr_stop_loss sample_exit_request)"
    using sample_fits by (simp_all add: sample_entry_request_def sample_bar_def sample_exit_request_def)
  from stop_exit_is_loss [OF sample_fill _ _ sample_costs_ok this res] res(1)
  show ?thesis using sample_request_ok [of 101] by auto
qed

end
