(* ===== verification/Financial_Metrics.thy ===== *)
theory Financial_Metrics
  imports Backtest_Execution "HOL-Library.Multiset"
begin

text \<open>
  Financial aggregates: the normalized observations and their summary (\<open>metrics/financial.py\<close>), the
  backtest trade and the performance metrics (\<open>schemas/backtest.py\<close>), and the metrics of a slice of
  trades (\<open>backtesting/metrics.py\<close>). Sums, rates and the equity curve are rounded where the default
  decimal context rounds them. The analysis snapshot a trade carries plays no part and is left out.
\<close>

datatype metric_execution_status = EXECUTED | NOT_EXECUTED | AMBIGUOUS_EXIT | UNKNOWN_LEGACY

record observation =
  fo_stable_id :: string
  fo_lifecycle_status :: "signal_lifecycle_status option"
  fo_execution_status :: metric_execution_status
  fo_financial_outcome :: "financial_outcome option"
  fo_gross_pnl :: "rat option"
  fo_net_pnl :: "rat option"
  fo_gross_r :: "rat option"
  fo_net_r :: "rat option"
  fo_closed_at :: "utc_time option"
  fo_legacy_planned_r :: "rat option"

definition make_observation :: "observation \<Rightarrow> observation result" where
  "make_observation o' =
     (let actual_values = [fo_gross_pnl o', fo_net_pnl o', fo_gross_r o', fo_net_r o'];
          legacy_mixed = (fo_legacy_planned_r o' \<noteq> None \<and> list_ex (\<lambda>v. v \<noteq> None) actual_values);
          legacy_check = (if legacy_mixed
            then Inl (ValueError ''legacy planned R cannot be mixed with actual execution'')
            else Inr o')
      in case fo_financial_outcome o' of
        None \<Rightarrow>
          if list_ex (\<lambda>v. v \<noteq> None) actual_values
          then Inl (ValueError ''unresolved financial observation cannot carry actual results'')
          else legacy_check
      | Some outcome \<Rightarrow>
          if list_ex (\<lambda>v. v = None) actual_values
          then Inl (ValueError ''resolved financial observation requires complete actual results'')
          else if fo_execution_status o' \<noteq> EXECUTED
          then Inl (ValueError ''resolved financial observation must be executed'')
          else if map_option classify_financial_outcome (fo_net_pnl o') \<noteq> Some outcome
          then Inl (ValueError ''financial_outcome must match canonical net_pnl'')
          else if fo_closed_at o' = None
          then Inl (ValueError ''resolved financial observation requires closed_at'')
          else legacy_check)"

definition observation_valid :: "observation \<Rightarrow> bool" where
  "observation_valid o' \<longleftrightarrow> make_observation o' = Inr o'"

record metric_summary =
  fs_signal_count :: nat
  fs_executed_trade_count :: nat
  fs_resolved_financial_trade_count :: nat
  fs_win_count :: nat
  fs_loss_count :: nat
  fs_flat_count :: nat
  fs_financial_win_rate :: rat
  fs_financial_loss_rate :: rat
  fs_lifecycle_tp_hits :: nat
  fs_lifecycle_sl_hits :: nat
  fs_price_resolved_trade_count :: nat
  fs_tp_hit_rate :: rat
  fs_sl_hit_rate :: rat
  fs_cancelled_count :: nat
  fs_ambiguous_count :: nat
  fs_average_net_r :: "rat option"
  fs_median_net_r :: "rat option"
  fs_total_gross_pnl :: rat
  fs_total_net_pnl :: rat
  fs_profit_factor :: "rat option"
  fs_maximum_drawdown_net_r :: rat
  fs_legacy_signal_count :: nat
  fs_legacy_planned_r_count :: nat
  fs_legacy_average_planned_r :: "rat option"

definition count_if :: "('a \<Rightarrow> bool) \<Rightarrow> 'a list \<Rightarrow> nat" where
  "count_if p xs = length (filter p xs)"

text \<open>\<open>statistics.median\<close> of a nonempty sequence.\<close>

definition median :: "rat list \<Rightarrow> rat" where
  "median xs =
     (let data = sort xs; n = length data
      in if n mod 2 = 1 then data ! (n div 2)
         else ddiv (dadd (data ! (n div 2 - 1)) (data ! (n div 2))) 2)"

definition average :: "rat list \<Rightarrow> rat" where
  "average xs = ddiv (dsum xs) (of_nat (length xs))"

text \<open>The loop over the equity curve: equity, peak and the greatest fall so far.\<close>

fun drawdown_loop :: "rat list \<Rightarrow> rat \<times> rat \<times> rat \<Rightarrow> rat \<times> rat \<times> rat" where
  "drawdown_loop [] s = s"
| "drawdown_loop (r # rs) (equity, peak, worst) =
     (let equity' = dadd equity r; peak' = max peak equity'
      in drawdown_loop rs (equity', peak', max worst (dsub peak' equity')))"

definition maximum_drawdown :: "rat list \<Rightarrow> rat" where
  "maximum_drawdown rs = snd (snd (drawdown_loop rs (0, 0, 0)))"

definition observation_key :: "observation \<Rightarrow> utc_time \<times> string" where
  "observation_key o' = (the (fo_closed_at o'), fo_stable_id o')"

definition rate :: "nat \<Rightarrow> nat \<Rightarrow> rat" where
  "rate k n = (if n \<noteq> 0 then ddiv (of_nat k) (of_nat n) else 0)"

text \<open>The values the code takes out of the resolved observations, which are never absent.\<close>

definition resolved_observations :: "observation list \<Rightarrow> observation list" where
  "resolved_observations os = filter (\<lambda>o'. fo_financial_outcome o' \<noteq> None) os"

definition summarize_financial_observations :: "observation list \<Rightarrow> metric_summary result" where
  "summarize_financial_observations os =
     (let resolved = resolved_observations os;
          wins = count_if (\<lambda>o'. fo_financial_outcome o' = Some OUTCOME_PROFIT) resolved;
          losses = count_if (\<lambda>o'. fo_financial_outcome o' = Some OUTCOME_LOSS) resolved;
          flats = count_if (\<lambda>o'. fo_financial_outcome o' = Some OUTCOME_FLAT) resolved;
          tp_hits = count_if (\<lambda>o'. fo_lifecycle_status o' = Some TP_HIT) os;
          sl_hits = count_if (\<lambda>o'. fo_lifecycle_status o' = Some SL_HIT) os;
          price_resolved = tp_hits + sl_hits
      in if list_ex (\<lambda>o'. fo_net_r o' = None \<or> fo_gross_pnl o' = None \<or> fo_net_pnl o' = None) resolved
         then Inl AssertionError
         else let
           net_r = map (the o fo_net_r) resolved;
           gross_pnl = map (the o fo_gross_pnl) resolved;
           net_pnl = map (the o fo_net_pnl) resolved;
           positive = dsum (filter (\<lambda>v. v > 0) net_pnl);
           negative = dabs (dsum (filter (\<lambda>v. v < 0) net_pnl));
           ordered = sort_key observation_key resolved;
           legacy_values = List.map_filter fo_legacy_planned_r os
         in Inr
           \<lparr>fs_signal_count = length os,
            fs_executed_trade_count = count_if (\<lambda>o'. fo_execution_status o' = EXECUTED
              \<or> fo_execution_status o' = AMBIGUOUS_EXIT) os,
            fs_resolved_financial_trade_count = length resolved,
            fs_win_count = wins, fs_loss_count = losses, fs_flat_count = flats,
            fs_financial_win_rate = rate wins (wins + losses),
            fs_financial_loss_rate = rate losses (wins + losses),
            fs_lifecycle_tp_hits = tp_hits, fs_lifecycle_sl_hits = sl_hits,
            fs_price_resolved_trade_count = price_resolved,
            fs_tp_hit_rate = rate tp_hits price_resolved, fs_sl_hit_rate = rate sl_hits price_resolved,
            fs_cancelled_count = count_if (\<lambda>o'. fo_lifecycle_status o' = Some CANCELLED) os,
            fs_ambiguous_count = count_if (\<lambda>o'. fo_lifecycle_status o' = Some AMBIGUOUS) os,
            fs_average_net_r = (if net_r \<noteq> [] then Some (average net_r) else None),
            fs_median_net_r = (if net_r \<noteq> [] then Some (median net_r) else None),
            fs_total_gross_pnl = dsum gross_pnl, fs_total_net_pnl = dsum net_pnl,
            fs_profit_factor = (if negative > 0 then Some (ddiv positive negative) else None),
            fs_maximum_drawdown_net_r = maximum_drawdown (map (the o fo_net_r) ordered),
            fs_legacy_signal_count = count_if (\<lambda>o'. fo_execution_status o' = UNKNOWN_LEGACY) os,
            fs_legacy_planned_r_count = length legacy_values,
            fs_legacy_average_planned_r
              = (if legacy_values \<noteq> [] then Some (average legacy_values) else None)\<rparr>)"

section \<open>Counts and rates\<close>

lemma count_if_simps [simp]:
  "count_if p [] = 0"
  "count_if p (x # xs) = (if p x then Suc (count_if p xs) else count_if p xs)"
  by (simp_all add: count_if_def)

lemma count_if_map: "count_if p (map f xs) = count_if (p \<circ> f) xs"
  by (induction xs) simp_all

lemma count_if_mono: "\<forall>x\<in>set xs. p x \<longrightarrow> q x \<Longrightarrow> count_if p xs \<le> count_if q xs"
  by (induction xs) auto

lemma count_if_cong: "\<forall>x\<in>set xs. p x \<longleftrightarrow> q x \<Longrightarrow> count_if p xs = count_if q xs"
  by (induction xs) auto

lemma count_if_disjoint:
  "\<forall>x\<in>set xs. \<not> (p x \<and> q x) \<Longrightarrow>
     count_if p xs + count_if q xs = count_if (\<lambda>x. p x \<or> q x) xs"
  by (induction xs) auto

lemma count_if_le_length [simp]: "count_if p xs \<le> length xs"
  by (simp add: count_if_def)

lemma count_if_permutation: "mset xs = mset ys \<Longrightarrow> count_if p xs = count_if p ys"
  by (metis count_if_def mset_filter size_mset)

lemma rate_nonneg [simp]: "0 \<le> rate k n"
  by (simp add: rate_def ddiv_def)

lemma rate_le_1 [simp]: "k \<le> n \<Longrightarrow> rate k n \<le> 1"
proof -
  assume "k \<le> n"
  then have "n \<noteq> 0 \<Longrightarrow> rnd (of_nat k / of_nat n) \<le> rnd 1"
    by (intro rnd_mono) (simp add: divide_le_eq_1)
  moreover have "rnd 1 = 1" by (simp add: rnd_eval)
  ultimately show ?thesis by (simp add: rate_def ddiv_def)
qed

lemma financial_outcome_cases: "o' = None \<or> o' = Some OUTCOME_PROFIT \<or> o' = Some OUTCOME_LOSS
    \<or> o' = Some OUTCOME_FLAT"
  by (metis financial_outcome.exhaust option.exhaust)

text \<open>The three outcomes partition the resolved observations.\<close>

lemma outcomes_partition:
  "count_if (\<lambda>o'. fo_financial_outcome o' = Some OUTCOME_PROFIT) (resolved_observations os)
   + count_if (\<lambda>o'. fo_financial_outcome o' = Some OUTCOME_LOSS) (resolved_observations os)
   + count_if (\<lambda>o'. fo_financial_outcome o' = Some OUTCOME_FLAT) (resolved_observations os)
   = length (resolved_observations os)"
proof (induction os)
  case (Cons o' os)
  then show ?case
    using financial_outcome_cases [of "fo_financial_outcome o'"]
    by (auto simp: resolved_observations_def)
qed (simp add: resolved_observations_def)

section \<open>The equity curve\<close>

text \<open>The equity after each result, with the zero it starts from.\<close>

fun equity_curve :: "rat \<Rightarrow> rat list \<Rightarrow> rat list" where
  "equity_curve e [] = [e]"
| "equity_curve e (r # rs) = e # equity_curve (dadd e r) rs"

lemma length_equity_curve [simp]: "length (equity_curve e rs) = Suc (length rs)"
  by (induction rs arbitrary: e) simp_all

lemma equity_curve_hd [simp]: "equity_curve e rs ! 0 = e"
  by (cases rs) simp_all

text \<open>The loop over the curve: its result is the greatest fall, from the peak so far or a later one.\<close>

lemma dsub_max_le: "dsub (max p q) x \<le> b \<longleftrightarrow> dsub p x \<le> b \<and> dsub q x \<le> b"
proof -
  have "dsub (max p q) x = max (dsub p x) (dsub q x)"
    unfolding dsub_def using rnd_mono [of "p - x" "q - x"] rnd_mono [of "q - x" "p - x"]
    by (auto simp: max_def)
  then show ?thesis by simp
qed

lemma dsub_self [simp]: "dsub x x = 0"
  by (simp add: dsub_def)

lemma drawdown_loop_le:
  "0 \<le> w \<Longrightarrow> snd (snd (drawdown_loop rs (e, p, w))) \<le> b \<longleftrightarrow>
     w \<le> b \<and> (\<forall>y\<in>set (tl (equity_curve e rs)). dsub p y \<le> b)
     \<and> sorted_wrt (\<lambda>x y. dsub x y \<le> b) (tl (equity_curve e rs))"
proof (induction rs arbitrary: e p w)
  case (Cons r rs)
  have curve: "equity_curve (dadd e r) rs = dadd e r # tl (equity_curve (dadd e r) rs)"
    by (cases rs) simp_all
  have "0 \<le> max w (dsub (max p (dadd e r)) (dadd e r))" using Cons.prems by simp
  from Cons.IH [OF this, of "dadd e r" "max p (dadd e r)"]
  have "snd (snd (drawdown_loop (r # rs) (e, p, w))) \<le> b \<longleftrightarrow>
      max w (dsub (max p (dadd e r)) (dadd e r)) \<le> b
      \<and> (\<forall>y\<in>set (tl (equity_curve (dadd e r) rs)). dsub (max p (dadd e r)) y \<le> b)
      \<and> sorted_wrt (\<lambda>x y. dsub x y \<le> b) (tl (equity_curve (dadd e r) rs))"
    by (simp add: Let_def)
  also have "\<dots> \<longleftrightarrow> w \<le> b \<and> (\<forall>y\<in>set (equity_curve (dadd e r) rs). dsub p y \<le> b)
      \<and> sorted_wrt (\<lambda>x y. dsub x y \<le> b) (equity_curve (dadd e r) rs)"
    using Cons.prems by (subst (2 3) curve) (auto simp: dsub_max_le)
  finally show ?case by simp
qed simp

lemma maximum_drawdown_le:
  "maximum_drawdown rs \<le> b \<longleftrightarrow>
     0 \<le> b \<and> sorted_wrt (\<lambda>x y. dsub x y \<le> b) (equity_curve 0 rs)"
proof -
  obtain cs where cs: "equity_curve 0 rs = 0 # cs" by (cases rs) simp_all
  then have "sorted_wrt (\<lambda>x y. dsub x y \<le> b) (equity_curve 0 rs) \<longleftrightarrow>
      (\<forall>y\<in>set (tl (equity_curve 0 rs)). dsub 0 y \<le> b)
      \<and> sorted_wrt (\<lambda>x y. dsub x y \<le> b) (tl (equity_curve 0 rs))"
    by simp
  then show ?thesis using drawdown_loop_le [of 0 rs 0 0 b] by (simp add: maximum_drawdown_def)
qed

lemma maximum_drawdown_nonneg [simp]: "0 \<le> maximum_drawdown rs"
  using maximum_drawdown_le [of rs "maximum_drawdown rs"] by simp

text \<open>
  C15: The maximum drawdown is the greatest fall of the rounded equity curve, which starts at zero: over
  all pairs of a point and a later point, the largest rounded difference. The one-pass loop with its
  running peak computes exactly this.
\<close>

theorem drawdown_is_greatest_fall:
  "maximum_drawdown rs =
     Max {dsub (equity_curve 0 rs ! i) (equity_curve 0 rs ! j) |i j. i \<le> j \<and> j \<le> length rs}"
  (is "_ = Max ?falls")
proof (rule antisym)
  have eq: "?falls = (\<lambda>(i, j). dsub (equity_curve 0 rs ! i) (equity_curve 0 rs ! j))
      ` {(i, j). i \<le> j \<and> j \<le> length rs}" by auto
  have "finite {(i, j). i \<le> j \<and> j \<le> length rs}"
    by (rule finite_subset [of _ "{..length rs} \<times> {..length rs}"]) auto
  then have fin: "finite ?falls" unfolding eq by (rule finite_imageI)
  have zero: "0 \<in> ?falls" by force
  have "sorted_wrt (\<lambda>x y. dsub x y \<le> Max ?falls) (equity_curve 0 rs)"
    unfolding sorted_wrt_iff_nth_less
  proof (intro allI impI)
    fix i j assume "i < j" "j < length (equity_curve 0 rs)"
    then show "dsub (equity_curve 0 rs ! i) (equity_curve 0 rs ! j) \<le> Max ?falls"
      by (intro Max_ge [OF fin]) fastforce
  qed
  with Max_ge [OF fin zero] show "maximum_drawdown rs \<le> Max ?falls"
    by (simp add: maximum_drawdown_le)
  have "dsub (equity_curve 0 rs ! i) (equity_curve 0 rs ! j) \<le> maximum_drawdown rs"
    if "i \<le> j" "j \<le> length rs" for i j
  proof (cases "i = j")
    case False
    then show ?thesis
      using that maximum_drawdown_le [of rs "maximum_drawdown rs"]
      by (simp add: sorted_wrt_iff_nth_less)
  qed simp
  then show "Max ?falls \<le> maximum_drawdown rs"
    using fin zero by (subst Max_le_iff) auto
qed

section \<open>The order of the observations\<close>

lemma sort_key_permutation:
  fixes f :: "'a \<Rightarrow> 'b::linorder"
  assumes "mset xs = mset ys" "inj_on f (set xs)"
  shows "sort_key f xs = sort_key f ys"
proof (rule map_inj_on [where f = f])
  have "sort (map f xs) = map f (sort_key f xs)" for xs
    by (rule properties_for_sort) simp_all
  moreover have "sort (map f xs) = sort (map f ys)"
    using assms(1) by (intro properties_for_sort) simp_all
  ultimately show "map f (sort_key f xs) = map f (sort_key f ys)" by simp
  show "inj_on f (set (sort_key f xs) \<union> set (sort_key f ys))"
    using assms(2) mset_eq_setD [OF assms(1)] by simp
qed

text \<open>The part of a summary that sums in the order of the observations.\<close>

definition without_sums :: "metric_summary \<Rightarrow> metric_summary" where
  "without_sums s = s\<lparr>fs_average_net_r := None, fs_total_gross_pnl := 0, fs_total_net_pnl := 0,
     fs_profit_factor := None, fs_legacy_average_planned_r := None\<rparr>"

lemma median_permutation: "mset xs = mset ys \<Longrightarrow> median xs = median ys"
proof -
  assume "mset xs = mset ys"
  then have "sort xs = sort ys" by (intro properties_for_sort) simp_all
  then show ?thesis by (simp add: median_def Let_def)
qed

lemma map_filter_eq: "List.map_filter f xs = map (the \<circ> f) (filter (\<lambda>x. f x \<noteq> None) xs)"
  by (induction xs) (auto simp: List.map_filter_simps)

text \<open>
  The order in which the observations arrive does not matter: two sequences with the same
  observations have the same counts, rates, median and maximum drawdown, since the equity curve is
  ordered by closing time and identifier, and the same sequences fail. Only the sums, whose rounding
  follows the order, are left out.
\<close>

theorem summary_order_irrelevant:
  assumes "mset os = mset os'" "inj_on observation_key (set (resolved_observations os))"
  shows "map_sum id without_sums (summarize_financial_observations os)
       = map_sum id without_sums (summarize_financial_observations os')"
proof -
  let ?r = "resolved_observations os" and ?r' = "resolved_observations os'"
  have r: "mset ?r = mset ?r'" using assms(1) by (simp add: resolved_observations_def)
  have sets: "set ?r = set ?r'" using mset_eq_setD [OF r] .
  have counts: "count_if p ?r = count_if p ?r'" "count_if p os = count_if p os'" for p
    using count_if_permutation r assms(1) by blast+
  have lengths: "length ?r = length ?r'" "length os = length os'"
    using r assms(1) by (metis size_mset)+
  have legacy: "length (List.map_filter fo_legacy_planned_r os)
      = length (List.map_filter fo_legacy_planned_r os')"
    using count_if_permutation [OF assms(1), of "\<lambda>x. fo_legacy_planned_r x \<noteq> None"]
    by (simp add: map_filter_eq count_if_def)
  have median: "median (map (the \<circ> fo_net_r) ?r) = median (map (the \<circ> fo_net_r) ?r')"
    by (rule median_permutation) (simp add: r)
  have ordered: "sort_key observation_key ?r = sort_key observation_key ?r'"
    by (rule sort_key_permutation [OF r assms(2)])
  have empty: "?r = [] \<longleftrightarrow> ?r' = []" using lengths(1) by (metis length_0_conv)
  have raises: "list_ex p ?r \<longleftrightarrow> list_ex p ?r'" for p using sets by (simp add: list_ex_iff)
  show ?thesis
    unfolding summarize_financial_observations_def Let_def without_sums_def raises counts lengths
      legacy ordered
    using median empty by simp
qed

definition sample_observation :: "string \<Rightarrow> rat \<Rightarrow> utc_time \<Rightarrow> observation" where
  "sample_observation i net t =
     \<lparr>fo_stable_id = i, fo_lifecycle_status = Some TP_HIT, fo_execution_status = EXECUTED,
      fo_financial_outcome = Some (classify_financial_outcome net), fo_gross_pnl = Some net,
      fo_net_pnl = Some net, fo_gross_r = Some net, fo_net_r = Some net, fo_closed_at = Some t,
      fo_legacy_planned_r = None\<rparr>"

end
