(* ===== verification/Backtest_Metrics.thy ===== *)
theory Backtest_Metrics
  imports Financial_Metrics
begin

text \<open>
  The backtest trade and the performance metrics (\<open>schemas/backtest.py\<close>), the observation a trade gives
  (\<open>metrics/financial.py\<close>) and the metrics of a run and of its slices (\<open>backtesting/metrics.py\<close>). The
  analysis snapshot a trade carries plays no part and is left out. A \<open>dict\<close> keyed by symbol or
  timeframe is the association list in the order the code inserts its keys.
\<close>

section \<open>The trade\<close>

datatype signal_result = RESULT_WIN | RESULT_LOSS | RESULT_CANCELLED | RESULT_AMBIGUOUS

record backtest_trade =
  bt_candidate_id :: string
  bt_symbol :: market_symbol
  bt_timeframe :: timeframe
  bt_direction :: signal_decision
  bt_entry_zone :: entry_zone
  bt_entry_reference :: price
  bt_status :: signal_lifecycle_status
  bt_created_at :: utc_time
  bt_activated_at :: "utc_time option"
  bt_closed_at :: "utc_time option"
  bt_result :: "signal_result option"
  bt_financial_outcome :: "financial_outcome option"
  bt_entry_execution :: "entry_result option"
  bt_execution :: "execution_result option"
  bt_gross_r :: "rat option"
  bt_trading_cost_r :: "rat option"
  bt_pnl_r :: "rat option"

text \<open>\<open>entry_execution is not None and entry_execution.executed\<close>.\<close>

definition entry_executed :: "backtest_trade \<Rightarrow> bool" where
  "entry_executed t = (case bt_entry_execution t of None \<Rightarrow> False | Some e \<Rightarrow> er_executed e)"

definition validate_entry_evidence :: "backtest_trade \<Rightarrow> unit result" where
  "validate_entry_evidence t =
     (case bt_entry_execution t of
        None \<Rightarrow> Inr ()
      | Some e \<Rightarrow>
          if er_candidate_id e \<noteq> bt_candidate_id t
          then Inl (ValidationError ''entry execution candidate must match trade'')
          else if er_requested_entry_price e \<noteq> bt_entry_reference t
          then Inl (ValidationError ''entry execution must preserve requested reference'')
          else if er_executed_at e \<noteq> bt_activated_at t
          then Inl (ValidationError ''activation timestamp must match entry execution'')
          else Inr ())"

definition validate_trade_execution :: "backtest_trade \<Rightarrow> unit result" where
  "validate_trade_execution t =
     (case bt_execution t of
        None \<Rightarrow>
          if bt_financial_outcome t \<noteq> None \<or> bt_gross_r t \<noteq> None \<or> bt_trading_cost_r t \<noteq> None
             \<or> bt_pnl_r t \<noteq> None
          then Inl (ValidationError
            ''trade without terminal execution cannot carry financial results'')
          else Inr ()
      | Some x \<Rightarrow>
          if bt_entry_execution t \<noteq> Some (xs_entry_execution x)
          then Inl (ValidationError ''terminal execution must preserve entry evidence'')
          else if bt_financial_outcome t \<noteq> Some (xs_financial_outcome x)
          then Inl (ValidationError ''financial outcome must match execution'')
          else if bt_gross_r t \<noteq> Some (xs_gross_r x)
          then Inl (ValidationError ''trade gross_r must match execution'')
          else if bt_pnl_r t \<noteq> Some (xs_net_r x)
          then Inl (ValidationError ''trade pnl_r must match execution net_r'')
          else if bt_trading_cost_r t
              \<noteq> Some (ddiv (dadd (xs_spread_cost x) (xs_commission_cost x)) (xs_planned_risk x))
          then Inl (ValidationError ''trade cost R must match execution costs'')
          else Inr ())"

definition validate_trade_evidence :: "backtest_trade \<Rightarrow> backtest_trade result" where
  "validate_trade_evidence t =
     (if \<not> (ez_low (bt_entry_zone t) \<le> bt_entry_reference t
            \<and> bt_entry_reference t \<le> ez_high (bt_entry_zone t))
      then Inl (ValidationError ''entry_reference must be inside entry_zone'')
      else if (bt_activated_at t \<noteq> None) \<noteq> entry_executed t
      then Inl (ValidationError ''activation requires executed entry evidence'')
      else bind_result (validate_entry_evidence t) (\<lambda>_.
        if (bt_status t \<in> {TP_HIT, SL_HIT}) \<noteq> (bt_execution t \<noteq> None)
        then Inl (ValidationError ''resolved TP/SL trade requires execution evidence'')
        else bind_result (validate_trade_execution t) (\<lambda>_. Inr t)))"

definition make_backtest_trade :: "backtest_trade \<Rightarrow> backtest_trade result" where
  "make_backtest_trade t =
     (if 0 < bt_entry_reference t
         \<and> (case bt_trading_cost_r t of None \<Rightarrow> True | Some v \<Rightarrow> 0 \<le> v)
      then validate_trade_evidence t else Inl (ValidationError ''backtest trade field''))"

text \<open>A trade whose parts and whole passed their validators.\<close>

definition trade_valid :: "backtest_trade \<Rightarrow> bool" where
  "trade_valid t \<longleftrightarrow> make_backtest_trade t = Inr t
     \<and> (case bt_execution t of None \<Rightarrow> True | Some x \<Rightarrow> make_execution_result x = Inr x)"

section \<open>The observation of a trade\<close>

definition backtest_execution_status :: "backtest_trade \<Rightarrow> metric_execution_status" where
  "backtest_execution_status t =
     (if bt_execution t \<noteq> None then EXECUTED
      else if bt_status t = AMBIGUOUS \<and> entry_executed t then AMBIGUOUS_EXIT
      else if entry_executed t then EXECUTED
      else NOT_EXECUTED)"

definition trade_observation :: "backtest_trade \<Rightarrow> observation" where
  "trade_observation t =
     \<lparr>fo_stable_id = bt_candidate_id t, fo_lifecycle_status = Some (bt_status t),
      fo_execution_status = backtest_execution_status t,
      fo_financial_outcome = map_option xs_financial_outcome (bt_execution t),
      fo_gross_pnl = map_option xs_gross_pnl (bt_execution t),
      fo_net_pnl = map_option xs_net_pnl (bt_execution t),
      fo_gross_r = map_option xs_gross_r (bt_execution t),
      fo_net_r = map_option xs_net_r (bt_execution t),
      fo_closed_at = bt_closed_at t, fo_legacy_planned_r = None\<rparr>"

definition backtest_financial_observation :: "backtest_trade \<Rightarrow> observation result" where
  "backtest_financial_observation t = make_observation (trade_observation t)"

section \<open>Performance metrics\<close>

record performance_metrics =
  pm_total_signals :: nat
  pm_activated_signals :: nat
  pm_executed_trades :: nat
  pm_resolved_financial_trades :: nat
  pm_price_resolved_trades :: nat
  pm_wins :: nat
  pm_losses :: nat
  pm_flats :: nat
  pm_win_rate :: rat
  pm_loss_rate :: rat
  pm_lifecycle_tp_hits :: nat
  pm_lifecycle_sl_hits :: nat
  pm_tp_hit_rate :: rat
  pm_sl_hit_rate :: rat
  pm_cancelled :: nat
  pm_ambiguous :: nat
  pm_average_r :: "rat option"
  pm_median_r :: "rat option"
  pm_average_net_r :: "rat option"
  pm_median_net_r :: "rat option"
  pm_total_gross_pnl :: rat
  pm_total_net_pnl :: rat
  pm_profit_factor :: "rat option"
  pm_maximum_drawdown :: rat

definition unit_rate :: "rat \<Rightarrow> bool" where
  "unit_rate r \<longleftrightarrow> 0 \<le> r \<and> r \<le> 1"

definition metrics_fields :: "performance_metrics \<Rightarrow> bool" where
  "metrics_fields m \<longleftrightarrow>
     unit_rate (pm_win_rate m) \<and> unit_rate (pm_loss_rate m) \<and> unit_rate (pm_tp_hit_rate m)
     \<and> unit_rate (pm_sl_hit_rate m)
     \<and> (case pm_profit_factor m of None \<Rightarrow> True | Some v \<Rightarrow> 0 \<le> v) \<and> 0 \<le> pm_maximum_drawdown m"

definition validate_metric_semantics :: "performance_metrics \<Rightarrow> performance_metrics result" where
  "validate_metric_semantics m =
     (if pm_activated_signals m \<noteq> pm_executed_trades m
      then Inl (ValidationError ''activated_signals must equal executed_trades'')
      else if pm_executed_trades m > pm_total_signals m
      then Inl (ValidationError ''executed_trades cannot exceed total_signals'')
      else if pm_resolved_financial_trades m \<noteq> pm_wins m + pm_losses m + pm_flats m
      then Inl (ValidationError ''resolved financial count must equal wins + losses + flats'')
      else if pm_resolved_financial_trades m > pm_executed_trades m
      then Inl (ValidationError ''resolved financial trades must be executed'')
      else if pm_price_resolved_trades m \<noteq> pm_lifecycle_tp_hits m + pm_lifecycle_sl_hits m
      then Inl (ValidationError ''price-resolved count must equal TP hits + SL hits'')
      else if pm_price_resolved_trades m \<noteq> pm_resolved_financial_trades m
      then Inl (ValidationError ''price-resolved and financially resolved counts must agree'')
      else if pm_win_rate m \<noteq> rate (pm_wins m) (pm_wins m + pm_losses m)
          \<or> pm_loss_rate m \<noteq> rate (pm_losses m) (pm_wins m + pm_losses m)
      then Inl (ValidationError ''financial win/loss rates use wins + losses only'')
      else if pm_tp_hit_rate m \<noteq> rate (pm_lifecycle_tp_hits m) (pm_price_resolved_trades m)
          \<or> pm_sl_hit_rate m \<noteq> rate (pm_lifecycle_sl_hits m) (pm_price_resolved_trades m)
      then Inl (ValidationError ''TP/SL rates use price_resolved_trades only'')
      else if pm_average_r m \<noteq> pm_average_net_r m \<or> pm_median_r m \<noteq> pm_median_net_r m
      then Inl (ValidationError ''legacy R labels must remain exact net-R aliases'')
      else Inr m)"

definition make_performance_metrics :: "performance_metrics \<Rightarrow> performance_metrics result" where
  "make_performance_metrics m =
     (if metrics_fields m then validate_metric_semantics m
      else Inl (ValidationError ''performance metrics field''))"

definition metrics_of_summary :: "metric_summary \<Rightarrow> performance_metrics" where
  "metrics_of_summary s =
     \<lparr>pm_total_signals = fs_signal_count s, pm_activated_signals = fs_executed_trade_count s,
      pm_executed_trades = fs_executed_trade_count s,
      pm_resolved_financial_trades = fs_resolved_financial_trade_count s,
      pm_price_resolved_trades = fs_price_resolved_trade_count s, pm_wins = fs_win_count s,
      pm_losses = fs_loss_count s, pm_flats = fs_flat_count s,
      pm_win_rate = fs_financial_win_rate s, pm_loss_rate = fs_financial_loss_rate s,
      pm_lifecycle_tp_hits = fs_lifecycle_tp_hits s, pm_lifecycle_sl_hits = fs_lifecycle_sl_hits s,
      pm_tp_hit_rate = fs_tp_hit_rate s, pm_sl_hit_rate = fs_sl_hit_rate s,
      pm_cancelled = fs_cancelled_count s, pm_ambiguous = fs_ambiguous_count s,
      pm_average_r = fs_average_net_r s, pm_median_r = fs_median_net_r s,
      pm_average_net_r = fs_average_net_r s, pm_median_net_r = fs_median_net_r s,
      pm_total_gross_pnl = fs_total_gross_pnl s, pm_total_net_pnl = fs_total_net_pnl s,
      pm_profit_factor = fs_profit_factor s,
      pm_maximum_drawdown = fs_maximum_drawdown_net_r s\<rparr>"

definition slice_metrics :: "backtest_trade list \<Rightarrow> performance_metrics result" where
  "slice_metrics trades =
     bind_result (map_result backtest_financial_observation trades) (\<lambda>os.
     bind_result (summarize_financial_observations os) (\<lambda>s.
       make_performance_metrics (metrics_of_summary s)))"

record backtest_metrics =
  bm_overall :: performance_metrics
  bm_long_performance :: performance_metrics
  bm_short_performance :: performance_metrics
  bm_performance_by_symbol :: "(string \<times> performance_metrics) list"
  bm_performance_by_timeframe :: "(string \<times> performance_metrics) list"

fun symbol_value :: "market_symbol \<Rightarrow> string" where
  "symbol_value XAUUSD = ''XAUUSD''"
| "symbol_value BTCUSDT = ''BTCUSDT''"
| "symbol_value ETHUSDT = ''ETHUSDT''"

text \<open>A dict comprehension over the sorted set of the values of a key.\<close>

definition metrics_by :: "(backtest_trade \<Rightarrow> string) \<Rightarrow> backtest_trade list
    \<Rightarrow> (string \<times> performance_metrics) list result" where
  "metrics_by key trades =
     map_result (\<lambda>k. bind_result (slice_metrics (filter (\<lambda>t. key t = k) trades)) (\<lambda>m. Inr (k, m)))
       (sort (remdups (map key trades)))"

definition calculate_backtest_metrics :: "backtest_trade list \<Rightarrow> backtest_metrics result" where
  "calculate_backtest_metrics trades =
     bind_result (slice_metrics trades) (\<lambda>overall.
     bind_result (slice_metrics (filter (\<lambda>t. bt_direction t = LONG) trades)) (\<lambda>long.
     bind_result (slice_metrics (filter (\<lambda>t. bt_direction t = SHORT) trades)) (\<lambda>short.
     bind_result (metrics_by (symbol_value \<circ> bt_symbol) trades) (\<lambda>by_symbol.
     bind_result (metrics_by (timeframe_value \<circ> bt_timeframe) trades) (\<lambda>by_timeframe.
     bind_result (make_performance_metrics overall) (\<lambda>overall.
       Inr \<lparr>bm_overall = overall, bm_long_performance = long, bm_short_performance = short,
            bm_performance_by_symbol = by_symbol,
            bm_performance_by_timeframe = by_timeframe\<rparr>))))))"

section \<open>The metrics are always consistent\<close>

lemma trade_valid_execution:
  assumes "trade_valid t"
  shows "bt_status t \<in> {TP_HIT, SL_HIT} \<longleftrightarrow> bt_execution t \<noteq> None"
    and "bt_execution t = Some x \<Longrightarrow>
      xs_financial_outcome x = classify_financial_outcome (xs_net_pnl x)"
proof -
  have "validate_trade_evidence t = Inr t"
    using assms by (auto simp: trade_valid_def make_backtest_trade_def split: if_splits)
  then show "bt_status t \<in> {TP_HIT, SL_HIT} \<longleftrightarrow> bt_execution t \<noteq> None"
    by (auto simp: validate_trade_evidence_def bind_result_eq_Inr split: if_splits)
  assume "bt_execution t = Some x"
  with assms have "make_execution_result x = Inr x" by (simp add: trade_valid_def)
  then show "xs_financial_outcome x = classify_financial_outcome (xs_net_pnl x)"
    unfolding make_execution_result_def validate_arithmetic_def Let_def
    by (simp split: if_splits)
qed

lemma observation_of_valid:
  assumes "trade_valid t"
  shows "backtest_financial_observation t =
    (if bt_execution t \<noteq> None \<and> bt_closed_at t = None
     then Inl (ValueError ''resolved financial observation requires closed_at'')
     else Inr (trade_observation t))"
  using trade_valid_execution [OF assms]
  by (cases "bt_execution t")
    (auto simp: backtest_financial_observation_def make_observation_def trade_observation_def
      backtest_execution_status_def)

text \<open>The summary of the observations of a list of trades, and its counts in terms of the trades.\<close>

lemma summary_of_trades:
  "\<exists>s. summarize_financial_observations (map trade_observation ts) = Inr s
     \<and> fs_signal_count s = length ts
     \<and> fs_executed_trade_count s = count_if (\<lambda>t. bt_execution t \<noteq> None \<or> entry_executed t) ts
     \<and> fs_resolved_financial_trade_count s = count_if (\<lambda>t. bt_execution t \<noteq> None) ts
     \<and> fs_win_count s + fs_loss_count s + fs_flat_count s = fs_resolved_financial_trade_count s
     \<and> fs_lifecycle_tp_hits s = count_if (\<lambda>t. bt_status t = TP_HIT) ts
     \<and> fs_lifecycle_sl_hits s = count_if (\<lambda>t. bt_status t = SL_HIT) ts
     \<and> fs_price_resolved_trade_count s = fs_lifecycle_tp_hits s + fs_lifecycle_sl_hits s
     \<and> fs_financial_win_rate s = rate (fs_win_count s) (fs_win_count s + fs_loss_count s)
     \<and> fs_financial_loss_rate s = rate (fs_loss_count s) (fs_win_count s + fs_loss_count s)
     \<and> fs_tp_hit_rate s = rate (fs_lifecycle_tp_hits s) (fs_price_resolved_trade_count s)
     \<and> fs_sl_hit_rate s = rate (fs_lifecycle_sl_hits s) (fs_price_resolved_trade_count s)
     \<and> 0 \<le> fs_maximum_drawdown_net_r s
     \<and> (case fs_profit_factor s of None \<Rightarrow> True | Some v \<Rightarrow> 0 \<le> v)"
proof -
  let ?os = "map trade_observation ts"
  have exec: "count_if (\<lambda>o'. fo_execution_status o' = EXECUTED \<or> fo_execution_status o' = AMBIGUOUS_EXIT)
      ?os = count_if (\<lambda>t. bt_execution t \<noteq> None \<or> entry_executed t) ts"
    unfolding count_if_map
    by (rule count_if_cong) (simp add: trade_observation_def backtest_execution_status_def)
  have res: "length (resolved_observations ?os) = count_if (\<lambda>t. bt_execution t \<noteq> None) ts"
    by (induction ts) (auto simp: resolved_observations_def trade_observation_def)
  have present: "\<not> list_ex (\<lambda>o'. fo_net_r o' = None \<or> fo_gross_pnl o' = None \<or> fo_net_pnl o' = None)
      (resolved_observations ?os)"
    by (auto simp: list_ex_iff resolved_observations_def trade_observation_def)
  have status: "count_if (\<lambda>o'. fo_lifecycle_status o' = Some st) ?os
      = count_if (\<lambda>t. bt_status t = st) ts" for st
    unfolding count_if_map by (rule count_if_cong) (simp add: trade_observation_def)
  have positive: "0 \<le> dsum (filter (\<lambda>v. v > 0) vs)" for vs
    by (rule dsum_nonneg) auto
  show ?thesis
    unfolding summarize_financial_observations_def Let_def
    by (simp add: present exec res status outcomes_partition positive ddiv_nonneg)
qed

lemma slice_metrics_valid:
  assumes "\<forall>t\<in>set ts. trade_valid t" "\<forall>t\<in>set ts. bt_execution t \<noteq> None \<longrightarrow> bt_closed_at t \<noteq> None"
  shows "\<exists>s. summarize_financial_observations (map trade_observation ts) = Inr s
     \<and> slice_metrics ts = Inr (metrics_of_summary s)
     \<and> make_performance_metrics (metrics_of_summary s) = Inr (metrics_of_summary s)"
proof -
  obtain s where s: "summarize_financial_observations (map trade_observation ts) = Inr s"
    and counts: "fs_signal_count s = length ts"
      "fs_executed_trade_count s = count_if (\<lambda>t. bt_execution t \<noteq> None \<or> entry_executed t) ts"
      "fs_resolved_financial_trade_count s = count_if (\<lambda>t. bt_execution t \<noteq> None) ts"
      "fs_win_count s + fs_loss_count s + fs_flat_count s = fs_resolved_financial_trade_count s"
      "fs_lifecycle_tp_hits s = count_if (\<lambda>t. bt_status t = TP_HIT) ts"
      "fs_lifecycle_sl_hits s = count_if (\<lambda>t. bt_status t = SL_HIT) ts"
      "fs_price_resolved_trade_count s = fs_lifecycle_tp_hits s + fs_lifecycle_sl_hits s"
      "fs_financial_win_rate s = rate (fs_win_count s) (fs_win_count s + fs_loss_count s)"
      "fs_financial_loss_rate s = rate (fs_loss_count s) (fs_win_count s + fs_loss_count s)"
      "fs_tp_hit_rate s = rate (fs_lifecycle_tp_hits s) (fs_price_resolved_trade_count s)"
      "fs_sl_hit_rate s = rate (fs_lifecycle_sl_hits s) (fs_price_resolved_trade_count s)"
      "0 \<le> fs_maximum_drawdown_net_r s"
      "case fs_profit_factor s of None \<Rightarrow> True | Some v \<Rightarrow> 0 \<le> v"
    using summary_of_trades [of ts] by blast
  have "count_if (\<lambda>t. bt_execution t \<noteq> None) ts
      \<le> count_if (\<lambda>t. bt_execution t \<noteq> None \<or> entry_executed t) ts"
    by (rule count_if_mono) simp
  moreover have "count_if (\<lambda>t. bt_status t = TP_HIT) ts + count_if (\<lambda>t. bt_status t = SL_HIT) ts
      = count_if (\<lambda>t. bt_execution t \<noteq> None) ts"
    using assms(1) trade_valid_execution(1)
    by (subst count_if_disjoint) (auto intro!: count_if_cong)
  moreover have "map_result backtest_financial_observation ts = Inr (map trade_observation ts)"
    using assms by (intro map_result_total) (auto simp: observation_of_valid)
  ultimately show ?thesis
    using s counts
    by (simp add: slice_metrics_def not_less [THEN iffD2, OF count_if_le_length] make_performance_metrics_def validate_metric_semantics_def
        metrics_fields_def metrics_of_summary_def unit_rate_def)
qed

lemma slice_metrics_raises:
  assumes "\<forall>t\<in>set ts. trade_valid t" "\<exists>t\<in>set ts. bt_execution t \<noteq> None \<and> bt_closed_at t = None"
  shows "slice_metrics ts = Inl (ValueError ''resolved financial observation requires closed_at'')"
proof -
  have "map_result backtest_financial_observation ts
      = Inl (ValueError ''resolved financial observation requires closed_at'')"
    using assms
  proof (induction ts)
    case (Cons t ts)
    show ?case
    proof (cases "bt_execution t \<noteq> None \<and> bt_closed_at t = None")
      case False
      with Cons.prems have "\<exists>t\<in>set ts. bt_execution t \<noteq> None \<and> bt_closed_at t = None" by auto
      with Cons False show ?thesis by (simp add: observation_of_valid)
    qed (use Cons.prems in \<open>simp add: observation_of_valid\<close>)
  qed simp
  then show ?thesis by (simp add: slice_metrics_def)
qed

lemma slice_of_filter:
  assumes "\<forall>t\<in>set ts. trade_valid t" "\<forall>t\<in>set ts. bt_execution t \<noteq> None \<longrightarrow> bt_closed_at t \<noteq> None"
  shows "\<exists>m. slice_metrics (filter p ts) = Inr m"
proof -
  have "\<forall>t\<in>set (filter p ts). trade_valid t"
    "\<forall>t\<in>set (filter p ts). bt_execution t \<noteq> None \<longrightarrow> bt_closed_at t \<noteq> None"
    using assms by simp_all
  from slice_metrics_valid [OF this] show ?thesis by blast
qed

lemma metrics_by_total:
  assumes "\<forall>t\<in>set ts. trade_valid t" "\<forall>t\<in>set ts. bt_execution t \<noteq> None \<longrightarrow> bt_closed_at t \<noteq> None"
  shows "\<exists>ms. metrics_by key ts = Inr ms"
proof -
  have "\<exists>y. bind_result (slice_metrics (filter (\<lambda>t. key t = k) ts)) (\<lambda>m. Inr (k, m)) = Inr y" for k
    using slice_of_filter [OF assms, of "\<lambda>t. key t = k"] by auto
  then show ?thesis unfolding metrics_by_def map_result_returns_iff by blast
qed

lemma calculate_total:
  assumes "\<forall>t\<in>set ts. trade_valid t" "\<forall>t\<in>set ts. bt_execution t \<noteq> None \<longrightarrow> bt_closed_at t \<noteq> None"
  shows "\<exists>m. calculate_backtest_metrics ts = Inr m
    \<and> make_performance_metrics (bm_overall m) = Inr (bm_overall m)"
proof -
  obtain m where m: "slice_metrics ts = Inr m" "make_performance_metrics m = Inr m"
    using slice_metrics_valid [OF assms] by blast
  note part = slice_of_filter [OF assms]
  obtain l s where "slice_metrics (filter (\<lambda>t. bt_direction t = LONG) ts) = Inr l"
    "slice_metrics (filter (\<lambda>t. bt_direction t = SHORT) ts) = Inr s" using part by metis
  moreover obtain a b where "metrics_by (symbol_value \<circ> bt_symbol) ts = Inr a"
    "metrics_by (timeframe_value \<circ> bt_timeframe) ts = Inr b"
    using metrics_by_total [OF assms] by meson
  ultimately show ?thesis using m by (simp add: calculate_backtest_metrics_def)
qed

text \<open>
  C16: When the metrics of a run exist. For validated trades the metrics fail exactly when an executed
  trade carries no closing time, and then with that message; otherwise every validator of the overall
  metrics and of every slice accepts what the code computes: rates lie between zero and one, the counts
  partition, and the resolved trades are the ones that hit a target or a stop.
\<close>

theorem backtest_metrics_return_iff:
  assumes "\<forall>t\<in>set ts. trade_valid t"
  shows "if \<exists>t\<in>set ts. bt_execution t \<noteq> None \<and> bt_closed_at t = None
    then calculate_backtest_metrics ts
      = Inl (ValueError ''resolved financial observation requires closed_at'')
    else \<exists>m. calculate_backtest_metrics ts = Inr m
      \<and> make_performance_metrics (bm_overall m) = Inr (bm_overall m)"
proof (cases "\<exists>t\<in>set ts. bt_execution t \<noteq> None \<and> bt_closed_at t = None")
  case True
  with slice_metrics_raises [OF assms] show ?thesis by (simp add: calculate_backtest_metrics_def)
next
  case False
  then have closed: "\<forall>t\<in>set ts. bt_execution t \<noteq> None \<longrightarrow> bt_closed_at t \<noteq> None" by auto
  from calculate_total [OF assms closed] show ?thesis unfolding if_not_P [OF False] .
qed

section \<open>The slices partition the run\<close>

definition metric_counts :: "(performance_metrics \<Rightarrow> nat) list" where
  "metric_counts =
     [pm_total_signals, pm_activated_signals, pm_executed_trades, pm_resolved_financial_trades,
      pm_price_resolved_trades, pm_wins, pm_losses, pm_flats, pm_lifecycle_tp_hits,
      pm_lifecycle_sl_hits, pm_cancelled, pm_ambiguous]"

lemma make_observation_same: "make_observation o1 = Inr o2 \<Longrightarrow> o2 = o1"
  by (auto simp: make_observation_def Let_def split: if_splits option.splits)

lemma slice_metrics_summary:
  assumes "slice_metrics ts = Inr m"
  shows "\<exists>s. summarize_financial_observations (map trade_observation ts) = Inr s
     \<and> m = metrics_of_summary s"
proof -
  obtain os s where os: "map_result backtest_financial_observation ts = Inr os"
    and s: "summarize_financial_observations os = Inr s"
      "make_performance_metrics (metrics_of_summary s) = Inr m"
    using assms by (auto simp: slice_metrics_def bind_result_eq_Inr)
  have "os = map trade_observation ts"
    using os unfolding map_result_Inr
    by (induction rule: list_all2_induct)
      (auto simp: backtest_financial_observation_def dest: make_observation_same)
  moreover have "m = metrics_of_summary s"
    using s(2) by (auto simp: make_performance_metrics_def validate_metric_semantics_def split: if_splits)
  ultimately show ?thesis using s(1) by blast
qed

lemma count_if_filter: "count_if p (filter q xs) = count_if (\<lambda>x. p x \<and> q x) xs"
  by (induction xs) auto

text \<open>What each count says of an observation.\<close>

definition observation_counts :: "(observation \<Rightarrow> bool) list" where
  "observation_counts =
     (let executed = (\<lambda>x. fo_execution_status x = EXECUTED \<or> fo_execution_status x = AMBIGUOUS_EXIT);
          status = (\<lambda>st x. fo_lifecycle_status x = Some st);
          outcome = (\<lambda>v x. fo_financial_outcome x = Some v)
      in [\<lambda>_. True, executed, executed, \<lambda>x. fo_financial_outcome x \<noteq> None,
          \<lambda>x. status TP_HIT x \<or> status SL_HIT x, outcome OUTCOME_PROFIT, outcome OUTCOME_LOSS,
          outcome OUTCOME_FLAT, status TP_HIT, status SL_HIT, status CANCELLED, status AMBIGUOUS])"

lemma summary_counts:
  assumes "summarize_financial_observations os = Inr s"
  shows "map (\<lambda>f. f (metrics_of_summary s)) metric_counts
    = map (\<lambda>q. count_if q os) observation_counts"
proof -
  have all: "length os = count_if (\<lambda>_. True) os" by (induction os) simp_all
  have resolved: "length (resolved_observations os)
      = count_if (\<lambda>x. fo_financial_outcome x \<noteq> None) os"
    by (simp add: resolved_observations_def count_if_def)
  have outcome: "count_if (\<lambda>x. fo_financial_outcome x = Some v) (resolved_observations os)
      = count_if (\<lambda>x. fo_financial_outcome x = Some v) os" for v
    unfolding resolved_observations_def count_if_filter by (rule count_if_cong) auto
  have price: "count_if (\<lambda>x. fo_lifecycle_status x = Some TP_HIT) os
      + count_if (\<lambda>x. fo_lifecycle_status x = Some SL_HIT) os
      = count_if (\<lambda>x. fo_lifecycle_status x = Some TP_HIT \<or> fo_lifecycle_status x = Some SL_HIT) os"
    by (rule count_if_disjoint) simp
  show ?thesis
    using assms
    by (auto simp: summarize_financial_observations_def Let_def metrics_of_summary_def
        metric_counts_def observation_counts_def resolved outcome price all split: if_splits)
qed

lemma metric_counts_of_trades:
  assumes "f \<in> set metric_counts"
  shows "\<exists>p. \<forall>ts m. slice_metrics ts = Inr m \<longrightarrow> f m = count_if p ts"
proof -
  obtain i where i: "i < length metric_counts" "f = metric_counts ! i"
    using assms by (metis in_set_conv_nth)
  have "\<exists>q. \<forall>os s. summarize_financial_observations os = Inr s
      \<longrightarrow> f (metrics_of_summary s) = count_if q os"
  proof (intro exI [of _ "observation_counts ! i"] allI impI)
    fix os s assume "summarize_financial_observations os = Inr s"
    from summary_counts [OF this] i
    show "f (metrics_of_summary s) = count_if (observation_counts ! i) os"
      by (metis length_map nth_map)
  qed
  then obtain q where q: "\<And>os s. summarize_financial_observations os = Inr s
      \<Longrightarrow> f (metrics_of_summary s) = count_if q os" by blast
  show ?thesis
  proof (intro exI [of _ "q \<circ> trade_observation"] allI impI)
    fix ts m assume "slice_metrics ts = Inr m"
    from slice_metrics_summary [OF this] show "f m = count_if (q \<circ> trade_observation) ts"
      using q by (auto simp: count_if_map)
  qed
qed

lemma sum_over_keys:
  assumes "finite K" "key ` set ts \<subseteq> K"
  shows "(\<Sum>k\<in>K. count_if p (filter (\<lambda>t. key t = k) ts)) = count_if p ts"
  using assms(2)
proof (induction ts)
  case (Cons t ts)
  have "(\<Sum>k\<in>K. count_if p (filter (\<lambda>t. key t = k) (t # ts)))
      = (\<Sum>k\<in>K. count_if p (filter (\<lambda>t. key t = k) ts)) + (\<Sum>k\<in>K. if k = key t \<and> p t then 1 else 0)"
    by (subst sum.distrib [symmetric]) (rule sum.cong, auto)
  also have "(\<Sum>k\<in>K. if k = key t \<and> p t then 1 else 0) = (if p t then 1 else 0::nat)"
    using assms(1) Cons.prems by (cases "p t") (simp_all add: sum.delta)
  finally show ?case using Cons by simp
qed simp

lemma metrics_by_partition:
  assumes "metrics_by key ts = Inr ms" "\<And>us m. slice_metrics us = Inr m \<Longrightarrow> f m = count_if p us"
  shows "sum_list (map (f \<circ> snd) ms) = count_if p ts"
proof -
  have "sum_list (map (f \<circ> snd) ms) = sum_list (map (\<lambda>k. count_if p (filter (\<lambda>t. key t = k) ts))
      (sort (remdups (map key ts))))"
    using assms(1) unfolding metrics_by_def map_result_Inr
    by (induction rule: list_all2_induct) (auto simp: bind_result_eq_Inr assms(2))
  also have "\<dots> = (\<Sum>k\<in>key ` set ts. count_if p (filter (\<lambda>t. key t = k) ts))"
    by (subst sum_list_distinct_conv_sum_set) simp_all
  also have "\<dots> = count_if p ts" by (rule sum_over_keys) simp_all
  finally show ?thesis .
qed

text \<open>
  The slices partition the run. Every count of the metrics is the sum of the counts of the long and
  the short slice, of the slices by symbol, and of the slices by timeframe: no trade is lost or counted
  twice.
\<close>

theorem metric_slices_partition:
  assumes "calculate_backtest_metrics ts = Inr m" "\<forall>t\<in>set ts. bt_direction t \<in> {LONG, SHORT}"
    and "f \<in> set metric_counts"
  shows "f (bm_overall m) = f (bm_long_performance m) + f (bm_short_performance m)
    \<and> f (bm_overall m) = sum_list (map (f \<circ> snd) (bm_performance_by_symbol m))
    \<and> f (bm_overall m) = sum_list (map (f \<circ> snd) (bm_performance_by_timeframe m))"
proof -
  obtain p where p: "\<And>us m. slice_metrics us = Inr m \<Longrightarrow> f m = count_if p us"
    using metric_counts_of_trades [OF assms(3)] by blast
  obtain overall where parts: "slice_metrics ts = Inr overall"
      "make_performance_metrics overall = Inr (bm_overall m)"
      "slice_metrics (filter (\<lambda>t. bt_direction t = LONG) ts) = Inr (bm_long_performance m)"
      "slice_metrics (filter (\<lambda>t. bt_direction t = SHORT) ts) = Inr (bm_short_performance m)"
      "metrics_by (symbol_value \<circ> bt_symbol) ts = Inr (bm_performance_by_symbol m)"
      "metrics_by (timeframe_value \<circ> bt_timeframe) ts = Inr (bm_performance_by_timeframe m)"
    using assms(1) by (auto simp: calculate_backtest_metrics_def bind_result_eq_Inr)
  have "bm_overall m = overall"
    using parts(2) by (auto simp: make_performance_metrics_def validate_metric_semantics_def split: if_splits)
  then have whole: "f (bm_overall m) = count_if p ts" using p parts(1) by simp
  have "count_if p (filter (\<lambda>t. bt_direction t = LONG) ts)
      + count_if p (filter (\<lambda>t. bt_direction t = SHORT) ts) = count_if p ts"
    unfolding count_if_filter using assms(2)
    by (subst count_if_disjoint) (auto intro!: count_if_cong)
  then have "f (bm_overall m) = f (bm_long_performance m) + f (bm_short_performance m)"
    using whole p parts(3,4) by simp
  then show ?thesis
    using whole metrics_by_partition [OF parts(5) p] metrics_by_partition [OF parts(6) p] by simp
qed

section \<open>A sample run\<close>

definition sample_result :: execution_result where
  "sample_result =
     \<lparr>xs_execution_policy = CONSERVATIVE_MARKET_FILL, xs_candidate_id = ''sig'',
      xs_direction = LONG, xs_entry_execution = sample_entry_result,
      xs_exit_reason = EXIT_STOP_LOSS, xs_requested_exit_price = 98, xs_base_execution_price = 98,
      xs_executed_entry_price = 101, xs_executed_exit_price = 98, xs_gap_detected = False,
      xs_spread_cost = 0, xs_exit_slippage = 0, xs_slippage = 0, xs_gap_slippage = 0,
      xs_commission_cost = 0, xs_gross_pnl = - 3, xs_net_pnl = - 3, xs_planned_risk = 3,
      xs_actual_entry_risk = 3, xs_gross_r = - 1, xs_net_r = - 1,
      xs_financial_outcome = OUTCOME_LOSS, xs_executed_at = minutes 2,
      xs_source_bar_timestamp = minutes 1\<rparr>"

definition sample_trade :: backtest_trade where
  "sample_trade =
     \<lparr>bt_candidate_id = ''sig'', bt_symbol = BTCUSDT, bt_timeframe = ONE_MINUTE,
      bt_direction = LONG, bt_entry_zone = \<lparr>ez_low = 100, ez_high = 102\<rparr>,
      bt_entry_reference = 101, bt_status = SL_HIT, bt_created_at = 0, bt_activated_at = Some 0,
      bt_closed_at = Some (minutes 2), bt_result = Some RESULT_LOSS,
      bt_financial_outcome = Some OUTCOME_LOSS, bt_entry_execution = Some sample_entry_result,
      bt_execution = Some sample_result, bt_gross_r = Some (- 1), bt_trading_cost_r = Some 0,
      bt_pnl_r = Some (- 1)\<rparr>"

definition sample_cancelled :: backtest_trade where
  "sample_cancelled = sample_trade\<lparr>bt_candidate_id := ''other'', bt_direction := SHORT,
     bt_status := CANCELLED, bt_activated_at := None, bt_result := Some RESULT_CANCELLED,
     bt_financial_outcome := None, bt_entry_execution := None, bt_execution := None,
     bt_gross_r := None, bt_trading_cost_r := None, bt_pnl_r := None\<rparr>"

lemma sample_trades_valid: "trade_valid sample_trade" "trade_valid sample_cancelled"
proof -
  have "dsub (- 3) 0 = - 3" "dadd 0 0 = 0" "ddiv 0 3 = 0" using sample_arith by (simp_all add: ddiv_def)
  then show "trade_valid sample_trade" "trade_valid sample_cancelled"
    by (simp_all add: trade_valid_def make_backtest_trade_def validate_trade_evidence_def
        validate_entry_evidence_def validate_trade_execution_def entry_executed_def
        sample_cancelled_def sample_trade_def sample_result_def sample_entry_result_def
        make_execution_result_def validate_arithmetic_def sample_arith
        classify_financial_outcome_def)
qed

theorem backtest_metrics_return_iff_witness:
  "\<exists>m. calculate_backtest_metrics [sample_trade, sample_cancelled] = Inr m
     \<and> make_performance_metrics (bm_overall m) = Inr (bm_overall m)"
  using backtest_metrics_return_iff [of "[sample_trade, sample_cancelled]"] sample_trades_valid
  by (simp add: sample_trade_def sample_cancelled_def)

lemma sample_metrics: "\<exists>m. calculate_backtest_metrics [sample_trade, sample_cancelled] = Inr m"
proof -
  let ?ts = "[sample_trade, sample_cancelled]"
  have ok: "\<forall>t\<in>set ?ts. trade_valid t"
    "\<forall>t\<in>set ?ts. bt_execution t \<noteq> None \<longrightarrow> bt_closed_at t \<noteq> None"
    using sample_trades_valid by (simp_all add: sample_trade_def sample_cancelled_def)
  from calculate_total [OF this] show ?thesis by blast
qed

end
