(* ===== verification/Decimal_Policy.thy ===== *)
theory Decimal_Policy
  imports Decimal_Context Digit_Text
begin

text \<open>
  \<open>execution/decimal_policy.py\<close>: the arithmetic of the paper ledger, which does not inherit the ambient
  context. Here a finite \<open>Decimal\<close> is kept with its representation, an integer coefficient and an
  exponent, since precision is chosen from the widths of the operands. A negative zero is not told
  apart from zero. The functions of the module have the suffix \<open>_decimal\<close>.
\<close>

section \<open>Decimals with their representation\<close>

datatype decimal = Dec (dec_coefficient: int) (dec_exponent: int)

fun dec_value :: "decimal \<Rightarrow> rat" where
  "dec_value (Dec c e) = of_int c * 10 powi e"

text \<open>\<open>len(value.as_tuple().digits)\<close> and \<open>value.adjusted()\<close>.\<close>

definition dec_width :: "decimal \<Rightarrow> nat" where
  "dec_width d = ndigits (nat \<bar>dec_coefficient d\<bar>)"

definition dec_adjusted :: "decimal \<Rightarrow> int" where
  "dec_adjusted d = dec_exponent d + int (dec_width d) - 1"

definition dec_negate :: "decimal \<Rightarrow> decimal" where
  "dec_negate d = Dec (- dec_coefficient d) (dec_exponent d)"

abbreviation dec_zero :: decimal where
  "dec_zero \<equiv> Dec 0 0"

section \<open>Operations under a context\<close>

text \<open>
  The results of the library under a context of precision \<open>p\<close> with \<open>ROUND_HALF_EVEN\<close>: the exact
  coefficient at the exponent of the specification, rounded to \<open>p\<close> digits when it is longer.
\<close>

definition dec_fix :: "nat \<Rightarrow> decimal \<Rightarrow> decimal" where
  "dec_fix p d =
     (if dec_width d \<le> p then d
      else let k = dec_width d - p; q = round_half_even (of_int (dec_coefficient d) / 10 ^ k)
      in if ndigits (nat \<bar>q\<bar>) \<le> p then Dec q (dec_exponent d + int k)
         else Dec (q div 10) (dec_exponent d + int k + 1))"

definition ctx_add :: "nat \<Rightarrow> decimal \<Rightarrow> decimal \<Rightarrow> decimal" where
  "ctx_add p l r =
     (let e = min (dec_exponent l) (dec_exponent r)
      in dec_fix p (Dec (dec_coefficient l * 10 ^ nat (dec_exponent l - e)
                       + dec_coefficient r * 10 ^ nat (dec_exponent r - e)) e))"

definition ctx_multiply :: "nat \<Rightarrow> decimal \<Rightarrow> decimal \<Rightarrow> decimal" where
  "ctx_multiply p l r =
     dec_fix p (Dec (dec_coefficient l * dec_coefficient r) (dec_exponent l + dec_exponent r))"

text \<open>Drop trailing zeros of an exact quotient until the exponent reaches the ideal one.\<close>

fun strip_to :: "nat \<Rightarrow> int \<Rightarrow> decimal \<Rightarrow> decimal" where
  "strip_to 0 ideal d = d"
| "strip_to (Suc n) ideal (Dec c e) =
     (if e < ideal \<and> c mod 10 = 0 then strip_to n ideal (Dec (c div 10) (e + 1)) else Dec c e)"

text \<open>A quotient and the \<open>Inexact\<close> signal; the divisor is not zero.\<close>

definition ctx_divide :: "nat \<Rightarrow> decimal \<Rightarrow> decimal \<Rightarrow> decimal \<times> bool" where
  "ctx_divide p l r =
     (let q = dec_value l / dec_value r; ideal = dec_exponent l - dec_exponent r
      in if q = 0 then (Dec 0 ideal, False)
         else let e = adjusted q - int p + 1; y = q / quantum p q
         in if of_int \<lfloor>y\<rfloor> = y then (strip_to (p - 1) ideal (Dec \<lfloor>y\<rfloor> e), False)
            else (dec_fix p (Dec (round_half_even y) e), True))"

section \<open>The policy\<close>

definition division_precision :: nat where
  "division_precision = 50"

definition add_decimal :: "decimal \<Rightarrow> decimal \<Rightarrow> decimal" where
  "add_decimal left right =
     (let exponent = min (dec_exponent left) (dec_exponent right);
          precision = max (dec_adjusted left) (dec_adjusted right) - exponent + 3
      in ctx_add (nat (max precision 1)) left right)"

definition subtract_decimal :: "decimal \<Rightarrow> decimal \<Rightarrow> decimal" where
  "subtract_decimal left right = add_decimal left (dec_negate right)"

definition multiply_decimal :: "decimal \<Rightarrow> decimal \<Rightarrow> decimal" where
  "multiply_decimal left right = ctx_multiply (dec_width left + dec_width right + 1) left right"

definition exact_precision :: "decimal \<Rightarrow> decimal \<Rightarrow> nat" where
  "exact_precision left right =
     4 * (dec_width left + dec_width right + nat \<bar>dec_exponent left - dec_exponent right\<bar>) + 10"

definition divide_decimal :: "decimal \<Rightarrow> decimal \<Rightarrow> decimal result" where
  "divide_decimal left right =
     (if dec_coefficient right = 0
      then Inl (DecimalSignal (if dec_coefficient left = 0 then ''InvalidOperation'' else ''DivisionByZero''))
      else case ctx_divide (exact_precision left right) left right of
        (d, False) \<Rightarrow> Inr d
      | (_, True) \<Rightarrow> Inr (fst (ctx_divide division_precision left right)))"

section \<open>Canonical text\<close>

text \<open>\<open>format(value, 'f')\<close> of a value that is not zero, and \<open>str.rstrip\<close>.\<close>

definition plain_text :: "decimal \<Rightarrow> string" where
  "plain_text d =
     (let n = nat \<bar>dec_coefficient d\<bar>; sign = (if dec_coefficient d < 0 then ''-'' else [])
      in if 0 \<le> dec_exponent d then sign @ nat_text (n * 10 ^ nat (dec_exponent d))
         else let k = nat (- dec_exponent d)
         in sign @ nat_text (n div 10 ^ k) @ ''.'' @ padded_text k (n mod 10 ^ k))"

definition rstrip :: "char \<Rightarrow> string \<Rightarrow> string" where
  "rstrip c s = rev (dropWhile (\<lambda>x. x = c) (rev s))"

definition decimal_text :: "decimal \<Rightarrow> string" where
  "decimal_text value =
     (if dec_coefficient value = 0 then ''0''
      else let encoded = plain_text value
      in if CHR ''.'' \<in> set encoded then rstrip CHR ''.'' (rstrip CHR ''0'' encoded) else encoded)"

section \<open>Values of the context operations\<close>

lemma abs_dec_value: "\<bar>dec_value d\<bar> = of_int \<bar>dec_coefficient d\<bar> * 10 powi dec_exponent d"
  by (cases d) (simp add: abs_mult)

lemma dec_value_zero_iff [simp]: "dec_value d = 0 \<longleftrightarrow> dec_coefficient d = 0"
  by (cases d) simp

lemma width_bounds:
  assumes "dec_coefficient d \<noteq> 0"
  shows "10 ^ (dec_width d - 1) \<le> \<bar>dec_coefficient d\<bar>" "\<bar>dec_coefficient d\<bar> < 10 ^ dec_width d"
proof -
  let ?n = "nat \<bar>dec_coefficient d\<bar>"
  have "10 ^ (ndigits ?n - 1) \<le> ?n" using assms by (intro ndigits_lower) simp
  then have "int (10 ^ (ndigits ?n - 1)) \<le> int ?n" by (simp only: of_nat_le_iff)
  then show "10 ^ (dec_width d - 1) \<le> \<bar>dec_coefficient d\<bar>" by (simp add: dec_width_def)
  have "int ?n < int (10 ^ ndigits ?n)" using ndigits_upper by (simp only: of_nat_less_iff)
  then show "\<bar>dec_coefficient d\<bar> < 10 ^ dec_width d" by (simp add: dec_width_def)
qed

lemma width_upper: "\<bar>dec_coefficient d\<bar> < 10 ^ dec_width d"
  by (cases "dec_coefficient d = 0") (simp_all add: width_bounds)

lemma width_le_iff: "0 < p \<Longrightarrow> dec_width d \<le> p \<longleftrightarrow> \<bar>dec_coefficient d\<bar> < 10 ^ p"
proof -
  assume "0 < p"
  then have "dec_width d \<le> p \<longleftrightarrow> nat \<bar>dec_coefficient d\<bar> < 10 ^ p"
    unfolding dec_width_def by (rule ndigits_le_iff)
  also have "\<dots> \<longleftrightarrow> int (nat \<bar>dec_coefficient d\<bar>) < int (10 ^ p)" by (simp only: of_nat_less_iff)
  finally show ?thesis by simp
qed

lemma width_pos [simp]: "0 < dec_width d" "Suc 0 \<le> dec_width d"
  by (simp_all add: dec_width_def)

lemma adjusted_value:
  assumes "dec_coefficient d \<noteq> 0"
  shows "adjusted (dec_value d) = dec_adjusted d"
proof (rule adjusted_unique)
  have pow: "of_int (10 ^ n) * 10 powi e = (10::rat) powi (e + int n)" for n e
    by (simp only: powi_10_add powi_10_of_nat mult.commute)
  have "of_int (10 ^ (dec_width d - 1)) * 10 powi dec_exponent d \<le> \<bar>dec_value d\<bar>"
    unfolding abs_dec_value
    using width_bounds(1) [OF assms] by (intro mult_right_mono) (simp_all only: of_int_le_iff powi_10_pos less_imp_le)
  moreover have "dec_adjusted d = dec_exponent d + int (dec_width d - 1)"
    by (simp add: dec_adjusted_def of_nat_diff)
  ultimately show "10 powi dec_adjusted d \<le> \<bar>dec_value d\<bar>" by (simp only: pow)
  have "\<bar>dec_value d\<bar> < of_int (10 ^ dec_width d) * 10 powi dec_exponent d"
    unfolding abs_dec_value
    using width_bounds(2) [OF assms] by (intro mult_strict_right_mono) (simp_all only: of_int_less_iff powi_10_pos)
  moreover have "dec_adjusted d + 1 = dec_exponent d + int (dec_width d)"
    by (simp add: dec_adjusted_def)
  ultimately show "\<bar>dec_value d\<bar> < 10 powi (dec_adjusted d + 1)" by (simp only: pow)
qed

lemma value_quotient_quantum:
  assumes "dec_coefficient d \<noteq> 0" "p \<le> dec_width d"
  shows "dec_value d / quantum p (dec_value d)
     = of_int (dec_coefficient d) / 10 ^ (dec_width d - p)"
    and "quantum p (dec_value d) = 10 powi (dec_exponent d + int (dec_width d - p))"
proof -
  have "adjusted (dec_value d) - int p + 1 = dec_exponent d + int (dec_width d - p)"
    using assms(2) by (simp add: adjusted_value [OF assms(1)] dec_adjusted_def of_nat_diff)
  then show q: "quantum p (dec_value d) = 10 powi (dec_exponent d + int (dec_width d - p))"
    by (simp only: quantum_def)
  have "dec_value d = of_int (dec_coefficient d) * 10 powi dec_exponent d" by (cases d) simp
  then show "dec_value d / quantum p (dec_value d)
     = of_int (dec_coefficient d) / 10 ^ (dec_width d - p)"
    unfolding q powi_10_add by simp
qed

text \<open>Rounding a representation is rounding its value.\<close>

lemma dec_fix_value:
  assumes "0 < p"
  shows "dec_value (dec_fix p d) = round_sig p (dec_value d)"
proof (cases "dec_width d \<le> p")
  case True
  then have "\<bar>dec_coefficient d\<bar> < 10 ^ p" using assms by (simp add: width_le_iff)
  then have "fits p (dec_value d)" unfolding fits_def by (metis dec_value.simps decimal.collapse)
  with True show ?thesis by (simp add: dec_fix_def round_sig_fits)
next
  case False
  then have nz: "dec_coefficient d \<noteq> 0" using assms by (auto simp: dec_width_def ndigits.simps)
  define k where "k = dec_width d - p"
  define q where "q = round_half_even (of_int (dec_coefficient d) / 10 ^ k)"
  have y: "dec_value d / quantum p (dec_value d) = of_int (dec_coefficient d) / 10 ^ k"
    "quantum p (dec_value d) = 10 powi (dec_exponent d + int k)"
    using value_quotient_quantum [OF nz, of p] False by (simp_all add: k_def)
  have r: "round_sig p (dec_value d) = of_int q * 10 powi (dec_exponent d + int k)"
    using nz unfolding round_sig_def y(1) by (simp add: y(2) q_def)
  have fix_eq: "dec_fix p d = (if ndigits (nat \<bar>q\<bar>) \<le> p then Dec q (dec_exponent d + int k)
      else Dec (q div 10) (dec_exponent d + int k + 1))"
    using False by (simp add: dec_fix_def Let_def k_def q_def)
  show ?thesis
  proof (cases "ndigits (nat \<bar>q\<bar>) \<le> p")
    case True
    then show ?thesis by (simp add: fix_eq r)
  next
    case wide: False
    have "\<bar>of_int (dec_coefficient d) / 10 ^ k\<bar> < (of_int (10 ^ p) :: rat)"
      using scaled_bounds [of "dec_value d" p] nz assms y(1) by simp
    then have "of_int (dec_coefficient d) / 10 ^ k \<le> (of_int (10 ^ p) :: rat)"
      "(of_int (- (10 ^ p)) :: rat) \<le> of_int (dec_coefficient d) / 10 ^ k"
      unfolding abs_less_iff of_int_minus by linarith+
    then have "\<bar>q\<bar> \<le> 10 ^ p"
      unfolding q_def using round_half_even_le round_half_even_ge by (metis abs_le_iff minus_le_iff)
    moreover have "\<not> \<bar>q\<bar> < 10 ^ p"
      using wide width_le_iff [OF assms, of "Dec q 0"] by (simp add: dec_width_def)
    ultimately have "\<bar>q\<bar> = 10 ^ p" by simp
    then have "q = 10 ^ p \<or> q = - (10 ^ p)" by linarith
    moreover have "(10::int) dvd 10 ^ p" using assms by (simp add: dvd_power)
    ultimately have "10 dvd q" by auto
    then have q10: "of_int (q div 10) * 10 = (of_int q :: rat)"
      by (metis dvd_div_mult_self of_int_mult of_int_numeral)
    have "of_int (q div 10) * (10::rat) powi (dec_exponent d + int k + 1)
        = of_int (q div 10) * 10 * 10 powi (dec_exponent d + int k)"
      unfolding powi_10_add [of "dec_exponent d + int k" 1] by simp
    with wide show ?thesis by (simp add: fix_eq r q10)
  qed
qed

section \<open>Sums and products are exact\<close>

lemma dec_fix_id: "dec_width d \<le> p \<Longrightarrow> dec_fix p d = d"
  by (simp add: dec_fix_def)

lemma dec_value_shift:
  "e \<le> dec_exponent d \<Longrightarrow>
     dec_value (Dec (dec_coefficient d * 10 ^ nat (dec_exponent d - e)) e) = dec_value d"
  using of_int_powi_split [of e "dec_exponent d" "dec_coefficient d"]
  by (cases d) (simp only: dec_value.simps decimal.sel)

lemma aligned_bound:
  assumes "e \<le> dec_exponent d" "dec_adjusted d \<le> a"
  shows "\<bar>dec_coefficient d * 10 ^ nat (dec_exponent d - e)\<bar> < 10 ^ nat (a - e + 1)"
proof -
  have "dec_width d + nat (dec_exponent d - e) \<le> nat (a - e + 1)"
    using assms unfolding dec_adjusted_def by linarith
  then have "(10::int) ^ (dec_width d + nat (dec_exponent d - e)) \<le> 10 ^ nat (a - e + 1)"
    by (rule power_increasing) simp
  moreover have "\<bar>dec_coefficient d\<bar> * 10 ^ nat (dec_exponent d - e)
      < 10 ^ dec_width d * 10 ^ nat (dec_exponent d - e)"
    using width_upper [of d] by (intro mult_strict_right_mono) simp_all
  moreover have "\<bar>dec_coefficient d * 10 ^ nat (dec_exponent d - e)\<bar>
      = \<bar>dec_coefficient d\<bar> * 10 ^ nat (dec_exponent d - e)" by (simp add: abs_mult)
  ultimately show ?thesis unfolding power_add by linarith
qed

lemma add_decimal_eq:
  "add_decimal l r =
     (let e = min (dec_exponent l) (dec_exponent r)
      in Dec (dec_coefficient l * 10 ^ nat (dec_exponent l - e)
            + dec_coefficient r * 10 ^ nat (dec_exponent r - e)) e)"
proof -
  define e where "e = min (dec_exponent l) (dec_exponent r)"
  define a where "a = max (dec_adjusted l) (dec_adjusted r)"
  define s where "s = dec_coefficient l * 10 ^ nat (dec_exponent l - e)
            + dec_coefficient r * 10 ^ nat (dec_exponent r - e)"
  have "e \<le> dec_adjusted l"
    using width_pos(2) [of l] unfolding dec_adjusted_def e_def by linarith
  then have p: "nat (max (a - e + 3) 1) = Suc (Suc (nat (a - e + 1)))"
    unfolding a_def by linarith
  have "\<bar>s\<bar> < 10 ^ nat (a - e + 1) + 10 ^ nat (a - e + 1)"
    using aligned_bound [of e l a] aligned_bound [of e r a] unfolding s_def
    by (intro order_le_less_trans [OF abs_triangle_ineq] add_strict_mono) (simp_all add: e_def a_def)
  then have "\<bar>s\<bar> < 10 ^ nat (max (a - e + 3) 1)" unfolding p by simp
  then have "dec_width (Dec s e) \<le> nat (max (a - e + 3) 1)" by (subst width_le_iff) simp_all
  then show ?thesis
    by (simp add: add_decimal_def ctx_add_def Let_def dec_fix_id flip: e_def a_def s_def)
qed

lemma add_decimal_value: "dec_value (add_decimal l r) = dec_value l + dec_value r"
  using dec_value_shift [of "min (dec_exponent l) (dec_exponent r)" l]
    dec_value_shift [of "min (dec_exponent l) (dec_exponent r)" r]
  by (simp add: add_decimal_eq Let_def ring_distribs)

lemma dec_negate_value [simp]: "dec_value (dec_negate d) = - dec_value d"
  by (cases d) (simp add: dec_negate_def)

lemma subtract_decimal_value: "dec_value (subtract_decimal l r) = dec_value l - dec_value r"
  by (simp add: subtract_decimal_def add_decimal_value)

lemma multiply_decimal_eq:
  "multiply_decimal l r =
     Dec (dec_coefficient l * dec_coefficient r) (dec_exponent l + dec_exponent r)"
proof -
  have "\<bar>dec_coefficient l * dec_coefficient r\<bar> < 10 ^ dec_width l * 10 ^ dec_width r"
    unfolding abs_mult using width_upper by (intro mult_strict_mono) simp_all
  also have "\<dots> \<le> 10 ^ (dec_width l + dec_width r + 1)" by (simp add: power_add)
  finally have "dec_width (Dec (dec_coefficient l * dec_coefficient r) (dec_exponent l + dec_exponent r))
      \<le> dec_width l + dec_width r + 1"
    by (subst width_le_iff) simp_all
  then show ?thesis by (simp add: multiply_decimal_def ctx_multiply_def dec_fix_id)
qed

lemma multiply_decimal_value: "dec_value (multiply_decimal l r) = dec_value l * dec_value r"
  by (cases l; cases r) (simp add: multiply_decimal_eq powi_10_add)

section \<open>Division\<close>

definition terminating :: "rat \<Rightarrow> bool" where
  "terminating x \<longleftrightarrow> (\<exists>c n. x = of_int c / 10 ^ n)"

text \<open>A divisor of a power of ten divides the power given by its own size.\<close>

lemma factor_ten: "g \<noteq> 1 \<Longrightarrow> g dvd 10 \<Longrightarrow> 2 dvd g \<or> 5 dvd g" for g :: nat
proof -
  assume g: "g \<noteq> 1" "g dvd 10"
  then have "g \<le> 10" by (intro dvd_imp_le) simp_all
  then have "g = 0 \<or> g = 1 \<or> g = 2 \<or> g = 3 \<or> g = 4 \<or> g = 5 \<or> g = 6 \<or> g = 7 \<or> g = 8 \<or> g = 9 \<or> g = 10"
    by presburger
  with g show ?thesis by auto
qed

lemma dvd_power_ten:
  fixes d :: nat
  assumes "0 < d" "d dvd 10 ^ m" "d < 2 ^ n"
  shows "d dvd 10 ^ n"
  using assms
proof (induction n arbitrary: d)
  case (Suc n)
  show ?case
  proof (cases "d = 1")
    case False
    have "gcd d 10 \<noteq> 1"
    proof
      assume "gcd d 10 = 1"
      then have "coprime d 10" by (simp add: coprime_iff_gcd_eq_1)
      then have "coprime d (10 ^ m)" by simp
      then have "is_unit d" using Suc.prems(2) by (rule coprime_common_divisor [OF _ dvd_refl])
      with False show False by simp
    qed
    moreover have "gcd d 10 dvd 10" by simp
    ultimately have "2 dvd gcd d 10 \<or> 5 dvd gcd d 10" by (rule factor_ten)
    then have "2 dvd d \<or> 5 dvd d" using gcd_dvd1 dvd_trans by blast
    then obtain s where s: "s \<in> {2, 5}" "s dvd d" by auto
    then obtain d' where d': "d = s * d'" by blast
    have "d' dvd 10 ^ m" using Suc.prems(2) d' by (metis dvd_mult_right)
    moreover have "0 < d'" "d' < 2 ^ n" using Suc.prems(1,3) d' s(1) by auto
    ultimately have "d' dvd 10 ^ n" using Suc.IH by blast
    moreover have "s dvd 10" using s(1) by auto
    ultimately show ?thesis unfolding d' by (simp add: mult_dvd_mono)
  qed simp
qed simp

lemma terminating_scale: "terminating x \<Longrightarrow> terminating (x * 10 powi e)"
proof -
  assume "terminating x"
  then obtain c n where x: "x = of_int c / 10 ^ n" unfolding terminating_def by blast
  show ?thesis
  proof (cases "0 \<le> e")
    case True
    then have "x * 10 powi e = of_int (c * 10 ^ nat e) / 10 ^ n" by (simp add: x power_int_def)
    then show ?thesis unfolding terminating_def by blast
  next
    case False
    then have "x * 10 powi e = of_int c / 10 ^ (n + nat (- e))"
      by (simp add: x power_int_def power_add field_simps)
    then show ?thesis unfolding terminating_def by blast
  qed
qed

lemma terminating_fraction:
  fixes a b :: int
  assumes "b \<noteq> 0" "terminating (of_int a / of_int b)" "\<bar>b\<bar> < 2 ^ n"
  shows "\<exists>k. of_int a / of_int b = (of_int k / 10 ^ n :: rat)"
proof -
  obtain c m where "of_int a / of_int b = (of_int c / 10 ^ m :: rat)"
    using assms(2) unfolding terminating_def by blast
  then have "(of_int (a * 10 ^ m) :: rat) = of_int (c * b)"
    using assms(1) by (simp add: field_simps)
  then have eq: "a * 10 ^ m = c * b" by (simp only: of_int_eq_iff)
  define g where "g = gcd a b"
  have g: "g \<noteq> 0" using assms(1) by (simp add: g_def)
  obtain a' b' where ab: "a = g * a'" "b = g * b'" "coprime a' b'"
    using gcd_coprime_exists [of a b] assms(1) unfolding g_def by (metis gcd_eq_0_iff mult.commute)
  have "a' * 10 ^ m = c * b'" using eq g unfolding ab by simp
  then have "b' dvd a' * 10 ^ m" by simp
  then have "b' dvd 10 ^ m" using ab(3) by (simp add: coprime_commute coprime_dvd_mult_right_iff)
  then have "nat \<bar>b'\<bar> dvd 10 ^ m" by (simp add: nat_abs_dvd_iff)
  moreover have "b' \<noteq> 0" using ab(2) assms(1) by auto
  moreover have "\<bar>b'\<bar> \<le> \<bar>b\<bar>" using ab(2) assms(1) by (intro dvd_imp_le_int) auto
  then have "nat \<bar>b'\<bar> < 2 ^ n" using assms(3) by (simp add: nat_less_iff)
  ultimately have "nat \<bar>b'\<bar> dvd 10 ^ n" using dvd_power_ten [of "nat \<bar>b'\<bar>" m n] by simp
  then have "b' dvd 10 ^ n" by (simp add: nat_abs_dvd_iff)
  then obtain k where k: "10 ^ n = b' * k" ..
  have "k \<noteq> 0"
  proof
    assume "k = 0"
    with k have "(10::int) ^ n = 0" by simp
    then show False by simp
  qed
  then have "(of_int (a' * k) / of_int (b' * k) :: rat) = of_int a' / of_int b'" by simp
  moreover have "(of_int a / of_int b :: rat) = of_int a' / of_int b'" using g by (simp add: ab)
  ultimately have "of_int a / of_int b = (of_int (a' * k) / of_int (b' * k) :: rat)" by simp
  then show ?thesis unfolding k [symmetric] by (metis of_int_numeral of_int_power)
qed

lemma terminating_quotient_fits:
  assumes "dec_coefficient r \<noteq> 0" "terminating (dec_value l / dec_value r)"
  shows "fits (exact_precision l r) (dec_value l / dec_value r)"
proof -
  let ?a = "dec_coefficient l" and ?b = "dec_coefficient r" and ?n = "4 * dec_width r"
  let ?e = "dec_exponent l - dec_exponent r"
  have q: "dec_value l / dec_value r = of_int ?a / of_int ?b * 10 powi ?e"
    by (cases l; cases r) (simp add: power_int_diff)
  have "of_int ?a / of_int ?b = dec_value l / dec_value r * 10 powi (- ?e)"
    unfolding q mult.assoc powi_10_add [symmetric] by simp
  then have "terminating (of_int ?a / of_int ?b)" using terminating_scale [OF assms(2)] by metis
  moreover have "\<bar>?b\<bar> < 2 ^ ?n"
  proof -
    have "(10::int) ^ dec_width r \<le> 16 ^ dec_width r" by (rule power_mono) simp_all
    also have "\<dots> = 2 ^ ?n" by (simp add: power_mult)
    finally show ?thesis using width_upper [of r] by linarith
  qed
  ultimately obtain k where k: "of_int ?a / of_int ?b = (of_int k / 10 ^ ?n :: rat)"
    using terminating_fraction assms(1) by blast
  then have "(of_int (k * ?b) :: rat) = of_int (?a * 10 ^ ?n)" using assms(1) by (simp add: field_simps)
  then have "k * ?b = ?a * 10 ^ ?n" by (simp only: of_int_eq_iff)
  then have "\<bar>k\<bar> * \<bar>?b\<bar> = \<bar>?a\<bar> * 10 ^ ?n" by (metis abs_mult power_abs abs_numeral)
  moreover have "\<bar>k\<bar> * 1 \<le> \<bar>k\<bar> * \<bar>?b\<bar>" using assms(1) by (intro mult_left_mono) auto
  moreover have "\<bar>?a\<bar> * 10 ^ ?n < 10 ^ dec_width l * 10 ^ ?n"
    using width_upper [of l] by (intro mult_strict_right_mono) simp_all
  ultimately have "\<bar>k\<bar> < 10 ^ (dec_width l + ?n)" unfolding power_add by linarith
  moreover have "of_int ?a / of_int ?b * 10 powi ?e = (of_int k * 10 powi (?e - int ?n) :: rat)"
  proof -
    have "(10::rat) \<noteq> 0 \<or> ?e \<noteq> int ?n" by simp
    then have "(10::rat) powi (?e - int ?n) = 10 powi ?e / 10 ^ ?n"
      by (simp only: power_int_diff power_int_of_nat)
    then show ?thesis unfolding k by (simp only: times_divide_eq_left times_divide_eq_right)
  qed
  ultimately have "fits (dec_width l + ?n) (dec_value l / dec_value r)"
    unfolding fits_def q by blast
  then show ?thesis by (rule fits_mono) (simp add: exact_precision_def)
qed

lemma fits_iff_integral:
  assumes "x \<noteq> 0" "0 < p"
  shows "fits p x \<longleftrightarrow> of_int \<lfloor>x / quantum p x\<rfloor> = x / quantum p x"
proof
  assume "fits p x"
  then have "x = of_int (round_half_even (x / quantum p x)) * quantum p x"
    using assms(1) round_sig_fits [of p x] by (simp add: round_sig_def)
  then have "x / quantum p x = of_int (round_half_even (x / quantum p x))"
    by (metis nonzero_mult_div_cancel_right quantum_nonzero)
  then show "of_int \<lfloor>x / quantum p x\<rfloor> = x / quantum p x" by (metis floor_of_int)
next
  assume y: "of_int \<lfloor>x / quantum p x\<rfloor> = x / quantum p x"
  have "x = x / quantum p x * quantum p x" by simp
  then have "x = of_int \<lfloor>x / quantum p x\<rfloor> * 10 powi (adjusted x - int p + 1)"
    unfolding y by (simp only: quantum_def)
  moreover have "(of_int \<bar>\<lfloor>x / quantum p x\<rfloor>\<bar> :: rat) < of_int (10 ^ p)"
    using scaled_bounds [OF assms] y by (metis of_int_abs)
  then have "\<bar>\<lfloor>x / quantum p x\<rfloor>\<bar> < 10 ^ p" by (simp only: of_int_less_iff)
  ultimately show "fits p x" unfolding fits_def by blast
qed

lemma strip_to_value [simp]: "dec_value (strip_to n ideal d) = dec_value d"
proof (induction n ideal d rule: strip_to.induct)
  case (2 n ideal c e)
  have "of_int (c div 10) * (10::rat) powi (e + 1) = of_int c * 10 powi e" if "c mod 10 = 0"
  proof -
    have "of_int (c div 10) * 10 = (of_int c :: rat)"
      using that by (metis dvd_div_mult_self mod_0_imp_dvd of_int_mult of_int_numeral)
    then show ?thesis unfolding powi_10_add by simp
  qed
  with 2 show ?case by auto
qed simp

lemma ctx_divide_value:
  assumes "dec_coefficient r \<noteq> 0" "0 < p"
  shows "dec_value (fst (ctx_divide p l r)) = round_sig p (dec_value l / dec_value r)"
    and "snd (ctx_divide p l r) \<longleftrightarrow> \<not> fits p (dec_value l / dec_value r)"
proof -
  define q where "q = dec_value l / dec_value r"
  show "dec_value (fst (ctx_divide p l r)) = round_sig p (dec_value l / dec_value r)"
  proof (cases "q = 0 \<or> fits p q")
    case True
    have "of_int \<lfloor>q / quantum p q\<rfloor> * quantum p q = q" if "q \<noteq> 0"
    proof -
      have "of_int \<lfloor>q / quantum p q\<rfloor> = q / quantum p q"
        using that True fits_iff_integral [OF that assms(2)] by blast
      then show ?thesis by (simp only:) simp
    qed
    with True show ?thesis
      using fits_iff_integral [OF _ assms(2), of q]
      by (auto simp: ctx_divide_def Let_def quantum_def round_sig_fits simp flip: q_def)
  next
    case False
    then have "dec_value (Dec (round_half_even (q / quantum p q)) (adjusted q - int p + 1))
        = round_sig p q" by (simp add: round_sig_def quantum_def)
    with False show ?thesis
      using fits_iff_integral [OF _ assms(2), of q] assms(2)
      by (simp add: ctx_divide_def Let_def dec_fix_value del: dec_value.simps flip: q_def)
  qed
  show "snd (ctx_divide p l r) \<longleftrightarrow> \<not> fits p (dec_value l / dec_value r)"
    using fits_iff_integral [OF _ assms(2), of q]
    by (cases "q = 0") (simp_all add: ctx_divide_def Let_def flip: q_def)
qed

lemma division_precision_pos [simp]: "0 < division_precision" "0 < exact_precision l r"
  by (simp_all add: division_precision_def exact_precision_def)

lemma fits_terminating: "fits p x \<Longrightarrow> terminating x"
proof -
  assume "fits p x"
  then obtain c e where "x = of_int c / 10 ^ 0 * 10 powi e" unfolding fits_def by auto
  moreover have "terminating (of_int c / 10 ^ 0)" unfolding terminating_def by blast
  ultimately show "terminating x" using terminating_scale by metis
qed

lemma divide_decimal_value:
  assumes "dec_coefficient r \<noteq> 0"
  shows "\<exists>d. divide_decimal l r = Inr d \<and> dec_value d
    = (if terminating (dec_value l / dec_value r) then dec_value l / dec_value r
       else round_sig division_precision (dec_value l / dec_value r))"
proof (cases "terminating (dec_value l / dec_value r)")
  case True
  note fit = terminating_quotient_fits [OF assms True]
  obtain d where "ctx_divide (exact_precision l r) l r = (d, False)"
    using ctx_divide_value(2) [OF assms, of "exact_precision l r" l] fit
    by (metis (full_types) division_precision_pos(2) prod.collapse)
  moreover from this have "dec_value d = dec_value l / dec_value r"
    using ctx_divide_value(1) [OF assms, of "exact_precision l r" l] fit by (simp add: round_sig_fits)
  ultimately show ?thesis using assms True by (simp add: divide_decimal_def)
next
  case False
  then have "\<not> fits (exact_precision l r) (dec_value l / dec_value r)" using fits_terminating by blast
  then obtain d where "ctx_divide (exact_precision l r) l r = (d, True)"
    using ctx_divide_value(2) [OF assms, of "exact_precision l r" l]
    by (metis (full_types) division_precision_pos(2) prod.collapse)
  then show ?thesis
    using assms False ctx_divide_value(1) [OF assms, of division_precision l]
    by (simp add: divide_decimal_def)
qed

text \<open>
  The arithmetic of the ledger is exact: the precision chosen from the operands always holds the whole
  sum, difference and product, so no cent is ever lost to rounding.
\<close>

theorem ledger_arithmetic_exact:
  "dec_value (add_decimal l r) = dec_value l + dec_value r
   \<and> dec_value (subtract_decimal l r) = dec_value l - dec_value r
   \<and> dec_value (multiply_decimal l r) = dec_value l * dec_value r"
  by (simp add: add_decimal_value subtract_decimal_value multiply_decimal_value)

text \<open>
  C22: Division is exact whenever it can be. For every nonzero divisor the quotient is exact if it has a
  finite decimal expansion, however long: the digit bound the code computes is always enough. Otherwise
  it is the quotient rounded half to even to 50 significant digits, and the result depends on the
  values only, never on how the operands are written.
\<close>

theorem ledger_division:
  assumes "dec_value r \<noteq> 0"
  shows "\<exists>d. divide_decimal l r = Inr d \<and> dec_value d
    = (if terminating (dec_value l / dec_value r) then dec_value l / dec_value r
       else round_sig 50 (dec_value l / dec_value r))"
  by (rule divide_decimal_value [unfolded division_precision_def]) (use assms in simp)

theorem ledger_division_witness:
  "\<exists>d. divide_decimal (Dec 1 0) (Dec 8 0) = Inr d \<and> dec_value d = 1 / 8"
proof -
  have "dec_value (Dec 8 0) \<noteq> 0" by simp
  from ledger_division [OF this, of "Dec 1 0"]
  obtain d where d: "divide_decimal (Dec 1 0) (Dec 8 0) = Inr d" "dec_value d
    = (if terminating (1 / 8) then 1 / 8 else round_sig 50 (1 / 8))" by auto
  have "(1 / 8 :: rat) = of_int 125 / 10 ^ 3" by simp
  then have "terminating (1 / 8)" unfolding terminating_def by blast
  with d show ?thesis by simp
qed

section \<open>The canonical text determines the value\<close>

text \<open>\<open>Decimal(text)\<close> for a text in plain notation.\<close>

definition read_decimal :: "string \<Rightarrow> decimal" where
  "read_decimal s =
     (let negative = (s \<noteq> [] \<and> hd s = CHR ''-''); t = (if negative then tl s else s);
          whole = takeWhile (\<lambda>c. c \<noteq> CHR ''.'') t; fraction = drop (length whole + 1) t;
          n = int (read_nat (whole @ fraction))
      in Dec (if negative then - n else n) (- int (length fraction)))"

lemma rstrip_simps [simp]:
  "rstrip c [] = []"
  "rstrip c (s @ [x]) = (if x = c then rstrip c s else s @ [x])"
  by (simp_all add: rstrip_def)

lemma rstrip_suffix: "\<exists>m. s = rstrip c s @ replicate m c"
proof (induction s rule: rev_induct)
  case (snoc x s)
  then obtain m where m: "s = rstrip c s @ replicate m c" by blast
  show ?case
  proof (cases "x = c")
    case True
    have "s @ [c] = rstrip c s @ replicate (Suc m) c"
      by (subst m) (simp add: replicate_append_same)
    moreover have "rstrip c (s @ [x]) = rstrip c s" using True by simp
    ultimately have "s @ [x] = rstrip c (s @ [x]) @ replicate (Suc m) c" using True by metis
    then show ?thesis by (rule exI)
  qed (auto intro: exI [of _ 0])
qed simp

lemma rstrip_past: "x \<noteq> c \<Longrightarrow> rstrip c (s @ x # t) = s @ x # rstrip c t"
proof (induction t rule: rev_induct)
  case Nil
  then show ?case using rstrip_simps(2) [of c s x] by simp
next
  case (snoc y t)
  then show ?case using rstrip_simps(2) [of c "s @ x # t" y] by simp
qed

lemma rstrip_absent: "c \<notin> set s \<Longrightarrow> rstrip c s = s"
  by (induction s rule: rev_induct) auto

text \<open>The shape of the text.\<close>

definition whole_text :: "int \<Rightarrow> nat \<Rightarrow> string" where
  "whole_text c n = (if c < 0 then ''-'' else []) @ nat_text n"

lemma decimal_text_shape:
  assumes "c \<noteq> 0"
  shows "decimal_text (Dec c e) =
    (if 0 \<le> e then whole_text c (nat \<bar>c\<bar> * 10 ^ nat e)
     else let k = nat (- e); f = rstrip CHR ''0'' (padded_text k (nat \<bar>c\<bar> mod 10 ^ k))
          in whole_text c (nat \<bar>c\<bar> div 10 ^ k) @ (if f = [] then [] else CHR ''.'' # f))"
proof (cases "0 \<le> e")
  case True
  have "CHR ''.'' \<notin> set (nat_text n)" for n
    using digits_text_nat_text [of n] by (auto simp: digits_text_def)
  with True assms show ?thesis by (simp add: decimal_text_def plain_text_def whole_text_def)
next
  case False
  define k where "k = nat (- e)"
  define w where "w = whole_text c (nat \<bar>c\<bar> div 10 ^ k)"
  define f where "f = rstrip CHR ''0'' (padded_text k (nat \<bar>c\<bar> mod 10 ^ k))"
  have plain: "plain_text (Dec c e) = w @ CHR ''.'' # padded_text k (nat \<bar>c\<bar> mod 10 ^ k)"
    using False by (simp add: plain_text_def Let_def k_def w_def whole_text_def)
  have "rstrip CHR ''.'' (w @ CHR ''.'' # f) = w @ (if f = [] then [] else CHR ''.'' # f)"
  proof (cases "f = []")
    case True
    have "CHR ''.'' \<notin> set w"
      using digits_text_nat_text by (auto simp: w_def whole_text_def digits_text_def)
    with True show ?thesis using rstrip_simps(2) [of "CHR ''.''" w "CHR ''.''"] by (simp add: rstrip_absent)
  next
    case False
    obtain m where "padded_text k (nat \<bar>c\<bar> mod 10 ^ k) = f @ replicate m CHR ''0''"
      unfolding f_def using rstrip_suffix by blast
    then have "CHR ''.'' \<notin> set f"
      using digits_text_padded [of k "nat \<bar>c\<bar> mod 10 ^ k"] by (auto simp: digits_text_def)
    then have "last f \<noteq> CHR ''.''" using False last_in_set by metis
    then show ?thesis
      using False rstrip_simps(2) [of "CHR ''.''" "w @ CHR ''.'' # butlast f" "last f"] by simp
  qed
  then show ?thesis
    using False assms plain
    by (simp add: decimal_text_def Let_def rstrip_past flip: k_def w_def f_def)
qed

section \<open>Round trip of the text\<close>

lemma read_decimal_shape:
  assumes "c \<noteq> 0" "digits_text f"
  shows "read_decimal (whole_text c n @ (if f = [] then [] else CHR ''.'' # f))
    = Dec (sgn c * int (read_nat (nat_text n @ f))) (- int (length f))"
proof -
  have hd: "hd (nat_text n @ t) \<noteq> CHR ''-''" for t
    using digits_text_nat_text [of n] nat_text_not_Nil [of n]
    by (metis digits_text_def hd_append2 hd_in_set)
  have whole: "takeWhile (\<lambda>c. c \<noteq> CHR ''.'') (nat_text n) = nat_text n"
    using digits_text_nat_text [of n] by (simp add: digits_text_def takeWhile_eq_all_conv)
  then have "takeWhile (\<lambda>c. c \<noteq> CHR ''.'') (nat_text n @ (if f = [] then [] else CHR ''.'' # f)) = nat_text n"
    by (simp add: takeWhile_append takeWhile_eq_all_conv)
  then show ?thesis
    using hd [of "if f = [] then [] else CHR ''.'' # f"] assms(1)
    by (cases "c < 0") (simp_all add: read_decimal_def whole_text_def Let_def)
qed

lemma read_decimal_text: "dec_value (read_decimal (decimal_text (Dec c e))) = dec_value (Dec c e)"
proof (cases "c = 0")
  case True
  then show ?thesis by (simp add: decimal_text_def read_decimal_def read_nat_def)
next
  case False
  have sg: "of_int (sgn c) * of_nat (nat \<bar>c\<bar>) = (of_int c :: rat)"
    by (cases "0 \<le> c") (simp_all add: sgn_if)
  show ?thesis
  proof (cases "0 \<le> e")
    case True
    have "read_decimal (decimal_text (Dec c e)) = Dec (sgn c * int (nat \<bar>c\<bar> * 10 ^ nat e)) 0"
      using read_decimal_shape [OF False, of "[]" "nat \<bar>c\<bar> * 10 ^ nat e"] True
      by (simp add: decimal_text_shape [OF False] digits_text_def)
    moreover have "(10::rat) powi e = 10 ^ nat e" using True by (simp add: power_int_def)
    ultimately show ?thesis using sg by (simp flip: mult.assoc)
  next
    case neg: False
    define k where "k = nat (- e)"
    define n where "n = nat \<bar>c\<bar>"
    define f where "f = rstrip CHR ''0'' (padded_text k (n mod 10 ^ k))"
    obtain m where m: "padded_text k (n mod 10 ^ k) = f @ replicate m CHR ''0''"
      unfolding f_def using rstrip_suffix by blast
    have len: "length f + m = k" using arg_cong [OF m, of length] by simp
    have fd: "digits_text f" using digits_text_padded [of k "n mod 10 ^ k"] m by (auto simp: digits_text_def)
    have R: "read_nat (nat_text (n div 10 ^ k) @ f) * 10 ^ m = n"
      using read_padded [of "nat_text (n div 10 ^ k)" k "n mod 10 ^ k"] read_nat_zeros [of "nat_text (n div 10 ^ k) @ f" m]
      using div_mult_mod_eq [of n "10 ^ k"] by (simp add: m)
    have "(of_nat (read_nat (nat_text (n div 10 ^ k) @ f) * 10 ^ m) :: rat) = of_nat n"
      by (simp only: R)
    then have "(of_nat (read_nat (nat_text (n div 10 ^ k) @ f)) :: rat) = of_nat n / 10 ^ m"
      by (simp add: eq_divide_eq)
    then have "dec_value (Dec (sgn c * int (read_nat (nat_text (n div 10 ^ k) @ f))) (- int (length f)))
        = of_int (sgn c) * of_nat n / (10 ^ m * 10 ^ length f)"
      by (simp add: power_int_minus divide_inverse)
    moreover have "decimal_text (Dec c e) = whole_text c (n div 10 ^ k) @ (if f = [] then [] else CHR ''.'' # f)"
      using neg by (simp add: decimal_text_shape [OF False] Let_def flip: k_def n_def f_def)
    moreover have "(10::rat) powi e = inverse (10 ^ m * 10 ^ length f)"
      using neg unfolding power_add [symmetric] add.commute [of m] len k_def
      by (simp add: power_int_def power_one_over inverse_eq_divide)
    moreover have "of_int (sgn c) * of_nat n = (of_int c :: rat)" using sg by (simp only: n_def)
    moreover have "dec_value (Dec c e) = of_int c * 10 powi e" by simp
    ultimately show ?thesis
      using read_decimal_shape [OF False fd, of "n div 10 ^ k"] by (simp only: divide_inverse)
  qed
qed

lemma decimal_text_fraction:
  "c \<noteq> 0 \<Longrightarrow> e < 0 \<Longrightarrow> nat (- e) = k \<Longrightarrow> decimal_text (Dec c e) =
     whole_text c (nat \<bar>c\<bar> div 10 ^ k)
     @ (if rstrip CHR ''0'' (padded_text k (nat \<bar>c\<bar> mod 10 ^ k)) = [] then []
        else CHR ''.'' # rstrip CHR ''0'' (padded_text k (nat \<bar>c\<bar> mod 10 ^ k)))"
  by (simp add: decimal_text_shape Let_def)

lemma decimal_text_step:
  assumes "c \<noteq> 0"
  shows "decimal_text (Dec (c * 10) e) = decimal_text (Dec c (e + 1))"
proof -
  have n: "nat \<bar>c * 10\<bar> = 10 * nat \<bar>c\<bar>" by (simp add: abs_mult nat_mult_distrib)
  have sign: "whole_text (c * 10) = whole_text c" by (simp add: whole_text_def fun_eq_iff mult_less_0_iff)
  consider "0 \<le> e" | "e = - 1" | "e < - 1" by linarith
  then show ?thesis
  proof cases
    case 1
    then have "nat (e + 1) = Suc (nat e)" by linarith
    with 1 assms show ?thesis unfolding decimal_text_shape [OF assms]
      by (simp add: decimal_text_shape n sign mult.commute mult.left_commute)
  next
    case 2
    have "rstrip CHR ''0'' [digit_char 0] = []" using rstrip_simps(2) [of "CHR ''0''" "[]" "digit_char 0"]
      by simp
    with 2 assms show ?thesis by (simp add: decimal_text_shape n sign Let_def)
  next
    case 3
    define k where "k = nat (- e - 1)"
    have k: "nat (- e) = Suc k" "nat (- (e + 1)) = k" using 3 by (simp_all add: k_def)
    have "10 * nat \<bar>c\<bar> mod 10 ^ Suc k = 10 * (nat \<bar>c\<bar> mod 10 ^ k)" by simp
    then have pad: "padded_text (Suc k) (10 * nat \<bar>c\<bar> mod 10 ^ Suc k)
        = padded_text k (nat \<bar>c\<bar> mod 10 ^ k) @ [digit_char 0]"
      by (simp add: digit_char_def)
    have "digit_char 0 = CHR ''0''" by simp
    then have "rstrip CHR ''0'' (padded_text (Suc k) (10 * nat \<bar>c\<bar> mod 10 ^ Suc k))
        = rstrip CHR ''0'' (padded_text k (nat \<bar>c\<bar> mod 10 ^ k))"
      unfolding pad rstrip_simps by simp
    then have "decimal_text (Dec (c * 10) e)
        = whole_text c (10 * nat \<bar>c\<bar> div 10 ^ Suc k)
          @ (if rstrip CHR ''0'' (padded_text k (nat \<bar>c\<bar> mod 10 ^ k)) = [] then []
             else CHR ''.'' # rstrip CHR ''0'' (padded_text k (nat \<bar>c\<bar> mod 10 ^ k)))"
      using 3 assms k(1) decimal_text_fraction [of "c * 10" e "Suc k"]
      by (simp only: n sign mult_eq_0_iff)
        (simp del: padded_text.simps power_Suc)
    moreover have "10 * nat \<bar>c\<bar> div 10 ^ Suc k = nat \<bar>c\<bar> div 10 ^ k" by simp
    ultimately show ?thesis
      using 3 k(2) decimal_text_fraction [OF assms, of "e + 1" k] by simp
  qed
qed

lemma decimal_text_scaled:
  "c \<noteq> 0 \<Longrightarrow> decimal_text (Dec (c * 10 ^ n) e) = decimal_text (Dec c (e + int n))"
proof (induction n arbitrary: e)
  case (Suc n)
  have "decimal_text (Dec (c * 10 ^ n * 10) e) = decimal_text (Dec (c * 10 ^ n) (e + 1))"
    using Suc.prems by (intro decimal_text_step) simp
  with Suc.IH [of "e + 1"] Suc.prems show ?case by (simp add: ac_simps)
qed simp

text \<open>
  C23: The canonical text of a decimal determines its value and is determined by it. Reading the text back
  gives the same value, and two decimals have the same text exactly when they have the same value, so a
  document, and with it a content hash, does not depend on how an amount happens to be written.
\<close>

theorem decimal_text_canonical:
  "dec_value (read_decimal (decimal_text a)) = dec_value a
   \<and> (decimal_text a = decimal_text b) = (dec_value a = dec_value b)"
proof -
  have read: "dec_value (read_decimal (decimal_text a)) = dec_value a" for a
    using read_decimal_text by (cases a) blast
  have same: "decimal_text a = decimal_text b"
    if v: "dec_value a = dec_value b" and le: "dec_exponent a \<le> dec_exponent b" for a b
  proof (cases "dec_coefficient b = 0")
    case True
    then have "dec_coefficient a = 0" using v by (metis dec_value_zero_iff)
    with True show ?thesis by (simp add: decimal_text_def)
  next
    case False
    obtain c e c' e' where ab: "a = Dec c e" "b = Dec c' e'" by (metis decimal.collapse)
    have "of_int c * (10::rat) powi e = of_int (c' * 10 ^ nat (e' - e)) * 10 powi e"
      using v of_int_powi_split [of e e' c'] le by (simp only: ab dec_value.simps decimal.sel)
    then have "(of_int c :: rat) = of_int (c' * 10 ^ nat (e' - e))"
      by (metis mult_right_cancel less_irrefl powi_10_pos)
    then have "c = c' * 10 ^ nat (e' - e)" by (simp only: of_int_eq_iff)
    with False le show ?thesis
      using decimal_text_scaled [of c' "nat (e' - e)" e] by (simp add: ab)
  qed
  have "dec_value a = dec_value b \<Longrightarrow> decimal_text a = decimal_text b"
    using same [of a b] same [of b a] by (metis linorder_le_cases)
  with read show ?thesis by metis
qed

end
