(* ===== verification/Execution_Models.thy ===== *)
theory Execution_Models
  imports Decimal_Policy Market_Data
begin

text \<open>
  \<open>execution/models.py\<close>: the execution facts and the account projection. Fields with a single literal
  value (versions, currencies, models) are left out. Every model revalidates its parts, so
  \<open>make_X\<close> checks the parts again. Identifiers are ASCII: the character class \<open>\w\<close> of the pattern is
  taken on ASCII letters, digits and the underscore.
\<close>

section \<open>Field types\<close>

definition money_bounded :: "decimal \<Rightarrow> bool" where
  "money_bounded d \<longleftrightarrow> dec_width d \<le> 512 \<and> \<bar>dec_exponent d\<bar> \<le> 512"

definition parse_decimal :: "decimal \<Rightarrow> decimal result" where
  "parse_decimal parsed =
     (if money_bounded parsed then Inr parsed
      else Inl (ValueError ''execution decimal outside finite schema bounds''))"

definition positive_money :: "decimal \<Rightarrow> bool" where
  "positive_money d \<longleftrightarrow> money_bounded d \<and> 0 < dec_value d"

definition nonnegative_money :: "decimal \<Rightarrow> bool" where
  "nonnegative_money d \<longleftrightarrow> money_bounded d \<and> 0 \<le> dec_value d"

definition identifier_char :: "char \<Rightarrow> bool" where
  "identifier_char c \<longleftrightarrow>
     (let n = (of_char c :: nat)
      in 48 \<le> n \<and> n \<le> 57 \<or> 65 \<le> n \<and> n \<le> 90 \<or> 97 \<le> n \<and> n \<le> 122)
     \<or> c \<in> set ''_.:/-''"

definition valid_identifier :: "string \<Rightarrow> bool" where
  "valid_identifier s \<longleftrightarrow> 1 \<le> length s \<and> length s \<le> 128 \<and> list_all identifier_char s"

definition opt_all :: "('a \<Rightarrow> bool) \<Rightarrow> 'a option \<Rightarrow> bool" where
  "opt_all p v = (case v of None \<Rightarrow> True | Some x \<Rightarrow> p x)"

definition opt_ex :: "('a \<Rightarrow> bool) \<Rightarrow> 'a option \<Rightarrow> bool" where
  "opt_ex p v = (case v of None \<Rightarrow> False | Some x \<Rightarrow> p x)"

lemma opt_ex_simps [simp]: "\<not> opt_ex p None" "opt_ex p (Some x) = p x"
  by (simp_all add: opt_ex_def)

lemma opt_all_simps [simp]: "opt_all p None" "opt_all p (Some x) = p x"
  by (simp_all add: opt_all_def)

datatype side = BUY | SELL

datatype environment = PAPER_ENVIRONMENT | LIVE_ENVIRONMENT

datatype order_kind = KIND_MARKET | KIND_LIMIT

datatype submission_status =
  SUBMISSION_ACKNOWLEDGED | SUBMISSION_REJECTED | SUBMISSION_UNKNOWN

datatype cancellation_status = CANCELLATION_DONE | CANCELLATION_REJECTED | CANCELLATION_UNKNOWN

datatype trade_direction = TRADE_LONG | TRADE_SHORT

datatype account_status = ACCOUNT_ACTIVE | ACCOUNT_CLOSED

section \<open>Instruments and orders\<close>

record instrument_profile =
  ip_reference :: string
  ip_symbol :: string
  ip_price_tick :: decimal
  ip_quantity_step :: decimal
  ip_minimum_quantity :: decimal
  ip_maximum_decimal_places :: int
  ip_maximum_significant_digits :: int

definition make_instrument_profile :: "instrument_profile \<Rightarrow> instrument_profile result" where
  "make_instrument_profile p =
     (if valid_identifier (ip_reference p) \<and> valid_identifier (ip_symbol p) \<and> positive_money (ip_price_tick p)
         \<and> positive_money (ip_quantity_step p) \<and> positive_money (ip_minimum_quantity p)
         \<and> 0 \<le> ip_maximum_decimal_places p \<and> ip_maximum_decimal_places p \<le> 128
         \<and> 1 \<le> ip_maximum_significant_digits p \<and> ip_maximum_significant_digits p \<le> 50
      then Inr p else Inl (ValidationError ''instrument profile field''))"

text \<open>One round of the loop of \<open>validate_units\<close>, with the ratios of the code.\<close>

definition validate_unit :: "instrument_profile \<Rightarrow> decimal \<Rightarrow> decimal \<Rightarrow> unit result" where
  "validate_unit p value' step =
     bind_result (parse_decimal value') (\<lambda>v.
       let (numerator, denominator) = quotient_of (dec_value v);
           (step_numerator, step_denominator) = quotient_of (dec_value step)
       in if dec_value v \<le> 0
             \<or> (numerator * step_denominator) mod (denominator * step_numerator) \<noteq> 0
             \<or> max 0 (- dec_exponent v) > ip_maximum_decimal_places p
             \<or> int (dec_width v) > ip_maximum_significant_digits p
          then Inl (ValueError ''unsupported instrument precision/increment'') else Inr ())"

definition validate_units :: "instrument_profile \<Rightarrow> decimal option \<Rightarrow> decimal \<Rightarrow> unit result" where
  "validate_units p price quantity =
     bind_result (validate_unit p quantity (ip_quantity_step p)) (\<lambda>_.
     bind_result (case price of None \<Rightarrow> Inr () | Some v \<Rightarrow> validate_unit p v (ip_price_tick p)) (\<lambda>_.
       if dec_value quantity < dec_value (ip_minimum_quantity p)
       then Inl (ValueError ''quantity below instrument minimum'') else Inr ()))"

record order_intent =
  oi_command_id :: string
  oi_symbol :: string
  oi_side :: side
  oi_kind :: order_kind
  oi_quantity :: decimal
  oi_limit_price :: "decimal option"
  oi_plan_reference :: "string option"

definition make_order_intent :: "order_intent \<Rightarrow> order_intent result" where
  "make_order_intent i =
     (if valid_identifier (oi_command_id i) \<and> valid_identifier (oi_symbol i) \<and> positive_money (oi_quantity i)
         \<and> opt_all positive_money (oi_limit_price i) \<and> opt_all valid_identifier (oi_plan_reference i)
      then if (oi_kind i = KIND_LIMIT) \<noteq> (oi_limit_price i \<noteq> None)
           then Inl (ValidationError ''only LIMIT requires limit_price'') else Inr i
      else Inl (ValidationError ''order intent field''))"

record order =
  od_order_id :: string
  od_account_id :: string
  od_intent :: order_intent
  od_instrument_reference :: string
  od_accepted_at :: utc_time
  od_submission_status :: submission_status
  od_external_order_id :: "string option"
  od_rejection_reason :: "string option"
  od_reduce_only :: bool
  od_bound_trade_id :: "string option"
  od_filled_quantity :: decimal
  od_cancelled_at :: "utc_time option"
  od_cancellation_status :: "cancellation_status option"
  od_last_observation_at :: "utc_time option"

definition make_order :: "order \<Rightarrow> order result" where
  "make_order r =
     bind_result (make_order_intent (od_intent r)) (\<lambda>_.
       if valid_identifier (od_order_id r) \<and> valid_identifier (od_account_id r)
          \<and> valid_identifier (od_instrument_reference r) \<and> opt_all valid_identifier (od_external_order_id r)
          \<and> opt_all (\<lambda>s. length s \<le> 128) (od_rejection_reason r)
          \<and> opt_all valid_identifier (od_bound_trade_id r) \<and> nonnegative_money (od_filled_quantity r)
       then Inr r else Inl (ValidationError ''order field''))"

record order_submission =
  os_status :: submission_status
  os_external_order_id :: "string option"
  os_reason :: "string option"

definition make_order_submission :: "order_submission \<Rightarrow> order_submission result" where
  "make_order_submission s =
     (if opt_all valid_identifier (os_external_order_id s) \<and> opt_all (\<lambda>r. length r \<le> 128) (os_reason s)
      then Inr s else Inl (ValidationError ''order submission field''))"

section \<open>Execution events\<close>

record provenance =
  pv_provider :: string
  pv_adapter_version :: string
  pv_sequence :: int
  pv_execution_policy_version :: "string option"
  pv_observation_hash :: "string option"

definition hex_digest :: "string \<Rightarrow> bool" where
  "hex_digest s \<longleftrightarrow> length s = 64 \<and> list_all (\<lambda>c. c \<in> set ''0123456789abcdef'') s"

definition provenance_fields :: "provenance \<Rightarrow> bool" where
  "provenance_fields v \<longleftrightarrow>
     valid_identifier (pv_provider v) \<and> valid_identifier (pv_adapter_version v) \<and> 0 < pv_sequence v
     \<and> opt_all valid_identifier (pv_execution_policy_version v) \<and> opt_all hex_digest (pv_observation_hash v)"

record execution_event =
  ee_event_id :: string
  ee_execution_source :: string
  ee_trading_account_id :: string
  ee_internal_order_id :: string
  ee_external_order_id :: string
  ee_external_fill_id :: string
  ee_symbol :: string
  ee_instrument_reference :: string
  ee_side :: side
  ee_price :: decimal
  ee_quantity :: decimal
  ee_fees :: "decimal list"
  ee_filled_at :: utc_time
  ee_received_at :: utc_time
  ee_provenance :: provenance

definition event_fields :: "execution_event \<Rightarrow> bool" where
  "event_fields e \<longleftrightarrow>
     list_all valid_identifier [ee_event_id e, ee_execution_source e, ee_trading_account_id e,
       ee_internal_order_id e, ee_external_order_id e, ee_external_fill_id e, ee_symbol e,
       ee_instrument_reference e]
     \<and> positive_money (ee_price e) \<and> positive_money (ee_quantity e)
     \<and> 1 \<le> length (ee_fees e) \<and> length (ee_fees e) \<le> 16 \<and> list_all nonnegative_money (ee_fees e)
     \<and> provenance_fields (ee_provenance e)"

definition make_execution_event :: "execution_event \<Rightarrow> execution_event result" where
  "make_execution_event e =
     (if event_fields e
      then if ee_filled_at e > ee_received_at e
           then Inl (ValidationError ''fill cannot precede server visibility into the future'')
           else Inr e
      else Inl (ValidationError ''execution event field''))"

text \<open>\<open>total = Decimal('0'); for x in xs: total = add(total, x)\<close>.\<close>

definition sum_decimal :: "decimal list \<Rightarrow> decimal" where
  "sum_decimal xs = foldl add_decimal dec_zero xs"

definition total_fee :: "execution_event \<Rightarrow> decimal" where
  "total_fee e = sum_decimal (ee_fees e)"

section \<open>The account\<close>

record position =
  ps_symbol :: string
  ps_instrument_reference :: string
  ps_direction :: trade_direction
  ps_trade_id :: string
  ps_quantity :: decimal
  ps_remaining_cost_basis :: decimal

definition position_fields :: "position \<Rightarrow> bool" where
  "position_fields p \<longleftrightarrow>
     valid_identifier (ps_symbol p) \<and> valid_identifier (ps_instrument_reference p) \<and> valid_identifier (ps_trade_id p)
     \<and> nonnegative_money (ps_quantity p) \<and> nonnegative_money (ps_remaining_cost_basis p)"

definition make_position :: "position \<Rightarrow> position result" where
  "make_position p = (if position_fields p then Inr p else Inl (ValidationError ''position field''))"

definition average_entry_price :: "position \<Rightarrow> decimal option result" where
  "average_entry_price p =
     (if dec_value (ps_quantity p) \<noteq> 0
      then bind_result (divide_decimal (ps_remaining_cost_basis p) (ps_quantity p)) (\<lambda>d. Inr (Some d))
      else Inr None)"

record trade =
  tr_trade_id :: string
  tr_symbol :: string
  tr_direction :: trade_direction
  tr_opened_at :: utc_time
  tr_closed_at :: "utc_time option"
  tr_gross_pnl :: decimal
  tr_total_fees :: decimal
  tr_total_entry_notional :: decimal
  tr_plan_reference :: "string option"

definition trade_fields :: "trade \<Rightarrow> bool" where
  "trade_fields t \<longleftrightarrow>
     valid_identifier (tr_trade_id t) \<and> valid_identifier (tr_symbol t) \<and> money_bounded (tr_gross_pnl t)
     \<and> nonnegative_money (tr_total_fees t) \<and> positive_money (tr_total_entry_notional t)
     \<and> opt_all valid_identifier (tr_plan_reference t)"

definition make_trade :: "trade \<Rightarrow> trade result" where
  "make_trade t = (if trade_fields t then Inr t else Inl (ValidationError ''trade field''))"

definition net_pnl :: "trade \<Rightarrow> decimal" where
  "net_pnl t = subtract_decimal (tr_gross_pnl t) (tr_total_fees t)"

definition pnl_percent :: "trade \<Rightarrow> decimal option result" where
  "pnl_percent t =
     (if tr_closed_at t \<noteq> None
      then bind_result (divide_decimal (net_pnl t) (tr_total_entry_notional t)) (\<lambda>d.
             Inr (Some (multiply_decimal d (Dec 100 0))))
      else Inr None)"

record account =
  ac_account_id :: string
  ac_execution_source :: string
  ac_execution_provider :: string
  ac_environment :: environment
  ac_status :: account_status
  ac_initial_balance :: decimal
  ac_cash_balance :: decimal
  ac_created_at :: utc_time
  ac_updated_at :: "utc_time option"
  ac_last_sequence :: int
  ac_last_filled_at :: "utc_time option"
  ac_positions :: "position list"
  ac_trades :: "trade list"

definition account_fields :: "account \<Rightarrow> bool" where
  "account_fields a \<longleftrightarrow>
     valid_identifier (ac_account_id a) \<and> valid_identifier (ac_execution_source a)
     \<and> valid_identifier (ac_execution_provider a) \<and> positive_money (ac_initial_balance a)
     \<and> money_bounded (ac_cash_balance a) \<and> 0 \<le> ac_last_sequence a
     \<and> list_all position_fields (ac_positions a) \<and> list_all trade_fields (ac_trades a)"

definition make_account :: "account \<Rightarrow> account result" where
  "make_account a = (if account_fields a then Inr a else Inl (ValidationError ''account field''))"

definition reserved_collateral :: "account \<Rightarrow> decimal" where
  "reserved_collateral a = sum_decimal (map ps_remaining_cost_basis (ac_positions a))"

definition available_balance :: "account \<Rightarrow> decimal" where
  "available_balance a = subtract_decimal (ac_cash_balance a) (reserved_collateral a)"

definition realized_pnl :: "account \<Rightarrow> decimal" where
  "realized_pnl a = sum_decimal (map tr_gross_pnl (ac_trades a))"

section \<open>Exact arithmetic as an interface\<close>

text \<open>
  What the ledger asks of its arithmetic: a value for every amount and operations that are exact on the
  values. The running totals of the models follow from it.
\<close>

locale exact_arithmetic =
  fixes val :: "'d \<Rightarrow> rat" and zero :: 'd and plus_op :: "'d \<Rightarrow> 'd \<Rightarrow> 'd"
    and minus_op :: "'d \<Rightarrow> 'd \<Rightarrow> 'd" and times_op :: "'d \<Rightarrow> 'd \<Rightarrow> 'd"
  assumes val_zero: "val zero = 0"
    and val_plus: "val (plus_op x y) = val x + val y"
    and val_minus: "val (minus_op x y) = val x - val y"
    and val_times: "val (times_op x y) = val x * val y"
begin

lemma val_foldl: "val (foldl plus_op x xs) = val x + sum_list (map val xs)"
  by (induction xs arbitrary: x) (simp_all add: val_plus)

lemma val_total: "val (foldl plus_op zero xs) = sum_list (map val xs)"
  by (simp add: val_foldl val_zero)

lemma total_order_irrelevant:
  "sum_list (map val xs) = sum_list (map val ys) \<Longrightarrow>
     val (foldl plus_op zero xs) = val (foldl plus_op zero ys)"
  by (simp add: val_total)

lemma val_net: "val (minus_op (foldl plus_op zero xs) (foldl plus_op zero ys))
    = sum_list (map val xs) - sum_list (map val ys)"
  by (simp add: val_minus val_total)

end

interpretation policy: exact_arithmetic dec_value dec_zero add_decimal subtract_decimal multiply_decimal
  by unfold_locales
    (simp_all add: add_decimal_value subtract_decimal_value multiply_decimal_value)

lemmas policy_values [simp] = policy.val_plus policy.val_minus policy.val_times

lemma sum_decimal_value: "dec_value (sum_decimal xs) = sum_list (map dec_value xs)"
  unfolding sum_decimal_def by (rule policy.val_total)

lemma available_balance_value:
  "dec_value (available_balance a) = dec_value (ac_cash_balance a)
     - (\<Sum>p\<leftarrow>ac_positions a. dec_value (ps_remaining_cost_basis p))"
  by (simp add: available_balance_def reserved_collateral_def sum_decimal_value o_def)

end
