(* ===== verification/Accounting.thy ===== *)
theory Accounting
  imports Execution_Models
begin

text \<open>
  \<open>execution/accounting.py\<close>: the one-way basis allocator that turns a fill into the next account, and the
  abstract ledger it implements. The allocator works on validated decimals; the ledger is plain rational
  arithmetic over one optional position per symbol.
\<close>

section \<open>The allocator\<close>

definition fill_direction :: "execution_event \<Rightarrow> trade_direction" where
  "fill_direction e = (if ee_side e = BUY then TRADE_LONG else TRADE_SHORT)"

definition check_fill_scope :: "account \<Rightarrow> execution_event \<Rightarrow> instrument_profile \<Rightarrow> unit result" where
  "check_fill_scope a e p =
     (if ee_trading_account_id e \<noteq> ac_account_id a \<or> ee_execution_source e \<noteq> ac_execution_source a
         \<or> ee_instrument_reference e \<noteq> ip_reference p \<or> ee_symbol e \<noteq> ip_symbol p
      then Inl (ValueError ''execution scope/profile mismatch'')
      else bind_result (validate_units p (Some (ee_price e)) (ee_quantity e)) (\<lambda>_.
        if ee_filled_at e < ac_created_at a \<or> ee_received_at e < ac_created_at a
           \<or> opt_ex (\<lambda>t. ee_received_at e < t) (ac_updated_at a)
        then Inl (ValueError ''unordered admission requires reconciliation'')
        else if pv_sequence (ee_provenance e) \<le> ac_last_sequence a
           \<or> opt_ex (\<lambda>t. ee_filled_at e < t) (ac_last_filled_at a)
        then Inl (ValueError ''unordered fill requires reconciliation'')
        else Inr ()))"

definition current_position :: "account \<Rightarrow> string \<Rightarrow> position option" where
  "current_position a s = find (\<lambda>p. ps_symbol p = s) (ac_positions a)"

definition fill_increases :: "account \<Rightarrow> execution_event \<Rightarrow> bool" where
  "fill_increases a e =
     (case current_position a (ee_symbol e) of
        None \<Rightarrow> True
      | Some p \<Rightarrow> dec_value (ps_quantity p) = 0 \<or> ps_direction p = fill_direction e)"

text \<open>The branch that opens or extends: the trade, the trades with a new one appended, the position.\<close>

definition open_trade :: "execution_event \<Rightarrow> decimal \<Rightarrow> string option \<Rightarrow> trade result" where
  "open_trade e notional plan =
     make_trade \<lparr>tr_trade_id = ee_event_id e, tr_symbol = ee_symbol e,
       tr_direction = fill_direction e, tr_opened_at = ee_filled_at e, tr_closed_at = None,
       tr_gross_pnl = dec_zero, tr_total_fees = dec_zero, tr_total_entry_notional = notional,
       tr_plan_reference = plan\<rparr>"

definition open_position :: "execution_event \<Rightarrow> instrument_profile \<Rightarrow> trade \<Rightarrow> position result" where
  "open_position e p t =
     make_position \<lparr>ps_symbol = ee_symbol e, ps_instrument_reference = ip_reference p,
       ps_direction = fill_direction e, ps_trade_id = tr_trade_id t, ps_quantity = dec_zero,
       ps_remaining_cost_basis = dec_zero\<rparr>"

definition grow_position :: "position \<Rightarrow> execution_event \<Rightarrow> decimal \<Rightarrow> position" where
  "grow_position c e notional =
     c\<lparr>ps_quantity := add_decimal (ps_quantity c) (ee_quantity e),
       ps_remaining_cost_basis := add_decimal (ps_remaining_cost_basis c) notional\<rparr>"

definition increase_fill :: "account \<Rightarrow> execution_event \<Rightarrow> instrument_profile \<Rightarrow> string option
    \<Rightarrow> decimal \<Rightarrow> (trade \<times> trade list \<times> position) result" where
  "increase_fill a e p plan notional =
     (if dec_value (available_balance a) < dec_value (add_decimal notional (total_fee e))
      then Inl (ValueError ''insufficient available balance'')
      else case current_position a (ee_symbol e) of
        Some c \<Rightarrow>
          if dec_value (ps_quantity c) = 0
          then bind_result (open_trade e notional plan) (\<lambda>t.
                 bind_result (open_position e p t) (\<lambda>c'.
                   Inr (t, ac_trades a @ [t], grow_position c' e notional)))
          else if ps_instrument_reference c \<noteq> ip_reference p
          then Inl (ValueError ''instrument profile changed while position open'')
          else bind_result (next_match (\<lambda>t. tr_trade_id t = ps_trade_id c) (ac_trades a)) (\<lambda>t.
                 Inr (t\<lparr>tr_total_entry_notional := add_decimal (tr_total_entry_notional t) notional\<rparr>,
                      ac_trades a, grow_position c e notional))
      | None \<Rightarrow>
          bind_result (open_trade e notional plan) (\<lambda>t.
            bind_result (open_position e p t) (\<lambda>c'.
              Inr (t, ac_trades a @ [t], grow_position c' e notional))))"

text \<open>The branch that reduces or closes: the gross result, the trade and the position.\<close>

definition allocated_basis :: "position \<Rightarrow> execution_event \<Rightarrow> decimal result" where
  "allocated_basis c e =
     (if dec_value (ee_quantity e) = dec_value (ps_quantity c)
      then Inr (ps_remaining_cost_basis c)
      else bind_result (divide_decimal (ps_remaining_cost_basis c) (ps_quantity c)) (\<lambda>d.
             Inr (multiply_decimal d (ee_quantity e))))"

definition reduce_fill :: "account \<Rightarrow> execution_event \<Rightarrow> position \<Rightarrow> decimal
    \<Rightarrow> (decimal \<times> trade \<times> position) result" where
  "reduce_fill a e c notional =
     (if dec_value (ee_quantity e) > dec_value (ps_quantity c)
      then Inl (ValueError ''over-close / implicit reversal rejected'')
      else bind_result (allocated_basis c e) (\<lambda>allocated.
        let is_closed = (dec_value (ee_quantity e) = dec_value (ps_quantity c));
            gross = (if ps_direction c = TRADE_LONG then subtract_decimal notional allocated
                     else subtract_decimal allocated notional);
            position = c\<lparr>ps_quantity := subtract_decimal (ps_quantity c) (ee_quantity e),
              ps_remaining_cost_basis := (if is_closed then dec_zero
                else subtract_decimal (ps_remaining_cost_basis c) allocated)\<rparr>
        in bind_result (next_match (\<lambda>t. tr_trade_id t = ps_trade_id c) (ac_trades a)) (\<lambda>t.
             Inr (gross, t\<lparr>tr_gross_pnl := add_decimal (tr_gross_pnl t) gross,
               tr_closed_at := (if is_closed then Some (ee_filled_at e) else None)\<rparr>, position))))"

text \<open>Replace the position of the symbol in place, or append it.\<close>

fun upsert_position :: "position \<Rightarrow> position list \<Rightarrow> position list" where
  "upsert_position x [] = [x]"
| "upsert_position x (p # ps) =
     (if ps_symbol p = ps_symbol x then x # ps else p # upsert_position x ps)"

definition replace_trade :: "trade \<Rightarrow> trade list \<Rightarrow> trade list" where
  "replace_trade t ts = map (\<lambda>u. if tr_trade_id u = tr_trade_id t then t else u) ts"

definition book_fill :: "account \<Rightarrow> execution_event \<Rightarrow> decimal \<Rightarrow> trade \<Rightarrow> trade list \<Rightarrow> position
    \<Rightarrow> account result" where
  "book_fill a e gross t trades position =
     (let t' = t\<lparr>tr_total_fees := add_decimal (tr_total_fees t) (total_fee e)\<rparr>
      in make_account (a
        \<lparr>ac_positions := upsert_position position (ac_positions a),
         ac_trades := replace_trade t' trades,
         ac_cash_balance := add_decimal (ac_cash_balance a) (subtract_decimal gross (total_fee e)),
         ac_last_sequence := pv_sequence (ee_provenance e),
         ac_last_filled_at := Some (ee_filled_at e), ac_updated_at := Some (ee_received_at e)\<rparr>))"

definition apply_fill :: "account \<Rightarrow> execution_event \<Rightarrow> instrument_profile \<Rightarrow> string option
    \<Rightarrow> account result" where
  "apply_fill a e p plan =
     bind_result (make_account a) (\<lambda>_. bind_result (make_execution_event e) (\<lambda>_.
     bind_result (make_instrument_profile p) (\<lambda>_. bind_result (check_fill_scope a e p) (\<lambda>_.
       let notional = multiply_decimal (ee_price e) (ee_quantity e)
       in if fill_increases a e
          then bind_result (increase_fill a e p plan notional) (\<lambda>(t, trades, position).
                 book_fill a e dec_zero t trades position)
          else case current_position a (ee_symbol e) of
            None \<Rightarrow> Inl AssertionError
          | Some c \<Rightarrow> bind_result (reduce_fill a e c notional) (\<lambda>(gross, t, position).
                 book_fill a e gross t (ac_trades a) position)))))"

section \<open>The abstract ledger\<close>

text \<open>
  Rational arithmetic over one optional position per symbol: direction, quantity and cost basis. The
  reserved collateral is the cost of the open positions.
\<close>

record ledger =
  lg_cash :: rat
  lg_reserved :: rat
  lg_gross :: rat
  lg_fees :: rat
  lg_open :: "string \<Rightarrow> (trade_direction \<times> rat \<times> rat) option"

definition ledger_quotient :: "rat \<Rightarrow> rat \<Rightarrow> rat" where
  "ledger_quotient x y = (if terminating (x / y) then x / y
     else round_sig division_precision (x / y))"

definition ledger_enter :: "string \<Rightarrow> trade_direction \<Rightarrow> rat \<Rightarrow> rat \<Rightarrow> rat \<Rightarrow> rat \<Rightarrow> rat
    \<Rightarrow> ledger \<Rightarrow> ledger option" where
  "ledger_enter s d q b quantity notional fee l =
     (if lg_cash l - lg_reserved l < notional + fee then None
      else Some (l\<lparr>lg_cash := lg_cash l - fee, lg_reserved := lg_reserved l + notional,
        lg_fees := lg_fees l + fee,
        lg_open := (lg_open l)(s \<mapsto> (d, q + quantity, b + notional))\<rparr>))"

definition ledger_leave :: "string \<Rightarrow> trade_direction \<Rightarrow> rat \<Rightarrow> rat \<Rightarrow> rat \<Rightarrow> rat \<Rightarrow> rat
    \<Rightarrow> ledger \<Rightarrow> ledger option" where
  "ledger_leave s d q b quantity notional fee l =
     (if quantity > q then None
      else let allocated = (if quantity = q then b else ledger_quotient b q * quantity);
               gross = (if d = TRADE_LONG then notional - allocated else allocated - notional)
      in Some (l\<lparr>lg_cash := lg_cash l + gross - fee, lg_reserved := lg_reserved l - allocated,
        lg_gross := lg_gross l + gross, lg_fees := lg_fees l + fee,
        lg_open := (lg_open l)(s := (if quantity = q then None
          else Some (d, q - quantity, b - allocated)))\<rparr>))"

definition ledger_fill :: "string \<Rightarrow> trade_direction \<Rightarrow> rat \<Rightarrow> rat \<Rightarrow> rat \<Rightarrow> ledger \<Rightarrow> ledger option" where
  "ledger_fill s d price quantity fee l =
     (case lg_open l s of
        None \<Rightarrow> ledger_enter s d 0 0 quantity (price * quantity) fee l
      | Some (d', q, b) \<Rightarrow>
          (if d' = d then ledger_enter s d q b quantity (price * quantity) fee l
           else ledger_leave s d' q b quantity (price * quantity) fee l))"

text \<open>What an account stands for.\<close>

definition open_of :: "account \<Rightarrow> string \<Rightarrow> (trade_direction \<times> rat \<times> rat) option" where
  "open_of a s =
     (case current_position a s of
        None \<Rightarrow> None
      | Some p \<Rightarrow> if dec_value (ps_quantity p) = 0 then None
          else Some (ps_direction p, dec_value (ps_quantity p),
                     dec_value (ps_remaining_cost_basis p)))"

definition ledger_of :: "account \<Rightarrow> ledger" where
  "ledger_of a =
     \<lparr>lg_cash = dec_value (ac_cash_balance a),
      lg_reserved = (\<Sum>p\<leftarrow>ac_positions a. dec_value (ps_remaining_cost_basis p)),
      lg_gross = (\<Sum>t\<leftarrow>ac_trades a. dec_value (tr_gross_pnl t)),
      lg_fees = (\<Sum>t\<leftarrow>ac_trades a. dec_value (tr_total_fees t)),
      lg_open = open_of a\<rparr>"

section \<open>The invariant of the account\<close>

definition position_backed :: "trade list \<Rightarrow> position \<Rightarrow> bool" where
  "position_backed ts p \<longleftrightarrow>
     (if dec_value (ps_quantity p) = 0 then dec_value (ps_remaining_cost_basis p) = 0
      else \<exists>t\<in>set ts. tr_trade_id t = ps_trade_id p \<and> tr_closed_at t = None
             \<and> tr_symbol t = ps_symbol p \<and> tr_direction t = ps_direction p)"

definition trade_backed :: "position list \<Rightarrow> trade \<Rightarrow> bool" where
  "trade_backed ps t \<longleftrightarrow>
     (tr_closed_at t = None \<longrightarrow>
        (\<exists>p\<in>set ps. ps_trade_id p = tr_trade_id t \<and> dec_value (ps_quantity p) \<noteq> 0))"

definition account_ok :: "account \<Rightarrow> bool" where
  "account_ok a \<longleftrightarrow>
     account_fields a \<and> distinct (map ps_symbol (ac_positions a))
     \<and> distinct (map tr_trade_id (ac_trades a))
     \<and> dec_value (ac_cash_balance a) = dec_value (ac_initial_balance a)
         + (\<Sum>t\<leftarrow>ac_trades a. dec_value (tr_gross_pnl t))
         - (\<Sum>t\<leftarrow>ac_trades a. dec_value (tr_total_fees t))
     \<and> (\<forall>p\<in>set (ac_positions a). position_backed (ac_trades a) p)
     \<and> (\<forall>t\<in>set (ac_trades a). trade_backed (ac_positions a) t)"

section \<open>Updates of positions and trades\<close>

lemma upsert_symbols:
  "map ps_symbol (upsert_position x ps) = (if ps_symbol x \<in> ps_symbol ` set ps
     then map ps_symbol ps else map ps_symbol ps @ [ps_symbol x])"
  by (induction ps) auto

lemma upsert_set:
  assumes "distinct (map ps_symbol ps)"
  shows "set (upsert_position x ps) = insert x {p \<in> set ps. ps_symbol p \<noteq> ps_symbol x}"
  using assms
proof (induction ps)
  case (Cons p ps)
  then show ?case by (cases "ps_symbol p = ps_symbol x") (auto simp: image_iff)
qed simp

lemma upsert_find:
  "find (\<lambda>p. ps_symbol p = s) (upsert_position x ps)
     = (if s = ps_symbol x then Some x else find (\<lambda>p. ps_symbol p = s) ps)"
  by (induction ps) auto

lemma upsert_sum:
  fixes f :: "position \<Rightarrow> rat"
  shows "(\<Sum>p\<leftarrow>upsert_position x ps. f p) = (\<Sum>p\<leftarrow>ps. f p) + f x
     - (case find (\<lambda>p. ps_symbol p = ps_symbol x) ps of None \<Rightarrow> 0 | Some c \<Rightarrow> f c)"
  by (induction ps) (auto split: option.splits)

lemma replace_trade_ids [simp]: "map tr_trade_id (replace_trade t ts) = map tr_trade_id ts"
  by (auto simp: replace_trade_def)

lemma replace_trade_set:
  "u \<in> set ts \<Longrightarrow> tr_trade_id u = tr_trade_id t \<Longrightarrow>
     set (replace_trade t ts) = insert t {v \<in> set ts. tr_trade_id v \<noteq> tr_trade_id t}"
  by (auto simp: replace_trade_def image_iff)

lemma replace_trade_sum:
  fixes f :: "trade \<Rightarrow> rat"
  assumes "distinct (map tr_trade_id ts)" "u \<in> set ts" "tr_trade_id u = tr_trade_id t"
  shows "(\<Sum>v\<leftarrow>replace_trade t ts. f v) = (\<Sum>v\<leftarrow>ts. f v) + f t - f u"
  using assms
proof (induction ts)
  case (Cons v ts)
  show ?case
  proof (cases "tr_trade_id v = tr_trade_id t")
    case True
    then have "replace_trade t ts = ts" using Cons.prems(1,3)
      by (auto simp: replace_trade_def intro!: map_idI) (metis imageI)
    moreover have "u = v" using True Cons.prems by (auto simp: image_iff)
    ultimately show ?thesis using True by (simp add: replace_trade_def)
  next
    case False
    with Cons show ?thesis by (auto simp: replace_trade_def)
  qed
qed simp

section \<open>The three kinds of fill\<close>

inductive fill_case :: "account \<Rightarrow> execution_event \<Rightarrow> instrument_profile \<Rightarrow> string option
    \<Rightarrow> decimal \<Rightarrow> trade \<Rightarrow> trade list \<Rightarrow> position \<Rightarrow> bool"
  for a e p plan where
  opened: "open_of a (ee_symbol e) = None \<Longrightarrow>
     dec_value (add_decimal (multiply_decimal (ee_price e) (ee_quantity e)) (total_fee e))
       \<le> dec_value (available_balance a) \<Longrightarrow>
     open_trade e (multiply_decimal (ee_price e) (ee_quantity e)) plan = Inr t \<Longrightarrow>
     open_position e p t = Inr c \<Longrightarrow>
     fill_case a e p plan dec_zero t (ac_trades a @ [t])
       (grow_position c e (multiply_decimal (ee_price e) (ee_quantity e)))"
| extended: "current_position a (ee_symbol e) = Some c \<Longrightarrow> dec_value (ps_quantity c) \<noteq> 0 \<Longrightarrow>
     ps_direction c = fill_direction e \<Longrightarrow>
     dec_value (add_decimal (multiply_decimal (ee_price e) (ee_quantity e)) (total_fee e))
       \<le> dec_value (available_balance a) \<Longrightarrow>
     u \<in> set (ac_trades a) \<Longrightarrow> tr_trade_id u = ps_trade_id c \<Longrightarrow>
     fill_case a e p plan dec_zero
       (u\<lparr>tr_total_entry_notional := add_decimal (tr_total_entry_notional u)
          (multiply_decimal (ee_price e) (ee_quantity e))\<rparr>) (ac_trades a)
       (grow_position c e (multiply_decimal (ee_price e) (ee_quantity e)))"
| reduced: "current_position a (ee_symbol e) = Some c \<Longrightarrow> dec_value (ps_quantity c) \<noteq> 0 \<Longrightarrow>
     ps_direction c \<noteq> fill_direction e \<Longrightarrow>
     dec_value (ee_quantity e) \<le> dec_value (ps_quantity c) \<Longrightarrow>
     allocated_basis c e = Inr al \<Longrightarrow>
     u \<in> set (ac_trades a) \<Longrightarrow> tr_trade_id u = ps_trade_id c \<Longrightarrow>
     gross = (if ps_direction c = TRADE_LONG
       then subtract_decimal (multiply_decimal (ee_price e) (ee_quantity e)) al
       else subtract_decimal al (multiply_decimal (ee_price e) (ee_quantity e))) \<Longrightarrow>
     is_closed = (dec_value (ee_quantity e) = dec_value (ps_quantity c)) \<Longrightarrow>
     fill_case a e p plan gross
       (u\<lparr>tr_gross_pnl := add_decimal (tr_gross_pnl u) gross,
          tr_closed_at := (if is_closed then Some (ee_filled_at e) else None)\<rparr>) (ac_trades a)
       (c\<lparr>ps_quantity := subtract_decimal (ps_quantity c) (ee_quantity e),
          ps_remaining_cost_basis := (if is_closed then dec_zero
            else subtract_decimal (ps_remaining_cost_basis c) al)\<rparr>)"

lemma current_position_facts:
  assumes "current_position a s = Some c"
  shows "c \<in> set (ac_positions a)" "ps_symbol c = s"
  using assms find_SomeD [of "\<lambda>p. ps_symbol p = s" "ac_positions a" c]
  by (simp_all add: current_position_def)

lemma increase_fill_case:
  assumes "increase_fill a e p plan (multiply_decimal (ee_price e) (ee_quantity e)) = Inr (t, ts, pos)"
    "fill_increases a e"
  shows "fill_case a e p plan dec_zero t ts pos"
proof -
  let ?n = "multiply_decimal (ee_price e) (ee_quantity e)"
  have avail: "dec_value (add_decimal ?n (total_fee e)) \<le> dec_value (available_balance a)"
    using assms(1) by (auto simp: increase_fill_def not_less split: if_splits)
  show ?thesis
  proof (cases "open_of a (ee_symbol e)")
    case None
    then have "bind_result (open_trade e ?n plan) (\<lambda>t. bind_result (open_position e p t) (\<lambda>c'.
        Inr (t, ac_trades a @ [t], grow_position c' e ?n))) = Inr (t, ts, pos)"
      using assms(1) avail
      by (auto simp: increase_fill_def open_of_def split: option.splits if_splits)
    then show ?thesis using None avail by (auto simp: bind_result_eq_Inr intro: opened)
  next
    case (Some x)
    then obtain c where c: "current_position a (ee_symbol e) = Some c" "dec_value (ps_quantity c) \<noteq> 0"
      by (auto simp: open_of_def split: option.splits if_splits)
    then have dir: "ps_direction c = fill_direction e" using assms(2) by (simp add: fill_increases_def)
    from assms(1) c obtain u where u: "next_match (\<lambda>t. tr_trade_id t = ps_trade_id c) (ac_trades a) = Inr u"
      and eq: "t = u\<lparr>tr_total_entry_notional := add_decimal (tr_total_entry_notional u) ?n\<rparr>"
        "ts = ac_trades a" "pos = grow_position c e ?n"
      by (auto simp: increase_fill_def bind_result_eq_Inr split: if_splits)
    from next_match_Inr [OF u] c dir avail show ?thesis unfolding eq by (auto intro: extended)
  qed
qed

lemma reduce_fill_case:
  assumes "reduce_fill a e c (multiply_decimal (ee_price e) (ee_quantity e)) = Inr (gross, t, pos)"
    "current_position a (ee_symbol e) = Some c" "\<not> fill_increases a e"
  shows "fill_case a e p plan gross t (ac_trades a) pos"
proof -
  from assms(1) obtain al u where "allocated_basis c e = Inr al"
    "dec_value (ee_quantity e) \<le> dec_value (ps_quantity c)"
    "next_match (\<lambda>t. tr_trade_id t = ps_trade_id c) (ac_trades a) = Inr u"
    and eq: "gross = (if ps_direction c = TRADE_LONG
       then subtract_decimal (multiply_decimal (ee_price e) (ee_quantity e)) al
       else subtract_decimal al (multiply_decimal (ee_price e) (ee_quantity e)))"
      "t = u\<lparr>tr_gross_pnl := add_decimal (tr_gross_pnl u) gross,
          tr_closed_at := (if dec_value (ee_quantity e) = dec_value (ps_quantity c)
            then Some (ee_filled_at e) else None)\<rparr>"
      "pos = c\<lparr>ps_quantity := subtract_decimal (ps_quantity c) (ee_quantity e),
          ps_remaining_cost_basis := (if dec_value (ee_quantity e) = dec_value (ps_quantity c)
            then dec_zero else subtract_decimal (ps_remaining_cost_basis c) al)\<rparr>"
    by (auto simp: reduce_fill_def Let_def bind_result_eq_Inr split: if_splits)
  then show ?thesis
    using assms(2,3) next_match_Inr [of "\<lambda>t. tr_trade_id t = ps_trade_id c"]
    unfolding eq(2,3) by (intro reduced) (auto simp: fill_increases_def)
qed

lemma apply_fill_cases:
  assumes "apply_fill a e p plan = Inr a'"
  obtains gross t ts pos where "fill_case a e p plan gross t ts pos"
    "book_fill a e gross t ts pos = Inr a'" "account_fields a" "event_fields e"
    "check_fill_scope a e p = Inr ()"
proof -
  have pre: "account_fields a" "event_fields e" "check_fill_scope a e p = Inr ()"
    using assms by (auto simp: apply_fill_def bind_result_eq_Inr make_account_def
        make_execution_event_def split: if_splits)
  show thesis
  proof (cases "fill_increases a e")
    case True
    with assms obtain t ts pos where
      "increase_fill a e p plan (multiply_decimal (ee_price e) (ee_quantity e)) = Inr (t, ts, pos)"
      "book_fill a e dec_zero t ts pos = Inr a'"
      by (auto simp: apply_fill_def bind_result_eq_Inr Let_def split: prod.splits)
    with True pre show ?thesis using that increase_fill_case by blast
  next
    case False
    with assms obtain c gross t pos where c: "current_position a (ee_symbol e) = Some c"
      "reduce_fill a e c (multiply_decimal (ee_price e) (ee_quantity e)) = Inr (gross, t, pos)"
      "book_fill a e gross t (ac_trades a) pos = Inr a'"
      by (auto simp: apply_fill_def bind_result_eq_Inr Let_def split: prod.splits option.splits)
    with False pre show ?thesis using that reduce_fill_case by blast
  qed
qed

section \<open>Every fill keeps the invariant\<close>

lemma event_quantity_pos:
  "event_fields e \<Longrightarrow> 0 < dec_value (ee_quantity e)" "event_fields e \<Longrightarrow> 0 < dec_value (ee_price e)"
  by (simp_all add: event_fields_def positive_money_def)

lemma account_position_fields:
  "account_fields a \<Longrightarrow> c \<in> set (ac_positions a) \<Longrightarrow>
     0 \<le> dec_value (ps_quantity c) \<and> 0 \<le> dec_value (ps_remaining_cost_basis c)"
  by (auto simp: account_fields_def list_all_iff position_fields_def nonnegative_money_def)

text \<open>The trade a fill touches, before it, and what the three kinds have in common.\<close>

lemma fill_case_common:
  assumes "fill_case a e p plan gross t ts pos" "account_ok a" "event_fields e"
    and fresh: "ee_event_id e \<notin> tr_trade_id ` set (ac_trades a)"
  shows "\<exists>u\<in>set ts. tr_trade_id u = tr_trade_id t \<and> distinct (map tr_trade_id ts)
     \<and> tr_total_fees t = tr_total_fees u
     \<and> dec_value (tr_gross_pnl t) = dec_value (tr_gross_pnl u) + dec_value gross
     \<and> (\<Sum>v\<leftarrow>ts. dec_value (tr_gross_pnl v)) = (\<Sum>v\<leftarrow>ac_trades a. dec_value (tr_gross_pnl v))
     \<and> (\<Sum>v\<leftarrow>ts. dec_value (tr_total_fees v)) = (\<Sum>v\<leftarrow>ac_trades a. dec_value (tr_total_fees v))
     \<and> tr_symbol t = ee_symbol e \<and> ps_symbol pos = ee_symbol e \<and> ps_trade_id pos = tr_trade_id t
     \<and> (if dec_value (ps_quantity pos) = 0 then dec_value (ps_remaining_cost_basis pos) = 0
          \<and> tr_closed_at t \<noteq> None
        else tr_direction t = ps_direction pos \<and> tr_closed_at t = None)
     \<and> (\<forall>v\<in>set ts. tr_trade_id v \<noteq> tr_trade_id t \<longrightarrow> v \<in> set (ac_trades a))
     \<and> (\<forall>v\<in>set (ac_trades a). tr_trade_id v \<noteq> tr_trade_id t \<longrightarrow> v \<in> set ts)
     \<and> (\<forall>q\<in>set (ac_positions a). ps_symbol q = ee_symbol e \<longrightarrow>
          dec_value (ps_quantity q) = 0 \<or> ps_trade_id q = tr_trade_id t)
     \<and> (\<forall>v\<in>set (ac_trades a). tr_trade_id v = tr_trade_id t \<longrightarrow> tr_symbol v = ee_symbol e)"
proof -
  have unique: "q = q'" if "q \<in> set (ac_positions a)" "q' \<in> set (ac_positions a)"
    "ps_symbol q = ps_symbol q'" for q q'
    using assms(2) that by (metis account_ok_def distinct_map inj_onD)
  have unique_trade: "v = v'" if "v \<in> set (ac_trades a)" "v' \<in> set (ac_trades a)"
    "tr_trade_id v = tr_trade_id v'" for v v'
    using assms(2) that by (metis account_ok_def distinct_map inj_onD)
  have find: "q = c" if "current_position a s = Some c" "q \<in> set (ac_positions a)" "ps_symbol q = s" for q c s
    using unique that current_position_facts by blast
  have some: "\<exists>c. current_position a (ps_symbol q) = Some c" if "q \<in> set (ac_positions a)" for q
    using that by (cases "current_position a (ps_symbol q)")
      (auto simp: current_position_def find_None_iff_all)
  have dt: "distinct (map tr_trade_id (ac_trades a))" using assms(2) by (simp add: account_ok_def)
  note q = event_quantity_pos(1) [OF assms(3)]
  then have q0: "dec_coefficient (ee_quantity e) \<noteq> 0" by (metis dec_value_zero_iff less_irrefl)
  have backed: "tr_closed_at u = None \<and> tr_symbol u = ps_symbol c \<and> tr_direction u = ps_direction c"
    if c: "current_position a (ee_symbol e) = Some c" "dec_value (ps_quantity c) \<noteq> 0"
      and u: "u \<in> set (ac_trades a)" "tr_trade_id u = ps_trade_id c" for c u
  proof -
    have "position_backed (ac_trades a) c"
      using assms(2) current_position_facts [OF c(1)] by (simp add: account_ok_def)
    with c(2) u unique_trade show ?thesis by (metis position_backed_def)
  qed
  from assms(1) show ?thesis
  proof cases
    case (opened c)
    have t: "tr_trade_id t = ee_event_id e" "tr_symbol t = ee_symbol e" "tr_closed_at t = None"
      "tr_direction t = fill_direction e" "tr_gross_pnl t = dec_zero" "tr_total_fees t = dec_zero"
      using opened(6) by (auto simp: open_trade_def make_trade_def split: if_splits)
    have c: "ps_symbol c = ee_symbol e" "ps_trade_id c = tr_trade_id t" "ps_quantity c = dec_zero"
      "ps_direction c = fill_direction e"
      using opened(7) by (auto simp: open_position_def make_position_def split: if_splits)
    have zero: "dec_value (ps_quantity q) = 0"
      if "q \<in> set (ac_positions a)" "ps_symbol q = ee_symbol e" for q
      using some [OF that(1)] find [OF _ that(1)] that(2) opened(4)
      by (auto simp: open_of_def split: if_splits)
    show ?thesis
      using assms(2) fresh t c q0 zero opened(1-3)
      by (intro bexI [of _ t]) (auto simp: account_ok_def grow_position_def image_iff)
  next
    case (extended c u)
    have same: "v = u" if "v \<in> set (ac_trades a)" "tr_trade_id v = ps_trade_id c" for v
      using unique_trade [OF that(1) extended(9)] that(2) extended(10) by simp
    have "0 \<le> dec_value (ps_quantity c)"
      using assms(2) account_position_fields [of a c] current_position_facts [OF extended(5)]
      by (simp add: account_ok_def)
    moreover have "ps_symbol c = ee_symbol e" using current_position_facts [OF extended(5)] by simp
    moreover have "\<forall>q\<in>set (ac_positions a). ps_symbol q = ee_symbol e \<longrightarrow>
        dec_value (ps_quantity q) = 0 \<or> ps_trade_id q = tr_trade_id t"
      using find [OF extended(5)] extended(10) by (auto simp: extended(2))
    moreover have "\<forall>v\<in>set (ac_trades a). tr_trade_id v = tr_trade_id t \<longrightarrow> tr_symbol v = ee_symbol e"
      using same backed [OF extended(5,6,9,10)] extended(10) \<open>ps_symbol c = ee_symbol e\<close>
      by (auto simp: extended(2))
    ultimately show ?thesis
      using q dt backed [OF extended(5,6,9,10)] extended
      by (intro bexI [of _ u]) (simp_all add: grow_position_def)
  next
    case (reduced c al u is_closed)
    have same: "v = u" if "v \<in> set (ac_trades a)" "tr_trade_id v = ps_trade_id c" for v
      using unique_trade [OF that(1) reduced(9)] that(2) reduced(10) by simp
    have "ps_symbol c = ee_symbol e" using current_position_facts [OF reduced(4)] by simp
    moreover have "\<forall>q\<in>set (ac_positions a). ps_symbol q = ee_symbol e \<longrightarrow>
        dec_value (ps_quantity q) = 0 \<or> ps_trade_id q = tr_trade_id t"
      using find [OF reduced(4)] reduced(10) by (auto simp: reduced(1))
    moreover have "\<forall>v\<in>set (ac_trades a). tr_trade_id v = tr_trade_id t \<longrightarrow> tr_symbol v = ee_symbol e"
      using same backed [OF reduced(4,5,9,10)] reduced(10) \<open>ps_symbol c = ee_symbol e\<close>
      by (auto simp: reduced(1))
    ultimately show ?thesis
      using q dt backed [OF reduced(4,5,9,10)] reduced
      by (intro bexI [of _ u]) (simp_all add: grow_position_def)
  qed
qed

lemma book_fill_account:
  assumes "book_fill a e gross t ts pos = Inr a'"
  shows "a' = a\<lparr>ac_positions := upsert_position pos (ac_positions a),
       ac_trades := replace_trade
         (t\<lparr>tr_total_fees := add_decimal (tr_total_fees t) (total_fee e)\<rparr>) ts,
       ac_cash_balance := add_decimal (ac_cash_balance a) (subtract_decimal gross (total_fee e)),
       ac_last_sequence := pv_sequence (ee_provenance e),
       ac_last_filled_at := Some (ee_filled_at e), ac_updated_at := Some (ee_received_at e)\<rparr>"
    and "account_fields a'"
  using assms by (auto simp: book_fill_def Let_def make_account_def split: if_splits)

text \<open>The totals after a fill.\<close>

lemma fill_totals:
  assumes "fill_case a e p plan gross t ts pos" "book_fill a e gross t ts pos = Inr a'"
    "account_ok a" "event_fields e" "ee_event_id e \<notin> tr_trade_id ` set (ac_trades a)"
  shows "(\<Sum>v\<leftarrow>ac_trades a'. dec_value (tr_gross_pnl v))
      = (\<Sum>v\<leftarrow>ac_trades a. dec_value (tr_gross_pnl v)) + dec_value gross"
    and "(\<Sum>v\<leftarrow>ac_trades a'. dec_value (tr_total_fees v))
      = (\<Sum>v\<leftarrow>ac_trades a. dec_value (tr_total_fees v)) + dec_value (total_fee e)"
    and "dec_value (ac_cash_balance a')
      = dec_value (ac_cash_balance a) + dec_value gross - dec_value (total_fee e)"
proof -
  let ?t = "t\<lparr>tr_total_fees := add_decimal (tr_total_fees t) (total_fee e)\<rparr>"
  obtain u where u: "u \<in> set ts" "tr_trade_id u = tr_trade_id ?t" "distinct (map tr_trade_id ts)"
    "tr_total_fees t = tr_total_fees u"
    "dec_value (tr_gross_pnl t) = dec_value (tr_gross_pnl u) + dec_value gross"
    "(\<Sum>v\<leftarrow>ts. dec_value (tr_gross_pnl v)) = (\<Sum>v\<leftarrow>ac_trades a. dec_value (tr_gross_pnl v))"
    "(\<Sum>v\<leftarrow>ts. dec_value (tr_total_fees v)) = (\<Sum>v\<leftarrow>ac_trades a. dec_value (tr_total_fees v))"
    using fill_case_common [OF assms(1,3,4,5)] by auto
  note a' = book_fill_account(1) [OF assms(2)]
  show "(\<Sum>v\<leftarrow>ac_trades a'. dec_value (tr_gross_pnl v))
      = (\<Sum>v\<leftarrow>ac_trades a. dec_value (tr_gross_pnl v)) + dec_value gross"
    using replace_trade_sum [OF u(3,1,2), of "\<lambda>v. dec_value (tr_gross_pnl v)"] u(5,6) a' by simp
  show "(\<Sum>v\<leftarrow>ac_trades a'. dec_value (tr_total_fees v))
      = (\<Sum>v\<leftarrow>ac_trades a. dec_value (tr_total_fees v)) + dec_value (total_fee e)"
    using replace_trade_sum [OF u(3,1,2), of "\<lambda>v. dec_value (tr_total_fees v)"] u(4,7) a' by simp
  show "dec_value (ac_cash_balance a')
      = dec_value (ac_cash_balance a) + dec_value gross - dec_value (total_fee e)"
    using a' by simp
qed

lemma fill_keeps_ok:
  assumes "fill_case a e p plan gross t ts pos" "book_fill a e gross t ts pos = Inr a'"
    "account_ok a" "event_fields e" "ee_event_id e \<notin> tr_trade_id ` set (ac_trades a)"
  shows "account_ok a'"
proof -
  let ?t = "t\<lparr>tr_total_fees := add_decimal (tr_total_fees t) (total_fee e)\<rparr>"
  obtain u where u: "u \<in> set ts" "tr_trade_id u = tr_trade_id t" "distinct (map tr_trade_id ts)"
    and st: "tr_symbol t = ee_symbol e" "ps_symbol pos = ee_symbol e" "ps_trade_id pos = tr_trade_id t"
    and own: "if dec_value (ps_quantity pos) = 0 then dec_value (ps_remaining_cost_basis pos) = 0
          \<and> tr_closed_at t \<noteq> None
        else tr_direction t = ps_direction pos \<and> tr_closed_at t = None"
    and ts: "\<forall>v\<in>set ts. tr_trade_id v \<noteq> tr_trade_id t \<longrightarrow> v \<in> set (ac_trades a)"
      "\<forall>v\<in>set (ac_trades a). tr_trade_id v \<noteq> tr_trade_id t \<longrightarrow> v \<in> set ts"
    and sym: "\<forall>q\<in>set (ac_positions a). ps_symbol q = ee_symbol e \<longrightarrow>
          dec_value (ps_quantity q) = 0 \<or> ps_trade_id q = tr_trade_id t"
      "\<forall>v\<in>set (ac_trades a). tr_trade_id v = tr_trade_id t \<longrightarrow> tr_symbol v = ee_symbol e"
    using fill_case_common [OF assms(1,3,4,5)] by blast
  note a' = book_fill_account(1) [OF assms(2)]
  have ok: "distinct (map ps_symbol (ac_positions a))"
    "\<forall>p\<in>set (ac_positions a). position_backed (ac_trades a) p"
    "\<forall>t\<in>set (ac_trades a). trade_backed (ac_positions a) t"
    using assms(3) by (simp_all add: account_ok_def)
  have positions: "set (ac_positions a') = insert pos {q \<in> set (ac_positions a). ps_symbol q \<noteq> ee_symbol e}"
    using upsert_set [OF ok(1), of pos] st(2) by (simp add: a')
  have trades: "set (ac_trades a') = insert ?t {v \<in> set ts. tr_trade_id v \<noteq> tr_trade_id t}"
    using replace_trade_set [OF u(1), of ?t] u(2) by (simp add: a')
  have symbols: "distinct (map ps_symbol (ac_positions a'))"
    using ok(1) by (auto simp: a' upsert_symbols)
  have "position_backed (ac_trades a') q" if q: "q \<in> set (ac_positions a')" for q
  proof (cases "q = pos")
    case True
    then show ?thesis using own st by (auto simp: position_backed_def trades split: if_splits)
  next
    case False
    then have q: "q \<in> set (ac_positions a)" "ps_symbol q \<noteq> ee_symbol e" using q positions by auto
    then have "position_backed (ac_trades a) q" using ok(2) by blast
    then consider "dec_value (ps_quantity q) = 0" "dec_value (ps_remaining_cost_basis q) = 0"
      | v where "dec_value (ps_quantity q) \<noteq> 0" "v \<in> set (ac_trades a)"
        "tr_trade_id v = ps_trade_id q" "tr_closed_at v = None" "tr_symbol v = ps_symbol q"
        "tr_direction v = ps_direction q"
      unfolding position_backed_def by (auto split: if_splits)
    then show ?thesis
    proof cases
      case 1
      then show ?thesis by (simp add: position_backed_def)
    next
      case 2
      then have "tr_trade_id v \<noteq> tr_trade_id t" using sym(2) q(2) by metis
      then have "v \<in> set (ac_trades a')" using 2 ts(2) by (simp add: trades)
      with 2 show ?thesis unfolding position_backed_def by auto
    qed
  qed
  moreover have "trade_backed (ac_positions a') v" if v: "v \<in> set (ac_trades a')" for v
  proof (cases "v = ?t")
    case True
    then show ?thesis using own st by (auto simp: trade_backed_def positions split: if_splits)
  next
    case False
    then have v: "v \<in> set (ac_trades a)" "tr_trade_id v \<noteq> tr_trade_id t" using v trades ts(1) by auto
    then have "trade_backed (ac_positions a) v" using ok(3) by blast
    with v(2) sym(1) show ?thesis unfolding trade_backed_def positions by auto
  qed
  ultimately show ?thesis
    using fill_totals [OF assms] assms(3) book_fill_account(2) [OF assms(2)] symbols u(3)
    by (simp add: account_ok_def) (simp add: a')
qed

section \<open>The allocator implements the ledger\<close>

definition ledger_step :: "execution_event \<Rightarrow> ledger \<Rightarrow> ledger option" where
  "ledger_step e = ledger_fill (ee_symbol e) (fill_direction e) (dec_value (ee_price e))
     (dec_value (ee_quantity e)) (dec_value (total_fee e))"

lemma allocated_basis_value:
  assumes "allocated_basis c e = Inr al"
  shows "dec_value al = (if dec_value (ee_quantity e) = dec_value (ps_quantity c)
    then dec_value (ps_remaining_cost_basis c)
    else ledger_quotient (dec_value (ps_remaining_cost_basis c)) (dec_value (ps_quantity c))
      * dec_value (ee_quantity e))"
proof (cases "dec_value (ee_quantity e) = dec_value (ps_quantity c)")
  case False
  then obtain d where d: "divide_decimal (ps_remaining_cost_basis c) (ps_quantity c) = Inr d"
    "al = multiply_decimal d (ee_quantity e)"
    using assms by (auto simp: allocated_basis_def bind_result_eq_Inr)
  then have "dec_coefficient (ps_quantity c) \<noteq> 0" by (auto simp: divide_decimal_def)
  from divide_decimal_value [OF this, of "ps_remaining_cost_basis c"] d False
  show ?thesis by (auto simp: ledger_quotient_def)
qed (use assms in \<open>simp add: allocated_basis_def\<close>)

lemma fill_refines:
  assumes "fill_case a e p plan gross t ts pos" "book_fill a e gross t ts pos = Inr a'"
    "account_ok a" "event_fields e" "ee_event_id e \<notin> tr_trade_id ` set (ac_trades a)"
  shows "ledger_step e (ledger_of a) = Some (ledger_of a')"
proof -
  note a' = book_fill_account(1) [OF assms(2)]
  note totals = fill_totals [OF assms]
  have sym: "ps_symbol pos = ee_symbol e" using fill_case_common [OF assms(1,3,4,5)] by blast
  have current': "current_position a' s = (if s = ee_symbol e then Some pos else current_position a s)" for s
    by (simp add: a' current_position_def upsert_find sym)
  then have open': "open_of a' = (open_of a)(ee_symbol e := (if dec_value (ps_quantity pos) = 0 then None
      else Some (ps_direction pos, dec_value (ps_quantity pos), dec_value (ps_remaining_cost_basis pos))))"
    by (auto simp: open_of_def fun_eq_iff)
  have reserved: "(\<Sum>p\<leftarrow>ac_positions a'. dec_value (ps_remaining_cost_basis p))
      = (\<Sum>p\<leftarrow>ac_positions a. dec_value (ps_remaining_cost_basis p))
        + dec_value (ps_remaining_cost_basis pos)
        - (case current_position a (ee_symbol e) of None \<Rightarrow> 0
           | Some c \<Rightarrow> dec_value (ps_remaining_cost_basis c))"
    by (simp add: a' upsert_sum sym current_position_def)
  have flat: "dec_value (ps_remaining_cost_basis c) = 0"
    if "current_position a (ee_symbol e) = Some c" "dec_value (ps_quantity c) = 0" for c
    using assms(3) current_position_facts [OF that(1)] that(2)
    by (auto simp: account_ok_def position_backed_def)
  have q: "0 < dec_value (ee_quantity e)" using event_quantity_pos(1) [OF assms(4)] .
  then have q0: "dec_coefficient (ee_quantity e) \<noteq> 0" by (metis dec_value_zero_iff less_irrefl)
  have nonneg: "0 \<le> dec_value (ps_quantity c)" if "current_position a (ee_symbol e) = Some c" for c
    using assms(3) current_position_facts [OF that] account_position_fields [of a c]
    by (simp add: account_ok_def)
  from assms(1) show ?thesis
  proof cases
    case (opened c)
    have c: "ps_quantity c = dec_zero" "ps_remaining_cost_basis c = dec_zero" "ps_direction c = fill_direction e"
      using opened(7) by (auto simp: open_position_def make_position_def split: if_splits)
    have "(case current_position a (ee_symbol e) of None \<Rightarrow> 0
        | Some c \<Rightarrow> dec_value (ps_remaining_cost_basis c)) = 0"
      using opened(4) flat by (auto simp: open_of_def split: option.splits if_splits)
    then show ?thesis
      using opened c q0 totals reserved open'
      by (simp add: ledger_step_def ledger_fill_def ledger_of_def ledger_enter_def
          available_balance_value grow_position_def)
  next
    case (extended c u)
    have "open_of a (ee_symbol e) = Some (fill_direction e, dec_value (ps_quantity c),
        dec_value (ps_remaining_cost_basis c))" using extended by (simp add: open_of_def)
    moreover have "dec_value (ps_quantity c) + dec_value (ee_quantity e) \<noteq> 0"
      using nonneg [OF extended(5)] q by linarith
    ultimately show ?thesis
      using extended totals reserved open'
      by (simp add: ledger_step_def ledger_fill_def ledger_of_def ledger_enter_def
          available_balance_value grow_position_def)
  next
    case (reduced c al u is_closed)
    have "open_of a (ee_symbol e) = Some (ps_direction c, dec_value (ps_quantity c),
        dec_value (ps_remaining_cost_basis c))" using reduced by (simp add: open_of_def)
    then show ?thesis
      using reduced totals reserved open' allocated_basis_value [OF reduced(8)]
      by (auto simp: ledger_step_def ledger_fill_def ledger_of_def ledger_leave_def Let_def)
  qed
qed

text \<open>
  C19: Every accepted fill keeps the account consistent: one position per symbol and one record per trade,
  cash is the initial balance plus the gross results minus the fees of the trades to the last digit, a
  position without quantity carries no cost, and open positions and open trades match one to one.
\<close>

theorem fill_keeps_account_consistent:
  assumes "account_ok a" "ee_event_id e \<notin> tr_trade_id ` set (ac_trades a)"
    and "apply_fill a e p plan = Inr a'"
  shows "account_ok a'"
  using assms(3)
proof (cases rule: apply_fill_cases)
  case (1 gross t ts pos)
  with fill_keeps_ok assms(1,2) show ?thesis by blast
qed

text \<open>
  C18: The allocator implements the abstract ledger. Whenever it accepts a fill, the ledger accepts it too
  and reaches the ledger of the new account: it never spends more than the available balance, never
  reverses a position, splits the cost of a partial exit in proportion, and moves cash by the gross
  result minus the fee.
\<close>

theorem allocator_refines_ledger:
  assumes "account_ok a" "ee_event_id e \<notin> tr_trade_id ` set (ac_trades a)"
    and "apply_fill a e p plan = Inr a'"
  shows "ledger_step e (ledger_of a) = Some (ledger_of a')"
  using assms(3)
proof (cases rule: apply_fill_cases)
  case (1 gross t ts pos)
  with fill_refines assms(1,2) show ?thesis by blast
qed

section \<open>A sample account\<close>

definition sample_origin :: account where
  "sample_origin =
     \<lparr>ac_account_id = ''acc'', ac_execution_source = ''src'', ac_execution_provider = ''PAPER'',
      ac_environment = PAPER_ENVIRONMENT, ac_status = ACCOUNT_ACTIVE, ac_initial_balance = Dec 1000 0,
      ac_cash_balance = Dec 1000 0, ac_created_at = 0, ac_updated_at = Some 0, ac_last_sequence = 0,
      ac_last_filled_at = None, ac_positions = [], ac_trades = []\<rparr>"

definition sample_profile :: instrument_profile where
  "sample_profile =
     \<lparr>ip_reference = ''ref'', ip_symbol = ''BTC'', ip_price_tick = Dec 1 0,
      ip_quantity_step = Dec 1 0, ip_minimum_quantity = Dec 1 0, ip_maximum_decimal_places = 18,
      ip_maximum_significant_digits = 18\<rparr>"

definition sample_fill_event :: "string \<Rightarrow> side \<Rightarrow> decimal \<Rightarrow> int \<Rightarrow> execution_event" where
  "sample_fill_event i sd price n =
     \<lparr>ee_event_id = i, ee_execution_source = ''src'', ee_trading_account_id = ''acc'',
      ee_internal_order_id = ''o'', ee_external_order_id = ''x'', ee_external_fill_id = ''f'',
      ee_symbol = ''BTC'', ee_instrument_reference = ''ref'', ee_side = sd, ee_price = price,
      ee_quantity = Dec 3 0, ee_fees = [Dec 1 0], ee_filled_at = n, ee_received_at = n,
      ee_provenance = \<lparr>pv_provider = ''PAPER'', pv_adapter_version = ''v1'', pv_sequence = n,
        pv_execution_policy_version = None, pv_observation_hash = None\<rparr>\<rparr>"

definition sample_position :: "decimal \<Rightarrow> decimal \<Rightarrow> position" where
  "sample_position quantity basis =
     \<lparr>ps_symbol = ''BTC'', ps_instrument_reference = ''ref'', ps_direction = TRADE_LONG,
      ps_trade_id = ''e1'', ps_quantity = quantity, ps_remaining_cost_basis = basis\<rparr>"

definition sample_trade :: "utc_time option \<Rightarrow> decimal \<Rightarrow> decimal \<Rightarrow> trade" where
  "sample_trade closed_at gross fees =
     \<lparr>tr_trade_id = ''e1'', tr_symbol = ''BTC'', tr_direction = TRADE_LONG, tr_opened_at = 1,
      tr_closed_at = closed_at, tr_gross_pnl = gross, tr_total_fees = fees,
      tr_total_entry_notional = Dec 300 0, tr_plan_reference = None\<rparr>"

definition sample_opened :: account where
  "sample_opened = sample_origin\<lparr>ac_positions := [sample_position (Dec 3 0) (Dec 300 0)],
     ac_trades := [sample_trade None (Dec 0 0) (Dec 1 0)], ac_cash_balance := Dec 999 0,
     ac_last_sequence := 1, ac_last_filled_at := Some 1, ac_updated_at := Some 1\<rparr>"

definition sample_closed :: account where
  "sample_closed = sample_origin\<lparr>ac_positions := [sample_position (Dec 0 0) (Dec 0 0)],
     ac_trades := [sample_trade (Some 2) (Dec 60 0) (Dec 2 0)], ac_cash_balance := Dec 1058 0,
     ac_last_sequence := 2, ac_last_filled_at := Some 2, ac_updated_at := Some 2\<rparr>"

lemma sample_identifiers:
  "valid_identifier ''acc''" "valid_identifier ''src''" "valid_identifier ''PAPER''"
  "valid_identifier ''BTC''" "valid_identifier ''ref''" "valid_identifier ''o''"
  "valid_identifier ''x''" "valid_identifier ''f''" "valid_identifier ''e1''"
  "valid_identifier ''e2''" "valid_identifier ''v1''"
  by (simp_all add: valid_identifier_def identifier_char_def)

lemma sample_widths:
  "money_bounded (Dec 0 0)" "money_bounded (Dec 1 0)" "money_bounded (Dec 2 0)" "money_bounded (Dec 3 0)"
  "money_bounded (Dec 60 0)" "money_bounded (Dec 100 0)" "money_bounded (Dec 120 0)"
  "money_bounded (Dec 300 0)" "money_bounded (Dec 999 0)" "money_bounded (Dec 1000 0)"
  "money_bounded (Dec 1058 0)"
  by (simp_all add: money_bounded_def dec_width_def ndigits.simps)

lemma sample_units:
  "validate_units sample_profile (Some (Dec 100 0)) (Dec 3 0) = Inr ()"
  "validate_units sample_profile (Some (Dec 120 0)) (Dec 3 0) = Inr ()"
  by (simp_all add: validate_units_def validate_unit_def parse_decimal_def sample_widths
      sample_profile_def dec_width_def ndigits.simps)

lemmas sample_fields = sample_identifiers sample_widths account_fields_def event_fields_def
  provenance_fields_def position_fields_def trade_fields_def positive_money_def nonnegative_money_def

lemma sample_open:
  "apply_fill sample_origin (sample_fill_event ''e1'' BUY (Dec 100 0) 1) sample_profile None
     = Inr sample_opened"
proof -
  let ?e = "sample_fill_event ''e1'' BUY (Dec 100 0) 1"
  have made: "make_account sample_origin = Inr sample_origin" "make_execution_event ?e = Inr ?e"
    "make_instrument_profile sample_profile = Inr sample_profile"
    by (simp_all add: make_account_def make_execution_event_def make_instrument_profile_def
        sample_fields sample_origin_def sample_fill_event_def sample_profile_def)
  have scope: "check_fill_scope sample_origin ?e sample_profile = Inr ()"
    using sample_units(1)
    by (simp add: check_fill_scope_def sample_origin_def sample_fill_event_def sample_profile_def)
  have fee: "total_fee ?e = Dec 1 0"
    by (simp add: total_fee_def sum_decimal_def sample_fill_event_def add_decimal_eq)
  have notional: "multiply_decimal (Dec 100 0) (Dec 3 0) = Dec 300 0" by (simp add: multiply_decimal_eq)
  have none: "current_position sample_origin ''BTC'' = None"
    by (simp add: current_position_def sample_origin_def)
  have avail: "dec_value (available_balance sample_origin) = 1000"
    by (simp add: available_balance_value sample_origin_def)
  have event: "ee_symbol ?e = ''BTC''" "ee_price ?e = Dec 100 0" "ee_quantity ?e = Dec 3 0"
    by (simp_all add: sample_fill_event_def)
  have trade: "open_trade ?e (Dec 300 0) None = Inr (sample_trade None (Dec 0 0) (Dec 0 0))"
    by (simp add: open_trade_def make_trade_def sample_fields sample_fill_event_def sample_trade_def
        fill_direction_def)
  have position: "open_position ?e sample_profile (sample_trade None (Dec 0 0) (Dec 0 0))
      = Inr (sample_position (Dec 0 0) (Dec 0 0))"
    by (simp add: open_position_def make_position_def sample_fields sample_fill_event_def
        sample_trade_def sample_profile_def sample_position_def fill_direction_def)
  have book: "book_fill sample_origin ?e dec_zero (sample_trade None (Dec 0 0) (Dec 0 0))
      [sample_trade None (Dec 0 0) (Dec 0 0)] (sample_position (Dec 3 0) (Dec 300 0)) = Inr sample_opened"
    unfolding book_fill_def fee
    by (simp add: Let_def make_account_def sample_opened_def sample_origin_def
        sample_trade_def sample_position_def replace_trade_def add_decimal_eq subtract_decimal_def
        dec_negate_def sample_fields sample_fill_event_def)
  have "increase_fill sample_origin ?e sample_profile None (Dec 300 0)
      = Inr (sample_trade None (Dec 0 0) (Dec 0 0), [sample_trade None (Dec 0 0) (Dec 0 0)],
          sample_position (Dec 3 0) (Dec 300 0))"
    by (simp add: increase_fill_def avail event none trade position fee)
      (simp add: sample_origin_def grow_position_def sample_position_def event add_decimal_eq)
  then show ?thesis
    using made scope book by (simp add: apply_fill_def event notional fill_increases_def none)
qed

lemma sample_close:
  "apply_fill sample_opened (sample_fill_event ''e2'' SELL (Dec 120 0) 2) sample_profile None
     = Inr sample_closed"
proof -
  let ?e = "sample_fill_event ''e2'' SELL (Dec 120 0) 2"
  have made: "make_account sample_opened = Inr sample_opened" "make_execution_event ?e = Inr ?e"
    "make_instrument_profile sample_profile = Inr sample_profile"
    by (simp_all add: make_account_def make_execution_event_def make_instrument_profile_def
        sample_fields sample_origin_def sample_opened_def sample_trade_def sample_position_def
        sample_fill_event_def sample_profile_def)
  have scope: "check_fill_scope sample_opened ?e sample_profile = Inr ()"
    using sample_units(2)
    by (simp add: check_fill_scope_def sample_opened_def sample_origin_def sample_fill_event_def
        sample_profile_def)
  have fee: "total_fee ?e = Dec 1 0"
    by (simp add: total_fee_def sum_decimal_def sample_fill_event_def add_decimal_eq)
  have notional: "multiply_decimal (Dec 120 0) (Dec 3 0) = Dec 360 0" by (simp add: multiply_decimal_eq)
  have event: "ee_symbol ?e = ''BTC''" "ee_price ?e = Dec 120 0" "ee_quantity ?e = Dec 3 0"
    "fill_direction ?e = TRADE_SHORT" "ee_filled_at ?e = 2"
    by (simp_all add: sample_fill_event_def fill_direction_def)
  have current: "current_position sample_opened ''BTC'' = Some (sample_position (Dec 3 0) (Dec 300 0))"
    by (simp add: current_position_def sample_opened_def sample_position_def)
  have reduce: "reduce_fill sample_opened ?e (sample_position (Dec 3 0) (Dec 300 0)) (Dec 360 0)
      = Inr (Dec 60 0, sample_trade (Some 2) (Dec 60 0) (Dec 1 0), sample_position (Dec 0 0) (Dec 0 0))"
    by (simp add: Let_def reduce_fill_def allocated_basis_def event next_match_def sample_opened_def
        sample_trade_def sample_position_def subtract_decimal_def dec_negate_def add_decimal_eq)
  have book: "book_fill sample_opened ?e (Dec 60 0) (sample_trade (Some 2) (Dec 60 0) (Dec 1 0))
      (ac_trades sample_opened) (sample_position (Dec 0 0) (Dec 0 0)) = Inr sample_closed"
    unfolding book_fill_def fee
    by (simp add: Let_def make_account_def sample_opened_def sample_closed_def sample_origin_def
        sample_trade_def sample_position_def replace_trade_def add_decimal_eq subtract_decimal_def
        dec_negate_def sample_fields sample_fill_event_def)
  have "\<not> fill_increases sample_opened ?e"
    by (simp add: fill_increases_def event current) (simp add: sample_position_def)
  then show ?thesis
    using made scope book reduce by (simp add: apply_fill_def event notional current)
qed


lemma sample_origin_ok: "account_ok sample_origin"
  by (simp add: account_ok_def sample_fields sample_origin_def)

theorem fill_keeps_account_consistent_witness: "account_ok sample_opened"
  by (rule fill_keeps_account_consistent [OF sample_origin_ok _ sample_open])
    (simp add: sample_origin_def)

theorem allocator_refines_ledger_witness:
  "ledger_step (sample_fill_event ''e1'' BUY (Dec 100 0) 1) (ledger_of sample_origin)
     = Some (ledger_of sample_opened) \<and> lg_reserved (ledger_of sample_opened) = 300"
proof
  show "ledger_step (sample_fill_event ''e1'' BUY (Dec 100 0) 1) (ledger_of sample_origin)
     = Some (ledger_of sample_opened)"
    by (rule allocator_refines_ledger [OF sample_origin_ok _ sample_open]) (simp add: sample_origin_def)
  show "lg_reserved (ledger_of sample_opened) = 300"
    by (simp add: ledger_of_def sample_opened_def sample_position_def)
qed

end
