(* ===== verification/Trade_Projection.thy ===== *)
theory Trade_Projection
  imports Accounting
begin

text \<open>
  \<open>execution/trade_projection.py\<close>: the replay of the fills of an account through the allocator, the trade
  and role each fill belongs to, and the display of a trade from its fills. The generator is the loop
  that collects what it yields.
\<close>

section \<open>Replay\<close>

datatype fill_role = ROLE_ENTRY | ROLE_EXIT

type_synonym membership = "execution_event \<times> string \<times> fill_role"
type_synonym replay_input = "execution_event \<times> instrument_profile \<times> string option"

definition empty_projection :: "account \<Rightarrow> account result" where
  "empty_projection origin =
     make_account (origin\<lparr>ac_positions := [], ac_trades := [],
       ac_cash_balance := ac_initial_balance origin, ac_last_sequence := 0,
       ac_last_filled_at := None, ac_updated_at := Some (ac_created_at origin)\<rparr>)"

definition entry_side :: "trade_direction \<Rightarrow> side" where
  "entry_side d = (if d = TRADE_LONG then BUY else SELL)"

definition replay_step :: "replay_input \<Rightarrow> account \<times> membership list
    \<Rightarrow> (account \<times> membership list) result" where
  "replay_step input s =
     (case input of (e, p, plan) \<Rightarrow> case s of (state, memberships) \<Rightarrow>
       bind_result (apply_fill state e p plan) (\<lambda>state'.
       bind_result (next_match (\<lambda>q. ps_symbol q = ee_symbol e) (ac_positions state')) (\<lambda>position.
       bind_result (next_match (\<lambda>t. tr_trade_id t = ps_trade_id position) (ac_trades state')) (\<lambda>t.
         let role = (if ee_side e = entry_side (tr_direction t) then ROLE_ENTRY else ROLE_EXIT)
         in Inr (state', memberships @ [(e, tr_trade_id t, role)])))))"

definition replay_memberships :: "account \<Rightarrow> replay_input list
    \<Rightarrow> (account \<times> membership list) result" where
  "replay_memberships origin inputs =
     bind_result (empty_projection origin) (\<lambda>state. for_each replay_step inputs (state, []))"

section \<open>Display\<close>

datatype display_status = DISPLAY_CLOSED | DISPLAY_PARTIALLY_CLOSED | DISPLAY_OPEN

record fill_summary =
  fd_quantity :: decimal
  fd_remaining_quantity :: decimal
  fd_average_entry_price :: decimal
  fd_average_exit_price :: "decimal option"
  fd_status :: display_status

definition display_step :: "trade \<Rightarrow> execution_event \<Rightarrow> decimal \<times> decimal \<times> decimal
    \<Rightarrow> decimal \<times> decimal \<times> decimal" where
  "display_step t e s =
     (case s of (entered, exited, exit_notional) \<Rightarrow>
       if ee_side e = entry_side (tr_direction t)
       then (add_decimal entered (ee_quantity e), exited, exit_notional)
       else (entered, add_decimal exited (ee_quantity e),
             add_decimal exit_notional (multiply_decimal (ee_price e) (ee_quantity e))))"

definition fill_display :: "trade \<Rightarrow> execution_event list \<Rightarrow> fill_summary result" where
  "fill_display t events =
     (case fold (display_step t) events (dec_zero, dec_zero, dec_zero) of
       (entered, exited, exit_notional) \<Rightarrow>
         let remaining = subtract_decimal entered exited
         in if dec_value entered \<le> 0 \<or> dec_value remaining < 0
               \<or> (dec_value remaining = 0) \<noteq> (tr_closed_at t \<noteq> None)
            then Inl (ValueError ''inconsistent execution trade membership'')
            else bind_result (divide_decimal (tr_total_entry_notional t) entered) (\<lambda>average_entry.
              bind_result (if dec_value exited \<noteq> 0
                then bind_result (divide_decimal exit_notional exited) (\<lambda>d. Inr (Some d))
                else Inr None) (\<lambda>average_exit.
              Inr \<lparr>fd_quantity = entered, fd_remaining_quantity = remaining,
                fd_average_entry_price = average_entry, fd_average_exit_price = average_exit,
                fd_status = (if tr_closed_at t \<noteq> None then DISPLAY_CLOSED
                  else if dec_value exited \<noteq> 0 then DISPLAY_PARTIALLY_CLOSED
                  else DISPLAY_OPEN)\<rparr>)))"

section \<open>What the fills of a trade add up to\<close>

definition trade_fills :: "membership list \<Rightarrow> string \<Rightarrow> execution_event list" where
  "trade_fills ms i = map fst (filter (\<lambda>m. fst (snd m) = i) ms)"

definition entries :: "trade_direction \<Rightarrow> execution_event list \<Rightarrow> execution_event list" where
  "entries d es = filter (\<lambda>e. ee_side e = entry_side d) es"

definition exits :: "trade_direction \<Rightarrow> execution_event list \<Rightarrow> execution_event list" where
  "exits d es = filter (\<lambda>e. ee_side e \<noteq> entry_side d) es"

definition quantity_of :: "execution_event list \<Rightarrow> rat" where
  "quantity_of es = (\<Sum>e\<leftarrow>es. dec_value (ee_quantity e))"

definition notional_of :: "execution_event list \<Rightarrow> rat" where
  "notional_of es = (\<Sum>e\<leftarrow>es. dec_value (ee_price e) * dec_value (ee_quantity e))"

definition fees_of :: "execution_event list \<Rightarrow> rat" where
  "fees_of es = (\<Sum>e\<leftarrow>es. dec_value (total_fee e))"

text \<open>The quantity and the cost that an account still holds for a trade.\<close>

definition holding :: "account \<Rightarrow> trade \<Rightarrow> rat \<times> rat" where
  "holding a t =
     (case current_position a (tr_symbol t) of
        None \<Rightarrow> (0, 0)
      | Some p \<Rightarrow> if ps_trade_id p = tr_trade_id t
          then (dec_value (ps_quantity p), dec_value (ps_remaining_cost_basis p)) else (0, 0))"

definition direction_sign :: "trade_direction \<Rightarrow> rat" where
  "direction_sign d = (if d = TRADE_LONG then 1 else - 1)"

definition fills_explain :: "execution_event list \<Rightarrow> trade \<Rightarrow> rat \<times> rat \<Rightarrow> bool" where
  "fills_explain es t held \<longleftrightarrow>
     (let d = tr_direction t
      in 0 < quantity_of (entries d es)
       \<and> quantity_of (entries d es) - quantity_of (exits d es) = fst held
       \<and> notional_of (entries d es) = dec_value (tr_total_entry_notional t)
       \<and> dec_value (tr_gross_pnl t) = direction_sign d
           * (notional_of (exits d es) - (notional_of (entries d es) - snd held))
       \<and> dec_value (tr_total_fees t) = fees_of es)"

section \<open>Sums over the fills\<close>

lemma quantity_of_simps [simp]:
  "quantity_of [] = 0" "quantity_of (xs @ [e]) = quantity_of xs + dec_value (ee_quantity e)"
  by (simp_all add: quantity_of_def)

lemma notional_of_simps [simp]:
  "notional_of [] = 0"
  "notional_of (xs @ [e]) = notional_of xs + dec_value (ee_price e) * dec_value (ee_quantity e)"
  by (simp_all add: notional_of_def)

lemma fees_of_simps [simp]:
  "fees_of [] = 0" "fees_of (xs @ [e]) = fees_of xs + dec_value (total_fee e)"
  by (simp_all add: fees_of_def)

lemma entries_simps [simp]:
  "entries d [] = []"
  "entries d (xs @ [e]) = (if ee_side e = entry_side d then entries d xs @ [e] else entries d xs)"
  by (simp_all add: entries_def)

lemma exits_simps [simp]:
  "exits d [] = []"
  "exits d (xs @ [e]) = (if ee_side e = entry_side d then exits d xs else exits d xs @ [e])"
  by (simp_all add: exits_def)

lemma single_fill [simp]:
  "quantity_of [e] = dec_value (ee_quantity e)"
  "notional_of [e] = dec_value (ee_price e) * dec_value (ee_quantity e)"
  "fees_of [e] = dec_value (total_fee e)"
  "entries d [e] = (if ee_side e = entry_side d then [e] else [])"
  "exits d [e] = (if ee_side e = entry_side d then [] else [e])"
  by (simp_all add: quantity_of_def notional_of_def fees_of_def entries_def exits_def)

lemma side_direction: "ee_side e = entry_side d \<longleftrightarrow> fill_direction e = d"
  by (cases d; cases "ee_side e") (simp_all add: entry_side_def fill_direction_def)

lemma trade_fills_snoc [simp]:
  "trade_fills (ms @ [(e, i, r)]) j = (if i = j then trade_fills ms j @ [e] else trade_fills ms j)"
  by (simp add: trade_fills_def)

text \<open>The trade a fill touches is explained by its earlier fills and this one.\<close>

lemma fills_explain_step:
  assumes "fill_case a e p plan gross t ts pos" "account_ok a" "event_fields e"
    and "ee_event_id e \<notin> tr_trade_id ` set (ac_trades a)"
    and explained: "\<forall>u\<in>set (ac_trades a). fills_explain (trade_fills ms (tr_trade_id u)) u (holding a u)"
    and none: "trade_fills ms (ee_event_id e) = []"
  shows "fills_explain (trade_fills ms (tr_trade_id t) @ [e])
    (t\<lparr>tr_total_fees := add_decimal (tr_total_fees t) (total_fee e)\<rparr>)
    (dec_value (ps_quantity pos), dec_value (ps_remaining_cost_basis pos))"
proof -
  have held: "fills_explain (trade_fills ms (ps_trade_id c)) u
      (dec_value (ps_quantity c), dec_value (ps_remaining_cost_basis c)) \<and> tr_direction u = ps_direction c"
    if c: "current_position a (ee_symbol e) = Some c" "dec_value (ps_quantity c) \<noteq> 0"
      and u: "u \<in> set (ac_trades a)" "tr_trade_id u = ps_trade_id c" for c u
  proof -
    have "position_backed (ac_trades a) c"
      using assms(2) current_position_facts [OF c(1)] by (simp add: account_ok_def)
    then obtain v where "v \<in> set (ac_trades a)" "tr_trade_id v = ps_trade_id c"
      "tr_symbol v = ps_symbol c" "tr_direction v = ps_direction c"
      using c(2) by (auto simp: position_backed_def)
    moreover from this have "v = u"
      using assms(2) u by (metis account_ok_def distinct_map inj_onD)
    ultimately have "tr_symbol u = ee_symbol e" "tr_direction u = ps_direction c"
      using current_position_facts [OF c(1)] by simp_all
    moreover have "holding a u = (dec_value (ps_quantity c), dec_value (ps_remaining_cost_basis c))"
      using calculation(1) u(2) c(1) by (simp add: holding_def)
    ultimately show ?thesis using bspec [OF explained u(1)] u(2) by simp
  qed
  from assms(1) show ?thesis
  proof cases
    case (opened c)
    have t: "tr_trade_id t = ee_event_id e" "tr_direction t = fill_direction e"
      "tr_gross_pnl t = dec_zero" "tr_total_fees t = dec_zero"
      "tr_total_entry_notional t = multiply_decimal (ee_price e) (ee_quantity e)"
      using opened(6) by (auto simp: open_trade_def make_trade_def split: if_splits)
    have c: "ps_quantity c = dec_zero" "ps_remaining_cost_basis c = dec_zero"
      using opened(7) by (auto simp: open_position_def make_position_def split: if_splits)
    have "ee_side e = entry_side (fill_direction e)" by (simp add: side_direction)
    then show ?thesis
      using event_quantity_pos(1) [OF assms(3)]
      unfolding t(1) none fills_explain_def opened(3) by (simp add: t c grow_position_def Let_def)
  next
    case (extended c u)
    note h = held [OF extended(5,6,9,10)]
    have "ee_side e = entry_side (tr_direction u)" using h extended(7) by (simp add: side_direction)
    moreover have dir: "tr_direction u = ps_direction c" using h by blast
    moreover have id: "tr_trade_id t = ps_trade_id c" using extended(2,10) by simp
    ultimately show ?thesis
      using conjunct1 [OF h] event_quantity_pos(1) [OF assms(3)]
      unfolding id unfolding fills_explain_def extended(2,4)
      by (auto simp: grow_position_def Let_def intro: add_pos_pos)
  next
    case (reduced c al u is_closed)
    note h = held [OF reduced(4,5,9,10)]
    have "ee_side e \<noteq> entry_side (tr_direction u)" using h reduced(6) by (simp add: side_direction)
    moreover have "is_closed \<Longrightarrow> dec_value al = dec_value (ps_remaining_cost_basis c)"
      using allocated_basis_value [OF reduced(8)] reduced(12) by simp
    ultimately show ?thesis
      using h reduced(10,12) unfolding fills_explain_def reduced(1,3,11)
      by (cases "ps_direction c") (auto simp: Let_def direction_sign_def algebra_simps)
  qed
qed

section \<open>The invariant of a replay\<close>

definition replay_ok :: "account \<Rightarrow> membership list \<Rightarrow> bool" where
  "replay_ok a ms \<longleftrightarrow> account_ok a
     \<and> (\<forall>t\<in>set (ac_trades a). fills_explain (trade_fills ms (tr_trade_id t)) t (holding a t))
     \<and> (\<forall>m\<in>set ms. fst (snd m) \<in> tr_trade_id ` set (ac_trades a))
     \<and> (\<forall>t\<in>set (ac_trades a). tr_trade_id t \<in> ee_event_id ` fst ` set ms)"

lemma replay_step_ok:
  assumes "replay_ok a ms" "apply_fill a e p plan = Inr a'" "ee_event_id e \<notin> ee_event_id ` fst ` set ms"
  shows "\<exists>i r. replay_step (e, p, plan) (a, ms) = Inr (a', ms @ [(e, i, r)])
     \<and> replay_ok a' (ms @ [(e, i, r)]) \<and> ledger_step e (ledger_of a) = Some (ledger_of a')"
proof -
  have ok: "account_ok a" and fresh: "ee_event_id e \<notin> tr_trade_id ` set (ac_trades a)"
    and explained: "\<forall>t\<in>set (ac_trades a). fills_explain (trade_fills ms (tr_trade_id t)) t (holding a t)"
    and members: "\<forall>m\<in>set ms. fst (snd m) \<in> tr_trade_id ` set (ac_trades a)"
    and openers: "\<forall>t\<in>set (ac_trades a). tr_trade_id t \<in> ee_event_id ` fst ` set ms"
    using assms(1,3) by (auto simp: replay_ok_def)
  from assms(2) obtain gross t ts pos where f: "fill_case a e p plan gross t ts pos"
    "book_fill a e gross t ts pos = Inr a'" "event_fields e"
    by (rule apply_fill_cases)
  let ?t = "t\<lparr>tr_total_fees := add_decimal (tr_total_fees t) (total_fee e)\<rparr>"
  note a' = book_fill_account(1) [OF f(2)]
  obtain u where u: "u \<in> set ts" "tr_trade_id u = tr_trade_id t"
    and st: "tr_symbol t = ee_symbol e" "ps_symbol pos = ee_symbol e" "ps_trade_id pos = tr_trade_id t"
    and ts: "\<forall>v\<in>set ts. tr_trade_id v \<noteq> tr_trade_id t \<longrightarrow> v \<in> set (ac_trades a)"
      "\<forall>v\<in>set (ac_trades a). tr_trade_id v \<noteq> tr_trade_id t \<longrightarrow> v \<in> set ts"
    and sym: "\<forall>q\<in>set (ac_positions a). ps_symbol q = ee_symbol e \<longrightarrow>
          dec_value (ps_quantity q) = 0 \<or> ps_trade_id q = tr_trade_id t"
    using fill_case_common [OF f(1) ok f(3) fresh] by blast
  have trades: "set (ac_trades a') = insert ?t {v \<in> set ts. tr_trade_id v \<noteq> tr_trade_id t}"
    using replace_trade_set [OF u(1), of ?t] u(2) by (simp add: a')
  have current': "current_position a' s = (if s = ee_symbol e then Some pos else current_position a s)" for s
    by (simp add: a' current_position_def upsert_find st(2))
  have ok': "account_ok a'" by (rule fill_keeps_ok [OF f(1,2) ok f(3) fresh])
  obtain r where step: "replay_step (e, p, plan) (a, ms) = Inr (a', ms @ [(e, tr_trade_id t, r)])"
  proof -
    have "next_match (\<lambda>q. ps_symbol q = ee_symbol e) (ac_positions a') = Inr pos"
      using current' [of "ee_symbol e"] by (simp add: next_match_def current_position_def)
    moreover obtain w where "next_match (\<lambda>v. tr_trade_id v = tr_trade_id t) (ac_trades a') = Inr w"
      using next_match_exists [of "ac_trades a'" "\<lambda>v. tr_trade_id v = tr_trade_id t"] trades by auto
    moreover from this have "tr_trade_id w = tr_trade_id t" using next_match_Inr by fastforce
    ultimately show thesis
      using that assms(2) st(3) by (auto simp: replay_step_def Let_def split: if_splits)
  qed
  have none: "trade_fills ms (ee_event_id e) = []"
    using members fresh by (auto simp: trade_fills_def filter_empty_conv)
  have "fills_explain (trade_fills ms (tr_trade_id t) @ [e]) ?t (holding a' ?t)"
    using fills_explain_step [OF f(1) ok f(3) fresh explained none] st
    by (simp add: holding_def current')
  moreover have "fills_explain (trade_fills ms (tr_trade_id v)) v (holding a' v)"
    if v: "v \<in> set (ac_trades a)" "tr_trade_id v \<noteq> tr_trade_id t" for v
  proof -
    have "holding a' v = holding a v"
    proof (cases "tr_symbol v = ee_symbol e")
      case True
      have "dec_value (ps_quantity q) = 0 \<and> dec_value (ps_remaining_cost_basis q) = 0"
        if q: "current_position a (ee_symbol e) = Some q" "ps_trade_id q = tr_trade_id v" for q
      proof -
        have "dec_value (ps_quantity q) = 0" using sym current_position_facts [OF q(1)] q(2) v(2) by metis
        moreover have "position_backed (ac_trades a) q"
          using ok current_position_facts [OF q(1)] by (simp add: account_ok_def)
        ultimately show ?thesis by (simp add: position_backed_def)
      qed
      with True v(2) st show ?thesis by (auto simp: holding_def current' split: option.splits)
    qed (simp add: holding_def current')
    with explained v(1) show ?thesis by simp
  qed
  ultimately have "\<forall>v\<in>set (ac_trades a').
      fills_explain (trade_fills (ms @ [(e, tr_trade_id t, r)]) (tr_trade_id v)) v (holding a' v)"
    using ts(1) by (auto simp: trades)
  moreover have "tr_trade_id ` set (ac_trades a) \<subseteq> tr_trade_id ` set (ac_trades a')"
    using ts(2) by (auto simp: trades image_iff) 
  moreover have "tr_trade_id t \<in> insert (ee_event_id e) (tr_trade_id ` set (ac_trades a))"
    using f(1)
  proof cases
    case (opened c)
    then show ?thesis by (auto simp: open_trade_def make_trade_def split: if_splits)
  next
    case (extended c u)
    then have "tr_trade_id t = tr_trade_id u" by simp
    with extended(9) show ?thesis by simp
  next
    case (reduced c al u is_closed)
    then have "tr_trade_id t = tr_trade_id u" by simp
    with reduced(9) show ?thesis by simp
  qed
  ultimately have "replay_ok a' (ms @ [(e, tr_trade_id t, r)])"
    unfolding replay_ok_def
  proof (intro conjI)
    show "\<forall>m\<in>set (ms @ [(e, tr_trade_id t, r)]). fst (snd m) \<in> tr_trade_id ` set (ac_trades a')"
      using members trades \<open>tr_trade_id ` set (ac_trades a) \<subseteq> _\<close> by auto
    show "\<forall>v\<in>set (ac_trades a'). tr_trade_id v \<in> ee_event_id ` fst ` set (ms @ [(e, tr_trade_id t, r)])"
      using openers \<open>tr_trade_id t \<in> insert _ _\<close> ts(1) by (auto simp: trades)
  qed (use ok' in simp_all)
  with step fill_refines [OF f(1,2) ok f(3) fresh] show ?thesis by blast
qed

section \<open>A sample replay\<close>

lemma sample_run:
  "replay_memberships sample_origin
     [(sample_fill_event ''e1'' BUY (Dec 100 0) 1, sample_profile, None),
      (sample_fill_event ''e2'' SELL (Dec 120 0) 2, sample_profile, None)]
   = Inr (sample_closed,
      [(sample_fill_event ''e1'' BUY (Dec 100 0) 1, ''e1'', ROLE_ENTRY),
       (sample_fill_event ''e2'' SELL (Dec 120 0) 2, ''e1'', ROLE_EXIT)])"
proof -
  have empty: "empty_projection sample_origin = Inr sample_origin"
    by (simp add: empty_projection_def make_account_def sample_fields sample_origin_def)
  have one: "replay_step (sample_fill_event ''e1'' BUY (Dec 100 0) 1, sample_profile, None) (sample_origin, [])
      = Inr (sample_opened, [(sample_fill_event ''e1'' BUY (Dec 100 0) 1, ''e1'', ROLE_ENTRY)])"
    unfolding replay_step_def using sample_open
    by (simp add: next_match_def sample_opened_def sample_position_def sample_trade_def Let_def)
      (simp add: sample_fill_event_def entry_side_def)
  have two: "replay_step (sample_fill_event ''e2'' SELL (Dec 120 0) 2, sample_profile, None) (sample_opened, ms)
      = Inr (sample_closed, ms @ [(sample_fill_event ''e2'' SELL (Dec 120 0) 2, ''e1'', ROLE_EXIT)])" for ms
    unfolding replay_step_def using sample_close
    by (simp add: next_match_def sample_closed_def sample_position_def sample_trade_def Let_def)
      (simp add: sample_fill_event_def entry_side_def)
  show ?thesis by (simp add: replay_memberships_def empty one two)
qed

lemma sample_distinct:
  "distinct (map (ee_event_id \<circ> fst)
     [(sample_fill_event ''e1'' BUY (Dec 100 0) 1, sample_profile, None :: string option),
      (sample_fill_event ''e2'' SELL (Dec 120 0) 2, sample_profile, None)])"
  by (simp add: sample_fill_event_def)

section \<open>Replays\<close>

lemma empty_projection_ok:
  assumes "empty_projection origin = Inr s"
  shows "replay_ok s []"
    and "ledger_of s = \<lparr>lg_cash = dec_value (ac_initial_balance origin), lg_reserved = 0, lg_gross = 0,
      lg_fees = 0, lg_open = (\<lambda>_. None)\<rparr>"
    and "ac_last_sequence s = 0"
  using assms
  by (auto simp: empty_projection_def make_account_def replay_ok_def account_ok_def ledger_of_def
      open_of_def current_position_def fun_eq_iff split: if_splits)

fun ledger_run :: "execution_event list \<Rightarrow> ledger \<Rightarrow> ledger option" where
  "ledger_run [] l = Some l"
| "ledger_run (e # es) l = (case ledger_step e l of None \<Rightarrow> None | Some l' \<Rightarrow> ledger_run es l')"

lemma replay_step_apply:
  assumes "replay_step (e, p, plan) (a, ms) = Inr s"
  shows "apply_fill a e p plan = Inr (fst s)"
  using assms by (auto simp: replay_step_def bind_result_eq_Inr Let_def)

lemma replay_run:
  assumes "for_each replay_step inputs (a, ms) = Inr (a', ms')" "replay_ok a ms"
    and "distinct (map (ee_event_id \<circ> fst) inputs)"
    and "set (map (ee_event_id \<circ> fst) inputs) \<inter> ee_event_id ` fst ` set ms = {}"
  shows "replay_ok a' ms' \<and> map fst ms' = map fst ms @ map fst inputs
     \<and> ledger_run (map fst inputs) (ledger_of a) = Some (ledger_of a')"
  using assms
proof (induction inputs arbitrary: a ms)
  case (Cons input inputs)
  obtain e p plan where input: "input = (e, p, plan)" by (cases input) auto
  from Cons.prems(1) obtain s where s: "replay_step (e, p, plan) (a, ms) = Inr s"
    "for_each replay_step inputs s = Inr (a', ms')"
    by (auto simp: input bind_result_eq_Inr)
  note accepted = replay_step_apply [OF s(1)]
  have new: "ee_event_id e \<notin> ee_event_id ` fst ` set ms" using Cons.prems(4) by (auto simp: input)
  obtain i r where r: "s = (fst s, ms @ [(e, i, r)])" "replay_ok (fst s) (ms @ [(e, i, r)])"
    "ledger_step e (ledger_of a) = Some (ledger_of (fst s))"
    using replay_step_ok [OF Cons.prems(2) accepted new] s(1) by auto
  have "set (map (ee_event_id \<circ> fst) inputs) \<inter> ee_event_id ` fst ` set (ms @ [(e, i, r)]) = {}"
    using Cons.prems(3,4) by (auto simp: input)
  with Cons.IH [of "fst s" "ms @ [(e, i, r)]"] s(2) r Cons.prems(3)
  have "replay_ok a' ms'" "map fst ms' = map fst (ms @ [(e, i, r)]) @ map fst inputs"
    "ledger_run (map fst inputs) (ledger_of (fst s)) = Some (ledger_of a')"
    by (auto simp: input)
  then show ?case using r(3) by (simp add: input)
qed simp

text \<open>
  C21: A replay explains every trade by its fills. For a sequence of fills with distinct event ids that the
  allocator accepts, every fill belongs to exactly one trade, and for every trade the entered minus the
  exited quantity is what the account still holds of it, the entry notional and the fees are those of
  its fills, and its gross result is what was received minus the cost that left the position.
\<close>

theorem replay_explains_trades:
  assumes "replay_memberships origin inputs = Inr (s, ms)"
    and "distinct (map (ee_event_id \<circ> fst) inputs)"
  shows "account_ok s \<and> map fst ms = map fst inputs
     \<and> (\<forall>t\<in>set (ac_trades s). fills_explain (trade_fills ms (tr_trade_id t)) t (holding s t))"
proof -
  obtain a where a: "empty_projection origin = Inr a" "for_each replay_step inputs (a, []) = Inr (s, ms)"
    using assms(1) by (auto simp: replay_memberships_def bind_result_eq_Inr)
  from replay_run [OF a(2) empty_projection_ok(1) [OF a(1)] assms(2)]
  show ?thesis by (simp add: replay_ok_def)
qed

text \<open>
  C20: The replay of the fills is a run of the abstract ledger from the initial balance: the whole account,
  whatever its length and rounding of partial exits, is the image of plain rational bookkeeping.
\<close>

theorem replay_refines_ledger:
  assumes "replay_memberships origin inputs = Inr (s, ms)"
    and "distinct (map (ee_event_id \<circ> fst) inputs)"
  shows "ledger_run (map fst inputs) \<lparr>lg_cash = dec_value (ac_initial_balance origin),
      lg_reserved = 0, lg_gross = 0, lg_fees = 0, lg_open = (\<lambda>_. None)\<rparr> = Some (ledger_of s)"
proof -
  obtain a where a: "empty_projection origin = Inr a" "for_each replay_step inputs (a, []) = Inr (s, ms)"
    using assms(1) by (auto simp: replay_memberships_def bind_result_eq_Inr)
  from replay_run [OF a(2) empty_projection_ok(1) [OF a(1)] assms(2)] empty_projection_ok(2) [OF a(1)]
  show ?thesis by simp
qed

text \<open>A trade is closed exactly when the account holds nothing of it.\<close>

lemma closed_iff_nothing_held:
  assumes "account_ok a" "t \<in> set (ac_trades a)"
  shows "tr_closed_at t = None \<longleftrightarrow> fst (holding a t) \<noteq> 0"
    and "fst (holding a t) = 0 \<Longrightarrow> snd (holding a t) = 0" and "0 \<le> fst (holding a t)"
proof -
  have same: "v = t" if "v \<in> set (ac_trades a)" "tr_trade_id v = tr_trade_id t" for v
    using assms that by (metis account_ok_def distinct_map inj_onD)
  have backed: "position_backed (ac_trades a) p" if "p \<in> set (ac_positions a)" for p
    using assms(1) that by (simp add: account_ok_def)
  have unique: "q = q'" if "q \<in> set (ac_positions a)" "q' \<in> set (ac_positions a)"
    "ps_symbol q = ps_symbol q'" for q q'
    using assms(1) that by (metis account_ok_def distinct_map inj_onD)
  have fields: "account_fields a" using assms(1) by (simp add: account_ok_def)
  show "tr_closed_at t = None \<longleftrightarrow> fst (holding a t) \<noteq> 0"
  proof
    assume "tr_closed_at t = None"
    then obtain p where p: "p \<in> set (ac_positions a)" "ps_trade_id p = tr_trade_id t"
      "dec_value (ps_quantity p) \<noteq> 0"
      using assms by (auto simp: account_ok_def trade_backed_def)
    then obtain v where "v \<in> set (ac_trades a)" "tr_trade_id v = tr_trade_id t" "tr_symbol v = ps_symbol p"
      using backed [OF p(1)] by (auto simp: position_backed_def)
    with same have sym: "tr_symbol t = ps_symbol p" by blast
    moreover obtain q where "current_position a (ps_symbol p) = Some q"
      using p(1) by (cases "current_position a (ps_symbol p)")
        (auto simp: current_position_def find_None_iff_all)
    moreover from this have "q = p" using unique current_position_facts p(1) by blast
    ultimately show "fst (holding a t) \<noteq> 0" using p by (simp add: holding_def)
  next
    assume "fst (holding a t) \<noteq> 0"
    then obtain p where p: "current_position a (tr_symbol t) = Some p" "ps_trade_id p = tr_trade_id t"
      "dec_value (ps_quantity p) \<noteq> 0"
      by (auto simp: holding_def split: option.splits if_splits)
    with backed [OF current_position_facts(1) [OF p(1)]] same show "tr_closed_at t = None"
      by (auto simp: position_backed_def)
  qed
  show "fst (holding a t) = 0 \<Longrightarrow> snd (holding a t) = 0"
  proof -
    assume zero: "fst (holding a t) = 0"
    have "dec_value (ps_remaining_cost_basis p) = 0"
      if "current_position a (tr_symbol t) = Some p" "ps_trade_id p = tr_trade_id t" for p
      using zero that backed [OF current_position_facts(1) [OF that(1)]]
      by (simp add: holding_def position_backed_def)
    then show ?thesis by (auto simp: holding_def split: option.splits)
  qed
  show "0 \<le> fst (holding a t)"
    using account_position_fields [OF fields] current_position_facts(1)
    by (auto simp: holding_def split: option.splits)
qed

lemma display_fold:
  "fold (display_step t) es (x, y, z) = (x', y', z') \<Longrightarrow>
     dec_value x' = dec_value x + quantity_of (entries (tr_direction t) es)
     \<and> dec_value y' = dec_value y + quantity_of (exits (tr_direction t) es)
     \<and> dec_value z' = dec_value z + notional_of (exits (tr_direction t) es)"
proof (induction es arbitrary: x y z)
  case (Cons e es)
  show ?case
  proof (cases "ee_side e = entry_side (tr_direction t)")
    case True
    then show ?thesis
      using Cons.IH [of "add_decimal x (ee_quantity e)" y z] Cons.prems
      by (simp add: display_step_def entries_def exits_def quantity_of_def)
  next
    case False
    then show ?thesis
      using Cons.IH [of x "add_decimal y (ee_quantity e)"
          "add_decimal z (multiply_decimal (ee_price e) (ee_quantity e))"] Cons.prems
      by (simp add: display_step_def entries_def exits_def quantity_of_def notional_of_def)
  qed
qed (simp add: entries_def exits_def)

text \<open>
  The display of a trade of a replay never fails. Its fills always pass the membership check: the
  quantity is what was entered, the remaining quantity is what the account holds, the average entry price
  is the entry notional over that quantity when it has a finite expansion, and the status is closed
  exactly when the trade is.
\<close>

theorem fill_display_total:
  assumes "replay_memberships origin inputs = Inr (s, ms)"
    and "distinct (map (ee_event_id \<circ> fst) inputs)" and "t \<in> set (ac_trades s)"
  shows "\<exists>d. fill_display t (trade_fills ms (tr_trade_id t)) = Inr d
     \<and> dec_value (fd_quantity d) = quantity_of (entries (tr_direction t) (trade_fills ms (tr_trade_id t)))
     \<and> dec_value (fd_remaining_quantity d) = fst (holding s t)
     \<and> dec_value (fd_average_entry_price d)
         = ledger_quotient (dec_value (tr_total_entry_notional t)) (dec_value (fd_quantity d))
     \<and> (fd_status d = DISPLAY_CLOSED) = (tr_closed_at t \<noteq> None)"
proof -
  obtain a where a: "empty_projection origin = Inr a" "for_each replay_step inputs (a, []) = Inr (s, ms)"
    using assms(1) by (auto simp: replay_memberships_def bind_result_eq_Inr)
  have ok: "replay_ok s ms"
    using replay_run [OF a(2) empty_projection_ok(1) [OF a(1)] assms(2)] by simp
  let ?es = "trade_fills ms (tr_trade_id t)"
  have f: "0 < quantity_of (entries (tr_direction t) ?es)"
    "quantity_of (entries (tr_direction t) ?es) - quantity_of (exits (tr_direction t) ?es)
       = fst (holding s t)"
    using ok assms(3) by (auto simp: replay_ok_def fills_explain_def Let_def)
  have held: "tr_closed_at t = None \<longleftrightarrow> fst (holding s t) \<noteq> 0" "0 \<le> fst (holding s t)"
    using closed_iff_nothing_held ok assms(3) by (auto simp: replay_ok_def)
  obtain x y z where fold: "fold (display_step t) ?es (dec_zero, dec_zero, dec_zero) = (x, y, z)"
    by (cases "fold (display_step t) ?es (dec_zero, dec_zero, dec_zero)") auto
  from display_fold [OF fold] have v: "dec_value x = quantity_of (entries (tr_direction t) ?es)"
    "dec_value y = quantity_of (exits (tr_direction t) ?es)" by simp_all
  have "dec_coefficient x \<noteq> 0" using f(1) v(1) by (metis dec_value_zero_iff less_irrefl)
  then obtain q where q: "divide_decimal (tr_total_entry_notional t) x = Inr q"
    "dec_value q = ledger_quotient (dec_value (tr_total_entry_notional t)) (dec_value x)"
    using divide_decimal_value [of x "tr_total_entry_notional t"] by (auto simp: ledger_quotient_def)
  have "\<exists>r. (if dec_value y \<noteq> 0 then bind_result (divide_decimal z y) (\<lambda>d. Inr (Some d)) else Inr None) = Inr r"
    using divide_decimal_value [of y z] by auto
  then obtain r where r: "(if dec_value y \<noteq> 0 then bind_result (divide_decimal z y) (\<lambda>d. Inr (Some d))
      else Inr None) = Inr r" by blast
  have "\<not> (dec_value x \<le> 0 \<or> dec_value (subtract_decimal x y) < 0
      \<or> (dec_value (subtract_decimal x y) = 0) \<noteq> (tr_closed_at t \<noteq> None))"
    using f v held by auto
  then show ?thesis
    unfolding fill_display_def fold prod.case Let_def
    by (simp only: if_False q(1) bind_result_simps r) (use q v f in simp)
qed

text \<open>
  C17: The result of a closed trade is exact. However the partial exits were split and however the
  quotients were rounded on the way, once a trade is closed its gross result is the exit notional minus
  the entry notional, with the sign of its direction.
\<close>

theorem closed_trade_pnl_exact:
  assumes "replay_memberships origin inputs = Inr (s, ms)"
    and "distinct (map (ee_event_id \<circ> fst) inputs)" and "t \<in> set (ac_trades s)" "tr_closed_at t \<noteq> None"
  shows "dec_value (tr_gross_pnl t) = direction_sign (tr_direction t)
     * (notional_of (exits (tr_direction t) (trade_fills ms (tr_trade_id t)))
        - notional_of (entries (tr_direction t) (trade_fills ms (tr_trade_id t))))"
proof -
  obtain a where a: "empty_projection origin = Inr a" "for_each replay_step inputs (a, []) = Inr (s, ms)"
    using assms(1) by (auto simp: replay_memberships_def bind_result_eq_Inr)
  have ok: "replay_ok s ms"
    using replay_run [OF a(2) empty_projection_ok(1) [OF a(1)] assms(2)] by simp
  have "snd (holding s t) = 0"
    using closed_iff_nothing_held(1,2) [of s t] ok assms(3,4) by (simp add: replay_ok_def)
  then show ?thesis using ok assms(3) by (auto simp: replay_ok_def fills_explain_def Let_def)
qed

lemma replay_order:
  assumes "for_each replay_step inputs (a, ms) = Inr (s, ms')"
  shows "sorted_wrt (<) (map (pv_sequence \<circ> ee_provenance \<circ> fst) inputs)
     \<and> list_all (\<lambda>i. ac_last_sequence a < pv_sequence (ee_provenance (fst i))) inputs
     \<and> sorted (map (ee_filled_at \<circ> fst) inputs)
     \<and> list_all (\<lambda>i. ac_created_at a \<le> ee_filled_at (fst i)
          \<and> (case ac_last_filled_at a of None \<Rightarrow> True | Some t \<Rightarrow> t \<le> ee_filled_at (fst i))
          \<and> ee_filled_at (fst i) \<le> ee_received_at (fst i)) inputs"
  using assms
proof (induction inputs arbitrary: a ms)
  case (Cons input inputs)
  obtain e p plan where input: "input = (e, p, plan)" by (cases input) auto
  from Cons.prems obtain st where s: "replay_step (e, p, plan) (a, ms) = Inr st"
    "for_each replay_step inputs st = Inr (s, ms')"
    by (auto simp: input bind_result_eq_Inr)
  have accepted: "apply_fill a e p plan = Inr (fst st)" using replay_step_apply [OF s(1)] .
  from accepted obtain gross t ts pos where book: "book_fill a e gross t ts pos = Inr (fst st)"
    and scope: "check_fill_scope a e p = Inr ()" by (rule apply_fill_cases)
  have here: "ac_last_sequence a < pv_sequence (ee_provenance e)" "ac_created_at a \<le> ee_filled_at e"
    "case ac_last_filled_at a of None \<Rightarrow> True | Some t \<Rightarrow> t \<le> ee_filled_at e"
    using scope by (auto simp: check_fill_scope_def bind_result_eq_Inr not_less opt_ex_def
        split: if_splits option.splits)
  have seen: "ee_filled_at e \<le> ee_received_at e"
    using accepted by (auto simp: apply_fill_def bind_result_eq_Inr make_execution_event_def split: if_splits)
  have st: "ac_last_sequence (fst st) = pv_sequence (ee_provenance e)"
    "ac_created_at (fst st) = ac_created_at a" "ac_last_filled_at (fst st) = Some (ee_filled_at e)"
    by (subst book_fill_account(1) [OF book], simp)+
  from Cons.IH [of "fst st" "snd st"] s(2) st here seen show ?case
    by (auto simp: input list_all_iff split: option.splits)
qed simp

text \<open>
  Fills are admitted in order. In an accepted replay the sequence numbers strictly increase, no fill
  precedes an earlier one or the account, and no fill is received before it took place.
\<close>

theorem replay_in_order:
  assumes "replay_memberships origin inputs = Inr (s, ms)"
  shows "sorted_wrt (<) (map (pv_sequence \<circ> ee_provenance \<circ> fst) inputs)
     \<and> sorted (ac_created_at origin # map (ee_filled_at \<circ> fst) inputs)
     \<and> list_all (\<lambda>i. ee_filled_at (fst i) \<le> ee_received_at (fst i)) inputs"
proof -
  obtain a where a: "empty_projection origin = Inr a" "for_each replay_step inputs (a, []) = Inr (s, ms)"
    using assms(1) by (auto simp: replay_memberships_def bind_result_eq_Inr)
  have "ac_created_at a = ac_created_at origin" "ac_last_filled_at a = None"
    using a(1) by (auto simp: empty_projection_def make_account_def split: if_splits)
  then show ?thesis using replay_order [OF a(2)] by (auto simp: list_all_iff)
qed

theorem replay_explains_trades_witness:
  "\<exists>s ms. replay_memberships sample_origin
     [(sample_fill_event ''e1'' BUY (Dec 100 0) 1, sample_profile, None),
      (sample_fill_event ''e2'' SELL (Dec 120 0) 2, sample_profile, None)] = Inr (s, ms)
     \<and> fills_explain (trade_fills ms ''e1'') (sample_trade (Some 2) (Dec 60 0) (Dec 2 0)) (0, 0)"
proof -
  let ?t = "sample_trade (Some 2) (Dec 60 0) (Dec 2 0)"
  have t: "?t \<in> set (ac_trades sample_closed)" "tr_trade_id ?t = ''e1''" "holding sample_closed ?t = (0, 0)"
    by (simp_all add: sample_closed_def sample_trade_def holding_def current_position_def sample_position_def)
  show ?thesis
    using replay_explains_trades [OF sample_run sample_distinct] t sample_run by fastforce
qed

theorem replay_refines_ledger_witness:
  "\<exists>s ms. replay_memberships sample_origin
     [(sample_fill_event ''e1'' BUY (Dec 100 0) 1, sample_profile, None),
      (sample_fill_event ''e2'' SELL (Dec 120 0) 2, sample_profile, None)] = Inr (s, ms)
     \<and> lg_cash (ledger_of s) = 1058
     \<and> ledger_run [sample_fill_event ''e1'' BUY (Dec 100 0) 1, sample_fill_event ''e2'' SELL (Dec 120 0) 2]
         \<lparr>lg_cash = 1000, lg_reserved = 0, lg_gross = 0, lg_fees = 0, lg_open = (\<lambda>_. None)\<rparr>
         = Some (ledger_of s)"
proof -
  have "dec_value (ac_initial_balance sample_origin) = 1000" "lg_cash (ledger_of sample_closed) = 1058"
    by (simp_all add: sample_origin_def ledger_of_def sample_closed_def)
  with replay_refines_ledger [OF sample_run sample_distinct] sample_run show ?thesis by auto
qed

theorem closed_trade_pnl_exact_witness:
  "dec_value (tr_gross_pnl (sample_trade (Some 2) (Dec 60 0) (Dec 2 0))) = 1 * (120 * 3 - 100 * 3)"
proof -
  have "sample_trade (Some 2) (Dec 60 0) (Dec 2 0) \<in> set (ac_trades sample_closed)"
    "tr_closed_at (sample_trade (Some 2) (Dec 60 0) (Dec 2 0)) \<noteq> None"
    by (simp_all add: sample_closed_def sample_trade_def)
  from closed_trade_pnl_exact [OF sample_run sample_distinct this] show ?thesis
    by (simp add: trade_fills_def sample_trade_def entries_def exits_def notional_of_def entry_side_def
        sample_fill_event_def direction_sign_def)
qed

end
