(* ===== verification/Paper_Adapter.thy ===== *)
theory Paper_Adapter
  imports Trade_Projection
begin

text \<open>
  \<open>execution/adapters/paper.py\<close> and \<open>execution/registry.py\<close>: the closed-candle simulator that proposes
  a fill for an order, the check it makes on every event it hands on, and the server-owned registry. The
  random event id and the digest of the observed candle are parameters.
\<close>

section \<open>The adapter\<close>

definition paper_provider :: string where "paper_provider = ''PAPER''"

definition paper_adapter_version :: string where "paper_adapter_version = ''PAPER_V1''"

definition paper_execution_policy :: string where "paper_execution_policy = ''PAPER_CLOSED_1M_V1''"

definition paper_fee_rate :: decimal where "paper_fee_rate = Dec 1 (- 3)"

definition paper_fee :: "decimal \<Rightarrow> decimal \<Rightarrow> decimal" where
  "paper_fee price quantity = multiply_decimal (multiply_decimal price quantity) paper_fee_rate"

definition paper_submit_order :: "order \<Rightarrow> order_submission result" where
  "paper_submit_order r = make_order_submission
     \<lparr>os_status = SUBMISSION_ACKNOWLEDGED, os_external_order_id = Some (od_order_id r),
      os_reason = None\<rparr>"

definition paper_cancel_order :: "order \<Rightarrow> cancellation_status" where
  "paper_cancel_order r = CANCELLATION_DONE"

definition paper_get_order :: "order \<Rightarrow> order_submission result" where
  "paper_get_order r = paper_submit_order r"

definition paper_get_account :: "account \<Rightarrow> account result" where
  "paper_get_account a = make_account a"

definition paper_get_positions :: "account \<Rightarrow> position list result" where
  "paper_get_positions a = bind_result (paper_get_account a) (\<lambda>b. Inr (ac_positions b))"

definition paper_normalize_event :: "execution_event \<Rightarrow> execution_event result" where
  "paper_normalize_event payload =
     bind_result (make_execution_event payload) (\<lambda>parsed.
       if pv_provider (ee_provenance parsed) \<noteq> paper_provider
          \<or> pv_adapter_version (ee_provenance parsed) \<noteq> paper_adapter_version
          \<or> pv_execution_policy_version (ee_provenance parsed) \<noteq> Some paper_execution_policy
          \<or> pv_observation_hash (ee_provenance parsed) = None
          \<or> length (ee_fees parsed) \<noteq> 1
          \<or> dec_value (total_fee parsed) \<noteq> dec_value (paper_fee (ee_price parsed) (ee_quantity parsed))
       then Inl (ValueError ''invalid PAPER policy evidence'') else Inr parsed)"

text \<open>What the simulator reads of a closed one-minute candle, with its decimals as they are written.\<close>

record paper_candle =
  pc_timestamp :: utc_time
  pc_low :: decimal
  pc_high :: decimal
  pc_close :: decimal

text \<open>The price of a fill: the limit when the candle reaches it, the close for a market order.\<close>

definition fill_price :: "order_intent \<Rightarrow> paper_candle \<Rightarrow> decimal option result" where
  "fill_price i c =
     (if oi_kind i = KIND_LIMIT
      then case oi_limit_price i of
        None \<Rightarrow> Inl AssertionError
      | Some price \<Rightarrow>
          if oi_side i = BUY \<and> dec_value (pc_low c) > dec_value price
             \<or> oi_side i = SELL \<and> dec_value (pc_high c) < dec_value price
          then Inr None else Inr (Some price)
      else Inr (Some (pc_close c)))"

definition proposed_event :: "order \<Rightarrow> paper_candle \<Rightarrow> decimal \<Rightarrow> decimal \<Rightarrow> string \<Rightarrow> string \<Rightarrow> string
    \<Rightarrow> utc_time \<Rightarrow> int \<Rightarrow> string \<Rightarrow> execution_event" where
  "proposed_event r c price quantity external_order_id event_id execution_source received_at sequence
      observation_hash =
     \<lparr>ee_event_id = event_id, ee_execution_source = execution_source,
      ee_trading_account_id = od_account_id r, ee_internal_order_id = od_order_id r,
      ee_external_order_id = external_order_id,
      ee_external_fill_id = od_order_id r @ ''/complete'', ee_symbol = oi_symbol (od_intent r),
      ee_instrument_reference = od_instrument_reference r, ee_side = oi_side (od_intent r),
      ee_price = price, ee_quantity = quantity, ee_fees = [paper_fee price quantity],
      ee_filled_at = pc_timestamp c + minutes 1, ee_received_at = received_at,
      ee_provenance = \<lparr>pv_provider = paper_provider, pv_adapter_version = paper_adapter_version,
        pv_sequence = sequence, pv_execution_policy_version = Some paper_execution_policy,
        pv_observation_hash = Some observation_hash\<rparr>\<rparr>"

definition propose_fill :: "string \<Rightarrow> (paper_candle \<Rightarrow> string \<Rightarrow> string) \<Rightarrow> order \<Rightarrow> paper_candle \<Rightarrow> string
    \<Rightarrow> utc_time \<Rightarrow> int \<Rightarrow> string \<Rightarrow> execution_event option result" where
  "propose_fill event_id content_hash r c execution_source received_at sequence market_source =
     (if pc_timestamp c \<le> od_accepted_at r then Inr None
      else bind_result (fill_price (od_intent r) c) (\<lambda>found. case found of
        None \<Rightarrow> Inr None
      | Some price \<Rightarrow>
          let quantity = subtract_decimal (oi_quantity (od_intent r)) (od_filled_quantity r)
          in if dec_value quantity \<le> 0 then Inr None
             else case od_external_order_id r of
               None \<Rightarrow> Inl AssertionError
             | Some external \<Rightarrow> bind_result (make_execution_event
                 (proposed_event r c price quantity external event_id execution_source received_at
                    sequence (content_hash c market_source))) (\<lambda>e. Inr (Some e))))"

section \<open>The registry\<close>

text \<open>Adapters are any values with a provider name.\<close>

definition make_registry :: "('a \<Rightarrow> string) \<Rightarrow> (string \<times> 'a) list \<Rightarrow> (string \<rightharpoonup> 'a) result" where
  "make_registry provider adapters =
     (if list_ex (\<lambda>(key, adapter). key \<noteq> provider adapter) adapters
      then Inl (ValueError ''provider registry identity mismatch'') else Inr (map_of adapters))"

definition resolve_provider :: "(string \<rightharpoonup> 'a) \<Rightarrow> string \<Rightarrow> 'a result" where
  "resolve_provider adapters provider =
     (case adapters provider of
        None \<Rightarrow> Inl (ValueError ''execution provider UNSUPPORTED / NOT_READY'')
      | Some adapter \<Rightarrow> Inr adapter)"

section \<open>Proposals are honest\<close>

lemma make_execution_event_same: "make_execution_event e = Inr e' \<Longrightarrow> e' = e"
  by (auto simp: make_execution_event_def split: if_splits)

lemma propose_fill_Some:
  assumes "propose_fill event_id h r c source received_at n market = Inr (Some e)"
  obtains price external where "od_accepted_at r < pc_timestamp c" "fill_price (od_intent r) c = Inr (Some price)"
    "dec_value (od_filled_quantity r) < dec_value (oi_quantity (od_intent r))"
    "od_external_order_id r = Some external"
    "e = proposed_event r c price (subtract_decimal (oi_quantity (od_intent r)) (od_filled_quantity r))
       external event_id source received_at n (h c market)"
    "make_execution_event e = Inr e"
proof -
  have late: "od_accepted_at r < pc_timestamp c"
    using assms by (auto simp: propose_fill_def split: if_splits)
  with assms obtain found where "fill_price (od_intent r) c = Inr found" "found \<noteq> None"
    by (auto simp: propose_fill_def bind_result_eq_Inr split: option.splits)
  then obtain price where price: "fill_price (od_intent r) c = Inr (Some price)" by blast
  then have open_quantity: "dec_value (od_filled_quantity r) < dec_value (oi_quantity (od_intent r))"
    using assms late by (auto simp: propose_fill_def Let_def not_le split: if_splits)
  with assms late price obtain external where external: "od_external_order_id r = Some external"
    by (cases "od_external_order_id r") (auto simp: propose_fill_def Let_def)
  have made: "make_execution_event (proposed_event r c price
      (subtract_decimal (oi_quantity (od_intent r)) (od_filled_quantity r)) external event_id source
      received_at n (h c market)) = Inr e"
    using assms late price open_quantity external
    by (auto simp: propose_fill_def Let_def bind_result_eq_Inr)
  from make_execution_event_same [OF this] made that late price open_quantity external
  show thesis by blast
qed

text \<open>
  C24: A simulated fill is honest. It is proposed only for a candle that opened after the order was
  accepted, at the close of that candle, for exactly the open quantity of the order. A limit order is
  filled at its limit and only when the candle reaches the limit; a market order at the close. The fee is
  exactly one tenth of a percent of the notional, and the event passes the adapter's own check.
\<close>

theorem paper_fill_honest:
  assumes "propose_fill event_id h r c source received_at n market = Inr (Some e)"
  shows "od_accepted_at r < pc_timestamp c \<and> ee_filled_at e = pc_timestamp c + minutes 1
     \<and> ee_filled_at e \<le> ee_received_at e
     \<and> dec_value (od_filled_quantity r) + dec_value (ee_quantity e) = dec_value (oi_quantity (od_intent r))
     \<and> 0 < dec_value (ee_quantity e) \<and> ee_side e = oi_side (od_intent r)
     \<and> (case oi_kind (od_intent r) of
          KIND_MARKET \<Rightarrow> ee_price e = pc_close c
        | KIND_LIMIT \<Rightarrow> oi_limit_price (od_intent r) = Some (ee_price e)
            \<and> (if ee_side e = BUY then dec_value (pc_low c) \<le> dec_value (ee_price e)
               else dec_value (ee_price e) \<le> dec_value (pc_high c)))
     \<and> dec_value (total_fee e) = dec_value (ee_price e) * dec_value (ee_quantity e) / 1000
     \<and> paper_normalize_event e = Inr e"
proof -
  from assms obtain price external where f: "od_accepted_at r < pc_timestamp c"
    "fill_price (od_intent r) c = Inr (Some price)"
    "dec_value (od_filled_quantity r) < dec_value (oi_quantity (od_intent r))"
    "e = proposed_event r c price (subtract_decimal (oi_quantity (od_intent r)) (od_filled_quantity r))
       external event_id source received_at n (h c market)"
    "make_execution_event e = Inr e"
    by (rule propose_fill_Some)
  have fee: "dec_value (total_fee e) = dec_value (paper_fee (ee_price e) (ee_quantity e))"
    by (simp add: f(4) proposed_event_def total_fee_def sum_decimal_value)
  have rate: "dec_value paper_fee_rate = 1 / 1000"
    by (simp add: paper_fee_rate_def power_int_minus)
  have "case oi_kind (od_intent r) of KIND_MARKET \<Rightarrow> ee_price e = pc_close c
        | KIND_LIMIT \<Rightarrow> oi_limit_price (od_intent r) = Some (ee_price e)
            \<and> (if ee_side e = BUY then dec_value (pc_low c) \<le> dec_value (ee_price e)
               else dec_value (ee_price e) \<le> dec_value (pc_high c))"
    using f(2) by (cases "oi_side (od_intent r)")
      (auto simp: fill_price_def f(4) proposed_event_def split: order_kind.splits option.splits if_splits)
  moreover have "ee_filled_at e \<le> ee_received_at e"
    using f(5) by (auto simp: make_execution_event_def split: if_splits)
  moreover have "paper_normalize_event e = Inr e"
    using f(5) fee by (simp add: paper_normalize_event_def)
      (simp add: f(4) proposed_event_def)
  ultimately show ?thesis
    using f(1,3) fee rate by (simp add: paper_fee_def) (simp add: f(4) proposed_event_def)
qed

section \<open>A sample proposal\<close>

definition sample_order :: order where
  "sample_order =
     \<lparr>od_order_id = ''o'', od_account_id = ''acc'',
      od_intent = \<lparr>oi_command_id = ''cmd'', oi_symbol = ''BTC'', oi_side = BUY, oi_kind = KIND_LIMIT,
        oi_quantity = Dec 3 0, oi_limit_price = Some (Dec 100 0), oi_plan_reference = None\<rparr>,
      od_instrument_reference = ''ref'', od_accepted_at = 0,
      od_submission_status = SUBMISSION_ACKNOWLEDGED, od_external_order_id = Some ''x'',
      od_rejection_reason = None, od_reduce_only = False, od_bound_trade_id = None,
      od_filled_quantity = Dec 0 0, od_cancelled_at = None, od_cancellation_status = None,
      od_last_observation_at = None\<rparr>"

definition sample_paper_candle :: paper_candle where
  "sample_paper_candle =
     \<lparr>pc_timestamp = minutes 1, pc_low = Dec 99 0, pc_high = Dec 103 0, pc_close = Dec 101 0\<rparr>"

definition sample_hash :: "paper_candle \<Rightarrow> string \<Rightarrow> string" where
  "sample_hash c s = replicate 64 CHR ''0''"

lemma sample_proposal:
  "\<exists>e. propose_fill ''e1'' sample_hash sample_order sample_paper_candle ''src'' (minutes 3) 1 ''m''
     = Inr (Some e)"
proof -
  have more: "valid_identifier ''o/complete''" "valid_identifier ''PAPER_V1''"
    "valid_identifier ''PAPER_CLOSED_1M_V1''" "money_bounded (Dec 300 (- 3))"
    by (simp_all add: valid_identifier_def identifier_char_def money_bounded_def dec_width_def ndigits.simps)
  have hash: "hex_digest (sample_hash sample_paper_candle ''m'')"
    by (simp add: hex_digest_def sample_hash_def list_all_iff)
  have time: "minutes 1 + minutes 1 \<le> minutes 3" "\<not> minutes 1 \<le> 0"
    by (simp_all add: minutes_def seconds_def)
  have "subtract_decimal (Dec 3 0) (Dec 0 0) = Dec 3 0"
    by (simp add: subtract_decimal_def dec_negate_def add_decimal_eq)
  moreover have "paper_fee (Dec 100 0) (Dec 3 0) = Dec 300 (- 3)"
    by (simp add: paper_fee_def multiply_decimal_eq paper_fee_rate_def)
  moreover have "fill_price (od_intent sample_order) sample_paper_candle = Inr (Some (Dec 100 0))"
    by (simp add: fill_price_def sample_order_def sample_paper_candle_def)
  ultimately show ?thesis
    using hash time
    by (simp add: propose_fill_def Let_def sample_order_def sample_paper_candle_def
        make_execution_event_def sample_fields more proposed_event_def paper_provider_def
        paper_adapter_version_def paper_execution_policy_def)
qed

theorem paper_fill_honest_witness:
  "\<exists>e. propose_fill ''e1'' sample_hash sample_order sample_paper_candle ''src'' (minutes 3) 1 ''m''
     = Inr (Some e) \<and> paper_normalize_event e = Inr e"
  using sample_proposal paper_fill_honest by blast

end
