(* ===== verification/Spec2Isabelle.thy ===== *)
theory Spec2Isabelle
  imports Resampling Hot_Structure Indicators FVG_Replay Strategy_Pipeline Liquidity_Engine Risk_Engine Signal_Score Backtest_Metrics Paper_Adapter
begin

text \<open>
  A verification library for the backend of the trading platform (\<open>src/backend/app\<close>).

  The program turns closed candles into evaluated trade signals, replays the signals over later
  candles, and aggregates the outcomes. Every part is a pure function of frozen, validated records,
  and the claims a reader relies on are: nothing looks ahead, nothing resolves in favour of the trader
  without evidence, every validator agrees with what the engines build, and every error is explicit.

  Conventions. A pydantic model or frozen dataclass is a \<open>record\<close>; its validators are a function
  \<open>make_X\<close> into \<open>py_error + 'a\<close>, and \<open>X_valid\<close> says that the validators accept. Raises are values:
  \<open>ValidationError\<close> for pydantic, \<open>ValueError\<close> and the rest for direct raises; interpolated parts
  of messages are abbreviated. Instants are integers in microseconds since the epoch (the platform
  accepts UTC only). A \<open>Decimal\<close> is a rational, and each arithmetic operation of the default context
  rounds to 28 significant digits, half to even, exactly where the code applies it (\<open>Decimal_Context\<close>).
  Random identifiers and hashes are parameters.

  Theories, in the order of their imports:

  \<^item> \<open>Prelude\<close>: errors, results, loops that may raise, minimum by a key, decimal digits.
  \<^item> \<open>Decimal_Context\<close>: the default context of \<open>decimal\<close> and when it is exact.
  \<^item> \<open>Digit_Text\<close>, \<open>Iso_Time\<close>: digits of numbers and the text of an instant, which is injective; the
    identifiers of the engines are built from it.
  \<^item> \<open>Market_Data\<close>: candles, timeframes, their buckets, ordering and alignment checks.
  \<^item> \<open>Resampling\<close>: \<open>market_data/resampling.py\<close>; point-in-time and soundness.
  \<^item> \<open>Market_Structure\<close>: \<open>schemas/structure.py\<close> and \<open>engines/structure/primitives.py\<close>, swings, zones,
    trend and breaks; the bookkeeping of the engine against definitions without it.
  \<^item> \<open>Replay\<close>: the locale \<open>replay\<close> states what an append-only state owes the analysis it stands for.
  \<^item> \<open>Incremental_Structure\<close>, \<open>Hot_Structure\<close>: \<open>_StructureState\<close> of
    \<open>engines/incremental_strategy_engine.py\<close> and \<open>engines/structure/hot_structure.py\<close>; both interpret
    \<open>replay\<close> on the analysis of \<open>Market_Structure\<close>.
  \<^item> \<open>Indicators\<close>: \<open>engines/indicators/calculations.py\<close> and the indicator state of the replay, with
    every rounding.
  \<^item> \<open>FVG\<close>: \<open>schemas/fvg.py\<close> and \<open>engines/smc/fvg.py\<close>, fair value gaps, their fills, inversions and
    lifecycle events; the loop over active positions against a fold over all gaps.
  \<^item> \<open>FVG_Replay\<close>: the gap states \<open>_FVGState\<close> and \<open>engines/smc/hot_fvg.py\<close> behind the indicator state, as
    the engines compose them; both interpret \<open>replay\<close> on the analyses of \<open>Indicators\<close> and \<open>FVG\<close>.
  \<^item> \<open>Displacement\<close>: \<open>schemas/displacement.py\<close> and \<open>engines/smc/displacement.py\<close>, the legs of structure
    breaks; the index of gaps by their last source against a scan of all gaps.
  \<^item> \<open>Strategy_Pipeline\<close>: these engines in the order of \<open>evaluate\<close> in \<open>engines/strategy_engine.py\<close>; a
    prefix of the candles gives what was known at its close.
  \<^item> \<open>Liquidity\<close>: liquidity pools and their snapshots (\<open>schemas/liquidity.py\<close>).
  \<^item> \<open>Liquidity_Engine\<close>: \<open>engines/structure/liquidity.py\<close>, the detection of pools and their interactions;
    its indices by price and age against plain loops over all live pools and clusters.
  \<^item> \<open>Signal_Schemas\<close>: the signal a caller sees (\<open>schemas/signal.py\<close>).
  \<^item> \<open>Risk_Engine\<close>: \<open>engines/risk/calculations.py\<close>, stop, target and reward to risk.
  \<^item> \<open>CRT_Detector\<close>: \<open>engines/crt/detector.py\<close>, candle range confirmations.
  \<^item> \<open>Signal_Score\<close>: \<open>engines/signal/score.py\<close>, the weighted score and its gates.
  \<^item> \<open>Signal_Lifecycle\<close>: \<open>engines/signal/lifecycle.py\<close>, a state machine over candles, parametric
    in the entry policy; the locale \<open>entry_resolver\<close> states what it asks of a policy.
  \<^item> \<open>Backtest_Execution\<close>: \<open>backtesting/execution.py\<close>, conservative entry and exit fills; it
    interprets \<open>entry_resolver\<close> on the policy the backtest uses.
  \<^item> \<open>Financial_Metrics\<close>, \<open>Backtest_Metrics\<close>: \<open>metrics/financial.py\<close>, \<open>backtesting/metrics.py\<close> and the
    trades and metrics of \<open>schemas/backtest.py\<close>.
  \<^item> \<open>Decimal_Policy\<close>: \<open>execution/decimal_policy.py\<close>, digit by digit; the paper side of the platform
    does not use the default context but exact arithmetic.
  \<^item> \<open>Execution_Models\<close>: \<open>execution/models.py\<close>; the locale \<open>exact_arithmetic\<close> is what the ledger asks
    of its arithmetic, interpreted on the policy.
  \<^item> \<open>Accounting\<close>: \<open>execution/accounting.py\<close>, the allocator, its invariant \<open>account_ok\<close> and the
    abstract ledger it refines.
  \<^item> \<open>Trade_Projection\<close>: \<open>execution/trade_projection.py\<close>, replays and the display of a trade.
  \<^item> \<open>Paper_Adapter\<close>: \<open>execution/adapters/paper.py\<close> and \<open>execution/registry.py\<close>.

  Not modelled: the liquidity replay state (\<open>hot_liquidity.py\<close>), the order block, multi-timeframe and entry setup engines and the gates of
  \<open>evaluate\<close> that rest on them; the runner, the journal, the workers and the services, which are reads
  and writes of a database; HTTP, authentication, market data providers, migrations and the frontend.
\<close>

end
